(* ===== verification/Prelude.thy ===== *)
theory Prelude
  imports Main "HOL-Library.Word"
begin

text \<open>
  What the component theories share: the machine integers of the code, its panics as
  values, byte order, Rust slices (\<open>chunks\<close>, \<open>get\<close>) and the ordered map of the
  standard library (\<open>BTreeMap\<close>) with the laws its clients rely on.
\<close>

unbundle bit_operations_syntax

section \<open>Machine integers\<close>

type_synonym u8 = "8 word"
type_synonym u16 = "16 word"
type_synonym u32 = "32 word"
type_synonym u64 = "64 word"

text \<open>
  Lengths and indices (\<open>usize\<close>) are natural numbers: they count elements of vectors that
  exist in memory, so they never reach the end of the type.
\<close>

type_synonym usize = nat

lemma unat_range: "unat (w :: 'a::len word) < 2 ^ LENGTH('a)"
  by (rule unsigned_less)

lemma u8_range: "unat (w :: u8) < 256"
  using unat_range [of w] by simp

text \<open>Truncating casts (\<open>as u8\<close>) commute with wrapping addition; widening ones keep the value.\<close>

lemma ucast_u8_add: "(ucast (a + b) :: u8) = ucast a + ucast b" for a b :: u32
  by (simp add: word_unat_eq_iff unsigned_ucast_eq unat_word_ariths take_bit_eq_mod
      mod_mod_cancel mod_simps)

lemma unat_ucast_u8_wide:
  assumes "8 \<le> LENGTH('a::len)"
  shows "unat (ucast b :: 'a word) = unat (b :: u8)"
proof -
  have "(256::nat) \<le> 2 ^ LENGTH('a)"
    using power_increasing [OF assms, of "2::nat"] by simp
  then have "unat b < 2 ^ LENGTH('a)"
    using u8_range [of b] by linarith
  then show ?thesis
    unfolding unsigned_ucast_eq by (rule take_bit_nat_eq_self)
qed

lemma unat_ucast_u8_u32 [simp]: "unat (ucast b :: u32) = unat (b :: u8)"
  by (rule unat_ucast_u8_wide) simp

lemma unat_ucast_u8_u16 [simp]: "unat (ucast b :: u16) = unat (b :: u8)"
  by (rule unat_ucast_u8_wide) simp

lemma ucast_u8_u32_u8 [simp]: "(ucast (ucast b :: u32) :: u8) = b"
  by (rule bit_word_eqI) (auto simp: bit_simps)

lemma ucast_u16_u8_u16:
  assumes "unat w \<le> 255"
  shows "ucast (ucast w :: u8) = (w :: u16)"
proof -
  have "unat (ucast w :: u8) = take_bit 8 (unat w)"
    unfolding unsigned_ucast_eq by simp
  also have "\<dots> = unat w"
    using assms by (intro take_bit_nat_eq_self) simp
  finally show ?thesis
    by (simp only: word_unat_eq_iff unat_ucast_u8_u16)
qed

lemma sum_list_concat: "sum_list (concat xss) = sum_list (map sum_list xss)"
  for xss :: "'a::comm_monoid_add list list"
  by (induction xss) simp_all

named_theorems model_simps \<open>unfolding equations of the model's small definitions\<close>

section \<open>Panics\<close>

text \<open>
  Rust's \<open>unwrap\<close>, \<open>expect\<close>, \<open>panic!\<close> and out-of-bounds indexing abort the thread.
  A function that can do so returns a sum: \<open>Inl\<close> the panic, \<open>Inr\<close> the value.
\<close>

datatype panic =
    Unwrap_None
  | Expect_Failed string
  | Explicit_Panic string
  | Index_Out_Of_Bounds

definition sum_bind :: "'e + 'a \<Rightarrow> ('a \<Rightarrow> 'e + 'b) \<Rightarrow> 'e + 'b" where
  "sum_bind m f = (case m of Inl e \<Rightarrow> Inl e | Inr x \<Rightarrow> f x)"

lemma sum_bind_simps [simp]:
  "sum_bind (Inl e) f = Inl e"
  "sum_bind (Inr x) f = f x"
  by (simp_all add: sum_bind_def)

lemma sum_bind_Inr_iff:
  "sum_bind m f = Inr y \<longleftrightarrow> (\<exists>x. m = Inr x \<and> f x = Inr y)"
  by (cases m) auto

lemma sum_bind_Inr_E [elim?]:
  assumes "sum_bind m f = Inr y"
  obtains x where "m = Inr x" and "f x = Inr y"
  using assms by (auto simp: sum_bind_Inr_iff)

lemma sum_bind_Inl_iff:
  "sum_bind m f = Inl e \<longleftrightarrow> m = Inl e \<or> (\<exists>x. m = Inr x \<and> f x = Inl e)"
  by (cases m) auto

lemma sum_bind_cong [fundef_cong]:
  "m = m' \<Longrightarrow> (\<And>x. m' = Inr x \<Longrightarrow> f x = g x) \<Longrightarrow> sum_bind m f = sum_bind m' g"
  by (cases m') simp_all

definition expect :: "string \<Rightarrow> 'a option \<Rightarrow> panic + 'a" where
  "expect msg r = (case r of None \<Rightarrow> Inl (Expect_Failed msg) | Some x \<Rightarrow> Inr x)"

lemma expect_simps [simp]:
  "expect msg None = Inl (Expect_Failed msg)"
  "expect msg (Some x) = Inr x"
  by (simp_all add: expect_def)

section \<open>Checked arithmetic\<close>

text \<open>The bound of \<open>usize\<close> and \<open>u64\<close>, for the checked operations.\<close>

definition usize_bound :: nat where
  "usize_bound = 2 ^ 64"

definition checked_add :: "usize \<Rightarrow> usize \<Rightarrow> usize option" where
  "checked_add a b = (if a + b < usize_bound then Some (a + b) else None)"

definition checked_mul :: "usize \<Rightarrow> usize \<Rightarrow> usize option" where
  "checked_mul a b = (if a * b < usize_bound then Some (a * b) else None)"

section \<open>Slices and arrays\<close>

text \<open>\<open>slice.get(i)\<close>: \<open>None\<close> out of range.\<close>

definition slice_get :: "'a list \<Rightarrow> usize \<Rightarrow> 'a option" where
  "slice_get xs i = (if i < length xs then Some (xs ! i) else None)"

lemma slice_get_Some [simp]: "slice_get xs i = Some x \<longleftrightarrow> i < length xs \<and> xs ! i = x"
  by (auto simp: slice_get_def)

lemma slice_get_None [simp]: "slice_get xs i = None \<longleftrightarrow> length xs \<le> i"
  by (auto simp: slice_get_def)

text \<open>
  \<open>slice.chunks(n)\<close>: consecutive pieces of length \<open>n\<close>, the last one possibly shorter.
  Rust panics for \<open>n = 0\<close>; the code only uses positive constants.
\<close>

function chunks :: "usize \<Rightarrow> 'a list \<Rightarrow> 'a list list" where
  "chunks n xs = (if n = 0 \<or> xs = [] then [] else take n xs # chunks n (drop n xs))"
  by pat_completeness auto
termination
  by (relation "measure (\<lambda>(n, xs). length xs)") auto

declare chunks.simps [simp del]

lemma chunks_Nil [simp]: "chunks n [] = []"
  by (simp add: chunks.simps)

lemma concat_chunks: "0 < n \<Longrightarrow> concat (chunks n xs) = xs"
proof (induction n xs rule: chunks.induct)
  case (1 n xs)
  then show ?case by (cases "xs = []") (simp_all add: chunks.simps [of n xs])
qed

lemma length_chunks_le: "c \<in> set (chunks n xs) \<Longrightarrow> length c \<le> n"
proof (induction n xs rule: chunks.induct)
  case (1 n xs)
  then show ?case by (auto simp: chunks.simps [of n xs] split: if_splits)
qed

text \<open>
  \<open>slice.chunks_exact(n)\<close> yields only the full pieces; its \<open>remainder\<close> is what is left.
\<close>

function chunks_exact :: "usize \<Rightarrow> 'a list \<Rightarrow> 'a list list" where
  "chunks_exact n xs =
     (if n = 0 \<or> length xs < n then [] else take n xs # chunks_exact n (drop n xs))"
  by pat_completeness auto
termination
  by (relation "measure (\<lambda>(n, xs). length xs)") auto

declare chunks_exact.simps [simp del]

function chunks_remainder :: "usize \<Rightarrow> 'a list \<Rightarrow> 'a list" where
  "chunks_remainder n xs =
     (if n = 0 \<or> length xs < n then xs else chunks_remainder n (drop n xs))"
  by pat_completeness auto
termination
  by (relation "measure (\<lambda>(n, xs). length xs)") auto

declare chunks_remainder.simps [simp del]

lemma concat_chunks_exact: "concat (chunks_exact n xs) @ chunks_remainder n xs = xs"
proof (induction n xs rule: chunks_exact.induct)
  case (1 n xs)
  then show ?case
    by (cases "n = 0 \<or> length xs < n")
       (auto simp: chunks_exact.simps [of n xs] chunks_remainder.simps [of n xs])
qed

lemma length_chunks_exact: "c \<in> set (chunks_exact n xs) \<Longrightarrow> length c = n"
proof (induction n xs rule: chunks_exact.induct)
  case (1 n xs)
  then show ?case by (auto simp: chunks_exact.simps [of n xs] split: if_splits)
qed

text \<open>\<open>&xs[a..b]\<close> and \<open>xs[a..b].copy_from_slice(src)\<close>, with their bounds checks.\<close>

definition sub_slice :: "'a list \<Rightarrow> usize \<Rightarrow> usize \<Rightarrow> panic + 'a list" where
  "sub_slice xs a b =
     (if a \<le> b \<and> b \<le> length xs then Inr (take (b - a) (drop a xs)) else Inl Index_Out_Of_Bounds)"

definition copy_into :: "'a list \<Rightarrow> usize \<Rightarrow> usize \<Rightarrow> 'a list \<Rightarrow> panic + 'a list" where
  "copy_into dst a b src =
     (if a \<le> b \<and> b \<le> length dst \<and> length src = b - a
      then Inr (take a dst @ src @ drop b dst) else Inl Index_Out_Of_Bounds)"

lemma sub_slice_ok [simp]: "a \<le> b \<Longrightarrow> b \<le> length xs \<Longrightarrow> sub_slice xs a b = Inr (take (b - a) (drop a xs))"
  by (simp add: sub_slice_def)

lemma copy_into_ok [simp]:
  "b \<le> length dst \<Longrightarrow> length src = b - a \<Longrightarrow> a \<le> b \<Longrightarrow>
    copy_into dst a b src = Inr (take a dst @ src @ drop b dst)"
  by (simp add: copy_into_def)

section \<open>Byte order\<close>

text \<open>\<open>u16::to_be_bytes\<close>, \<open>u16::from_be_bytes\<close>, and the same for \<open>u64\<close>.\<close>

definition be16_bytes :: "u16 \<Rightarrow> u8 list" where
  "be16_bytes w = [ucast (drop_bit 8 w), ucast w]"

definition be16_of :: "u8 \<Rightarrow> u8 \<Rightarrow> u16" where
  "be16_of hi lo = push_bit 8 (ucast hi) OR ucast lo"

definition be64_bytes :: "u64 \<Rightarrow> u8 list" where
  "be64_bytes w = map (\<lambda>i. ucast (drop_bit (8 * i) w)) [7, 6, 5, 4, 3, 2, 1, 0]"

definition be64_of :: "u8 list \<Rightarrow> u64" where
  "be64_of bs = foldl (\<lambda>acc b. push_bit 8 acc OR ucast b) 0 bs"

lemma length_be16_bytes [simp]: "length (be16_bytes w) = 2"
  by (simp add: be16_bytes_def)

lemma length_be64_bytes [simp]: "length (be64_bytes w) = 8"
  by (simp add: be64_bytes_def)

lemma be16_of_bytes [simp]: "be16_of (ucast (drop_bit 8 w)) (ucast w) = w"
  unfolding be16_of_def
  by (rule bit_word_eqI) (auto simp: bit_simps)

lemma be16_hi [simp]: "ucast (drop_bit 8 (be16_of hi lo)) = hi"
  unfolding be16_of_def
  by (rule bit_word_eqI) (auto simp: bit_simps dest: bit_imp_le_length)

lemma be16_lo [simp]: "ucast (be16_of hi lo) = lo"
  unfolding be16_of_def
  by (rule bit_word_eqI) (auto simp: bit_simps)

lemma be16_bytes_of [simp]: "be16_bytes (be16_of hi lo) = [hi, lo]"
  by (simp add: be16_bytes_def)

lemma be64_horner_step:
  fixes w :: u64
  shows "push_bit 8 (drop_bit (8 + k) w) OR ucast (ucast (drop_bit k w) :: u8) = drop_bit k w"
  by (rule bit_word_eqI) (auto simp: bit_simps dest: bit_imp_le_length)

lemma be64_of_bytes [simp]: "be64_of (be64_bytes w) = w"
proof -
  have "0 = drop_bit 64 w"
    by (rule bit_word_eqI) (auto simp: bit_simps dest: bit_imp_le_length)
  then show ?thesis
    using be64_horner_step [of 56 w] be64_horner_step [of 48 w] be64_horner_step [of 40 w]
      be64_horner_step [of 32 w] be64_horner_step [of 24 w] be64_horner_step [of 16 w]
      be64_horner_step [of 8 w] be64_horner_step [of 0 w]
    by (simp add: be64_of_def be64_bytes_def)
qed

section \<open>The ordered map of the standard library\<close>

text \<open>
  \<open>alloc::collections::BTreeMap\<close>: entries in ascending key order. The model is the list of
  its entries in iteration order.
\<close>

type_synonym ('k, 'v) btree_map = "('k \<times> 'v) list"

definition bt_get :: "'k \<Rightarrow> ('k, 'v) btree_map \<Rightarrow> 'v option" where
  "bt_get k m = map_of m k"

fun bt_insert :: "'k::linorder \<Rightarrow> 'v \<Rightarrow> ('k, 'v) btree_map \<Rightarrow> ('k, 'v) btree_map" where
  "bt_insert k v [] = [(k, v)]"
| "bt_insert k v ((a, b) # m) =
     (if k < a then (k, v) # (a, b) # m
      else if k = a then (k, v) # m
      else (a, b) # bt_insert k v m)"

definition bt_remove :: "'k \<Rightarrow> ('k, 'v) btree_map \<Rightarrow> ('k, 'v) btree_map" where
  "bt_remove k m = filter (\<lambda>e. fst e \<noteq> k) m"

definition bt_retain :: "('k \<Rightarrow> 'v \<Rightarrow> bool) \<Rightarrow> ('k, 'v) btree_map \<Rightarrow> ('k, 'v) btree_map" where
  "bt_retain P m = filter (\<lambda>e. P (fst e) (snd e)) m"

definition bt_sorted :: "('k::linorder, 'v) btree_map \<Rightarrow> bool" where
  "bt_sorted m \<longleftrightarrow> sorted_wrt (<) (map fst m)"

text \<open>
  What a client of the map relies on: a lookup sees the last insert, a removal takes exactly
  one key, and every operation keeps the representation in order.
\<close>

locale ordered_map =
  fixes get :: "'k \<Rightarrow> 'm \<Rightarrow> 'v option"
    and ins :: "'k \<Rightarrow> 'v \<Rightarrow> 'm \<Rightarrow> 'm"
    and rem :: "'k \<Rightarrow> 'm \<Rightarrow> 'm"
    and wf_map :: "'m \<Rightarrow> bool"
  assumes get_ins: "get k' (ins k v m) = (if k' = k then Some v else get k' m)"
    and get_rem: "get k' (rem k m) = (if k' = k then None else get k' m)"
    and wf_ins: "wf_map m \<Longrightarrow> wf_map (ins k v m)"
    and wf_rem: "wf_map m \<Longrightarrow> wf_map (rem k m)"
    and finite_keys: "finite {k. get k m \<noteq> None}"
begin

definition keys :: "'m \<Rightarrow> 'k set" where
  "keys m = {k. get k m \<noteq> None}"

lemma keys_ins: "keys (ins k v m) = insert k (keys m)"
  by (auto simp: keys_def get_ins)

lemma keys_rem: "keys (rem k m) = keys m - {k}"
  by (auto simp: keys_def get_rem split: if_splits)

lemma keys_finite: "finite (keys m)"
  unfolding keys_def by (rule finite_keys)

text \<open>Removing a present key makes the map smaller: the measure of every drain loop.\<close>

lemma card_rem_less: "get k m \<noteq> None \<Longrightarrow> card (keys (rem k m)) < card (keys m)"
  unfolding keys_rem by (rule card_Diff1_less [OF keys_finite]) (simp add: keys_def)

lemma rem_after_ins: "get k' (rem k (ins k v m)) = get k' (rem k m)"
  by (simp add: get_rem get_ins)

end

lemma bt_get_Nil [simp]: "bt_get k [] = None"
  by (simp add: bt_get_def)

lemma bt_get_insert: "bt_get k' (bt_insert k v m) = (if k' = k then Some v else bt_get k' m)"
  by (induction k v m rule: bt_insert.induct) (auto simp: bt_get_def)

lemma bt_get_remove: "bt_get k' (bt_remove k m) = (if k' = k then None else bt_get k' m)"
  by (induction m) (auto simp: bt_get_def bt_remove_def)

lemma set_bt_insert: "set (map fst (bt_insert k v m)) = insert k (set (map fst m))"
  by (induction k v m rule: bt_insert.induct) auto

lemma bt_sorted_Cons: "bt_sorted ((a, b) # m) \<longleftrightarrow> (\<forall>k \<in> set (map fst m). a < k) \<and> bt_sorted m"
  by (simp add: bt_sorted_def)

lemma bt_sorted_insert: "bt_sorted m \<Longrightarrow> bt_sorted (bt_insert k v m)"
proof (induction k v m rule: bt_insert.induct)
  case (1 k v)
  show ?case by (simp add: bt_sorted_def)
next
  case (2 k v a b m)
  then show ?case
    using set_bt_insert [of k v m] by (auto simp: bt_sorted_Cons simp del: set_map)
qed

lemma bt_sorted_filter: "bt_sorted m \<Longrightarrow> bt_sorted (filter P m)"
  by (induction m) (auto simp: bt_sorted_def)

lemma bt_sorted_remove: "bt_sorted m \<Longrightarrow> bt_sorted (bt_remove k m)"
  by (simp add: bt_remove_def bt_sorted_filter)

lemma bt_sorted_retain: "bt_sorted m \<Longrightarrow> bt_sorted (bt_retain P m)"
  by (simp add: bt_retain_def bt_sorted_filter)

lemma bt_sorted_distinct: "bt_sorted m \<Longrightarrow> distinct (map fst m)"
  by (induction m) (auto simp: bt_sorted_def)

lemma bt_get_retain:
  "bt_sorted m \<Longrightarrow> bt_get k (bt_retain P m) =
     (case bt_get k m of None \<Rightarrow> None | Some v \<Rightarrow> if P k v then Some v else None)"
proof (induction m)
  case Nil
  show ?case by (simp add: bt_retain_def)
next
  case (Cons e m)
  obtain a b where e: "e = (a, b)" by force
  have notin: "map_of m a = None"
    using Cons.prems by (auto simp: e bt_sorted_Cons map_of_eq_None_iff)
  then have "map_of (filter (\<lambda>e. P (fst e) (snd e)) m) a = None"
    by (auto simp: map_of_eq_None_iff)
  with Cons notin show ?case
    by (auto simp: e bt_get_def bt_retain_def bt_sorted_Cons split: option.splits)
qed

interpretation btm: ordered_map bt_get bt_insert bt_remove bt_sorted
proof unfold_locales
  fix m :: "('a \<times> 'b) list"
  have "{k. bt_get k m \<noteq> None} = dom (map_of m)"
    by (simp add: bt_get_def dom_def)
  then show "finite {k. bt_get k m \<noteq> None}"
    by (simp add: finite_dom_map_of)
qed (simp_all add: bt_get_insert bt_get_remove bt_sorted_insert bt_sorted_remove)

text \<open>
  \<open>Iterator::min_by_key\<close>: the first of the elements with the least key, \<open>None\<close> for an
  empty iterator.
\<close>

fun min_by_key :: "('a \<Rightarrow> 'k::linorder) \<Rightarrow> 'a list \<Rightarrow> 'a option" where
  "min_by_key f [] = None"
| "min_by_key f (x # xs) =
     (case min_by_key f xs of
        None \<Rightarrow> Some x
      | Some y \<Rightarrow> if f x \<le> f y then Some x else Some y)"

lemma min_by_key_None [simp]: "min_by_key f xs = None \<longleftrightarrow> xs = []"
  by (cases xs) (auto split: option.splits)

lemma min_by_key_Some:
  "min_by_key f xs = Some x \<Longrightarrow> x \<in> set xs \<and> (\<forall>y \<in> set xs. f x \<le> f y)"
proof (induction xs arbitrary: x)
  case Nil
  then show ?case by simp
next
  case (Cons a xs)
  then show ?case
    by (cases "min_by_key f xs") (force split: if_splits)+
qed

end
