(* ===== verification/Mod_Seq.thy ===== *)
theory Mod_Seq
  imports Prelude
begin

text \<open>
  \<open>core/catplay_util/src/mod_seq.rs\<close>: sequence numbers modulo \<open>2 ^ w\<close> with the half-range
  partial order. The macro \<open>impl_modseq\<close> instantiates one body for five widths, so the model
  is generic in the width of the word.
\<close>

section \<open>Definitions\<close>

datatype ordering = Less | Equal | Greater

text \<open>A \<open>ModSeq<T>\<close> is a one-field wrapper of \<open>T\<close>; the model keeps the word itself.\<close>

definition modseq_half :: "'a::len word" where
  "modseq_half = push_bit (LENGTH('a) - 1) 1"

definition modseq_cmp :: "'a::len word \<Rightarrow> 'a word \<Rightarrow> ordering option" where
  "modseq_cmp a b =
     (let d = a - b in
      if d = 0 then Some Equal
      else if d = modseq_half then None
      else if d < modseq_half then Some Greater
      else Some Less)"

definition modseq_add :: "'a::len word \<Rightarrow> 'a word \<Rightarrow> 'a word" where
  "modseq_add a k = a + k"

definition modseq_sub :: "'a::len word \<Rightarrow> 'a word \<Rightarrow> 'a word" where
  "modseq_sub a k = a - k"

text \<open>\<open>distance\<close> casts the difference to the signed type of the same width.\<close>

definition modseq_distance :: "'a::len word \<Rightarrow> 'a word \<Rightarrow> int" where
  "modseq_distance a b =
     (case modseq_cmp a b of
        Some Equal \<Rightarrow> 0
      | Some Greater \<Rightarrow> sint (a - b)
      | Some Less \<Rightarrow> - sint (b - a)
      | None \<Rightarrow> 0)"

text \<open>The operator \<open>>\<close> that Rust derives from \<open>partial_cmp\<close>.\<close>

definition modseq_gt :: "'a::len word \<Rightarrow> 'a word \<Rightarrow> bool" where
  "modseq_gt a b \<longleftrightarrow> modseq_cmp a b = Some Greater"

section \<open>The half range\<close>

lemma unat_half: "unat (modseq_half :: 'a::len word) = 2 ^ (LENGTH('a) - 1)"
proof -
  have "unat (modseq_half :: 'a word) = take_bit LENGTH('a) (push_bit (LENGTH('a) - 1) 1)"
    unfolding modseq_half_def unsigned_push_bit_eq by (simp only: unsigned_1)
  also have "\<dots> = push_bit (LENGTH('a) - 1) 1"
    by (rule take_bit_nat_eq_self) (simp add: push_bit_eq_mult)
  finally show ?thesis by (simp add: push_bit_eq_mult)
qed

lemma two_half: "2 * 2 ^ (LENGTH('a::len) - 1) = (2::nat) ^ LENGTH('a)"
  by (metis len_gt_0 power_eq_if less_numeral_extra(3))

lemma unat_diff_swap:
  fixes a b :: "'a::len word"
  assumes "a \<noteq> b"
  shows "unat (a - b) + unat (b - a) = 2 ^ LENGTH('a)"
proof -
  have ne: "unat a \<noteq> unat b" using assms by (simp add: word_unat_eq_iff)
  have a: "unat a < 2 ^ LENGTH('a)" and b: "unat b < 2 ^ LENGTH('a)" by (rule unat_range)+
  show ?thesis
  proof (cases "unat b \<le> unat a")
    case True
    with ne have "\<not> unat a \<le> unat b" by simp
    then have "unat (a - b) = unat a - unat b"
      and "unat (b - a) = unat b + 2 ^ LENGTH('a) - unat a"
      using True by (simp_all add: unat_sub_if')
    then show ?thesis using True a by linarith
  next
    case False
    then have "unat a \<le> unat b" by simp
    then have "unat (b - a) = unat b - unat a"
      and "unat (a - b) = unat a + 2 ^ LENGTH('a) - unat b"
      using False by (simp_all add: unat_sub_if')
    then show ?thesis using False b by linarith
  qed
qed

text \<open>The comparison in terms of how far \<open>a\<close> is ahead of \<open>b\<close>.\<close>

lemma modseq_cmp_unat:
  "modseq_cmp a b =
     (if unat (a - b) = 0 then Some Equal
      else if unat (a - b) = 2 ^ (LENGTH('a) - 1) then None
      else if unat (a - b) < 2 ^ (LENGTH('a) - 1) then Some Greater
      else Some Less)"
  for a b :: "'a::len word"
proof -
  have eq: "a - b = modseq_half \<longleftrightarrow> unat (a - b) = 2 ^ (LENGTH('a) - 1)"
    by (simp only: word_unat_eq_iff unat_half)
  have lt: "a - b < modseq_half \<longleftrightarrow> unat (a - b) < 2 ^ (LENGTH('a) - 1)"
    by (simp only: word_less_nat_alt unat_half)
  have zero: "a - b = 0 \<longleftrightarrow> unat (a - b) = 0"
    by (simp add: unat_eq_zero)
  show ?thesis
    unfolding modseq_cmp_def Let_def eq lt zero ..
qed

lemma modseq_cmp_refl [simp]: "modseq_cmp a a = Some Equal"
  by (simp add: modseq_cmp_unat)

lemma modseq_cmp_Equal_iff: "modseq_cmp a b = Some Equal \<longleftrightarrow> a = b"
  by (auto simp: modseq_cmp_unat unat_eq_zero)

lemma modseq_gt_unat:
  "modseq_gt a b \<longleftrightarrow> 0 < unat (a - b) \<and> unat (a - b) < 2 ^ (LENGTH('a) - 1)"
  for a b :: "'a::len word"
  by (auto simp: modseq_gt_def modseq_cmp_unat)

section \<open>Order\<close>

fun flip_ordering :: "ordering \<Rightarrow> ordering" where
  "flip_ordering Less = Greater"
| "flip_ordering Equal = Equal"
| "flip_ordering Greater = Less"

lemma modseq_cmp_swap: "modseq_cmp b a = map_option flip_ordering (modseq_cmp a b)"
proof (cases "a = b")
  case True
  then show ?thesis by simp
next
  case False
  let ?h = "2 ^ (LENGTH('a) - 1) :: nat"
  have nz: "unat (a - b) \<noteq> 0" "unat (b - a) \<noteq> 0"
    using False by (simp_all add: unat_eq_zero)
  have sum: "unat (a - b) + unat (b - a) = 2 * ?h"
    using unat_diff_swap [OF False] two_half [where 'a = 'a] by simp
  have "unat (b - a) = ?h \<longleftrightarrow> unat (a - b) = ?h" using sum by linarith
  moreover have "unat (b - a) < ?h \<longleftrightarrow> ?h < unat (a - b)" using sum by linarith
  ultimately show ?thesis
    unfolding modseq_cmp_unat using nz by auto
qed

text \<open>Moving ahead by less than half the range is seen as \<open>Greater\<close>, across the wrap.\<close>

lemma modseq_cmp_ahead:
  fixes a k :: "'a::len word"
  assumes "0 < unat k" and "unat k < 2 ^ (LENGTH('a) - 1)"
  shows "modseq_cmp (modseq_add a k) a = Some Greater"
  using assms by (simp add: modseq_cmp_unat modseq_add_def)

section \<open>Distance\<close>

lemma sint_small:
  fixes d :: "'a::len word"
  assumes "unat d < 2 ^ (LENGTH('a) - 1)"
  shows "sint d = int (unat d)"
proof -
  have "int (unat d) < int (2 ^ (LENGTH('a) - 1))"
    using assms by (rule of_nat_less_iff [THEN iffD2])
  then have bound: "int (unat d) < 2 ^ (LENGTH('a) - Suc 0)"
    by simp
  have "sint d = signed_take_bit (LENGTH('a) - Suc 0) (int (unat d))"
    by (simp only: sint_uint uint_nat One_nat_def)
  also have "\<dots> = int (unat d)"
    by (rule signed_take_bit_int_eq_self [OF _ bound], rule order_trans [of _ 0]) simp_all
  finally show ?thesis .
qed

lemma modseq_distance_unat:
  "modseq_distance a b =
     (let d = unat (a - b) in
      if d = 2 ^ (LENGTH('a) - 1) then 0
      else if d < 2 ^ (LENGTH('a) - 1) then int d
      else int d - 2 ^ LENGTH('a))"
  for a b :: "'a::len word"
proof (cases "a = b")
  case True
  then show ?thesis by (simp add: modseq_distance_def)
next
  case False
  have swap: "unat (a - b) + unat (b - a) = 2 ^ LENGTH('a)"
    by (rule unat_diff_swap [OF False])
  have nz: "unat (a - b) \<noteq> 0"
    using False by (simp add: unat_eq_zero)
  consider (half) "unat (a - b) = 2 ^ (LENGTH('a) - 1)"
    | (near) "unat (a - b) < 2 ^ (LENGTH('a) - 1)"
    | (far) "unat (a - b) > 2 ^ (LENGTH('a) - 1)"
    by linarith
  then show ?thesis
  proof cases
    case half
    then show ?thesis using nz by (simp add: modseq_distance_def modseq_cmp_unat)
  next
    case near
    then show ?thesis using nz by (simp add: modseq_distance_def modseq_cmp_unat sint_small)
  next
    case far
    have "unat (b - a) < 2 ^ (LENGTH('a) - 1)"
      using far swap two_half [where 'a = 'a] by linarith
    moreover have "int (unat (b - a)) = 2 ^ LENGTH('a) - int (unat (a - b))"
      using arg_cong [OF swap, of int] by simp
    ultimately have "sint (b - a) = 2 ^ LENGTH('a) - int (unat (a - b))"
      by (simp add: sint_small)
    then show ?thesis
      using far nz by (simp add: modseq_distance_def modseq_cmp_unat)
  qed
qed

text \<open>
  the distance between two sequence numbers is antisymmetric at every width, its sign
  agrees with the partial order, its size is less than half the range, and unless the two are
  exactly half the range apart (where the order is undefined and the distance is 0) adding it
  to the second number, modulo the range, gives back the first.
\<close>

lemma modseq_distance_laws:
  fixes a b :: "'a::len word"
  shows "modseq_distance a b = - modseq_distance b a
    \<and> \<bar>modseq_distance a b\<bar> < 2 ^ (LENGTH('a) - 1)
    \<and> (modseq_cmp a b = Some Greater \<longleftrightarrow> 0 < modseq_distance a b)
    \<and> (modseq_cmp a b = Some Less \<longleftrightarrow> modseq_distance a b < 0)
    \<and> (if modseq_cmp a b = None then modseq_distance a b = 0
       else modseq_add b (word_of_int (modseq_distance a b)) = a)"
proof (cases "a = b")
  case True
  then show ?thesis by (simp add: modseq_distance_def modseq_add_def)
next
  case False
  let ?h = "2 ^ (LENGTH('a) - 1) :: nat"
  have sum: "unat (a - b) + unat (b - a) = 2 * ?h"
    using unat_diff_swap [OF False] two_half [where 'a = 'a] by simp
  have nz: "0 < unat (a - b)" "0 < unat (b - a)"
    using False by (simp_all add: unat_gt_0)
  have full: "(2::int) ^ LENGTH('a) = 2 * int ?h"
    using arg_cong [OF two_half [where 'a = 'a], of int] by simp
  have ab: "modseq_distance a b =
      (if unat (a - b) = ?h then 0
       else if unat (a - b) < ?h then int (unat (a - b)) else int (unat (a - b)) - 2 * int ?h)"
    and ba: "modseq_distance b a =
      (if unat (b - a) = ?h then 0
       else if unat (b - a) < ?h then int (unat (b - a)) else int (unat (b - a)) - 2 * int ?h)"
    unfolding modseq_distance_unat Let_def full by simp_all
  have forth: "modseq_add b (word_of_int (int (unat (a - b)))) = a"
    and wrap: "modseq_add b (word_of_int (int (unat (a - b)) - 2 * int ?h)) = a"
  proof -
    have "word_of_int (2 * int ?h) = (0 :: 'a word)"
      unfolding full [symmetric] by (simp add: word_exp_length_eq_0)
    then show "modseq_add b (word_of_int (int (unat (a - b)))) = a"
      and "modseq_add b (word_of_int (int (unat (a - b)) - 2 * int ?h)) = a"
      by (simp_all only: modseq_add_def of_int_diff of_int_of_nat_eq diff_zero) simp_all
  qed
  have h: "(2::int) ^ (LENGTH('a) - 1) = int ?h" by simp
  obtain m n k where abs: "unat (a - b) = m" "unat (b - a) = n" "?h = k" by blast
  show ?thesis
    using sum nz forth wrap unfolding h ab ba modseq_cmp_unat abs by auto
qed

text \<open>
  A sequence number moved forward by less than half the range compares as greater than
  where it started and the start compares as less than it, whether or not the addition wraps.
\<close>

lemma modseq_forward_is_greater:
  fixes a k :: "'a::len word"
  assumes "0 < unat k" and "unat k < 2 ^ (LENGTH('a) - 1)"
  shows "modseq_cmp (modseq_add a k) a = Some Greater
    \<and> modseq_cmp a (modseq_add a k) = Some Less
    \<and> modseq_distance (modseq_add a k) a = int (unat k)"
  using modseq_cmp_ahead [OF assms] modseq_cmp_swap [of a "modseq_add a k"] assms
  by (simp add: modseq_distance_unat modseq_add_def)

theorem modseq_forward_is_greater_witness:
  "modseq_cmp (modseq_add (250 :: u8) 10) 250 = Some Greater
    \<and> modseq_cmp (250 :: u8) (modseq_add 250 10) = Some Less
    \<and> modseq_distance (modseq_add (250 :: u8) 10) 250 = int (unat (10 :: u8))"
  by (rule modseq_forward_is_greater) simp_all

end
