(* ===== verification/Checksum.thy ===== *)
theory Checksum
  imports Prelude
begin

text \<open>
  \<open>core/catplay_iap2_link/src/crc.rs\<close>: the one-byte checksum of iAP2 headers, payloads and
  legacy frames, and its version that sums fixed-size blocks in four lanes.
\<close>

section \<open>Definitions\<close>

definition iap2_gen_checksum :: "u8 list \<Rightarrow> u8" where
  "iap2_gen_checksum data = NOT (foldl (\<lambda>acc b. acc + b) 0 data) + 1"

text \<open>
  One iteration of the loop over \<open>chunks_exact(16)\<close>: four accumulators, each fed by every
  fourth byte. \<open>u32\<close> addition is the wrapping one; \<open>sum_block_no_overflow\<close> below shows that
  it never wraps for the blocks the caller passes, so the overflow check of a debug build
  does not fire.
\<close>

fun sum_lanes :: "u8 list list \<Rightarrow> u32 \<times> u32 \<times> u32 \<times> u32 \<Rightarrow> u32 \<times> u32 \<times> u32 \<times> u32" where
  "sum_lanes [] accs = accs"
| "sum_lanes (c # cs) (acc0, acc1, acc2, acc3) =
     sum_lanes cs
      (acc0 + (ucast (c ! 0) + ucast (c ! 4) + ucast (c ! 8) + ucast (c ! 12)),
       acc1 + (ucast (c ! 1) + ucast (c ! 5) + ucast (c ! 9) + ucast (c ! 13)),
       acc2 + (ucast (c ! 2) + ucast (c ! 6) + ucast (c ! 10) + ucast (c ! 14)),
       acc3 + (ucast (c ! 3) + ucast (c ! 7) + ucast (c ! 11) + ucast (c ! 15)))"

definition sum_block_u32 :: "u8 list \<Rightarrow> u32" where
  "sum_block_u32 data =
     (case sum_lanes (chunks_exact 16 data) (0, 0, 0, 0) of
        (acc0, acc1, acc2, acc3) \<Rightarrow>
          foldl (\<lambda>sum b. sum + ucast b) (acc0 + acc1 + acc2 + acc3) (chunks_remainder 16 data))"

definition iap2_gen_checksum_fast :: "u8 list \<Rightarrow> u8" where
  "iap2_gen_checksum_fast data =
     NOT (foldl (\<lambda>sum_mod_256 block. sum_mod_256 + ucast (sum_block_u32 block)) 0 (chunks 1024 data)) + 1"

definition iap2_check_checksum :: "u8 list \<Rightarrow> bool" where
  "iap2_check_checksum data \<longleftrightarrow> iap2_gen_checksum data = 0"

definition iap2_check_checksum_fast :: "u8 list \<Rightarrow> bool" where
  "iap2_check_checksum_fast data \<longleftrightarrow> iap2_gen_checksum_fast data = 0"

section \<open>The checksum as a sum\<close>

lemma foldl_plus_sum_list: "foldl (\<lambda>acc x. acc + f x) a xs = a + sum_list (map f xs)"
  for a :: "'a::comm_monoid_add"
  by (induction xs arbitrary: a) (simp_all add: add.assoc)

lemma gen_checksum_sum: "iap2_gen_checksum data = - sum_list data"
  using foldl_plus_sum_list [of id "0::u8" data]
  by (simp add: iap2_gen_checksum_def minus_eq_not_plus_1)

lemma gen_checksum_append_byte:
  "iap2_gen_checksum (data @ [b]) = iap2_gen_checksum data - b"
  by (simp add: gen_checksum_sum)

lemma check_checksum_append_byte:
  "iap2_check_checksum (data @ [b]) \<longleftrightarrow> b = iap2_gen_checksum data"
  by (auto simp: iap2_check_checksum_def gen_checksum_append_byte)

section \<open>Equivalence of the block version\<close>

definition byte_sum :: "u8 list \<Rightarrow> u32" where
  "byte_sum data = sum_list (map ucast data)"

lemma byte_sum_append [simp]: "byte_sum (xs @ ys) = byte_sum xs + byte_sum ys"
  by (simp add: byte_sum_def)

lemma byte_sum_16:
  assumes "length c = 16"
  shows "byte_sum c =
    (ucast (c ! 0) + ucast (c ! 4) + ucast (c ! 8) + ucast (c ! 12)) +
    (ucast (c ! 1) + ucast (c ! 5) + ucast (c ! 9) + ucast (c ! 13)) +
    (ucast (c ! 2) + ucast (c ! 6) + ucast (c ! 10) + ucast (c ! 14)) +
    (ucast (c ! 3) + ucast (c ! 7) + ucast (c ! 11) + ucast (c ! 15))"
proof -
  have "c = map (\<lambda>i. c ! i) [0..<16]"
    using assms by (metis map_nth)
  also have "[0..<16] = [0, 1, 2, 3, 4, 5, 6, 7, 8, 9, 10, 11, 12, 13, 14, 15 :: nat]"
    by (simp add: upt_conv_Cons)
  finally have c: "c = map (\<lambda>i. c ! i) [0, 1, 2, 3, 4, 5, 6, 7, 8, 9, 10, 11, 12, 13, 14, 15]" .
  show ?thesis
    unfolding byte_sum_def by (subst c) (simp add: algebra_simps)
qed

lemma sum_lanes_total:
  assumes "\<forall>c \<in> set cs. length c = 16"
  shows "(case sum_lanes cs (a0, a1, a2, a3) of (b0, b1, b2, b3) \<Rightarrow> b0 + b1 + b2 + b3) =
    a0 + a1 + a2 + a3 + byte_sum (concat cs)"
  using assms
proof (induction cs arbitrary: a0 a1 a2 a3)
  case Nil
  then show ?case by (simp add: byte_sum_def)
next
  case (Cons c cs)
  then show ?case by (simp add: byte_sum_16 algebra_simps)
qed

lemma sum_block_u32_eq: "sum_block_u32 data = byte_sum data"
proof -
  obtain b0 b1 b2 b3 where lanes:
    "sum_lanes (chunks_exact 16 data) (0, 0, 0, 0) = (b0, b1, b2, b3)"
    by (metis prod_cases4)
  have "b0 + b1 + b2 + b3 = byte_sum (concat (chunks_exact 16 data))"
    using sum_lanes_total [of "chunks_exact 16 data" 0 0 0 0] length_chunks_exact lanes
    by fastforce
  then have "sum_block_u32 data =
      byte_sum (concat (chunks_exact 16 data)) + byte_sum (chunks_remainder 16 data)"
    by (simp add: sum_block_u32_def lanes foldl_plus_sum_list byte_sum_def)
  also have "\<dots> = byte_sum (concat (chunks_exact 16 data) @ chunks_remainder 16 data)"
    by simp
  finally show ?thesis
    by (simp only: concat_chunks_exact)
qed

lemma ucast_byte_sum: "ucast (byte_sum data) = (sum_list data :: u8)"
proof (induction data)
  case Nil
  show ?case by (simp add: byte_sum_def)
next
  case (Cons b data)
  have "(ucast (ucast b + byte_sum data :: u32) :: u8) = ucast (ucast b :: u32) + ucast (byte_sum data)"
    by (rule ucast_u8_add)
  then show ?case
    using Cons by (simp add: byte_sum_def)
qed

lemma gen_checksum_fast_eq: "iap2_gen_checksum_fast data = iap2_gen_checksum data"
proof -
  have "foldl (\<lambda>s block. s + ucast (sum_block_u32 block)) 0 (chunks 1024 data) =
      sum_list (map sum_list (chunks 1024 data))"
    by (simp add: foldl_plus_sum_list sum_block_u32_eq ucast_byte_sum)
  also have "\<dots> = sum_list (concat (chunks 1024 data))"
    by (simp add: sum_list_concat)
  also have "\<dots> = sum_list data"
    by (simp add: concat_chunks)
  finally show ?thesis
    by (simp add: iap2_gen_checksum_fast_def gen_checksum_sum minus_eq_not_plus_1)
qed

lemma check_checksum_fast_eq: "iap2_check_checksum_fast data = iap2_check_checksum data"
  by (simp add: iap2_check_checksum_fast_def iap2_check_checksum_def gen_checksum_fast_eq)

text \<open>No intermediate \<open>u32\<close> of a block overflows: the sum of the block is below \<open>2 ^ 32\<close>.\<close>

lemma unat_byte_sum:
  "length data * 255 < 2 ^ 32 \<Longrightarrow> unat (byte_sum data) = sum_list (map unat data)"
  and sum_unat_bound: "sum_list (map unat data) \<le> length data * 255"
  for data :: "u8 list"
proof -
  show bound: "sum_list (map unat data) \<le> length data * 255" for data :: "u8 list"
  proof (induction data)
    case (Cons b data)
    then show ?case using u8_range [of b] by simp
  qed simp
  show "length data * 255 < 2 ^ 32 \<Longrightarrow> unat (byte_sum data) = sum_list (map unat data)"
  proof (induction data)
    case Nil
    show ?case by (simp add: byte_sum_def)
  next
    case (Cons b data)
    then show ?case
      using Cons bound [of "b # data"] by (simp add: byte_sum_def unat_word_ariths)
  qed
qed

text \<open>
  The block-wise checksum returns the same byte as the baseline for every input, and
  so do the two checks.
\<close>

lemma checksum_fast_equiv:
  "iap2_gen_checksum_fast data = iap2_gen_checksum data
    \<and> iap2_check_checksum_fast data = iap2_check_checksum data"
  by (simp add: gen_checksum_fast_eq check_checksum_fast_eq)

text \<open>
  A block of at most 1024 bytes, the size \<open>iap2_gen_checksum_fast\<close> cuts the data
  into, is summed in \<open>u32\<close> without wrap-around: the result is the sum of the bytes as
  natural numbers.
\<close>

lemma sum_block_no_overflow:
  assumes "length data \<le> 1024"
  shows "unat (sum_block_u32 data) = sum_list (map unat data)
    \<and> sum_list (map unat data) < 2 ^ 32"
  using assms sum_unat_bound [of data] by (simp add: sum_block_u32_eq unat_byte_sum)

theorem sum_block_no_overflow_witness:
  "unat (sum_block_u32 (replicate 20 255)) = 5100 \<and> sum_list (map unat (replicate 20 (255 :: u8))) < 2 ^ 32"
  using sum_block_no_overflow [of "replicate 20 255"] by (simp add: sum_list_replicate)

text \<open>
  data followed by its checksum byte passes the check, no other final byte does, and
  changing any single byte of checked data makes the check fail.
\<close>

lemma checksum_detects_byte_change:
  "iap2_check_checksum (data @ [iap2_gen_checksum data])
    \<and> (iap2_check_checksum (data @ [b]) \<longrightarrow> b = iap2_gen_checksum data)
    \<and> (iap2_check_checksum (pre @ x # post) \<longrightarrow> y \<noteq> x \<longrightarrow> \<not> iap2_check_checksum (pre @ y # post))"
proof -
  have "sum_list (pre @ x # post) + (y - x) = sum_list (pre @ y # post)"
    by (simp add: algebra_simps)
  then have "iap2_check_checksum (pre @ x # post) \<Longrightarrow> y \<noteq> x \<Longrightarrow> \<not> iap2_check_checksum (pre @ y # post)"
    unfolding iap2_check_checksum_def gen_checksum_sum by (metis add_0 neg_equal_0_iff_equal right_minus_eq)
  then show ?thesis
    by (auto simp: check_checksum_append_byte)
qed

lemma checksum_detects_byte_change_witness:
  "iap2_check_checksum [0x5A, 0xA6] \<and> \<not> iap2_check_checksum [0x5B, 0xA6]"
proof -
  have ok: "iap2_check_checksum [0x5A, 0xA6]"
    by (simp add: iap2_check_checksum_def iap2_gen_checksum_def)
  then show ?thesis
    using checksum_detects_byte_change [of "[]" 0 "[]" "0x5A" "[0xA6]" "0x5B"] by simp
qed

end
