(* ===== verification/Lingo_Frame.thy ===== *)
theory Lingo_Frame
  imports Prelude
begin

text \<open>
  \<open>core/catplay_lingo/src/wire/frame.rs\<close>: the iAP1 frame codec. A frame is the sync byte
  \<open>0x55\<close>, a one-byte or an escaped two-byte length, and a body of lingo, command and data.
\<close>

section \<open>Definitions\<close>

datatype lingo_error =
    InvalidSync
  | EmptyBody
  | TruncatedCommand
  | Lingo_InvalidLength
  | BodyTooLong usize
  | CommandOutOfRange u16

text \<open>\<open>Frame { body }\<close> borrows its body; the model keeps the bytes.\<close>

record lingo_frame =
  body :: "u8 list"

definition frame_lingo :: "lingo_frame \<Rightarrow> u8 option" where
  "frame_lingo f = slice_get (body f) 0"

text \<open>The lingo with two-byte commands is number 4.\<close>

definition frame_command :: "lingo_frame \<Rightarrow> (u16 \<times> u8 list) option" where
  "frame_command f =
     (case frame_lingo f of
        None \<Rightarrow> None
      | Some lingo \<Rightarrow>
          if lingo = 4 then
            (case (slice_get (body f) 1, slice_get (body f) 2) of
               (Some hi, Some lo) \<Rightarrow> Some (be16_of hi lo, drop 3 (body f))
             | _ \<Rightarrow> None)
          else
            (case slice_get (body f) 1 of
               Some c \<Rightarrow> Some (ucast c, drop 2 (body f))
             | None \<Rightarrow> None))"

text \<open>The least body of a frame: lingo and command.\<close>

definition min_body_len :: "u8 \<Rightarrow> usize" where
  "min_body_len lingo = (if lingo = 4 then 3 else 2)"

text \<open>
  The length field: header length, body length and whether the escaped form was used; \<open>None\<close>
  when more bytes are needed.
\<close>

definition frame_lengths :: "u8 list \<Rightarrow> (usize \<times> usize \<times> bool) option" where
  "frame_lengths src =
     (case slice_get src 1 of
        None \<Rightarrow> None
      | Some length_byte \<Rightarrow>
          if length_byte = 0 then
            (case (slice_get src 2, slice_get src 3) of
               (Some hi, Some lo) \<Rightarrow> Some (4, unat (be16_of hi lo), True)
             | _ \<Rightarrow> None)
          else Some (2, unat length_byte, False))"

definition frame_decode :: "u8 list \<Rightarrow> lingo_error + (lingo_frame \<times> usize) option" where
  "frame_decode src =
     (case slice_get src 0 of
        None \<Rightarrow> Inr None
      | Some first \<Rightarrow>
          if first \<noteq> 0x55 then Inl InvalidSync
          else
            (case frame_lengths src of
               None \<Rightarrow> Inr None
             | Some (header_len, body_len, extended) \<Rightarrow>
                 if body_len = 0 then Inl Lingo_InvalidLength
                 else
                   let total_len = header_len + body_len in
                   if length src < total_len then Inr None
                   else if extended \<and> body_len \<le> 255 then Inl Lingo_InvalidLength
                   else if body_len < min_body_len (src ! header_len) then Inl TruncatedCommand
                   else Inr (Some (\<lparr>body = take body_len (drop header_len src)\<rparr>, total_len))))"

text \<open>\<open>encode\<close> appends to a writer; the model returns the bytes it writes.\<close>

definition frame_encode :: "u8 list \<Rightarrow> lingo_error + u8 list" where
  "frame_encode b =
     (if b = [] then Inl EmptyBody
      else if length b < min_body_len (b ! 0) then Inl TruncatedCommand
      else if length b > 65535 then Inl (BodyTooLong (length b))
      else if length b \<le> 255 then Inr ([0x55] @ [of_nat (length b)] @ b)
      else Inr ([0x55] @ [0] @ be16_bytes (of_nat (length b)) @ b))"

definition command_body :: "u8 \<Rightarrow> u16 \<Rightarrow> u16 option \<Rightarrow> u8 list \<Rightarrow> lingo_error + u8 list" where
  "command_body lingo command transaction_id payload =
     (let tail = (case transaction_id of None \<Rightarrow> [] | Some i \<Rightarrow> be16_bytes i) @ payload in
      if lingo \<noteq> 4 then
        (if unat command \<le> 255 then Inr ([lingo] @ [ucast command] @ tail)
         else Inl (CommandOutOfRange command))
      else Inr ([lingo] @ be16_bytes command @ tail))"

section \<open>Lemmas\<close>

lemma frame_encode_shape:
  assumes "frame_encode b = Inr bs"
  obtains (short) "length b \<le> 255" "b \<noteq> []" "min_body_len (b ! 0) \<le> length b"
      "bs = 0x55 # of_nat (length b) # b"
    | (extended) "255 < length b" "length b \<le> 65535" "min_body_len (b ! 0) \<le> length b"
      "bs = 0x55 # 0 # be16_bytes (of_nat (length b)) @ b"
  using assms by (auto simp: frame_encode_def split: if_splits)

lemma unat_of_nat_u8: "n < 256 \<Longrightarrow> unat (of_nat n :: u8) = n"
  by (simp add: unat_of_nat)

lemma unat_of_nat_u16: "n < 65536 \<Longrightarrow> unat (of_nat n :: u16) = n"
  by (simp add: unat_of_nat)

lemma frame_decode_encode:
  assumes "frame_encode b = Inr bs"
  shows "frame_decode (bs @ rest) = Inr (Some (\<lparr>body = b\<rparr>, length bs))"
  using assms
proof (cases rule: frame_encode_shape)
  case short
  then have "(of_nat (length b) :: u8) \<noteq> 0"
    by (auto simp: word_unat_eq_iff unat_of_nat_u8)
  with short show ?thesis
    by (simp add: frame_decode_def frame_lengths_def slice_get_def unat_of_nat_u8 nth_append)
next
  case extended
  then have "b \<noteq> []" by auto
  with extended show ?thesis
    by (simp add: frame_decode_def frame_lengths_def slice_get_def be16_bytes_def
        unat_of_nat_u16 nth_append)
qed

lemma frame_decode_Some:
  assumes "frame_decode src = Inr (Some (f, n))"
  obtains header_len body_len extended where
    "frame_lengths src = Some (header_len, body_len, extended)"
    "src ! 0 = 0x55" "0 < body_len" "n = header_len + body_len" "n \<le> length src"
    "extended \<longrightarrow> 255 < body_len" "min_body_len (src ! header_len) \<le> body_len"
    "body f = take body_len (drop header_len src)"
  using assms
  by (auto simp: frame_decode_def slice_get_def Let_def
      split: option.splits if_splits)

lemma frame_lengths_Some:
  assumes "frame_lengths src = Some (header_len, body_len, extended)"
  obtains (short) "header_len = 2" "extended = False" "1 < length src" "body_len = unat (src ! 1)"
      "src ! 1 \<noteq> 0"
    | (extended) "header_len = 4" "extended = True" "3 < length src" "src ! 1 = 0"
      "body_len = unat (be16_of (src ! 2) (src ! 3))"
  using assms
  by (auto simp: frame_lengths_def slice_get_def split: option.splits if_splits)

lemma frame_decode_bounds:
  assumes "frame_decode src = Inr (Some (f, n))"
  shows "3 < n \<and> n \<le> length src \<and> src ! 0 = 0x55"
  using assms
proof (cases rule: frame_decode_Some)
  case (1 header_len body_len extended)
  have "2 \<le> body_len" using 1 by (auto simp: min_body_len_def split: if_splits)
  moreover have "2 \<le> header_len" using 1(1) by (cases rule: frame_lengths_Some) simp_all
  ultimately show ?thesis using 1 by simp
qed

lemma take_add_4:
  "3 < length xs \<Longrightarrow> take (4 + n) xs = xs ! 0 # xs ! 1 # xs ! 2 # xs ! 3 # take n (drop 4 xs)"
  by (cases xs rule: list.exhaust [case_product list.exhaust])
     (auto simp: eval_nat_numeral Suc_length_conv length_Suc_conv less_Suc_eq_le
        Suc_le_length_iff)

lemma frame_encode_decode:
  assumes "frame_decode src = Inr (Some (f, n))"
  shows "frame_encode (body f) = Inr (take n src)"
  using assms
proof (cases rule: frame_decode_Some)
  case (1 header_len body_len ext)
  have len: "length (body f) = body_len" using 1 by simp
  have hd: "body f ! 0 = src ! header_len" and ne: "body f \<noteq> []"
    using 1 len by (auto simp flip: length_greater_0_conv)
  show ?thesis
    using 1(1)
  proof (cases rule: frame_lengths_Some)
    case short
    have "take n src = src ! 0 # src ! 1 # body f"
      using 1 short by (auto simp: list_eq_iff_nth_eq nth_Cons split: nat.splits)
    moreover have "body_len \<le> 255" using short u8_range [of "src ! 1"] by simp
    ultimately show ?thesis
      using 1 short len hd ne by (simp add: frame_encode_def)
  next
    case extended
    let ?w = "be16_of (src ! 2) (src ! 3)"
    have "take n src = src ! 0 # src ! 1 # src ! 2 # src ! 3 # body f"
      using 1 extended take_add_4 [of src body_len] by simp
    moreover have "body_len \<le> 65535" using extended unat_range [of ?w] by simp
    moreover have "be16_bytes (of_nat body_len) = [src ! 2, src ! 3]"
      using extended by simp
    ultimately show ?thesis
      using 1 extended len hd ne by (simp add: frame_encode_def)
  qed
qed

text \<open>A strict prefix of a frame is never mistaken for a frame or for an error.\<close>

lemma frame_decode_strict_prefix:
  assumes enc: "frame_encode b = Inr bs" and k: "k < length bs"
  shows "frame_decode (take k bs) = Inr None"
  using enc
proof (cases rule: frame_encode_shape)
  case short
  then have "(of_nat (length b) :: u8) \<noteq> 0"
    by (auto simp: word_unat_eq_iff unat_of_nat_u8)
  with short k show ?thesis
    by (auto simp: frame_decode_def frame_lengths_def slice_get_def unat_of_nat_u8 Let_def
        nth_Cons split: nat.splits)
next
  case extended
  then show ?thesis
    using k by (auto simp: frame_decode_def frame_lengths_def slice_get_def be16_bytes_def
        unat_of_nat_u16 Let_def nth_Cons split: nat.splits)
qed

text \<open>
  Claim C40: every body the iAP1 frame encoder accepts is decoded back from its wire bytes,
  whatever follows them, with the exact number of bytes consumed; every strict prefix of the
  wire bytes makes the decoder wait for more instead of failing or returning a frame.
\<close>

theorem lingo_frame_roundtrip:
  assumes "frame_encode b = Inr bs"
  shows "frame_decode (bs @ rest) = Inr (Some (\<lparr>body = b\<rparr>, length bs))
    \<and> (k < length bs \<longrightarrow> frame_decode (take k bs) = Inr None)"
  using frame_decode_encode [OF assms] frame_decode_strict_prefix [OF assms] by simp

theorem lingo_frame_roundtrip_witness:
  "frame_decode ([0x55, 2, 0, 0xEE] @ [0x10]) = Inr (Some (\<lparr>body = [0, 0xEE]\<rparr>, 4))
    \<and> frame_decode [0x55, 2, 0] = Inr None"
proof -
  have enc: "frame_encode [0, 0xEE] = Inr [0x55, 2, 0, 0xEE]"
    by (simp add: frame_encode_def min_body_len_def)
  show ?thesis
    using lingo_frame_roundtrip [OF enc, of "[0x10]" 3] by simp
qed

text \<open>
  The decoder accepts only the canonical encoding: a decoded frame re-encodes to
  exactly the bytes that were consumed.
\<close>

lemma lingo_frame_canonical:
  assumes "frame_decode src = Inr (Some (f, n))"
  shows "frame_encode (body f) = Inr (take n src) \<and> n \<le> length src"
  using frame_encode_decode [OF assms] frame_decode_bounds [OF assms] by simp

theorem lingo_frame_canonical_witness:
  "frame_encode [0, 0xEE] = Inr (take 4 [0x55, 2, 0, 0xEE, 0x10]) \<and> 4 \<le> length [0x55, 2, 0, 0xEE, 0x10 :: u8]"
proof -
  have "frame_decode [0x55, 2, 0, 0xEE, 0x10] = Inr (Some (\<lparr>body = [0, 0xEE]\<rparr>, 4))"
    by (simp add: frame_decode_def frame_lengths_def slice_get_def min_body_len_def)
  from lingo_frame_canonical [OF this] show ?thesis by simp
qed

lemma frame_command_command_body:
  assumes "command_body lingo command None payload = Inr b"
  shows "frame_command \<lparr>body = b\<rparr> = Some (command, payload)"
  using assms
  by (auto simp: command_body_def frame_command_def frame_lingo_def slice_get_def be16_bytes_def
      ucast_u16_u8_u16 Let_def split: if_splits)

end
