(* ===== verification/Link_Packet.thy ===== *)
theory Link_Packet
  imports Prelude Mod_Seq Checksum Lingo_Frame
begin

text \<open>
  \<open>core/catplay_iap2_link/src/link_control.rs\<close>, \<open>header.rs\<close> and \<open>packet.rs\<close>: the control
  bits, the nine-byte header and the packet of the iAP2 link layer.
\<close>

section \<open>Control bits\<close>

text \<open>
  \<open>bitflags!\<close> declares a struct around a \<open>u8\<close>: the model keeps the byte. \<open>|\<close> is the
  bitwise union, \<open>from_bits_truncate\<close> drops the bits that name no flag and \<open>contains\<close> tests
  for a subset.
\<close>

type_synonym link_control = u8

definition CTL_SYN :: link_control where "CTL_SYN = 0x80"

definition CTL_ACK :: link_control where "CTL_ACK = 0x40"

definition CTL_EAK :: link_control where "CTL_EAK = 0x20"

definition CTL_RST :: link_control where "CTL_RST = 0x10"

definition CTL_SLP :: link_control where "CTL_SLP = 0x08"

lemmas control_bits = CTL_SYN_def CTL_ACK_def CTL_EAK_def CTL_RST_def CTL_SLP_def

definition control_all :: link_control where
  "control_all = CTL_SYN OR CTL_ACK OR CTL_EAK OR CTL_RST OR CTL_SLP"

definition control_from_bits_truncate :: "u8 \<Rightarrow> link_control" where
  "control_from_bits_truncate b = b AND control_all"

definition control_contains :: "link_control \<Rightarrow> link_control \<Rightarrow> bool" where
  "control_contains c flag \<longleftrightarrow> c AND flag = flag"

datatype link_control_enum = Enum_Syn | Enum_SynAck | Enum_Rst | Enum_Eak | Enum_Slp | Enum_Invalid

definition is_exactly :: "link_control \<Rightarrow> link_control \<Rightarrow> bool" where
  "is_exactly c expected \<longleftrightarrow> c = expected"

definition is_ack :: "link_control \<Rightarrow> bool" where
  "is_ack c = is_exactly c CTL_ACK"

definition is_syn :: "link_control \<Rightarrow> bool" where
  "is_syn c = is_exactly c CTL_SYN"

definition is_syn_ack :: "link_control \<Rightarrow> bool" where
  "is_syn_ack c = is_exactly c (CTL_SYN OR CTL_ACK)"

definition is_rst :: "link_control \<Rightarrow> bool" where
  "is_rst c = is_exactly c CTL_RST"

definition is_eak :: "link_control \<Rightarrow> bool" where
  "is_eak c = is_exactly c (CTL_ACK OR CTL_EAK)"

definition is_any_ack :: "link_control \<Rightarrow> bool" where
  "is_any_ack c \<longleftrightarrow> is_ack c \<or> is_syn_ack c \<or> is_eak c"

definition is_slp :: "link_control \<Rightarrow> bool" where
  "is_slp c = is_exactly c CTL_SLP"

definition control_as_enum :: "link_control \<Rightarrow> link_control_enum" where
  "control_as_enum c =
     (if is_syn_ack c then Enum_SynAck
      else if is_syn c then Enum_Syn
      else if is_rst c then Enum_Rst
      else if is_eak c then Enum_Eak
      else if is_slp c then Enum_Slp
      else Enum_Invalid)"

text \<open>\<open>parts.join("|")\<close> and \<open>to_str\<close>.\<close>

fun join_str :: "string \<Rightarrow> string list \<Rightarrow> string" where
  "join_str sep [] = []"
| "join_str sep [p] = p"
| "join_str sep (p # q # ps) = p @ sep @ join_str sep (q # ps)"

definition control_to_str :: "link_control \<Rightarrow> string" where
  "control_to_str c =
     (let parts =
        (if control_contains c CTL_SYN then [''SYN''] else []) @
        (if control_contains c CTL_ACK then [''ACK''] else []) @
        (if control_contains c CTL_EAK then [''EAK''] else []) @
        (if control_contains c CTL_RST then [''RST''] else []) @
        (if control_contains c CTL_SLP then [''SLP''] else [])
      in if parts = [] then ''NONE'' else join_str ''|'' parts)"

lemmas control_simps =
  is_exactly_def is_ack_def is_syn_def is_syn_ack_def is_rst_def is_eak_def is_slp_def

text \<open>The named combinations are pairwise different.\<close>

lemma control_exclusive:
  "is_ack c \<Longrightarrow> \<not> is_syn c \<and> \<not> is_syn_ack c \<and> \<not> is_rst c \<and> \<not> is_eak c \<and> \<not> is_slp c"
  "is_syn c \<Longrightarrow> \<not> is_ack c \<and> \<not> is_syn_ack c \<and> \<not> is_rst c \<and> \<not> is_eak c \<and> \<not> is_slp c"
  "is_syn_ack c \<Longrightarrow> \<not> is_ack c \<and> \<not> is_syn c \<and> \<not> is_rst c \<and> \<not> is_eak c \<and> \<not> is_slp c"
  "is_eak c \<Longrightarrow> \<not> is_ack c \<and> \<not> is_syn c \<and> \<not> is_syn_ack c \<and> \<not> is_rst c \<and> \<not> is_slp c"
  "is_rst c \<Longrightarrow> \<not> is_ack c \<and> \<not> is_syn c \<and> \<not> is_syn_ack c \<and> \<not> is_eak c \<and> \<not> is_slp c"
  by (auto simp: control_simps control_bits)

definition control_wf :: "link_control \<Rightarrow> bool" where
  "control_wf c \<longleftrightarrow> control_from_bits_truncate c = c"

lemma control_wf_truncate [simp]: "control_wf (control_from_bits_truncate b)"
  by (simp add: control_wf_def control_from_bits_truncate_def and.assoc)

lemma control_wf_named [simp]:
  "control_wf CTL_SYN" "control_wf CTL_ACK" "control_wf (CTL_SYN OR CTL_ACK)"
  "control_wf (CTL_ACK OR CTL_EAK)" "control_wf CTL_RST" "control_wf CTL_SLP"
  by (simp_all add: control_wf_def control_from_bits_truncate_def control_all_def control_bits)

section \<open>Header\<close>

datatype packet_coder_error =
    TooShort
  | HeaderInvalidMagic
  | HeaderChecksumInvalid u8 u8
  | HeaderNotEnoughBytes usize
  | HeaderNotParsable
  | InvalidLength usize
  | PayloadTooShort usize usize
  | PayloadChecksumInvalid u8 u8
  | Legacy_Error lingo_error
  | LegacyChecksumInvalid

definition IAP2_HEADER_START :: u16 where "IAP2_HEADER_START = 0xFF5A"

definition IAP2_HEADER_SIZE :: usize where "IAP2_HEADER_SIZE = 9"

record header =
  h_length :: u16
  h_control :: link_control
  h_seq :: u8
  h_ack :: u8
  h_session_id :: u8

definition header_parse :: "u8 list \<Rightarrow> packet_coder_error + header" where
  "header_parse data =
     (if length data < IAP2_HEADER_SIZE then Inl (HeaderNotEnoughBytes (length data))
      else if be16_of (data ! 0) (data ! 1) \<noteq> IAP2_HEADER_START then Inl HeaderInvalidMagic
      else if \<not> iap2_check_checksum (take 9 data) then
        Inl (HeaderChecksumInvalid (iap2_gen_checksum (take 8 data)) (data ! 8))
      else Inr
        \<lparr>h_length = be16_of (data ! 2) (data ! 3),
         h_control = control_from_bits_truncate (data ! 4),
         h_seq = data ! 5,
         h_ack = data ! 6,
         h_session_id = data ! 7\<rparr>)"

definition header_to_bytes :: "header \<Rightarrow> u8 list" where
  "header_to_bytes h =
     (let buf = be16_bytes IAP2_HEADER_START @ be16_bytes (h_length h) @
        [h_control h, h_seq h, h_ack h, h_session_id h]
      in buf @ [iap2_gen_checksum buf])"

lemma be16_start: "be16_bytes IAP2_HEADER_START = [0xFF, 0x5A]"
  by (simp add: IAP2_HEADER_START_def be16_bytes_def drop_bit_eq_div)

lemma be16_start_of [simp]: "be16_of 0xFF 0x5A = IAP2_HEADER_START"
  by (metis be16_bytes_def be16_of_bytes be16_start list.inject)

lemma header_to_bytes_expand:
  "header_to_bytes h =
     [0xFF, 0x5A, ucast (drop_bit 8 (h_length h)), ucast (h_length h), h_control h, h_seq h,
      h_ack h, h_session_id h] @
     [iap2_gen_checksum
       [0xFF, 0x5A, ucast (drop_bit 8 (h_length h)), ucast (h_length h), h_control h, h_seq h,
        h_ack h, h_session_id h]]"
  unfolding header_to_bytes_def be16_start Let_def by (simp add: be16_bytes_def)

lemma length_header_to_bytes [simp]: "length (header_to_bytes h) = 9"
  by (simp add: header_to_bytes_expand)

lemma header_parse_to_bytes:
  assumes "control_wf (h_control h)"
  shows "header_parse (header_to_bytes h @ rest) = Inr h"
proof -
  let ?b = "[0xFF, 0x5A, ucast (drop_bit 8 (h_length h)), ucast (h_length h), h_control h, h_seq h,
      h_ack h, h_session_id h]"
  have ok: "iap2_check_checksum (?b @ [iap2_gen_checksum ?b])"
    unfolding check_checksum_append_byte ..
  then show ?thesis
    using assms
    by (simp add: header_parse_def header_to_bytes_expand IAP2_HEADER_SIZE_def control_wf_def)
qed

lemma header_parse_Inr:
  assumes "header_parse data = Inr h"
  shows "9 \<le> length data" "data ! 0 = 0xFF" "data ! 1 = 0x5A" "control_wf (h_control h)"
    "h_length h = be16_of (data ! 2) (data ! 3)"
proof -
  have start: "be16_of (data ! 0) (data ! 1) = IAP2_HEADER_START"
    using assms by (auto simp: header_parse_def split: if_splits)
  have "[data ! 0, data ! 1] = [0xFF, 0x5A]"
    using arg_cong [OF start, of be16_bytes] by (simp add: be16_start)
  then show "data ! 0 = 0xFF" "data ! 1 = 0x5A" by simp_all
  show "9 \<le> length data" "control_wf (h_control h)" "h_length h = be16_of (data ! 2) (data ! 3)"
    using assms by (auto simp: header_parse_def IAP2_HEADER_SIZE_def split: if_splits)
qed

text \<open>Parsing looks at the first nine bytes only.\<close>

lemma header_parse_append:
  "9 \<le> length data \<Longrightarrow> header_parse (data @ rest) = header_parse data"
  by (cases "data = []") (simp_all add: header_parse_def IAP2_HEADER_SIZE_def nth_append)

section \<open>Packet\<close>

record packet =
  p_header :: header
  p_payload :: "u8 list option"

datatype packet_or_detect = Detect | Packet packet | Legacy "u8 list"

definition PACKET_OVERHEAD :: usize where "PACKET_OVERHEAD = 10"

definition PACKET_SIZE_WITHOUT_PAYLOAD :: usize where "PACKET_SIZE_WITHOUT_PAYLOAD = 9"

definition packet_size :: "packet \<Rightarrow> usize" where
  "packet_size p =
     (case p_payload p of
        Some v \<Rightarrow> length v + PACKET_OVERHEAD
      | None \<Rightarrow> PACKET_SIZE_WITHOUT_PAYLOAD)"

definition fix_length :: "packet \<Rightarrow> panic + packet" where
  "fix_length p =
     (case p_payload p of
        None \<Rightarrow> Inr (p\<lparr>p_header := (p_header p)\<lparr>h_length := 9\<rparr>\<rparr>)
      | Some payload \<Rightarrow>
          if length payload > 65525 then
            Inl (Explicit_Panic ''Unacceptable iAP2 payload > 65525 bytes!'')
          else Inr (p\<lparr>p_header := (p_header p)\<lparr>h_length := 9 + (of_nat (length payload) + 1)\<rparr>\<rparr>))"

definition new_ack :: "u8 \<Rightarrow> u8 \<Rightarrow> u8 \<Rightarrow> u8 list option \<Rightarrow> panic + packet" where
  "new_ack own_seq peer_seq session_id payload = fix_length
     \<lparr>p_header = \<lparr>h_length = 0, h_control = CTL_ACK, h_seq = own_seq, h_ack = peer_seq,
        h_session_id = session_id\<rparr>,
      p_payload = payload\<rparr>"

definition new_eak :: "u8 \<Rightarrow> u8 \<Rightarrow> u8 \<Rightarrow> u8 list \<Rightarrow> panic + packet" where
  "new_eak own_seq peer_seq session_id payload = fix_length
     \<lparr>p_header = \<lparr>h_length = 0, h_control = CTL_ACK OR CTL_EAK, h_seq = own_seq, h_ack = peer_seq,
        h_session_id = session_id\<rparr>,
      p_payload = Some payload\<rparr>"

definition is_ackable :: "packet \<Rightarrow> bool" where
  "is_ackable p =
     (let ctl = h_control (p_header p) in
      is_syn ctl \<or> ((is_ack ctl \<or> is_syn_ack ctl) \<and> p_payload p \<noteq> None))"

text \<open>
  A packet whose length field agrees with its payload and whose control byte holds named flags
  only: what every constructor builds and the decoder returns.
\<close>

definition packet_wf :: "packet \<Rightarrow> bool" where
  "packet_wf p \<longleftrightarrow> control_wf (h_control (p_header p)) \<and> unat (h_length (p_header p)) = packet_size p"

lemma packet_size_wf_le: "packet_wf p \<Longrightarrow> packet_size p \<le> 65535"
  using unat_range [of "h_length (p_header p)"] by (simp add: packet_wf_def)

lemma fix_length_Inr:
  assumes "fix_length p = Inr q"
  shows "q = p\<lparr>p_header := (p_header p)\<lparr>h_length := of_nat (packet_size p)\<rparr>\<rparr>"
    and "packet_size p \<le> 65535"
  using assms
  by (auto simp: fix_length_def packet_size_def PACKET_OVERHEAD_def PACKET_SIZE_WITHOUT_PAYLOAD_def
      split: option.splits if_splits)

lemma fix_length_wf:
  assumes "fix_length p = Inr q" and "control_wf (h_control (p_header p))"
  shows "packet_wf q"
proof -
  have "unat (of_nat (packet_size p) :: u16) = packet_size p"
    using fix_length_Inr(2) [OF assms(1)] by (simp add: unat_of_nat)
  then show ?thesis
    using fix_length_Inr(1) [OF assms(1)] assms(2)
    by (simp add: packet_wf_def packet_size_def)
qed

lemma fix_length_panics_iff:
  "(\<exists>e. fix_length p = Inl e) \<longleftrightarrow> (\<exists>v. p_payload p = Some v \<and> 65525 < length v)"
  by (auto simp: fix_length_def split: option.splits)

lemma new_ack_wf: "new_ack s a i pl = Inr q \<Longrightarrow> packet_wf q"
  unfolding new_ack_def by (erule fix_length_wf) simp

lemma new_eak_wf: "new_eak s a i pl = Inr q \<Longrightarrow> packet_wf q"
  unfolding new_eak_def by (erule fix_length_wf) simp

lemma new_ack_None [simp]:
  "new_ack s a i None = Inr
     \<lparr>p_header = \<lparr>h_length = 9, h_control = CTL_ACK, h_seq = s, h_ack = a, h_session_id = i\<rparr>,
      p_payload = None\<rparr>"
  by (simp add: new_ack_def fix_length_def)

lemma new_ack_fields:
  assumes "new_ack s a i pl = Inr q"
  shows "h_control (p_header q) = CTL_ACK" "h_seq (p_header q) = s" "h_ack (p_header q) = a"
    "h_session_id (p_header q) = i" "p_payload q = pl"
  using assms by (auto simp: new_ack_def fix_length_def split: option.splits if_splits)

text \<open>
  A header whose control byte holds named flags is parsed back from its nine bytes,
  whatever follows; and every header the parser accepts has the magic, a full nine bytes and
  only named control flags.
\<close>

lemma header_roundtrip:
  assumes "control_wf (h_control h)"
  shows "header_parse (header_to_bytes h @ rest) = Inr h \<and> length (header_to_bytes h) = 9
    \<and> (header_parse data = Inr h' \<longrightarrow>
        9 \<le> length data \<and> data ! 0 = 0xFF \<and> data ! 1 = 0x5A \<and> control_wf (h_control h'))"
  using header_parse_to_bytes [OF assms] header_parse_Inr by auto

theorem header_roundtrip_witness:
  "header_parse (header_to_bytes \<lparr>h_length = 26, h_control = CTL_SYN, h_seq = 0x2B, h_ack = 0, h_session_id = 0\<rparr> @ [1]) =
     Inr \<lparr>h_length = 26, h_control = CTL_SYN, h_seq = 0x2B, h_ack = 0, h_session_id = 0\<rparr>"
  using header_roundtrip
    [of "\<lparr>h_length = 26, h_control = CTL_SYN, h_seq = 0x2B, h_ack = 0, h_session_id = 0\<rparr>" "[1]"]
  by simp

text \<open>
  The packet constructors produce packets whose length field is the encoded size, and
  they panic exactly when the payload is longer than 65525 bytes.
\<close>

lemma packet_constructors_wf:
  "(case new_ack s a i pl of
      Inr q \<Rightarrow> packet_wf q \<and> p_payload q = pl
    | Inl e \<Rightarrow> \<exists>v. pl = Some v \<and> 65525 < length v)
    \<and> (case new_eak s a i v' of
        Inr q \<Rightarrow> packet_wf q \<and> p_payload q = Some v'
      | Inl e \<Rightarrow> 65525 < length v')"
  by (auto simp: new_ack_wf new_eak_wf new_ack_fields split: sum.splits)
     (auto simp: new_ack_def new_eak_def fix_length_def split: option.splits if_splits)

end
