(* ===== verification/Link_Payload.thy ===== *)
theory Link_Payload
  imports Link_Packet
begin

text \<open>
  \<open>core/catplay_iap2_link/src/payload/\<close>: the payloads of the link layer (link synchronisation,
  extended acknowledgement, file transfer, session data), the trait they implement, and the
  SYN constructors of \<open>packet.rs\<close> that carry a synchronisation payload.
\<close>

section \<open>Link synchronisation payload\<close>

datatype session_type = Control | FileTransfer | ExternalAccessory

fun session_type_of_u8 :: "u8 \<Rightarrow> session_type option" where
  "session_type_of_u8 v =
     (if v = 0x00 then Some Control
      else if v = 0x01 then Some FileTransfer
      else if v = 0x02 then Some ExternalAccessory
      else None)"

fun session_type_to_u8 :: "session_type \<Rightarrow> u8" where
  "session_type_to_u8 Control = 0x00"
| "session_type_to_u8 FileTransfer = 0x01"
| "session_type_to_u8 ExternalAccessory = 0x02"

record lsp_session =
  ls_id :: u8
  ls_type :: session_type
  ls_version :: u8

record lsp_payload =
  max_outgoing :: u8
  max_len :: u16
  retransmission_timeout :: u16
  ack_timeout :: u16
  max_retransmissions :: u8
  max_ack :: u8
  sessions :: "lsp_session list"

definition LSP_VERSION :: u8 where "LSP_VERSION = 0x01"

definition SESSION_ID_CONTROL :: u8 where "SESSION_ID_CONTROL = 0"

text \<open>
  The \<open>while idx + 2 < payload.len()\<close> loop over the session triples: fewer than three bytes
  left over are ignored, an unknown session type makes the whole payload invalid.
\<close>

fun lsp_parse_sessions :: "u8 list \<Rightarrow> lsp_session list option" where
  "lsp_parse_sessions (i # ty # v # rest) =
     (case session_type_of_u8 ty of
        None \<Rightarrow> None
      | Some t \<Rightarrow>
          (case lsp_parse_sessions rest of
             None \<Rightarrow> None
           | Some ss \<Rightarrow> Some (\<lparr>ls_id = i, ls_type = t, ls_version = v\<rparr> # ss)))"
| "lsp_parse_sessions _ = Some []"

definition lsp_from_bytes :: "u8 list \<Rightarrow> lsp_payload option" where
  "lsp_from_bytes payload =
     (if length payload < 10 then None
      else if payload ! 0 \<noteq> LSP_VERSION then None
      else
        (case lsp_parse_sessions (drop 10 payload) of
           None \<Rightarrow> None
         | Some ss \<Rightarrow> Some
             \<lparr>max_outgoing = payload ! 1,
              max_len = be16_of (payload ! 2) (payload ! 3),
              retransmission_timeout = be16_of (payload ! 4) (payload ! 5),
              ack_timeout = be16_of (payload ! 6) (payload ! 7),
              max_retransmissions = payload ! 8,
              max_ack = payload ! 9,
              sessions = ss\<rparr>))"

fun lsp_session_bytes :: "lsp_session list \<Rightarrow> u8 list" where
  "lsp_session_bytes [] = []"
| "lsp_session_bytes (s # ss) =
     ls_id s # session_type_to_u8 (ls_type s) # ls_version s # lsp_session_bytes ss"

definition lsp_to_bytes :: "lsp_payload \<Rightarrow> u8 list" where
  "lsp_to_bytes l =
     [LSP_VERSION, max_outgoing l] @ be16_bytes (max_len l) @ be16_bytes (retransmission_timeout l) @
     be16_bytes (ack_timeout l) @ [max_retransmissions l, max_ack l] @ lsp_session_bytes (sessions l)"

text \<open>\<open>Ord::clamp\<close> panics when the bounds are in the wrong order.\<close>

definition ord_clamp :: "'a::linorder \<Rightarrow> 'a \<Rightarrow> 'a \<Rightarrow> panic + 'a" where
  "ord_clamp lo hi x =
     (if hi < lo then Inl (Explicit_Panic ''assertion failed: min <= max'')
      else Inr (if x < lo then lo else if hi < x then hi else x))"

definition lsp_clamp :: "lsp_payload \<Rightarrow> panic + lsp_payload" where
  "lsp_clamp l =
     sum_bind (ord_clamp 1 127 (max_outgoing l)) (\<lambda>mo.
     sum_bind (ord_clamp 24 (- 1) (max_len l)) (\<lambda>ml.
     sum_bind (ord_clamp 20 (- 1) (retransmission_timeout l)) (\<lambda>rt.
     sum_bind (ord_clamp 10 (rt div 2) (ack_timeout l)) (\<lambda>at.
     sum_bind (ord_clamp 1 30 (max_retransmissions l)) (\<lambda>mr.
     sum_bind (ord_clamp 0 (min mo 127) (max_ack l)) (\<lambda>ma.
       Inr (l\<lparr>max_outgoing := mo, max_len := ml, retransmission_timeout := rt, ack_timeout := at,
              max_retransmissions := mr, max_ack := ma\<rparr>)))))))"

definition lsp_is_similar :: "lsp_payload \<Rightarrow> lsp_payload \<Rightarrow> bool" where
  "lsp_is_similar l r \<longleftrightarrow>
     sessions l = sessions r
     \<and> retransmission_timeout l = retransmission_timeout r
     \<and> ack_timeout l = ack_timeout r
     \<and> max_retransmissions l = max_retransmissions r
     \<and> max_ack l = max_ack r"

definition lsp_modern_sessions :: "lsp_session list" where
  "lsp_modern_sessions =
     [\<lparr>ls_id = 1, ls_type = Control, ls_version = 2\<rparr>,
      \<lparr>ls_id = 2, ls_type = FileTransfer, ls_version = 2\<rparr>,
      \<lparr>ls_id = 3, ls_type = ExternalAccessory, ls_version = 1\<rparr>]"

definition lsp_negotiating :: lsp_payload where
  "lsp_negotiating =
     \<lparr>max_outgoing = 1, max_len = 128, retransmission_timeout = 1000, ack_timeout = 10,
      max_retransmissions = 30, max_ack = 0, sessions = lsp_modern_sessions\<rparr>"

definition lsp_bluetooth :: lsp_payload where
  "lsp_bluetooth =
     \<lparr>max_outgoing = 5, max_len = 2048, retransmission_timeout = 1500, ack_timeout = 73,
      max_retransmissions = 30, max_ack = 3, sessions = lsp_modern_sessions\<rparr>"

definition lsp_usb :: lsp_payload where
  "lsp_usb =
     \<lparr>max_outgoing = 5, max_len = 4096, retransmission_timeout = 2000, ack_timeout = 22,
      max_retransmissions = 30, max_ack = 3, sessions = lsp_modern_sessions\<rparr>"

definition lsp_airplay :: lsp_payload where
  "lsp_airplay =
     \<lparr>max_outgoing = 5, max_len = 65535, retransmission_timeout = 2000, ack_timeout = 22,
      max_retransmissions = 30, max_ack = 3, sessions = lsp_modern_sessions\<rparr>"

definition lsp_from_packet :: "packet \<Rightarrow> lsp_payload option" where
  "lsp_from_packet p =
     (if is_syn (h_control (p_header p)) \<or> is_syn_ack (h_control (p_header p))
      then (case p_payload p of Some payload \<Rightarrow> lsp_from_bytes payload | None \<Rightarrow> None)
      else None)"

text \<open>\<open>Packet::new_syn\<close> and \<open>Packet::new_syn_ack\<close>.\<close>

definition new_syn :: "u8 \<Rightarrow> lsp_payload \<Rightarrow> panic + packet" where
  "new_syn own_seq lsp = fix_length
     \<lparr>p_header = \<lparr>h_length = 0, h_control = CTL_SYN, h_seq = own_seq, h_ack = 0,
        h_session_id = SESSION_ID_CONTROL\<rparr>,
      p_payload = Some (lsp_to_bytes lsp)\<rparr>"

definition new_syn_ack :: "u8 \<Rightarrow> u8 \<Rightarrow> lsp_payload \<Rightarrow> panic + packet" where
  "new_syn_ack own_seq peer_seq lsp = fix_length
     \<lparr>p_header = \<lparr>h_length = 0, h_control = CTL_SYN OR CTL_ACK, h_seq = own_seq, h_ack = peer_seq,
        h_session_id = SESSION_ID_CONTROL\<rparr>,
      p_payload = Some (lsp_to_bytes lsp)\<rparr>"

section \<open>Extended acknowledgement and session payloads\<close>

record eak_payload =
  psns :: "u8 list"

definition eak_from_packet :: "packet \<Rightarrow> eak_payload option" where
  "eak_from_packet p =
     (if is_eak (h_control (p_header p))
      then map_option (\<lambda>payload. \<lparr>psns = payload\<rparr>) (p_payload p)
      else None)"

definition eak_to_bytes :: "eak_payload \<Rightarrow> u8 list" where
  "eak_to_bytes e = psns e"

record session_payload =
  sp_data :: "u8 list"

definition session_from_packet :: "packet \<Rightarrow> session_payload option" where
  "session_from_packet p =
     (if is_ack (h_control (p_header p))
      then map_option (\<lambda>payload. \<lparr>sp_data = payload\<rparr>) (p_payload p)
      else None)"

definition session_to_bytes :: "session_payload \<Rightarrow> u8 list" where
  "session_to_bytes s = sp_data s"

section \<open>File transfer payload\<close>

datatype file_transfer_op =
    Op_Start | Op_Cancel | Op_Pause | Op_Setup | Op_Success | Op_Failure
  | Op_FirstData | Op_FirstAndOnlyData | Op_Data | Op_LastData

fun file_op_to_u8 :: "file_transfer_op \<Rightarrow> u8" where
  "file_op_to_u8 Op_Start = 0x01"
| "file_op_to_u8 Op_Cancel = 0x02"
| "file_op_to_u8 Op_Pause = 0x03"
| "file_op_to_u8 Op_Setup = 0x04"
| "file_op_to_u8 Op_Success = 0x05"
| "file_op_to_u8 Op_Failure = 0x06"
| "file_op_to_u8 Op_FirstData = 0x80"
| "file_op_to_u8 Op_FirstAndOnlyData = 0xC0"
| "file_op_to_u8 Op_Data = 0x00"
| "file_op_to_u8 Op_LastData = 0x40"

fun file_op_of_u8 :: "u8 \<Rightarrow> file_transfer_op option" where
  "file_op_of_u8 v =
     (if v = file_op_to_u8 Op_Start then Some Op_Start
      else if v = file_op_to_u8 Op_Cancel then Some Op_Cancel
      else if v = file_op_to_u8 Op_Pause then Some Op_Pause
      else if v = file_op_to_u8 Op_Setup then Some Op_Setup
      else if v = file_op_to_u8 Op_Success then Some Op_Success
      else if v = file_op_to_u8 Op_Failure then Some Op_Failure
      else if v = file_op_to_u8 Op_FirstData then Some Op_FirstData
      else if v = file_op_to_u8 Op_FirstAndOnlyData then Some Op_FirstAndOnlyData
      else if v = file_op_to_u8 Op_Data then Some Op_Data
      else if v = file_op_to_u8 Op_LastData then Some Op_LastData
      else None)"

record file_payload =
  fp_file_id :: u8
  fp_op :: file_transfer_op
  fp_payload :: "u8 list"

definition FILE_HEADER_OVERHEAD :: usize where "FILE_HEADER_OVERHEAD = 2"

definition file_from_packet :: "packet \<Rightarrow> file_payload option" where
  "file_from_packet p =
     (case p_payload p of
        None \<Rightarrow> None
      | Some payload \<Rightarrow>
          if length payload < 2 then None
          else
            (case file_op_of_u8 (payload ! 1) of
               None \<Rightarrow> None
             | Some op \<Rightarrow> Some
                 \<lparr>fp_file_id = payload ! 0, fp_op = op, fp_payload = drop 2 payload\<rparr>))"

definition file_to_bytes :: "file_payload \<Rightarrow> u8 list" where
  "file_to_bytes f = [fp_file_id f, file_op_to_u8 (fp_op f)] @ fp_payload f"

section \<open>The trait\<close>

text \<open>
  \<open>trait PayloadDecodable\<close>: \<open>carries c\<close> says which control bytes announce the payload. The
  law is that what \<open>to_bytes\<close> writes, \<open>from_packet\<close> reads back.
\<close>

locale payload_decodable =
  fixes from_packet :: "packet \<Rightarrow> 'p option"
    and to_bytes :: "'p \<Rightarrow> u8 list"
    and carries :: "link_control \<Rightarrow> bool"
  assumes decode_encoded: "carries (h_control h) \<Longrightarrow>
      from_packet \<lparr>p_header = h, p_payload = Some (to_bytes x)\<rparr> = Some x"
    and needs_payload: "p_payload p = None \<Longrightarrow> from_packet p = None"
    and needs_control: "\<not> carries (h_control (p_header p)) \<Longrightarrow> from_packet p = None"
    and carried: "\<exists>c. carries c"
begin

lemma to_bytes_inject: "to_bytes x = to_bytes y \<longleftrightarrow> x = y"
proof
  assume eq: "to_bytes x = to_bytes y"
  obtain c where "carries c" using carried ..
  then have "carries (h_control \<lparr>h_length = 0, h_control = c, h_seq = 0, h_ack = 0, h_session_id = 0\<rparr>)"
    by simp
  from decode_encoded [OF this, of x] decode_encoded [OF this, of y] show "x = y"
    unfolding eq by (simp only: option.inject)
qed simp

lemma from_packet_Some_D:
  "from_packet p = Some x \<Longrightarrow> carries (h_control (p_header p)) \<and> p_payload p \<noteq> None"
  using needs_payload [of p] needs_control [of p] by auto

end

lemma session_type_roundtrip [simp]: "session_type_of_u8 (session_type_to_u8 t) = Some t"
  by (cases t) simp_all

lemma session_type_of_u8_Some: "session_type_of_u8 v = Some t \<Longrightarrow> session_type_to_u8 t = v"
  by (auto split: if_splits)

lemma file_op_roundtrip [simp]: "file_op_of_u8 (file_op_to_u8 t) = Some t"
  by (cases t) simp_all

lemma file_op_of_u8_Some: "file_op_of_u8 v = Some t \<Longrightarrow> file_op_to_u8 t = v"
  unfolding file_op_of_u8.simps [of v] by (simp only: option.inject option.distinct split: if_split_asm)

declare session_type_of_u8.simps [simp del] file_op_of_u8.simps [simp del]

lemma lsp_parse_session_bytes [simp]: "lsp_parse_sessions (lsp_session_bytes ss) = Some ss"
  by (induction ss) simp_all

lemma length_lsp_session_bytes [simp]: "length (lsp_session_bytes ss) = 3 * length ss"
  by (induction ss) simp_all

lemma lsp_parse_sessions_bytes:
  "lsp_parse_sessions bs = Some ss \<Longrightarrow>
     lsp_session_bytes ss = take (3 * length ss) bs \<and> length bs < 3 * length ss + 3
     \<and> 3 * length ss \<le> length bs"
proof (induction bs arbitrary: ss rule: lsp_parse_sessions.induct)
  case (1 i ty v rest)
  then obtain t ts where ty: "session_type_of_u8 ty = Some t"
    and rest: "lsp_parse_sessions rest = Some ts"
    and ss: "ss = \<lparr>ls_id = i, ls_type = t, ls_version = v\<rparr> # ts"
    by (auto split: option.splits)
  have "lsp_session_bytes ts = take (3 * length ts) rest \<and> length rest < 3 * length ts + 3
     \<and> 3 * length ts \<le> length rest"
    by (rule "1.IH" [OF ty rest])
  then show ?case
    using session_type_of_u8_Some [OF ty] by (simp add: ss numeral_3_eq_3)
qed simp_all

lemma length_lsp_to_bytes [simp]: "length (lsp_to_bytes l) = 10 + 3 * length (sessions l)"
  by (simp add: lsp_to_bytes_def)

lemma lsp_from_to_bytes [simp]: "lsp_from_bytes (lsp_to_bytes l) = Some l"
  by (simp add: lsp_from_bytes_def lsp_to_bytes_def be16_bytes_def)

lemma lsp_to_from_bytes:
  assumes "lsp_from_bytes bs = Some l"
  shows "lsp_to_bytes l = take (10 + 3 * length (sessions l)) bs"
    and "length bs < 10 + 3 * length (sessions l) + 3"
    and "10 + 3 * length (sessions l) \<le> length bs"
proof -
  have len: "10 \<le> length bs" and ver: "bs ! 0 = LSP_VERSION"
    and parse: "lsp_parse_sessions (drop 10 bs) = Some (sessions l)"
    and l: "l = \<lparr>max_outgoing = bs ! 1, max_len = be16_of (bs ! 2) (bs ! 3),
      retransmission_timeout = be16_of (bs ! 4) (bs ! 5), ack_timeout = be16_of (bs ! 6) (bs ! 7),
      max_retransmissions = bs ! 8, max_ack = bs ! 9, sessions = sessions l\<rparr>"
    using assms by (auto simp: lsp_from_bytes_def split: if_splits option.splits)
  note ss = lsp_parse_sessions_bytes [OF parse]
  have head: "take 10 bs = map ((!) bs) [0, 1, 2, 3, 4, 5, 6, 7, 8, 9]"
    using len by (auto intro!: nth_equalityI simp: nth_Cons' eval_nat_numeral less_Suc_eq)
  have "lsp_to_bytes l = take 10 bs @ lsp_session_bytes (sessions l)"
    unfolding head by (subst l) (simp add: lsp_to_bytes_def ver)
  also have "\<dots> = take (10 + 3 * length (sessions l)) bs"
    unfolding take_add using ss by simp
  finally show "lsp_to_bytes l = take (10 + 3 * length (sessions l)) bs" .
  show "length bs < 10 + 3 * length (sessions l) + 3" "10 + 3 * length (sessions l) \<le> length bs"
    using ss len by auto
qed

interpretation lsp_codec: payload_decodable lsp_from_packet lsp_to_bytes
  "\<lambda>c. is_syn c \<or> is_syn_ack c"
  by unfold_locales (auto simp: lsp_from_packet_def control_simps split: option.splits)

interpretation eak_codec: payload_decodable eak_from_packet eak_to_bytes is_eak
  by unfold_locales (auto simp: eak_from_packet_def eak_to_bytes_def control_simps)

interpretation session_codec: payload_decodable session_from_packet session_to_bytes is_ack
  by unfold_locales (auto simp: session_from_packet_def session_to_bytes_def control_simps)

interpretation file_codec: payload_decodable file_from_packet file_to_bytes "\<lambda>_. True"
  by unfold_locales (auto simp: file_from_packet_def file_to_bytes_def)

lemma file_to_from_packet:
  assumes "file_from_packet p = Some f"
  shows "p_payload p = Some (file_to_bytes f)"
proof -
  obtain payload op where p: "p_payload p = Some payload" "\<not> length payload < 2"
    and op: "file_op_of_u8 (payload ! 1) = Some op"
    and f: "f = \<lparr>fp_file_id = payload ! 0, fp_op = op, fp_payload = drop 2 payload\<rparr>"
    using assms by (auto simp: file_from_packet_def split: option.splits if_splits)
  have "payload = payload ! 0 # payload ! 1 # drop 2 payload"
    using p by (cases payload rule: list.exhaust [case_product list.exhaust]; cases "tl payload") auto
  then show ?thesis
    using p file_op_of_u8_Some [OF op] by (simp add: file_to_bytes_def f)
qed

section \<open>Properties of the synchronisation payload\<close>

text \<open>
  a link synchronisation payload is read back from the bytes it is written as, and
  writing what was read gives the bytes read, up to the one or two bytes the parser ignores after
  the last complete session triple.
\<close>

lemma lsp_bytes_roundtrip:
  assumes "lsp_from_bytes bs = Some l"
  shows "lsp_from_bytes (lsp_to_bytes l) = Some l
    \<and> (\<exists>ignored. bs = lsp_to_bytes l @ ignored \<and> length ignored < 3)"
proof
  show "lsp_from_bytes (lsp_to_bytes l) = Some l" by simp
  have "bs = lsp_to_bytes l @ drop (10 + 3 * length (sessions l)) bs"
    using lsp_to_from_bytes(1) [OF assms] by simp
  moreover have "length (drop (10 + 3 * length (sessions l)) bs) < 3"
    using lsp_to_from_bytes(2,3) [OF assms] by simp
  ultimately show "\<exists>ignored. bs = lsp_to_bytes l @ ignored \<and> length ignored < 3" by blast
qed

lemma lsp_bytes_roundtrip_witness:
  "lsp_from_bytes (lsp_to_bytes \<lparr>max_outgoing = 5, max_len = 2048, retransmission_timeout = 1500,
      ack_timeout = 73, max_retransmissions = 30, max_ack = 3,
      sessions = [\<lparr>ls_id = 1, ls_type = Control, ls_version = 2\<rparr>]\<rparr>) \<noteq> None"
  using lsp_bytes_roundtrip [of
      "[1, 5, 8, 0, 5, 220, 0, 73, 30, 3, 1, 0, 2, 99]"
      "\<lparr>max_outgoing = 5, max_len = 2048, retransmission_timeout = 1500,
      ack_timeout = 73, max_retransmissions = 30, max_ack = 3,
      sessions = [\<lparr>ls_id = 1, ls_type = Control, ls_version = 2\<rparr>]\<rparr>"]
  by (simp add: lsp_from_bytes_def LSP_VERSION_def be16_of_def session_type_of_u8.simps)

definition lsp_in_range :: "lsp_payload \<Rightarrow> bool" where
  "lsp_in_range l \<longleftrightarrow>
     1 \<le> max_outgoing l \<and> max_outgoing l \<le> 127 \<and> 24 \<le> max_len l
     \<and> 20 \<le> retransmission_timeout l
     \<and> 10 \<le> ack_timeout l \<and> ack_timeout l \<le> retransmission_timeout l div 2
     \<and> 1 \<le> max_retransmissions l \<and> max_retransmissions l \<le> 30
     \<and> max_ack l \<le> max_outgoing l"

lemma ord_clamp_ok: "lo \<le> hi \<Longrightarrow> \<exists>y. ord_clamp lo hi x = Inr y \<and> lo \<le> y \<and> y \<le> hi"
  by (auto simp: ord_clamp_def)

lemma ord_clamp_id: "lo \<le> x \<Longrightarrow> x \<le> hi \<Longrightarrow> ord_clamp lo hi x = Inr x"
  by (auto simp: ord_clamp_def)

lemma half_timeout: "20 \<le> (t :: u16) \<Longrightarrow> 10 \<le> t div 2"
proof -
  assume "20 \<le> t"
  then have "20 \<le> unat t" by (simp add: word_le_nat_alt)
  then have "10 \<le> unat t div 2" by simp
  then show ?thesis by (simp add: word_le_nat_alt unat_div)
qed

lemma lsp_clamp_in_range: "lsp_in_range l \<Longrightarrow> lsp_clamp l = Inr l"
  by (simp add: lsp_clamp_def lsp_in_range_def ord_clamp_id)

lemma lsp_clamp_ok: "\<exists>l'. lsp_clamp l = Inr l' \<and> lsp_in_range l' \<and> sessions l' = sessions l"
proof -
  obtain mo where mo: "ord_clamp 1 127 (max_outgoing l) = Inr mo" "1 \<le> mo" "mo \<le> 127"
    using ord_clamp_ok [of 1 127 "max_outgoing l"] by (auto simp: word_le_nat_alt)
  obtain ml where ml: "ord_clamp 24 (- 1) (max_len l) = Inr ml" "24 \<le> ml"
    using ord_clamp_ok [of 24 "- 1" "max_len l"] by auto
  obtain rt where rt: "ord_clamp 20 (- 1) (retransmission_timeout l) = Inr rt" "20 \<le> rt"
    using ord_clamp_ok [of 20 "- 1" "retransmission_timeout l"] by auto
  obtain at where at: "ord_clamp 10 (rt div 2) (ack_timeout l) = Inr at" "10 \<le> at" "at \<le> rt div 2"
    using ord_clamp_ok [OF half_timeout [OF rt(2)], of "ack_timeout l"] by auto
  obtain mr where mr: "ord_clamp 1 30 (max_retransmissions l) = Inr mr" "1 \<le> mr" "mr \<le> 30"
    using ord_clamp_ok [of 1 30 "max_retransmissions l"] by (auto simp: word_le_nat_alt)
  obtain ma where ma: "ord_clamp 0 (min mo 127) (max_ack l) = Inr ma" "ma \<le> min mo 127"
    using ord_clamp_ok [of 0 "min mo 127" "max_ack l"] by auto
  show ?thesis
    unfolding lsp_clamp_def lsp_in_range_def
    using mo ml rt at mr ma by simp
qed

text \<open>
  \<open>clamp\<close> never panics (the lower bound of the acknowledgement timeout stays below half
  the clamped retransmission timeout), brings every parameter into its documented range, keeps
  the sessions, and leaves a payload already in range alone.
\<close>

lemma lsp_clamp_total:
  "\<exists>l'. lsp_clamp l = Inr l' \<and> lsp_in_range l' \<and> sessions l' = sessions l \<and> lsp_clamp l' = Inr l'"
  using lsp_clamp_ok [of l] lsp_clamp_in_range by blast

lemma new_syn_wf: "new_syn s l = Inr q \<Longrightarrow> packet_wf q"
  unfolding new_syn_def by (erule fix_length_wf) simp

lemma new_syn_ack_wf: "new_syn_ack s a l = Inr q \<Longrightarrow> packet_wf q"
  unfolding new_syn_ack_def by (erule fix_length_wf) simp

end
