(* ===== verification/Packet_Coder.thy ===== *)
theory Packet_Coder
  imports Link_Packet "HOL-Library.Sublist"
begin

text \<open>
  \<open>core/catplay_iap2_link/src/packet_coder.rs\<close>: finding frames in a byte stream, decoding iAP2
  packets, detection frames and iAP1 frames, and encoding them. A buffer (\<open>BytesMut\<close>) is the
  list of its unread bytes; \<open>advance\<close> and \<open>split_to\<close> drop from its front.
\<close>

section \<open>Definitions\<close>

definition IAP2_HANDSHAKE :: "u8 list" where
  "IAP2_HANDSHAKE = [0xFF, 0x55, 0x02, 0x00, 0xEE, 0x10]"

record packet_coder =
  streaming_mode :: bool

datatype frame_start = Start_Legacy | Start_Iap2

definition coder_new :: "bool \<Rightarrow> packet_coder" where
  "coder_new throw_on_incomplete_packets = \<lparr>streaming_mode = \<not> throw_on_incomplete_packets\<rparr>"

text \<open>The first window of two bytes that starts a frame.\<close>

fun find_marker :: "u8 list \<Rightarrow> usize option" where
  "find_marker (a # b # rest) =
     (if (a = 0xFF \<and> b = 0x5A) \<or> a = 0x55 then Some 0
      else map_option Suc (find_marker (b # rest)))"
| "find_marker _ = None"

definition keep_last :: "u8 list \<Rightarrow> bool" where
  "keep_last src \<longleftrightarrow> src \<noteq> [] \<and> (last src = 0xFF \<or> last src = 0x55)"

definition coder_rewind :: "u8 list \<Rightarrow> frame_start option \<times> u8 list" where
  "coder_rewind src =
     (case find_marker src of
        None \<Rightarrow> (None, drop (length src - (if keep_last src then 1 else 0)) src)
      | Some start \<Rightarrow>
          let src' = drop start src in
          (if src' ! 0 = 0xFF then (Some Start_Iap2, src') else (Some Start_Legacy, src')))"

type_synonym decode_result = "(packet_coder_error + packet_or_detect option) \<times> u8 list"

definition decode_legacy :: "u8 list \<Rightarrow> decode_result" where
  "decode_legacy src =
     (case frame_decode src of
        Inl e \<Rightarrow> (Inl (Legacy_Error e), src)
      | Inr None \<Rightarrow> (Inr None, src)
      | Inr (Some (frame, frame_len)) \<Rightarrow>
          let consumed = frame_len + 1 in
          if length src < consumed then (Inr None, src)
          else if \<not> iap2_check_checksum_fast (drop 1 (take consumed src)) then
            (Inl LegacyChecksumInvalid, src)
          else if body frame = [0x00, 0xEE] then (Inr (Some Detect), drop consumed src)
          else (Inr (Some (Legacy (body frame))), drop consumed src))"

text \<open>What \<open>decode\<close> does once a link packet has been found at the front of the buffer.\<close>

definition decode_payload :: "header \<Rightarrow> u8 list \<Rightarrow> packet_coder_error + packet_or_detect option" where
  "decode_payload header full_payload =
     (if full_payload = [] then
        Inr (Some (Packet \<lparr>p_header = header, p_payload = None\<rparr>))
      else if length full_payload = 1 \<and> full_payload ! 0 = 0 then
        Inr (Some (Packet \<lparr>p_header = header, p_payload = Some []\<rparr>))
      else
        let real_payload = take (length full_payload - 1) full_payload in
        if \<not> iap2_check_checksum_fast full_payload then
          Inl (PayloadChecksumInvalid (iap2_gen_checksum_fast real_payload)
                 (full_payload ! (length full_payload - 1)))
        else Inr (Some (Packet \<lparr>p_header = header, p_payload = Some real_payload\<rparr>)))"

definition decode_iap2 :: "packet_coder \<Rightarrow> u8 list \<Rightarrow> decode_result" where
  "decode_iap2 coder src =
     (let readable = length src in
      if readable < IAP2_HEADER_SIZE then
        (if \<not> streaming_mode coder then (Inl (HeaderNotEnoughBytes readable), src)
         else (Inr None, src))
      else
        (case header_parse src of
           Inl e \<Rightarrow> (Inl e, src)
         | Inr header \<Rightarrow>
             let readable = readable - IAP2_HEADER_SIZE in
             if h_length header < of_nat IAP2_HEADER_SIZE then
               (Inl (InvalidLength (unat (h_length header))), src)
             else
               let payload_size = unat (h_length header) - IAP2_HEADER_SIZE in
               if readable < payload_size then
                 (if \<not> streaming_mode coder then
                    (Inl (PayloadTooShort readable (unat (h_length header))), src)
                  else (Inr None, src))
               else
                 let data = take (unat (h_length header)) src in
                 (decode_payload header (drop IAP2_HEADER_SIZE data),
                  drop (unat (h_length header)) src)))"

definition coder_decode :: "packet_coder \<Rightarrow> u8 list \<Rightarrow> decode_result" where
  "coder_decode coder src =
     (case coder_rewind src of
        (Some Start_Legacy, src) \<Rightarrow> decode_legacy src
      | (Some Start_Iap2, src) \<Rightarrow> decode_iap2 coder src
      | (None, src) \<Rightarrow> (Inr None, src))"

text \<open>\<open>encode\<close> appends to \<open>dst\<close>; the result comes with the buffer it leaves.\<close>

definition coder_encode ::
  "packet_or_detect \<Rightarrow> u8 list \<Rightarrow> (packet_coder_error + unit) \<times> u8 list" where
  "coder_encode item dst =
     (case item of
        Legacy b \<Rightarrow>
          (case frame_encode b of
             Inl e \<Rightarrow> (Inl (Legacy_Error e), dst)
           | Inr encoded \<Rightarrow>
               (Inr (), dst @ encoded @ [iap2_gen_checksum_fast (drop 1 encoded)]))
      | Packet p \<Rightarrow>
          (Inr (), dst @ header_to_bytes (p_header p) @
             (case p_payload p of
                None \<Rightarrow> []
              | Some payload \<Rightarrow> payload @ [iap2_gen_checksum_fast payload]))
      | Detect \<Rightarrow> (Inr (), dst @ IAP2_HANDSHAKE))"

section \<open>Finding frames\<close>

text \<open>
  Noise: bytes in which no frame starts, whatever follows them (a final \<open>0xFF\<close> may still
  become the first half of a marker).
\<close>

fun quiet :: "u8 list \<Rightarrow> bool" where
  "quiet [] \<longleftrightarrow> True"
| "quiet (a # xs) \<longleftrightarrow> a \<noteq> 0x55 \<and> \<not> (a = 0xFF \<and> xs \<noteq> [] \<and> hd xs = 0x5A) \<and> quiet xs"

lemma find_marker_Cons:
  "ys \<noteq> [] \<Longrightarrow> find_marker (a # ys) =
     (if (a = 0xFF \<and> hd ys = 0x5A) \<or> a = 0x55 then Some 0 else map_option Suc (find_marker ys))"
  by (cases ys) simp_all

lemma find_marker_bound: "find_marker src = Some n \<Longrightarrow> n + 1 < length src"
proof (induction src arbitrary: n rule: find_marker.induct)
  case (1 a b rest)
  then show ?case by (auto split: if_splits)
qed simp_all

lemma find_marker_at:
  "find_marker src = Some n \<Longrightarrow> src ! n = 0x55 \<or> (src ! n = 0xFF \<and> src ! Suc n = 0x5A)"
proof (induction src arbitrary: n rule: find_marker.induct)
  case (1 a b rest)
  then show ?case by (auto split: if_splits)
qed simp_all

lemma find_marker_append: "find_marker src = Some n \<Longrightarrow> find_marker (src @ ys) = Some n"
proof (induction src arbitrary: n rule: find_marker.induct)
  case (1 a b rest)
  then show ?case by (auto split: if_splits)
qed simp_all

lemma find_marker_quiet:
  assumes "quiet pre" and "w \<noteq> []" and "hd w \<noteq> 0x5A"
  shows "find_marker (pre @ w) = map_option ((+) (length pre)) (find_marker w)"
  using assms(1)
proof (induction pre)
  case Nil
  show ?case by (simp add: option.map_id0 [unfolded id_def])
next
  case (Cons a pre)
  have "hd (pre @ w) = 0x5A \<Longrightarrow> pre \<noteq> [] \<and> hd pre = 0x5A"
    using assms(3) by (cases pre) auto
  then have "find_marker (a # pre @ w) = map_option Suc (find_marker (pre @ w))"
    using Cons.prems assms(2) by (subst find_marker_Cons) auto
  then show ?case
    using Cons by (simp add: option.map_comp comp_def)
qed

text \<open>What \<open>rewind\<close> drops while it finds nothing is irrelevant for what comes later.\<close>

lemma find_marker_None_rest:
  assumes "find_marker src = None"
  shows "find_marker (src @ ys) =
     map_option ((+) (length src - (if keep_last src then 1 else 0)))
       (find_marker (drop (length src - (if keep_last src then 1 else 0)) src @ ys))"
  using assms
proof (induction src rule: find_marker.induct [case_names pair empty single])
  case (pair a b rest)
  then have no: "\<not> ((a = 0xFF \<and> b = 0x5A) \<or> a = 0x55)" and IH: "find_marker (b # rest) = None"
    by (auto split: if_splits)
  have keep: "keep_last (a # b # rest) = keep_last (b # rest)" by (simp add: keep_last_def)
  let ?k = "if keep_last (b # rest) then 1 else 0 :: nat"
  have drop: "drop (length (a # b # rest) - ?k) (a # b # rest) = drop (length (b # rest) - ?k) (b # rest)"
    by (simp add: Suc_diff_le)
  have len: "length (a # b # rest) - ?k = Suc (length (b # rest) - ?k)"
    by (simp add: Suc_diff_le)
  have "find_marker ((a # b # rest) @ ys) = map_option Suc (find_marker ((b # rest) @ ys))"
    using no by auto
  then show ?case
    unfolding keep drop len pair.IH [OF no IH] by (simp add: option.map_comp comp_def)
next
  case empty
  show ?case
    by (simp add: option.map_id0 [unfolded id_def])
next
  case (single v)
  show ?case
  proof (cases "keep_last [v]")
    case True
    then show ?thesis by (simp add: option.map_id0 [unfolded id_def])
  next
    case False
    then show ?thesis
      by (cases ys) (simp_all add: keep_last_def)
  qed
qed

lemma rewind_None:
  "coder_rewind src = (None, buf) \<Longrightarrow>
     find_marker src = None \<and> buf = drop (length src - (if keep_last src then 1 else 0)) src"
  by (auto simp: coder_rewind_def Let_def split: option.splits if_splits)

lemma rewind_Some:
  assumes "coder_rewind src = (Some s, buf)"
  obtains n where "find_marker src = Some n" "buf = drop n src" "n + 1 < length src"
    "s = Start_Iap2 \<and> buf ! 0 = 0xFF \<and> buf ! 1 = 0x5A \<or> s = Start_Legacy \<and> buf ! 0 = 0x55"
proof -
  obtain n where n: "find_marker src = Some n" and buf: "buf = drop n src"
    and s: "s = (if buf ! 0 = 0xFF then Start_Iap2 else Start_Legacy)"
    using assms by (auto simp: coder_rewind_def Let_def split: option.splits if_splits)
  have len: "n + 1 < length src" by (rule find_marker_bound [OF n])
  have "buf ! 0 = src ! n" "buf ! 1 = src ! Suc n" using len by (simp_all add: buf)
  then show thesis
    using that [OF n buf len] find_marker_at [OF n] s by auto
qed

lemma rewind_append_Some:
  "coder_rewind src = (Some s, buf) \<Longrightarrow> coder_rewind (src @ ys) = (Some s, buf @ ys)"
proof -
  assume r: "coder_rewind src = (Some s, buf)"
  then obtain n where n: "find_marker src = Some n" "buf = drop n src" "n + 1 < length src"
    by (rule rewind_Some)
  have "coder_rewind (src @ ys) = (if buf ! 0 = 0xFF then (Some Start_Iap2, buf @ ys)
      else (Some Start_Legacy, buf @ ys))"
    using find_marker_append [OF n(1), of ys] n(2,3)
    by (simp add: coder_rewind_def nth_append)
  moreover have "s = (if buf ! 0 = 0xFF then Start_Iap2 else Start_Legacy)"
    using r n(1,2) by (auto simp: coder_rewind_def Let_def split: if_splits)
  ultimately show ?thesis by simp
qed

lemma add_diff_if:
  "(P \<Longrightarrow> 0 < m) \<Longrightarrow> k + m - (if P then 1 else 0) = k + (m - (if P then 1 else 0))" for k m :: nat
  by auto

lemma rewind_append_None:
  assumes "coder_rewind src = (None, buf)"
  shows "coder_rewind (buf @ ys) = coder_rewind (src @ ys)"
proof -
  let ?k = "length src - (if keep_last src then 1 else 0)"
  have fm: "find_marker src = None" and buf: "buf = drop ?k src"
    using rewind_None [OF assms] by auto
  have eq: "find_marker (src @ ys) = map_option ((+) ?k) (find_marker (buf @ ys))"
    unfolding buf by (rule find_marker_None_rest [OF fm])
  have "drop ?k (src @ ys) = buf @ ys" by (simp add: buf)
  then have drp: "drop (?k + n) (src @ ys) = drop n (buf @ ys)" for n
    by (metis drop_drop add.commute)
  show ?thesis
  proof (cases "find_marker (buf @ ys)")
    case (Some n)
    then show ?thesis
      using eq drp [of n] by (simp add: coder_rewind_def)
  next
    case None
    have "src \<noteq> [] \<Longrightarrow> \<not> length src \<le> length src - Suc 0"
      by (cases src) simp_all
    then have keep: "keep_last (src @ ys) = keep_last (buf @ ys)"
      by (cases "ys = []") (auto simp: keep_last_def buf)
    have len: "length (src @ ys) = ?k + length (buf @ ys)"
      by (auto simp: buf keep_last_def Suc_le_eq)
    have "keep_last (buf @ ys) \<Longrightarrow> 0 < length (buf @ ys)"
      by (simp only: keep_last_def length_greater_0_conv simp_thms)
    then have "?k + length (buf @ ys) - (if keep_last (buf @ ys) then 1 else 0) =
        ?k + (length (buf @ ys) - (if keep_last (buf @ ys) then 1 else 0))"
      by (rule add_diff_if)
    then have "drop (length (src @ ys) - (if keep_last (src @ ys) then 1 else 0)) (src @ ys) =
        drop (length (buf @ ys) - (if keep_last (buf @ ys) then 1 else 0)) (buf @ ys)"
      by (simp only: len keep drp)
    moreover have "find_marker (src @ ys) = None"
      using None eq by simp
    ultimately show ?thesis
      using None by (simp only: coder_rewind_def option.case)
  qed
qed

section \<open>Resumable decoding\<close>

text \<open>
  The three parts of a decoder (frame at the front, link packet at the front, whole buffer)
  share the same contract: a definite answer (a packet or an error) does not depend on what
  follows, and an undecided one leaves a buffer from which decoding goes on as if it had never
  been interrupted.
\<close>

lemma frame_lengths_append: "frame_lengths src = Some l \<Longrightarrow> frame_lengths (src @ ys) = Some l"
  by (auto simp: frame_lengths_def slice_get_def nth_append split: option.splits if_splits)

lemma frame_decode_append:
  assumes "frame_decode src = r" and "r \<noteq> Inr None"
  shows "frame_decode (src @ ys) = r"
proof (cases "frame_lengths src")
  case None
  then show ?thesis
    using assms by (auto simp: frame_decode_def slice_get_def nth_append split: if_splits)
next
  case (Some l)
  obtain hl bl ext where l: "l = (hl, bl, ext)" by (cases l)
  have hl: "1 \<le> hl" using Some unfolding l by (cases rule: frame_lengths_Some) simp_all
  have src: "src \<noteq> []" using Some by (auto simp: frame_lengths_def slice_get_def)
  show ?thesis
    using assms frame_lengths_append [OF Some, of ys] Some hl src
    by (auto simp: l frame_decode_def slice_get_def nth_append Let_def split: if_splits)
qed

lemma decode_legacy_append:
  assumes "decode_legacy src = (r, buf)" and "r \<noteq> Inr None"
  shows "decode_legacy (src @ ys) = (r, buf @ ys)"
proof (cases "frame_decode src")
  case (Inl e)
  then show ?thesis
    using assms frame_decode_append [OF Inl, of ys] by (auto simp: decode_legacy_def)
next
  case (Inr d)
  then obtain f n where d: "d = Some (f, n)"
    using assms by (cases d) (auto simp: decode_legacy_def)
  have "frame_decode (src @ ys) = Inr (Some (f, n))"
    using frame_decode_append [OF Inr, of ys] d by simp
  then show ?thesis
    using assms Inr d by (auto simp: decode_legacy_def Let_def split: if_splits)
qed

lemma decode_legacy_None: "decode_legacy src = (Inr None, buf) \<Longrightarrow> buf = src"
  by (auto simp: decode_legacy_def Let_def split: sum.splits option.splits if_splits)

lemma decode_payload_not_None: "decode_payload h p \<noteq> Inr None"
  by (simp add: decode_payload_def Let_def)

lemma decode_iap2_append:
  assumes "decode_iap2 c src = (r, buf)" and "r \<noteq> Inr None" and "streaming_mode c"
  shows "decode_iap2 c (src @ ys) = (r, buf @ ys)"
proof -
  have len: "9 \<le> length src"
    by (rule ccontr) (use assms in \<open>simp add: decode_iap2_def IAP2_HEADER_SIZE_def\<close>)
  show ?thesis
  proof (cases "header_parse src")
    case (Inl e)
    then show ?thesis
      using assms len header_parse_append [OF len, of ys]
      by (auto simp: decode_iap2_def IAP2_HEADER_SIZE_def)
  next
    case (Inr h)
    then show ?thesis
      using assms len header_parse_append [OF len, of ys]
      by (auto simp: decode_iap2_def IAP2_HEADER_SIZE_def Let_def split: if_splits)
  qed
qed

lemma decode_iap2_None:
  "decode_iap2 c src = (Inr None, buf) \<Longrightarrow> buf = src"
  by (auto simp: decode_iap2_def Let_def decode_payload_not_None split: sum.splits if_splits)

lemma coder_decode_definite:
  assumes "coder_decode c src = (r, buf)" and "r \<noteq> Inr None" and "streaming_mode c"
  shows "coder_decode c (src @ ys) = (r, buf @ ys)"
proof -
  obtain s b where rw: "coder_rewind src = (Some s, b)"
    using assms(1,2) by (cases "coder_rewind src") (auto simp: coder_decode_def split: option.splits)
  have "coder_rewind (src @ ys) = (Some s, b @ ys)" by (rule rewind_append_Some [OF rw])
  then show ?thesis
    using assms rw decode_legacy_append [of b r buf ys] decode_iap2_append [of c b r buf ys]
    by (cases s) (simp_all add: coder_decode_def)
qed

lemma rewind_idem:
  assumes "coder_rewind src = (Some s, b)"
  shows "coder_rewind b = (Some s, b)"
  using assms
proof (rule rewind_Some)
  fix n
  assume n: "find_marker src = Some n" "b = drop n src" "n + 1 < length src"
    and s: "s = Start_Iap2 \<and> b ! 0 = 0xFF \<and> b ! 1 = 0x5A \<or> s = Start_Legacy \<and> b ! 0 = 0x55"
  have "Suc (Suc 0) \<le> length b" using n(2,3) by simp
  then obtain x y r where "b = x # y # r"
    by (auto simp: Suc_le_length_iff)
  with s show ?thesis by (auto simp: coder_rewind_def)
qed

lemma rewind_append_Some_again:
  "coder_rewind src = (Some s, b) \<Longrightarrow> coder_rewind (b @ ys) = coder_rewind (src @ ys)"
  using rewind_idem [THEN rewind_append_Some] rewind_append_Some by simp

lemma coder_decode_undecided:
  assumes "coder_decode c src = (Inr None, buf)"
  shows "coder_decode c (buf @ ys) = coder_decode c (src @ ys)"
proof -
  obtain s b where rw: "coder_rewind src = (s, b)" by force
  have "buf = b"
    using assms rw
    by (auto simp: coder_decode_def split: option.splits frame_start.splits
        dest: decode_legacy_None decode_iap2_None)
  then have "coder_rewind (buf @ ys) = coder_rewind (src @ ys)"
    using rw rewind_append_Some_again rewind_append_None by (cases s) simp_all
  then show ?thesis by (simp add: coder_decode_def)
qed

section \<open>Progress\<close>

text \<open>Every call leaves a suffix of its buffer; a decoded item has taken at least a byte of it.\<close>

lemma rewind_suffix: "coder_rewind src = (s, b) \<Longrightarrow> suffix b src"
  by (auto simp: coder_rewind_def Let_def suffix_drop split: option.splits if_splits)

lemma decode_legacy_suffix: "decode_legacy src = (r, b) \<Longrightarrow> suffix b src"
  by (auto simp: decode_legacy_def Let_def suffix_drop split: sum.splits option.splits if_splits)

lemma decode_legacy_shorter: "decode_legacy src = (Inr (Some i), b) \<Longrightarrow> length b < length src"
  by (auto simp: decode_legacy_def Let_def split: sum.splits option.splits if_splits)

lemma decode_iap2_suffix: "decode_iap2 c src = (r, b) \<Longrightarrow> suffix b src"
  by (auto simp: decode_iap2_def Let_def suffix_drop split: sum.splits if_splits)

lemma decode_iap2_shorter:
  assumes "decode_iap2 c src = (Inr (Some i), b)"
  shows "length b < length src"
proof -
  have nine: "(9 :: u16) \<le> l \<Longrightarrow> 9 \<le> unat l" for l
    by (simp add: word_le_nat_alt)
  show ?thesis
    using assms
    by (auto simp: decode_iap2_def IAP2_HEADER_SIZE_def Let_def not_less dest: nine
        split: sum.splits if_splits)
qed

lemma coder_decode_suffix: "coder_decode c src = (r, b) \<Longrightarrow> suffix b src"
  by (auto simp: coder_decode_def split: prod.splits option.splits frame_start.splits
      dest!: rewind_suffix decode_legacy_suffix decode_iap2_suffix intro: suffix_order.trans)

lemma coder_decode_shorter:
  "coder_decode c src = (Inr (Some i), b) \<Longrightarrow> length b < length src"
  by (auto simp: coder_decode_def split: prod.splits option.splits frame_start.splits
      dest!: rewind_suffix decode_legacy_shorter decode_iap2_shorter suffix_length_le)

text \<open>
  The readers call \<open>decode\<close> until it has nothing more to return; this loop ends because every
  item shortens the buffer.
\<close>

function coder_drain ::
  "packet_coder \<Rightarrow> u8 list \<Rightarrow> packet_or_detect list \<times> packet_coder_error option \<times> u8 list" where
  "coder_drain c src =
     (case coder_decode c src of
        (Inl e, buf) \<Rightarrow> ([], Some e, buf)
      | (Inr None, buf) \<Rightarrow> ([], None, buf)
      | (Inr (Some i), buf) \<Rightarrow>
          (case coder_drain c buf of (items, e, rest) \<Rightarrow> (i # items, e, rest)))"
  by pat_completeness auto
termination
  by (relation "measure (\<lambda>(c, src). length src)")
     (auto dest: coder_decode_shorter [OF sym])

declare coder_drain.simps [simp del]

text \<open>Reading a stream that arrives in chunks; after an error nothing more is read.\<close>

fun coder_feed ::
  "packet_coder \<Rightarrow> u8 list \<Rightarrow> u8 list list \<Rightarrow>
     packet_or_detect list \<times> packet_coder_error option \<times> u8 list" where
  "coder_feed c buf [] = ([], None, buf)"
| "coder_feed c buf (ch # chs) =
     (case coder_drain c (buf @ ch) of
        (items, Some e, rest) \<Rightarrow> (items, Some e, rest @ concat chs)
      | (items, None, rest) \<Rightarrow>
          (case coder_feed c rest chs of (items', e, rest') \<Rightarrow> (items @ items', e, rest')))"

lemma coder_drain_append:
  assumes "streaming_mode c" and "coder_drain c xs = (items, e, rest)"
  shows "coder_drain c (xs @ ys) =
     (case e of
        Some e \<Rightarrow> (items, Some e, rest @ ys)
      | None \<Rightarrow> (case coder_drain c (rest @ ys) of (items', e', rest') \<Rightarrow> (items @ items', e', rest')))"
  using assms
proof (induction c xs arbitrary: items e rest rule: coder_drain.induct)
  case (1 c src)
  obtain r buf where d: "coder_decode c src = (r, buf)" by force
  consider (error) x where "r = Inl x" | (none) "r = Inr None" | (item) i where "r = Inr (Some i)"
    by (metis sum.exhaust option.exhaust)
  then show ?case
  proof cases
    case error
    then have "coder_decode c (src @ ys) = (r, buf @ ys)"
      using coder_decode_definite [OF d] "1.prems"(1) by simp
    then show ?thesis
      using error d "1.prems"(2)
      by (auto simp: coder_drain.simps [of c src] coder_drain.simps [of c "src @ ys"])
  next
    case none
    have "coder_decode c (buf @ ys) = coder_decode c (src @ ys)"
      using coder_decode_undecided d none by simp
    then have "coder_drain c (buf @ ys) = coder_drain c (src @ ys)"
      by (simp add: coder_drain.simps [of c "buf @ ys"] coder_drain.simps [of c "src @ ys"])
    moreover have "items = []" "e = None" "rest = buf"
      using none d "1.prems"(2) by (auto simp: coder_drain.simps [of c src])
    ultimately show ?thesis by (simp split: prod.split)
  next
    case item
    obtain its e' rest' where rec: "coder_drain c buf = (its, e', rest')" by (metis prod_cases3)
    have res: "items = i # its" "e = e'" "rest = rest'"
      using "1.prems"(2) d item rec by (auto simp: coder_drain.simps [of c src])
    have "coder_decode c (src @ ys) = (Inr (Some i), buf @ ys)"
      using coder_decode_definite [OF d] "1.prems"(1) item by simp
    moreover have "coder_drain c (buf @ ys) = (case e of
        Some e \<Rightarrow> (its, Some e, rest @ ys)
      | None \<Rightarrow> (case coder_drain c (rest @ ys) of (items', e', rest') \<Rightarrow> (its @ items', e', rest')))"
      using "1.IH" d item rec "1.prems"(1) res by auto
    ultimately show ?thesis
      by (simp add: coder_drain.simps [of c "src @ ys"] res split: option.split prod.split)
  qed
qed

lemma coder_drain_again:
  assumes "streaming_mode c" and "coder_drain c xs = (items, None, rest)"
  shows "coder_drain c rest = ([], None, rest)"
proof -
  have "coder_drain c (xs @ []) =
     (case coder_drain c (rest @ []) of (items', e', rest') \<Rightarrow> (items @ items', e', rest'))"
    using coder_drain_append [OF assms, of "[]"] by simp
  then show ?thesis using assms(2) by (auto split: prod.splits)
qed

lemma coder_feed_eq:
  assumes "streaming_mode c" and "coder_drain c buf = ([], None, buf)"
  shows "coder_feed c buf chs = coder_drain c (buf @ concat chs)"
  using assms(2)
proof (induction chs arbitrary: buf)
  case Nil
  then show ?case by simp
next
  case (Cons ch chs)
  obtain its e rest where d: "coder_drain c (buf @ ch) = (its, e, rest)" by (metis prod_cases3)
  have all: "coder_drain c ((buf @ ch) @ concat chs) =
     (case e of
        Some e \<Rightarrow> (its, Some e, rest @ concat chs)
      | None \<Rightarrow> (case coder_drain c (rest @ concat chs) of (items', e', rest') \<Rightarrow> (its @ items', e', rest')))"
    by (rule coder_drain_append [OF assms(1) d])
  show ?case
  proof (cases e)
    case None
    have "coder_feed c rest chs = coder_drain c (rest @ concat chs)"
      by (rule Cons.IH) (rule coder_drain_again [OF assms(1) d [unfolded None]])
    then show ?thesis using all d None by simp
  next
    case (Some x)
    then show ?thesis using all d by simp
  qed
qed

section \<open>Decoding what was encoded\<close>

text \<open>
  The items the encoder is meant for: packets as the constructors build them, and iAP1 bodies
  other than the one that is the detection frame.
\<close>

definition item_ok :: "packet_or_detect \<Rightarrow> bool" where
  "item_ok item =
     (case item of
        Detect \<Rightarrow> True
      | Packet p \<Rightarrow> packet_wf p
      | Legacy b \<Rightarrow> b \<noteq> [0x00, 0xEE])"

lemma rewind_quiet:
  assumes "quiet pre" and "coder_rewind w = (Some s, w)"
  shows "coder_rewind (pre @ w) = (Some s, w)"
proof -
  obtain n where n: "find_marker w = Some n" "w = drop n w" "n + 1 < length w"
    and s: "s = Start_Iap2 \<and> w ! 0 = 0xFF \<and> w ! 1 = 0x5A \<or> s = Start_Legacy \<and> w ! 0 = 0x55"
    using assms(2) by (rule rewind_Some)
  have "n = 0"
    using n(2,3) by (metis cancel_comm_monoid_add_class.diff_cancel diff_diff_cancel length_drop
        less_or_eq_imp_le add_lessD1)
  moreover have ne: "w \<noteq> []" using n(3) by auto
  moreover have "hd w \<noteq> 0x5A" using s by (auto simp: hd_conv_nth [OF ne])
  ultimately have "find_marker (pre @ w) = Some (length pre)"
    using find_marker_quiet [OF assms(1), of w] n(1) by simp
  then show ?thesis using s by (auto simp: coder_rewind_def)
qed

lemma decode_payload_encoded:
  "decode_payload h (case p of None \<Rightarrow> [] | Some v \<Rightarrow> v @ [iap2_gen_checksum_fast v]) =
     Inr (Some (Packet \<lparr>p_header = h, p_payload = p\<rparr>))"
proof (cases p)
  case None
  then show ?thesis by (simp add: decode_payload_def)
next
  case (Some v)
  have "iap2_check_checksum_fast (v @ [iap2_gen_checksum_fast v])"
    unfolding check_checksum_fast_eq gen_checksum_fast_eq check_checksum_append_byte ..
  then show ?thesis
    using Some by (simp add: decode_payload_def)
qed

lemma decode_packet:
  assumes "packet_wf p"
  shows "decode_iap2 c (header_to_bytes (p_header p) @
      (case p_payload p of None \<Rightarrow> [] | Some v \<Rightarrow> v @ [iap2_gen_checksum_fast v]) @ rest) =
    (Inr (Some (Packet p)), rest)"
proof -
  let ?h = "header_to_bytes (p_header p)"
  let ?v = "case p_payload p of None \<Rightarrow> [] | Some v \<Rightarrow> v @ [iap2_gen_checksum_fast v]"
  have parse: "header_parse (?h @ ?v @ rest) = Inr (p_header p)"
    using assms by (intro header_parse_to_bytes) (simp add: packet_wf_def)
  have size: "unat (h_length (p_header p)) = 9 + length ?v"
    using assms
    by (simp add: packet_wf_def packet_size_def PACKET_OVERHEAD_def PACKET_SIZE_WITHOUT_PAYLOAD_def
        split: option.splits)
  then have "\<not> h_length (p_header p) < 9"
    by (simp add: word_less_nat_alt)
  then show ?thesis
    using parse size decode_payload_encoded [of "p_header p" "p_payload p"]
    by (simp add: decode_iap2_def IAP2_HEADER_SIZE_def Let_def)
qed

lemma frame_encode_starts: "frame_encode b = Inr bs \<Longrightarrow> \<exists>x xs. bs = 0x55 # x # xs"
  by (erule frame_encode_shape) simp_all

lemma decode_legacy_frame:
  assumes "frame_encode b = Inr bs"
  shows "decode_legacy (bs @ iap2_gen_checksum_fast (drop 1 bs) # rest) =
    (Inr (Some (if b = [0x00, 0xEE] then Detect else Legacy b)), rest)"
proof -
  obtain x where bs: "bs = 0x55 # x" using frame_encode_starts [OF assms] by blast
  have "iap2_check_checksum_fast (x @ [iap2_gen_checksum_fast x])"
    unfolding check_checksum_fast_eq gen_checksum_fast_eq check_checksum_append_byte ..
  then show ?thesis
    using frame_decode_encode [OF assms, of "iap2_gen_checksum_fast (drop 1 bs) # rest"]
    by (simp add: decode_legacy_def bs)
qed

lemma handshake_frame:
  "frame_encode [0x00, 0xEE] = Inr [0x55, 2, 0, 0xEE]"
  "iap2_gen_checksum_fast [2, 0, 0xEE] = 0x10"
  by (simp_all add: frame_encode_def min_body_len_def gen_checksum_fast_eq iap2_gen_checksum_def)

lemma decode_encoded_item:
  assumes enc: "coder_encode item [] = (Inr (), w)" and ok: "item_ok item" and quiet: "quiet pre"
  shows "coder_decode c (pre @ w @ rest) = (Inr (Some item), rest)"
proof (cases item)
  case Detect
  have "quiet (pre @ [0xFF])"
    using quiet by (induction pre) (auto simp: hd_append split: if_splits)
  moreover have "coder_rewind ([0x55, 2, 0, 0xEE, 0x10] @ rest) =
      (Some Start_Legacy, [0x55, 2, 0, 0xEE, 0x10] @ rest)"
    by (simp add: coder_rewind_def)
  ultimately have "coder_rewind ((pre @ [0xFF]) @ [0x55, 2, 0, 0xEE, 0x10] @ rest) =
      (Some Start_Legacy, [0x55, 2, 0, 0xEE, 0x10] @ rest)"
    by (rule rewind_quiet)
  moreover have "w = [0xFF] @ [0x55, 2, 0, 0xEE, 0x10]"
    using enc by (simp add: Detect coder_encode_def IAP2_HANDSHAKE_def)
  ultimately show ?thesis
    using decode_legacy_frame [OF handshake_frame(1), of rest]
    by (simp add: Detect coder_decode_def handshake_frame(2))
next
  case (Packet p)
  let ?w = "header_to_bytes (p_header p) @
      (case p_payload p of None \<Rightarrow> [] | Some v \<Rightarrow> v @ [iap2_gen_checksum_fast v])"
  have w: "w = ?w" using enc by (simp add: Packet coder_encode_def)
  have "coder_rewind (?w @ rest) = (Some Start_Iap2, ?w @ rest)"
    by (simp add: header_to_bytes_expand coder_rewind_def)
  from rewind_quiet [OF quiet this] show ?thesis
    using decode_packet [of p c rest] ok by (simp add: w Packet item_ok_def coder_decode_def)
next
  case (Legacy b)
  then obtain bs where bs: "frame_encode b = Inr bs" and w: "w = bs @ [iap2_gen_checksum_fast (drop 1 bs)]"
    using enc by (auto simp: coder_encode_def split: sum.splits)
  obtain x xs where "bs = 0x55 # x # xs" using frame_encode_starts [OF bs] by blast
  then have "coder_rewind (w @ rest) = (Some Start_Legacy, w @ rest)"
    by (simp add: w coder_rewind_def)
  from rewind_quiet [OF quiet this] show ?thesis
    using decode_legacy_frame [OF bs, of rest] ok
    by (simp add: w Legacy item_ok_def coder_decode_def)
qed

text \<open>A stream: items, each after some noise.\<close>

fun wire_of :: "(u8 list \<times> packet_or_detect) list \<Rightarrow> u8 list" where
  "wire_of [] = []"
| "wire_of ((noise, item) # xs) = noise @ snd (coder_encode item []) @ wire_of xs"

definition stream_ok :: "(u8 list \<times> packet_or_detect) list \<Rightarrow> bool" where
  "stream_ok xs \<longleftrightarrow>
     (\<forall>(noise, item) \<in> set xs. quiet noise \<and> item_ok item \<and> fst (coder_encode item []) = Inr ())"

lemma quiet_find_marker: "quiet src \<Longrightarrow> find_marker src = None"
  by (induction src rule: find_marker.induct) simp_all

lemma quiet_no_55: "quiet src \<Longrightarrow> x \<in> set src \<Longrightarrow> x \<noteq> 0x55"
  by (induction src) auto

lemma drain_quiet:
  assumes "quiet tail"
  shows "coder_drain c tail = ([], None, if tail \<noteq> [] \<and> last tail = 0xFF then [0xFF] else [])"
proof -
  have "tail \<noteq> [] \<Longrightarrow> last tail \<noteq> 0x55" using quiet_no_55 [OF assms] last_in_set by blast
  moreover have "tail \<noteq> [] \<Longrightarrow> drop (length tail - Suc 0) tail = [last tail]"
    by (cases tail rule: rev_cases) simp_all
  ultimately have "coder_rewind tail = (None, if tail \<noteq> [] \<and> last tail = 0xFF then [0xFF] else [])"
    using quiet_find_marker [OF assms] by (auto simp: coder_rewind_def keep_last_def)
  then show ?thesis by (simp add: coder_drain.simps [of c tail] coder_decode_def)
qed

lemma drain_stream:
  assumes "stream_ok xs"
  shows "coder_drain c (wire_of xs @ tail) =
    (case coder_drain c tail of (items, e, rest) \<Rightarrow> (map snd xs @ items, e, rest))"
  using assms
proof (induction xs rule: wire_of.induct)
  case 1
  show ?case by (simp split: prod.split)
next
  case (2 noise item xs)
  have "coder_encode item [] = (Inr (), snd (coder_encode item []))"
    using "2.prems" by (simp add: stream_ok_def prod_eq_iff)
  then have "coder_decode c (noise @ snd (coder_encode item []) @ wire_of xs @ tail) =
      (Inr (Some item), wire_of xs @ tail)"
    using "2.prems" by (intro decode_encoded_item) (auto simp: stream_ok_def)
  moreover have "coder_drain c (wire_of xs @ tail) =
      (case coder_drain c tail of (items, e, rest) \<Rightarrow> (map snd xs @ items, e, rest))"
    using "2.IH" "2.prems" by (simp add: stream_ok_def)
  ultimately show ?case
    by (simp add: coder_drain.simps [of c "noise @ snd (coder_encode item []) @ wire_of xs @ tail"]
        split: prod.split)
qed

section \<open>What the decoder returns\<close>




definition consumes_packet :: "packet_coder_error \<Rightarrow> bool" where
  "consumes_packet e \<longleftrightarrow> (\<exists>expected actual. e = PayloadChecksumInvalid expected actual)"

lemma header_parse_Inl: "header_parse src = Inl e \<Longrightarrow> \<not> consumes_packet e"
  by (auto simp: header_parse_def consumes_packet_def split: if_splits)

lemma decode_payload_Inl: "decode_payload h v = Inl e \<Longrightarrow> consumes_packet e"
  by (auto simp: decode_payload_def Let_def consumes_packet_def split: if_splits)

lemma decode_iap2_error:
  assumes "decode_iap2 c src = (Inl e, buf)"
  shows "if consumes_packet e then length buf < length src else buf = src"
proof -
  have nine: "(9 :: u16) \<le> l \<Longrightarrow> 9 \<le> unat l" for l
    by (simp add: word_le_nat_alt)
  show ?thesis
    using assms
    by (auto simp: decode_iap2_def IAP2_HEADER_SIZE_def Let_def not_less
        dest: header_parse_Inl decode_payload_Inl nine split: sum.splits if_splits)
       (auto simp: consumes_packet_def)
qed

lemma decode_legacy_error: "decode_legacy src = (Inl e, buf) \<Longrightarrow> \<not> consumes_packet e \<and> buf = src"
  by (auto simp: decode_legacy_def Let_def consumes_packet_def
      split: sum.splits option.splits if_splits)

lemma coder_decode_error:
  assumes "coder_decode c src = (Inl e, buf)"
  shows "if consumes_packet e then length buf < length src else coder_decode c buf = (Inl e, buf)"
proof -
  obtain s b where rw: "coder_rewind src = (Some s, b)"
    using assms by (cases "coder_rewind src") (auto simp: coder_decode_def split: option.splits)
  have le: "length b \<le> length src" by (rule suffix_length_le) (rule rewind_suffix [OF rw])
  show ?thesis
  proof (cases s)
    case Start_Legacy
    then have d: "decode_legacy b = (Inl e, buf)" using assms rw by (simp add: coder_decode_def)
    from decode_legacy_error [OF d] d show ?thesis
      using rewind_idem [OF rw] Start_Legacy by (simp add: coder_decode_def)
  next
    case Start_Iap2
    then have d: "decode_iap2 c b = (Inl e, buf)" using assms rw by (simp add: coder_decode_def)
    from decode_iap2_error [OF d] d show ?thesis
      using rewind_idem [OF rw] Start_Iap2 le by (auto simp: coder_decode_def split: if_splits)
  qed
qed


section \<open>Properties\<close>






text \<open>
  On a streaming transport the decoder is resumable: however any byte stream, valid
  or not, is cut into chunks, feeding the chunks one by one returns the same items, the same
  error and the same unread bytes as reading the whole stream at once.
\<close>

lemma coder_chunking_irrelevant:
  assumes "streaming_mode c"
  shows "coder_feed c [] chs = coder_drain c (concat chs)"
proof -
  have "coder_drain c [] = ([], None, [])"
    using drain_quiet [of "[]" c] by simp
  from coder_feed_eq [OF assms this, of chs] show ?thesis by simp
qed

lemma coder_chunking_irrelevant_witness:
  "coder_feed (coder_new False) [] [[0xFF], [0x55, 2], [0, 0xEE, 0x10]] =
     coder_drain (coder_new False) [0xFF, 0x55, 2, 0, 0xEE, 0x10]"
  using coder_chunking_irrelevant [of "coder_new False" "[[0xFF], [0x55, 2], [0, 0xEE, 0x10]]"]
  by (simp add: coder_new_def)

text \<open>
  Claim C2: a stream of packets, detection frames and iAP1 frames with noise between and after
  them, cut into chunks at any places, is decoded into exactly those items in order, without an
  error; at most a final \<open>0xFF\<close>, which may start the next frame, stays in the buffer.
\<close>

theorem coder_stream_any_split:
  assumes "streaming_mode c" and "stream_ok xs" and "quiet tail"
    and "concat chs = wire_of xs @ tail"
  shows "coder_feed c [] chs =
    (map snd xs, None, if tail \<noteq> [] \<and> last tail = 0xFF then [0xFF] else [])"
proof -
  have "coder_drain c [] = ([], None, [])"
    using drain_quiet [of "[]" c] by simp
  from coder_feed_eq [OF assms(1) this, of chs] show ?thesis
    using drain_stream [OF assms(2), of c tail] drain_quiet [OF assms(3)] assms(4) by simp
qed

theorem coder_stream_any_split_witness:
  "coder_feed (coder_new False) [] [[0, 0, 0xFF, 0x55], [2, 0], [0xEE, 0x10, 0, 0xFF]] =
     ([Detect], None, [0xFF])"
  using coder_stream_any_split [of "coder_new False" "[([0, 0], Detect)]" "[0, 0xFF]"
      "[[0, 0, 0xFF, 0x55], [2, 0], [0xEE, 0x10, 0, 0xFF]]"]
  by (simp add: coder_new_def stream_ok_def item_ok_def coder_encode_def IAP2_HANDSHAKE_def)

text \<open>
  errors are reported deterministically: a payload with a wrong checksum is
  skipped together with its packet, so decoding can go on behind it; every other error leaves
  the offending frame at the front of the buffer, and the next call reports it again.
\<close>

lemma coder_errors_sticky_or_consumed:
  assumes "coder_decode c src = (Inl e, buf)"
  shows "(consumes_packet e \<longrightarrow> length buf < length src) \<and> suffix buf src
    \<and> (\<not> consumes_packet e \<longrightarrow> coder_decode c buf = (Inl e, buf))"
  using coder_decode_error [OF assms] coder_decode_suffix [OF assms] by simp

lemma coder_errors_sticky_or_consumed_witness:
  "coder_decode (coder_new False) [0, 0x55, 2, 0, 0xEE, 0x11] = (Inl LegacyChecksumInvalid, [0x55, 2, 0, 0xEE, 0x11])
    \<and> coder_decode (coder_new False) [0x55, 2, 0, 0xEE, 0x11] = (Inl LegacyChecksumInvalid, [0x55, 2, 0, 0xEE, 0x11])"
proof -
  have d: "coder_decode (coder_new False) [0, 0x55, 2, 0, 0xEE, 0x11] =
      (Inl LegacyChecksumInvalid, [0x55, 2, 0, 0xEE, 0x11])"
    by (simp add: coder_decode_def coder_rewind_def decode_legacy_def frame_decode_def
        frame_lengths_def slice_get_def min_body_len_def check_checksum_fast_eq
        iap2_check_checksum_def iap2_gen_checksum_def)
  have "\<not> consumes_packet LegacyChecksumInvalid" by (simp add: consumes_packet_def)
  with coder_errors_sticky_or_consumed [OF d] d show ?thesis by blast
qed

end
