(* ===== verification/Negotiation.thy ===== *)
theory Negotiation
  imports Link_Payload
begin

text \<open>
  \<open>core/catplay_iap2_link/src/negotiate.rs\<close>: the state of a link negotiation and the trait
  object that proposes parameters. The trait object is a record of its two methods; the counter
  (\<open>u32\<close>, incremented with an overflow check in debug builds only) is a word.
\<close>

section \<open>Definitions\<close>

record lsp_negotiator =
  neg_start :: lsp_payload
  neg_counter :: "lsp_payload \<Rightarrow> u32 \<Rightarrow> lsp_payload option"

definition simple_negotiator :: "lsp_payload \<Rightarrow> lsp_negotiator" where
  "simple_negotiator lsp = \<lparr>neg_start = lsp, neg_counter = (\<lambda>_ _. None)\<rparr>"

record negotiation_data =
  nd_counter :: u32
  nd_local_lsp :: lsp_payload
  nd_accepted_peer_lsp :: "lsp_payload option"
  nd_peer_accepted_lsp :: "lsp_payload option"

datatype negotiation =
    Neg_Start negotiation_data
  | Neg_Offering negotiation_data bool
  | Neg_Accepting negotiation_data bool
  | Neg_Accepted negotiation_data

datatype negotiation_tx = Tx_SynAck lsp_payload | Tx_FinalAck

definition negotiation_new :: "lsp_payload \<Rightarrow> negotiation" where
  "negotiation_new start_lsp = Neg_Start
     \<lparr>nd_counter = 0, nd_local_lsp = start_lsp, nd_accepted_peer_lsp = None,
      nd_peer_accepted_lsp = None\<rparr>"

fun neg_data :: "negotiation \<Rightarrow> negotiation_data" where
  "neg_data (Neg_Start d) = d"
| "neg_data (Neg_Offering d _) = d"
| "neg_data (Neg_Accepting d _) = d"
| "neg_data (Neg_Accepted d) = d"

text \<open>\<open>data_mut\<close>: apply a change to the data inside the current state.\<close>

fun neg_data_mut :: "(negotiation_data \<Rightarrow> negotiation_data) \<Rightarrow> negotiation \<Rightarrow> negotiation" where
  "neg_data_mut f (Neg_Start d) = Neg_Start (f d)"
| "neg_data_mut f (Neg_Offering d p) = Neg_Offering (f d) p"
| "neg_data_mut f (Neg_Accepting d p) = Neg_Accepting (f d) p"
| "neg_data_mut f (Neg_Accepted d) = Neg_Accepted (f d)"

definition neg_local_lsp :: "negotiation \<Rightarrow> lsp_payload" where
  "neg_local_lsp n = nd_local_lsp (neg_data n)"

definition neg_set_local_lsp :: "lsp_payload \<Rightarrow> negotiation \<Rightarrow> negotiation" where
  "neg_set_local_lsp lsp = neg_data_mut (\<lambda>d. d\<lparr>nd_local_lsp := lsp\<rparr>)"

definition neg_negotiation_counter :: "negotiation \<Rightarrow> u32" where
  "neg_negotiation_counter n = nd_counter (neg_data n)"

definition neg_increment_counter :: "negotiation \<Rightarrow> u32 \<times> negotiation" where
  "neg_increment_counter n =
     (let n' = neg_data_mut (\<lambda>d. d\<lparr>nd_counter := nd_counter d + 1\<rparr>) n
      in (nd_counter (neg_data n'), n'))"

definition note_lsp_accepted_by_us :: "lsp_payload \<Rightarrow> negotiation \<Rightarrow> negotiation" where
  "note_lsp_accepted_by_us lsp = neg_data_mut (\<lambda>d. d\<lparr>nd_accepted_peer_lsp := Some lsp\<rparr>)"

definition note_lsp_accepted_by_peer :: "lsp_payload \<Rightarrow> negotiation \<Rightarrow> negotiation" where
  "note_lsp_accepted_by_peer lsp = neg_data_mut (\<lambda>d. d\<lparr>nd_peer_accepted_lsp := Some lsp\<rparr>)"

definition neg_accepted_peer_lsp :: "negotiation \<Rightarrow> lsp_payload option" where
  "neg_accepted_peer_lsp n = nd_accepted_peer_lsp (neg_data n)"

definition neg_peer_accepted_lsp :: "negotiation \<Rightarrow> lsp_payload option" where
  "neg_peer_accepted_lsp n = nd_peer_accepted_lsp (neg_data n)"

definition transition_offering :: "negotiation \<Rightarrow> negotiation" where
  "transition_offering n = Neg_Offering (neg_data n) True"

definition transition_accepting :: "negotiation \<Rightarrow> negotiation" where
  "transition_accepting n = Neg_Accepting (neg_data n) True"

definition transition_start :: "negotiation \<Rightarrow> negotiation" where
  "transition_start n = Neg_Start (neg_data n)"

definition transition_accepted :: "negotiation \<Rightarrow> negotiation" where
  "transition_accepted n = Neg_Accepted (neg_data n)"

fun take_pending_tx :: "negotiation \<Rightarrow> negotiation_tx option \<times> negotiation" where
  "take_pending_tx (Neg_Offering d True) = (Some (Tx_SynAck (nd_local_lsp d)), Neg_Offering d False)"
| "take_pending_tx (Neg_Accepting d True) = (Some Tx_FinalAck, Neg_Accepting d False)"
| "take_pending_tx n = (None, n)"

section \<open>Lemmas\<close>

lemmas neg_transition_defs =
  transition_offering_def transition_accepting_def transition_start_def transition_accepted_def

lemma neg_data_transitions [simp]:
  "neg_data (transition_offering n) = neg_data n"
  "neg_data (transition_accepting n) = neg_data n"
  "neg_data (transition_start n) = neg_data n"
  "neg_data (transition_accepted n) = neg_data n"
  by (simp_all add: neg_transition_defs)

lemma neg_data_mut_data [simp]: "neg_data (neg_data_mut f n) = f (neg_data n)"
  by (cases n) simp_all

lemma take_pending_tx_data [simp]: "neg_data (snd (take_pending_tx n)) = neg_data n"
  by (cases n rule: take_pending_tx.cases) simp_all

text \<open>
  What a transition schedules is sent once: the pending transmission of an offer or an
  acceptance is taken exactly once, carries the parameters on offer, and taking it changes
  nothing else; states without one never transmit.
\<close>

lemma negotiation_pending_once:
  "take_pending_tx (transition_offering n) =
      (Some (Tx_SynAck (neg_local_lsp n)), Neg_Offering (neg_data n) False)
   \<and> take_pending_tx (transition_accepting n) = (Some Tx_FinalAck, Neg_Accepting (neg_data n) False)
   \<and> take_pending_tx (snd (take_pending_tx n)) = (None, snd (take_pending_tx n))
   \<and> neg_data (snd (take_pending_tx n)) = neg_data n
   \<and> fst (take_pending_tx (transition_start n)) = None
   \<and> fst (take_pending_tx (transition_accepted n)) = None"
  by (cases n rule: take_pending_tx.cases) (simp_all add: neg_transition_defs neg_local_lsp_def)

end
