(* ===== verification/File_Incoming.thy ===== *)
theory File_Incoming
  imports Link_Payload
begin

text \<open>
  \<open>core/catplay_iap2_link/src/files/events.rs\<close> and \<open>incoming.rs\<close>: the events of a file transfer
  and the receiving side. The receiver has one slot for each of 255 file identifiers.
\<close>

section \<open>Events\<close>

datatype file_transfer_event =
    Ev_Setup u64 u16 "u8 list"
  | Ev_Data "u8 list" bool
  | Ev_Start
  | Ev_Cancel
  | Ev_Pause
  | Ev_Success
  | Ev_Failure

definition event_of_payload :: "file_payload \<Rightarrow> file_transfer_event option" where
  "event_of_payload v =
     (let payload = fp_payload v in
      case fp_op v of
        Op_Start \<Rightarrow> Some Ev_Start
      | Op_Cancel \<Rightarrow> Some Ev_Cancel
      | Op_Pause \<Rightarrow> Some Ev_Pause
      | Op_Setup \<Rightarrow>
          if length payload < 10 then None
          else Some (Ev_Setup (be64_of (take 8 payload)) (be16_of (payload ! 8) (payload ! 9))
                       (drop 10 payload))
      | Op_Success \<Rightarrow> Some Ev_Success
      | Op_Failure \<Rightarrow> Some Ev_Failure
      | Op_FirstData \<Rightarrow> Some (Ev_Data payload False)
      | Op_Data \<Rightarrow> Some (Ev_Data payload False)
      | Op_FirstAndOnlyData \<Rightarrow> Some (Ev_Data payload True)
      | Op_LastData \<Rightarrow> Some (Ev_Data payload True))"

section \<open>Receiver\<close>

datatype incoming_state = In_Sending | In_Pause

record incoming_status =
  is_file_id :: u8
  is_total :: usize
  is_progress :: usize
  is_state :: incoming_state

record file_receiver =
  rx_server :: bool
  rx_incoming :: "incoming_status option list"

definition receiver_new :: "bool \<Rightarrow> file_receiver" where
  "receiver_new server = \<lparr>rx_server = server, rx_incoming = replicate 255 None\<rparr>"

text \<open>The identifiers the remote side may use: exclusive upper bounds, as in the code.\<close>

definition rx_valid_range :: "bool \<Rightarrow> u8 \<Rightarrow> bool" where
  "rx_valid_range server file_id \<longleftrightarrow>
     (if server then 0 \<le> file_id \<and> file_id < 127 else 128 \<le> file_id \<and> file_id < 255)"

text \<open>
  The \<open>match\<close> of \<open>feed\<close>: \<open>None\<close> for its early returns, otherwise the new slot, the answer to
  the remote side and the local notification.
\<close>

definition receiver_step ::
  "u8 \<Rightarrow> incoming_status option \<Rightarrow> file_transfer_event \<Rightarrow>
     (incoming_status option \<times> file_payload option \<times> file_transfer_event option) option" where
  "receiver_step file_id old_status ev =
     (case ev of
        Ev_Setup sz _ _ \<Rightarrow>
          if old_status \<noteq> None then None
          else Some
            (Some \<lparr>is_file_id = file_id, is_total = unat sz, is_progress = 0, is_state = In_Sending\<rparr>,
             Some \<lparr>fp_file_id = file_id, fp_op = Op_Start, fp_payload = []\<rparr>,
             Some ev)
      | Ev_Data data is_final_chunk \<Rightarrow>
          (case old_status of
             None \<Rightarrow> None
           | Some old \<Rightarrow>
               if is_final_chunk then Some
                 (None,
                  Some \<lparr>fp_file_id = file_id, fp_op = Op_Success, fp_payload = []\<rparr>,
                  Some (Ev_Data data is_final_chunk))
               else Some
                 (Some \<lparr>is_file_id = file_id, is_total = is_total old,
                        is_progress = is_progress old + length data, is_state = In_Sending\<rparr>,
                  None,
                  Some (Ev_Data data is_final_chunk)))
      | Ev_Start \<Rightarrow>
          (case old_status of
             None \<Rightarrow> None
           | Some old \<Rightarrow>
               if is_state old \<noteq> In_Pause then None
               else Some
                 (Some \<lparr>is_file_id = file_id, is_total = is_total old,
                        is_progress = is_progress old, is_state = In_Sending\<rparr>,
                  None, Some ev))
      | Ev_Pause \<Rightarrow>
          (case old_status of
             None \<Rightarrow> None
           | Some old \<Rightarrow>
               if is_state old \<noteq> In_Sending then None
               else Some
                 (Some \<lparr>is_file_id = file_id, is_total = is_total old,
                        is_progress = is_progress old, is_state = In_Pause\<rparr>,
                  None, Some ev))
      | Ev_Cancel \<Rightarrow> Some (None, None, Some ev)
      | _ \<Rightarrow> None)"

definition receiver_feed ::
  "file_receiver \<Rightarrow> file_payload \<Rightarrow>
     panic + (file_payload option \<times> file_transfer_event option) \<times> file_receiver" where
  "receiver_feed rx dg =
     (let file_id = fp_file_id dg in
      case event_of_payload dg of
        None \<Rightarrow> Inr ((None, None), rx)
      | Some ev \<Rightarrow>
          if \<not> rx_valid_range (rx_server rx) file_id then Inr ((None, None), rx)
          else
            (case slice_get (rx_incoming rx) (unat file_id) of
               None \<Rightarrow> Inl Unwrap_None
             | Some old_status \<Rightarrow>
                 (case receiver_step file_id old_status ev of
                    None \<Rightarrow> Inr ((None, None), rx)
                  | Some (new_status, notify_remote, notify_local) \<Rightarrow>
                      Inr ((notify_remote, notify_local),
                        rx\<lparr>rx_incoming := (rx_incoming rx)[unat file_id := new_status]\<rparr>))))"

section \<open>Lemmas\<close>

definition receiver_wf :: "file_receiver \<Rightarrow> bool" where
  "receiver_wf rx \<longleftrightarrow> length (rx_incoming rx) = 255"

lemma receiver_new_wf [simp]: "receiver_wf (receiver_new server)"
  by (simp add: receiver_wf_def receiver_new_def)

lemma rx_valid_range_lt:
  assumes "rx_valid_range server i"
  shows "unat i < 255"
proof -
  have "(127 :: u8) < 255" by simp
  then have "i < 255"
    using assms by (auto simp: rx_valid_range_def split: if_splits intro: order.strict_trans)
  then show ?thesis by (simp add: word_less_nat_alt)
qed

lemma receiver_feed_ok:
  assumes "receiver_wf rx"
  obtains r rx' where "receiver_feed rx dg = Inr (r, rx')" "receiver_wf rx'"
    "rx_server rx' = rx_server rx"
    "\<And>i. i \<noteq> unat (fp_file_id dg) \<Longrightarrow> rx_incoming rx' ! i = rx_incoming rx ! i"
proof -
  have "\<exists>r rx'. receiver_feed rx dg = Inr (r, rx') \<and> receiver_wf rx' \<and> rx_server rx' = rx_server rx
      \<and> (\<forall>i. i \<noteq> unat (fp_file_id dg) \<longrightarrow> rx_incoming rx' ! i = rx_incoming rx ! i)"
    using assms rx_valid_range_lt [of "rx_server rx" "fp_file_id dg"]
    by (auto simp: receiver_feed_def receiver_wf_def Let_def slice_get_def split: option.split)
  then show thesis using that by blast
qed

lemma receiver_feed_in_range:
  assumes "receiver_wf rx" and "rx_valid_range (rx_server rx) (fp_file_id dg)"
    and "event_of_payload dg = Some ev"
    and "receiver_step (fp_file_id dg) (rx_incoming rx ! unat (fp_file_id dg)) ev =
      Some (new_status, remote, local)"
  shows "receiver_feed rx dg = Inr ((remote, local),
     rx\<lparr>rx_incoming := (rx_incoming rx)[unat (fp_file_id dg) := new_status]\<rparr>)"
  using assms rx_valid_range_lt [OF assms(2)]
  by (simp add: receiver_feed_def receiver_wf_def slice_get_def)

text \<open>Setup payloads are read back as the events they announce.\<close>

lemma event_of_setup:
  "event_of_payload \<lparr>fp_file_id = i, fp_op = Op_Setup, fp_payload = be64_bytes sz @ be16_bytes ty @ data\<rparr>
     = Some (Ev_Setup sz ty data)"
  by (simp add: event_of_payload_def nth_append be16_bytes_def)

text \<open>
  The receiver never panics, whatever a peer sends: it ignores events it cannot read
  and identifiers outside the peer's range, and any datagram touches at most the slot of its
  own identifier.
\<close>

lemma receiver_robust:
  assumes "receiver_wf rx"
  shows "\<exists>r rx'. receiver_feed rx dg = Inr (r, rx') \<and> receiver_wf rx' \<and> rx_server rx' = rx_server rx
    \<and> (\<forall>i. i \<noteq> unat (fp_file_id dg) \<longrightarrow> rx_incoming rx' ! i = rx_incoming rx ! i)
    \<and> (\<not> rx_valid_range (rx_server rx) (fp_file_id dg) \<or> event_of_payload dg = None \<longrightarrow>
        r = (None, None) \<and> rx' = rx)"
  by (rule receiver_feed_ok [OF assms, of dg])
     (auto simp: receiver_feed_def Let_def split: option.splits)

lemma receiver_robust_witness:
  "\<exists>r rx'. receiver_feed (receiver_new True) \<lparr>fp_file_id = 255, fp_op = Op_Start, fp_payload = []\<rparr>
     = Inr (r, rx')"
  using receiver_robust [OF receiver_new_wf, of True "\<lparr>fp_file_id = 255, fp_op = Op_Start, fp_payload = []\<rparr>"]
  by blast

text \<open>
  What one identifier does at the receiver, as a protocol: data is accepted only between a setup
  and the final chunk or a cancel, so two transfers never mix on one identifier.
\<close>

fun receiver_run :: "file_receiver \<Rightarrow> file_payload list \<Rightarrow>
    panic + (file_payload list \<times> file_transfer_event list) \<times> file_receiver" where
  "receiver_run rx [] = Inr (([], []), rx)"
| "receiver_run rx (dg # dgs) =
     sum_bind (receiver_feed rx dg) (\<lambda>((remote, local), rx').
     sum_bind (receiver_run rx' dgs) (\<lambda>((remotes, locals), rx'').
       Inr ((case remote of None \<Rightarrow> remotes | Some p \<Rightarrow> p # remotes,
             case local of None \<Rightarrow> locals | Some e \<Rightarrow> e # locals), rx'')))"

lemma receiver_run_append:
  "receiver_run rx (xs @ ys) =
     sum_bind (receiver_run rx xs) (\<lambda>((r1, l1), rx1).
     sum_bind (receiver_run rx1 ys) (\<lambda>((r2, l2), rx2). Inr ((r1 @ r2, l1 @ l2), rx2)))"
proof (induction xs arbitrary: rx)
  case Nil
  show ?case by (cases "receiver_run rx ys") auto
next
  case (Cons dg dgs)
  show ?case
  proof (cases "receiver_feed rx dg")
    case (Inl e)
    then show ?thesis by simp
  next
    case (Inr f)
    obtain remote loc rx1 where f: "f = ((remote, loc), rx1)" by (metis prod.collapse)
    show ?thesis
    proof (cases "receiver_run rx1 dgs")
      case (Inl e)
      then show ?thesis using Inr f Cons.IH [of rx1] by simp
    next
      case (Inr g)
      obtain rs ls rx2 where g: "g = ((rs, ls), rx2)" by (metis prod.collapse)
      show ?thesis
        using \<open>receiver_feed rx dg = Inr f\<close> f Inr g Cons.IH [of rx1]
        by (cases "receiver_run rx2 ys") (auto split: option.splits)
    qed
  qed
qed

end
