(* ===== verification/File_Outgoing.thy ===== *)
theory File_Outgoing
  imports File_Incoming
begin

text \<open>
  \<open>core/catplay_iap2_link/src/files/outgoing.rs\<close>: one outgoing file and the transmitter, which
  has a reservation flag and a slot for each of 255 file identifiers.
\<close>

section \<open>One outgoing file\<close>

datatype outgoing_state =
    PendingSetup
  | Out_Sending
  | Out_Pause
  | WaitingForSuccess
  | Out_Success
  | Out_Failure
  | Out_Cancelled

datatype outgoing_source = VecData "u8 list"

fun get_chunk :: "outgoing_source \<Rightarrow> usize \<Rightarrow> usize \<Rightarrow> u8 list \<times> bool" where
  "get_chunk (VecData v) offset limit =
     (if length v \<le> offset then ([], True)
      else
        let rem = drop offset v; tk = min (length rem) limit
        in (take tk rem, length v \<le> offset + tk))"

fun source_size :: "outgoing_source \<Rightarrow> u64 option" where
  "source_size (VecData v) = Some (of_nat (length v))"

record file_outgoing =
  fo_file_size :: u64
  fo_file_type :: u16
  fo_setup_data :: "u8 list"
  fo_file_id :: u8
  fo_total :: usize
  fo_progress :: usize
  fo_source :: outgoing_source
  fo_state :: outgoing_state

definition out_poll_send :: "usize \<Rightarrow> file_outgoing \<Rightarrow> file_payload option \<times> file_outgoing" where
  "out_poll_send chunk_size f =
     (if fo_state f \<noteq> Out_Sending then (None, f)
      else
        let offset = fo_progress f;
            (slice, eof) = get_chunk (fo_source f) offset chunk_size;
            progress = fo_progress f + length slice;
            is_last = (eof \<or> (0 < fo_total f \<and> fo_total f \<le> progress));
            is_first = (offset = 0);
            op = (if is_first then (if is_last then Op_FirstAndOnlyData else Op_FirstData)
                  else (if is_last then Op_LastData else Op_Data))
        in (Some \<lparr>fp_file_id = fo_file_id f, fp_op = op, fp_payload = slice\<rparr>,
            f\<lparr>fo_progress := progress,
              fo_state := (if is_last then WaitingForSuccess else fo_state f)\<rparr>))"

definition out_feed_event :: "file_transfer_event \<Rightarrow> file_outgoing \<Rightarrow> file_outgoing" where
  "out_feed_event ev f =
     f\<lparr>fo_state :=
        (case ev of
           Ev_Start \<Rightarrow> if fo_state f = Out_Pause then Out_Sending else fo_state f
         | Ev_Pause \<Rightarrow> if fo_state f = Out_Sending then Out_Pause else fo_state f
         | Ev_Success \<Rightarrow> Out_Success
         | Ev_Failure \<Rightarrow> Out_Failure
         | Ev_Cancel \<Rightarrow> Out_Cancelled
         | _ \<Rightarrow> fo_state f)\<rparr>"

definition out_local_event :: "outgoing_state \<Rightarrow> outgoing_state \<Rightarrow> file_transfer_event option" where
  "out_local_event old_state new_state =
     (if old_state = new_state then None
      else
        (case new_state of
           Out_Success \<Rightarrow> Some Ev_Success
         | Out_Failure \<Rightarrow> Some Ev_Failure
         | Out_Cancelled \<Rightarrow> Some Ev_Cancel
         | _ \<Rightarrow> None))"

definition out_setup :: "file_outgoing \<Rightarrow> file_payload option \<times> file_outgoing" where
  "out_setup f =
     (if fo_state f \<noteq> PendingSetup then (None, f)
      else
        (Some \<lparr>fp_file_id = fo_file_id f, fp_op = Op_Setup,
           fp_payload = be64_bytes (fo_file_size f) @ be16_bytes (fo_file_type f) @ fo_setup_data f\<rparr>,
         f\<lparr>fo_state := Out_Pause\<rparr>))"

definition out_should_reclaim :: "file_outgoing \<Rightarrow> bool" where
  "out_should_reclaim f \<longleftrightarrow> fo_state f \<in> {Out_Cancelled, Out_Success, Out_Failure}"

definition out_cancel :: "file_outgoing \<Rightarrow> file_payload option \<times> file_outgoing" where
  "out_cancel f =
     (if fo_state f = Out_Cancelled \<or> fo_state f = Out_Success \<or> fo_state f = Out_Failure
      then (None, f)
      else
        (Some \<lparr>fp_file_id = fo_file_id f, fp_op = Op_Cancel, fp_payload = []\<rparr>,
         f\<lparr>fo_state := Out_Cancelled\<rparr>))"

section \<open>Transmitter\<close>

record file_transmitter =
  tx_server :: bool
  tx_taken_ids :: "bool list"
  tx_outgoing :: "file_outgoing option list"

definition transmitter_new :: "bool \<Rightarrow> file_transmitter" where
  "transmitter_new server =
     \<lparr>tx_server = server, tx_taken_ids = replicate 255 False, tx_outgoing = replicate 255 None\<rparr>"

definition tx_valid_range :: "bool \<Rightarrow> u8 \<Rightarrow> bool" where
  "tx_valid_range server i \<longleftrightarrow> (if server then 128 \<le> i \<and> i < 255 else 0 \<le> i \<and> i < 127)"

definition tx_range :: "bool \<Rightarrow> usize list" where
  "tx_range server = (if server then [128..<255] else [0..<127])"

text \<open>The \<open>for\<close> loop of \<open>reserve\<close>.\<close>

fun reserve_loop :: "usize list \<Rightarrow> bool list \<Rightarrow> panic + (u8 option \<times> bool list)" where
  "reserve_loop [] taken = Inr (None, taken)"
| "reserve_loop (i # is) taken =
     (case slice_get taken i of
        None \<Rightarrow> Inl Index_Out_Of_Bounds
      | Some t \<Rightarrow>
          if \<not> t then Inr (Some (of_nat i), taken[i := True])
          else reserve_loop is taken)"

definition transmitter_reserve :: "file_transmitter \<Rightarrow> panic + (u8 option \<times> file_transmitter)" where
  "transmitter_reserve tx =
     sum_bind (reserve_loop (tx_range (tx_server tx)) (tx_taken_ids tx)) (\<lambda>(i, taken).
       Inr (i, tx\<lparr>tx_taken_ids := taken\<rparr>))"

text \<open>Writing an array element: out of bounds it panics.\<close>

definition set_taken :: "u8 \<Rightarrow> bool \<Rightarrow> file_transmitter \<Rightarrow> panic + file_transmitter" where
  "set_taken i b tx =
     (if unat i < length (tx_taken_ids tx)
      then Inr (tx\<lparr>tx_taken_ids := (tx_taken_ids tx)[unat i := b]\<rparr>)
      else Inl Index_Out_Of_Bounds)"

definition transmitter_cancel_reserved :: "u8 \<Rightarrow> file_transmitter \<Rightarrow> panic + file_transmitter" where
  "transmitter_cancel_reserved i tx = set_taken i False tx"

definition transmitter_reconcile :: "u8 \<Rightarrow> file_transmitter \<Rightarrow> panic + file_transmitter" where
  "transmitter_reconcile i tx =
     (case slice_get (tx_outgoing tx) (unat i) of
        None \<Rightarrow> Inl Unwrap_None
      | Some None \<Rightarrow> Inr tx
      | Some (Some session) \<Rightarrow>
          if out_should_reclaim session then
            sum_bind (set_taken (fo_file_id session) False tx) (\<lambda>tx.
              Inr (tx\<lparr>tx_outgoing := (tx_outgoing tx)[unat i := None]\<rparr>))
          else Inr tx)"

definition transmitter_cancel ::
  "u8 \<Rightarrow> file_transmitter \<Rightarrow> panic + (file_payload option \<times> file_transmitter)" where
  "transmitter_cancel i tx =
     (case slice_get (tx_outgoing tx) (unat i) of
        None \<Rightarrow> Inl Unwrap_None
      | Some None \<Rightarrow> Inr (None, tx)
      | Some (Some session) \<Rightarrow>
          let (ret, session') = out_cancel session in
          sum_bind (transmitter_reconcile i
                     (tx\<lparr>tx_outgoing := (tx_outgoing tx)[unat i := Some session']\<rparr>)) (\<lambda>tx.
            Inr (ret, tx)))"

text \<open>The slot is looked up, with a panic, before the identifier is checked against the range.\<close>

definition transmitter_feed ::
  "file_transmitter \<Rightarrow> file_payload \<Rightarrow>
     panic + (file_payload option \<times> file_transfer_event option) \<times> file_transmitter" where
  "transmitter_feed tx ev =
     (case slice_get (tx_outgoing tx) (unat (fp_file_id ev)) of
        None \<Rightarrow> Inl Unwrap_None
      | Some session_ref \<Rightarrow>
          if \<not> tx_valid_range (tx_server tx) (fp_file_id ev) then Inr ((None, None), tx)
          else
            let file_id = fp_file_id ev in
            (case session_ref of
               Some session \<Rightarrow>
                 (case event_of_payload ev of
                    None \<Rightarrow> Inr ((None, None), tx)
                  | Some e \<Rightarrow>
                      let session' = out_feed_event e session;
                          lev = out_local_event (fo_state session) (fo_state session')
                      in sum_bind (transmitter_reconcile file_id
                            (tx\<lparr>tx_outgoing := (tx_outgoing tx)[unat file_id := Some session']\<rparr>)) (\<lambda>tx.
                           Inr ((None, lev), tx)))
             | None \<Rightarrow>
                 if fp_op ev = Op_Setup then
                   sum_bind (set_taken file_id False tx) (\<lambda>tx.
                     Inr ((Some \<lparr>fp_file_id = file_id, fp_op = Op_Cancel, fp_payload = []\<rparr>,
                           Some Ev_Cancel), tx))
                 else Inr ((None, None), tx)))"

definition outgoing_new :: "u8 \<Rightarrow> u16 \<Rightarrow> u8 list \<Rightarrow> outgoing_source \<Rightarrow> file_outgoing" where
  "outgoing_new i file_type setup_data source =
     (let sz = (case source_size source of None \<Rightarrow> 0 | Some n \<Rightarrow> n) in
      \<lparr>fo_file_size = sz, fo_file_type = file_type, fo_setup_data = setup_data, fo_file_id = i,
       fo_total = unat sz, fo_progress = 0, fo_source = source, fo_state = PendingSetup\<rparr>)"

text \<open>\<open>setup\<close>: \<open>Err(())\<close>, here \<open>None\<close>, when the slot is occupied.\<close>

definition transmitter_setup ::
  "u8 \<Rightarrow> u16 \<Rightarrow> u8 list \<Rightarrow> outgoing_source \<Rightarrow> file_transmitter \<Rightarrow>
     panic + ((u8 \<times> file_payload) option \<times> file_transmitter)" where
  "transmitter_setup i file_type setup_data source tx =
     (case slice_get (tx_outgoing tx) (unat i) of
        None \<Rightarrow> Inl Unwrap_None
      | Some (Some _) \<Rightarrow> Inr (None, tx)
      | Some None \<Rightarrow>
          let (setup, new_session) = out_setup (outgoing_new i file_type setup_data source) in
          sum_bind (expect ''first setup'' setup) (\<lambda>setup.
          sum_bind (transmitter_reconcile i
                     (tx\<lparr>tx_outgoing := (tx_outgoing tx)[unat i := Some new_session]\<rparr>)) (\<lambda>tx.
            Inr (Some (i, setup), tx))))"

definition slot_sending :: "file_outgoing option \<Rightarrow> bool" where
  "slot_sending slot = (case slot of None \<Rightarrow> False | Some f \<Rightarrow> fo_state f = Out_Sending)"

definition transmitter_wants_tx :: "file_transmitter \<Rightarrow> bool" where
  "transmitter_wants_tx tx = list_ex slot_sending (tx_outgoing tx)"

fun poll_slots :: "usize \<Rightarrow> file_outgoing option list \<Rightarrow> file_payload option \<times> file_outgoing option list" where
  "poll_slots chunk_size [] = (None, [])"
| "poll_slots chunk_size (None # slots) =
     (case poll_slots chunk_size slots of (r, slots') \<Rightarrow> (r, None # slots'))"
| "poll_slots chunk_size (Some f # slots) =
     (if fo_state f = Out_Sending then
        (case out_poll_send chunk_size f of
           (Some v, f') \<Rightarrow> (Some v, Some f' # slots)
         | (None, f') \<Rightarrow>
             (case poll_slots chunk_size slots of (r, slots') \<Rightarrow> (r, Some f' # slots')))
      else
        (case poll_slots chunk_size slots of (r, slots') \<Rightarrow> (r, Some f # slots')))"

definition transmitter_poll :: "usize \<Rightarrow> file_transmitter \<Rightarrow> file_payload option \<times> file_transmitter" where
  "transmitter_poll chunk_size tx =
     (case poll_slots chunk_size (tx_outgoing tx) of
        (r, slots) \<Rightarrow> (r, tx\<lparr>tx_outgoing := slots\<rparr>))"

section \<open>Sending a file in chunks\<close>

fun source_data :: "outgoing_source \<Rightarrow> u8 list" where
  "source_data (VecData v) = v"

text \<open>What is still to be sent.\<close>

definition out_rest :: "file_outgoing \<Rightarrow> u8 list" where
  "out_rest f = drop (fo_progress f) (source_data (fo_source f))"

definition out_wf :: "file_outgoing \<Rightarrow> bool" where
  "out_wf f \<longleftrightarrow> fo_total f = length (source_data (fo_source f))
     \<and> fo_progress f \<le> length (source_data (fo_source f))"

lemma get_chunk_rest:
  "get_chunk src offset limit =
     (take limit (drop offset (source_data src)), length (drop offset (source_data src)) \<le> limit)"
  by (cases src) (auto simp: Let_def min_def)

lemma out_poll_send_eq:
  assumes "fo_state f = Out_Sending" and "out_wf f" and "0 < c"
  shows "out_poll_send c f =
    (Some \<lparr>fp_file_id = fo_file_id f,
       fp_op = (if fo_progress f = 0 then (if length (out_rest f) \<le> c then Op_FirstAndOnlyData else Op_FirstData)
                else (if length (out_rest f) \<le> c then Op_LastData else Op_Data)),
       fp_payload = take c (out_rest f)\<rparr>,
     f\<lparr>fo_progress := fo_progress f + length (take c (out_rest f)),
       fo_state := (if length (out_rest f) \<le> c then WaitingForSuccess else Out_Sending)\<rparr>)"
proof -
  have last: "(length (out_rest f) \<le> c \<or> (0 < fo_total f \<and> fo_total f \<le> fo_progress f + length (take c (out_rest f))))
      \<longleftrightarrow> length (out_rest f) \<le> c"
    using assms(2,3) by (auto simp: out_wf_def out_rest_def min_def)
  show ?thesis
    using assms(1) last
    by (auto simp: out_poll_send_def get_chunk_rest Let_def out_rest_def)
qed

text \<open>Polling one file until it has nothing more to send; every poll makes progress.\<close>

function out_poll_all :: "usize \<Rightarrow> file_outgoing \<Rightarrow> file_payload list \<times> file_outgoing" where
  "out_poll_all c f =
     (if c = 0 then ([], f)
      else
        (case out_poll_send c f of
           (None, f') \<Rightarrow> ([], f')
         | (Some p, f') \<Rightarrow> (case out_poll_all c f' of (ps, f'') \<Rightarrow> (p # ps, f''))))"
  by pat_completeness auto
termination
proof (relation "measure (\<lambda>(c, f). if fo_state f = Out_Sending then Suc (length (out_rest f)) else 0)")
  fix c f r f' p
  assume c: "c \<noteq> 0" and send: "(r, f') = out_poll_send c f" and r: "r = Some p"
  have sending: "fo_state f = Out_Sending"
    using send r by (auto simp: out_poll_send_def split: if_splits)
  have "fo_state f' = Out_Sending \<Longrightarrow> length (out_rest f') < length (out_rest f)"
    using send r c by (auto simp: out_poll_send_def get_chunk_rest Let_def out_rest_def split: if_splits)
  then show "((c, f'), c, f) \<in> measure
      (\<lambda>(c, f). if fo_state f = Out_Sending then Suc (length (out_rest f)) else 0)"
    using sending by auto
qed simp

declare out_poll_all.simps [simp del]

text \<open>How the pieces of a file are labelled.\<close>

fun label_pieces :: "bool \<Rightarrow> u8 \<Rightarrow> u8 list list \<Rightarrow> file_payload list" where
  "label_pieces is_first i [] = []"
| "label_pieces is_first i [d] =
     [\<lparr>fp_file_id = i, fp_op = (if is_first then Op_FirstAndOnlyData else Op_LastData), fp_payload = d\<rparr>]"
| "label_pieces is_first i (d # e # ds) =
     \<lparr>fp_file_id = i, fp_op = (if is_first then Op_FirstData else Op_Data), fp_payload = d\<rparr>
     # label_pieces False i (e # ds)"

definition file_pieces :: "usize \<Rightarrow> u8 list \<Rightarrow> u8 list list" where
  "file_pieces c v = (if v = [] then [[]] else chunks c v)"

lemma label_pieces_payloads: "map fp_payload (label_pieces b i ds) = ds"
  by (induction b i ds rule: label_pieces.induct) simp_all

lemma label_pieces_ids: "p \<in> set (label_pieces b i ds) \<Longrightarrow> fp_file_id p = i"
  by (induction b i ds rule: label_pieces.induct) auto

lemma label_pieces_events:
  "ds \<noteq> [] \<Longrightarrow> map event_of_payload (label_pieces b i ds) =
     map (\<lambda>d. Some (Ev_Data d False)) (butlast ds) @ [Some (Ev_Data (last ds) True)]"
  by (induction b i ds rule: label_pieces.induct) (auto simp: event_of_payload_def)

lemma concat_file_pieces: "0 < c \<Longrightarrow> concat (file_pieces c v) = v"
  by (simp add: file_pieces_def concat_chunks)

lemma file_pieces_ne [simp]: "0 < c \<Longrightarrow> file_pieces c v \<noteq> []"
  by (simp add: file_pieces_def chunks.simps [of c v])

lemma length_file_pieces_le: "d \<in> set (file_pieces c v) \<Longrightarrow> length d \<le> c"
  by (auto simp: file_pieces_def length_chunks_le split: if_splits)

lemma file_pieces_step:
  "0 < c \<Longrightarrow> file_pieces c v = (if length v \<le> c then [v] else take c v # file_pieces c (drop c v))"
  by (auto simp: file_pieces_def chunks.simps [of c v] chunks.simps [of c "drop c v"])

lemma out_poll_all_eq:
  assumes "fo_state f = Out_Sending" and "out_wf f" and "0 < c"
  shows "out_poll_all c f =
    (label_pieces (fo_progress f = 0) (fo_file_id f) (file_pieces c (out_rest f)),
     f\<lparr>fo_progress := fo_total f, fo_state := WaitingForSuccess\<rparr>)"
  using assms
proof (induction c f rule: out_poll_all.induct)
  case (1 c f)
  let ?rest = "out_rest f"
  note send = out_poll_send_eq [OF "1.prems"]
  show ?case
  proof (cases "length ?rest \<le> c")
    case True
    let ?f' = "f\<lparr>fo_progress := fo_progress f + length ?rest, fo_state := WaitingForSuccess\<rparr>"
    have "out_poll_all c ?f' = ([], ?f')"
      using "1.prems"(3) by (simp add: out_poll_all.simps [of c ?f'] out_poll_send_def)
    moreover have "fo_progress f + length ?rest = fo_total f"
      using "1.prems"(2) by (simp add: out_wf_def out_rest_def)
    ultimately show ?thesis
      using True send "1.prems"(3) by (simp add: out_poll_all.simps [of c f] file_pieces_step)
  next
    case False
    let ?f' = "f\<lparr>fo_progress := fo_progress f + c, fo_state := Out_Sending\<rparr>"
    let ?p = "\<lparr>fp_file_id = fo_file_id f, fp_op = (if fo_progress f = 0 then Op_FirstData else Op_Data),
      fp_payload = take c ?rest\<rparr>"
    have step: "out_poll_send c f = (Some ?p, ?f')"
      using send False by simp
    have rest: "out_rest ?f' = drop c ?rest"
      by (simp add: out_rest_def add.commute)
    have wf: "out_wf ?f'"
      using "1.prems"(2) False by (auto simp: out_wf_def out_rest_def)
    have ih: "out_poll_all c ?f' =
        (label_pieces False (fo_file_id f) (file_pieces c (drop c ?rest)),
         f\<lparr>fo_progress := fo_total f, fo_state := WaitingForSuccess\<rparr>)"
      using "1.IH" [OF _ step [symmetric] refl] wf "1.prems"(3) rest by simp
    obtain e ds where ne: "file_pieces c (drop c ?rest) = e # ds"
      using file_pieces_ne [OF "1.prems"(3)] by (meson list.exhaust)
    have "out_poll_all c f = (?p # fst (out_poll_all c ?f'), snd (out_poll_all c ?f'))"
      using "1.prems"(3) by (simp add: out_poll_all.simps [of c f] step case_prod_beta)
    then show ?thesis
      using ih False "1.prems"(3) ne by (simp add: file_pieces_step [of c ?rest])
  qed
qed

section \<open>The transmitter's identifiers\<close>

text \<open>
  The representation invariant: two arrays of 255 slots; an occupied slot holds a live transfer
  that knows its identifier. That it is marked as taken is not part of it: a Setup datagram of the peer
  clears the mark of an identifier that is reserved and not yet used.
\<close>

definition tx_wf :: "file_transmitter \<Rightarrow> bool" where
  "tx_wf tx \<longleftrightarrow> length (tx_taken_ids tx) = 255 \<and> length (tx_outgoing tx) = 255
     \<and> (\<forall>i f. i < 255 \<and> tx_outgoing tx ! i = Some f \<longrightarrow>
          unat (fo_file_id f) = i \<and> \<not> out_should_reclaim f \<and> fo_state f \<noteq> PendingSetup \<and> out_wf f)"

lemma tx_wf_new [simp]: "tx_wf (transmitter_new server)"
  by (auto simp: tx_wf_def transmitter_new_def)

lemma tx_valid_range_iff: "tx_valid_range server i \<longleftrightarrow> unat i \<in> set (tx_range server)"
  by (simp add: tx_valid_range_def tx_range_def word_le_nat_alt word_less_nat_alt
      del: upt_rec_numeral)

lemma tx_range_lt: "i \<in> set (tx_range server) \<Longrightarrow> i < 255"
  by (simp add: tx_range_def del: upt_rec_numeral split: if_splits)

lemma unat_of_nat_id: "i < 255 \<Longrightarrow> unat (of_nat i :: u8) = i"
  by (simp add: unat_of_nat)

lemma reserve_loop_ok:
  "\<forall>i \<in> set is. i < length taken \<Longrightarrow>
     (\<exists>pre k post. is = pre @ k # post \<and> \<not> taken ! k \<and> (\<forall>j \<in> set pre. taken ! j)
        \<and> reserve_loop is taken = Inr (Some (of_nat k), taken[k := True]))
     \<or> (reserve_loop is taken = Inr (None, taken) \<and> (\<forall>k \<in> set is. taken ! k))"
proof (induction "is")
  case Nil
  show ?case by simp
next
  case (Cons i "is")
  then have "reserve_loop (i # is) taken =
      (if \<not> taken ! i then Inr (Some (of_nat i), taken[i := True]) else reserve_loop is taken)"
    by (simp add: slice_get_def)
  note step = this
  show ?case
  proof (cases "taken ! i")
    case False
    then have "i # is = [] @ i # is \<and> reserve_loop (i # is) taken = Inr (Some (of_nat i), taken[i := True])"
      using step by simp
    then show ?thesis
      using False by (metis empty_iff list.set(1))
  next
    case True
    have "(\<exists>pre k post. is = pre @ k # post \<and> \<not> taken ! k \<and> (\<forall>j \<in> set pre. taken ! j)
        \<and> reserve_loop is taken = Inr (Some (of_nat k), taken[k := True]))
      \<or> (reserve_loop is taken = Inr (None, taken) \<and> (\<forall>k \<in> set is. taken ! k))"
      using Cons by simp
    then show ?thesis
    proof (elim disjE exE conjE)
      fix pre k post
      assume "is = pre @ k # post" "\<not> taken ! k" "\<forall>j \<in> set pre. taken ! j"
        "reserve_loop is taken = Inr (Some (of_nat k), taken[k := True])"
      then have "i # is = (i # pre) @ k # post \<and> \<not> taken ! k \<and> (\<forall>j \<in> set (i # pre). taken ! j) \<and>
          reserve_loop (i # is) taken = Inr (Some (of_nat k), taken[k := True])"
        using True step by simp
      then show ?thesis
        by blast
    qed (use True step in simp)
  qed
qed

lemma tx_range_sorted: "tx_range server = pre @ k # post \<Longrightarrow> j \<in> set (tx_range server) \<Longrightarrow> j < k \<Longrightarrow> j \<in> set pre"
proof -
  assume split: "tx_range server = pre @ k # post" and j: "j \<in> set (tx_range server)" "j < k"
  have "sorted (pre @ k # post)"
    unfolding split [symmetric] by (simp add: tx_range_def del: upt_rec_numeral)
  then show "j \<in> set pre"
    using split j by (auto simp: sorted_append)
qed

lemma transmitter_reserve_ok:
  assumes "tx_wf tx"
  obtains (some) k where "transmitter_reserve tx =
        Inr (Some (of_nat k), tx\<lparr>tx_taken_ids := (tx_taken_ids tx)[k := True]\<rparr>)"
      "k \<in> set (tx_range (tx_server tx))" "\<not> tx_taken_ids tx ! k"
      "\<forall>j \<in> set (tx_range (tx_server tx)). j < k \<longrightarrow> tx_taken_ids tx ! j"
    | (none) "transmitter_reserve tx = Inr (None, tx)"
      "\<forall>k \<in> set (tx_range (tx_server tx)). tx_taken_ids tx ! k"
proof -
  let ?range = "tx_range (tx_server tx)"
  have "(\<exists>pre k post. ?range = pre @ k # post \<and> \<not> tx_taken_ids tx ! k \<and> (\<forall>j \<in> set pre. tx_taken_ids tx ! j)
        \<and> reserve_loop ?range (tx_taken_ids tx) = Inr (Some (of_nat k), (tx_taken_ids tx)[k := True]))
      \<or> (reserve_loop ?range (tx_taken_ids tx) = Inr (None, tx_taken_ids tx)
        \<and> (\<forall>k \<in> set ?range. tx_taken_ids tx ! k))"
    using assms by (intro reserve_loop_ok) (simp add: tx_wf_def tx_range_lt)
  then show thesis
  proof (elim disjE exE conjE)
    fix pre k post
    assume k: "?range = pre @ k # post" "\<not> tx_taken_ids tx ! k" "\<forall>j \<in> set pre. tx_taken_ids tx ! j"
      "reserve_loop ?range (tx_taken_ids tx) = Inr (Some (of_nat k), (tx_taken_ids tx)[k := True])"
    have "k \<in> set ?range"
      by (simp add: k(1))
    then show thesis
      using some [of k] k(2-4) tx_range_sorted [OF k(1)] by (simp add: transmitter_reserve_def)
  next
    assume "reserve_loop ?range (tx_taken_ids tx) = Inr (None, tx_taken_ids tx)"
      "\<forall>k \<in> set ?range. tx_taken_ids tx ! k"
    then show thesis using none by (simp add: transmitter_reserve_def)
  qed
qed

lemma tx_wf_taken:
  assumes "tx_wf tx"
  shows "tx_wf (tx\<lparr>tx_taken_ids := (tx_taken_ids tx)[k := b]\<rparr>)"
  using assms by (auto simp: tx_wf_def)

text \<open>Replacing the transfer of an occupied slot, then \<open>reconcile\<close>: the slot is freed or kept.\<close>

lemma reconcile_update:
  assumes wf: "tx_wf tx" and slot: "tx_outgoing tx ! unat i = Some f" and i: "unat i < 255"
    and same: "fo_file_id f' = fo_file_id f" "out_wf f'" "fo_state f' \<noteq> PendingSetup"
  obtains tx' where
    "transmitter_reconcile i (tx\<lparr>tx_outgoing := (tx_outgoing tx)[unat i := Some f']\<rparr>) = Inr tx'"
    "tx_wf tx'" "tx_server tx' = tx_server tx"
    "tx_outgoing tx' = (tx_outgoing tx)[unat i := if out_should_reclaim f' then None else Some f']"
    "tx_taken_ids tx' = (if out_should_reclaim f' then (tx_taken_ids tx)[unat i := False] else tx_taken_ids tx)"
proof -
  have len: "length (tx_outgoing tx) = 255" "length (tx_taken_ids tx) = 255"
    and file_id: "unat (fo_file_id f) = unat i"
    using wf slot i by (auto simp: tx_wf_def)
  let ?tx' = "tx\<lparr>tx_outgoing := (tx_outgoing tx)[unat i := if out_should_reclaim f' then None else Some f'],
    tx_taken_ids := (if out_should_reclaim f' then (tx_taken_ids tx)[unat i := False] else tx_taken_ids tx)\<rparr>"
  have "transmitter_reconcile i (tx\<lparr>tx_outgoing := (tx_outgoing tx)[unat i := Some f']\<rparr>) = Inr ?tx'"
    using i len same file_id
    by (auto simp: transmitter_reconcile_def slice_get_def set_taken_def)
  moreover have "tx_wf ?tx'"
    using wf i same file_id by (auto simp: tx_wf_def nth_list_update)
  ultimately show thesis using that [of ?tx'] by simp
qed

lemma out_feed_event_simps [simp]:
  "fo_file_id (out_feed_event ev f) = fo_file_id f"
  "out_wf (out_feed_event ev f) = out_wf f"
  by (simp_all add: out_feed_event_def out_wf_def)

lemma out_feed_event_pending: "fo_state f \<noteq> PendingSetup \<Longrightarrow> fo_state (out_feed_event ev f) \<noteq> PendingSetup"
  by (auto simp: out_feed_event_def split: file_transfer_event.split)

lemma transmitter_feed_ok:
  assumes wf: "tx_wf tx" and i: "fp_file_id p \<noteq> 255"
  obtains r tx' where "transmitter_feed tx p = Inr (r, tx')" "tx_wf tx'" "tx_server tx' = tx_server tx"
proof -
  have lt: "unat (fp_file_id p) < 255"
  proof -
    have "unat (fp_file_id p) \<noteq> 255"
      using i by (auto simp: word_unat_eq_iff)
    then show ?thesis using u8_range [of "fp_file_id p"] by linarith
  qed
  have len: "length (tx_outgoing tx) = 255" "length (tx_taken_ids tx) = 255"
    using wf by (simp_all add: tx_wf_def)
  show thesis
  proof (cases "tx_valid_range (tx_server tx) (fp_file_id p)")
    case False
    then show ?thesis using that [of "(None, None)" tx] wf lt len
      by (simp add: transmitter_feed_def slice_get_def)
  next
    case True
    show ?thesis
    proof (cases "tx_outgoing tx ! unat (fp_file_id p)")
      case None
      then show ?thesis
        using that True lt len wf tx_wf_taken [OF wf, of "unat (fp_file_id p)" False]
        by (cases "fp_op p = Op_Setup")
           (auto simp: transmitter_feed_def slice_get_def set_taken_def Let_def)
    next
      case (Some f)
      show ?thesis
      proof (cases "event_of_payload p")
        case None
        then show ?thesis using that [of "(None, None)" tx] Some wf lt len
          by (simp add: transmitter_feed_def slice_get_def)
      next
        case ev: (Some ev)
        have f: "out_wf f" "fo_state f \<noteq> PendingSetup" using wf Some lt by (auto simp: tx_wf_def)
        obtain tx' where "transmitter_reconcile (fp_file_id p)
            (tx\<lparr>tx_outgoing := (tx_outgoing tx)[unat (fp_file_id p) := Some (out_feed_event ev f)]\<rparr>) = Inr tx'"
          "tx_wf tx'" "tx_server tx' = tx_server tx"
          by (rule reconcile_update [OF wf Some lt, of "out_feed_event ev f"])
             (simp_all add: f out_feed_event_pending)
        then show ?thesis
          using that True Some ev lt len by (simp add: transmitter_feed_def slice_get_def)
      qed
    qed
  qed
qed

lemma out_cancel_simps [simp]:
  "fo_file_id (snd (out_cancel f)) = fo_file_id f"
  "out_wf (snd (out_cancel f)) = out_wf f"
  by (simp_all add: out_cancel_def out_wf_def)

lemma transmitter_cancel_ok:
  assumes wf: "tx_wf tx" and i: "unat i < 255"
  obtains r tx' where "transmitter_cancel i tx = Inr (r, tx')" "tx_wf tx'" "tx_server tx' = tx_server tx"
proof (cases "tx_outgoing tx ! unat i")
  case None
  then show ?thesis using that [of None tx] wf i
    by (simp add: transmitter_cancel_def slice_get_def tx_wf_def)
next
  case (Some f)
  have f: "out_wf f" "fo_state f \<noteq> PendingSetup" using wf Some i by (auto simp: tx_wf_def)
  obtain tx' where "transmitter_reconcile i
      (tx\<lparr>tx_outgoing := (tx_outgoing tx)[unat i := Some (snd (out_cancel f))]\<rparr>) = Inr tx'"
    "tx_wf tx'" "tx_server tx' = tx_server tx"
    by (rule reconcile_update [OF wf Some i, of "snd (out_cancel f)"]) (simp_all add: f, simp add: out_cancel_def f)
  then show ?thesis
    using that [of "fst (out_cancel f)" tx'] Some i wf
    by (simp add: transmitter_cancel_def slice_get_def tx_wf_def case_prod_beta)
qed

lemma outgoing_new_wf:
  "length (source_data src) < 2 ^ 64 \<Longrightarrow> out_wf (outgoing_new i ty data src)"
  by (cases src) (simp add: outgoing_new_def out_wf_def unat_of_nat)

lemma transmitter_setup_ok:
  assumes wf: "tx_wf tx" and lt: "unat i < 255"
    and free: "tx_outgoing tx ! unat i = None" and len: "length (source_data src) < 2 ^ 64"
  shows "\<exists>tx'. transmitter_setup i ty data src tx = Inr (Some (i,
        \<lparr>fp_file_id = i, fp_op = Op_Setup,
         fp_payload = be64_bytes (of_nat (length (source_data src))) @ be16_bytes ty @ data\<rparr>), tx')
      \<and> tx_wf tx' \<and> tx_server tx' = tx_server tx \<and> tx_taken_ids tx' = tx_taken_ids tx
      \<and> tx_outgoing tx' = (tx_outgoing tx)[unat i :=
          Some ((outgoing_new i ty data src)\<lparr>fo_state := Out_Pause\<rparr>)]"
proof -
  let ?f = "(outgoing_new i ty data src)\<lparr>fo_state := Out_Pause\<rparr>"
  let ?tx' = "tx\<lparr>tx_outgoing := (tx_outgoing tx)[unat i := Some ?f]\<rparr>"
  obtain v where src: "src = VecData v" by (cases src)
  have lens: "length (tx_outgoing tx) = 255" using wf by (simp add: tx_wf_def)
  have new: "fo_state (outgoing_new i ty data src) = PendingSetup"
    "fo_file_id (outgoing_new i ty data src) = i"
    "fo_file_size (outgoing_new i ty data src) = of_nat (length (source_data src))"
    "fo_file_type (outgoing_new i ty data src) = ty" "fo_setup_data (outgoing_new i ty data src) = data"
    by (simp_all add: src outgoing_new_def Let_def)
  have fwf: "out_wf ?f \<and> \<not> out_should_reclaim ?f \<and> fo_state ?f \<noteq> PendingSetup"
    using outgoing_new_wf [OF len, of i ty data] by (simp add: out_wf_def out_should_reclaim_def)
  have "transmitter_reconcile i ?tx' = Inr ?tx'"
    using lt lens by (simp add: transmitter_reconcile_def slice_get_def out_should_reclaim_def)
  moreover have "tx_wf ?tx'"
    using wf fwf new(2) lt
    by (auto simp: tx_wf_def nth_list_update split: if_splits)
  ultimately show ?thesis
    using lt lens free new
    by (simp add: transmitter_setup_def slice_get_def out_setup_def del: upt_rec_numeral)
qed

text \<open>Polling sends from the first slot in the sending state, and leaves the others alone.\<close>

lemma out_poll_send_sends: "fo_state f = Out_Sending \<Longrightarrow> \<exists>p f'. out_poll_send c f = (Some p, f')"
  by (simp add: out_poll_send_def Let_def case_prod_beta)

lemma poll_slots_None:
  "fst (poll_slots c slots) = None \<longleftrightarrow> \<not> list_ex slot_sending slots"
proof (induction c slots rule: poll_slots.induct)
  case (3 c f slots)
  then show ?case
    using out_poll_send_sends [of f c]
    by (cases "fo_state f = Out_Sending") (auto simp: slot_sending_def case_prod_beta)
qed (auto simp: slot_sending_def case_prod_beta)

lemma poll_slots_unchanged: "\<not> list_ex slot_sending slots \<Longrightarrow> poll_slots c slots = (None, slots)"
  by (induction c slots rule: poll_slots.induct) (auto simp: slot_sending_def)

lemma poll_slots_first:
  assumes "list_ex slot_sending slots"
  obtains k f where "k < length slots" "slots ! k = Some f" "fo_state f = Out_Sending"
    "\<And>j. j < k \<Longrightarrow> \<not> slot_sending (slots ! j)"
    "poll_slots c slots = (fst (out_poll_send c f), slots[k := Some (snd (out_poll_send c f))])"
proof -
  have "\<exists>k f. k < length slots \<and> slots ! k = Some f \<and> fo_state f = Out_Sending
      \<and> (\<forall>j < k. \<not> slot_sending (slots ! j))
      \<and> poll_slots c slots = (fst (out_poll_send c f), slots[k := Some (snd (out_poll_send c f))])"
    using assms
  proof (induction c slots rule: poll_slots.induct)
    case (1 c)
    then show ?case by simp
  next
    case (2 c slots)
    then obtain k f where "k < length slots" "slots ! k = Some f" "fo_state f = Out_Sending"
      "\<forall>j < k. \<not> slot_sending (slots ! j)"
      "poll_slots c slots = (fst (out_poll_send c f), slots[k := Some (snd (out_poll_send c f))])"
      by (auto simp: slot_sending_def)
    then show ?case
      by (intro exI [of _ "Suc k"] exI [of _ f]) (auto simp: nth_Cons slot_sending_def split: nat.splits)
  next
    case (3 c g slots)
    show ?case
    proof (cases "fo_state g = Out_Sending")
      case True
      from out_poll_send_sends [OF this, of c] show ?thesis
        using True by (intro exI [of _ 0] exI [of _ g]) auto
    next
      case False
      then obtain k f where "k < length slots" "slots ! k = Some f" "fo_state f = Out_Sending"
        "\<forall>j < k. \<not> slot_sending (slots ! j)"
        "poll_slots c slots = (fst (out_poll_send c f), slots[k := Some (snd (out_poll_send c f))])"
        using 3 by (auto simp: slot_sending_def)
      then show ?thesis
        using False
        by (intro exI [of _ "Suc k"] exI [of _ f]) (auto simp: nth_Cons slot_sending_def split: nat.splits)
    qed
  qed
  then show thesis using that by blast
qed

lemma out_poll_send_wf:
  assumes "out_wf f" and "fo_state f = Out_Sending"
  shows "out_wf (snd (out_poll_send c f))" "fo_file_id (snd (out_poll_send c f)) = fo_file_id f"
    "fo_state (snd (out_poll_send c f)) \<in> {Out_Sending, WaitingForSuccess}"
  using assms
  by (auto simp: out_poll_send_def get_chunk_rest Let_def out_wf_def split: if_splits)

lemma transmitter_poll_ok:
  assumes "tx_wf tx"
  shows "tx_wf (snd (transmitter_poll c tx))" "tx_server (snd (transmitter_poll c tx)) = tx_server tx"
    "fst (transmitter_poll c tx) = None \<longleftrightarrow> \<not> transmitter_wants_tx tx"
proof -
  show "fst (transmitter_poll c tx) = None \<longleftrightarrow> \<not> transmitter_wants_tx tx"
    using poll_slots_None [of c "tx_outgoing tx"]
    by (simp add: transmitter_poll_def transmitter_wants_tx_def case_prod_beta)
  show "tx_server (snd (transmitter_poll c tx)) = tx_server tx"
    by (simp add: transmitter_poll_def split: prod.split)
  show "tx_wf (snd (transmitter_poll c tx))"
  proof (cases "list_ex slot_sending (tx_outgoing tx)")
    case False
    then show ?thesis using assms poll_slots_unchanged [OF False, of c] by (simp add: transmitter_poll_def)
  next
    case True
    then obtain k f where k: "k < length (tx_outgoing tx)" "tx_outgoing tx ! k = Some f"
      "fo_state f = Out_Sending"
      "poll_slots c (tx_outgoing tx) =
        (fst (out_poll_send c f), (tx_outgoing tx)[k := Some (snd (out_poll_send c f))])"
      by (rule poll_slots_first)
    have "out_wf f" using assms k by (auto simp: tx_wf_def)
    then show ?thesis
      using assms k out_poll_send_wf [OF _ k(3), of c]
      by (auto simp: transmitter_poll_def tx_wf_def nth_list_update out_should_reclaim_def)
  qed
qed

section \<open>Reachable transmitters\<close>

text \<open>
  Every call of a method that returns, with any identifier (the tokens are structures with a public field) and
  any vector that fits in memory, and every datagram of the peer.
\<close>

inductive tx_reach :: "bool \<Rightarrow> file_transmitter \<Rightarrow> bool" for server where
  reach_new: "tx_reach server (transmitter_new server)"
| reach_reserve: "tx_reach server tx \<Longrightarrow> transmitter_reserve tx = Inr (r, tx') \<Longrightarrow> tx_reach server tx'"
| reach_setup: "tx_reach server tx \<Longrightarrow> length (source_data src) < 2 ^ 64 \<Longrightarrow>
    transmitter_setup i ty data src tx = Inr (s, tx') \<Longrightarrow> tx_reach server tx'"
| reach_cancel_reserved: "tx_reach server tx \<Longrightarrow> transmitter_cancel_reserved i tx = Inr tx' \<Longrightarrow> tx_reach server tx'"
| reach_cancel: "tx_reach server tx \<Longrightarrow> transmitter_cancel i tx = Inr (p, tx') \<Longrightarrow> tx_reach server tx'"
| reach_feed: "tx_reach server tx \<Longrightarrow> transmitter_feed tx p = Inr (r, tx') \<Longrightarrow> tx_reach server tx'"
| reach_poll: "tx_reach server tx \<Longrightarrow> tx_reach server (snd (transmitter_poll c tx))"

lemma transmitter_feed_255: "tx_wf tx \<Longrightarrow> fp_file_id p = 255 \<Longrightarrow> transmitter_feed tx p = Inl Unwrap_None"
  by (simp add: transmitter_feed_def tx_wf_def slice_get_def)

lemma transmitter_setup_wf:
  assumes wf: "tx_wf tx" and len: "length (source_data src) < 2 ^ 64"
    and run: "transmitter_setup i ty data src tx = Inr (s, tx')"
  shows "tx_wf tx' \<and> tx_server tx' = tx_server tx"
proof -
  have lt: "unat i < 255"
    using run wf by (auto simp: transmitter_setup_def slice_get_def tx_wf_def split: if_splits)
  show ?thesis
  proof (cases "tx_outgoing tx ! unat i")
    case None
    then show ?thesis
      using transmitter_setup_ok [OF wf lt None len, of ty data] run by auto
  next
    case (Some f)
    then show ?thesis
      using run wf lt by (simp add: transmitter_setup_def slice_get_def tx_wf_def)
  qed
qed

lemma transmitter_cancel_wf:
  assumes wf: "tx_wf tx" and run: "transmitter_cancel i tx = Inr (p, tx')"
  shows "tx_wf tx' \<and> tx_server tx' = tx_server tx"
proof -
  have "unat i < 255"
    using run wf by (auto simp: transmitter_cancel_def slice_get_def tx_wf_def split: if_splits)
  then obtain r tx1 where "transmitter_cancel i tx = Inr (r, tx1)" "tx_wf tx1" "tx_server tx1 = tx_server tx"
    by (rule transmitter_cancel_ok [OF wf])
  then show ?thesis
    using run by simp
qed

lemma tx_reach_wf: "tx_reach server tx \<Longrightarrow> tx_wf tx \<and> tx_server tx = server"
proof (induction rule: tx_reach.induct)
  case reach_new
  show ?case by (simp add: transmitter_new_def) (simp flip: transmitter_new_def)
next
  case (reach_reserve tx r tx')
  then have wf: "tx_wf tx" by simp
  show ?case
    using wf
  proof (cases rule: transmitter_reserve_ok)
    case (some k)
    then show ?thesis
      using reach_reserve tx_wf_taken [OF wf, of k True] by auto
  next
    case none
    then show ?thesis using reach_reserve by simp
  qed
next
  case (reach_setup tx src i ty data s tx')
  then show ?case
    using transmitter_setup_wf by blast
next
  case (reach_cancel_reserved tx i tx')
  then show ?case
    using tx_wf_taken [of tx "unat i" False]
    by (auto simp: transmitter_cancel_reserved_def set_taken_def split: if_splits)
next
  case (reach_cancel tx i p tx')
  then show ?case
    using transmitter_cancel_wf by blast
next
  case (reach_feed tx p r tx')
  then have wf: "tx_wf tx" by simp
  have "fp_file_id p \<noteq> 255" using transmitter_feed_255 [OF wf] reach_feed.hyps(2) by auto
  then obtain r1 tx1 where "transmitter_feed tx p = Inr (r1, tx1)" "tx_wf tx1" "tx_server tx1 = tx_server tx"
    by (rule transmitter_feed_ok [OF wf])
  then show ?case using reach_feed by simp
next
  case (reach_poll tx c)
  then show ?case by (simp add: transmitter_poll_ok)
qed

section \<open>Properties\<close>

text \<open>
  Claim C38: a file is sent completely and in order: polling a file that is being sent ends, and
  yields non-final pieces and one final piece of at most the chunk size whose concatenation is
  exactly the part not sent yet; the first piece of the file is marked as such, and afterwards the
  transfer waits for the confirmation of the receiver.
\<close>

theorem file_sent_in_chunks:
  assumes "fo_state f = Out_Sending" and "out_wf f" and "0 < c"
  shows "\<exists>pieces. out_poll_all c f =
      (label_pieces (fo_progress f = 0) (fo_file_id f) pieces,
       f\<lparr>fo_progress := fo_total f, fo_state := WaitingForSuccess\<rparr>)
    \<and> pieces \<noteq> [] \<and> concat pieces = out_rest f \<and> (\<forall>d \<in> set pieces. length d \<le> c)
    \<and> map event_of_payload (label_pieces (fo_progress f = 0) (fo_file_id f) pieces) =
        map (\<lambda>d. Some (Ev_Data d False)) (butlast pieces) @ [Some (Ev_Data (last pieces) True)]"
  using out_poll_all_eq [OF assms] concat_file_pieces [OF assms(3)] file_pieces_ne [OF assms(3)]
    length_file_pieces_le label_pieces_events by blast

theorem file_sent_in_chunks_witness:
  "\<exists>pieces. concat pieces = [1, 2, 3, 4, 5]
     \<and> fst (out_poll_all 2 ((outgoing_new 7 0 [] (VecData [1, 2, 3, 4, 5]))\<lparr>fo_state := Out_Sending\<rparr>)) =
        label_pieces True 7 pieces"
proof -
  let ?f = "(outgoing_new 7 0 [] (VecData [1, 2, 3, 4, 5]))\<lparr>fo_state := Out_Sending\<rparr>"
  have "fo_state ?f = Out_Sending" "out_wf ?f" "(0::nat) < 2"
    by (simp_all add: outgoing_new_def out_wf_def)
  moreover have "out_rest ?f = [1, 2, 3, 4, 5]" "fo_progress ?f = 0" "fo_file_id ?f = 7"
    by (simp_all add: outgoing_new_def out_rest_def)
  ultimately show ?thesis
    using file_sent_in_chunks [of ?f 2] by auto
qed



text \<open>
  Feeding a received datagram to a reachable transmitter panics exactly when its file
  identifier is 255: the slot is looked up before the identifier is checked.
\<close>

lemma transmitter_feed_panics_iff:
  assumes "tx_reach server tx"
  shows "(\<exists>e. transmitter_feed tx p = Inl e) \<longleftrightarrow> fp_file_id p = 255"
proof -
  have wf: "tx_wf tx" using tx_reach_wf [OF assms] by simp
  show ?thesis
  proof (cases "fp_file_id p = 255")
    case True
    then show ?thesis using transmitter_feed_255 [OF wf] by simp
  next
    case False
    from transmitter_feed_ok [OF wf False] obtain r tx' where "transmitter_feed tx p = Inr (r, tx')" .
    then show ?thesis using False by simp
  qed
qed

theorem transmitter_feed_panics_iff_witness:
  "\<exists>e. transmitter_feed (transmitter_new True) \<lparr>fp_file_id = 255, fp_op = Op_Cancel, fp_payload = []\<rparr> = Inl e"
  using transmitter_feed_panics_iff [OF reach_new] by simp

text \<open>
  a reserved identifier can be handed out twice: a Setup datagram from the peer for an
  identifier that is reserved but not set up yet clears the reservation, so the next
  reservation returns the same identifier while the first token is still alive.
\<close>

lemma reservation_lost_on_remote_setup:
  assumes "transmitter_reserve tx = Inr (Some i, tx1)" and "tx_reach server tx" and "tx_outgoing tx ! unat i = None"
    and "fp_file_id p = i" and "fp_op p = Op_Setup"
    and "transmitter_feed tx1 p = Inr (answer, tx2)"
  shows "transmitter_reserve tx2 = Inr (Some i, tx1)"
proof -
  have wf: "tx_wf tx" and server: "tx_server tx = server" using tx_reach_wf [OF assms(2)] by auto
  show ?thesis
    using wf
  proof (cases rule: transmitter_reserve_ok)
    case none
    then show ?thesis using assms(1) by simp
  next
    case (some k)
    have k: "k < 255" by (rule tx_range_lt [OF some(2)])
    then have i: "i = of_nat k" "unat i = k" and tx1: "tx1 = tx\<lparr>tx_taken_ids := (tx_taken_ids tx)[k := True]\<rparr>"
      using some(1) assms(1) unat_of_nat_id by auto
    have len: "length (tx_taken_ids tx) = 255" "length (tx_outgoing tx) = 255"
      using wf by (simp_all add: tx_wf_def)
    have valid: "tx_valid_range (tx_server tx) i"
      using some(2) i(2) by (simp add: tx_valid_range_iff)
    have same: "(tx_taken_ids tx)[k := False] = tx_taken_ids tx"
      using some(3) by (metis (full_types) list_update_id)
    have "tx2 = tx1\<lparr>tx_taken_ids := (tx_taken_ids tx1)[k := False]\<rparr>"
      using assms(3-6) tx1 k len valid i(2)
      by (simp add: transmitter_feed_def slice_get_def set_taken_def Let_def)
    then have "tx2 = tx" using tx1 same by simp
    then show ?thesis using assms(1) by simp
  qed
qed

lemma reservation_lost_on_remote_setup_witness:
  "\<exists>tx1 tx2 answer. transmitter_reserve (transmitter_new True) = Inr (Some 128, tx1)
     \<and> transmitter_feed tx1 \<lparr>fp_file_id = 128, fp_op = Op_Setup, fp_payload = []\<rparr> = Inr (answer, tx2)
     \<and> transmitter_reserve tx2 = Inr (Some 128, tx1)"
proof -
  let ?p = "\<lparr>fp_file_id = 128, fp_op = Op_Setup, fp_payload = []\<rparr> :: file_payload"
  let ?tx1 = "(transmitter_new True)\<lparr>tx_taken_ids := (replicate 255 False)[128 := True]\<rparr>"
  have "tx_range True = 128 # [129..<255]"
    by (simp add: tx_range_def upt_conv_Cons del: upt_rec_numeral)
  moreover have "slice_get (replicate 255 False) 128 = Some False"
    by (simp add: slice_get_def)
  ultimately have "reserve_loop (tx_range True) (replicate 255 False) =
      Inr (Some 128, (replicate 255 False)[128 := True])"
    by (simp only: reserve_loop.simps option.case if_True simp_thms of_nat_numeral)
  then have r: "transmitter_reserve (transmitter_new True) = Inr (Some 128, ?tx1)"
    by (simp add: transmitter_reserve_def transmitter_new_def del: upt_rec_numeral)
  have reach: "tx_reach True ?tx1" by (rule reach_reserve [OF reach_new r])
  obtain answer tx2 where f: "transmitter_feed ?tx1 ?p = Inr (answer, tx2)"
    by (rule transmitter_feed_ok [of ?tx1 ?p]) (use tx_reach_wf [OF reach] in simp_all)
  show ?thesis
    using reservation_lost_on_remote_setup [OF r reach_new _ _ _ f] r f by (auto simp: transmitter_new_def)
qed

end
