(* ===== verification/File_Session.thy ===== *)
theory File_Session
  imports File_Outgoing
begin

text \<open>
  \<open>core/catplay_iap2_link/src/link_session.rs\<close>, \<open>payload/session.rs\<close> and
  \<open>files/session.rs\<close>: what the link layer asks of a session, the plain payload queue and the
  file session, which joins a receiver and a transmitter; and a file transfer from end to end.
\<close>

section \<open>The trait LinkSession\<close>

text \<open>
  \<open>dequeue_tx\<close> takes the room a packet has for payload; \<open>room\<close> is what a session needs to be
  sure to send when it says it has something pending. A session that returns nothing has not
  changed.
\<close>

locale link_session =
  fixes dequeue_tx :: "usize \<Rightarrow> 's \<Rightarrow> u8 list option \<times> 's"
    and has_tx_pending :: "'s \<Rightarrow> bool"
    and room :: usize
  assumes idle: "\<not> has_tx_pending s \<Longrightarrow> dequeue_tx n s = (None, s)"
    and busy: "has_tx_pending s \<Longrightarrow> room \<le> n \<Longrightarrow> fst (dequeue_tx n s) \<noteq> None"
    and nothing_lost: "fst (dequeue_tx n s) = None \<Longrightarrow> snd (dequeue_tx n s) = s"
begin

lemma sends_iff: "room \<le> n \<Longrightarrow> fst (dequeue_tx n s) \<noteq> None \<longleftrightarrow> has_tx_pending s"
  using idle busy by fastforce

lemma dequeue_None: "dequeue_tx n s = (None, s') \<Longrightarrow> s' = s"
  using nothing_lost [of n s] by simp

lemma dequeue_pending: "dequeue_tx n s = (Some v, s') \<Longrightarrow> has_tx_pending s"
  using idle [of s n] by auto

end

section \<open>Payload sessions\<close>

record payload_session =
  ps_queue_tx :: "u8 list list"

definition payload_session_new :: payload_session where
  "payload_session_new = \<lparr>ps_queue_tx = []\<rparr>"

definition payload_enqueue_tx :: "u8 list \<Rightarrow> payload_session \<Rightarrow> payload_session" where
  "payload_enqueue_tx p s = s\<lparr>ps_queue_tx := ps_queue_tx s @ [p]\<rparr>"

definition payload_dequeue_tx :: "usize \<Rightarrow> payload_session \<Rightarrow> u8 list option \<times> payload_session" where
  "payload_dequeue_tx max_payload_len s =
     (case ps_queue_tx s of
        [] \<Rightarrow> (None, s)
      | p # q \<Rightarrow> (Some p, s\<lparr>ps_queue_tx := q\<rparr>))"

definition payload_has_tx_pending :: "payload_session \<Rightarrow> bool" where
  "payload_has_tx_pending s \<longleftrightarrow> ps_queue_tx s \<noteq> []"

interpretation payload_link: link_session payload_dequeue_tx payload_has_tx_pending 0
  by unfold_locales (auto simp: payload_dequeue_tx_def payload_has_tx_pending_def split: list.splits)

section \<open>File sessions\<close>

record file_session =
  fs_tx :: file_transmitter
  fs_rx :: file_receiver
  fs_server :: bool
  fs_queue_tx :: "file_payload list"
  fs_local_events :: "(u8 \<times> file_transfer_event) list"

definition file_session_new :: "bool \<Rightarrow> file_session" where
  "file_session_new server =
     \<lparr>fs_tx = transmitter_new server, fs_rx = receiver_new server, fs_server = server,
      fs_queue_tx = [], fs_local_events = []\<rparr>"

definition reserve_file_tx :: "file_session \<Rightarrow> panic + (u8 option \<times> file_session)" where
  "reserve_file_tx s =
     sum_bind (transmitter_reserve (fs_tx s)) (\<lambda>(i, tx). Inr (i, s\<lparr>fs_tx := tx\<rparr>))"

definition cancel_file_tx :: "u8 \<Rightarrow> file_session \<Rightarrow> panic + file_session" where
  "cancel_file_tx i s =
     sum_bind (transmitter_cancel_reserved i (fs_tx s)) (\<lambda>tx. Inr (s\<lparr>fs_tx := tx\<rparr>))"

definition send_file ::
  "u8 \<Rightarrow> u16 \<Rightarrow> u8 list \<Rightarrow> outgoing_source \<Rightarrow> file_session \<Rightarrow> panic + file_session" where
  "send_file i file_type setup_data source s =
     sum_bind (transmitter_setup i file_type setup_data source (fs_tx s)) (\<lambda>(ret, tx).
     sum_bind (expect ''duplicate send_file'' ret) (\<lambda>(_, setup).
       Inr (s\<lparr>fs_tx := tx, fs_queue_tx := fs_queue_tx s @ [setup]\<rparr>)))"

definition dequeue_local_event ::
  "file_session \<Rightarrow> (u8 \<times> file_transfer_event) option \<times> file_session" where
  "dequeue_local_event s =
     (case fs_local_events s of
        [] \<Rightarrow> (None, s)
      | e # es \<Rightarrow> (Some e, s\<lparr>fs_local_events := es\<rparr>))"

text \<open>The two halves of \<open>enqueue_rx\<close> end alike: queue the answer, queue the local event.\<close>

definition push_results ::
  "u8 \<Rightarrow> file_payload option \<Rightarrow> file_transfer_event option \<Rightarrow> file_session \<Rightarrow> file_session" where
  "push_results file_id resp loc s =
     s\<lparr>fs_queue_tx := fs_queue_tx s @ (case resp of None \<Rightarrow> [] | Some p \<Rightarrow> [p]),
       fs_local_events := fs_local_events s @ (case loc of None \<Rightarrow> [] | Some e \<Rightarrow> [(file_id, e)])\<rparr>"

definition file_enqueue_rx :: "packet \<Rightarrow> file_session \<Rightarrow> panic + file_session" where
  "file_enqueue_rx packet s =
     (case file_from_packet packet of
        None \<Rightarrow> Inr s
      | Some f \<Rightarrow>
          let file_id = fp_file_id f in
          sum_bind (receiver_feed (fs_rx s) f) (\<lambda>((resp, loc), rx).
          let s = push_results file_id resp loc (s\<lparr>fs_rx := rx\<rparr>) in
          sum_bind (transmitter_feed (fs_tx s) f) (\<lambda>((resp, loc), tx).
            Inr (push_results file_id resp loc (s\<lparr>fs_tx := tx\<rparr>)))))"

definition file_dequeue_tx :: "usize \<Rightarrow> file_session \<Rightarrow> u8 list option \<times> file_session" where
  "file_dequeue_tx max_payload_len s =
     (case fs_queue_tx s of
        i # q \<Rightarrow> (Some (file_to_bytes i), s\<lparr>fs_queue_tx := q\<rparr>)
      | [] \<Rightarrow>
          let chunk_size = max_payload_len - FILE_HEADER_OVERHEAD in
          if chunk_size = 0 then (None, s)
          else
            (case transmitter_poll chunk_size (fs_tx s) of
               (Some p, tx) \<Rightarrow> (Some (file_to_bytes p), s\<lparr>fs_tx := tx\<rparr>)
             | (None, tx) \<Rightarrow> (None, s\<lparr>fs_tx := tx\<rparr>)))"

definition file_has_tx_pending :: "file_session \<Rightarrow> bool" where
  "file_has_tx_pending s \<longleftrightarrow> fs_queue_tx s \<noteq> [] \<or> transmitter_wants_tx (fs_tx s)"

lemma transmitter_poll_nothing:
  "\<not> transmitter_wants_tx tx \<Longrightarrow> transmitter_poll c tx = (None, tx)"
  by (simp add: transmitter_poll_def transmitter_wants_tx_def poll_slots_unchanged)

lemma transmitter_poll_sends: "fst (transmitter_poll c tx) = None \<longleftrightarrow> \<not> transmitter_wants_tx tx"
  using poll_slots_None [of c "tx_outgoing tx"]
  by (simp add: transmitter_poll_def transmitter_wants_tx_def case_prod_beta)

text \<open>A packet needs room for the two header bytes and a byte of data.\<close>

interpretation file_link: link_session file_dequeue_tx file_has_tx_pending 3
proof unfold_locales
  fix s :: file_session and n :: usize
  show "\<not> file_has_tx_pending s \<Longrightarrow> file_dequeue_tx n s = (None, s)"
    by (simp add: file_has_tx_pending_def file_dequeue_tx_def transmitter_poll_nothing Let_def)
  show "fst (file_dequeue_tx n s) \<noteq> None" if "file_has_tx_pending s" "3 \<le> n"
    using that transmitter_poll_sends [of "n - FILE_HEADER_OVERHEAD" "fs_tx s"]
    by (auto simp: file_has_tx_pending_def file_dequeue_tx_def FILE_HEADER_OVERHEAD_def Let_def
        split: list.split prod.split option.split)
  show "snd (file_dequeue_tx n s) = s" if "fst (file_dequeue_tx n s) = None"
  proof (cases "transmitter_wants_tx (fs_tx s)")
    case False
    then show ?thesis
      using that by (auto simp: file_dequeue_tx_def Let_def transmitter_poll_nothing split: list.splits)
  next
    case True
    then show ?thesis
      using that transmitter_poll_sends [of "n - FILE_HEADER_OVERHEAD" "fs_tx s"]
      by (auto simp: file_dequeue_tx_def Let_def split: list.splits prod.splits option.splits if_splits)
  qed
qed

section \<open>A file from end to end\<close>

lemma range_duality: "tx_valid_range server i \<longleftrightarrow> rx_valid_range (\<not> server) i"
  by (simp add: tx_valid_range_def rx_valid_range_def)

lemma range_disjoint: "\<not> (tx_valid_range server i \<and> rx_valid_range server i)"
proof -
  have "(127 :: u8) < 128" by simp
  then show ?thesis
    by (auto simp: tx_valid_range_def rx_valid_range_def dest: order.strict_trans1)
qed

text \<open>Data pieces at a receiver that is in the middle of a transfer.\<close>

lemma receiver_feed_data:
  assumes wf: "receiver_wf rx" and i: "rx_valid_range (rx_server rx) (fp_file_id p)"
    and slot: "rx_incoming rx ! unat (fp_file_id p) = Some st"
    and ev: "event_of_payload p = Some (Ev_Data d final)"
  shows "\<exists>st'. receiver_feed rx p = Inr
     ((if final then Some \<lparr>fp_file_id = fp_file_id p, fp_op = Op_Success, fp_payload = []\<rparr> else None,
       Some (Ev_Data d final)),
      rx\<lparr>rx_incoming := (rx_incoming rx)[unat (fp_file_id p) := if final then None else Some st']\<rparr>)"
  by (cases final; intro exI; rule receiver_feed_in_range [OF wf i ev])
     (simp_all add: receiver_step_def slot)

lemma receiver_run_pieces:
  assumes "receiver_wf rx" and "rx_valid_range (rx_server rx) i"
    and "rx_incoming rx ! unat i = Some st" and "ds \<noteq> []"
  shows "receiver_run rx (label_pieces first i ds) = Inr
     (([\<lparr>fp_file_id = i, fp_op = Op_Success, fp_payload = []\<rparr>],
       map (\<lambda>d. Ev_Data d False) (butlast ds) @ [Ev_Data (last ds) True]),
      rx\<lparr>rx_incoming := (rx_incoming rx)[unat i := None]\<rparr>)"
  using assms
proof (induction first i ds arbitrary: rx st rule: label_pieces.induct)
  case (1 first i)
  then show ?case by simp
next
  case (2 first i d)
  let ?p = "\<lparr>fp_file_id = i, fp_op = (if first then Op_FirstAndOnlyData else Op_LastData), fp_payload = d\<rparr>"
  have "event_of_payload ?p = Some (Ev_Data d True)" by (simp add: event_of_payload_def)
  then show ?case
    using receiver_feed_data [of rx ?p st d True] "2.prems" by auto
next
  case (3 first i d e ds)
  let ?p = "\<lparr>fp_file_id = i, fp_op = (if first then Op_FirstData else Op_Data), fp_payload = d\<rparr>"
  have lt: "unat i < 255" by (rule rx_valid_range_lt [OF "3.prems"(2)])
  have "event_of_payload ?p = Some (Ev_Data d False)" by (simp add: event_of_payload_def)
  then obtain st' where feed: "receiver_feed rx ?p = Inr ((None, Some (Ev_Data d False)),
      rx\<lparr>rx_incoming := (rx_incoming rx)[unat i := Some st']\<rparr>)"
    using receiver_feed_data [of rx ?p st d False] "3.prems" by auto
  have "receiver_run (rx\<lparr>rx_incoming := (rx_incoming rx)[unat i := Some st']\<rparr>) (label_pieces False i (e # ds)) =
      Inr (([\<lparr>fp_file_id = i, fp_op = Op_Success, fp_payload = []\<rparr>],
        map (\<lambda>d. Ev_Data d False) (butlast (e # ds)) @ [Ev_Data (last (e # ds)) True]),
       rx\<lparr>rx_incoming := (rx_incoming rx)[unat i := None]\<rparr>)"
    using "3.IH" [of "rx\<lparr>rx_incoming := (rx_incoming rx)[unat i := Some st']\<rparr>" st'] "3.prems" lt
    by (simp add: receiver_wf_def)
  then show ?case using feed by simp
qed

text \<open>The bytes a list of events delivers.\<close>

fun event_data :: "file_transfer_event \<Rightarrow> u8 list" where
  "event_data (Ev_Data d _) = d"
| "event_data _ = []"

lemma event_data_pieces:
  "ds \<noteq> [] \<Longrightarrow> concat (map event_data (map (\<lambda>d. Ev_Data d False) (butlast ds) @ [Ev_Data (last ds) True])) = concat ds"
proof -
  assume "ds \<noteq> []"
  then have "concat ds = concat (butlast ds) @ last ds"
    by (metis append_butlast_last_id concat.simps concat_append append_Nil2)
  then show ?thesis by (simp add: comp_def)
qed

text \<open>
  Claim C4: a file arrives as it was sent. With the two sides in opposite roles, the receiver of
  a setup announces the file with its size, type and setup data and answers with a start; the
  sender, started by it, yields data pieces that the receiver delivers in order, their
  concatenation being the file, and confirms with one success, after which the receiver is as
  it was before the transfer and the sender's slot can be reclaimed.
\<close>

theorem file_transfer_end_to_end:
  assumes "receiver_wf rx" and "tx_valid_range (\<not> rx_server rx) i"
    and "rx_incoming rx ! unat i = None" and "length v < 2 ^ 64" and "0 < c"
    and f0: "f0 = outgoing_new i ty setup_data (VecData v)"
  shows "\<exists>setup f1 pieces f3 datas.
    out_setup f0 = (Some setup, f1)
    \<and> out_poll_all c (out_feed_event Ev_Start f1) = (pieces, f3)
    \<and> receiver_run rx (setup # pieces) = Inr
        (([\<lparr>fp_file_id = i, fp_op = Op_Start, fp_payload = []\<rparr>,
           \<lparr>fp_file_id = i, fp_op = Op_Success, fp_payload = []\<rparr>],
          Ev_Setup (of_nat (length v)) ty setup_data # datas), rx)
    \<and> concat (map event_data datas) = v
    \<and> out_should_reclaim (out_feed_event Ev_Success f3)"
proof -
  let ?dg = "\<lparr>fp_file_id = i, fp_op = Op_Setup,
    fp_payload = be64_bytes (of_nat (length v)) @ be16_bytes ty @ setup_data\<rparr>"
  let ?f1 = "f0\<lparr>fo_state := Out_Pause\<rparr>"
  let ?f2 = "out_feed_event Ev_Start ?f1"
  let ?ds = "file_pieces c v"
  let ?datas = "map (\<lambda>d. Ev_Data d False) (butlast ?ds) @ [Ev_Data (last ?ds) True]"
  have range: "rx_valid_range (rx_server rx) i" using assms(2) by (simp add: range_duality)
  have lt: "unat i < 255" by (rule rx_valid_range_lt [OF range])
  have setup_eq: "out_setup f0 = (Some ?dg, ?f1)"
    by (simp add: f0 out_setup_def outgoing_new_def Let_def)
  have f2: "fo_state ?f2 = Out_Sending" "out_wf ?f2" "fo_progress ?f2 = 0" "fo_file_id ?f2 = i" "out_rest ?f2 = v"
    using assms(4)
    by (simp_all add: f0 out_feed_event_def out_wf_def out_rest_def outgoing_new_def Let_def unat_of_nat)
  obtain f3 where poll: "out_poll_all c ?f2 = (label_pieces True i ?ds, f3)"
    using out_poll_all_eq [OF f2(1,2) assms(5)] f2(3,4,5) by simp
  let ?st = "\<lparr>is_file_id = i, is_total = unat (of_nat (length v) :: u64), is_progress = 0, is_state = In_Sending\<rparr>"
  let ?rx1 = "rx\<lparr>rx_incoming := (rx_incoming rx)[unat i := Some ?st]\<rparr>"
  have feed: "receiver_feed rx ?dg = Inr ((Some \<lparr>fp_file_id = i, fp_op = Op_Start, fp_payload = []\<rparr>,
      Some (Ev_Setup (of_nat (length v)) ty setup_data)), ?rx1)"
    using receiver_feed_in_range [of rx ?dg "Ev_Setup (of_nat (length v)) ty setup_data"]
      assms(1,3) range by (simp add: event_of_setup receiver_step_def)
  have same: "(rx_incoming rx)[unat i := None] = rx_incoming rx"
    using assms(3) by (metis list_update_id)
  have "receiver_run ?rx1 (label_pieces True i ?ds) = Inr
      (([\<lparr>fp_file_id = i, fp_op = Op_Success, fp_payload = []\<rparr>], ?datas), rx)"
    using receiver_run_pieces [of ?rx1 i ?st ?ds True] assms(1,5) range lt same
    by (simp add: receiver_wf_def)
  then have "receiver_run rx (?dg # label_pieces True i ?ds) = Inr
      (([\<lparr>fp_file_id = i, fp_op = Op_Start, fp_payload = []\<rparr>,
         \<lparr>fp_file_id = i, fp_op = Op_Success, fp_payload = []\<rparr>],
        Ev_Setup (of_nat (length v)) ty setup_data # ?datas), rx)"
    using feed by simp
  moreover have "concat (map event_data ?datas) = v"
    using event_data_pieces [OF file_pieces_ne [OF assms(5)], of v]
    unfolding concat_file_pieces [OF assms(5)] .
  moreover have "out_should_reclaim (out_feed_event Ev_Success f3)"
    by (simp add: out_should_reclaim_def out_feed_event_def)
  ultimately show ?thesis using setup_eq poll by blast
qed

theorem file_transfer_end_to_end_witness:
  "\<exists>setup pieces datas answers. receiver_run (receiver_new False) (setup # pieces) =
       Inr ((answers, Ev_Setup 3 0 [] # datas), receiver_new False)
     \<and> concat (map event_data datas) = [1, 2, 3]"
proof -
  have slot: "rx_incoming (receiver_new False) ! unat (128 :: u8) = None"
    "tx_valid_range (\<not> rx_server (receiver_new False)) 128"
    by (simp_all add: receiver_new_def tx_valid_range_def)
  have len: "length [1, 2, 3 :: u8] < 2 ^ 64" "0 < (2 :: nat)" by simp_all
  from file_transfer_end_to_end [OF receiver_new_wf slot(2,1) len refl, of 0 "[]"]
  show ?thesis by (simp del: receiver_run.simps) blast
qed

definition file_session_wf :: "file_session \<Rightarrow> bool" where
  "file_session_wf s \<longleftrightarrow> receiver_wf (fs_rx s) \<and> tx_wf (fs_tx s)
     \<and> rx_server (fs_rx s) = fs_server s \<and> tx_server (fs_tx s) = fs_server s"

lemma file_enqueue_rx_ok:
  assumes "file_session_wf s"
  shows "(case file_enqueue_rx p s of
      Inl _ \<Rightarrow> \<exists>f. file_from_packet p = Some f \<and> fp_file_id f = 255
    | Inr s' \<Rightarrow> file_session_wf s' \<and> length (fs_queue_tx s') \<le> length (fs_queue_tx s) + 1
        \<and> length (fs_local_events s') \<le> length (fs_local_events s) + 1)"
proof (cases "file_from_packet p")
  case None
  then show ?thesis using assms by (simp add: file_enqueue_rx_def)
next
  case (Some f)
  have wf: "receiver_wf (fs_rx s)" "tx_wf (fs_tx s)" "rx_server (fs_rx s) = fs_server s"
    "tx_server (fs_tx s) = fs_server s"
    using assms by (simp_all add: file_session_wf_def)
  obtain resp loc rx where rx: "receiver_feed (fs_rx s) f = Inr ((resp, loc), rx)" "receiver_wf rx"
    "rx_server rx = rx_server (fs_rx s)"
    by (rule receiver_feed_ok [OF wf(1), of f]) (metis surj_pair)
  show ?thesis
  proof (cases "fp_file_id f = 255")
    case True
    then show ?thesis
      using Some rx transmitter_feed_255 [OF wf(2) True] by (simp add: file_enqueue_rx_def Let_def push_results_def)
  next
    case False
    obtain resp' loc' tx where tx: "transmitter_feed (fs_tx s) f = Inr ((resp', loc'), tx)" "tx_wf tx"
      "tx_server tx = tx_server (fs_tx s)"
      by (rule transmitter_feed_ok [OF wf(2) False]) (metis surj_pair)
    have "(resp = None \<and> loc = None) \<or> (resp' = None \<and> loc' = None)"
    proof (cases "rx_valid_range (fs_server s) (fp_file_id f)")
      case True
      then have "\<not> tx_valid_range (fs_server s) (fp_file_id f)" using range_disjoint by blast
      then show ?thesis
        using tx(1) wf(4) by (auto simp: transmitter_feed_def split: option.splits)
    next
      case False
      then show ?thesis
        using rx(1) wf(3) by (auto simp: receiver_feed_def Let_def split: option.splits)
    qed
    then show ?thesis
      using Some rx tx wf
      by (auto simp: file_enqueue_rx_def Let_def push_results_def file_session_wf_def
          split: option.split)
  qed
qed

lemma file_dequeue_tx_wf:
  assumes "file_session_wf s"
  shows "file_session_wf (snd (file_dequeue_tx n s))"
  using assms transmitter_poll_ok [of "fs_tx s" "n - FILE_HEADER_OVERHEAD"]
  by (auto simp: file_dequeue_tx_def file_session_wf_def Let_def split: list.split prod.split option.split)

text \<open>
  receiving a packet in a file session never panics, except for a readable file
  transfer datagram with identifier 255; otherwise the session stays consistent, and a datagram
  is answered by at most one of its two sides.
\<close>

lemma file_session_receive:
  assumes "file_session_wf s"
  shows "(case file_enqueue_rx p s of
      Inl _ \<Rightarrow> \<exists>f. file_from_packet p = Some f \<and> fp_file_id f = 255
    | Inr s' \<Rightarrow> file_session_wf s' \<and> length (fs_queue_tx s') \<le> length (fs_queue_tx s) + 1
        \<and> length (fs_local_events s') \<le> length (fs_local_events s) + 1)"
  using file_enqueue_rx_ok [OF assms, of p] .

lemma file_session_new_wf [simp]: "file_session_wf (file_session_new server)"
  by (simp add: file_session_wf_def file_session_new_def)
     (simp add: receiver_new_def transmitter_new_def)

lemma file_session_receive_witness:
  "case file_enqueue_rx \<lparr>p_header = \<lparr>h_length = 12, h_control = CTL_ACK, h_seq = 1, h_ack = 1, h_session_id = 2\<rparr>,
        p_payload = Some [255, 2]\<rparr> (file_session_new True) of
      Inl _ \<Rightarrow> True
    | Inr s' \<Rightarrow> file_session_wf s'"
  using file_session_receive [OF file_session_new_wf, of
      "\<lparr>p_header = \<lparr>h_length = 12, h_control = CTL_ACK, h_seq = 1, h_ack = 1, h_session_id = 2\<rparr>,
        p_payload = Some [255, 2]\<rparr>" True]
  by (auto split: sum.splits)

end
