(* ===== verification/Link_State.thy ===== *)
theory Link_State
  imports Packet_Coder Negotiation File_Session
begin

text \<open>
  \<open>core/catplay_iap2_link/src/link_layer.rs\<close>, first part: statuses, errors and events, the
  state of a link and the helpers that both directions use. The callback of the code becomes a
  log of events, in the order of the calls; the injected clock is the instant \<open>ll_now\<close>, which
  the environment advances between operations. Instants and durations count nanoseconds.
\<close>

section \<open>Statuses, errors, events\<close>

datatype link_error =
    Err_Reset
  | RetransmissionsExceeded
  | LinkNegotiationRoundsExceeded
  | Eof
  | RecvMaxLenViolation usize usize
  | TransmitMaxLenViolation usize usize
  | RemoteAttemptedUpgrade
  | AttemptedUpgrade
  | RemoteAttemptedDowngrade
  | AttemptedDowngrade

datatype link_status =
    Detecting
  | Negotiating
  | Writable
  | Unwritable
  | Recovery
  | Downgrade
  | Error link_error

datatype link_event =
    ReadCsm "u8 list"
  | ReadLegacy "u8 list"
  | Write packet_or_detect
  | Status link_status
  | FileTransferEvent u8 file_transfer_event

section \<open>State\<close>

record pending_ack =
  unacked_packets :: usize
  ack_deadline :: "nat option"
  out_of_order_ids :: "u8 list"
  needs_detect_acknowledge :: bool
  force_ack :: bool

text \<open>\<open>PendingAck::default\<close>, which \<open>reset\<close> also assigns.\<close>

definition pending_ack_default :: pending_ack where
  "pending_ack_default =
     \<lparr>unacked_packets = 0, ack_deadline = None, out_of_order_ids = [],
      needs_detect_acknowledge = False, force_ack = False\<rparr>"

definition add_out_of_order_seq :: "u8 \<Rightarrow> pending_ack \<Rightarrow> pending_ack" where
  "add_out_of_order_seq seq p =
     (if seq \<in> set (out_of_order_ids p) then p
      else p\<lparr>out_of_order_ids := out_of_order_ids p @ [seq]\<rparr>)"

record eak_state =
  missing_psns :: "u8 list"

definition eak_is_active :: "eak_state \<Rightarrow> bool" where
  "eak_is_active e \<longleftrightarrow> missing_psns e \<noteq> []"

definition eak_begin_recovery :: "u8 list \<Rightarrow> eak_state \<Rightarrow> eak_state" where
  "eak_begin_recovery missing e = e\<lparr>missing_psns := missing\<rparr>"

definition eak_clear :: "eak_state \<Rightarrow> eak_state" where
  "eak_clear e = e\<lparr>missing_psns := []\<rparr>"

definition next_missing_psn :: "eak_state \<Rightarrow> u8 option" where
  "next_missing_psn e = (case missing_psns e of [] \<Rightarrow> None | s # _ \<Rightarrow> Some s)"

record retransmit_entry =
  re_packet :: packet
  re_sent_at :: nat
  re_retry_count :: u8
  re_timeout_deadline :: nat

record link_layer =
  ll_server :: bool
  ll_status :: link_status
  ll_events :: "link_event list"
  ll_lsp_negotiator :: lsp_negotiator
  ll_negotiation :: negotiation
  ll_local_lsp :: lsp_payload
  ll_peer_lsp :: lsp_payload
  ll_peer_seq :: "u8 option"
  ll_own_seq :: u8
  ll_peer_ack :: "u8 option"
  ll_now :: nat
  ll_out_of_order :: "(u8, packet) btree_map"
  ll_retransmit_map :: "(u8, retransmit_entry) btree_map"
  ll_eak :: eak_state
  ll_syn_ack_received :: bool
  ll_syn_transmitted :: "nat option"
  ll_detect_last_transmit :: "nat option"
  ll_files :: file_session
  ll_csm :: payload_session
  ll_ea :: payload_session
  ll_lingo :: payload_session
  ll_pending_ack :: pending_ack

definition from_millis :: "nat \<Rightarrow> nat" where
  "from_millis n = n * 1000000"

definition DETECT_RETRANSMIT :: nat where
  "DETECT_RETRANSMIT = from_millis 200"

section \<open>Status changes\<close>

definition send_event :: "link_event \<Rightarrow> link_layer \<Rightarrow> link_layer" where
  "send_event ev l = l\<lparr>ll_events := ll_events l @ [ev]\<rparr>"

definition change_state :: "link_status \<Rightarrow> link_layer \<Rightarrow> link_layer" where
  "change_state state l = l\<lparr>ll_status := state, ll_events := ll_events l @ [Status state]\<rparr>"

definition enter_error_state :: "link_error \<Rightarrow> link_layer \<Rightarrow> link_layer" where
  "enter_error_state e = change_state (Error e)"

definition is_downgrade :: "link_layer \<Rightarrow> bool" where
  "is_downgrade l \<longleftrightarrow> ll_status l = Downgrade"

definition is_error :: "link_layer \<Rightarrow> bool" where
  "is_error l = (case ll_status l of Error _ \<Rightarrow> True | _ \<Rightarrow> False)"

text \<open>The three statuses of an established link.\<close>

definition data_status :: "link_status \<Rightarrow> bool" where
  "data_status s \<longleftrightarrow> s = Recovery \<or> s = Writable \<or> s = Unwritable"

definition is_window_writable :: "link_layer \<Rightarrow> bool" where
  "is_window_writable l =
     (case ll_peer_ack l of
        None \<Rightarrow> True
      | Some peer_ack \<Rightarrow> modseq_sub (ll_own_seq l) peer_ack \<le> max_outgoing (ll_peer_lsp l))"

definition refresh_data_status :: "link_layer \<Rightarrow> link_layer" where
  "refresh_data_status l =
     (if \<not> data_status (ll_status l) then l
      else
        let nxt = (if eak_is_active (ll_eak l) then Recovery
                   else if is_window_writable l then Writable
                   else Unwritable)
        in if ll_status l \<noteq> nxt then change_state nxt l else l)"

definition take_own_seq :: "link_layer \<Rightarrow> u8 \<times> link_layer" where
  "take_own_seq l = (ll_own_seq l, l\<lparr>ll_own_seq := modseq_add (ll_own_seq l) 1\<rparr>)"

definition find_session_of_type :: "session_type \<Rightarrow> link_layer \<Rightarrow> u8 option" where
  "find_session_of_type t l = map_option ls_id (find (\<lambda>s. ls_type s = t) (sessions (ll_local_lsp l)))"

definition counter_offer :: "lsp_payload \<Rightarrow> u32 \<Rightarrow> link_layer \<Rightarrow> lsp_payload option" where
  "counter_offer offer negotiation_counter l =
     (let has_control = list_ex (\<lambda>f. ls_type f = Control) (sessions offer) in
      if has_control then neg_counter (ll_lsp_negotiator l) offer negotiation_counter
      else Some (neg_start (ll_lsp_negotiator l)))"

text \<open>The \<open>while let\<close> loop that forwards the events of the file session.\<close>

function drain_events :: "link_layer \<Rightarrow> link_layer" where
  "drain_events l =
     (case dequeue_local_event (ll_files l) of
        (Some ev, files) \<Rightarrow>
          drain_events (send_event (FileTransferEvent (fst ev) (snd ev)) (l\<lparr>ll_files := files\<rparr>))
      | (None, files) \<Rightarrow> l)"
  by pat_completeness auto
termination
  by (relation "measure (\<lambda>l. length (fs_local_events (ll_files l)))")
     (auto simp: dequeue_local_event_def send_event_def split: list.splits)

declare drain_events.simps [simp del]

section \<open>Calls from outside\<close>

text \<open>
  \<open>files\<close>, \<open>ea\<close>, \<open>csm\<close> and \<open>lingo\<close> hand out the sessions; what the owner of the link does
  with them is queueing payloads. \<open>close\<close> and \<open>downgrade\<close> change the status.
\<close>

definition link_csm_enqueue :: "u8 list \<Rightarrow> link_layer \<Rightarrow> link_layer" where
  "link_csm_enqueue p l = l\<lparr>ll_csm := payload_enqueue_tx p (ll_csm l)\<rparr>"

definition link_ea_enqueue :: "u8 list \<Rightarrow> link_layer \<Rightarrow> link_layer" where
  "link_ea_enqueue p l = l\<lparr>ll_ea := payload_enqueue_tx p (ll_ea l)\<rparr>"

definition link_lingo_enqueue :: "u8 list \<Rightarrow> link_layer \<Rightarrow> link_layer" where
  "link_lingo_enqueue p l = l\<lparr>ll_lingo := payload_enqueue_tx p (ll_lingo l)\<rparr>"

definition link_close :: "link_layer \<Rightarrow> link_layer" where
  "link_close l = (if ll_status l \<noteq> Error Eof then enter_error_state Eof l else l)"

definition link_downgrade :: "link_layer \<Rightarrow> (link_error + unit) \<times> link_layer" where
  "link_downgrade l =
     (case ll_status l of
        Error _ \<Rightarrow> (Inl Eof, l)
      | s \<Rightarrow>
          if s \<noteq> Detecting \<and> s \<noteq> Downgrade then (Inl AttemptedDowngrade, l)
          else if ll_detect_last_transmit l \<noteq> None then (Inl AttemptedDowngrade, l)
          else (Inr (), change_state Downgrade l))"

section \<open>Lemmas\<close>

lemma drain_events_eq:
  "drain_events l = l\<lparr>ll_events := ll_events l @ map (\<lambda>e. FileTransferEvent (fst e) (snd e)) (fs_local_events (ll_files l)),
     ll_files := (ll_files l)\<lparr>fs_local_events := []\<rparr>\<rparr>"
proof (induction "fs_local_events (ll_files l)" arbitrary: l)
  case Nil
  then show ?case by (simp add: drain_events.simps [of l] dequeue_local_event_def)
next
  case (Cons e es)
  then have "fs_local_events (ll_files l) = e # es" by simp
  then show ?case
    using Cons.hyps(1) [of "send_event (FileTransferEvent (fst e) (snd e)) (l\<lparr>ll_files := (ll_files l)\<lparr>fs_local_events := es\<rparr>\<rparr>)"]
    by (simp add: drain_events.simps [of l] dequeue_local_event_def send_event_def)
qed

lemmas status_defs = send_event_def change_state_def enter_error_state_def

lemma is_error_iff: "is_error l \<longleftrightarrow> (\<exists>e. ll_status l = Error e)"
  by (simp add: is_error_def split: link_status.split)

lemma data_status_not_error: "data_status s \<Longrightarrow> s \<noteq> Error e \<and> s \<noteq> Downgrade \<and> s \<noteq> Detecting \<and> s \<noteq> Negotiating"
  by (auto simp: data_status_def)

end
