(* ===== verification/Link_Transmit.thy ===== *)
theory Link_Transmit
  imports Link_State
begin

text \<open>
  \<open>core/catplay_iap2_link/src/link_layer.rs\<close>, the transmitting side: choosing the next frame,
  retransmission, the window, \<open>reconcile\<close>, \<open>sleep\<close> and the constructor. An operation that
  can panic returns a sum; a method that returns an option returns it with the new state.
\<close>

section \<open>Retransmission\<close>

definition prepare_ackable :: "packet \<Rightarrow> link_layer \<Rightarrow> packet_or_detect option \<times> link_layer" where
  "prepare_ackable p l =
     (if \<not> is_ackable p then (Some (Packet p), l)
      else
        let now = ll_now l;
            timeout = now + from_millis (unat (retransmission_timeout (ll_local_lsp l)))
        in (Some (Packet p),
            l\<lparr>ll_retransmit_map := bt_insert (h_seq (p_header p))
               \<lparr>re_packet = p, re_sent_at = now, re_retry_count = 0, re_timeout_deadline = timeout\<rparr>
               (ll_retransmit_map l)\<rparr>))"

definition next_retransmit_seq :: "nat \<Rightarrow> link_layer \<Rightarrow> u8 option" where
  "next_retransmit_seq now l =
     (case next_missing_psn (ll_eak l) of
        Some seq \<Rightarrow> if bt_get seq (ll_retransmit_map l) \<noteq> None then Some seq else None
      | None \<Rightarrow>
          map_option fst
            (min_by_key (\<lambda>(_, entry). re_timeout_deadline entry)
              (filter (\<lambda>(_, entry). re_timeout_deadline entry \<le> now) (ll_retransmit_map l))))"

definition retransmit_one :: "u8 \<Rightarrow> link_layer \<Rightarrow> packet_or_detect option \<times> link_layer" where
  "retransmit_one seq l =
     (case bt_get seq (ll_retransmit_map l) of
        None \<Rightarrow> (None, l)
      | Some entry \<Rightarrow>
          if max_retransmissions (ll_local_lsp l) \<le> re_retry_count entry then
            (None, enter_error_state RetransmissionsExceeded l)
          else
            let resend = (\<lambda>packet.
              let entry = entry\<lparr>re_packet := packet,
                    re_retry_count := re_retry_count entry + 1,
                    re_timeout_deadline :=
                      ll_now l + from_millis (unat (retransmission_timeout (ll_local_lsp l)))\<rparr>
              in (Some (Packet packet),
                  l\<lparr>ll_retransmit_map := bt_insert seq entry (ll_retransmit_map l)\<rparr>))
            in
            (if \<not> is_syn (h_control (p_header (re_packet entry))) then
               (case ll_peer_seq l of
                  None \<Rightarrow> (None, l)
                | Some peer_seq \<Rightarrow>
                    resend ((re_packet entry)\<lparr>p_header := (p_header (re_packet entry))\<lparr>h_ack := peer_seq\<rparr>\<rparr>))
             else resend (re_packet entry)))"

section \<open>Negotiation\<close>

definition take_pending_negotiation_transmit ::
  "link_layer \<Rightarrow> panic + (packet_or_detect option \<times> link_layer)" where
  "take_pending_negotiation_transmit l =
     (case take_pending_tx (ll_negotiation l) of
        (None, n) \<Rightarrow> Inr (None, l\<lparr>ll_negotiation := n\<rparr>)
      | (Some tx, n) \<Rightarrow>
          let l = l\<lparr>ll_negotiation := n\<rparr> in
          (case ll_peer_seq l of
             None \<Rightarrow> Inr (None, l)
           | Some peer_seq \<Rightarrow>
               (case tx of
                  Tx_SynAck lsp \<Rightarrow>
                    let (seq, l) = take_own_seq l in
                    sum_bind (new_syn_ack seq peer_seq lsp) (\<lambda>packet.
                      let (nxt, l) = prepare_ackable packet l in
                      Inr (nxt, l\<lparr>ll_negotiation := transition_start (ll_negotiation l)\<rparr>))
                | Tx_FinalAck \<Rightarrow>
                    sum_bind (new_ack (modseq_sub (ll_own_seq l) 1) peer_seq SESSION_ID_CONTROL None)
                      (\<lambda>packet.
                        Inr (Some (Packet packet),
                          change_state Writable
                            (l\<lparr>ll_negotiation := transition_accepted (ll_negotiation l)\<rparr>))))))"

section \<open>The next frame\<close>

definition has_next_payload :: "link_layer \<Rightarrow> bool" where
  "has_next_payload l \<longleftrightarrow>
     payload_has_tx_pending (ll_csm l) \<or> file_has_tx_pending (ll_files l)
     \<or> payload_has_tx_pending (ll_ea l)"

definition next_payload :: "link_layer \<Rightarrow> (session_type \<times> u8 list) option \<times> link_layer" where
  "next_payload l =
     (let max_payload_len = unat (max_len (ll_peer_lsp l)) - PACKET_OVERHEAD in
      case payload_dequeue_tx max_payload_len (ll_csm l) of
        (Some v, csm) \<Rightarrow> (Some (Control, v), l\<lparr>ll_csm := csm\<rparr>)
      | (None, csm) \<Rightarrow>
          let l = l\<lparr>ll_csm := csm\<rparr> in
          (case file_dequeue_tx max_payload_len (ll_files l) of
             (Some v, files) \<Rightarrow> (Some (FileTransfer, v), l\<lparr>ll_files := files\<rparr>)
           | (None, files) \<Rightarrow>
               let l = l\<lparr>ll_files := files\<rparr> in
               (case payload_dequeue_tx max_payload_len (ll_ea l) of
                  (Some v, ea) \<Rightarrow> (Some (ExternalAccessory, v), l\<lparr>ll_ea := ea\<rparr>)
                | (None, ea) \<Rightarrow> (None, l\<lparr>ll_ea := ea\<rparr>))))"

text \<open>Step 1: DETECT of an accessory, repeated while no answer comes.\<close>

definition transmit_detecting :: "link_layer \<Rightarrow> packet_or_detect option \<times> link_layer" where
  "transmit_detecting l =
     (let should_send_detect =
        (case ll_detect_last_transmit l of
           None \<Rightarrow> True
         | Some last_detect \<Rightarrow> DETECT_RETRANSMIT < ll_now l - last_detect)
      in if should_send_detect then (Some Detect, l\<lparr>ll_detect_last_transmit := Some (ll_now l)\<rparr>)
         else (None, l))"

text \<open>Step 2: the pending negotiation answer, the first SYN, then retransmissions.\<close>

definition transmit_negotiating :: "link_layer \<Rightarrow> panic + (packet_or_detect option \<times> link_layer)" where
  "transmit_negotiating l =
     sum_bind (take_pending_negotiation_transmit l) (\<lambda>(nxt, l).
       if nxt \<noteq> None then Inr (nxt, l)
       else if \<not> ll_server l \<and> ll_syn_transmitted l = None then
         let (seq, l) = take_own_seq (l\<lparr>ll_syn_transmitted := Some (ll_now l)\<rparr>) in
         sum_bind (new_syn seq (neg_local_lsp (ll_negotiation l))) (\<lambda>syn.
           Inr (prepare_ackable syn l))
       else
         (case next_retransmit_seq (ll_now l) l of
            Some seq \<Rightarrow> Inr (retransmit_one seq l)
          | None \<Rightarrow> Inr (None, l)))"

text \<open>Step 5: a session payload in an ACK packet.\<close>

definition transmit_payload ::
  "session_type \<Rightarrow> u8 list \<Rightarrow> link_layer \<Rightarrow> panic + (packet_or_detect option \<times> link_layer)" where
  "transmit_payload t v l =
     (case ll_peer_seq l of
        None \<Rightarrow> Inr (None, l)
      | Some peer_seq \<Rightarrow>
          sum_bind (expect ''missing session but wants to transmit'' (find_session_of_type t l)) (\<lambda>session.
          let (seq, l) = take_own_seq l in
          sum_bind (new_ack seq peer_seq session (Some v)) (\<lambda>packet.
            if unat (max_len (ll_peer_lsp l)) < packet_size packet then
              Inr (None, enter_error_state
                (TransmitMaxLenViolation (packet_size packet) (unat (max_len (ll_peer_lsp l)))) l)
            else
              let (nxt, l) = prepare_ackable packet l in
              Inr (nxt, l\<lparr>ll_pending_ack := pending_ack_default\<rparr>))))"

text \<open>Step 6: an empty ACK.\<close>

definition ack_due :: "link_layer \<Rightarrow> bool" where
  "ack_due l =
     (let pa = ll_pending_ack l;
          deadline_elapsed = (case ack_deadline pa of None \<Rightarrow> False | Some d \<Rightarrow> d \<le> ll_now l);
          ack_budget_exceeded =
            (if max_ack (ll_local_lsp l) = 0 then 1 \<le> unacked_packets pa
             else unat (max_ack (ll_local_lsp l)) \<le> unacked_packets pa)
      in deadline_elapsed \<or> ack_budget_exceeded \<or> force_ack pa)"

definition transmit_ack :: "link_layer \<Rightarrow> panic + (packet_or_detect option \<times> link_layer)" where
  "transmit_ack l =
     (if ack_due l then
        (case ll_peer_seq l of
           None \<Rightarrow> Inr (None, l)
         | Some peer_seq \<Rightarrow>
             sum_bind (new_ack (modseq_sub (ll_own_seq l) 1) peer_seq SESSION_ID_CONTROL None) (\<lambda>packet.
               let (nxt, l) = prepare_ackable packet l in
               Inr (nxt, l\<lparr>ll_pending_ack := pending_ack_default\<rparr>)))
      else Inr (None, l))"

definition transmit_data :: "link_layer \<Rightarrow> panic + (packet_or_detect option \<times> link_layer)" where
  "transmit_data l =
     (let l = l\<lparr>ll_pending_ack := (ll_pending_ack l)\<lparr>out_of_order_ids := []\<rparr>\<rparr> in
      case next_retransmit_seq (ll_now l) l of
        Some seq \<Rightarrow> Inr (retransmit_one seq l)
      | None \<Rightarrow>
          if is_window_writable l \<and> ll_status l = Writable then
            (case next_payload l of
               (Some (t, v), l) \<Rightarrow> transmit_payload t v l
             | (None, l) \<Rightarrow> transmit_ack l)
          else transmit_ack l)"

definition next_transmit :: "link_layer \<Rightarrow> panic + (packet_or_detect option \<times> link_layer)" where
  "next_transmit l =
     (if is_error l then Inr (None, l)
      else
        (case payload_dequeue_tx (2 ^ 64 - 1) (ll_lingo l) of
           (Some lingo, s) \<Rightarrow>
             let l = l\<lparr>ll_lingo := s\<rparr> in
             if \<not> is_downgrade l then Inr (None, enter_error_state AttemptedDowngrade l)
             else Inr (Some (Legacy lingo), l)
         | (None, s) \<Rightarrow>
             let l = l\<lparr>ll_lingo := s\<rparr> in
             if is_downgrade l then
               (case next_payload l of
                  (Some _, l) \<Rightarrow> Inr (None, enter_error_state AttemptedUpgrade l)
                | (None, l) \<Rightarrow> Inr (None, l))
             else if ll_status l = Detecting \<and> ll_server l
                  \<and> needs_detect_acknowledge (ll_pending_ack l) then
               Inr (Some Detect,
                 l\<lparr>ll_pending_ack := (ll_pending_ack l)\<lparr>needs_detect_acknowledge := False\<rparr>\<rparr>)
             else if ll_status l = Detecting \<and> \<not> ll_server l then Inr (transmit_detecting l)
             else if ll_status l = Negotiating then transmit_negotiating l
             else if \<not> data_status (ll_status l) then Inr (None, l)
             else transmit_data l))"

section \<open>Reconcile, sleep, constructor\<close>

fun transmit_loop :: "nat \<Rightarrow> link_layer \<Rightarrow> panic + (bool \<times> link_layer)" where
  "transmit_loop 0 l = Inr (True, l)"
| "transmit_loop (Suc n) l =
     sum_bind (next_transmit l) (\<lambda>(r, l).
       case r of
         None \<Rightarrow> Inr (False, l)
       | Some p \<Rightarrow> transmit_loop n (refresh_data_status (send_event (Write p) l)))"

definition reconcile :: "nat \<Rightarrow> link_layer \<Rightarrow> panic + (bool \<times> link_layer)" where
  "reconcile tx_budget l = transmit_loop tx_budget (drain_events l)"

fun list_min :: "nat list \<Rightarrow> nat option" where
  "list_min [] = None"
| "list_min (x # xs) = (case list_min xs of None \<Rightarrow> Some x | Some y \<Rightarrow> Some (min x y))"

definition option_list :: "'a option list \<Rightarrow> 'a list" where
  "option_list xs = concat (map (\<lambda>x. case x of None \<Rightarrow> [] | Some v \<Rightarrow> [v]) xs)"

definition link_sleep :: "link_layer \<Rightarrow> nat option" where
  "link_sleep l =
     (if is_error l then None
      else if ll_status l = Detecting then
        (if ll_server l then None
         else map_option (\<lambda>last_detect. DETECT_RETRANSMIT - (ll_now l - last_detect))
                (ll_detect_last_transmit l))
      else
        let nearest_retransmit = list_min (map (\<lambda>e. re_timeout_deadline (snd e)) (ll_retransmit_map l));
            nearest_deadline = list_min (option_list [nearest_retransmit, ack_deadline (ll_pending_ack l)])
        in map_option (\<lambda>deadline. deadline - ll_now l) nearest_deadline)"

definition link_initial :: "bool \<Rightarrow> nat \<Rightarrow> lsp_negotiator \<Rightarrow> link_layer" where
  "link_initial server now negotiator =
     \<lparr>ll_server = server,
      ll_status = Detecting,
      ll_events = [],
      ll_lsp_negotiator = negotiator,
      ll_negotiation = negotiation_new (neg_start negotiator),
      ll_local_lsp = lsp_negotiating,
      ll_peer_lsp = lsp_negotiating,
      ll_peer_seq = None,
      ll_own_seq = (if server then 0x10 else 0x20),
      ll_peer_ack = None,
      ll_now = now,
      ll_out_of_order = [],
      ll_retransmit_map = [],
      ll_eak = \<lparr>missing_psns = []\<rparr>,
      ll_syn_ack_received = False,
      ll_syn_transmitted = None,
      ll_detect_last_transmit = None,
      ll_files = file_session_new server,
      ll_csm = payload_session_new,
      ll_ea = payload_session_new,
      ll_lingo = payload_session_new,
      ll_pending_ack = pending_ack_default\<rparr>"

definition link_new :: "bool \<Rightarrow> nat \<Rightarrow> lsp_negotiator \<Rightarrow> panic + link_layer" where
  "link_new server now negotiator =
     sum_bind (reconcile 0 (link_initial server now negotiator)) (\<lambda>(_, l). Inr l)"

definition link_with_clock :: "bool \<Rightarrow> nat \<Rightarrow> panic + link_layer" where
  "link_with_clock server now = link_new server now (simple_negotiator lsp_bluetooth)"

lemma link_new_eq [simp]: "link_new server now neg = Inr (link_initial server now neg)"
  by (simp add: link_new_def reconcile_def drain_events_eq link_initial_def file_session_new_def)

end
