(* ===== verification/Link_Receive.thy ===== *)
theory Link_Receive
  imports Link_Transmit
begin

text \<open>
  \<open>core/catplay_iap2_link/src/link_layer.rs\<close>, the receiving side: negotiation in both roles,
  delivery of session payloads and \<open>read\<close>.
\<close>

section \<open>Negotiation\<close>

definition verify_neg_seq_ack :: "packet \<Rightarrow> link_layer \<Rightarrow> bool" where
  "verify_neg_seq_ack p l =
     (case ll_peer_seq l of
        None \<Rightarrow> False
      | Some peer_seq \<Rightarrow>
          h_seq (p_header p) = modseq_add peer_seq 1
          \<and> h_ack (p_header p) = modseq_sub (ll_own_seq l) 1)"

definition advance_peer_seq_from_ackable :: "packet \<Rightarrow> link_layer \<Rightarrow> link_layer" where
  "advance_peer_seq_from_ackable p l =
     (if \<not> is_ackable p then l else l\<lparr>ll_peer_seq := Some (h_seq (p_header p))\<rparr>)"

definition on_recv_neg_accessory :: "packet \<Rightarrow> link_layer \<Rightarrow> link_layer" where
  "on_recv_neg_accessory p l =
     (if \<not> is_syn_ack (h_control (p_header p))
         \<or> (ll_peer_seq l \<noteq> None \<and> \<not> verify_neg_seq_ack p l) then l
      else
        let l = advance_peer_seq_from_ackable p (l\<lparr>ll_syn_ack_received := True\<rparr>) in
        (case lsp_from_packet p of
           None \<Rightarrow> l
         | Some lsp \<Rightarrow>
             (case counter_offer lsp (neg_negotiation_counter (ll_negotiation l)) l of
                Some counter \<Rightarrow>
                  let (rounds, n) = neg_increment_counter (ll_negotiation l);
                      l = l\<lparr>ll_negotiation := n\<rparr>
                  in
                  if 10 \<le> rounds then enter_error_state LinkNegotiationRoundsExceeded l
                  else l\<lparr>ll_negotiation := transition_offering (neg_set_local_lsp counter n)\<rparr>
              | None \<Rightarrow>
                  let n = note_lsp_accepted_by_us lsp
                            (note_lsp_accepted_by_peer (neg_local_lsp (ll_negotiation l)) (ll_negotiation l))
                  in l\<lparr>ll_peer_lsp := lsp, ll_local_lsp := neg_local_lsp n,
                       ll_negotiation := transition_accepting n\<rparr>)))"

definition on_recv_neg_host :: "packet \<Rightarrow> link_layer \<Rightarrow> link_layer" where
  "on_recv_neg_host p l =
     (let ctl = h_control (p_header p) in
      if \<not> (is_syn ctl \<or> is_ack ctl \<or> is_syn_ack ctl) then l
      else
        let l = advance_peer_seq_from_ackable p l in
        if is_ack ctl then
          let n = note_lsp_accepted_by_peer (neg_local_lsp (ll_negotiation l)) (ll_negotiation l);
              loc = (case neg_peer_accepted_lsp n of Some x \<Rightarrow> x | None \<Rightarrow> neg_local_lsp n);
              peer = (case neg_accepted_peer_lsp n of Some x \<Rightarrow> x | None \<Rightarrow> loc)
          in change_state Writable
               (l\<lparr>ll_local_lsp := loc, ll_peer_lsp := peer, ll_negotiation := transition_accepted n\<rparr>)
        else
          (case lsp_from_packet p of
             None \<Rightarrow> l
           | Some lsp \<Rightarrow>
               (case counter_offer lsp (neg_negotiation_counter (ll_negotiation l)) l of
                  Some counter \<Rightarrow>
                    let (rounds, n) = neg_increment_counter (ll_negotiation l);
                        l = l\<lparr>ll_negotiation := n\<rparr>
                    in
                    if 10 \<le> rounds then enter_error_state LinkNegotiationRoundsExceeded l
                    else l\<lparr>ll_negotiation := transition_offering (neg_set_local_lsp counter n)\<rparr>
                | None \<Rightarrow>
                    let n = neg_set_local_lsp lsp (note_lsp_accepted_by_us lsp (ll_negotiation l))
                    in l\<lparr>ll_peer_lsp := lsp, ll_negotiation := transition_offering n\<rparr>)))"

definition on_recv_neg :: "packet \<Rightarrow> link_layer \<Rightarrow> link_layer" where
  "on_recv_neg p l =
     (if ll_status l \<noteq> Negotiating then l
      else if ll_server l then on_recv_neg_host p l
      else on_recv_neg_accessory p l)"

section \<open>Session payloads\<close>

text \<open>
  The \<open>return\<close>s in the control branch skip the final \<open>drain_events\<close>, which the other branches
  reach.
\<close>

definition process_ack_payload :: "packet \<Rightarrow> link_layer \<Rightarrow> panic + link_layer" where
  "process_ack_payload p l =
     (case find (\<lambda>s. ls_id s = h_session_id (p_header p)) (sessions (ll_peer_lsp l)) of
        None \<Rightarrow> Inr l
      | Some session \<Rightarrow>
          let pa = ll_pending_ack l;
              pa = (if unacked_packets pa = 0
                    then pa\<lparr>ack_deadline := Some (ll_now l + from_millis (unat (ack_timeout (ll_local_lsp l))))\<rparr>
                    else pa);
              l = l\<lparr>ll_pending_ack := pa\<lparr>unacked_packets := unacked_packets pa + 1\<rparr>\<rparr>
          in
          (case ls_type session of
             ExternalAccessory \<Rightarrow> Inr (drain_events l)
           | Control \<Rightarrow>
               (case p_payload p of
                  None \<Rightarrow> Inr l
                | Some payload \<Rightarrow>
                    if payload = [] then Inr l
                    else Inr (drain_events (send_event (ReadCsm payload) l)))
           | FileTransfer \<Rightarrow>
               sum_bind (file_enqueue_rx p (ll_files l)) (\<lambda>files.
                 Inr (drain_events (l\<lparr>ll_files := files\<rparr>)))))"

text \<open>The loop that processes buffered packets; every round takes one out of the map.\<close>

lemma length_bt_remove: "bt_get k m = Some v \<Longrightarrow> length (bt_remove k m) < length m"
  unfolding bt_get_def bt_remove_def
  by (rule length_filter_less [of "(k, v)"]) (auto dest: map_of_SomeD)

lemma process_ack_payload_out_of_order:
  "process_ack_payload p l = Inr l' \<Longrightarrow> ll_out_of_order l' = ll_out_of_order l"
  by (auto simp: process_ack_payload_def Let_def drain_events_eq send_event_def sum_bind_Inr_iff
      split: option.splits session_type.splits if_splits)

function drain_buffered :: "u8 \<Rightarrow> link_layer \<Rightarrow> panic + link_layer" where
  "drain_buffered next_seq l =
     (case bt_get next_seq (ll_out_of_order l) of
        None \<Rightarrow> Inr l
      | Some next_packet \<Rightarrow>
          sum_bind (process_ack_payload next_packet
                     (l\<lparr>ll_out_of_order := bt_remove next_seq (ll_out_of_order l)\<rparr>))
            (\<lambda>l. drain_buffered (modseq_add next_seq 1) (l\<lparr>ll_peer_seq := Some next_seq\<rparr>)))"
  by pat_completeness auto
termination
  by (relation "measure (\<lambda>(s, l). length (ll_out_of_order l))")
     (auto dest!: process_ack_payload_out_of_order simp: length_bt_remove)

declare drain_buffered.simps [simp del]

section \<open>Reading a packet\<close>

text \<open>A new acknowledgement: acknowledged packets need not be retransmitted any more.\<close>

definition recv_ack :: "packet \<Rightarrow> link_layer \<Rightarrow> link_layer" where
  "recv_ack p l =
     (let ack_seq = h_ack (p_header p) in
      if is_any_ack (h_control (p_header p))
         \<and> (case ll_peer_ack l of None \<Rightarrow> True | Some a \<Rightarrow> modseq_gt ack_seq a)
      then refresh_data_status
        (l\<lparr>ll_peer_ack := Some ack_seq,
           ll_eak := (if eak_is_active (ll_eak l) then eak_clear (ll_eak l) else ll_eak l),
           ll_retransmit_map := bt_retain (\<lambda>seq _. modseq_gt seq ack_seq) (ll_retransmit_map l)\<rparr>)
      else l)"

definition recv_eak :: "packet \<Rightarrow> link_layer \<Rightarrow> link_layer" where
  "recv_eak p l =
     (if is_eak (h_control (p_header p)) then
        (case (eak_from_packet p, ll_peer_ack l) of
           (Some payload, Some peer_ack) \<Rightarrow>
             refresh_data_status (l\<lparr>ll_eak := eak_begin_recovery (psns payload) (ll_eak l)\<rparr>)
         | _ \<Rightarrow> l)
      else l)"

definition recv_data :: "packet \<Rightarrow> u8 \<Rightarrow> link_layer \<Rightarrow> panic + link_layer" where
  "recv_data p peer_seq l =
     (let seq = h_seq (p_header p) in
      case modseq_cmp seq (modseq_add peer_seq 1) of
        Some Equal \<Rightarrow>
          sum_bind (process_ack_payload p l) (\<lambda>l.
            drain_buffered (modseq_add seq 1) (l\<lparr>ll_peer_seq := Some seq\<rparr>))
      | Some Greater \<Rightarrow>
          Inr (l\<lparr>ll_out_of_order := bt_insert seq p (ll_out_of_order l),
                 ll_pending_ack := add_out_of_order_seq seq (ll_pending_ack l)\<rparr>)
      | Some Less \<Rightarrow> Inr (l\<lparr>ll_pending_ack := (ll_pending_ack l)\<lparr>force_ack := True\<rparr>\<rparr>)
      | None \<Rightarrow> Inr l)"

definition read_packet :: "packet \<Rightarrow> link_layer \<Rightarrow> panic + link_layer" where
  "read_packet p l =
     (if is_downgrade l then Inr (enter_error_state RemoteAttemptedUpgrade l)
      else if unat (max_len (ll_local_lsp l)) < packet_size p then
        Inr (enter_error_state
          (RecvMaxLenViolation (packet_size p) (unat (max_len (ll_local_lsp l)))) l)
      else
        let l = (if ll_server l \<and> ll_status l = Detecting then change_state Negotiating l else l);
            ctl = h_control (p_header p)
        in
        if \<not> ll_server l \<and> is_rst ctl then Inr (enter_error_state Err_Reset l)
        else
          let l = recv_ack p l in
          if ll_status l = Negotiating then Inr (on_recv_neg p l)
          else if \<not> data_status (ll_status l) then Inr l
          else
            let l = recv_eak p l in
            (case ll_peer_seq l of
               None \<Rightarrow> Inr l
             | Some peer_seq \<Rightarrow>
                 if \<not> is_ack ctl \<or> p_payload p = None then Inr l
                 else recv_data p peer_seq l))"

definition read_legacy :: "u8 list \<Rightarrow> link_layer \<Rightarrow> link_layer" where
  "read_legacy b l =
     (let deliver = (\<lambda>l. if \<not> is_downgrade l then enter_error_state RemoteAttemptedDowngrade l
                         else send_event (ReadLegacy b) l)
      in
      if ll_server l \<and> \<not> is_downgrade l then
        (case link_downgrade l of
           (Inr _, l) \<Rightarrow> deliver l
         | (Inl _, l) \<Rightarrow> enter_error_state RemoteAttemptedDowngrade l)
      else deliver l)"

definition link_read :: "packet_or_detect \<Rightarrow> link_layer \<Rightarrow> panic + link_layer" where
  "link_read item l =
     (if is_error l then Inr l
      else
        (case item of
           Detect \<Rightarrow>
             if is_downgrade l then Inr (enter_error_state RemoteAttemptedUpgrade l)
             else if ll_server l then
               sum_bind (reconcile 0
                 (l\<lparr>ll_pending_ack := (ll_pending_ack l)\<lparr>needs_detect_acknowledge := True\<rparr>\<rparr>))
                 (\<lambda>(_, l). Inr l)
             else if ll_status l = Detecting then Inr (change_state Negotiating l)
             else Inr l
         | Legacy b \<Rightarrow> Inr (read_legacy b l)
         | Packet p \<Rightarrow> read_packet p l))"

end
