(* ===== verification/Link_Trace.thy ===== *)
theory Link_Trace
  imports Link_Receive
begin

text \<open>
  The link as a state machine: the steps its owner and its peer can cause, and the trace they
  leave in the callback. The trace is checked against an automaton over the statuses, which is
  the contract of the link with its owner.
\<close>

section \<open>The contract\<close>

text \<open>Which status may follow which.\<close>

fun status_edge :: "link_status \<Rightarrow> link_status \<Rightarrow> bool" where
  "status_edge s (Error e) \<longleftrightarrow> (case s of Error _ \<Rightarrow> e = Eof | _ \<Rightarrow> True)"
| "status_edge s Downgrade \<longleftrightarrow> s = Detecting \<or> s = Downgrade"
| "status_edge s Negotiating \<longleftrightarrow> s = Detecting"
| "status_edge s Writable \<longleftrightarrow> s = Negotiating \<or> s = Unwritable \<or> s = Recovery"
| "status_edge s Unwritable \<longleftrightarrow> s = Writable \<or> s = Recovery"
| "status_edge s Recovery \<longleftrightarrow> s = Writable \<or> s = Unwritable"
| "status_edge s Detecting \<longleftrightarrow> False"

definition frame_fits :: "link_status \<Rightarrow> packet_or_detect \<Rightarrow> bool" where
  "frame_fits s w \<longleftrightarrow> (\<forall>e. s \<noteq> Error e) \<and> ((\<exists>b. w = Legacy b) \<longleftrightarrow> s = Downgrade)"

fun event_ok :: "link_status \<Rightarrow> link_event \<Rightarrow> bool" where
  "event_ok s (Status s') \<longleftrightarrow> status_edge s s'"
| "event_ok s (Write w) \<longleftrightarrow> frame_fits s w"
| "event_ok s (ReadLegacy b) \<longleftrightarrow> s = Downgrade"
| "event_ok s (ReadCsm b) \<longleftrightarrow> data_status s"
| "event_ok s (FileTransferEvent i e) \<longleftrightarrow> data_status s"

fun status_after :: "link_status \<Rightarrow> link_event \<Rightarrow> link_status" where
  "status_after s (Status s') = s'"
| "status_after s _ = s"

fun log_ok :: "link_status \<Rightarrow> link_event list \<Rightarrow> bool" where
  "log_ok s [] \<longleftrightarrow> True"
| "log_ok s (e # es) \<longleftrightarrow> event_ok s e \<and> log_ok (status_after s e) es"

definition log_status :: "link_status \<Rightarrow> link_event list \<Rightarrow> link_status" where
  "log_status s es = foldl status_after s es"

text \<open>
  The owner has been told everything: the trace is accepted and ends in the actual status, and
  no event of the file session waits to be told, since each is drained by the call that queued it.
\<close>

definition link_ok :: "link_layer \<Rightarrow> bool" where
  "link_ok l \<longleftrightarrow> log_ok Detecting (ll_events l) \<and> log_status Detecting (ll_events l) = ll_status l
     \<and> fs_local_events (ll_files l) = []"

lemma log_ok_append: "log_ok s (xs @ ys) \<longleftrightarrow> log_ok s xs \<and> log_ok (log_status s xs) ys"
  by (induction xs arbitrary: s) (simp_all add: log_status_def)

lemma log_status_append: "log_status s (xs @ ys) = log_status (log_status s xs) ys"
  by (simp add: log_status_def)

lemma link_ok_cong:
  "ll_events l' = ll_events l \<Longrightarrow> ll_status l' = ll_status l \<Longrightarrow> ll_files l' = ll_files l \<Longrightarrow>
     link_ok l' = link_ok l"
  by (simp add: link_ok_def)

text \<open>The file session may change as it likes, as long as it queues no event.\<close>

lemma link_ok_files:
  "fs_local_events fs = fs_local_events (ll_files l) \<Longrightarrow> link_ok (l\<lparr>ll_files := fs\<rparr>) = link_ok l"
  by (simp add: link_ok_def)

lemma file_dequeue_tx_events [simp]:
  "fs_local_events (snd (file_dequeue_tx n s)) = fs_local_events s"
  by (simp add: file_dequeue_tx_def Let_def split: list.split prod.split option.split)

lemma link_ok_fields [simp]:
  "link_ok (l\<lparr>ll_negotiation := a1\<rparr>) = link_ok l"
  "link_ok (l\<lparr>ll_local_lsp := a2\<rparr>) = link_ok l"
  "link_ok (l\<lparr>ll_peer_lsp := a3\<rparr>) = link_ok l"
  "link_ok (l\<lparr>ll_peer_seq := a4\<rparr>) = link_ok l"
  "link_ok (l\<lparr>ll_own_seq := a5\<rparr>) = link_ok l"
  "link_ok (l\<lparr>ll_peer_ack := a6\<rparr>) = link_ok l"
  "link_ok (l\<lparr>ll_now := a7\<rparr>) = link_ok l"
  "link_ok (l\<lparr>ll_out_of_order := a8\<rparr>) = link_ok l"
  "link_ok (l\<lparr>ll_retransmit_map := a9\<rparr>) = link_ok l"
  "link_ok (l\<lparr>ll_eak := b1\<rparr>) = link_ok l"
  "link_ok (l\<lparr>ll_syn_ack_received := b2\<rparr>) = link_ok l"
  "link_ok (l\<lparr>ll_syn_transmitted := b3\<rparr>) = link_ok l"
  "link_ok (l\<lparr>ll_detect_last_transmit := b4\<rparr>) = link_ok l"
  "link_ok (l\<lparr>ll_csm := b6\<rparr>) = link_ok l"
  "link_ok (l\<lparr>ll_ea := b7\<rparr>) = link_ok l"
  "link_ok (l\<lparr>ll_lingo := b8\<rparr>) = link_ok l"
  "link_ok (l\<lparr>ll_pending_ack := b9\<rparr>) = link_ok l"
  by (simp_all add: link_ok_def)

lemma link_ok_change_state:
  "link_ok l \<Longrightarrow> status_edge (ll_status l) s \<Longrightarrow> link_ok (change_state s l)"
  by (simp add: link_ok_def change_state_def log_ok_append log_status_append)
     (simp add: log_status_def)

lemma change_state_status [simp]:
  "ll_status (change_state s l) = s"
  "ll_status (enter_error_state e l) = Error e"
  "ll_status (send_event ev l) = ll_status l"
  by (simp_all add: status_defs)

lemma link_ok_error: "link_ok l \<Longrightarrow> \<not> is_error l \<Longrightarrow> link_ok (enter_error_state e l)"
  unfolding enter_error_state_def
  by (rule link_ok_change_state) (auto simp: is_error_def split: link_status.splits)

lemma link_ok_send_event:
  "link_ok l \<Longrightarrow> event_ok (ll_status l) ev \<Longrightarrow> \<forall>s. ev \<noteq> Status s \<Longrightarrow> link_ok (send_event ev l)"
  by (cases ev) (simp_all add: link_ok_def send_event_def log_ok_append log_status_append log_status_def)

lemma log_file_events:
  "data_status s \<Longrightarrow> log_ok s (map (\<lambda>e. FileTransferEvent (fst e) (snd e)) es)"
  "log_status s (map (\<lambda>e. FileTransferEvent (fst e) (snd e)) es) = s"
  by (induction es) (simp_all add: log_status_def)

lemma link_ok_drain: "link_ok l \<Longrightarrow> link_ok (drain_events l)"
  by (simp add: link_ok_def drain_events_eq)

text \<open>Over an established link a file session that queued events may be drained.\<close>

lemma link_ok_drain_files:
  "link_ok l \<Longrightarrow> data_status (ll_status l) \<Longrightarrow> link_ok (drain_events (l\<lparr>ll_files := fs\<rparr>))"
  by (simp add: link_ok_def drain_events_eq log_ok_append log_status_append log_file_events)

lemma drain_events_simps [simp]:
  "ll_status (drain_events l) = ll_status l"
  "ll_server (drain_events l) = ll_server l"
  "ll_negotiation (drain_events l) = ll_negotiation l"
  "ll_peer_seq (drain_events l) = ll_peer_seq l"
  by (simp_all add: drain_events_eq)

lemma link_ok_refresh: "link_ok l \<Longrightarrow> link_ok (refresh_data_status l)"
  by (auto simp: refresh_data_status_def data_status_def Let_def intro!: link_ok_change_state)

section \<open>Transmitting keeps the contract\<close>

text \<open>
  A transmitting operation keeps the contract, and what it returns may be written in the
  status it leaves.
\<close>

definition tx_ok :: "packet_or_detect option \<times> link_layer \<Rightarrow> bool" where
  "tx_ok r \<longleftrightarrow> link_ok (snd r) \<and> (\<forall>w. fst r = Some w \<longrightarrow> frame_fits (ll_status (snd r)) w)"

lemma tx_ok_None [simp]: "tx_ok (None, l) = link_ok l"
  by (simp add: tx_ok_def)

lemma tx_ok_Some [simp]: "tx_ok (Some w, l) = (link_ok l \<and> frame_fits (ll_status l) w)"
  by (simp add: tx_ok_def)

lemma frame_fits_iap2:
  "\<not> is_error l \<Longrightarrow> \<not> is_downgrade l \<Longrightarrow> frame_fits (ll_status l) (Packet p)"
  "\<not> is_error l \<Longrightarrow> \<not> is_downgrade l \<Longrightarrow> frame_fits (ll_status l) Detect"
  by (auto simp: frame_fits_def is_error_def is_downgrade_def)

definition iap2_status :: "link_layer \<Rightarrow> bool" where
  "iap2_status l \<longleftrightarrow> \<not> is_error l \<and> \<not> is_downgrade l"

lemma iap2_status_iff: "iap2_status l \<longleftrightarrow> (\<forall>e. ll_status l \<noteq> Error e) \<and> ll_status l \<noteq> Downgrade"
  by (auto simp: iap2_status_def is_error_iff is_downgrade_def)

lemma prepare_ackable_simps [simp]:
  "fst (prepare_ackable p l) = Some (Packet p)"
  "link_ok (snd (prepare_ackable p l)) = link_ok l"
  "ll_status (snd (prepare_ackable p l)) = ll_status l"
  by (simp_all add: prepare_ackable_def Let_def)

lemma tx_ok_prepare_ackable:
  "link_ok l \<Longrightarrow> iap2_status l \<Longrightarrow> tx_ok (prepare_ackable p l)"
  by (auto simp: tx_ok_def frame_fits_def iap2_status_iff)

lemma tx_ok_retransmit_one:
  assumes "link_ok l" and "iap2_status l"
  shows "tx_ok (retransmit_one seq l)"
  using assms link_ok_error [OF assms(1)]
  by (auto simp: retransmit_one_def Let_def frame_fits_def iap2_status_def is_error_iff is_downgrade_def
      split: option.split)

lemma tx_ok_take_pending:
  assumes "link_ok l" and "ll_status l = Negotiating"
    and "take_pending_negotiation_transmit l = Inr r"
  shows "tx_ok r \<and> (fst r = None \<longrightarrow> ll_status (snd r) = Negotiating)"
  using assms
  by (auto simp: take_pending_negotiation_transmit_def take_own_seq_def Let_def case_prod_beta
      frame_fits_def sum_bind_Inr_iff intro!: link_ok_change_state
      split: option.splits prod.splits negotiation_tx.splits)

lemma tx_ok_transmit_negotiating:
  assumes ok: "link_ok l" and st: "ll_status l = Negotiating" and tx: "transmit_negotiating l = Inr r"
  shows "tx_ok r"
proof -
  obtain nxt l1 where take: "take_pending_negotiation_transmit l = Inr (nxt, l1)"
    using tx by (auto simp: transmit_negotiating_def sum_bind_Inr_iff)
  note t = tx_ok_take_pending [OF ok st take]
  show ?thesis
  proof (cases nxt)
    case (Some w)
    then show ?thesis using tx take t by (auto simp: transmit_negotiating_def)
  next
    case None
    then have l1: "link_ok l1" "ll_status l1 = Negotiating" using t by simp_all
    then have "iap2_status l1" by (simp add: iap2_status_iff)
    then show ?thesis
      using tx take None l1 tx_ok_retransmit_one [of l1] tx_ok_prepare_ackable
      by (auto simp: transmit_negotiating_def take_own_seq_def Let_def sum_bind_Inr_iff
          iap2_status_iff split: option.splits if_splits)
  qed
qed

lemma file_dequeue_tx_link_ok:
  "file_dequeue_tx n (ll_files l) = (v, fs) \<Longrightarrow> link_ok (l\<lparr>ll_files := fs\<rparr>) = link_ok l"
  using file_dequeue_tx_events [of n "ll_files l"] by (simp add: link_ok_files)

lemma next_payload_simps [simp]:
  "link_ok (snd (next_payload l)) = link_ok l"
  "ll_status (snd (next_payload l)) = ll_status l"
  by (auto simp: next_payload_def Let_def link_ok_def split: prod.split option.split)
     (metis file_dequeue_tx_events snd_conv)+

lemma next_payload_keeps:
  "next_payload l = (r, l') \<Longrightarrow> link_ok l' = link_ok l \<and> ll_status l' = ll_status l
     \<and> is_error l' = is_error l \<and> iap2_status l' = iap2_status l"
  using next_payload_simps [of l] by (simp add: is_error_iff iap2_status_iff)

lemma tx_ok_transmit_payload:
  assumes "link_ok l" and "iap2_status l" and "transmit_payload t v l = Inr r"
  shows "tx_ok r"
  using assms
  by (auto simp: transmit_payload_def take_own_seq_def Let_def case_prod_beta sum_bind_Inr_iff
      frame_fits_def iap2_status_iff is_error_iff intro!: link_ok_error
      split: option.splits if_splits)

lemma tx_ok_transmit_ack:
  assumes "link_ok l" and "iap2_status l" and "transmit_ack l = Inr r"
  shows "tx_ok r"
  using assms
  by (auto simp: transmit_ack_def Let_def case_prod_beta frame_fits_def iap2_status_iff
      split: option.splits if_splits)

lemma tx_ok_transmit_data:
  assumes "link_ok l" and "iap2_status l" and "transmit_data l = Inr r"
  shows "tx_ok r"
proof -
  let ?l = "l\<lparr>ll_pending_ack := (ll_pending_ack l)\<lparr>out_of_order_ids := []\<rparr>\<rparr>"
  have l: "link_ok ?l" "iap2_status ?l" using assms by (simp_all add: iap2_status_iff)
  show ?thesis
    using assms(3) l tx_ok_retransmit_one [OF l]
    by (auto simp: transmit_data_def Let_def split: option.splits prod.splits if_splits
        dest!: next_payload_keeps dest: tx_ok_transmit_payload [rotated 2] tx_ok_transmit_ack [rotated 2])
qed

lemma tx_ok_next_transmit:
  assumes ok: "link_ok l" and tx: "next_transmit l = Inr r"
  shows "tx_ok r"
proof -
  consider (error) "is_error l"
    | (lingo) b s where "\<not> is_error l" "payload_dequeue_tx (2 ^ 64 - 1) (ll_lingo l) = (Some b, s)"
    | (none) s where "\<not> is_error l" "payload_dequeue_tx (2 ^ 64 - 1) (ll_lingo l) = (None, s)"
    by (metis surj_pair option.exhaust)
  then show ?thesis
  proof cases
    case error
    then show ?thesis using tx ok by (auto simp: next_transmit_def)
  next
    case lingo
    let ?l = "l\<lparr>ll_lingo := s\<rparr>"
    have "link_ok ?l" "\<not> is_error ?l" using ok lingo(1) by (simp_all add: is_error_iff)
    note err = link_ok_error [OF this]
    show ?thesis
      using tx lingo ok err
      by (auto simp: next_transmit_def Let_def is_downgrade_def frame_fits_def split: if_splits)
  next
    case none
    let ?l = "l\<lparr>ll_lingo := s\<rparr>"
    have l: "link_ok ?l" "\<not> is_error ?l" using ok none(1) by (simp_all add: is_error_iff)
    show ?thesis
    proof (cases "is_downgrade ?l")
      case True
      show ?thesis
        using tx none l True
        by (auto simp: next_transmit_def Let_def split: option.splits prod.splits
            dest!: next_payload_keeps intro: link_ok_error)
    next
      case False
      then have iap2: "iap2_status ?l" using l by (simp add: iap2_status_def)
      show ?thesis
        using tx none l False iap2 tx_ok_transmit_negotiating [of ?l r] tx_ok_transmit_data [of ?l r]
        by (auto simp: next_transmit_def Let_def transmit_detecting_def frame_fits_def iap2_status_iff
            split: if_splits)
    qed
  qed
qed

lemma link_ok_transmit_loop: "link_ok l \<Longrightarrow> transmit_loop n l = Inr (b, l') \<Longrightarrow> link_ok l'"
proof (induction n arbitrary: l)
  case 0
  then show ?case by simp
next
  case (Suc n)
  then obtain r l1 where tx: "next_transmit l = Inr (r, l1)"
    and rest: "(case r of None \<Rightarrow> Inr (False, l1)
      | Some p \<Rightarrow> transmit_loop n (refresh_data_status (send_event (Write p) l1))) = Inr (b, l')"
    by (auto simp: sum_bind_Inr_iff)
  have t: "tx_ok (r, l1)" by (rule tx_ok_next_transmit [OF Suc.prems(1) tx])
  show ?case
  proof (cases r)
    case None
    then show ?thesis using rest t by simp
  next
    case (Some w)
    have "link_ok (refresh_data_status (send_event (Write w) l1))"
      using t Some by (intro link_ok_refresh link_ok_send_event) simp_all
    then show ?thesis using Suc.IH rest Some by simp
  qed
qed

lemma link_ok_reconcile: "link_ok l \<Longrightarrow> reconcile n l = Inr (b, l') \<Longrightarrow> link_ok l'"
  unfolding reconcile_def by (rule link_ok_transmit_loop [of "drain_events l"]) (simp_all add: link_ok_drain)

lemma link_ok_new: "link_new server now neg = Inr l \<Longrightarrow> link_ok l"
  by (auto simp: link_ok_def log_status_def link_initial_def file_session_new_def)

section \<open>Receiving keeps the contract\<close>

lemma recv_ack_ok: "link_ok l \<Longrightarrow> link_ok (recv_ack p l)"
  by (auto simp: recv_ack_def Let_def intro!: link_ok_refresh)

lemma refresh_status:
  "ll_status (refresh_data_status l) = ll_status l
   \<or> (data_status (ll_status l) \<and> data_status (ll_status (refresh_data_status l)))"
  by (auto simp: refresh_data_status_def Let_def data_status_def)

lemma refresh_keeps_class:
  "is_error (refresh_data_status l) = is_error l"
  "data_status (ll_status (refresh_data_status l)) = data_status (ll_status l)"
  using refresh_status [of l]
  by (auto simp: is_error_def data_status_def split: link_status.splits)

lemma recv_ack_keeps_class:
  "is_error (recv_ack p l) = is_error l"
  "data_status (ll_status (recv_ack p l)) = data_status (ll_status l)"
  by (auto simp: recv_ack_def Let_def refresh_keeps_class) (simp_all add: is_error_iff)

lemma recv_eak_ok: "link_ok l \<Longrightarrow> link_ok (recv_eak p l)"
  by (auto simp: recv_eak_def intro!: link_ok_refresh split: option.split)

lemma recv_eak_keeps_class: "data_status (ll_status (recv_eak p l)) = data_status (ll_status l)"
  by (auto simp: recv_eak_def refresh_keeps_class split: option.split)

lemma advance_peer_seq_simps [simp]:
  "link_ok (advance_peer_seq_from_ackable p l) = link_ok l"
  "ll_status (advance_peer_seq_from_ackable p l) = ll_status l"
  "ll_negotiation (advance_peer_seq_from_ackable p l) = ll_negotiation l"
  by (simp_all add: advance_peer_seq_from_ackable_def)

lemma link_ok_set_negotiation:
  "link_ok l \<Longrightarrow> ll_status l = Negotiating \<Longrightarrow>
     link_ok (enter_error_state e (l\<lparr>ll_negotiation := n\<rparr>))"
  by (rule link_ok_error) (simp_all add: is_error_iff)

lemma on_recv_neg_host_ok:
  assumes "link_ok l" and "ll_status l = Negotiating"
  shows "link_ok (on_recv_neg_host p l)"
  using assms
  by (simp add: on_recv_neg_host_def Let_def link_ok_set_negotiation link_ok_change_state case_prod_beta
      split: option.split)

lemma on_recv_neg_accessory_ok:
  assumes "link_ok l" and "ll_status l = Negotiating"
  shows "link_ok (on_recv_neg_accessory p l)"
  using assms
  by (simp add: on_recv_neg_accessory_def Let_def link_ok_set_negotiation case_prod_beta
      split: option.split)

lemma on_recv_neg_ok: "link_ok l \<Longrightarrow> link_ok (on_recv_neg p l)"
  by (simp add: on_recv_neg_def on_recv_neg_host_ok on_recv_neg_accessory_ok)

lemma link_ok_read_csm:
  "link_ok l \<Longrightarrow> data_status (ll_status l) \<Longrightarrow> link_ok (drain_events (send_event (ReadCsm b) l))"
  by (rule link_ok_drain, rule link_ok_send_event) simp_all

lemma process_ack_payload_ok:
  assumes "link_ok l" and "data_status (ll_status l)" and "process_ack_payload p l = Inr l'"
  shows "link_ok l' \<and> ll_status l' = ll_status l"
  using assms
  by (auto simp: process_ack_payload_def Let_def sum_bind_Inr_iff
      intro: link_ok_drain link_ok_drain_files link_ok_read_csm
      split: option.splits session_type.splits if_splits)

lemma drain_buffered_ok:
  "link_ok l \<Longrightarrow> data_status (ll_status l) \<Longrightarrow> drain_buffered s l = Inr l' \<Longrightarrow> link_ok l'"
proof (induction s l rule: drain_buffered.induct)
  case (1 s l)
  show ?case
  proof (cases "bt_get s (ll_out_of_order l)")
    case None
    then show ?thesis using 1 by (simp add: drain_buffered.simps [of s l])
  next
    case (Some p)
    let ?l = "l\<lparr>ll_out_of_order := bt_remove s (ll_out_of_order l)\<rparr>"
    obtain l1 where p: "process_ack_payload p ?l = Inr l1"
      and rest: "drain_buffered (modseq_add s 1) (l1\<lparr>ll_peer_seq := Some s\<rparr>) = Inr l'"
      using "1.prems"(3) Some by (auto simp: drain_buffered.simps [of s l] sum_bind_Inr_iff)
    have "link_ok l1 \<and> ll_status l1 = ll_status l"
      using process_ack_payload_ok [OF _ _ p] "1.prems" by simp
    then show ?thesis using "1.IH" [OF Some p] rest "1.prems" by simp
  qed
qed

lemma recv_data_ok:
  assumes "link_ok l" and "data_status (ll_status l)" and "recv_data p s l = Inr l'"
  shows "link_ok l'"
proof (cases "modseq_cmp (h_seq (p_header p)) (modseq_add s 1) = Some Equal")
  case True
  then obtain l1 where p: "process_ack_payload p l = Inr l1"
    and d: "drain_buffered (modseq_add (h_seq (p_header p)) 1) (l1\<lparr>ll_peer_seq := Some (h_seq (p_header p))\<rparr>) = Inr l'"
    using assms(3) by (auto simp: recv_data_def Let_def sum_bind_Inr_iff)
  show ?thesis
    using drain_buffered_ok [OF _ _ d] process_ack_payload_ok [OF assms(1,2) p] assms(2) by simp
next
  case False
  then show ?thesis
    using assms by (auto simp: recv_data_def Let_def split: option.splits ordering.splits)
qed

lemma read_packet_ok:
  assumes ok: "link_ok l" and ne: "\<not> is_error l" and read: "read_packet p l = Inr l'"
  shows "link_ok l'"
proof -
  let ?l1 = "if ll_server l \<and> ll_status l = Detecting then change_state Negotiating l else l"
  have l1: "link_ok ?l1" "\<not> is_error ?l1"
    using ok ne by (auto intro: link_ok_change_state simp: is_error_iff)
  have l2: "link_ok (recv_ack p ?l1)" by (rule recv_ack_ok [OF l1(1)])
  have l3: "link_ok (recv_eak p (recv_ack p ?l1))" by (rule recv_eak_ok [OF l2])
  show ?thesis
    using read link_ok_error [OF ok ne] link_ok_error [OF l1] on_recv_neg_ok [OF l2] l2 l3
      recv_data_ok [OF l3] recv_eak_keeps_class [of p "recv_ack p ?l1"]
    unfolding read_packet_def Let_def
    by (auto split: if_split_asm option.splits)
qed

lemma link_downgrade_ok:
  assumes "link_ok l" and "link_downgrade l = (r, l')"
  shows "link_ok l' \<and> (r = Inr () \<longrightarrow> ll_status l' = Downgrade) \<and> (\<forall>e. r = Inl e \<longrightarrow> l' = l)"
  using assms by (auto simp: link_downgrade_def intro!: link_ok_change_state split: link_status.splits if_splits)

lemma read_legacy_ok:
  assumes "link_ok l" and "\<not> is_error l"
  shows "link_ok (read_legacy b l)"
proof -
  have deliver: "link_ok (if \<not> is_downgrade l then enter_error_state RemoteAttemptedDowngrade l
      else send_event (ReadLegacy b) l)" if "link_ok l" "\<not> is_error l" for l
    using that by (auto simp: is_downgrade_def intro!: link_ok_error link_ok_send_event)
  obtain r l' where d: "link_downgrade l = (r, l')" by force
  note dl = link_downgrade_ok [OF assms(1) d]
  have "r = Inr () \<Longrightarrow> \<not> is_error l'" using dl by (simp add: is_error_iff)
  then show ?thesis
    using deliver [of l'] deliver [OF assms] dl d assms link_ok_error [of l']
    by (cases r) (auto simp: read_legacy_def Let_def)
qed

lemma link_read_ok:
  assumes ok: "link_ok l" and read: "link_read item l = Inr l'"
  shows "link_ok l'"
proof (cases "is_error l")
  case True
  then show ?thesis using assms by (simp add: link_read_def)
next
  case False
  then show ?thesis
    using read ok link_ok_error [OF ok False] read_legacy_ok [OF ok False] read_packet_ok [OF ok False]
    by (cases item)
       (auto simp: link_read_def sum_bind_Inr_iff split: if_splits
         intro: link_ok_change_state dest!: link_ok_reconcile [rotated])
qed

section \<open>Reachable links\<close>

text \<open>
  What the owner may do with the file session of a link, which \<open>files\<close> hands out: reserve an
  identifier, give one back, send a file, and take the queued event or datagram away. No
  precondition is asked of a call: the identifier may be any \<open>u8\<close>, reserved or not, and any call
  that does not panic counts. The bound on the file is that of the length of a \<open>Vec\<close>. The one public
  method left out is \<open>enqueue_rx\<close>: only the link itself feeds the session with packets.
\<close>

inductive file_call :: "file_session \<Rightarrow> file_session \<Rightarrow> bool" where
  call_reserve: "reserve_file_tx s = Inr (i, s') \<Longrightarrow> file_call s s'"
| call_cancel: "cancel_file_tx i s = Inr s' \<Longrightarrow> file_call s s'"
| call_send: "length (source_data src) < 2 ^ 64 \<Longrightarrow> send_file i ty data src s = Inr s' \<Longrightarrow> file_call s s'"
| call_local_event: "file_call s (snd (dequeue_local_event s))"
| call_dequeue: "file_call s (snd (file_dequeue_tx n s))"

inductive link_reach :: "link_layer \<Rightarrow> bool" where
  link_reach_new: "link_new server now neg = Inr l \<Longrightarrow> link_reach l"
| link_reach_read: "link_reach l \<Longrightarrow> link_read item l = Inr l' \<Longrightarrow> link_reach l'"
| link_reach_reconcile: "link_reach l \<Longrightarrow> reconcile n l = Inr (b, l') \<Longrightarrow> link_reach l'"
| link_reach_csm: "link_reach l \<Longrightarrow> link_reach (link_csm_enqueue v l)"
| link_reach_ea: "link_reach l \<Longrightarrow> link_reach (link_ea_enqueue v l)"
| link_reach_lingo: "link_reach l \<Longrightarrow> link_reach (link_lingo_enqueue v l)"
| link_reach_csm_dequeue: "link_reach l \<Longrightarrow> link_reach (l\<lparr>ll_csm := snd (payload_dequeue_tx n (ll_csm l))\<rparr>)"
| link_reach_ea_dequeue: "link_reach l \<Longrightarrow> link_reach (l\<lparr>ll_ea := snd (payload_dequeue_tx n (ll_ea l))\<rparr>)"
| link_reach_lingo_dequeue: "link_reach l \<Longrightarrow> link_reach (l\<lparr>ll_lingo := snd (payload_dequeue_tx n (ll_lingo l))\<rparr>)"
| link_reach_drain: "link_reach l \<Longrightarrow> link_reach (drain_events l)"
| link_reach_files: "link_reach l \<Longrightarrow> file_call (ll_files l) fs \<Longrightarrow> link_reach (l\<lparr>ll_files := fs\<rparr>)"
| link_reach_close: "link_reach l \<Longrightarrow> link_reach (link_close l)"
| link_reach_downgrade: "link_reach l \<Longrightarrow> link_reach (snd (link_downgrade l))"
| link_reach_time: "link_reach l \<Longrightarrow> ll_now l \<le> now \<Longrightarrow> link_reach (l\<lparr>ll_now := now\<rparr>)"

lemma file_call_events: "file_call s s' \<Longrightarrow> fs_local_events s = [] \<Longrightarrow> fs_local_events s' = []"
  by (induction rule: file_call.induct)
     (auto simp: reserve_file_tx_def cancel_file_tx_def send_file_def dequeue_local_event_def sum_bind_Inr_iff)

lemma link_reach_ok: "link_reach l \<Longrightarrow> link_ok l"
proof (induction rule: link_reach.induct)
  case (link_reach_files l fs)
  then show ?case using file_call_events [of "ll_files l" fs] by (simp add: link_ok_def)
next
  case (link_reach_close l)
  then show ?case
    unfolding link_close_def enter_error_state_def
    by (auto intro: link_ok_change_state split: link_status.split)
next
  case (link_reach_downgrade l)
  then show ?case using link_downgrade_ok [of l] by (simp add: prod_eq_iff)
qed (auto intro: link_ok_new link_read_ok link_ok_reconcile link_ok_drain
      simp: link_csm_enqueue_def link_ea_enqueue_def link_lingo_enqueue_def)

text \<open>
  Claim C16: in every link reachable by any sequence of packets read, reconciliations, clock
  ticks and calls of the owner (the owner feeding packets to the file session behind the link's
  back excepted), the callback log is accepted by the status automaton and ends
  in the actual status: the owner hears of every change, statuses follow the automaton, no
  frame is written in an error status, iAP1 frames are written exactly in the downgraded
  status and iAP2 frames never in it, and session data, of the control session and of file
  transfers alike, is delivered only in the three statuses of an established link. No event of a
  file transfer is left undelivered.
\<close>

theorem link_log_accepted:
  assumes "link_reach l"
  shows "log_ok Detecting (ll_events l) \<and> log_status Detecting (ll_events l) = ll_status l
    \<and> fs_local_events (ll_files l) = []"
  using link_reach_ok [OF assms] by (simp add: link_ok_def)

theorem link_log_accepted_witness:
  "\<exists>l. link_with_clock False 0 = Inr l \<and> log_ok Detecting (ll_events l) \<and> ll_status l = Detecting"
proof -
  obtain l where l: "link_with_clock False 0 = Inr l" "ll_status l = Detecting"
    by (simp add: link_with_clock_def link_initial_def)
  have "link_reach l"
    using l(1) unfolding link_with_clock_def by (rule link_reach_new)
  from link_log_accepted [OF this] l show ?thesis by auto
qed

text \<open>
  Claim C25: errors are final. A link in an error status ignores every packet, transmits nothing
  whatever is queued, recommends no further call, and refuses to be downgraded; closing it is
  all that can change its status, and then only to end of file.
\<close>

theorem link_error_absorbing:
  assumes "ll_status l = Error e"
  shows "link_read item l = Inr l
    \<and> next_transmit l = Inr (None, l)
    \<and> reconcile n l = Inr (n = 0, drain_events l)
    \<and> link_sleep l = None
    \<and> link_downgrade l = (Inl Eof, l)
    \<and> ll_status (link_close l) = Error Eof"
proof -
  have err: "is_error l" "is_error (drain_events l)" using assms by (simp_all add: is_error_iff)
  have "reconcile n l = Inr (n = 0, drain_events l)"
    using err by (cases n) (simp_all add: reconcile_def next_transmit_def)
  then show ?thesis
    using err assms
    by (simp add: link_read_def next_transmit_def link_sleep_def link_downgrade_def link_close_def)
qed

theorem link_error_absorbing_witness:
  "\<exists>l. link_with_clock True 0 = Inr l \<and> next_transmit (link_close l) = Inr (None, link_close l)"
proof -
  obtain l where l: "link_with_clock True 0 = Inr l" "ll_status l = Detecting"
    by (simp add: link_with_clock_def link_initial_def)
  have "ll_status (link_close l) = Error Eof" using l(2) by (simp add: link_close_def)
  from link_error_absorbing [OF this] l show ?thesis by blast
qed

end
