(* ===== verification/Link_Delivery.thy ===== *)
theory Link_Delivery
  imports Link_Trace
begin

text \<open>
  What the receiving side of the link promises: a control-session stream is delivered in order
  and exactly once, whatever is duplicated, reordered or lost on the way. The specification
  numbers the packets of the peer by natural numbers; the code only sees them modulo 256.
\<close>

section \<open>Specification\<close>

text \<open>The first number missing among those that have arrived.\<close>

definition first_missing :: "nat list \<Rightarrow> nat" where
  "first_missing js = length (takeWhile (\<lambda>i. i \<in> set js) [0..<Suc (length js)])"

text \<open>
  Every packet arrives within half the sequence space of the next expected one, which a sender
  that respects the window guarantees.
\<close>

fun windowed :: "nat list \<Rightarrow> nat list \<Rightarrow> bool" where
  "windowed arrived [] \<longleftrightarrow> True"
| "windowed arrived (j # js) \<longleftrightarrow>
     j < first_missing arrived + 128 \<and> first_missing arrived < j + 128 \<and> windowed (arrived @ [j]) js"

lemma first_missing_all:
  assumes "i < first_missing js"
  shows "i \<in> set js"
proof -
  let ?xs = "[0..<Suc (length js)]"
  let ?t = "takeWhile (\<lambda>i. i \<in> set js) ?xs"
  have i: "i < length ?t" using assms unfolding first_missing_def .
  then have "?t ! i \<in> set js" using set_takeWhileD [OF nth_mem [OF i]] by blast
  moreover have "?t ! i = ?xs ! i" by (rule takeWhile_nth [OF i])
  moreover have "i < length ?xs" using i length_takeWhile_le [of "\<lambda>i. i \<in> set js" ?xs] by linarith
  then have "?xs ! i = i" by (simp only: length_upt nth_upt)
  ultimately show ?thesis by simp
qed

lemma first_missing_not: "first_missing js \<notin> set js"
proof -
  have "first_missing js < Suc (length js)"
  proof (rule ccontr)
    assume "\<not> first_missing js < Suc (length js)"
    then have "{0..length js} \<subseteq> set js" using first_missing_all [of _ js] by auto
    then have "card {0..length js} \<le> card (set js)" by (intro card_mono) simp_all
    also have "\<dots> \<le> length js" by (rule card_length)
    finally show False by simp
  qed
  then show ?thesis
    using nth_length_takeWhile [of "\<lambda>i. i \<in> set js" "[0..<Suc (length js)]"]
    by (simp add: first_missing_def del: upt_Suc)
qed

lemma first_missing_unique:
  assumes "\<And>i. i < n \<Longrightarrow> i \<in> set js" and "n \<notin> set js"
  shows "first_missing js = n"
  using assms first_missing_all first_missing_not by (metis linorder_neqE_nat)

lemma first_missing_append:
  "first_missing (js @ [j]) = (if j = first_missing js then first_missing (js @ [j]) else first_missing js)"
proof (cases "j = first_missing js")
  case False
  have "first_missing (js @ [j]) = first_missing js"
    by (rule first_missing_unique) (use False first_missing_all first_missing_not in auto)
  then show ?thesis using False by simp
qed simp

section \<open>Numbers and sequence numbers\<close>

lemma u8_of_nat_diff:
  assumes "n \<le> j" and "j < n + 256"
  shows "unat ((b + of_nat j) - (b + of_nat n) :: u8) = j - n"
proof -
  have e: "(b + of_nat j) - (b + of_nat n) = (of_nat (j - n) :: u8)"
    by (simp only: of_nat_diff [OF assms(1)] add_diff_cancel_left)
  have "unat (of_nat (j - n) :: u8) = j - n"
    using assms by (intro unat_of_nat_u8) simp
  then show ?thesis unfolding e .
qed

lemma seq_inj:
  assumes "(b :: u8) + of_nat i = b + of_nat j" and "i < j + 256" and "j < i + 256"
  shows "i = j"
proof (cases "j \<le> i")
  case True
  then show ?thesis using u8_of_nat_diff [of j i b] assms by simp
next
  case False
  then show ?thesis using u8_of_nat_diff [of i j b] assms by simp
qed

lemma seq_cmp:
  assumes "j < n + 128" and "n < j + 128"
  shows "modseq_cmp ((b :: u8) + of_nat j) (b + of_nat n) =
    Some (if j = n then Equal else if n < j then Greater else Less)"
proof (cases "n \<le> j")
  case True
  then show ?thesis
    using assms u8_of_nat_diff [of n j b] by (auto simp: modseq_cmp_unat)
next
  case False
  have ne: "b + of_nat j \<noteq> b + of_nat n"
    using seq_inj [of b j n] False assms by auto
  have "unat ((b + of_nat j) - (b + of_nat n)) + unat ((b + of_nat n) - (b + of_nat j)) = 256"
    using unat_diff_swap [OF ne] by simp
  then show ?thesis
    using False assms u8_of_nat_diff [of j n b] by (auto simp: modseq_cmp_unat)
qed

section \<open>The stream at the link\<close>

definition csm_log :: "link_layer \<Rightarrow> u8 list list" where
  "csm_log l = concat (map (\<lambda>e. case e of ReadCsm b \<Rightarrow> [b] | _ \<Rightarrow> []) (ll_events l))"

text \<open>
  Packet number \<open>j\<close> carries \<open>d j\<close> over the session the peer announced for control messages,
  with the sequence number \<open>b + j\<close>, and fits the local limit.
\<close>

definition csm_stream :: "(nat \<Rightarrow> packet) \<Rightarrow> (nat \<Rightarrow> u8 list) \<Rightarrow> u8 \<Rightarrow> link_layer \<Rightarrow> bool" where
  "csm_stream f d b l \<longleftrightarrow>
     (\<forall>j. is_ack (h_control (p_header (f j))) \<and> h_seq (p_header (f j)) = b + of_nat j
       \<and> p_payload (f j) = Some (d j) \<and> d j \<noteq> []
       \<and> packet_size (f j) \<le> unat (max_len (ll_local_lsp l))
       \<and> (\<exists>s. find (\<lambda>s. ls_id s = h_session_id (p_header (f j))) (sessions (ll_peer_lsp l)) = Some s
             \<and> ls_type s = Control))"

text \<open>Everything up to \<open>m\<close> has been processed; what arrived from there on is buffered.\<close>

definition rx_state :: "(nat \<Rightarrow> packet) \<Rightarrow> u8 \<Rightarrow> nat set \<Rightarrow> nat \<Rightarrow> link_layer \<Rightarrow> bool" where
  "rx_state f b S m l \<longleftrightarrow>
     ll_peer_seq l = Some (b + of_nat m - 1)
     \<and> (\<forall>k p. bt_get k (ll_out_of_order l) = Some p \<longrightarrow>
          (\<exists>j \<in> S. m \<le> j \<and> j < m + 128 \<and> k = b + of_nat j \<and> p = f j))
     \<and> (\<forall>j \<in> S. m \<le> j \<longrightarrow> j < m + 128 \<and> bt_get (b + of_nat j) (ll_out_of_order l) = Some (f j))"

text \<open>What processing one control packet changes, as far as the stream is concerned.\<close>

definition same_link :: "link_layer \<Rightarrow> link_layer \<Rightarrow> bool" where
  "same_link l l' \<longleftrightarrow> ll_peer_lsp l' = ll_peer_lsp l \<and> ll_local_lsp l' = ll_local_lsp l
     \<and> data_status (ll_status l')"

lemma csm_stream_same: "csm_stream f d b l \<Longrightarrow> same_link l l' \<Longrightarrow> csm_stream f d b l'"
  by (simp add: csm_stream_def same_link_def)

lemma csm_log_drain [simp]: "csm_log (drain_events l) = csm_log l"
  by (simp add: csm_log_def drain_events_eq comp_def)

lemma csm_log_fields [simp]:
  "csm_log (l\<lparr>ll_peer_seq := a1\<rparr>) = csm_log l"
  "csm_log (l\<lparr>ll_out_of_order := a2\<rparr>) = csm_log l"
  "csm_log (l\<lparr>ll_pending_ack := a3\<rparr>) = csm_log l"
  by (simp_all add: csm_log_def)

lemma process_csm:
  assumes "csm_stream f d b l" and "data_status (ll_status l)"
  shows "\<exists>l'. process_ack_payload (f j) l = Inr l' \<and> same_link l l'
    \<and> ll_out_of_order l' = ll_out_of_order l \<and> ll_peer_seq l' = ll_peer_seq l
    \<and> csm_log l' = csm_log l @ [d j]"
proof -
  obtain s where s: "find (\<lambda>s. ls_id s = h_session_id (p_header (f j))) (sessions (ll_peer_lsp l)) = Some s"
    "ls_type s = Control" "p_payload (f j) = Some (d j)" "d j \<noteq> []"
    using assms(1) unfolding csm_stream_def by blast
  then show ?thesis
    using assms(2)
    by (simp add: process_ack_payload_def Let_def same_link_def drain_events_eq send_event_def csm_log_def
        comp_def)
qed

lemma drain_buffered_csm:
  assumes "csm_stream f d b l" and "data_status (ll_status l)" and "finite S" and "rx_state f b S m l"
  shows "\<exists>l' m'. drain_buffered (b + of_nat m) l = Inr l' \<and> m \<le> m' \<and> m' \<notin> S
    \<and> (\<forall>i. m \<le> i \<and> i < m' \<longrightarrow> i \<in> S)
    \<and> rx_state f b S m' l' \<and> same_link l l' \<and> csm_log l' = csm_log l @ map d [m..<m']"
  using assms
proof (induction "length (ll_out_of_order l)" arbitrary: l m rule: less_induct)
  case less
  show ?case
  proof (cases "m \<in> S")
    case False
    have "bt_get (b + of_nat m) (ll_out_of_order l) = None"
    proof (rule ccontr)
      assume "bt_get (b + of_nat m) (ll_out_of_order l) \<noteq> None"
      then obtain y where "bt_get (b + of_nat m) (ll_out_of_order l) = Some y" by blast
      then obtain j where "j \<in> S" "m \<le> j" "j < m + 128" "b + of_nat m = b + of_nat j"
        using less.prems(4) unfolding rx_state_def by blast
      then show False using seq_inj [of b m j] False by auto
    qed
    then have "drain_buffered (b + of_nat m) l = Inr l"
      by (simp add: drain_buffered.simps [of "b + of_nat m" l])
    then show ?thesis
      using less.prems False
      by (intro exI [of _ l] exI [of _ m]) (auto simp: same_link_def)
  next
    case True
    then have get: "bt_get (b + of_nat m) (ll_out_of_order l) = Some (f m)"
      using less.prems(4) by (auto simp: rx_state_def)
    let ?l1 = "l\<lparr>ll_out_of_order := bt_remove (b + of_nat m) (ll_out_of_order l)\<rparr>"
    have "csm_stream f d b ?l1" "data_status (ll_status ?l1)"
      using less.prems by (simp_all add: csm_stream_def)
    from process_csm [OF this, of m] obtain l2 where
      p: "process_ack_payload (f m) ?l1 = Inr l2" "same_link ?l1 l2"
      "ll_out_of_order l2 = ll_out_of_order ?l1" "csm_log l2 = csm_log ?l1 @ [d m]"
      by blast
    let ?l3 = "l2\<lparr>ll_peer_seq := Some (b + of_nat m)\<rparr>"
    have step: "drain_buffered (b + of_nat m) l = drain_buffered (b + of_nat (Suc m)) ?l3"
      using get p(1) by (simp add: drain_buffered.simps [of "b + of_nat m" l] modseq_add_def ac_simps)
    have same3: "same_link l ?l3" "csm_log ?l3 = csm_log l @ [d m]"
      using p(2,4) by (simp_all add: same_link_def csm_log_def)
    have ooo: "ll_out_of_order ?l3 = bt_remove (b + of_nat m) (ll_out_of_order l)"
      using p(3) by simp
    have rx3: "rx_state f b S (Suc m) ?l3"
      unfolding rx_state_def ooo
    proof (intro conjI allI impI ballI)
      show "ll_peer_seq ?l3 = Some (b + of_nat (Suc m) - 1)" by simp
    next
      fix k q
      assume "bt_get k (bt_remove (b + of_nat m) (ll_out_of_order l)) = Some q"
      then have "k \<noteq> b + of_nat m" "bt_get k (ll_out_of_order l) = Some q"
        by (auto simp: bt_get_remove split: if_splits)
      then obtain j where "j \<in> S" "m \<le> j" "j < m + 128" "k = b + of_nat j" "q = f j" "j \<noteq> m"
        using less.prems(4) by (auto simp: rx_state_def)
      then show "\<exists>j\<in>S. Suc m \<le> j \<and> j < Suc m + 128 \<and> k = b + of_nat j \<and> q = f j"
        by (intro bexI [of _ j]) auto
    next
      fix j
      assume j: "j \<in> S" "Suc m \<le> j"
      then have b: "j < m + 128" "bt_get (b + of_nat j) (ll_out_of_order l) = Some (f j)"
        using less.prems(4) by (auto simp: rx_state_def)
      then show "j < Suc m + 128" by simp
      have "b + of_nat j \<noteq> b + of_nat m" using seq_inj [of b j m] j(2) b(1) by auto
      then show "bt_get (b + of_nat j) (bt_remove (b + of_nat m) (ll_out_of_order l)) = Some (f j)"
        using b(2) by (simp add: bt_get_remove)
    qed
    have shorter: "length (ll_out_of_order ?l3) < length (ll_out_of_order l)"
      unfolding ooo by (rule length_bt_remove [OF get])
    have "csm_stream f d b ?l3" "data_status (ll_status ?l3)"
      using less.prems(1) same3(1) csm_stream_same by (blast, simp add: same_link_def)
    from less.hyps [OF shorter this less.prems(3) rx3] obtain l' m' where ih:
      "drain_buffered (b + of_nat (Suc m)) ?l3 = Inr l'" "Suc m \<le> m'" "m' \<notin> S"
      "\<forall>i. Suc m \<le> i \<and> i < m' \<longrightarrow> i \<in> S" "rx_state f b S m' l'" "same_link ?l3 l'"
      "csm_log l' = csm_log ?l3 @ map d [Suc m..<m']"
      by blast
    have "\<forall>i. m \<le> i \<and> i < m' \<longrightarrow> i \<in> S"
      using ih(4) True by (metis le_eq_less_or_eq Suc_leI)
    moreover have "csm_log l' = csm_log l @ map d [m..<m']"
      using ih(2,7) same3(2) by (simp add: upt_conv_Cons)
    moreover have "same_link l l'"
      using ih(6) same3(1) by (simp add: same_link_def)
    ultimately show ?thesis
      using step ih(1,2,3,5) by (intro exI [of _ l'] exI [of _ m']) simp
  qed
qed

section \<open>Reading one packet of the stream\<close>

lemma refresh_data_status_simps [simp]:
  "ll_peer_lsp (refresh_data_status l) = ll_peer_lsp l"
  "ll_local_lsp (refresh_data_status l) = ll_local_lsp l"
  "ll_peer_seq (refresh_data_status l) = ll_peer_seq l"
  "ll_out_of_order (refresh_data_status l) = ll_out_of_order l"
  "csm_log (refresh_data_status l) = csm_log l"
  by (simp_all add: refresh_data_status_def change_state_def Let_def csm_log_def)

lemma recv_ack_simps [simp]:
  "ll_peer_lsp (recv_ack p l) = ll_peer_lsp l"
  "ll_local_lsp (recv_ack p l) = ll_local_lsp l"
  "ll_peer_seq (recv_ack p l) = ll_peer_seq l"
  "ll_out_of_order (recv_ack p l) = ll_out_of_order l"
  "csm_log (recv_ack p l) = csm_log l"
  by (simp_all add: recv_ack_def Let_def) (simp_all add: csm_log_def)

lemma read_packet_data:
  assumes "csm_stream f d b l" and "data_status (ll_status l)" and "ll_peer_seq l = Some s"
  shows "link_read (Packet (f j)) l = recv_data (f j) s (recv_ack (f j) l)"
proof -
  have ack: "is_ack (h_control (p_header (f j)))" and size: "packet_size (f j) \<le> unat (max_len (ll_local_lsp l))"
    and pl: "p_payload (f j) \<noteq> None"
    using assms(1) unfolding csm_stream_def by (blast, blast, metis option.distinct(1))
  have st: "ll_status l \<noteq> Detecting" "\<not> is_error l" "\<not> is_downgrade l"
    using data_status_not_error [OF assms(2)] by (auto simp: is_error_iff is_downgrade_def)
  have st1: "data_status (ll_status (recv_ack (f j) l))"
    using assms(2) by (simp add: recv_ack_keeps_class)
  then have st2: "ll_status (recv_ack (f j) l) \<noteq> Negotiating"
    using data_status_not_error by blast
  have ctl: "\<not> is_rst (h_control (p_header (f j)))" "\<not> is_eak (h_control (p_header (f j)))"
    using control_exclusive(1) [OF ack] by simp_all
  show ?thesis
    using st st1 st2 ctl ack size pl assms(3)
    by (auto simp: link_read_def read_packet_def recv_eak_def Let_def)
qed

text \<open>The invariant of the receiving link after the packets \<open>js\<close>, in order of arrival.\<close>

definition rx_inv :: "(nat \<Rightarrow> packet) \<Rightarrow> (nat \<Rightarrow> u8 list) \<Rightarrow> u8 \<Rightarrow> nat list \<Rightarrow> link_layer \<Rightarrow> bool" where
  "rx_inv f d b js l \<longleftrightarrow> csm_stream f d b l \<and> data_status (ll_status l)
     \<and> rx_state f b (set js) (first_missing js) l"

lemma read_one_csm:
  assumes inv: "rx_inv f d b js l" and win: "j < first_missing js + 128" "first_missing js < j + 128"
  shows "\<exists>l'. link_read (Packet (f j)) l = Inr l' \<and> rx_inv f d b (js @ [j]) l'
    \<and> csm_log l' = csm_log l @ map d [first_missing js..<first_missing (js @ [j])]"
proof -
  let ?n = "first_missing js"
  let ?l = "recv_ack (f j) l"
  have stream: "csm_stream f d b l" and data: "data_status (ll_status l)"
    and rx: "rx_state f b (set js) ?n l"
    using inv by (auto simp: rx_inv_def)
  have same: "same_link l ?l" using data by (simp add: same_link_def recv_ack_keeps_class)
  have stream1: "csm_stream f d b ?l" by (rule csm_stream_same [OF stream same])
  have data1: "data_status (ll_status ?l)" using data by (simp add: recv_ack_keeps_class)
  have rx1: "rx_state f b (set js) ?n ?l" using rx by (simp add: rx_state_def)
  have seq: "h_seq (p_header (f j)) = b + of_nat j" using stream unfolding csm_stream_def by blast
  have read: "link_read (Packet (f j)) l = recv_data (f j) (b + of_nat ?n - 1) ?l"
    using read_packet_data [OF stream data] rx by (simp add: rx_state_def)
  have cmp: "modseq_cmp (h_seq (p_header (f j))) (modseq_add (b + of_nat ?n - 1) 1) =
      Some (if j = ?n then Equal else if ?n < j then Greater else Less)"
    using seq_cmp [OF win, of b] by (simp add: seq modseq_add_def)
  consider (expected) "j = ?n" | (early) "?n < j" | (duplicate) "j < ?n" by linarith
  then show ?thesis
  proof cases
    case expected
    from process_csm [OF stream1 data1, of j] obtain l1 where
      p: "process_ack_payload (f j) ?l = Inr l1" "same_link ?l l1"
      "ll_out_of_order l1 = ll_out_of_order ?l" "csm_log l1 = csm_log ?l @ [d j]"
      by blast
    let ?l2 = "l1\<lparr>ll_peer_seq := Some (b + of_nat j)\<rparr>"
    have "csm_stream f d b ?l2" "data_status (ll_status ?l2)"
      using csm_stream_same [OF stream1 p(2)] p(2) by (simp_all add: csm_stream_def same_link_def)
    moreover have "rx_state f b (set js) (Suc ?n) ?l2"
      using rx first_missing_not [of js] p(3)
      by (fastforce simp: rx_state_def expected Suc_le_eq nat_less_le)
    ultimately obtain l' m' where d: "drain_buffered (b + of_nat (Suc ?n)) ?l2 = Inr l'"
      "Suc ?n \<le> m'" "m' \<notin> set js" "\<forall>i. Suc ?n \<le> i \<and> i < m' \<longrightarrow> i \<in> set js"
      "rx_state f b (set js) m' l'" "same_link ?l2 l'" "csm_log l' = csm_log ?l2 @ map d [Suc ?n..<m']"
      using drain_buffered_csm [of f d b ?l2 "set js" "Suc ?n"] by blast
    have m': "first_missing (js @ [j]) = m'"
    proof (rule first_missing_unique)
      show "m' \<notin> set (js @ [j])" using d(2,3) expected by auto
      show "i \<in> set (js @ [j])" if "i < m'" for i
      proof -
        consider "i < ?n" | "i = ?n" | "Suc ?n \<le> i" by linarith
        then show ?thesis
          using that d(4) first_missing_all [of i js] expected by cases auto
      qed
    qed
    have rx': "rx_state f b (set (js @ [j])) m' l'"
      using d(2,5) expected by (fastforce simp: rx_state_def)
    have same': "same_link l l'" using d(6) p(2) same by (simp add: same_link_def)
    have stream': "csm_stream f d b l'" by (rule csm_stream_same [OF stream same'])
    have log': "csm_log l' = csm_log l @ map d [?n..<m']"
      using d(2,7) p(4) expected by (simp add: upt_conv_Cons)
    have read': "link_read (Packet (f j)) l = Inr l'"
    proof -
      have nxt: "modseq_add (h_seq (p_header (f j))) 1 = b + of_nat (Suc ?n)"
        using seq expected by (simp add: modseq_add_def)
      have "modseq_cmp (h_seq (p_header (f j))) (modseq_add (b + of_nat ?n - 1) 1) = Some Equal"
        using cmp expected by simp
      then have "recv_data (f j) (b + of_nat ?n - 1) ?l =
          drain_buffered (b + of_nat (Suc ?n)) (l1\<lparr>ll_peer_seq := Some (h_seq (p_header (f j)))\<rparr>)"
        by (simp only: recv_data_def Let_def option.case ordering.case p(1) sum_bind_simps nxt)
      then show ?thesis using read d(1) by (simp only: seq)
    qed
    have "data_status (ll_status l')" using same' unfolding same_link_def by blast
    then have inv': "rx_inv f d b (js @ [j]) l'"
      unfolding rx_inv_def m' by (intro conjI stream' rx')
    show ?thesis
      by (rule exI [of _ l'], intro conjI) (fact read', fact inv', fact log' [folded m'])
  next
    case early
    let ?l' = "?l\<lparr>ll_out_of_order := bt_insert (b + of_nat j) (f j) (ll_out_of_order ?l),
      ll_pending_ack := add_out_of_order_seq (b + of_nat j) (ll_pending_ack ?l)\<rparr>"
    have read': "link_read (Packet (f j)) l = Inr ?l'"
      using read cmp early by (simp add: recv_data_def seq Let_def)
    have n: "first_missing (js @ [j]) = ?n"
      using first_missing_append [of js j] early by simp
    have "rx_state f b (set (js @ [j])) ?n ?l'"
      unfolding rx_state_def
    proof (intro conjI allI impI ballI)
      show "ll_peer_seq ?l' = Some (b + of_nat ?n - 1)" using rx by (simp add: rx_state_def)
    next
      fix k p
      assume "bt_get k (ll_out_of_order ?l') = Some p"
      then show "\<exists>i \<in> set (js @ [j]). ?n \<le> i \<and> i < ?n + 128 \<and> k = b + of_nat i \<and> p = f i"
        using rx early win(1) by (auto simp: rx_state_def bt_get_insert split: if_splits)
    next
      fix i
      assume i: "i \<in> set (js @ [j])" "?n \<le> i"
      then have i': "i = j \<or> (i < ?n + 128 \<and> bt_get (b + of_nat i) (ll_out_of_order l) = Some (f i))"
        using rx by (auto simp: rx_state_def)
      then show "i < ?n + 128" using win(1) by auto
      then have "b + of_nat i = b + of_nat j \<Longrightarrow> i = j"
        using seq_inj [of b i j] i(2) early win(1) by auto
      then show "bt_get (b + of_nat i) (ll_out_of_order ?l') = Some (f i)"
        using i' by (auto simp: bt_get_insert)
    qed
    moreover have "csm_stream f d b ?l'" using stream1 by (simp add: csm_stream_def)
    ultimately show ?thesis
      using read' n data1 by (auto simp: rx_inv_def)
  next
    case duplicate
    let ?l' = "?l\<lparr>ll_pending_ack := (ll_pending_ack ?l)\<lparr>force_ack := True\<rparr>\<rparr>"
    have read': "link_read (Packet (f j)) l = Inr ?l'"
      using read cmp duplicate by (simp add: recv_data_def Let_def)
    have n: "first_missing (js @ [j]) = ?n"
      using first_missing_append [of js j] duplicate by simp
    have "rx_state f b (set (js @ [j])) ?n ?l'"
      using rx duplicate by (auto simp: rx_state_def)
    moreover have "csm_stream f d b ?l'" using stream1 by (simp add: csm_stream_def)
    ultimately show ?thesis
      using read' n data1 by (auto simp: rx_inv_def)
  qed
qed

section \<open>Properties\<close>

fun read_all :: "packet list \<Rightarrow> link_layer \<Rightarrow> panic + link_layer" where
  "read_all [] l = Inr l"
| "read_all (p # ps) l = sum_bind (link_read (Packet p) l) (read_all ps)"

lemma first_missing_mono: "first_missing js \<le> first_missing (js @ [j])"
proof (rule ccontr)
  assume "\<not> first_missing js \<le> first_missing (js @ [j])"
  then have "first_missing (js @ [j]) \<in> set js" by (intro first_missing_all) simp
  then show False using first_missing_not [of "js @ [j]"] by simp
qed

lemma read_all_csm:
  assumes "rx_inv f d b arrived l" and "windowed arrived js"
  shows "\<exists>l'. read_all (map f js) l = Inr l' \<and> rx_inv f d b (arrived @ js) l'
    \<and> first_missing arrived \<le> first_missing (arrived @ js)
    \<and> csm_log l' = csm_log l @ map d [first_missing arrived..<first_missing (arrived @ js)]"
  using assms
proof (induction js arbitrary: arrived l)
  case Nil
  then show ?case by simp
next
  case (Cons j js)
  from read_one_csm [OF Cons.prems(1)] Cons.prems(2) obtain l1 where one:
    "link_read (Packet (f j)) l = Inr l1" "rx_inv f d b (arrived @ [j]) l1"
    "csm_log l1 = csm_log l @ map d [first_missing arrived..<first_missing (arrived @ [j])]"
    by auto
  from Cons.IH [OF one(2)] Cons.prems(2) obtain l' where more:
    "read_all (map f js) l1 = Inr l'" "rx_inv f d b (arrived @ j # js) l'"
    "first_missing (arrived @ [j]) \<le> first_missing (arrived @ j # js)"
    "csm_log l' = csm_log l1 @ map d [first_missing (arrived @ [j])..<first_missing (arrived @ j # js)]"
    by auto
  have le: "first_missing arrived \<le> first_missing (arrived @ [j])" by (rule first_missing_mono)
  have "[first_missing arrived..<first_missing (arrived @ [j])] @
      [first_missing (arrived @ [j])..<first_missing (arrived @ j # js)] =
      [first_missing arrived..<first_missing (arrived @ j # js)]"
    using le more(3) by (metis le_iff_add upt_add_eq_append)
  then have "csm_log l' = csm_log l @ map d [first_missing arrived..<first_missing (arrived @ j # js)]"
    using more(4) one(3) by (simp flip: map_append)
  then show ?case using one(1) more(1,2,3) le by auto
qed

text \<open>
  Claim C1: control messages are delivered in order and exactly once. Let an established link
  expect packet number 0 of the peer's stream, and let packets of the stream arrive in any
  order, duplicated, with gaps, each within half the sequence space of the next expected one.
  Then nothing panics, the link stays established, and what it has delivered is exactly the
  messages before the first one that has not arrived, each once and in order.
\<close>

theorem csm_in_order_exactly_once:
  assumes "csm_stream f d b l" and "data_status (ll_status l)"
    and "ll_peer_seq l = Some (b - 1)" and "ll_out_of_order l = []" and "windowed [] js"
  shows "\<exists>l'. read_all (map f js) l = Inr l' \<and> data_status (ll_status l')
    \<and> csm_log l' = csm_log l @ map d [0..<first_missing js]
    \<and> ll_peer_seq l' = Some (b + of_nat (first_missing js) - 1)"
proof -
  have zero: "first_missing [] = 0" by (rule first_missing_unique) simp_all
  have "rx_inv f d b [] l"
    using assms(1-4) zero by (simp add: rx_inv_def rx_state_def)
  from read_all_csm [OF this assms(5)] zero show ?thesis
    by (auto simp: rx_inv_def rx_state_def)
qed

definition csm_sample :: "nat \<Rightarrow> packet" where
  "csm_sample j =
     \<lparr>p_header = \<lparr>h_length = 11, h_control = CTL_ACK, h_seq = 250 + of_nat j, h_ack = 0x10, h_session_id = 1\<rparr>,
      p_payload = Some [of_nat j]\<rparr>"

text \<open>An established link, as far as the receiving side is concerned.\<close>

definition established :: "u8 \<Rightarrow> link_layer \<Rightarrow> link_layer" where
  "established s l = l\<lparr>ll_status := Writable, ll_peer_seq := Some s, ll_local_lsp := lsp_bluetooth,
     ll_peer_lsp := lsp_bluetooth\<rparr>"

theorem csm_in_order_exactly_once_witness:
  "\<exists>l l'. read_all (map csm_sample [1, 0, 0, 2, 9]) (established 249 l) = Inr l'
     \<and> csm_log l' = [[0], [1], [2]] \<and> ll_peer_seq l' = Some 252"
proof -
  obtain l where l: "link_with_clock True 0 = Inr l" "ll_events l = []" "ll_out_of_order l = []"
    by (simp add: link_with_clock_def link_initial_def)
  let ?l = "established 249 l"
  have stream: "csm_stream csm_sample (\<lambda>j. [of_nat j]) 250 ?l"
    by (simp add: csm_stream_def csm_sample_def established_def control_simps packet_size_def
        PACKET_OVERHEAD_def lsp_bluetooth_def lsp_modern_sessions_def)
  have fm: "first_missing [] = 0" "first_missing [Suc 0] = 0" "first_missing [Suc 0, 0] = 2"
    "first_missing [Suc 0, 0, 0] = 2" "first_missing [Suc 0, 0, 0, 2] = 3"
    "first_missing [Suc 0, 0, 0, 2, 9] = 3"
    by (simp_all add: first_missing_def upt_rec)
  have "\<exists>l'. read_all (map csm_sample [1, 0, 0, 2, 9]) ?l = Inr l' \<and> data_status (ll_status l')
    \<and> csm_log l' = csm_log ?l @ map (\<lambda>j. [of_nat j]) [0..<first_missing [1, 0, 0, 2, 9]]
    \<and> ll_peer_seq l' = Some (250 + of_nat (first_missing [1, 0, 0, 2, 9]) - 1)"
    by (rule csm_in_order_exactly_once [OF stream])
       (simp_all add: fm established_def l data_status_def)
  then show ?thesis
    by (auto simp: fm upt_rec csm_log_def established_def l simp del: read_all.simps)
qed

end
