(* ===== verification/Link_Properties.thy ===== *)
theory Link_Properties
  imports Link_Delivery
begin

text \<open>
  What the link layer promises beyond its trace and its delivery order: the transmit window,
  bounded retransmission, bounded negotiation, timers and the absence of panics.
\<close>

section \<open>The transmit window\<close>

lemma next_payload_fields:
  assumes "next_payload l = (r, l')"
  shows "ll_own_seq l' = ll_own_seq l" "ll_peer_lsp l' = ll_peer_lsp l" "ll_peer_seq l' = ll_peer_seq l"
    "ll_peer_ack l' = ll_peer_ack l" "ll_local_lsp l' = ll_local_lsp l" "ll_now l' = ll_now l"
    "ll_retransmit_map l' = ll_retransmit_map l" "ll_eak l' = ll_eak l" "ll_negotiation l' = ll_negotiation l"
    "ll_status l' = ll_status l" "ll_server l' = ll_server l" "ll_pending_ack l' = ll_pending_ack l"
  using assms by (auto simp: next_payload_def Let_def split: prod.splits option.splits)

lemma retransmit_one_own_seq [simp]: "ll_own_seq (snd (retransmit_one s l)) = ll_own_seq l"
  by (simp add: retransmit_one_def Let_def status_defs split: option.split)

lemma transmit_ack_own_seq: "transmit_ack l = Inr (r, l') \<Longrightarrow> ll_own_seq l' = ll_own_seq l"
  by (auto simp: transmit_ack_def prepare_ackable_def Let_def split: option.splits if_splits)

lemma transmit_payload_Some:
  assumes "transmit_payload t v l = Inr (Some w, l')"
  obtains p peer_seq session where "w = Packet p" "ll_peer_seq l = Some peer_seq"
    "find_session_of_type t l = Some session" "new_ack (ll_own_seq l) peer_seq session (Some v) = Inr p"
    "packet_size p \<le> unat (max_len (ll_peer_lsp l))" "ll_own_seq l' = modseq_add (ll_own_seq l) 1"
    "ll_retransmit_map l' = bt_insert (ll_own_seq l)
       \<lparr>re_packet = p, re_sent_at = ll_now l, re_retry_count = 0,
        re_timeout_deadline = ll_now l + from_millis (unat (retransmission_timeout (ll_local_lsp l)))\<rparr>
       (ll_retransmit_map l)"
proof -
  obtain peer_seq where s: "ll_peer_seq l = Some peer_seq"
    using assms by (auto simp: transmit_payload_def split: option.splits)
  obtain session where f: "find_session_of_type t l = Some session"
    using assms s by (cases "find_session_of_type t l") (auto simp: transmit_payload_def)
  obtain p where p: "new_ack (ll_own_seq l) peer_seq session (Some v) = Inr p"
    using assms s f by (auto simp: transmit_payload_def take_own_seq_def Let_def sum_bind_Inr_iff)
  have a: "is_ackable p" "h_seq (p_header p) = ll_own_seq l"
    using new_ack_fields [OF p] by (simp_all add: is_ackable_def control_simps Let_def)
  show thesis
    using assms s f p a that [of p peer_seq session]
    by (auto simp: transmit_payload_def take_own_seq_def prepare_ackable_def Let_def split: if_splits)
qed

text \<open>
  Claim C32: over an established link a new packet, one that takes a sequence number, is sent only
  in the writable status and inside the window: before it, the peer had acknowledged all
  but fewer than its announced maximum of outstanding packets. The packet takes the next
  sequence number, respects the peer's length limit, has a consistent length field and is
  remembered for retransmission until acknowledged.
\<close>

theorem new_packet_within_window:
  assumes data: "data_status (ll_status l)" and tx: "next_transmit l = Inr (Some w, l')"
    and new: "ll_own_seq l' \<noteq> ll_own_seq l"
  shows "ll_status l = Writable
    \<and> (\<forall>a. ll_peer_ack l = Some a \<longrightarrow> ll_own_seq l - a \<le> max_outgoing (ll_peer_lsp l))
    \<and> ll_own_seq l' = ll_own_seq l + 1
    \<and> (\<exists>p e. w = Packet p \<and> h_seq (p_header p) = ll_own_seq l \<and> packet_wf p
        \<and> packet_size p \<le> unat (max_len (ll_peer_lsp l))
        \<and> bt_get (ll_own_seq l) (ll_retransmit_map l') = Some e \<and> re_packet e = p \<and> re_retry_count e = 0)"
proof -
  have st: "\<not> is_error l" "\<not> is_downgrade l" "ll_status l \<noteq> Detecting" "ll_status l \<noteq> Negotiating"
    using data_status_not_error [OF data] by (auto simp: is_error_iff is_downgrade_def)
  have lingo: "payload_dequeue_tx (2 ^ 64 - 1) (ll_lingo l) = (None, ll_lingo l)"
    using tx st by (auto simp: next_transmit_def payload_dequeue_tx_def is_downgrade_def Let_def split: list.splits)
  let ?l = "l\<lparr>ll_pending_ack := (ll_pending_ack l)\<lparr>out_of_order_ids := []\<rparr>\<rparr>"
  have d: "transmit_data l = Inr (Some w, l')"
    using tx st lingo data by (simp add: next_transmit_def Let_def is_downgrade_def)
  have no_retransmit: "next_retransmit_seq (ll_now ?l) ?l = None"
  proof (rule ccontr)
    assume "next_retransmit_seq (ll_now ?l) ?l \<noteq> None"
    then obtain s where "next_retransmit_seq (ll_now ?l) ?l = Some s" by blast
    then have "retransmit_one s ?l = (Some w, l')" using d by (simp add: transmit_data_def)
    then show False using new retransmit_one_own_seq [of s ?l] by simp
  qed
  have no_ack: "\<And>l1. transmit_ack l1 = Inr (Some w, l') \<Longrightarrow> ll_own_seq l1 = ll_own_seq l \<Longrightarrow> False"
    using new transmit_ack_own_seq by metis
  obtain t v l1 where win: "is_window_writable ?l" "ll_status l = Writable"
    and np: "next_payload ?l = (Some (t, v), l1)" and tp: "transmit_payload t v l1 = Inr (Some w, l')"
    using d no_retransmit no_ack next_payload_fields(1)
    by (auto simp: transmit_data_def Let_def split: if_splits prod.splits option.splits) fastforce+
  note keep = next_payload_fields [OF np]
  from transmit_payload_Some [OF tp] obtain p peer_seq session where p: "w = Packet p"
    "new_ack (ll_own_seq l1) peer_seq session (Some v) = Inr p" "packet_size p \<le> unat (max_len (ll_peer_lsp l1))"
    "ll_own_seq l' = modseq_add (ll_own_seq l1) 1"
    "ll_retransmit_map l' = bt_insert (ll_own_seq l1)
       \<lparr>re_packet = p, re_sent_at = ll_now l1, re_retry_count = 0,
        re_timeout_deadline = ll_now l1 + from_millis (unat (retransmission_timeout (ll_local_lsp l1)))\<rparr>
       (ll_retransmit_map l1)" .
  have "\<forall>a. ll_peer_ack l = Some a \<longrightarrow> ll_own_seq l - a \<le> max_outgoing (ll_peer_lsp l)"
    using win(1) by (auto simp: is_window_writable_def modseq_sub_def)
  then show ?thesis
    using win(2) p keep new_ack_fields [OF p(2)] new_ack_wf [OF p(2)]
    by (auto simp: bt_get_insert modseq_add_def)
qed

text \<open>A writable link that has queued one control message.\<close>

definition writable_sample :: link_layer where
  "writable_sample = link_csm_enqueue [1, 2, 3]
     ((established 7 (link_initial True 0 (simple_negotiator lsp_bluetooth)))\<lparr>ll_peer_ack := Some 0x0F\<rparr>)"

lemma writable_sample_transmit:
  "\<exists>w l'. next_transmit writable_sample = Inr (Some w, l') \<and> ll_own_seq l' = 0x11"
  by (simp add: writable_sample_def link_csm_enqueue_def established_def link_initial_def
      payload_enqueue_tx_def payload_session_new_def next_transmit_def is_error_def is_downgrade_def
      payload_dequeue_tx_def data_status_def transmit_data_def next_retransmit_seq_def next_missing_psn_def
      is_window_writable_def lsp_bluetooth_def lsp_modern_sessions_def modseq_sub_def next_payload_def
      transmit_payload_def find_session_of_type_def take_own_seq_def modseq_add_def new_ack_def fix_length_def
      packet_size_def PACKET_OVERHEAD_def prepare_ackable_def is_ackable_def control_simps Let_def)

theorem new_packet_within_window_witness:
  "\<exists>w l'. next_transmit writable_sample = Inr (Some w, l') \<and> ll_own_seq l' = 0x11
     \<and> (\<exists>p. w = Packet p \<and> packet_wf p \<and> h_seq (p_header p) = 0x10)"
proof -
  obtain w l' where w: "next_transmit writable_sample = Inr (Some w, l')" "ll_own_seq l' = 0x11"
    using writable_sample_transmit by blast
  have own: "ll_own_seq writable_sample = 0x10" and data: "data_status (ll_status writable_sample)"
    by (simp_all add: writable_sample_def link_csm_enqueue_def established_def link_initial_def data_status_def)
  have "ll_own_seq l' \<noteq> ll_own_seq writable_sample" using w(2) own by simp
  from new_packet_within_window [OF data w(1) this] show ?thesis using w own by auto
qed

section \<open>Retransmission ends\<close>

lemma next_transmit_data:
  assumes "data_status (ll_status l)" and "ps_queue_tx (ll_lingo l) = []"
  shows "next_transmit l = transmit_data l"
proof -
  have "\<not> is_error l" "\<not> is_downgrade l" "ll_status l \<noteq> Detecting" "ll_status l \<noteq> Negotiating"
    using data_status_not_error [OF assms(1)] by (auto simp: is_error_iff is_downgrade_def)
  then show ?thesis
    using assms by (simp add: next_transmit_def payload_dequeue_tx_def Let_def is_downgrade_def)
qed

text \<open>A link in which one packet waits for its acknowledgement.\<close>

definition waiting :: "u8 \<Rightarrow> retransmit_entry \<Rightarrow> link_layer \<Rightarrow> bool" where
  "waiting seq e l \<longleftrightarrow> data_status (ll_status l) \<and> \<not> eak_is_active (ll_eak l)
     \<and> ps_queue_tx (ll_lingo l) = [] \<and> ll_peer_seq l \<noteq> None \<and> ll_retransmit_map l = [(seq, e)]
     \<and> h_seq (p_header (re_packet e)) = seq
     \<and> re_retry_count e \<le> max_retransmissions (ll_local_lsp l)
     \<and> re_timeout_deadline e \<le> ll_now l + from_millis (unat (retransmission_timeout (ll_local_lsp l)))"

text \<open>A round without an answer: a retransmission timeout passes, then the link transmits.\<close>

definition silent_timeout :: "link_layer \<Rightarrow> link_layer" where
  "silent_timeout l =
     l\<lparr>ll_now := ll_now l + from_millis (unat (retransmission_timeout (ll_local_lsp l)))\<rparr>"

fun silent_rounds :: "nat \<Rightarrow> link_layer \<Rightarrow> panic + (packet_or_detect list \<times> link_layer)" where
  "silent_rounds 0 l = Inr ([], l)"
| "silent_rounds (Suc n) l =
     sum_bind (next_transmit (silent_timeout l)) (\<lambda>(r, l).
     sum_bind (silent_rounds n l) (\<lambda>(rs, l).
       Inr ((case r of None \<Rightarrow> rs | Some w \<Rightarrow> w # rs), l)))"

lemma waiting_round:
  assumes w: "waiting seq e l"
  shows "if re_retry_count e = max_retransmissions (ll_local_lsp l)
    then \<exists>l'. next_transmit (silent_timeout l) = Inr (None, l') \<and> ll_status l' = Error RetransmissionsExceeded
    else \<exists>p e' l'. next_transmit (silent_timeout l) = Inr (Some (Packet p), l') \<and> waiting seq e' l'
      \<and> h_seq (p_header p) = seq \<and> p_payload p = p_payload (re_packet e)
      \<and> p_payload (re_packet e') = p_payload (re_packet e) \<and> ll_local_lsp l' = ll_local_lsp l
      \<and> unat (re_retry_count e') = Suc (unat (re_retry_count e))"
proof -
  let ?l = "silent_timeout l"
  let ?m = "?l\<lparr>ll_pending_ack := (ll_pending_ack ?l)\<lparr>out_of_order_ids := []\<rparr>\<rparr>"
  have nt: "next_transmit ?l = transmit_data ?l"
    using w by (intro next_transmit_data) (simp_all add: waiting_def silent_timeout_def)
  have "next_retransmit_seq (ll_now ?m) ?m = Some seq"
    using w by (simp add: waiting_def next_retransmit_seq_def silent_timeout_def eak_is_active_def
        next_missing_psn_def)
  then have one: "next_transmit ?l = Inr (retransmit_one seq ?m)"
    unfolding nt by (simp add: transmit_data_def)
  obtain s where s: "ll_peer_seq l = Some s" using w by (auto simp: waiting_def)
  have get: "bt_get seq (ll_retransmit_map ?m) = Some e"
    using w by (simp add: waiting_def silent_timeout_def bt_get_def)
  show ?thesis
  proof (cases "re_retry_count e = max_retransmissions (ll_local_lsp l)")
    case True
    then show ?thesis
      using one get by (simp add: retransmit_one_def silent_timeout_def)
  next
    case False
    then have less: "\<not> max_retransmissions (ll_local_lsp l) \<le> re_retry_count e"
      using w by (auto simp: waiting_def)
    then have "unat (re_retry_count e) < unat (max_retransmissions (ll_local_lsp l))"
      by (simp add: word_less_nat_alt not_le)
    then have count: "unat (re_retry_count e + 1) = Suc (unat (re_retry_count e))"
      using u8_range [of "max_retransmissions (ll_local_lsp l)"] by (simp add: unat_word_ariths)
    have le: "re_retry_count e + 1 \<le> max_retransmissions (ll_local_lsp l)"
      using less count by (simp add: word_le_nat_alt not_le)
    let ?p = "if is_syn (h_control (p_header (re_packet e))) then re_packet e
      else (re_packet e)\<lparr>p_header := (p_header (re_packet e))\<lparr>h_ack := s\<rparr>\<rparr>"
    let ?e = "e\<lparr>re_packet := ?p, re_retry_count := re_retry_count e + 1,
      re_timeout_deadline := ll_now ?m + from_millis (unat (retransmission_timeout (ll_local_lsp l)))\<rparr>"
    let ?l' = "?m\<lparr>ll_retransmit_map := [(seq, ?e)]\<rparr>"
    have map: "ll_retransmit_map ?m = [(seq, e)]" using w by (simp add: waiting_def silent_timeout_def)
    have "retransmit_one seq ?m = (Some (Packet ?p), ?l')"
      using get less s map by (auto simp: retransmit_one_def silent_timeout_def Let_def)
    moreover have "waiting seq ?e ?l'"
      using w le by (auto simp: waiting_def silent_timeout_def)
    moreover have "h_seq (p_header ?p) = seq" "p_payload ?p = p_payload (re_packet e)"
      using w by (auto simp: waiting_def)
    moreover have "ll_local_lsp ?l' = ll_local_lsp l" by (simp add: silent_timeout_def)
    moreover have "unat (re_retry_count ?e) = Suc (unat (re_retry_count e))" using count by simp
    moreover have "p_payload (re_packet ?e) = p_payload (re_packet e)" by simp
    ultimately show ?thesis
      unfolding one using False by (simp only: if_False) blast
  qed
qed

text \<open>
  Claim C22: an unanswered packet is retransmitted a bounded number of times, then the link gives
  up: with one packet outstanding and no answer from the peer, each retransmission timeout
  sends that packet again, exactly as often as the negotiated maximum still allows, and the
  round after that puts the link into the error status.
\<close>

theorem retransmission_gives_up:
  assumes "waiting seq e l"
  shows "\<exists>ws l'. silent_rounds (Suc (unat (max_retransmissions (ll_local_lsp l)) - unat (re_retry_count e))) l = Inr (ws, l')
    \<and> length ws = unat (max_retransmissions (ll_local_lsp l)) - unat (re_retry_count e)
    \<and> (\<forall>w \<in> set ws. \<exists>p. w = Packet p \<and> h_seq (p_header p) = seq \<and> p_payload p = p_payload (re_packet e))
    \<and> ll_status l' = Error RetransmissionsExceeded"
  using assms
proof (induction "unat (max_retransmissions (ll_local_lsp l)) - unat (re_retry_count e)" arbitrary: e l)
  case 0
  then have "re_retry_count e = max_retransmissions (ll_local_lsp l)"
    by (simp add: waiting_def word_le_nat_alt word_unat_eq_iff)
  then obtain l' where l': "next_transmit (silent_timeout l) = Inr (None, l')"
    "ll_status l' = Error RetransmissionsExceeded"
    using waiting_round [OF "0.prems"] by auto
  then have "silent_rounds (Suc 0) l = Inr ([], l')" by simp
  moreover have "unat (max_retransmissions (ll_local_lsp l)) - unat (re_retry_count e) = 0"
    using "0.hyps" by simp
  ultimately show ?case using l'(2) by (auto simp del: silent_rounds.simps)
next
  case (Suc n)
  then have "re_retry_count e \<noteq> max_retransmissions (ll_local_lsp l)" by auto
  then obtain p e' l1 where step: "next_transmit (silent_timeout l) = Inr (Some (Packet p), l1)"
    "waiting seq e' l1" "h_seq (p_header p) = seq" "p_payload p = p_payload (re_packet e)"
    "ll_local_lsp l1 = ll_local_lsp l" "unat (re_retry_count e') = Suc (unat (re_retry_count e))"
    "p_payload (re_packet e') = p_payload (re_packet e)"
    using waiting_round [OF Suc.prems] by auto
  have n: "n = unat (max_retransmissions (ll_local_lsp l1)) - unat (re_retry_count e')"
    using Suc.hyps(2) step(5,6) by simp
  from Suc.hyps(1) [OF n step(2)] obtain ws l' where ih:
    "silent_rounds (Suc n) l1 = Inr (ws, l')" "length ws = n"
    "\<forall>w \<in> set ws. \<exists>p. w = Packet p \<and> h_seq (p_header p) = seq \<and> p_payload p = p_payload (re_packet e')"
    "ll_status l' = Error RetransmissionsExceeded"
    unfolding n [symmetric] by blast
  have "silent_rounds (Suc (Suc n)) l = Inr (Packet p # ws, l')"
    using step(1) ih(1) by (simp add: silent_rounds.simps(2) [of "Suc n" l] del: silent_rounds.simps)
  then show ?case
    unfolding Suc.hyps(2) [symmetric] using ih(2,3,4) step(3,4,7) by auto
qed

definition waiting_sample :: "retransmit_entry \<Rightarrow> link_layer" where
  "waiting_sample e =
     (established 7 (link_initial True 0 (simple_negotiator lsp_bluetooth)))\<lparr>ll_retransmit_map := [(0x10, e)]\<rparr>"

theorem retransmission_gives_up_witness:
  "\<exists>e ws l'. silent_rounds 3 (waiting_sample e) = Inr (ws, l') \<and> length ws = 2
     \<and> ll_status l' = Error RetransmissionsExceeded"
proof -
  let ?e = "\<lparr>re_packet = (csm_sample 0)\<lparr>p_header := (p_header (csm_sample 0))\<lparr>h_seq := 0x10\<rparr>\<rparr>,
    re_sent_at = 0, re_retry_count = 28, re_timeout_deadline = 0\<rparr>"
  have "waiting 0x10 ?e (waiting_sample ?e)"
    by (simp add: waiting_def waiting_sample_def established_def link_initial_def data_status_def
        eak_is_active_def payload_session_new_def lsp_bluetooth_def)
  from retransmission_gives_up [OF this] show ?thesis
    by (simp add: waiting_sample_def established_def lsp_bluetooth_def numeral_3_eq_3 del: silent_rounds.simps)
       blast
qed

section \<open>Timers\<close>

lemma list_min_None [simp]: "list_min xs = None \<longleftrightarrow> xs = []"
  by (cases xs) (auto split: option.splits)

lemma list_min_Some: "list_min xs = Some m \<longleftrightarrow> m \<in> set xs \<and> (\<forall>x \<in> set xs. m \<le> x)"
proof (induction xs arbitrary: m)
  case (Cons x xs)
  show ?case
  proof (cases "list_min xs")
    case None
    then show ?thesis by auto
  next
    case (Some y)
    then have "y \<in> set xs" "\<forall>z \<in> set xs. y \<le> z" using Cons.IH by auto
    then show ?thesis using Some by (auto simp: min_def) fastforce+
  qed
qed simp

text \<open>The instants at which a link over which packets flow has something to do by itself.\<close>

definition deadlines :: "link_layer \<Rightarrow> nat set" where
  "deadlines l = (\<lambda>e. re_timeout_deadline (snd e)) ` set (ll_retransmit_map l)
     \<union> set_option (ack_deadline (ll_pending_ack l))"

lemma link_sleep_eq:
  assumes "\<not> is_error l" and "ll_status l \<noteq> Detecting"
  shows "case link_sleep l of
      None \<Rightarrow> deadlines l = {}
    | Some d \<Rightarrow> \<exists>t \<in> deadlines l. (\<forall>t' \<in> deadlines l. t \<le> t') \<and> d = t - ll_now l"
proof -
  let ?r = "list_min (map (\<lambda>e. re_timeout_deadline (snd e)) (ll_retransmit_map l))"
  let ?m = "list_min (option_list [?r, ack_deadline (ll_pending_ack l)])"
  have sleep: "link_sleep l = map_option (\<lambda>t. t - ll_now l) ?m"
    using assms by (simp add: link_sleep_def Let_def)
  show ?thesis
  proof (cases ?r)
    case None
    then show ?thesis
      unfolding sleep
      by (cases "ack_deadline (ll_pending_ack l)") (auto simp: option_list_def deadlines_def)
  next
    case (Some t)
    then have t: "t \<in> (\<lambda>e. re_timeout_deadline (snd e)) ` set (ll_retransmit_map l)"
      "\<forall>x \<in> (\<lambda>e. re_timeout_deadline (snd e)) ` set (ll_retransmit_map l). t \<le> x"
      by (auto simp: list_min_Some)
    show ?thesis
    proof (cases "ack_deadline (ll_pending_ack l)")
      case None
      then show ?thesis using Some t by (auto simp: sleep option_list_def deadlines_def)
    next
      case (Some a)
      have m: "?m = Some (min t a)" using \<open>?r = Some t\<close> Some by (simp add: option_list_def min.commute)
      have d: "deadlines l = (\<lambda>e. re_timeout_deadline (snd e)) ` set (ll_retransmit_map l) \<union> {a}"
        using Some by (simp add: deadlines_def)
      show ?thesis
        unfolding sleep m d using t by (auto simp: min_def intro: order_trans)
    qed
  qed
qed

text \<open>
  The recommended delay is exact. Over a link that is neither detecting nor failed,
  \<open>sleep\<close> recommends nothing exactly when no retransmission and no acknowledgement is scheduled;
  otherwise the delay ends at the earliest deadline, so that before it no retransmission is due
  and at it something is.
\<close>

lemma sleep_until_earliest_deadline:
  assumes "\<not> is_error l" and "ll_status l \<noteq> Detecting"
  shows "(link_sleep l = None \<longleftrightarrow> ll_retransmit_map l = [] \<and> ack_deadline (ll_pending_ack l) = None)
    \<and> (\<forall>d. link_sleep l = Some d \<longrightarrow>
        (\<forall>t. ll_now l \<le> t \<and> t < ll_now l + d \<and> \<not> eak_is_active (ll_eak l) \<longrightarrow>
          next_retransmit_seq t l = None \<and> (\<forall>a. ack_deadline (ll_pending_ack l) = Some a \<longrightarrow> t < a))
        \<and> (\<exists>t \<in> deadlines l. t \<le> ll_now l + d))"
proof (intro conjI allI impI)
  show "link_sleep l = None \<longleftrightarrow> ll_retransmit_map l = [] \<and> ack_deadline (ll_pending_ack l) = None"
    using assms by (simp add: link_sleep_def Let_def option_list_def split: option.split) auto
next
  fix d
  assume "link_sleep l = Some d"
  then obtain m where m: "m \<in> deadlines l" "\<forall>t' \<in> deadlines l. m \<le> t'" "d = m - ll_now l"
    using link_sleep_eq [OF assms] by auto
  then show "\<exists>t \<in> deadlines l. t \<le> ll_now l + d" by (intro bexI [of _ m]) simp_all
  fix t
  assume t: "ll_now l \<le> t \<and> t < ll_now l + d \<and> \<not> eak_is_active (ll_eak l)"
  then have early: "t < x" if "x \<in> deadlines l" for x
    using that m by fastforce
  have "filter (\<lambda>(_, entry). re_timeout_deadline entry \<le> t) (ll_retransmit_map l) = []"
    using early by (force simp: deadlines_def filter_empty_conv)
  moreover have "next_missing_psn (ll_eak l) = None"
    using t by (simp add: eak_is_active_def next_missing_psn_def)
  ultimately show "next_retransmit_seq t l = None"
    by (simp add: next_retransmit_seq_def)
  show "t < a" if "ack_deadline (ll_pending_ack l) = Some a" for a
    using early that by (simp add: deadlines_def)
qed

theorem sleep_until_earliest_deadline_witness:
  "link_sleep writable_sample = None"
  using sleep_until_earliest_deadline [of writable_sample]
  by (simp add: writable_sample_def link_csm_enqueue_def established_def link_initial_def is_error_def
      pending_ack_default_def)

section \<open>Panics\<close>

text \<open>The file session of a reachable link is consistent: an invariant over all steps.\<close>

definition files_wf :: "link_layer \<Rightarrow> bool" where
  "files_wf l \<longleftrightarrow> file_session_wf (ll_files l)"

lemma files_wf_cong: "ll_files l' = ll_files l \<Longrightarrow> files_wf l' = files_wf l"
  by (simp add: files_wf_def)

lemma files_wf_drain [simp]: "files_wf (drain_events l) = files_wf l"
  by (simp add: files_wf_def drain_events_eq file_session_wf_def)

lemma files_same [simp]:
  "ll_files (change_state s l) = ll_files l"
  "ll_files (enter_error_state e l) = ll_files l"
  "ll_files (send_event ev l) = ll_files l"
  "ll_files (refresh_data_status l) = ll_files l"
  "ll_files (recv_ack p l) = ll_files l"
  "ll_files (recv_eak p l) = ll_files l"
  "ll_files (snd (retransmit_one q l)) = ll_files l"
  "ll_files (snd (prepare_ackable p l)) = ll_files l"
  "ll_files (on_recv_neg p l) = ll_files l"
  by (simp_all add: status_defs refresh_data_status_def recv_ack_def recv_eak_def retransmit_one_def
      prepare_ackable_def on_recv_neg_def on_recv_neg_host_def on_recv_neg_accessory_def
      advance_peer_seq_from_ackable_def case_prod_beta Let_def split: option.split)

lemma files_wf_next_payload: "files_wf l \<Longrightarrow> next_payload l = (r, l') \<Longrightarrow> files_wf l'"
  using file_dequeue_tx_wf [of "ll_files l" "unat (max_len (ll_peer_lsp l)) - PACKET_OVERHEAD"]
  by (auto simp: files_wf_def next_payload_def Let_def split: prod.splits option.splits)

lemma files_transmit:
  "take_pending_negotiation_transmit l = Inr (r, l') \<Longrightarrow> ll_files l' = ll_files l"
  "transmit_payload t v l = Inr (r, l') \<Longrightarrow> ll_files l' = ll_files l"
  "transmit_ack l = Inr (r, l') \<Longrightarrow> ll_files l' = ll_files l"
  by (auto simp: take_pending_negotiation_transmit_def transmit_payload_def transmit_ack_def
      take_own_seq_def Let_def case_prod_beta sum_bind_Inr_iff
      split: option.splits prod.splits negotiation_tx.splits if_splits)

lemma files_retransmit: "retransmit_one s l = (r, l') \<Longrightarrow> ll_files l' = ll_files l"
  using files_same(7) [of s l] by simp

lemma files_prepare: "prepare_ackable p l = (r, l') \<Longrightarrow> ll_files l' = ll_files l"
  using files_same(8) [of p l] by simp

lemma files_transmit_negotiating: "transmit_negotiating l = Inr (r, l') \<Longrightarrow> ll_files l' = ll_files l"
  by (auto simp: transmit_negotiating_def take_own_seq_def Let_def sum_bind_Inr_iff
      split: option.splits if_splits dest!: files_transmit(1) files_retransmit files_prepare)

lemma files_wf_transmit_data:
  assumes wf: "files_wf l" and tx: "transmit_data l = Inr (r, l')"
  shows "files_wf l'"
proof -
  let ?l = "l\<lparr>ll_pending_ack := (ll_pending_ack l)\<lparr>out_of_order_ids := []\<rparr>\<rparr>"
  have wf1: "files_wf ?l" using wf by (simp add: files_wf_def)
  have np: "files_wf l1" if "next_payload ?l = (v, l1)" for v l1
    by (rule files_wf_next_payload [OF wf1 that])
  show ?thesis
    using tx wf np
    by (auto simp: transmit_data_def Let_def files_wf_def split: option.splits if_splits prod.splits
        dest!: files_retransmit files_transmit(2,3))
qed

lemma files_wf_next_transmit:
  assumes wf: "files_wf l" and tx: "next_transmit l = Inr (r, l')"
  shows "files_wf l'"
proof -
  let ?l = "l\<lparr>ll_lingo := snd (payload_dequeue_tx (2 ^ 64 - 1) (ll_lingo l))\<rparr>"
  have wf1: "files_wf ?l" using wf by (simp add: files_wf_def)
  have np: "files_wf l1" if "next_payload ?l = (v, l1)" for v l1
    by (rule files_wf_next_payload [OF wf1 that])
  have neg: "files_wf l'" if "transmit_negotiating ?l = Inr (r, l')"
    using files_transmit_negotiating [OF that] wf by (simp add: files_wf_def)
  show ?thesis
    using tx wf wf1 np neg files_wf_transmit_data [OF wf1, of r l']
    by (auto simp: next_transmit_def transmit_detecting_def Let_def files_wf_def
        split: prod.splits option.splits if_splits)
qed

lemma files_wf_transmit_loop: "files_wf l \<Longrightarrow> transmit_loop n l = Inr (b, l') \<Longrightarrow> files_wf l'"
proof (induction n arbitrary: l)
  case (Suc n)
  obtain r l1 where tx: "next_transmit l = Inr (r, l1)"
    and rest: "(case r of None \<Rightarrow> Inr (False, l1)
      | Some p \<Rightarrow> transmit_loop n (refresh_data_status (send_event (Write p) l1))) = Inr (b, l')"
    using Suc.prems(2) by (auto simp: sum_bind_Inr_iff)
  have "files_wf l1" by (rule files_wf_next_transmit [OF Suc.prems(1) tx])
  then show ?case
    using rest Suc.IH [of "refresh_data_status (send_event (Write (the r)) l1)"]
    by (cases r) (simp_all add: files_wf_def)
qed simp

lemma files_wf_reconcile: "files_wf l \<Longrightarrow> reconcile n l = Inr (b, l') \<Longrightarrow> files_wf l'"
  unfolding reconcile_def by (rule files_wf_transmit_loop [of "drain_events l"]) simp_all

definition file_id_255 :: "packet \<Rightarrow> bool" where
  "file_id_255 p \<longleftrightarrow> (\<exists>f. file_from_packet p = Some f \<and> fp_file_id f = 255)"

lemma process_ack_payload_files:
  assumes "files_wf l"
  shows "case process_ack_payload p l of Inl _ \<Rightarrow> file_id_255 p | Inr l' \<Rightarrow> files_wf l'"
proof -
  have "case file_enqueue_rx p (ll_files l) of Inl _ \<Rightarrow> file_id_255 p | Inr s \<Rightarrow> file_session_wf s"
    using file_enqueue_rx_ok [of "ll_files l" p] assms
    by (auto simp: files_wf_def file_id_255_def split: sum.splits)
  then show ?thesis
    using assms
    by (auto simp: process_ack_payload_def Let_def files_wf_def drain_events_eq file_session_wf_def
        split: option.split session_type.split sum.splits)
qed

lemma drain_buffered_files:
  "files_wf l \<Longrightarrow>
     (case drain_buffered s l of
        Inl _ \<Rightarrow> \<exists>k p. bt_get k (ll_out_of_order l) = Some p \<and> file_id_255 p
      | Inr l' \<Rightarrow> files_wf l')"
proof (induction s l rule: drain_buffered.induct)
  case (1 s l)
  show ?case
  proof (cases "bt_get s (ll_out_of_order l)")
    case None
    then show ?thesis using 1 by (simp add: drain_buffered.simps [of s l])
  next
    case (Some p)
    let ?l = "l\<lparr>ll_out_of_order := bt_remove s (ll_out_of_order l)\<rparr>"
    have wf: "files_wf ?l" using "1.prems" by (simp add: files_wf_def)
    show ?thesis
    proof (cases "process_ack_payload p ?l")
      case (Inl e)
      then have "file_id_255 p" using process_ack_payload_files [OF wf, of p] by simp
      then show ?thesis using Inl Some by (auto simp: drain_buffered.simps [of s l])
    next
      case (Inr l1)
      let ?l1 = "l1\<lparr>ll_peer_seq := Some s\<rparr>"
      have "files_wf ?l1" using process_ack_payload_files [OF wf, of p] Inr by (simp add: files_wf_def)
      moreover have "ll_out_of_order ?l1 = bt_remove s (ll_out_of_order l)"
        using process_ack_payload_out_of_order [OF Inr] by simp
      ultimately have "case drain_buffered (modseq_add s 1) ?l1 of
          Inl _ \<Rightarrow> \<exists>k p. bt_get k (bt_remove s (ll_out_of_order l)) = Some p \<and> file_id_255 p
        | Inr l' \<Rightarrow> files_wf l'"
        using "1.IH" [OF Some Inr] by (simp split: sum.splits)
      then show ?thesis
        using Some Inr by (simp add: drain_buffered.simps [of s l] bt_get_remove split: sum.splits) (metis option.distinct(1))
    qed
  qed
qed

lemma recv_data_files:
  assumes "files_wf l"
  shows "case recv_data p s l of
      Inl _ \<Rightarrow> file_id_255 p \<or> (\<exists>k q. bt_get k (ll_out_of_order l) = Some q \<and> file_id_255 q)
    | Inr l' \<Rightarrow> files_wf l'"
proof (cases "modseq_cmp (h_seq (p_header p)) (modseq_add s 1) = Some Equal")
  case True
  let ?seq = "h_seq (p_header p)"
  have rd: "recv_data p s l = sum_bind (process_ack_payload p l)
      (\<lambda>l. drain_buffered (modseq_add ?seq 1) (l\<lparr>ll_peer_seq := Some ?seq\<rparr>))"
    using True by (simp add: recv_data_def Let_def)
  show ?thesis
  proof (cases "process_ack_payload p l")
    case (Inl e)
    then show ?thesis using process_ack_payload_files [OF assms, of p] rd by simp
  next
    case (Inr l1)
    let ?l1 = "l1\<lparr>ll_peer_seq := Some ?seq\<rparr>"
    have "files_wf ?l1" using process_ack_payload_files [OF assms, of p] Inr by (simp add: files_wf_def)
    from drain_buffered_files [OF this, of "modseq_add ?seq 1"] show ?thesis
      using rd Inr process_ack_payload_out_of_order [OF Inr] by (auto split: sum.splits)
  qed
next
  case False
  then show ?thesis
    using assms by (auto simp: recv_data_def Let_def files_wf_def split: option.split ordering.split)
qed

lemma link_read_files:
  assumes wf: "files_wf l"
  shows "case link_read item l of
      Inl _ \<Rightarrow> \<exists>p. (item = Packet p \<or> (\<exists>k. bt_get k (ll_out_of_order l) = Some p)) \<and> file_id_255 p
    | Inr l' \<Rightarrow> files_wf l'"
proof (cases item)
  case (Packet p)
  obtain l0 where l0: "l0 = (if ll_server l \<and> ll_status l = Detecting then change_state Negotiating l else l)"
    by blast
  have wf0: "files_wf l0" "files_wf (recv_ack p l0)" "files_wf (recv_eak p (recv_ack p l0))"
    using wf by (simp_all add: files_wf_def l0)
  have ooo: "ll_out_of_order (recv_eak p (recv_ack p l0)) = ll_out_of_order l"
    by (simp add: recv_eak_def change_state_def l0 split: option.split)
  have "case read_packet p l of
      Inl _ \<Rightarrow> file_id_255 p \<or> (\<exists>k q. bt_get k (ll_out_of_order l) = Some q \<and> file_id_255 q)
    | Inr l' \<Rightarrow> files_wf l'"
    using wf wf0 recv_data_files [OF wf0(3), of p, unfolded ooo]
    unfolding read_packet_def Let_def l0 [symmetric]
    by (auto simp: files_wf_def split: option.split)
  then show ?thesis using Packet wf by (auto simp: link_read_def split: sum.splits)
next
  case Detect
  then show ?thesis
    using wf by (auto simp: link_read_def reconcile_def files_wf_def drain_events_eq file_session_wf_def)
next
  case (Legacy b)
  then show ?thesis
    using wf by (auto simp: link_read_def read_legacy_def link_downgrade_def Let_def files_wf_def
        split: link_status.split prod.split)
qed

lemma file_call_wf: "file_call s s' \<Longrightarrow> file_session_wf s \<Longrightarrow> file_session_wf s'"
proof (induction rule: file_call.induct)
  case (call_reserve s i s')
  then have wf: "tx_wf (fs_tx s)" by (simp add: file_session_wf_def)
  show ?case
    using wf
  proof (cases rule: transmitter_reserve_ok)
    case (some k)
    have "tx_wf ((fs_tx s)\<lparr>tx_taken_ids := (tx_taken_ids (fs_tx s))[k := True]\<rparr>)"
      using tx_wf_taken [OF wf, of k True] by simp
    then show ?thesis using some call_reserve by (auto simp: reserve_file_tx_def file_session_wf_def)
  next
    case none
    then show ?thesis using call_reserve by (auto simp: reserve_file_tx_def)
  qed
next
  case (call_cancel i s s')
  then show ?case
    using tx_wf_taken [of "fs_tx s" "unat i" False]
    by (auto simp: cancel_file_tx_def transmitter_cancel_reserved_def set_taken_def file_session_wf_def
        split: if_splits)
next
  case (call_send src i ty data s s')
  then have wf: "tx_wf (fs_tx s)" by (simp add: file_session_wf_def)
  obtain r tx where "transmitter_setup i ty data src (fs_tx s) = Inr (r, tx)"
    and s': "fs_tx s' = tx" "fs_rx s' = fs_rx s" "fs_server s' = fs_server s"
    using call_send.hyps(2) by (auto simp: send_file_def sum_bind_Inr_iff)
  from transmitter_setup_wf [OF wf call_send.hyps(1) this(1)] show ?case
    using call_send.prems s' by (simp add: file_session_wf_def)
next
  case (call_local_event s)
  then show ?case by (simp add: dequeue_local_event_def file_session_wf_def split: list.split)
next
  case (call_dequeue s n)
  then show ?case by (rule file_dequeue_tx_wf)
qed

lemma link_reach_files: "link_reach l \<Longrightarrow> files_wf l"
proof (induction rule: link_reach.induct)
  case (link_reach_new server now neg l)
  then show ?case by (auto simp: files_wf_def link_initial_def)
next
  case (link_reach_read l item l')
  then show ?case using link_read_files [of l item] by simp
next
  case (link_reach_reconcile l n b l')
  then show ?case using files_wf_reconcile by blast
next
  case (link_reach_files l fs)
  then show ?case using file_call_wf by (auto simp: files_wf_def)
next
  case (link_reach_downgrade l)
  then show ?case by (simp add: link_downgrade_def files_wf_def split: link_status.split)
next
  case (link_reach_drain l)
  then show ?case by simp
qed (simp_all add: files_wf_def link_csm_enqueue_def link_ea_enqueue_def link_lingo_enqueue_def link_close_def)

text \<open>
  Claim C26: no input panics a reachable link, except file transfer datagrams that name file 255:
  reading any item either leads to a reachable link again or panics, and then the item itself
  or a packet buffered before it is such a datagram.
\<close>

theorem link_read_panics_only_255:
  assumes "link_reach l"
  shows "case link_read item l of
      Inr l' \<Rightarrow> link_reach l'
    | Inl _ \<Rightarrow> \<exists>p f. (item = Packet p \<or> (\<exists>k. bt_get k (ll_out_of_order l) = Some p))
        \<and> file_from_packet p = Some f \<and> fp_file_id f = 255"
  using link_read_files [OF link_reach_files [OF assms], of item] link_reach_read [OF assms, of item]
  by (auto simp: file_id_255_def split: sum.splits)

theorem link_read_panics_only_255_witness:
  "case link_read Detect (link_initial True 0 (simple_negotiator lsp_usb)) of
      Inr l' \<Rightarrow> link_reach l'
    | Inl _ \<Rightarrow> False"
proof -
  have "link_reach (link_initial True 0 (simple_negotiator lsp_usb))"
    by (rule link_reach_new [of True 0 "simple_negotiator lsp_usb"]) simp
  from link_read_panics_only_255 [OF this, of Detect] show ?thesis
    by (auto simp: link_initial_def split: sum.splits)
qed

text \<open>
  Claim C28: a peer can make the link panic with one packet: over an established link, the next
  in-order packet of the peer's file transfer session that carries a readable datagram for file
  255 hits the unchecked slot lookup of the transmitter.
\<close>

theorem file_255_panics_link:
  assumes "link_reach l" and data: "data_status (ll_status l)" and "ll_peer_seq l = Some s"
    and ack: "is_ack (h_control (p_header p))" and seq: "h_seq (p_header p) = s + 1"
    and size: "packet_size p \<le> unat (max_len (ll_local_lsp l))"
    and sess: "find (\<lambda>x. ls_id x = h_session_id (p_header p)) (sessions (ll_peer_lsp l)) = Some x"
    and ty: "ls_type x = FileTransfer" and f: "file_from_packet p = Some f" "fp_file_id f = 255"
  shows "link_read (Packet p) l = Inl Unwrap_None"
proof -
  have st: "ll_status l \<noteq> Detecting" "\<not> is_error l" "\<not> is_downgrade l"
    using data_status_not_error [OF data] by (auto simp: is_error_iff is_downgrade_def)
  let ?l = "recv_ack p l"
  have wf: "receiver_wf (fs_rx (ll_files l))" "tx_wf (fs_tx (ll_files l))"
    using link_reach_files [OF assms(1)] by (simp_all add: files_wf_def file_session_wf_def)
  obtain r rx where rx: "receiver_feed (fs_rx (ll_files l)) f = Inr (r, rx)"
    by (rule receiver_feed_ok [OF wf(1)])
  have enq: "file_enqueue_rx p (ll_files l) = Inl Unwrap_None"
    using f rx transmitter_feed_255 [OF wf(2) f(2)]
    by (simp add: file_enqueue_rx_def push_results_def Let_def case_prod_beta)
  have st1: "data_status (ll_status ?l)" using data by (simp add: recv_ack_keeps_class)
  then have st2: "ll_status ?l \<noteq> Negotiating" using data_status_not_error by blast
  have ctl: "\<not> is_rst (h_control (p_header p))" "\<not> is_eak (h_control (p_header p))"
    using control_exclusive(1) [OF ack] by simp_all
  have pl: "p_payload p \<noteq> None" using f(1) by (auto simp: file_from_packet_def split: option.splits)
  have "link_read (Packet p) l = recv_data p s ?l"
    using st st1 st2 ctl ack size pl assms(3)
    by (auto simp: link_read_def read_packet_def recv_eak_def Let_def)
  also have "\<dots> = Inl Unwrap_None"
    using seq sess ty enq by (simp add: recv_data_def modseq_add_def process_ack_payload_def Let_def)
  finally show ?thesis .
qed

section \<open>Transmitting does not panic\<close>

text \<open>
  What the owner of a link must respect: payloads fit a packet, and the parameters in use announce
  every kind of session.
\<close>

definition queues_fit :: "link_layer \<Rightarrow> bool" where
  "queues_fit l \<longleftrightarrow>
     (\<forall>v \<in> set (ps_queue_tx (ll_csm l)) \<union> set (ps_queue_tx (ll_ea l)). length v \<le> 65525)
     \<and> (\<forall>p \<in> set (fs_queue_tx (ll_files l)). length (fp_payload p) \<le> 65523)
     \<and> (\<forall>t. find_session_of_type t l \<noteq> None)
     \<and> length (sessions (neg_local_lsp (ll_negotiation l))) \<le> 21838"

lemma transmitter_poll_length:
  assumes "transmitter_poll c tx = (Some p, tx')"
  shows "length (fp_payload p) \<le> c"
proof -
  have "list_ex slot_sending (tx_outgoing tx)"
    using assms poll_slots_None [of c "tx_outgoing tx"]
    by (cases "poll_slots c (tx_outgoing tx)") (auto simp: transmitter_poll_def)
  then obtain k f where "poll_slots c (tx_outgoing tx) =
      (fst (out_poll_send c f), (tx_outgoing tx)[k := Some (snd (out_poll_send c f))])"
    by (rule poll_slots_first)
  then have "fst (out_poll_send c f) = Some p" using assms by (simp add: transmitter_poll_def)
  then show ?thesis
    by (auto simp: out_poll_send_def get_chunk_rest Let_def split: if_splits)
qed

lemma next_payload_length:
  assumes "queues_fit l" and "next_payload l = (Some (t, v), l')"
  shows "length v \<le> 65525"
proof -
  let ?n = "unat (max_len (ll_peer_lsp l)) - PACKET_OVERHEAD"
  have n: "?n \<le> 65525"
    using unat_range [of "max_len (ll_peer_lsp l)"] by (simp add: PACKET_OVERHEAD_def)
  have polled: "length v \<le> 65525" if "file_dequeue_tx ?n (ll_files l) = (Some v, fs)" for fs
    using that n assms(1) transmitter_poll_length [of "?n - FILE_HEADER_OVERHEAD" "fs_tx (ll_files l)"]
    by (fastforce simp: file_dequeue_tx_def queues_fit_def file_to_bytes_def FILE_HEADER_OVERHEAD_def Let_def
        split: list.splits prod.splits option.splits if_splits)
  show ?thesis
    using assms polled
    by (auto simp: next_payload_def Let_def queues_fit_def payload_dequeue_tx_def
        split: prod.splits option.splits list.splits)
qed

lemma transmit_payload_total:
  assumes "find_session_of_type t l \<noteq> None" and "length v \<le> 65525"
  shows "\<exists>r. transmit_payload t v l = Inr r"
  using assms
  by (auto simp: transmit_payload_def new_ack_def fix_length_def take_own_seq_def Let_def split: option.split prod.split)

lemma transmit_ack_total: "\<exists>r. transmit_ack l = Inr r"
  by (auto simp: transmit_ack_def Let_def split: option.split prod.split)

lemma transmit_data_total:
  assumes "queues_fit l"
  shows "\<exists>r. transmit_data l = Inr r"
proof -
  let ?l = "l\<lparr>ll_pending_ack := (ll_pending_ack l)\<lparr>out_of_order_ids := []\<rparr>\<rparr>"
  have fit: "queues_fit ?l" using assms by (simp add: queues_fit_def find_session_of_type_def)
  have pay: "\<exists>r. transmit_payload t v l1 = Inr r" if "next_payload ?l = (Some (t, v), l1)" for t v l1
  proof (rule transmit_payload_total)
    show "length v \<le> 65525" by (rule next_payload_length [OF fit that])
    show "find_session_of_type t l1 \<noteq> None"
      using fit next_payload_fields(5) [OF that] by (simp add: queues_fit_def find_session_of_type_def)
  qed
  show ?thesis
    using pay transmit_ack_total
    by (auto simp: transmit_data_def Let_def split: option.split prod.split)
qed

lemma transmit_negotiating_total:
  assumes "queues_fit l"
  shows "\<exists>r. transmit_negotiating l = Inr r"
proof -
  have len: "length (sessions (nd_local_lsp (neg_data (ll_negotiation l)))) \<le> 21838"
    using assms by (simp add: queues_fit_def neg_local_lsp_def)
  have syn: "\<exists>q. new_syn s lsp = Inr q" "\<exists>q. new_syn_ack s a lsp = Inr q" if "length (sessions lsp) \<le> 21838" for s a lsp
    using that by (simp_all add: new_syn_def new_syn_ack_def fix_length_def)
  let ?lsp = "nd_local_lsp (neg_data (ll_negotiation l))"
  obtain q where q: "\<And>s a. new_syn_ack s a ?lsp = Inr (q s a)"
    using syn(2) [OF len] by metis
  have take: "\<exists>r l1. take_pending_negotiation_transmit l = Inr (r, l1)
      \<and> (r = None \<longrightarrow> neg_data (ll_negotiation l1) = neg_data (ll_negotiation l))"
    using q
    by (cases "ll_negotiation l" rule: take_pending_tx.cases)
       (auto simp: take_pending_negotiation_transmit_def take_own_seq_def Let_def case_prod_beta
          split: option.split)
  then obtain r l1 where take: "take_pending_negotiation_transmit l = Inr (r, l1)"
    "r = None \<Longrightarrow> neg_data (ll_negotiation l1) = neg_data (ll_negotiation l)" by blast
  obtain q1 where q1: "\<And>s. new_syn s ?lsp = Inr (q1 s)"
    using syn(1) [OF len] by metis
  show ?thesis
    using take q1
    by (cases r) (auto simp: transmit_negotiating_def take_own_seq_def neg_local_lsp_def Let_def
        split: option.split)
qed

text \<open>
  Claim C29: transmitting never panics while the owner respects the limits: if every queued payload
  fits a packet and the local parameters announce each kind of session, choosing the next
  frame returns, with a frame or without.
\<close>

theorem transmit_never_panics:
  assumes "queues_fit l"
  shows "\<exists>r l'. next_transmit l = Inr (r, l')"
proof -
  let ?l = "l\<lparr>ll_lingo := snd (payload_dequeue_tx (2 ^ 64 - 1) (ll_lingo l))\<rparr>"
  have fit: "queues_fit ?l" using assms by (simp add: queues_fit_def find_session_of_type_def)
  show ?thesis
    using transmit_data_total [OF fit] transmit_negotiating_total [OF fit]
    by (auto simp: next_transmit_def Let_def split: prod.split option.split)
qed

theorem transmit_never_panics_witness:
  "\<exists>r l'. next_transmit writable_sample = Inr (r, l')"
proof (rule transmit_never_panics)
  have "find_session_of_type t writable_sample \<noteq> None" for t
    by (cases t) (simp_all add: find_session_of_type_def writable_sample_def link_csm_enqueue_def
        established_def lsp_bluetooth_def lsp_modern_sessions_def)
  then show "queues_fit writable_sample"
    by (simp add: queues_fit_def writable_sample_def link_csm_enqueue_def established_def link_initial_def
        payload_enqueue_tx_def payload_session_new_def file_session_new_def negotiation_new_def
        neg_local_lsp_def simple_negotiator_def lsp_bluetooth_def lsp_modern_sessions_def)
qed

end
