(* ===== verification/Link_Handshake.thy ===== *)
theory Link_Handshake
  imports Link_Properties
begin

text \<open>
  Two links talking to each other: the negotiation from detection to the established link, and
  its bound on rounds.
\<close>

section \<open>Two parties\<close>

fun writes :: "link_event list \<Rightarrow> packet_or_detect list" where
  "writes [] = []"
| "writes (Write w # es) = w # writes es"
| "writes (_ # es) = writes es"

definition new_writes :: "link_layer \<Rightarrow> link_layer \<Rightarrow> packet_or_detect list" where
  "new_writes l l' = writes (drop (length (ll_events l)) (ll_events l'))"

fun read_items :: "packet_or_detect list \<Rightarrow> link_layer \<Rightarrow> panic + link_layer" where
  "read_items [] l = Inr l"
| "read_items (w # ws) l = sum_bind (link_read w l) (read_items ws)"

text \<open>A turn: one party transmits at most one frame, the other reads what was written.\<close>

definition turn :: "link_layer \<Rightarrow> link_layer \<Rightarrow> panic + (link_layer \<times> link_layer)" where
  "turn x y =
     sum_bind (reconcile 1 x) (\<lambda>(_, x').
     sum_bind (read_items (new_writes x x') y) (\<lambda>y'. Inr (x', y')))"

definition handshake :: "link_layer \<Rightarrow> link_layer \<Rightarrow> panic + (link_layer \<times> link_layer)" where
  "handshake a h =
     sum_bind (turn a h) (\<lambda>(a, h).
     sum_bind (turn h a) (\<lambda>(h, a).
     sum_bind (turn a h) (\<lambda>(a, h).
     sum_bind (turn h a) (\<lambda>(h, a).
       turn a h))))"

text \<open>An offer that can be negotiated: it announces a control session and fits the initial limit.\<close>

definition offer_ok :: "lsp_payload \<Rightarrow> bool" where
  "offer_ok lsp \<longleftrightarrow> list_ex (\<lambda>s. ls_type s = Control) (sessions lsp) \<and> length (sessions lsp) \<le> 36
     \<and> 1 \<le> max_outgoing lsp"

lemmas run_simps =
  turn_def reconcile_def drain_events_eq file_session_new_def next_transmit_def is_error_def is_downgrade_def
  payload_session_new_def payload_dequeue_tx_def transmit_detecting_def send_event_def refresh_data_status_def
  data_status_def new_writes_def link_read_def pending_ack_default_def change_state_def Let_def

lemma writes_append: "writes (xs @ ys) = writes xs @ writes ys"
  by (induction xs rule: writes.induct) simp_all

abbreviation accessory0 :: "nat \<Rightarrow> lsp_payload \<Rightarrow> link_layer" where
  "accessory0 t lsp \<equiv> link_initial False t (simple_negotiator lsp)"

abbreviation host0 :: "nat \<Rightarrow> lsp_payload \<Rightarrow> link_layer" where
  "host0 t lsp \<equiv> link_initial True t (simple_negotiator lsp)"

lemma turn_detect:
  "turn (accessory0 t lsp) (host0 u lsp') = Inr
     ((accessory0 t lsp)\<lparr>ll_detect_last_transmit := Some t, ll_events := [Write Detect]\<rparr>,
      (host0 u lsp')\<lparr>ll_pending_ack := pending_ack_default\<lparr>needs_detect_acknowledge := True\<rparr>\<rparr>)"
  by (simp add: run_simps link_initial_def)

lemma turn_detect_answer:
  "turn ((host0 u lsp')\<lparr>ll_pending_ack := pending_ack_default\<lparr>needs_detect_acknowledge := True\<rparr>\<rparr>)
     ((accessory0 t lsp)\<lparr>ll_detect_last_transmit := Some t, ll_events := [Write Detect]\<rparr>) = Inr
     ((host0 u lsp')\<lparr>ll_events := [Write Detect]\<rparr>,
      (accessory0 t lsp)\<lparr>ll_detect_last_transmit := Some t, ll_status := Negotiating,
        ll_events := [Write Detect, Status Negotiating]\<rparr>)"
  by (simp add: run_simps link_initial_def)

abbreviation sync_packet :: "link_control \<Rightarrow> u8 \<Rightarrow> u8 \<Rightarrow> lsp_payload \<Rightarrow> packet" where
  "sync_packet ctl s a lsp \<equiv>
     \<lparr>p_header = \<lparr>h_length = 9 + (of_nat (10 + 3 * length (sessions lsp)) + 1), h_control = ctl, h_seq = s,
        h_ack = a, h_session_id = SESSION_ID_CONTROL\<rparr>,
      p_payload = Some (lsp_to_bytes lsp)\<rparr>"

lemma new_syn_ok: "offer_ok lsp \<Longrightarrow> new_syn s lsp = Inr (sync_packet CTL_SYN s 0 lsp)"
  by (simp add: new_syn_def fix_length_def offer_ok_def)

lemma new_syn_ack_ok:
  "offer_ok lsp \<Longrightarrow> new_syn_ack s a lsp = Inr (sync_packet (CTL_SYN OR CTL_ACK) s a lsp)"
  by (simp add: new_syn_ack_def fix_length_def offer_ok_def)

abbreviation sent_entry :: "packet \<Rightarrow> nat \<Rightarrow> retransmit_entry" where
  "sent_entry p t \<equiv> \<lparr>re_packet = p, re_sent_at = t, re_retry_count = 0,
     re_timeout_deadline = t + from_millis 1000\<rparr>"

lemmas sync_simps =
  take_pending_negotiation_transmit_def take_own_seq_def prepare_ackable_def is_ackable_def
  transmit_negotiating_def next_retransmit_seq_def next_missing_psn_def modseq_add_def modseq_sub_def
  negotiation_new_def simple_negotiator_def neg_local_lsp_def read_packet_def packet_size_def PACKET_OVERHEAD_def
  recv_ack_def is_any_ack_def on_recv_neg_def on_recv_neg_host_def on_recv_neg_accessory_def
  advance_peer_seq_from_ackable_def lsp_from_packet_def counter_offer_def neg_transition_defs
  note_lsp_accepted_by_us_def note_lsp_accepted_by_peer_def neg_set_local_lsp_def
  neg_peer_accepted_lsp_def neg_accepted_peer_lsp_def eak_is_active_def bt_retain_def

text \<open>The host after a SYN it accepts: it offers a copy of the accessory's parameters.\<close>

abbreviation host_offering :: "nat \<Rightarrow> lsp_payload \<Rightarrow> lsp_payload \<Rightarrow> link_layer" where
  "host_offering u lsp' lsp \<equiv> (host0 u lsp')\<lparr>ll_events := [Write Detect, Status Negotiating],
     ll_status := Negotiating, ll_peer_seq := Some 0x20, ll_peer_lsp := lsp,
     ll_negotiation := Neg_Offering \<lparr>nd_counter = 0, nd_local_lsp = lsp, nd_accepted_peer_lsp = Some lsp,
       nd_peer_accepted_lsp = None\<rparr> True\<rparr>"

abbreviation accessory_waiting :: "nat \<Rightarrow> lsp_payload \<Rightarrow> link_layer" where
  "accessory_waiting t lsp \<equiv> (accessory0 t lsp)\<lparr>ll_detect_last_transmit := Some t, ll_status := Negotiating,
     ll_events := [Write Detect, Status Negotiating, Write (Packet (sync_packet CTL_SYN 0x20 0 lsp))],
     ll_own_seq := 0x21, ll_syn_transmitted := Some t,
     ll_retransmit_map := [(0x20, sent_entry (sync_packet CTL_SYN 0x20 0 lsp) t)]\<rparr>"

lemma turn_syn:
  assumes "offer_ok lsp"
  shows "turn ((accessory0 t lsp)\<lparr>ll_detect_last_transmit := Some t, ll_status := Negotiating,
        ll_events := [Write Detect, Status Negotiating]\<rparr>)
      ((host0 u lsp')\<lparr>ll_events := [Write Detect]\<rparr>) =
    Inr (accessory_waiting t lsp, host_offering u lsp' lsp)"
  using assms
  by (simp add: run_simps sync_simps new_syn_ok link_initial_def lsp_negotiating_def control_simps
      control_bits) (auto simp: offer_ok_def)

abbreviation host_sent :: "nat \<Rightarrow> lsp_payload \<Rightarrow> lsp_payload \<Rightarrow> link_layer" where
  "host_sent u lsp' lsp \<equiv> (host0 u lsp')\<lparr>
     ll_events := [Write Detect, Status Negotiating,
       Write (Packet (sync_packet (CTL_SYN OR CTL_ACK) 0x10 0x20 lsp))],
     ll_status := Negotiating, ll_peer_seq := Some 0x20, ll_peer_lsp := lsp, ll_own_seq := 0x11,
     ll_negotiation := Neg_Start \<lparr>nd_counter = 0, nd_local_lsp = lsp, nd_accepted_peer_lsp = Some lsp,
       nd_peer_accepted_lsp = None\<rparr>,
     ll_retransmit_map := [(0x10, sent_entry (sync_packet (CTL_SYN OR CTL_ACK) 0x10 0x20 lsp) u)]\<rparr>"

abbreviation accessory_accepting :: "nat \<Rightarrow> lsp_payload \<Rightarrow> link_layer" where
  "accessory_accepting t lsp \<equiv> (accessory0 t lsp)\<lparr>ll_detect_last_transmit := Some t, ll_status := Negotiating,
     ll_events := [Write Detect, Status Negotiating, Write (Packet (sync_packet CTL_SYN 0x20 0 lsp))],
     ll_own_seq := 0x21, ll_syn_transmitted := Some t, ll_peer_ack := Some 0x20, ll_peer_seq := Some 0x10,
     ll_syn_ack_received := True, ll_peer_lsp := lsp, ll_local_lsp := lsp,
     ll_negotiation := Neg_Accepting \<lparr>nd_counter = 0, nd_local_lsp = lsp, nd_accepted_peer_lsp = Some lsp,
       nd_peer_accepted_lsp = Some lsp\<rparr> True\<rparr>"

lemma turn_syn_ack:
  assumes "offer_ok lsp"
  shows "turn (host_offering u lsp' lsp) (accessory_waiting t lsp) =
    Inr (host_sent u lsp' lsp, accessory_accepting t lsp)"
  using assms
  by (simp add: run_simps sync_simps new_syn_ack_ok link_initial_def lsp_negotiating_def control_simps
      control_bits modseq_gt_def verify_neg_seq_ack_def) (auto simp: offer_ok_def)

abbreviation final_ack :: packet where
  "final_ack \<equiv> \<lparr>p_header = \<lparr>h_length = 9, h_control = CTL_ACK, h_seq = 0x20, h_ack = 0x10,
     h_session_id = SESSION_ID_CONTROL\<rparr>, p_payload = None\<rparr>"

abbreviation accessory_done :: "nat \<Rightarrow> lsp_payload \<Rightarrow> link_layer" where
  "accessory_done t lsp \<equiv> (accessory_accepting t lsp)\<lparr>ll_status := Writable,
     ll_events := [Write Detect, Status Negotiating, Write (Packet (sync_packet CTL_SYN 0x20 0 lsp)),
       Status Writable, Write (Packet final_ack)],
     ll_negotiation := Neg_Accepted \<lparr>nd_counter = 0, nd_local_lsp = lsp, nd_accepted_peer_lsp = Some lsp,
       nd_peer_accepted_lsp = Some lsp\<rparr>\<rparr>"

abbreviation host_done :: "nat \<Rightarrow> lsp_payload \<Rightarrow> lsp_payload \<Rightarrow> link_layer" where
  "host_done u lsp' lsp \<equiv> (host_sent u lsp' lsp)\<lparr>ll_status := Writable, ll_local_lsp := lsp,
     ll_peer_ack := Some 0x10, ll_retransmit_map := [],
     ll_events := [Write Detect, Status Negotiating,
       Write (Packet (sync_packet (CTL_SYN OR CTL_ACK) 0x10 0x20 lsp)), Status Writable],
     ll_negotiation := Neg_Accepted \<lparr>nd_counter = 0, nd_local_lsp = lsp, nd_accepted_peer_lsp = Some lsp,
       nd_peer_accepted_lsp = Some lsp\<rparr>\<rparr>"

lemma turn_final_ack:
  assumes "offer_ok lsp"
  shows "turn (accessory_accepting t lsp) (host_sent u lsp' lsp) =
    Inr (accessory_done t lsp, host_done u lsp' lsp)"
  using assms
  by (simp add: run_simps sync_simps link_initial_def lsp_negotiating_def control_simps
      control_bits modseq_gt_def verify_neg_seq_ack_def is_window_writable_def PACKET_SIZE_WITHOUT_PAYLOAD_def)
     (auto simp: offer_ok_def)

lemma handshake_eq:
  assumes "offer_ok lsp"
  shows "handshake (accessory0 t lsp) (host0 u lsp') = Inr (accessory_done t lsp, host_done u lsp' lsp)"
  unfolding handshake_def
  by (simp only: sum_bind_simps prod.case turn_detect turn_detect_answer turn_syn [OF assms]
      turn_syn_ack [OF assms] turn_final_ack [OF assms])

section \<open>Reachability of two parties\<close>

lemma link_reach_items: "link_reach l \<Longrightarrow> read_items ws l = Inr l' \<Longrightarrow> link_reach l'"
  by (induction ws arbitrary: l) (auto simp: sum_bind_Inr_iff intro: link_reach_read)

lemma link_reach_turn:
  "link_reach x \<Longrightarrow> link_reach y \<Longrightarrow> turn x y = Inr (x', y') \<Longrightarrow> link_reach x' \<and> link_reach y'"
  by (auto simp: turn_def sum_bind_Inr_iff intro: link_reach_reconcile link_reach_items)

lemma link_reach_handshake:
  assumes "link_reach a" and "link_reach h" and "handshake a h = Inr (a', h')"
  shows "link_reach a' \<and> link_reach h'"
  using assms by (fastforce simp: handshake_def sum_bind_Inr_iff dest: link_reach_turn)

lemma link_reach_initial [simp]: "link_reach (link_initial server now neg)"
  by (rule link_reach_new [of server now neg]) simp

section \<open>Rounds\<close>

definition neg_rounds :: "link_layer \<Rightarrow> u32" where
  "neg_rounds l = nd_counter (neg_data (ll_negotiation l))"

lemma neg_rounds_cong: "ll_negotiation l' = ll_negotiation l \<Longrightarrow> neg_rounds l' = neg_rounds l"
  by (simp add: neg_rounds_def)

lemma negotiation_same [simp]:
  "ll_negotiation (change_state s l) = ll_negotiation l"
  "ll_negotiation (enter_error_state e l) = ll_negotiation l"
  "ll_negotiation (send_event ev l) = ll_negotiation l"
  "ll_negotiation (refresh_data_status l) = ll_negotiation l"
  "ll_negotiation (recv_ack p l) = ll_negotiation l"
  "ll_negotiation (recv_eak p l) = ll_negotiation l"
  "ll_negotiation (snd (retransmit_one q l)) = ll_negotiation l"
  "ll_negotiation (snd (prepare_ackable p l)) = ll_negotiation l"
  by (simp_all add: status_defs refresh_data_status_def recv_ack_def recv_eak_def retransmit_one_def
      prepare_ackable_def Let_def split: option.split)

lemma rounds_take_pending:
  "take_pending_negotiation_transmit l = Inr (r, l') \<Longrightarrow> neg_rounds l' = neg_rounds l"
  using take_pending_tx_data [of "ll_negotiation l"]
  by (auto simp: take_pending_negotiation_transmit_def take_own_seq_def Let_def case_prod_beta
      sum_bind_Inr_iff neg_rounds_def
      split: option.splits prod.splits negotiation_tx.splits if_splits)

lemma rounds_retransmit: "retransmit_one s l = (r, l') \<Longrightarrow> neg_rounds l' = neg_rounds l"
  using negotiation_same(7) [of s l] by (simp add: neg_rounds_def)

lemma rounds_prepare: "prepare_ackable p l = (r, l') \<Longrightarrow> neg_rounds l' = neg_rounds l"
  using negotiation_same(8) [of p l] by (simp add: neg_rounds_def)

lemma rounds_transmit:
  "transmit_payload t v l = Inr (r, l') \<Longrightarrow> neg_rounds l' = neg_rounds l"
  "transmit_ack l = Inr (r, l') \<Longrightarrow> neg_rounds l' = neg_rounds l"
  by (auto simp: transmit_payload_def transmit_ack_def take_own_seq_def Let_def case_prod_beta
      sum_bind_Inr_iff neg_rounds_def split: option.splits prod.splits if_splits)

lemma rounds_transmit_negotiating: "transmit_negotiating l = Inr (r, l') \<Longrightarrow> neg_rounds l' = neg_rounds l"
  by (auto simp: transmit_negotiating_def take_own_seq_def Let_def sum_bind_Inr_iff
      split: option.splits if_splits dest!: rounds_take_pending rounds_retransmit rounds_prepare)
     (simp_all add: neg_rounds_def)

lemma rounds_next_payload: "next_payload l = (r, l') \<Longrightarrow> neg_rounds l' = neg_rounds l"
  using next_payload_fields(9) [of l r l'] by (simp add: neg_rounds_def)

lemma rounds_transmit_data: "transmit_data l = Inr (r, l') \<Longrightarrow> neg_rounds l' = neg_rounds l"
  by (auto simp: transmit_data_def Let_def split: option.splits if_splits prod.splits
      dest!: rounds_retransmit rounds_transmit rounds_next_payload)
     (simp_all add: neg_rounds_def)

lemma rounds_next_transmit:
  assumes "next_transmit l = Inr (r, l')"
  shows "neg_rounds l' = neg_rounds l"
proof -
  let ?l = "l\<lparr>ll_lingo := snd (payload_dequeue_tx (2 ^ 64 - 1) (ll_lingo l))\<rparr>"
  have same: "neg_rounds ?l = neg_rounds l" by (simp add: neg_rounds_def)
  show ?thesis
    using assms same rounds_next_payload [of ?l] rounds_transmit_negotiating [of ?l r l']
      rounds_transmit_data [of ?l r l']
    by (auto simp: next_transmit_def transmit_detecting_def Let_def
        split: prod.splits option.splits if_splits)
       (simp_all add: neg_rounds_def)
qed

definition rounds_ok :: "link_layer \<Rightarrow> bool" where
  "rounds_ok l \<longleftrightarrow> neg_rounds l < 10 \<or> is_error l"

lemma rounds_ok_same:
  "rounds_ok l \<Longrightarrow> neg_rounds l' = neg_rounds l \<Longrightarrow> is_error l \<longrightarrow> is_error l' \<Longrightarrow> rounds_ok l'"
  by (auto simp: rounds_ok_def)

lemma rounds_ok_error [simp]: "rounds_ok (enter_error_state e l)"
  by (simp add: rounds_ok_def is_error_iff)

lemma rounds_ok_transmit_loop: "rounds_ok l \<Longrightarrow> transmit_loop n l = Inr (b, l') \<Longrightarrow> rounds_ok l'"
proof (induction n arbitrary: l)
  case (Suc n)
  obtain r l1 where tx: "next_transmit l = Inr (r, l1)"
    and rest: "(case r of None \<Rightarrow> Inr (False, l1)
      | Some p \<Rightarrow> transmit_loop n (refresh_data_status (send_event (Write p) l1))) = Inr (b, l')"
    using Suc.prems(2) by (auto simp: sum_bind_Inr_iff)
  have "is_error l \<longrightarrow> is_error l1" using tx by (auto simp: next_transmit_def)
  then have l1: "rounds_ok l1" by (rule rounds_ok_same [OF Suc.prems(1) rounds_next_transmit [OF tx]])
  have "rounds_ok (refresh_data_status (send_event (Write w) l1))" for w
    by (rule rounds_ok_same [OF l1]) (simp_all add: neg_rounds_def refresh_keeps_class, simp add: is_error_iff)
  then show ?case using rest l1 Suc.IH by (cases r) auto
qed simp

lemma rounds_ok_reconcile: "rounds_ok l \<Longrightarrow> reconcile n l = Inr (b, l') \<Longrightarrow> rounds_ok l'"
  unfolding reconcile_def
  by (rule rounds_ok_transmit_loop [of "drain_events l"]) (auto simp: rounds_ok_def neg_rounds_def is_error_iff)

lemma rounds_ok_on_recv_neg:
  assumes "rounds_ok l"
  shows "rounds_ok (on_recv_neg p l)"
  using assms
  by (auto simp: on_recv_neg_def on_recv_neg_host_def on_recv_neg_accessory_def rounds_ok_def neg_rounds_def
      neg_increment_counter_def neg_set_local_lsp_def note_lsp_accepted_by_us_def
      note_lsp_accepted_by_peer_def is_error_iff not_le Let_def split: option.split)

lemma rounds_process: "process_ack_payload p l = Inr l' \<Longrightarrow> ll_negotiation l' = ll_negotiation l"
  by (auto simp: process_ack_payload_def Let_def sum_bind_Inr_iff
      split: option.splits session_type.splits if_splits)

lemma rounds_drain: "drain_buffered s l = Inr l' \<Longrightarrow> ll_negotiation l' = ll_negotiation l"
proof (induction s l rule: drain_buffered.induct)
  case (1 s l)
  show ?case
  proof (cases "bt_get s (ll_out_of_order l)")
    case None
    then show ?thesis using "1.prems" by (simp add: drain_buffered.simps [of s l])
  next
    case (Some p)
    then obtain l1 where p: "process_ack_payload p (l\<lparr>ll_out_of_order := bt_remove s (ll_out_of_order l)\<rparr>) = Inr l1"
      and rest: "drain_buffered (modseq_add s 1) (l1\<lparr>ll_peer_seq := Some s\<rparr>) = Inr l'"
      using "1.prems" by (auto simp: drain_buffered.simps [of s l] sum_bind_Inr_iff)
    show ?thesis using "1.IH" [OF Some p rest] rounds_process [OF p] by simp
  qed
qed

lemma rounds_recv_data: "recv_data p s l = Inr l' \<Longrightarrow> ll_negotiation l' = ll_negotiation l"
  by (auto simp: recv_data_def Let_def sum_bind_Inr_iff split: option.splits ordering.splits
      dest!: rounds_process rounds_drain)

lemma rounds_ok_read:
  assumes ok: "rounds_ok l" and read: "link_read item l = Inr l'"
  shows "rounds_ok l'"
proof (cases "is_error l")
  case True
  then show ?thesis using assms by (simp add: link_read_def)
next
  case False
  then have less: "neg_rounds l < 10" using ok by (simp add: rounds_ok_def)
  show ?thesis
  proof (cases item)
    case (Packet p)
    obtain l0 where l0: "l0 = (if ll_server l \<and> ll_status l = Detecting then change_state Negotiating l else l)"
      by blast
    have neg: "ll_negotiation l0 = ll_negotiation l" by (simp add: l0)
    have ok1: "rounds_ok (recv_ack p l0)" using less neg by (simp add: rounds_ok_def neg_rounds_def)
    have keep: "rounds_ok l1" if "ll_negotiation l1 = ll_negotiation l" for l1
      using that less by (simp add: rounds_ok_def neg_rounds_def)
    have "read_packet p l = Inr l'" using read Packet False by (simp add: link_read_def)
    then show ?thesis
      unfolding read_packet_def Let_def l0 [symmetric]
      using rounds_ok_on_recv_neg [OF ok1] neg
      by (auto intro: keep dest!: rounds_recv_data split: if_splits option.splits)
  next
    case Detect
    then show ?thesis
      using read less False
      by (auto simp: link_read_def reconcile_def rounds_ok_def neg_rounds_def sum_bind_Inr_iff split: if_splits)
  next
    case (Legacy b)
    then show ?thesis
      using read less False
      by (auto simp: link_read_def read_legacy_def link_downgrade_def Let_def rounds_ok_def neg_rounds_def
          split: link_status.splits prod.splits if_splits)
  qed
qed

lemma link_reach_rounds: "link_reach l \<Longrightarrow> rounds_ok l"
proof (induction rule: link_reach.induct)
  case (link_reach_new server now neg l)
  then show ?case by (auto simp: rounds_ok_def neg_rounds_def link_initial_def negotiation_new_def)
next
  case (link_reach_read l item l')
  then show ?case using rounds_ok_read by blast
next
  case (link_reach_reconcile l n b l')
  then show ?case using rounds_ok_reconcile by blast
next
  case (link_reach_downgrade l)
  then show ?case
    by (auto simp: link_downgrade_def rounds_ok_def neg_rounds_def is_error_iff split: link_status.split)
qed (auto simp: rounds_ok_def neg_rounds_def link_csm_enqueue_def link_ea_enqueue_def link_lingo_enqueue_def
      link_close_def is_error_iff)

section \<open>Properties\<close>

text \<open>
  Claim C3: negotiation succeeds. Two fresh links, an accessory and a host that accept what is
  offered, exchange five frames: detection, its answer, SYN, SYN+ACK and ACK. Then, whatever the
  clocks and whatever the host would have offered itself, both are writable, both use the
  accessory's parameters in both directions, each knows the last sequence number of the other
  and nothing is left to retransmit.
\<close>

theorem handshake_establishes:
  assumes "offer_ok lsp"
  shows "\<exists>a h. handshake (link_initial False t (simple_negotiator lsp))
        (link_initial True u (simple_negotiator lsp')) = Inr (a, h)
    \<and> ll_status a = Writable \<and> ll_status h = Writable
    \<and> ll_local_lsp a = lsp \<and> ll_peer_lsp a = lsp \<and> ll_local_lsp h = lsp \<and> ll_peer_lsp h = lsp
    \<and> ll_peer_seq a = Some (ll_own_seq h - 1) \<and> ll_peer_seq h = Some (ll_own_seq a - 1)
    \<and> ll_peer_ack a = Some (ll_own_seq a - 1) \<and> ll_peer_ack h = Some (ll_own_seq h - 1)
    \<and> ll_retransmit_map a = [] \<and> ll_retransmit_map h = []"
  unfolding handshake_eq [OF assms] by (simp add: link_initial_def)

theorem handshake_establishes_witness:
  "\<exists>a h. handshake (link_initial False 0 (simple_negotiator lsp_bluetooth))
      (link_initial True 0 (simple_negotiator lsp_usb)) = Inr (a, h)
     \<and> ll_status a = Writable \<and> ll_local_lsp h = lsp_bluetooth"
proof -
  have "offer_ok lsp_bluetooth" by (simp add: offer_ok_def lsp_bluetooth_def lsp_modern_sessions_def)
  from handshake_establishes [OF this] show ?thesis by blast
qed

text \<open>
  When a link takes the parameters in a packet as an offer: a host takes those of a SYN or a
  SYN+ACK, an accessory those of a SYN+ACK that is its first or the next of the host in sequence
  and acknowledges what the accessory sent last.
\<close>

definition takes_offer :: "link_layer \<Rightarrow> packet \<Rightarrow> lsp_payload \<Rightarrow> bool" where
  "takes_offer l p offer \<longleftrightarrow> ll_status l = Negotiating \<and> lsp_from_packet p = Some offer
     \<and> (if ll_server l then is_syn (h_control (p_header p)) \<or> is_syn_ack (h_control (p_header p))
        else is_syn_ack (h_control (p_header p)) \<and> (ll_peer_seq l = None \<or> verify_neg_seq_ack p l))"

lemma refused_offer_step:
  assumes "takes_offer l p offer"
    and "counter_offer offer (nd_counter (neg_data (ll_negotiation l))) l = Some reply"
  shows "on_recv_neg p l =
    (let c = nd_counter (neg_data (ll_negotiation l)) + 1;
         n = neg_data_mut (\<lambda>d. d\<lparr>nd_counter := c\<rparr>) (ll_negotiation l);
         l = advance_peer_seq_from_ackable p
               (if ll_server l then l else l\<lparr>ll_syn_ack_received := True\<rparr>)
     in if 10 \<le> c then enter_error_state LinkNegotiationRoundsExceeded (l\<lparr>ll_negotiation := n\<rparr>)
        else l\<lparr>ll_negotiation := transition_offering (neg_set_local_lsp reply n)\<rparr>)"
proof -
  have same: "counter_offer offer c (advance_peer_seq_from_ackable p l) = counter_offer offer c l"
    "counter_offer offer c (advance_peer_seq_from_ackable p (l\<lparr>ll_syn_ack_received := True\<rparr>)) = counter_offer offer c l"
    for c
    by (simp_all add: counter_offer_def advance_peer_seq_from_ackable_def)
  have mut: "neg_data_mut (\<lambda>d. d\<lparr>nd_counter := nd_counter d + 1\<rparr>) n
      = neg_data_mut (\<lambda>d. d\<lparr>nd_counter := nd_counter (neg_data n) + 1\<rparr>) n" for n
    by (cases n) simp_all
  have data: "ll_negotiation (advance_peer_seq_from_ackable p (l\<lparr>ll_syn_ack_received := True\<rparr>)) = ll_negotiation l"
    by (simp add: advance_peer_seq_from_ackable_def)
  show ?thesis
  proof (cases "ll_server l")
    case True
    then have ctl: "is_syn (h_control (p_header p)) \<or> is_syn_ack (h_control (p_header p))"
      "\<not> is_ack (h_control (p_header p))"
      using assms(1) control_exclusive(1) by (auto simp: takes_offer_def)
    have offer: "ll_status l = Negotiating" "lsp_from_packet p = Some offer"
      using assms(1) by (simp_all add: takes_offer_def)
    show ?thesis
      using ctl(1) ctl(2) True offer assms(2)
      by (elim disjE) (simp_all add: on_recv_neg_def on_recv_neg_host_def neg_negotiation_counter_def
          neg_increment_counter_def same Let_def mut [of "ll_negotiation l"])
  next
    case False
    then have offer: "ll_status l = Negotiating" "lsp_from_packet p = Some offer"
      "is_syn_ack (h_control (p_header p))" "\<not> (ll_peer_seq l \<noteq> None \<and> \<not> verify_neg_seq_ack p l)"
      using assms(1) by (auto simp: takes_offer_def)
    then show ?thesis
      using False assms(2)
      by (simp add: on_recv_neg_def on_recv_neg_accessory_def neg_negotiation_counter_def
          neg_increment_counter_def same data Let_def mut [of "ll_negotiation l"]) fastforce
  qed
qed

text \<open>
  Claim C33: negotiation is bounded, on both sides. A reachable link that has not failed has made
  fewer than ten counter offers. When it takes an offer its negotiator answers with another one, it
  counts one more round, keeps negotiating and has the reply to send as its own offer; but
  when nine rounds are counted already it ends in the error for too many rounds. A host takes the offer of a SYN
  and of a SYN+ACK, an accessory that of a SYN+ACK in sequence.
\<close>

theorem negotiation_rounds_bounded:
  assumes "link_reach l" and "\<not> is_error l"
  shows "nd_counter (neg_data (ll_negotiation l)) < 10
    \<and> (takes_offer l p offer
        \<and> counter_offer offer (nd_counter (neg_data (ll_negotiation l))) l = Some reply \<longrightarrow>
       (if nd_counter (neg_data (ll_negotiation l)) = 9
        then ll_status (on_recv_neg p l) = Error LinkNegotiationRoundsExceeded
        else ll_status (on_recv_neg p l) = Negotiating
          \<and> nd_counter (neg_data (ll_negotiation (on_recv_neg p l))) = nd_counter (neg_data (ll_negotiation l)) + 1
          \<and> fst (take_pending_tx (ll_negotiation (on_recv_neg p l))) = Some (Tx_SynAck reply)))"
proof -
  have less: "nd_counter (neg_data (ll_negotiation l)) < 10"
    using link_reach_rounds [OF assms(1)] assms(2) by (simp add: rounds_ok_def neg_rounds_def)
  have ten: "10 \<le> nd_counter (neg_data (ll_negotiation l)) + 1 \<longleftrightarrow> nd_counter (neg_data (ll_negotiation l)) = 9"
    using less by (simp add: word_less_nat_alt word_le_nat_alt unat_word_ariths word_unat_eq_iff) arith
  show ?thesis
    using less refused_offer_step [of l p offer reply]
    by (auto simp: Let_def ten takes_offer_def advance_peer_seq_from_ackable_def transition_offering_def
        neg_set_local_lsp_def)
qed

text \<open>A host that a peer keeps sending parameters without a control session, which it never accepts.\<close>

abbreviation useless_offer :: packet where
  "useless_offer \<equiv> sync_packet CTL_SYN 0x20 0 (lsp_usb\<lparr>sessions := []\<rparr>)"

lemma useless_offers:
  assumes "n < 10"
  shows "\<exists>l. link_reach l \<and> (n = 0 \<and> ll_status l = Detecting \<or> ll_status l = Negotiating) \<and> ll_server l
    \<and> max_len (ll_local_lsp l) = max_len lsp_negotiating
    \<and> nd_counter (neg_data (ll_negotiation l)) = of_nat n"
  using assms
proof (induction n)
  case 0
  show ?case
    by (rule exI [of _ "link_initial True 0 (simple_negotiator lsp_usb)"], intro conjI link_reach_initial)
       (simp_all add: link_initial_def negotiation_new_def)
next
  case (Suc n)
  then obtain l where l: "link_reach l" "ll_status l = Detecting \<or> ll_status l = Negotiating" "ll_server l"
    "max_len (ll_local_lsp l) = max_len lsp_negotiating"
    "nd_counter (neg_data (ll_negotiation l)) = of_nat n"
    by auto
  obtain m where m: "m = (if ll_status l = Detecting then change_state Negotiating l else l)" by blast
  have l': "nd_counter (neg_data (ll_negotiation m)) = of_nat n" "ll_server m" "ll_status m = Negotiating"
    "max_len (ll_local_lsp m) = max_len lsp_negotiating"
    using l(2-5) by (elim disjE; simp add: m change_state_def)+
  have "link_read (Packet useless_offer) l = Inr (on_recv_neg useless_offer m)"
    using l(2,3,4) by (elim disjE) (simp_all add: m link_read_def read_packet_def is_error_def is_downgrade_def
        recv_ack_def is_any_ack_def control_simps control_bits packet_size_def PACKET_OVERHEAD_def lsp_negotiating_def Let_def)
  then have reach: "link_reach (on_recv_neg useless_offer m)" by (rule link_reach_read [OF l(1)])
  have takes: "takes_offer m useless_offer (lsp_usb\<lparr>sessions := []\<rparr>)"
    using l' by (simp add: takes_offer_def lsp_from_packet_def control_simps control_bits)
  have offer: "counter_offer (lsp_usb\<lparr>sessions := []\<rparr>) (nd_counter (neg_data (ll_negotiation m))) m
      = Some (neg_start (ll_lsp_negotiator m))"
    by (simp add: counter_offer_def)
  have "n \<in> {0, 1, 2, 3, 4, 5, 6, 7, 8}" using Suc.prems by auto
  then have small: "\<not> 10 \<le> (of_nat n :: u32) + 1" by (auto simp: word_le_nat_alt)
  note step = refused_offer_step [OF takes offer]
  show ?case
    by (rule exI [of _ "on_recv_neg useless_offer m"], intro conjI reach)
       (unfold step Let_def, use l' small in
         \<open>simp_all add: advance_peer_seq_from_ackable_def neg_set_local_lsp_def\<close>)
qed

theorem negotiation_rounds_bounded_witness:
  "\<exists>l. link_reach l \<and> nd_counter (neg_data (ll_negotiation l)) = 9
     \<and> ll_status (on_recv_neg useless_offer l) = Error LinkNegotiationRoundsExceeded"
proof -
  obtain l where l: "link_reach l" "ll_status l = Negotiating" "ll_server l"
    "nd_counter (neg_data (ll_negotiation l)) = 9"
    using useless_offers [of 9] by auto
  have ne: "\<not> is_error l" using l(2) by (simp add: is_error_def)
  have "takes_offer l useless_offer (lsp_usb\<lparr>sessions := []\<rparr>)"
    using l by (simp add: takes_offer_def lsp_from_packet_def control_simps control_bits)
  moreover have "counter_offer (lsp_usb\<lparr>sessions := []\<rparr>) c l = Some (neg_start (ll_lsp_negotiator l))" for c
    by (simp add: counter_offer_def)
  ultimately show ?thesis
    using negotiation_rounds_bounded [OF l(1) ne, of useless_offer "lsp_usb\<lparr>sessions := []\<rparr>"
        "neg_start (ll_lsp_negotiator l)"] l by auto
qed

text \<open>The crashing datagram after a successful handshake.\<close>

definition file_255_packet :: packet where
  "file_255_packet =
     \<lparr>p_header = \<lparr>h_length = 12, h_control = CTL_ACK, h_seq = 0x21, h_ack = 0x10, h_session_id = 2\<rparr>,
      p_payload = Some [255, 2]\<rparr>"

theorem file_255_panics_link_witness:
  "\<exists>l. link_reach l \<and> link_read (Packet file_255_packet) l = Inl Unwrap_None"
proof -
  have ok: "offer_ok lsp_bluetooth" by (simp add: offer_ok_def lsp_bluetooth_def lsp_modern_sessions_def)
  have reach: "link_reach (host_done 0 lsp_usb lsp_bluetooth)"
    using link_reach_handshake [OF _ _ handshake_eq [OF ok, of 0 0 lsp_usb]] by simp
  have "file_op_of_u8 2 = Some Op_Cancel" by (simp add: file_op_of_u8.simps)
  then have f: "file_from_packet file_255_packet = Some \<lparr>fp_file_id = 255, fp_op = Op_Cancel, fp_payload = []\<rparr>"
    by (simp add: file_from_packet_def file_255_packet_def)
  have "link_read (Packet file_255_packet) (host_done 0 lsp_usb lsp_bluetooth) = Inl Unwrap_None"
    by (rule file_255_panics_link [OF reach _ _ _ _ _ _ _ f, where s = "0x20"
          and x = "\<lparr>ls_id = 2, ls_type = FileTransfer, ls_version = 2\<rparr>"])
       (simp_all add: file_255_packet_def data_status_def control_simps packet_size_def PACKET_OVERHEAD_def
          lsp_bluetooth_def lsp_modern_sessions_def)
  then show ?thesis using reach by blast
qed

end
