(* ===== verification/Modes_Types.thy ===== *)
theory Modes_Types
  imports Prelude
begin

text \<open>
  The data of the mode negotiation (\<open>carplay/catplay_carplay/src/modes/\<close>): the request of the
  accessory (\<open>change_modes.rs\<close>), the notification of the controller (\<open>modes_changed.rs\<close>), the
  state of one resource derived from it (\<open>modes_changed_ext.rs\<close>) and the authoritative state
  of all modes an accessory keeps (\<open>state.rs\<close>).
\<close>

section \<open>Requests of the accessory\<close>

datatype entity = Entity_None | Controller | Accessory

datatype app_state_enum = App_Invalid | App_Speech | App_Phone_Call | App_Turn_By_Turn

datatype speech_mode = Speech_Invalid | Speech_None | Speaking | Recognizing_Speech

datatype resource_id = Main_Screen | Main_Audio

datatype transfer_type = Take | Untake | Borrow | Unborrow

datatype transfer_priority = Nice_To_Have | Priority_User_Initiated

datatype resource_constraint = Anytime | Constraint_User_Initiated | Never

definition transfer_reverse :: "transfer_type \<Rightarrow> transfer_type" where
  "transfer_reverse t = (case t of Take \<Rightarrow> Untake | Untake \<Rightarrow> Take | Borrow \<Rightarrow> Unborrow | Unborrow \<Rightarrow> Borrow)"

record app_state =
  app_state_id :: app_state_enum
  app_active :: "bool option"
  app_speech_mode :: "speech_mode option"

definition app_state_new :: "app_state_enum \<Rightarrow> bool \<Rightarrow> app_state" where
  "app_state_new i active = \<lparr>app_state_id = i, app_active = Some active, app_speech_mode = None\<rparr>"

definition app_state_speech :: "speech_mode \<Rightarrow> app_state" where
  "app_state_speech m = \<lparr>app_state_id = App_Speech, app_active = None, app_speech_mode = Some m\<rparr>"

record resource =
  req_id :: resource_id
  req_type :: transfer_type
  req_priority :: "transfer_priority option"
  req_take :: "resource_constraint option"
  req_borrow :: "resource_constraint option"
  req_unborrow :: "resource_constraint option"

definition resource_unborrow :: "resource_id \<Rightarrow> resource" where
  "resource_unborrow i = \<lparr>req_id = i, req_type = Unborrow, req_priority = None,
     req_take = None, req_borrow = None, req_unborrow = None\<rparr>"

definition resource_untake :: "resource_id \<Rightarrow> resource" where
  "resource_untake i = \<lparr>req_id = i, req_type = Untake, req_priority = None,
     req_take = None, req_borrow = None, req_unborrow = None\<rparr>"

definition resource_borrow :: "resource_id \<Rightarrow> transfer_priority \<Rightarrow> resource_constraint \<Rightarrow> resource" where
  "resource_borrow i p u = \<lparr>req_id = i, req_type = Borrow, req_priority = Some p,
     req_take = None, req_borrow = None, req_unborrow = Some u\<rparr>"

definition resource_take ::
    "resource_id \<Rightarrow> transfer_priority \<Rightarrow> resource_constraint \<Rightarrow> resource_constraint \<Rightarrow> resource" where
  "resource_take i p t b = \<lparr>req_id = i, req_type = Take, req_priority = Some p,
     req_take = Some t, req_borrow = Some b, req_unborrow = None\<rparr>"

record initial_permanent_entity =
  ipe_entity :: entity
  ipe_id :: resource_id
  ipe_take :: "resource_constraint option"
  ipe_borrow :: "resource_constraint option"

definition ipe_accessory ::
    "resource_id \<Rightarrow> resource_constraint \<Rightarrow> resource_constraint \<Rightarrow> initial_permanent_entity" where
  "ipe_accessory i t b = \<lparr>ipe_entity = Accessory, ipe_id = i, ipe_take = Some t, ipe_borrow = Some b\<rparr>"

definition ipe_controller :: "resource_id \<Rightarrow> initial_permanent_entity" where
  "ipe_controller i = \<lparr>ipe_entity = Controller, ipe_id = i, ipe_take = None, ipe_borrow = None\<rparr>"

record change_modes =
  cm_app_states :: "app_state list"
  cm_resources :: "resource list"
  cm_reason :: string
  cm_initial :: "initial_permanent_entity list"

definition change_modes_initial :: change_modes where
  "change_modes_initial =
     \<lparr>cm_app_states =
        [app_state_new App_Phone_Call False, app_state_new App_Turn_By_Turn False,
         app_state_speech Speech_None],
      cm_resources =
        [resource_take Main_Screen Nice_To_Have Anytime Anytime,
         resource_take Main_Audio Nice_To_Have Anytime Anytime],
      cm_reason = ''initial'',
      cm_initial = [ipe_controller Main_Audio, ipe_controller Main_Screen]\<rparr>"

section \<open>Notifications of the controller\<close>

record app_state_changed =
  asc_id :: app_state_enum
  asc_entity :: entity
  asc_speech_mode :: "speech_mode option"

record resource_changed =
  rc_id :: resource_id
  rc_entity :: entity
  rc_permanent_entity :: entity

record modes_changed =
  mc_app_states :: "app_state_changed list"
  mc_resources :: "resource_changed list"
  mc_reason :: string

record change_modes_response =
  cmr_status :: u8
  cmr_params :: "modes_changed option"

definition response_new :: "modes_changed \<Rightarrow> change_modes_response" where
  "response_new m = \<lparr>cmr_status = 0, cmr_params = Some m\<rparr>"

definition response_error :: "u8 \<Rightarrow> change_modes_response" where
  "response_error s = \<lparr>cmr_status = s, cmr_params = None\<rparr>"

definition response_is_error :: "change_modes_response \<Rightarrow> bool" where
  "response_is_error r = (cmr_status r \<noteq> 0)"

section \<open>The state of one resource\<close>

datatype resource_state =
    Controller_Has
  | Accessory_Has
  | Controller_Borrowed
  | Accessory_Borrowed
  | Invalid

fun from_pair :: "entity \<Rightarrow> entity \<Rightarrow> resource_state" where
  "from_pair Controller Controller = Controller_Has"
| "from_pair Accessory Accessory = Accessory_Has"
| "from_pair Controller Accessory = Controller_Borrowed"
| "from_pair Accessory Controller = Accessory_Borrowed"
| "from_pair _ _ = Invalid"

fun to_pair :: "resource_state \<Rightarrow> entity \<times> entity" where
  "to_pair Controller_Has = (Controller, Controller)"
| "to_pair Accessory_Has = (Accessory, Accessory)"
| "to_pair Controller_Borrowed = (Controller, Accessory)"
| "to_pair Accessory_Borrowed = (Accessory, Controller)"
| "to_pair Invalid = (Controller, Controller)"

fun state_is_borrowed :: "resource_state \<Rightarrow> bool" where
  "state_is_borrowed Controller_Borrowed = True"
| "state_is_borrowed Accessory_Borrowed = True"
| "state_is_borrowed _ = False"

fun state_entity :: "resource_state \<Rightarrow> entity" where
  "state_entity Accessory_Borrowed = Accessory"
| "state_entity Accessory_Has = Accessory"
| "state_entity Controller_Borrowed = Controller"
| "state_entity Controller_Has = Controller"
| "state_entity Invalid = Entity_None"

fun state_owner :: "resource_state \<Rightarrow> entity" where
  "state_owner Controller_Has = Controller"
| "state_owner Accessory_Borrowed = Controller"
| "state_owner Accessory_Has = Accessory"
| "state_owner Controller_Borrowed = Accessory"
| "state_owner Invalid = Entity_None"

fun state_from_request :: "transfer_type \<Rightarrow> resource_state" where
  "state_from_request Take = Accessory_Has"
| "state_from_request Untake = Controller_Has"
| "state_from_request Borrow = Accessory_Borrowed"
| "state_from_request Unborrow = Controller_Has"

definition state_is_unclaimed :: "resource_state \<Rightarrow> bool" where
  [simp]: "state_is_unclaimed s = (s = Invalid)"

record speech_state =
  speech_entity :: entity
  speech_mode_of :: speech_mode

definition speech_default :: speech_state where
  "speech_default = \<lparr>speech_entity = Entity_None, speech_mode_of = Speech_None\<rparr>"

text \<open>The speech state an accessory's request asks for, in each of its three readers.\<close>

definition speech_of_request :: "speech_mode \<Rightarrow> speech_state" where
  "speech_of_request m =
     \<lparr>speech_entity = (if m = Speech_None then Entity_None else Accessory), speech_mode_of = m\<rparr>"

definition unwrap_or :: "'a option \<Rightarrow> 'a \<Rightarrow> 'a" where
  "unwrap_or x d = (case x of None \<Rightarrow> d | Some y \<Rightarrow> y)"

lemma unwrap_or_simps [simp]:
  "unwrap_or None d = d"
  "unwrap_or (Some y) d = y"
  by (simp_all add: unwrap_or_def)

text \<open>An unclaimed resource is shown as owned by the controller: that is the one state the
  pair of a notification cannot carry.\<close>

definition state_shown :: "resource_state \<Rightarrow> resource_state" where
  "state_shown s = (if s = Invalid then Controller_Has else s)"

lemma from_pair_to_pair: "from_pair (fst (to_pair s)) (snd (to_pair s)) = state_shown s"
  by (cases s) (simp_all add: state_shown_def)

lemma to_pair_entity_owner:
  "s \<noteq> Invalid \<Longrightarrow> to_pair s = (state_entity s, state_owner s)"
  by (cases s) simp_all

lemma state_of_entity_owner: "from_pair (state_entity s) (state_owner s) = s"
  by (cases s) simp_all

lemma is_borrowed_iff: "state_is_borrowed s \<longleftrightarrow> state_entity s \<noteq> state_owner s"
  by (cases s) simp_all

lemmas response_simps = response_new_def response_error_def response_is_error_def

section \<open>The modes the accessory sees\<close>

record mode_state =
  ms_screen :: resource_state
  ms_main_audio :: resource_state
  ms_phone_call :: entity
  ms_speech :: speech_state
  ms_turn_by_turn :: entity

definition mode_state_default :: mode_state where
  "mode_state_default =
     \<lparr>ms_screen = Controller_Has, ms_main_audio = Controller_Has, ms_phone_call = Entity_None,
      ms_speech = \<lparr>speech_entity = Entity_None, speech_mode_of = Speech_None\<rparr>,
      ms_turn_by_turn = Entity_None\<rparr>"

definition mode_state_request :: "app_state \<Rightarrow> mode_state \<Rightarrow> mode_state" where
  "mode_state_request a st =
     (case app_state_id a of
        App_Speech \<Rightarrow> st\<lparr>ms_speech := speech_of_request (unwrap_or (app_speech_mode a) Speech_None)\<rparr>
      | App_Phone_Call \<Rightarrow>
          st\<lparr>ms_phone_call := (if unwrap_or (app_active a) False then Accessory else Entity_None)\<rparr>
      | App_Turn_By_Turn \<Rightarrow>
          st\<lparr>ms_turn_by_turn := (if unwrap_or (app_active a) False then Accessory else Entity_None)\<rparr>
      | App_Invalid \<Rightarrow> st)"

definition mode_state_new :: "change_modes \<Rightarrow> mode_state" where
  "mode_state_new m = fold mode_state_request (cm_app_states m) mode_state_default"

definition feed_resource :: "resource_changed \<Rightarrow> mode_state \<Rightarrow> mode_state" where
  "feed_resource r st =
     (let s = from_pair (rc_entity r) (rc_permanent_entity r)
      in case rc_id r of
           Main_Screen \<Rightarrow> st\<lparr>ms_screen := s\<rparr>
         | Main_Audio \<Rightarrow> st\<lparr>ms_main_audio := s\<rparr>)"

definition feed_app_state :: "app_state_changed \<Rightarrow> mode_state \<Rightarrow> mode_state" where
  "feed_app_state a st =
     (case asc_id a of
        App_Speech \<Rightarrow>
          st\<lparr>ms_speech := \<lparr>speech_entity = asc_entity a,
                            speech_mode_of = unwrap_or (asc_speech_mode a) Speech_None\<rparr>\<rparr>
      | App_Phone_Call \<Rightarrow> st\<lparr>ms_phone_call := asc_entity a\<rparr>
      | App_Turn_By_Turn \<Rightarrow> st\<lparr>ms_turn_by_turn := asc_entity a\<rparr>
      | App_Invalid \<Rightarrow> st)"

definition mode_state_feed :: "modes_changed \<Rightarrow> mode_state \<Rightarrow> mode_state" where
  "mode_state_feed u st =
     fold feed_app_state (mc_app_states u) (fold feed_resource (mc_resources u) st)"

definition mode_state_serialize :: "mode_state \<Rightarrow> modes_changed" where
  "mode_state_serialize st =
     (let (screen, screen_perm) = to_pair (ms_screen st);
          (audio, audio_perm) = to_pair (ms_main_audio st)
      in \<lparr>mc_app_states =
            [\<lparr>asc_id = App_Phone_Call, asc_entity = ms_phone_call st, asc_speech_mode = None\<rparr>,
             \<lparr>asc_id = App_Turn_By_Turn, asc_entity = ms_turn_by_turn st, asc_speech_mode = None\<rparr>,
             \<lparr>asc_id = App_Speech, asc_entity = speech_entity (ms_speech st),
              asc_speech_mode = Some (speech_mode_of (ms_speech st))\<rparr>],
          mc_resources =
            [\<lparr>rc_id = Main_Screen, rc_entity = screen, rc_permanent_entity = screen_perm\<rparr>,
             \<lparr>rc_id = Main_Audio, rc_entity = audio, rc_permanent_entity = audio_perm\<rparr>],
          mc_reason = []\<rparr>)"

definition mode_state_from_changed :: "modes_changed \<Rightarrow> mode_state" where
  "mode_state_from_changed u = mode_state_feed u mode_state_default"

definition mode_state_from_change_modes :: "change_modes \<Rightarrow> mode_state" where
  "mode_state_from_change_modes m = mode_state_new m"

text \<open>What a notification shows of a state.\<close>

definition mode_state_shown :: "mode_state \<Rightarrow> mode_state" where
  "mode_state_shown st =
     st\<lparr>ms_screen := state_shown (ms_screen st), ms_main_audio := state_shown (ms_main_audio st)\<rparr>"

lemma feed_serialize: "mode_state_feed (mode_state_serialize st) st' = mode_state_shown st"
  by (simp add: mode_state_feed_def mode_state_serialize_def feed_resource_def feed_app_state_def
      mode_state_shown_def case_prod_beta from_pair_to_pair Let_def)

lemma serialize_shown: "mode_state_serialize (mode_state_shown st) = mode_state_serialize st"
  by (simp add: mode_state_serialize_def mode_state_shown_def state_shown_def case_prod_beta Let_def)

lemma shown_idem: "mode_state_shown (mode_state_shown st) = mode_state_shown st"
  by (simp add: mode_state_shown_def state_shown_def)

text \<open>
  A notification carries the whole state: whatever the accessory believed before,
  after feeding the controller's snapshot it holds the controller's modes, up to an unclaimed
  resource, which is shown as owned by the controller. Showing loses nothing else: two states
  with the same notification are shown alike, and the shown state is its own fixed point.\<close>

lemma modes_snapshot_authoritative:
  "mode_state_feed (mode_state_serialize st) believed = mode_state_shown st \<and>
   mode_state_from_changed (mode_state_serialize st) = mode_state_shown st \<and>
   mode_state_serialize (mode_state_feed (mode_state_serialize st) believed) = mode_state_serialize st \<and>
   (mode_state_serialize st = mode_state_serialize st' \<longleftrightarrow> mode_state_shown st = mode_state_shown st')"
proof -
  have "mode_state_serialize st = mode_state_serialize st' \<longleftrightarrow> mode_state_shown st = mode_state_shown st'"
    by (metis feed_serialize serialize_shown)
  then show ?thesis
    by (simp add: feed_serialize serialize_shown mode_state_from_changed_def)
qed

end
