(* ===== verification/Resource_Manager.thy ===== *)
theory Resource_Manager
  imports Modes_Types
begin

text \<open>
  The arbitration of one resource between the controller and the accessory
  (\<open>carplay/catplay_carplay/src/modes/resource_manager.rs\<close>, \<open>ResourceManager\<close>, and the
  transactions of \<open>transaction.rs\<close> it exchanges): who owns it, who uses it, under which
  constraints the other side may take or borrow it, and how often it was borrowed. Every request
  returns whether it was accepted, with the manager after it.
\<close>

section \<open>Transactions\<close>

datatype resource_transaction =
    Tr_Take transfer_priority resource_constraint resource_constraint
  | Tr_Untake
  | Tr_Borrow transfer_priority resource_constraint
  | Tr_Unborrow

datatype permanent_entity =
    Perm_Controller
  | Perm_Accessory resource_constraint resource_constraint

section \<open>The manager\<close>

record resource_manager =
  rm_state :: resource_state
  rm_take :: resource_constraint
  rm_borrow :: resource_constraint
  rm_unborrow :: resource_constraint
  rm_borrows :: usize

text \<open>The count of borrows does not count elements in memory: it saturates at the end of a
  64-bit \<open>usize\<close>.\<close>

definition usize_max :: nat where
  "usize_max = 2 ^ 64 - 1"

definition saturating_add :: "nat \<Rightarrow> nat \<Rightarrow> nat" where
  "saturating_add a b = min (a + b) usize_max"

definition saturating_sub :: "nat \<Rightarrow> nat \<Rightarrow> nat" where
  [simp]: "saturating_sub a b = a - b"

definition manager_new :: "resource_state \<Rightarrow> resource_constraint \<Rightarrow> resource_constraint \<Rightarrow> resource_manager" where
  "manager_new s t b =
     \<lparr>rm_state = s, rm_take = t, rm_borrow = b, rm_unborrow = Anytime, rm_borrows = 0\<rparr>"

definition with_unborrow_constraint :: "resource_manager \<Rightarrow> resource_constraint \<Rightarrow> resource_manager" where
  "with_unborrow_constraint m u = m\<lparr>rm_unborrow := u\<rparr>"

definition manager_from_resource :: "resource \<Rightarrow> resource_manager" where
  "manager_from_resource r =
     with_unborrow_constraint
       (manager_new (state_from_request (req_type r))
          (unwrap_or (req_take r) Anytime) (unwrap_or (req_borrow r) Anytime))
       (unwrap_or (req_unborrow r) Anytime)"

definition controller_owned :: resource_manager where
  "controller_owned = manager_new Controller_Has Anytime Anytime"

definition accessory_owned :: "resource_constraint \<Rightarrow> resource_constraint \<Rightarrow> resource_manager" where
  "accessory_owned t b = manager_new Accessory_Has t b"

definition unclaimed :: resource_manager where
  "unclaimed = manager_new Invalid Anytime Anytime"

definition manager_from_permanent_entity :: "permanent_entity \<Rightarrow> resource_manager" where
  "manager_from_permanent_entity e =
     (case e of
        Perm_Controller \<Rightarrow> controller_owned
      | Perm_Accessory t b \<Rightarrow> accessory_owned t b)"

abbreviation manager_owner :: "resource_manager \<Rightarrow> entity" where
  "manager_owner m \<equiv> state_owner (rm_state m)"

abbreviation manager_entity :: "resource_manager \<Rightarrow> entity" where
  "manager_entity m \<equiv> state_entity (rm_state m)"

abbreviation manager_unclaimed :: "resource_manager \<Rightarrow> bool" where
  "manager_unclaimed m \<equiv> state_is_unclaimed (rm_state m)"

definition apply_initial_transaction ::
    "resource_transaction option \<Rightarrow> resource_manager \<Rightarrow> resource_manager" where
  "apply_initial_transaction t m =
     (case t of
        Some (Tr_Take _ tk bw) \<Rightarrow> accessory_owned tk bw
      | Some (Tr_Borrow _ u) \<Rightarrow>
          (if manager_owner m = Controller \<or> manager_unclaimed m
           then m\<lparr>rm_state := Accessory_Borrowed, rm_unborrow := u, rm_borrows := 1\<rparr>
           else m)
      | Some Tr_Untake \<Rightarrow> m
      | Some Tr_Unborrow \<Rightarrow> m
      | None \<Rightarrow> m)"

fun priority_satisfies :: "transfer_priority \<Rightarrow> resource_constraint \<Rightarrow> bool" where
  "priority_satisfies p Anytime = True"
| "priority_satisfies p Constraint_User_Initiated = (p = Priority_User_Initiated)"
| "priority_satisfies p Never = False"

definition can_take :: "resource_manager \<Rightarrow> transfer_priority \<Rightarrow> bool" where
  "can_take m p =
     priority_satisfies p (if state_is_borrowed (rm_state m) then rm_unborrow m else rm_take m)"

definition can_borrow :: "resource_manager \<Rightarrow> transfer_priority \<Rightarrow> bool" where
  "can_borrow m p = priority_satisfies p (rm_borrow m)"

definition manager_transaction :: "resource_manager \<Rightarrow> resource_transaction" where
  "manager_transaction m =
     (case rm_state m of
        Accessory_Has \<Rightarrow> Tr_Take Priority_User_Initiated (rm_take m) (rm_borrow m)
      | Accessory_Borrowed \<Rightarrow> Tr_Borrow Priority_User_Initiated (rm_unborrow m)
      | Controller_Has \<Rightarrow> Tr_Untake
      | Controller_Borrowed \<Rightarrow> Tr_Untake
      | Invalid \<Rightarrow> Tr_Untake)"

definition manager_info_transaction :: "resource_manager \<Rightarrow> resource_transaction option" where
  "manager_info_transaction m =
     (case rm_state m of
        Accessory_Borrowed \<Rightarrow> Some (manager_transaction m)
      | Accessory_Has \<Rightarrow> None
      | Controller_Has \<Rightarrow> None
      | Controller_Borrowed \<Rightarrow> None
      | Invalid \<Rightarrow> None)"

definition manager_permanent_entity :: "resource_manager \<Rightarrow> permanent_entity option" where
  "manager_permanent_entity m =
     (case manager_owner m of
        Controller \<Rightarrow> Some Perm_Controller
      | Accessory \<Rightarrow> Some (Perm_Accessory (rm_take m) (rm_borrow m))
      | Entity_None \<Rightarrow> None)"

section \<open>Requests\<close>

definition entity_for_controller_flag :: "bool \<Rightarrow> entity" where
  [simp]: "entity_for_controller_flag controller = (if controller then Controller else Accessory)"

fun other_entity :: "entity \<Rightarrow> entity" where
  "other_entity Controller = Accessory"
| "other_entity Accessory = Controller"
| "other_entity Entity_None = Entity_None"

definition take_request_fields ::
    "resource \<Rightarrow> (transfer_priority \<times> resource_constraint \<times> resource_constraint) option" where
  "take_request_fields r =
     (case req_priority r of
        None \<Rightarrow> None
      | Some p \<Rightarrow>
          (case req_take r of
             None \<Rightarrow> None
           | Some t \<Rightarrow>
               (case req_borrow r of
                  None \<Rightarrow> None
                | Some b \<Rightarrow> Some (p, t, b))))"

definition borrow_request_priority :: "resource \<Rightarrow> transfer_priority option" where
  "borrow_request_priority r =
     (if req_take r \<noteq> None \<or> req_borrow r \<noteq> None \<or> req_unborrow r = None then None
      else req_priority r)"

definition release_request_fields_are_empty :: "resource \<Rightarrow> bool" where
  "release_request_fields_are_empty r \<longleftrightarrow>
     req_priority r = None \<and> req_take r = None \<and> req_borrow r = None \<and> req_unborrow r = None"

definition take_by :: "bool \<Rightarrow> resource \<Rightarrow> resource_manager \<Rightarrow> bool \<times> resource_manager" where
  "take_by controller r m =
     (case take_request_fields r of
        None \<Rightarrow> (False, m)
      | Some (p, tk, bw) \<Rightarrow>
          let actor = entity_for_controller_flag controller;
              other = other_entity actor;
              actor_has = from_pair actor actor;
              actor_borrowed = from_pair actor other;
              other_borrowed = from_pair other actor
          in if rm_state m = other_borrowed \<and> \<not> priority_satisfies p (rm_unborrow m) then (False, m)
             else if (rm_state m \<noteq> actor_has \<and> rm_state m \<noteq> other_borrowed)
                  \<and> (rm_state m = actor_borrowed \<or> manager_owner m = other \<or> manager_unclaimed m)
                  \<and> \<not> priority_satisfies p (rm_take m) then (False, m)
             else (True, manager_new actor_has tk bw))"

definition untake_by :: "bool \<Rightarrow> resource \<Rightarrow> resource_manager \<Rightarrow> bool \<times> resource_manager" where
  "untake_by controller r m =
     (if \<not> release_request_fields_are_empty r then (False, m)
      else (True, if manager_owner m = entity_for_controller_flag controller then unclaimed else m))"

definition borrow_by :: "bool \<Rightarrow> resource \<Rightarrow> resource_manager \<Rightarrow> bool \<times> resource_manager" where
  "borrow_by controller r m =
     (case borrow_request_priority r of
        None \<Rightarrow> (False, m)
      | Some p \<Rightarrow>
          let actor = entity_for_controller_flag controller;
              other = other_entity actor;
              actor_has = from_pair actor actor;
              actor_borrowed = from_pair actor other;
              other_borrowed = from_pair other actor
          in if rm_state m = actor_borrowed
             then (True, m\<lparr>rm_borrows := saturating_add (rm_borrows m) 1\<rparr>)
             else if rm_state m = actor_has \<or> rm_state m = other_borrowed then (False, m)
             else if manager_owner m = other \<or> manager_unclaimed m then
               (if \<not> can_borrow m p then (False, m)
                else (True, m\<lparr>rm_unborrow := unwrap_or (req_unborrow r) Anytime,
                              rm_state := actor_borrowed, rm_borrows := 1\<rparr>))
             else (False, m))"

definition unborrow_by :: "bool \<Rightarrow> resource \<Rightarrow> resource_manager \<Rightarrow> bool \<times> resource_manager" where
  "unborrow_by controller r m =
     (if \<not> release_request_fields_are_empty r then (False, m)
      else
        let actor = entity_for_controller_flag controller;
            other = other_entity actor;
            actor_borrowed = from_pair actor other;
            other_has = from_pair other other;
            other_borrowed = from_pair other actor
        in if rm_state m = actor_borrowed then
             (let m1 = m\<lparr>rm_borrows := saturating_sub (rm_borrows m) 1\<rparr>
              in (True, if rm_borrows m1 = 0 then m1\<lparr>rm_state := other_has, rm_unborrow := Anytime\<rparr>
                        else m1))
           else if rm_state m = other_borrowed then (False, m)
           else (True, m))"

definition take_by_accessory :: "resource \<Rightarrow> resource_manager \<Rightarrow> bool \<times> resource_manager" where
  [simp]: "take_by_accessory = take_by False"

definition take_by_controller :: "resource \<Rightarrow> resource_manager \<Rightarrow> bool \<times> resource_manager" where
  [simp]: "take_by_controller = take_by True"

definition untake_by_accessory :: "resource \<Rightarrow> resource_manager \<Rightarrow> bool \<times> resource_manager" where
  [simp]: "untake_by_accessory = untake_by False"

definition untake_by_controller :: "resource \<Rightarrow> resource_manager \<Rightarrow> bool \<times> resource_manager" where
  [simp]: "untake_by_controller = untake_by True"

definition borrow_by_accessory :: "resource \<Rightarrow> resource_manager \<Rightarrow> bool \<times> resource_manager" where
  [simp]: "borrow_by_accessory = borrow_by False"

definition borrow_by_controller :: "resource \<Rightarrow> resource_manager \<Rightarrow> bool \<times> resource_manager" where
  [simp]: "borrow_by_controller = borrow_by True"

definition unborrow_by_accessory :: "resource \<Rightarrow> resource_manager \<Rightarrow> bool \<times> resource_manager" where
  [simp]: "unborrow_by_accessory = unborrow_by False"

definition unborrow_by_controller :: "resource \<Rightarrow> resource_manager \<Rightarrow> bool \<times> resource_manager" where
  [simp]: "unborrow_by_controller = unborrow_by True"

definition process_accessory_request :: "resource \<Rightarrow> resource_manager \<Rightarrow> bool \<times> resource_manager" where
  "process_accessory_request r m =
     (case req_type r of
        Take \<Rightarrow> take_by_accessory r m
      | Untake \<Rightarrow> untake_by_accessory r m
      | Borrow \<Rightarrow> borrow_by_accessory r m
      | Unborrow \<Rightarrow> unborrow_by_accessory r m)"

definition process_controller_request :: "resource \<Rightarrow> resource_manager \<Rightarrow> bool \<times> resource_manager" where
  "process_controller_request r m =
     (case req_type r of
        Take \<Rightarrow> take_by_controller r m
      | Untake \<Rightarrow> untake_by_controller r m
      | Borrow \<Rightarrow> borrow_by_controller r m
      | Unborrow \<Rightarrow> unborrow_by_controller r m)"

lemmas manager_makers =
  manager_new_def with_unborrow_constraint_def controller_owned_def accessory_owned_def unclaimed_def

lemmas request_defs = take_by_def untake_by_def borrow_by_def unborrow_by_def

section \<open>Either party\<close>

text \<open>The two entry points are one function of the acting party.\<close>

definition process_by :: "bool \<Rightarrow> resource \<Rightarrow> resource_manager \<Rightarrow> bool \<times> resource_manager" where
  "process_by controller r m =
     (case req_type r of
        Take \<Rightarrow> take_by controller r m
      | Untake \<Rightarrow> untake_by controller r m
      | Borrow \<Rightarrow> borrow_by controller r m
      | Unborrow \<Rightarrow> unborrow_by controller r m)"

lemma process_accessory_by: "process_accessory_request = process_by False"
  by (simp add: fun_eq_iff process_accessory_request_def process_by_def split: transfer_type.split)

lemma process_controller_by: "process_controller_request = process_by True"
  by (simp add: fun_eq_iff process_controller_request_def process_by_def split: transfer_type.split)

abbreviation party :: "bool \<Rightarrow> entity" where
  "party controller \<equiv> entity_for_controller_flag controller"

section \<open>The contract of a request handler\<close>

text \<open>
  What the callers of a handler rely on, whatever it arbitrates: a rejected request changes
  nothing, and every request keeps the invariant. A list of requests is then handled as a whole:
  up to the first rejection.
\<close>

fun handle_all :: "('r \<Rightarrow> 'm \<Rightarrow> bool \<times> 'm) \<Rightarrow> 'r list \<Rightarrow> 'm \<Rightarrow> bool \<times> 'm" where
  "handle_all handle [] m = (True, m)"
| "handle_all handle (r # rs) m =
     (let (ok, m') = handle r m in if ok then handle_all handle rs m' else (False, m'))"

lemma handle_all_append:
  "handle_all handle (rs @ ss) m =
     (let (ok, m') = handle_all handle rs m in if ok then handle_all handle ss m' else (False, m'))"
  by (induction rs arbitrary: m) (simp_all add: case_prod_beta Let_def)

locale request_handler =
  fixes handle :: "'r \<Rightarrow> 'm \<Rightarrow> bool \<times> 'm"
    and inv :: "'m \<Rightarrow> bool"
  assumes rejected_unchanged: "\<not> fst (handle r m) \<Longrightarrow> snd (handle r m) = m"
    and keeps: "inv m \<Longrightarrow> inv (snd (handle r m))"
begin

lemma handle_all_keeps: "inv m \<Longrightarrow> inv (snd (handle_all handle rs m))"
  by (induction rs arbitrary: m) (simp_all add: case_prod_beta Let_def keeps)

text \<open>An accepted batch is the composition of its accepted requests.\<close>

lemma handle_all_accepted:
  "fst (handle_all handle rs m) \<Longrightarrow>
   snd (handle_all handle rs m) = fold (\<lambda>r. snd \<circ> handle r) rs m"
  by (induction rs arbitrary: m) (auto simp: case_prod_beta Let_def split: if_splits)

text \<open>A batch is rejected exactly at the first request its predecessors' result rejects.\<close>

lemma handle_all_rejected_iff:
  "\<not> fst (handle_all handle rs m) \<longleftrightarrow>
   (\<exists>as r bs. rs = as @ r # bs \<and> fst (handle_all handle as m) \<and>
              \<not> fst (handle r (snd (handle_all handle as m))))" (is "?L rs m \<longleftrightarrow> ?R rs m")
proof
  show "?R rs m \<Longrightarrow> ?L rs m"
    by (auto simp: handle_all_append case_prod_beta Let_def)
next
  show "?L rs m \<Longrightarrow> ?R rs m"
  proof (induction rs arbitrary: m)
    case (Cons q rs)
    show ?case
    proof (cases "fst (handle q m)")
      case True
      then obtain as r bs where "rs = as @ r # bs"
        and "fst (handle_all handle as (snd (handle q m)))"
        and "\<not> fst (handle r (snd (handle_all handle as (snd (handle q m)))))"
        using Cons.IH [of "snd (handle q m)"] Cons.prems by (auto simp: case_prod_beta Let_def)
      then show ?thesis
        using True by (intro exI [of _ "q # as"] exI [of _ r] exI [of _ bs])
          (simp add: case_prod_beta Let_def)
    next
      case False
      then show ?thesis
        by (intro exI [of _ "[]"] exI [of _ q] exI [of _ rs]) simp
    qed
  qed simp
qed

end

section \<open>The invariant\<close>

text \<open>
  A resource is lent out exactly while borrows are counted; the count fits; and a resource that
  is not lent carries no unborrow constraint.
\<close>

definition manager_ok :: "resource_manager \<Rightarrow> bool" where
  "manager_ok m \<longleftrightarrow>
     (state_is_borrowed (rm_state m) \<longleftrightarrow> 0 < rm_borrows m) \<and>
     rm_borrows m \<le> usize_max \<and>
     (\<not> state_is_borrowed (rm_state m) \<longrightarrow> rm_unborrow m = Anytime)"

lemma usize_max_pos [simp]: "0 < usize_max" "Suc 0 \<le> usize_max"
  by (simp_all add: usize_max_def)

lemma manager_ok_new [simp]: "manager_ok (manager_new s t b) \<longleftrightarrow> \<not> state_is_borrowed s"
  by (simp add: manager_ok_def manager_new_def)

lemma manager_ok_initial:
  "manager_ok (manager_from_permanent_entity e)"
  "manager_ok controller_owned" "manager_ok unclaimed"
  "manager_ok m \<Longrightarrow> manager_ok (apply_initial_transaction t m)"
  by (auto simp: manager_from_permanent_entity_def controller_owned_def accessory_owned_def
      unclaimed_def apply_initial_transaction_def split: permanent_entity.split option.split
      resource_transaction.split) (simp_all add: manager_ok_def)

lemma manager_ok_take: "manager_ok m \<Longrightarrow> manager_ok (snd (take_by c r m))"
  by (simp add: take_by_def Let_def split: option.split prod.split)

lemma manager_ok_untake: "manager_ok m \<Longrightarrow> manager_ok (snd (untake_by c r m))"
  by (simp add: untake_by_def unclaimed_def)

lemma manager_ok_borrow: "manager_ok m \<Longrightarrow> manager_ok (snd (borrow_by c r m))"
  by (cases c; cases "rm_state m")
    (simp_all add: borrow_by_def Let_def manager_ok_def saturating_add_def split: option.split)

lemma manager_ok_unborrow: "manager_ok m \<Longrightarrow> manager_ok (snd (unborrow_by c r m))"
  by (cases c; cases "rm_state m") (auto simp: unborrow_by_def Let_def manager_ok_def)

lemma rejected_take: "\<not> fst (take_by c r m) \<Longrightarrow> snd (take_by c r m) = m"
  by (cases c; cases "rm_state m"; cases "take_request_fields r")
    (simp_all add: take_by_def Let_def case_prod_beta split: if_splits)

lemma rejected_untake: "\<not> fst (untake_by c r m) \<Longrightarrow> snd (untake_by c r m) = m"
  by (simp add: untake_by_def split: if_splits)

lemma rejected_borrow: "\<not> fst (borrow_by c r m) \<Longrightarrow> snd (borrow_by c r m) = m"
  by (cases c; cases "rm_state m"; cases "borrow_request_priority r")
    (simp_all add: borrow_by_def Let_def split: if_splits)

lemma rejected_unborrow: "\<not> fst (unborrow_by c r m) \<Longrightarrow> snd (unborrow_by c r m) = m"
  by (simp add: unborrow_by_def Let_def split: if_splits)

lemma rejected_unchanged_by: "\<not> fst (process_by c r m) \<Longrightarrow> snd (process_by c r m) = m"
  by (cases "req_type r")
    (simp_all add: process_by_def rejected_take rejected_untake rejected_borrow rejected_unborrow)

lemma manager_ok_process: "manager_ok m \<Longrightarrow> manager_ok (snd (process_by c r m))"
  by (simp add: process_by_def manager_ok_take manager_ok_untake manager_ok_borrow
      manager_ok_unborrow split: transfer_type.split)

interpretation acc: request_handler process_accessory_request manager_ok
  by unfold_locales (simp_all add: process_accessory_by rejected_unchanged_by manager_ok_process)

interpretation ctl: request_handler process_controller_request manager_ok
  by unfold_locales (simp_all add: process_controller_by rejected_unchanged_by manager_ok_process)

end
