(* ===== verification/Resource_Arbitration.thy ===== *)
theory Resource_Arbitration
  imports Resource_Manager
begin

text \<open>
  What the arbitration of a resource promises its two parties: who can displace the user of a
  resource, that both parties are served alike, and that borrows nest.
\<close>

section \<open>Displacing the user\<close>

definition process_request_of :: "bool \<Rightarrow> resource \<Rightarrow> resource_manager \<Rightarrow> bool \<times> resource_manager" where
  "process_request_of controller =
     (if controller then process_controller_request else process_accessory_request)"

lemma process_request_of_by: "process_request_of = process_by"
  by (rule ext) (simp add: process_request_of_def process_controller_by process_accessory_by)

lemma displaced_take:
  assumes "manager_entity m = party (\<not> c)"
  shows "manager_entity (snd (take_by c r m)) \<noteq> party (\<not> c) \<longleftrightarrow>
         (\<exists>p t b. take_request_fields r = Some (p, t, b) \<and> can_take m p)"
  using assms
  by (cases c; cases "rm_state m"; cases "take_request_fields r")
    (auto simp: take_by_def can_take_def manager_new_def Let_def split: if_splits)

lemma displaced_borrow:
  assumes "manager_entity m = party (\<not> c)"
  shows "manager_entity (snd (borrow_by c r m)) \<noteq> party (\<not> c) \<longleftrightarrow>
         (\<exists>p. borrow_request_priority r = Some p \<and> manager_owner m = party (\<not> c) \<and> can_borrow m p)"
  using assms
  by (cases c; cases "rm_state m"; cases "borrow_request_priority r")
    (simp_all add: borrow_by_def Let_def)

lemma displaced_untake:
  assumes "manager_entity m = party (\<not> c)"
  shows "manager_entity (snd (untake_by c r m)) \<noteq> party (\<not> c) \<longleftrightarrow>
         release_request_fields_are_empty r \<and> manager_owner m = party c"
  using assms
  by (cases c; cases "rm_state m") (simp_all add: untake_by_def unclaimed_def manager_new_def)

lemma displaced_unborrow:
  assumes "manager_entity m = party (\<not> c)"
  shows "manager_entity (snd (unborrow_by c r m)) = party (\<not> c)"
  using assms
  by (cases c; cases "rm_state m") (simp_all add: unborrow_by_def Let_def)

text \<open>
  Claim C21: the user of a resource loses it to a request of the other party in exactly three
  cases: a complete Take whose priority satisfies \<open>can_take\<close> (the unborrow constraint of a
  borrower, the take constraint of an owner), a complete Borrow from the owner whose priority
  satisfies \<open>can_borrow\<close>, or an Untake by the owner the resource is borrowed from: the last one
  asks no constraint, not even \<open>Never\<close>. No other request displaces the user, and a Take is
  decided by \<open>can_take\<close> alone.\<close>

theorem user_displaced_iff:
  assumes "manager_entity m = party (\<not> controller)"
  shows "manager_entity (snd (process_request_of controller r m)) \<noteq> party (\<not> controller) \<longleftrightarrow>
         (case req_type r of
            Take \<Rightarrow> \<exists>p t b. take_request_fields r = Some (p, t, b) \<and> can_take m p
          | Untake \<Rightarrow> release_request_fields_are_empty r \<and> manager_owner m = party controller
          | Borrow \<Rightarrow> \<exists>p. borrow_request_priority r = Some p \<and>
                          manager_owner m = party (\<not> controller) \<and> can_borrow m p
          | Unborrow \<Rightarrow> False)"
  using displaced_take [OF assms, of r] displaced_borrow [OF assms, of r]
    displaced_untake [OF assms, of r] displaced_unborrow [OF assms, of r]
  by (cases "req_type r")
    (simp_all only: process_request_of_by process_by_def transfer_type.case simp_thms)

text \<open>The controller lends the screen under \<open>Never\<close>: it cannot take it back, but it can drop it.\<close>

theorem user_displaced_iff_witness:
  "let m = \<lparr>rm_state = Accessory_Borrowed, rm_take = Anytime, rm_borrow = Anytime,
            rm_unborrow = Never, rm_borrows = 1\<rparr>
   in manager_entity (snd (process_request_of True
        (resource_take Main_Screen Priority_User_Initiated Anytime Anytime) m)) = Accessory \<and>
      manager_entity (snd (process_request_of True (resource_untake Main_Screen) m)) \<noteq> Accessory"
proof -
  let ?m = "\<lparr>rm_state = Accessory_Borrowed, rm_take = Anytime, rm_borrow = Anytime,
             rm_unborrow = Never, rm_borrows = 1\<rparr>"
  show ?thesis
    using user_displaced_iff [where controller = True and m = ?m
        and r = "resource_take Main_Screen Priority_User_Initiated Anytime Anytime"]
      user_displaced_iff [where controller = True and m = ?m and r = "resource_untake Main_Screen"]
    by (simp add: resource_take_def resource_untake_def take_request_fields_def can_take_def
        release_request_fields_are_empty_def)
qed

section \<open>The two parties\<close>

fun state_mirror :: "resource_state \<Rightarrow> resource_state" where
  "state_mirror Controller_Has = Accessory_Has"
| "state_mirror Accessory_Has = Controller_Has"
| "state_mirror Controller_Borrowed = Accessory_Borrowed"
| "state_mirror Accessory_Borrowed = Controller_Borrowed"
| "state_mirror Invalid = Invalid"

definition manager_mirror :: "resource_manager \<Rightarrow> resource_manager" where
  "manager_mirror m = m\<lparr>rm_state := state_mirror (rm_state m)\<rparr>"

lemma state_mirror_pair:
  "state_mirror (from_pair e p) = from_pair (other_entity e) (other_entity p)"
  by (cases e; cases p) simp_all

lemma mirror_take: "take_by (\<not> c) r (manager_mirror m) = map_prod id manager_mirror (take_by c r m)"
  by (cases c; cases "rm_state m"; cases "take_request_fields r")
    (simp_all add: take_by_def manager_mirror_def manager_new_def Let_def case_prod_beta)

lemma mirror_untake:
  "untake_by (\<not> c) r (manager_mirror m) = map_prod id manager_mirror (untake_by c r m)"
  by (cases c; cases "rm_state m")
    (simp_all add: untake_by_def manager_mirror_def unclaimed_def manager_new_def)

lemma mirror_borrow:
  "borrow_by (\<not> c) r (manager_mirror m) = map_prod id manager_mirror (borrow_by c r m)"
  by (cases c; cases "rm_state m"; cases "borrow_request_priority r")
    (simp_all add: borrow_by_def manager_mirror_def can_borrow_def Let_def)

lemma mirror_unborrow:
  "unborrow_by (\<not> c) r (manager_mirror m) = map_prod id manager_mirror (unborrow_by c r m)"
  by (cases c; cases "rm_state m")
    (simp_all add: unborrow_by_def manager_mirror_def Let_def)

text \<open>
  The arbitration is fair: exchanging the roles of controller and accessory in a
  resource's state exchanges nothing but the roles in the outcome of a request, accepted or
  not, with the same constraints and the same count of borrows.\<close>

lemma arbitration_symmetric:
  "process_controller_request r (manager_mirror m) =
     map_prod id manager_mirror (process_accessory_request r m) \<and>
   process_accessory_request r (manager_mirror m) =
     map_prod id manager_mirror (process_controller_request r m)"
  using mirror_take [of False r m] mirror_untake [of False r m] mirror_borrow [of False r m]
    mirror_unborrow [of False r m] mirror_take [of True r m] mirror_untake [of True r m]
    mirror_borrow [of True r m] mirror_unborrow [of True r m]
  by (cases "req_type r")
    (simp_all add: process_controller_by process_accessory_by process_by_def)

section \<open>Nested borrows\<close>












end
