(* ===== verification/Resource_Controller.thy ===== *)
theory Resource_Controller
  imports Resource_Manager
begin

text \<open>
  All modes together (\<open>carplay/catplay_carplay/src/modes/transaction.rs\<close> and
  \<open>ResourceController\<close> of \<open>resource_manager.rs\<close>): the transaction that both requests and
  controllers are read into and written from, and the controller that arbitrates the screen,
  the main audio and the application states.
\<close>

section \<open>The transaction of a request\<close>

record mode_transaction =
  tr_screen :: "resource_transaction option"
  tr_screen_perm :: "permanent_entity option"
  tr_main_audio :: "resource_transaction option"
  tr_main_audio_perm :: "permanent_entity option"
  tr_phone_call :: "entity option"
  tr_speech :: "speech_state option"
  tr_turn_by_turn :: "entity option"
  tr_reason :: string

definition transaction_default :: mode_transaction where
  "transaction_default =
     \<lparr>tr_screen = None, tr_screen_perm = None, tr_main_audio = None, tr_main_audio_perm = None,
      tr_phone_call = None, tr_speech = None, tr_turn_by_turn = None, tr_reason = []\<rparr>"

definition serialize_to_resource :: "resource_transaction \<Rightarrow> resource_id \<Rightarrow> resource" where
  "serialize_to_resource t i =
     (case t of
        Tr_Take p tk bw \<Rightarrow> resource_take i p tk bw
      | Tr_Untake \<Rightarrow> resource_untake i
      | Tr_Borrow p u \<Rightarrow> resource_borrow i p u
      | Tr_Unborrow \<Rightarrow> resource_unborrow i)"

definition transaction_from_resource :: "resource \<Rightarrow> resource_transaction" where
  "transaction_from_resource r =
     (case req_type r of
        Take \<Rightarrow> Tr_Take (unwrap_or (req_priority r) Nice_To_Have)
                  (unwrap_or (req_take r) Anytime) (unwrap_or (req_borrow r) Anytime)
      | Untake \<Rightarrow> Tr_Untake
      | Borrow \<Rightarrow> Tr_Borrow (unwrap_or (req_priority r) Nice_To_Have)
                    (unwrap_or (req_unborrow r) Anytime)
      | Unborrow \<Rightarrow> Tr_Unborrow)"

definition serialize_initial_permanent_entity ::
    "resource_id \<Rightarrow> permanent_entity \<Rightarrow> initial_permanent_entity" where
  "serialize_initial_permanent_entity i e =
     (case e of
        Perm_Accessory tk bw \<Rightarrow> ipe_accessory i tk bw
      | Perm_Controller \<Rightarrow> ipe_controller i)"

definition from_initial_permanent_entity :: "initial_permanent_entity \<Rightarrow> permanent_entity option" where
  "from_initial_permanent_entity e =
     (case ipe_entity e of
        Accessory \<Rightarrow> Some (Perm_Accessory (unwrap_or (ipe_take e) Anytime) (unwrap_or (ipe_borrow e) Anytime))
      | Controller \<Rightarrow> Some Perm_Controller
      | Entity_None \<Rightarrow> None)"

definition serialize_app_states :: "mode_transaction \<Rightarrow> app_state list" where
  "serialize_app_states t =
     (case tr_phone_call t of
        None \<Rightarrow> []
      | Some e \<Rightarrow> [app_state_new App_Phone_Call (e = Accessory)]) @
     (case tr_turn_by_turn t of
        None \<Rightarrow> []
      | Some e \<Rightarrow> [app_state_new App_Turn_By_Turn (e = Accessory)]) @
     (case tr_speech t of
        None \<Rightarrow> []
      | Some s \<Rightarrow>
          [app_state_speech (if speech_entity s = Accessory then speech_mode_of s else Speech_None)])"

definition serialize_to_change_modes :: "mode_transaction \<Rightarrow> change_modes" where
  "serialize_to_change_modes t =
     \<lparr>cm_app_states = serialize_app_states t,
      cm_resources =
        (case tr_screen t of None \<Rightarrow> [] | Some x \<Rightarrow> [serialize_to_resource x Main_Screen]) @
        (case tr_main_audio t of None \<Rightarrow> [] | Some x \<Rightarrow> [serialize_to_resource x Main_Audio]),
      cm_reason = tr_reason t,
      cm_initial = []\<rparr>"

definition serialize_to_info_change_modes :: "mode_transaction \<Rightarrow> change_modes" where
  "serialize_to_info_change_modes t =
     (let modes = serialize_to_change_modes t;
          modes1 =
            (case tr_screen_perm t of
               None \<Rightarrow> modes
             | Some e \<Rightarrow>
                 modes\<lparr>cm_initial := cm_initial modes @ [serialize_initial_permanent_entity Main_Screen e]\<rparr>)
      in case tr_main_audio_perm t of
           None \<Rightarrow> modes1
         | Some e \<Rightarrow>
             modes1\<lparr>cm_initial := cm_initial modes1 @ [serialize_initial_permanent_entity Main_Audio e]\<rparr>)"

definition set_resource :: "resource_id \<Rightarrow> resource_transaction \<Rightarrow> mode_transaction \<Rightarrow> mode_transaction" where
  "set_resource i x t =
     (case i of
        Main_Screen \<Rightarrow> t\<lparr>tr_screen := Some x\<rparr>
      | Main_Audio \<Rightarrow> t\<lparr>tr_main_audio := Some x\<rparr>)"

definition set_initial_permanent_entity ::
    "initial_permanent_entity \<Rightarrow> mode_transaction \<Rightarrow> mode_transaction" where
  "set_initial_permanent_entity e t =
     (let p = from_initial_permanent_entity e
      in case ipe_id e of
           Main_Screen \<Rightarrow> t\<lparr>tr_screen_perm := p\<rparr>
         | Main_Audio \<Rightarrow> t\<lparr>tr_main_audio_perm := p\<rparr>)"

definition set_app_state :: "app_state \<Rightarrow> mode_transaction \<Rightarrow> mode_transaction" where
  "set_app_state a t =
     (case app_state_id a of
        App_Speech \<Rightarrow>
          t\<lparr>tr_speech := Some (speech_of_request (unwrap_or (app_speech_mode a) Speech_None))\<rparr>
      | App_Phone_Call \<Rightarrow>
          t\<lparr>tr_phone_call :=
             Some (if unwrap_or (app_active a) False then Accessory else Entity_None)\<rparr>
      | App_Turn_By_Turn \<Rightarrow>
          t\<lparr>tr_turn_by_turn :=
             Some (if unwrap_or (app_active a) False then Accessory else Entity_None)\<rparr>
      | App_Invalid \<Rightarrow> t)"

definition transaction_from_change_modes :: "change_modes \<Rightarrow> mode_transaction" where
  "transaction_from_change_modes m =
     fold set_app_state (cm_app_states m)
       (fold (\<lambda>r. set_resource (req_id r) (transaction_from_resource r)) (cm_resources m)
         (fold set_initial_permanent_entity (cm_initial m)
           (transaction_default\<lparr>tr_reason := cm_reason m\<rparr>)))"

section \<open>The controller\<close>

record resource_controller =
  c_screen :: resource_manager
  c_main_audio :: resource_manager
  c_phone_call :: entity
  c_speech :: speech_state
  c_turn_by_turn :: entity

definition controller_default :: resource_controller where
  "controller_default =
     \<lparr>c_screen = controller_owned, c_main_audio = controller_owned, c_phone_call = Entity_None,
      c_speech = speech_default, c_turn_by_turn = Entity_None\<rparr>"

definition controller_new :: "resource_manager \<Rightarrow> resource_manager \<Rightarrow> resource_controller" where
  "controller_new screen audio = controller_default\<lparr>c_screen := screen, c_main_audio := audio\<rparr>"

definition controller_from_change_modes :: "change_modes \<Rightarrow> resource_controller" where
  "controller_from_change_modes modes =
     (let t = transaction_from_change_modes modes;
          this = controller_default;
          this = (case tr_screen_perm t of
                    None \<Rightarrow> this
                  | Some e \<Rightarrow> this\<lparr>c_screen := manager_from_permanent_entity e\<rparr>);
          this = (case tr_main_audio_perm t of
                    None \<Rightarrow> this
                  | Some e \<Rightarrow> this\<lparr>c_main_audio := manager_from_permanent_entity e\<rparr>);
          this = this\<lparr>c_screen := apply_initial_transaction (tr_screen t) (c_screen this)\<rparr>;
          this = this\<lparr>c_main_audio := apply_initial_transaction (tr_main_audio t) (c_main_audio this)\<rparr>;
          this = (case tr_phone_call t of None \<Rightarrow> this | Some e \<Rightarrow> this\<lparr>c_phone_call := e\<rparr>);
          this = (case tr_turn_by_turn t of None \<Rightarrow> this | Some e \<Rightarrow> this\<lparr>c_turn_by_turn := e\<rparr>)
      in case tr_speech t of None \<Rightarrow> this | Some s \<Rightarrow> this\<lparr>c_speech := s\<rparr>)"

definition controller_transaction :: "resource_controller \<Rightarrow> mode_transaction" where
  "controller_transaction c =
     transaction_default
       \<lparr>tr_screen := Some (manager_transaction (c_screen c)),
        tr_main_audio := Some (manager_transaction (c_main_audio c)),
        tr_phone_call := Some (c_phone_call c),
        tr_turn_by_turn := Some (c_turn_by_turn c),
        tr_speech := Some (c_speech c)\<rparr>"

definition controller_info_transaction :: "resource_controller \<Rightarrow> mode_transaction" where
  "controller_info_transaction c =
     transaction_default
       \<lparr>tr_screen := manager_info_transaction (c_screen c),
        tr_screen_perm := manager_permanent_entity (c_screen c),
        tr_main_audio := manager_info_transaction (c_main_audio c),
        tr_main_audio_perm := manager_permanent_entity (c_main_audio c),
        tr_phone_call := Some (c_phone_call c),
        tr_turn_by_turn := Some (c_turn_by_turn c),
        tr_speech := Some (c_speech c)\<rparr>"

definition controller_request :: "resource_controller \<Rightarrow> change_modes" where
  "controller_request c = serialize_to_change_modes (controller_transaction c)"

definition controller_info_request :: "resource_controller \<Rightarrow> change_modes" where
  "controller_info_request c = serialize_to_info_change_modes (controller_info_transaction c)"

definition controller_state :: "resource_controller \<Rightarrow> mode_state" where
  "controller_state c =
     \<lparr>ms_screen = rm_state (c_screen c), ms_main_audio = rm_state (c_main_audio c),
      ms_phone_call = c_phone_call c, ms_speech = c_speech c, ms_turn_by_turn = c_turn_by_turn c\<rparr>"

definition process_app_state :: "app_state \<Rightarrow> resource_controller \<Rightarrow> bool \<times> resource_controller" where
  "process_app_state a c =
     (case app_state_id a of
        App_Speech \<Rightarrow>
          (case app_speech_mode a of
             None \<Rightarrow> (False, c)
           | Some m \<Rightarrow> (True, c\<lparr>c_speech := speech_of_request m\<rparr>))
      | App_Phone_Call \<Rightarrow>
          (case app_active a of
             None \<Rightarrow> (False, c)
           | Some active \<Rightarrow>
               if active then
                 (if c_phone_call c = Controller then (False, c)
                  else (True, c\<lparr>c_phone_call := Accessory\<rparr>))
               else (True, if c_phone_call c = Accessory then c\<lparr>c_phone_call := Entity_None\<rparr> else c))
      | App_Turn_By_Turn \<Rightarrow>
          (case app_active a of
             None \<Rightarrow> (False, c)
           | Some active \<Rightarrow>
               (True,
                if active then c\<lparr>c_turn_by_turn := Accessory\<rparr>
                else if c_turn_by_turn c = Accessory then c\<lparr>c_turn_by_turn := Entity_None\<rparr>
                else c))
      | App_Invalid \<Rightarrow> (False, c))"

text \<open>One resource of a request: the manager its id names is handed the request.\<close>

definition process_resource :: "resource \<Rightarrow> resource_controller \<Rightarrow> bool \<times> resource_controller" where
  "process_resource r c =
     (case req_id r of
        Main_Screen \<Rightarrow>
          (let (ok, m) = process_accessory_request r (c_screen c) in (ok, c\<lparr>c_screen := m\<rparr>))
      | Main_Audio \<Rightarrow>
          (let (ok, m) = process_accessory_request r (c_main_audio c) in (ok, c\<lparr>c_main_audio := m\<rparr>)))"

text \<open>
  The request works on a copy: the application states, then the resources, each loop leaving at
  the first rejection; only a request accepted to its end replaces the controller.
\<close>

definition process_request :: "change_modes \<Rightarrow> resource_controller \<Rightarrow> bool \<times> resource_controller" where
  "process_request q c =
     (let (ok1, next1) = handle_all process_app_state (cm_app_states q) c
      in if \<not> ok1 then (False, c)
         else let (ok2, next2) = handle_all process_resource (cm_resources q) next1
              in if \<not> ok2 then (False, c) else (True, next2))"

definition process_request_to_response ::
    "change_modes \<Rightarrow> resource_controller \<Rightarrow> change_modes_response \<times> resource_controller" where
  "process_request_to_response q c =
     (let (ok, c') = process_request q c
      in if ok then (response_new (mode_state_serialize (controller_state c')), c')
         else (response_error 1, c'))"

section \<open>The transaction carries the request\<close>

lemma transaction_resource_roundtrip [simp]:
  "transaction_from_resource (serialize_to_resource x i) = x"
  "req_id (serialize_to_resource x i) = i"
  by (cases x; simp add: transaction_from_resource_def serialize_to_resource_def resource_take_def
      resource_untake_def resource_borrow_def resource_unborrow_def)+

lemma permanent_entity_roundtrip [simp]:
  "from_initial_permanent_entity (serialize_initial_permanent_entity i e) = Some e"
  "ipe_id (serialize_initial_permanent_entity i e) = i"
  by (cases e; simp add: from_initial_permanent_entity_def serialize_initial_permanent_entity_def
      ipe_accessory_def ipe_controller_def)+

text \<open>What a request can say of an application state: it is the accessory's, or it is not.\<close>

definition said_entity :: "entity \<Rightarrow> entity" where
  "said_entity e = (if e = Accessory then Accessory else Entity_None)"

definition said_speech :: "speech_state \<Rightarrow> speech_state" where
  "said_speech s =
     speech_of_request (if speech_entity s = Accessory then speech_mode_of s else Speech_None)"

definition transaction_said :: "mode_transaction \<Rightarrow> mode_transaction" where
  "transaction_said t =
     t\<lparr>tr_phone_call := map_option said_entity (tr_phone_call t),
       tr_turn_by_turn := map_option said_entity (tr_turn_by_turn t),
       tr_speech := map_option said_speech (tr_speech t)\<rparr>"

lemma set_app_state_simps:
  "set_app_state (app_state_new App_Phone_Call b) t =
     t\<lparr>tr_phone_call := Some (if b then Accessory else Entity_None)\<rparr>"
  "set_app_state (app_state_new App_Turn_By_Turn b) t =
     t\<lparr>tr_turn_by_turn := Some (if b then Accessory else Entity_None)\<rparr>"
  "set_app_state (app_state_speech m) t = t\<lparr>tr_speech := Some (speech_of_request m)\<rparr>"
  by (simp_all add: set_app_state_def app_state_new_def app_state_speech_def)

lemma fold_app_states:
  "fold set_app_state (serialize_app_states t) t' =
     t'\<lparr>tr_phone_call := (case tr_phone_call t of None \<Rightarrow> tr_phone_call t' | Some e \<Rightarrow> Some (said_entity e)),
        tr_turn_by_turn := (case tr_turn_by_turn t of None \<Rightarrow> tr_turn_by_turn t' | Some e \<Rightarrow> Some (said_entity e)),
        tr_speech := (case tr_speech t of None \<Rightarrow> tr_speech t' | Some s \<Rightarrow> Some (said_speech s))\<rparr>"
  by (cases "tr_phone_call t"; cases "tr_turn_by_turn t"; cases "tr_speech t")
    (simp_all add: serialize_app_states_def set_app_state_simps said_entity_def said_speech_def)

lemma info_change_modes:
  "cm_app_states (serialize_to_info_change_modes t) = serialize_app_states t"
  "cm_resources (serialize_to_info_change_modes t) =
     (case tr_screen t of None \<Rightarrow> [] | Some x \<Rightarrow> [serialize_to_resource x Main_Screen]) @
     (case tr_main_audio t of None \<Rightarrow> [] | Some x \<Rightarrow> [serialize_to_resource x Main_Audio])"
  "cm_reason (serialize_to_info_change_modes t) = tr_reason t"
  "cm_initial (serialize_to_info_change_modes t) =
     (case tr_screen_perm t of None \<Rightarrow> [] | Some e \<Rightarrow> [serialize_initial_permanent_entity Main_Screen e]) @
     (case tr_main_audio_perm t of None \<Rightarrow> [] | Some e \<Rightarrow> [serialize_initial_permanent_entity Main_Audio e])"
  by (simp_all add: serialize_to_info_change_modes_def serialize_to_change_modes_def Let_def
      split: option.split)

lemma transaction_info_roundtrip:
  "transaction_from_change_modes (serialize_to_info_change_modes t) = transaction_said t"
  by (intro mode_transaction.equality)
    (simp_all add: transaction_from_change_modes_def info_change_modes fold_app_states
      set_resource_def set_initial_permanent_entity_def transaction_default_def
      transaction_said_def split: option.split)

text \<open>
  a transaction survives the request it is sent as: read back, an info request gives
  every resource transaction, permanent owner and reason it was written from, and of the
  application states exactly what a request can say: whether they are the accessory's.
  A plain request gives the same without the permanent owners.\<close>

lemma transaction_roundtrip:
  "transaction_from_change_modes (serialize_to_info_change_modes t) = transaction_said t \<and>
   transaction_from_change_modes (serialize_to_change_modes t) =
     (transaction_said t)\<lparr>tr_screen_perm := None, tr_main_audio_perm := None\<rparr>"
proof -
  let ?t = "t\<lparr>tr_screen_perm := None, tr_main_audio_perm := None\<rparr>"
  have "serialize_to_change_modes t = serialize_to_info_change_modes ?t"
    by (simp add: serialize_to_info_change_modes_def serialize_to_change_modes_def
        serialize_app_states_def Let_def)
  then show ?thesis
    by (simp add: transaction_info_roundtrip) (simp add: transaction_said_def)
qed

section \<open>Requests are all or nothing\<close>

definition controller_ok :: "resource_controller \<Rightarrow> bool" where
  "controller_ok c \<longleftrightarrow> manager_ok (c_screen c) \<and> manager_ok (c_main_audio c)"

interpretation app: request_handler process_app_state controller_ok
  by unfold_locales
    (auto simp: process_app_state_def controller_ok_def split: app_state_enum.splits option.splits
      if_splits)

interpretation res: request_handler process_resource controller_ok
proof
  fix r c
  show "snd (process_resource r c) = c" if "\<not> fst (process_resource r c)"
    using that acc.rejected_unchanged [of r]
    by (cases "req_id r") (simp_all add: process_resource_def case_prod_beta Let_def)
  show "controller_ok (snd (process_resource r c))" if "controller_ok c"
    using that acc.keeps [of _ r]
    by (cases "req_id r") (simp_all add: process_resource_def controller_ok_def case_prod_beta Let_def)
qed

text \<open>Every step of a request, in the order the code takes them.\<close>

datatype mode_request = App_Request app_state | Resource_Request resource

fun request_step :: "mode_request \<Rightarrow> resource_controller \<Rightarrow> bool \<times> resource_controller" where
  "request_step (App_Request a) c = process_app_state a c"
| "request_step (Resource_Request r) c = process_resource r c"

definition request_steps :: "change_modes \<Rightarrow> mode_request list" where
  "request_steps q = map App_Request (cm_app_states q) @ map Resource_Request (cm_resources q)"

interpretation steps: request_handler request_step controller_ok
proof
  fix r c
  show "snd (request_step r c) = c" if "\<not> fst (request_step r c)"
    using that app.rejected_unchanged res.rejected_unchanged by (cases r) auto
  show "controller_ok (snd (request_step r c))" if "controller_ok c"
    using that app.keeps res.keeps by (cases r) auto
qed

lemma handle_all_map: "handle_all f (map g xs) m = handle_all (\<lambda>x. f (g x)) xs m"
  by (induction xs arbitrary: m) (simp_all add: case_prod_beta Let_def)

lemma process_request_steps:
  "process_request q c =
     (let (ok, c') = handle_all request_step (request_steps q) c in (ok, if ok then c' else c))"
proof -
  have "(\<lambda>a. request_step (App_Request a)) = process_app_state"
    and "(\<lambda>r. request_step (Resource_Request r)) = process_resource"
    by (simp_all add: fun_eq_iff)
  then show ?thesis
    by (simp add: process_request_def request_steps_def handle_all_append handle_all_map
        case_prod_beta Let_def)
qed

lemma handle_all_phone_call:
  "c_phone_call c = Controller \<Longrightarrow> c_phone_call (snd (handle_all request_step rs c)) = Controller"
proof (induction rs arbitrary: c)
  case (Cons r rs)
  have "c_phone_call (snd (request_step r c)) = Controller"
    using Cons.prems by (cases r) (auto simp: process_app_state_def process_resource_def
        case_prod_beta Let_def split: app_state_enum.split option.split resource_id.split)
  then show ?case
    using Cons.IH by (simp add: case_prod_beta Let_def)
qed simp

text \<open>
  Claim C20: a request of the accessory is all or nothing. Accepted, it is the composition of all
  its application states and resources in order, and the reply is the snapshot of the result;
  it is rejected exactly when some of them is rejected in the state its predecessors leave, and
  then nothing of it has happened and the reply is an error without modes. Either way the borrow
  counts stay exact, and the accessory cannot end a phone call of the controller.\<close>

theorem request_all_or_nothing:
  assumes inv: "controller_ok c" and run: "process_request q c = (ok, c')"
  shows "(ok \<longrightarrow> c' = fold (\<lambda>r. snd \<circ> request_step r) (request_steps q) c) \<and>
    (\<not> ok \<longrightarrow> c' = c) \<and>
    (\<not> ok \<longleftrightarrow>
       (\<exists>as r bs. request_steps q = as @ r # bs \<and> fst (handle_all request_step as c) \<and>
                  \<not> fst (request_step r (snd (handle_all request_step as c))))) \<and>
    process_request_to_response q c =
      (if ok then \<lparr>cmr_status = 0, cmr_params = Some (mode_state_serialize (controller_state c'))\<rparr>
       else \<lparr>cmr_status = 1, cmr_params = None\<rparr>, c') \<and>
    controller_ok c' \<and>
    (c_phone_call c = Controller \<longrightarrow> c_phone_call c' = Controller)"
proof -
  let ?h = "handle_all request_step (request_steps q) c"
  have ok: "ok = fst ?h" and c': "c' = (if ok then snd ?h else c)"
    using run by (auto simp: process_request_steps case_prod_beta Let_def)
  have "ok \<longrightarrow> c' = fold (\<lambda>r. snd \<circ> request_step r) (request_steps q) c"
    using steps.handle_all_accepted [of "request_steps q" c] by (simp add: ok c')
  moreover have "\<not> ok \<longrightarrow> c' = c"
    by (simp add: c')
  moreover have "\<not> ok \<longleftrightarrow>
       (\<exists>as r bs. request_steps q = as @ r # bs \<and> fst (handle_all request_step as c) \<and>
                  \<not> fst (request_step r (snd (handle_all request_step as c))))"
    unfolding ok by (rule steps.handle_all_rejected_iff)
  moreover have "controller_ok c'"
    using inv steps.handle_all_keeps by (simp add: c')
  moreover have "c_phone_call c = Controller \<longrightarrow> c_phone_call c' = Controller"
    using handle_all_phone_call by (simp add: c')
  ultimately show ?thesis
    by (simp add: process_request_to_response_def run response_simps)
qed

theorem request_all_or_nothing_witness:
  "let q = \<lparr>cm_app_states = [app_state_new App_Phone_Call True],
            cm_resources = [resource_borrow Main_Screen Nice_To_Have Anytime,
                            resource_unborrow Main_Audio, resource_borrow Main_Screen Nice_To_Have Never],
            cm_reason = [], cm_initial = []\<rparr>
   in process_request q controller_default = (True, snd (process_request q controller_default)) \<and>
      controller_ok (snd (process_request q controller_default))"
proof -
  let ?q = "\<lparr>cm_app_states = [app_state_new App_Phone_Call True],
            cm_resources = [resource_borrow Main_Screen Nice_To_Have Anytime,
                            resource_unborrow Main_Audio, resource_borrow Main_Screen Nice_To_Have Never],
            cm_reason = [], cm_initial = []\<rparr>"
  have init: "controller_ok controller_default"
    by (simp add: controller_ok_def controller_default_def manager_ok_initial)
  have run: "process_request ?q controller_default = (True, snd (process_request ?q controller_default))"
    by (simp add: process_request_def process_app_state_def process_resource_def
        controller_default_def controller_owned_def manager_new_def app_state_new_def
        resource_borrow_def resource_unborrow_def process_accessory_request_def borrow_by_def
        unborrow_by_def borrow_request_priority_def release_request_fields_are_empty_def
        can_borrow_def)
  show ?thesis
    unfolding Let_def using run request_all_or_nothing [OF init run] by blast
qed

end
