(* ===== verification/Mode_Restore.thy ===== *)
theory Mode_Restore
  imports Resource_Controller
begin

text \<open>
  A controller is set up from the request of a session's info message and can write one itself
  (\<open>from_change_modes\<close>, \<open>serialize_to_info_request\<close>): what survives the way through it.
\<close>

section \<open>Controllers of an accessory's session\<close>

inductive accessory_session :: "resource_controller \<Rightarrow> bool" where
  "accessory_session controller_default"
| "accessory_session (controller_from_change_modes modes)"
| "accessory_session c \<Longrightarrow> accessory_session (snd (process_request q c))"

text \<open>
  Such a controller never borrows from the accessory, only an owning accessory sets take and
  borrow constraints, and its application states are the accessory's or nobody's.
\<close>

definition accessory_side :: "resource_manager \<Rightarrow> bool" where
  "accessory_side m \<longleftrightarrow>
     manager_ok m \<and> rm_state m \<noteq> Controller_Borrowed \<and>
     (rm_state m \<noteq> Accessory_Has \<longrightarrow> rm_take m = Anytime \<and> rm_borrow m = Anytime)"

definition accessory_states :: "resource_controller \<Rightarrow> bool" where
  "accessory_states c \<longleftrightarrow>
     c_phone_call c = said_entity (c_phone_call c) \<and>
     c_turn_by_turn c = said_entity (c_turn_by_turn c) \<and> c_speech c = said_speech (c_speech c)"

definition session_ok :: "resource_controller \<Rightarrow> bool" where
  "session_ok c \<longleftrightarrow>
     accessory_side (c_screen c) \<and> accessory_side (c_main_audio c) \<and> accessory_states c"

lemma accessory_side_initial:
  "accessory_side controller_owned" "accessory_side unclaimed"
  "accessory_side (accessory_owned t b)" "accessory_side (manager_from_permanent_entity e)"
  by (cases e; simp add: accessory_side_def manager_from_permanent_entity_def controller_owned_def
      accessory_owned_def unclaimed_def manager_ok_def manager_new_def)+

lemma accessory_side_apply:
  "accessory_side m \<Longrightarrow> accessory_side (apply_initial_transaction t m)"
  by (cases "rm_state m")
    (auto simp: apply_initial_transaction_def accessory_side_def manager_ok_def
      accessory_owned_def manager_new_def split: option.split resource_transaction.split)

lemma accessory_side_process:
  assumes "accessory_side m"
  shows "accessory_side (snd (process_accessory_request r m))"
proof -
  have ok: "manager_ok (snd (process_by False r m))"
    using assms manager_ok_process by (simp add: accessory_side_def)
  have "rm_state (snd (process_by False r m)) \<noteq> Controller_Borrowed \<and>
    (rm_state (snd (process_by False r m)) \<noteq> Accessory_Has \<longrightarrow>
     rm_take (snd (process_by False r m)) = Anytime \<and> rm_borrow (snd (process_by False r m)) = Anytime)"
    using assms
    by (cases "req_type r"; cases "rm_state m")
      (auto simp: accessory_side_def process_by_def request_defs unclaimed_def manager_new_def
        Let_def split: option.split prod.split)
  with ok show ?thesis
    by (simp add: process_accessory_by accessory_side_def)
qed

lemma said_idem [simp]:
  "said_entity (said_entity e) = said_entity e" "said_speech (said_speech s) = said_speech s"
  by (simp_all add: said_entity_def said_speech_def speech_of_request_def)

lemma said_values [simp]:
  "said_entity Accessory = Accessory" "said_entity Entity_None = Entity_None"
  "said_speech (speech_of_request md) = speech_of_request md"
  "said_speech speech_default = speech_default"
  by (simp_all add: said_entity_def said_speech_def speech_of_request_def speech_default_def)

lemma request_step_session:
  assumes "session_ok c"
  shows "session_ok (snd (request_step r c))"
proof (cases r)
  case (App_Request a)
  then show ?thesis
    using assms
    by (auto simp: process_app_state_def session_ok_def accessory_states_def
        split: app_state_enum.split option.split)
next
  case (Resource_Request q)
  then show ?thesis
    using assms accessory_side_process [of _ q]
    by (cases "req_id q")
      (simp_all add: process_resource_def session_ok_def accessory_states_def case_prod_beta Let_def)
qed

interpretation session: request_handler request_step session_ok
proof
  fix r c
  show "snd (request_step r c) = c" if "\<not> fst (request_step r c)"
    using that by (rule steps.rejected_unchanged)
  show "session_ok (snd (request_step r c))" if "session_ok c"
    using that by (rule request_step_session)
qed

text \<open>The application states of any request are already what a request can say.\<close>

lemma transaction_said_from:
  "transaction_said (transaction_from_change_modes m) = transaction_from_change_modes m"
proof -
  have app: "transaction_said (fold set_app_state as t) = fold set_app_state as t"
    if "transaction_said t = t" for as t
    using that
  proof (induction as arbitrary: t)
    case (Cons a as)
    have "transaction_said (set_app_state a t) = set_app_state a t"
      using arg_cong [OF Cons.prems, of tr_phone_call] arg_cong [OF Cons.prems, of tr_turn_by_turn]
        arg_cong [OF Cons.prems, of tr_speech]
      by (cases "app_state_id a") (simp_all add: transaction_said_def set_app_state_def)
    then show ?case
      using Cons.IH by simp
  qed simp
  have res: "tr_phone_call (fold g rs t) = tr_phone_call t \<and> tr_speech (fold g rs t) = tr_speech t \<and>
      tr_turn_by_turn (fold g rs t) = tr_turn_by_turn t"
    if "\<And>r t. tr_phone_call (g r t) = tr_phone_call t \<and> tr_speech (g r t) = tr_speech t \<and>
      tr_turn_by_turn (g r t) = tr_turn_by_turn t" for g :: "'r \<Rightarrow> _" and rs t
    using that by (induction rs arbitrary: t) simp_all
  have said: "transaction_said t = t"
    if "tr_phone_call t = None" "tr_speech t = None" "tr_turn_by_turn t = None" for t
    using that by (simp add: transaction_said_def)
  show ?thesis
    unfolding transaction_from_change_modes_def
    using res [of set_initial_permanent_entity]
      res [of "\<lambda>r. set_resource (req_id r) (transaction_from_resource r)"]
    by (intro app said)
      (simp_all add: set_initial_permanent_entity_def set_resource_def transaction_default_def
        Let_def split: resource_id.split)
qed

section \<open>The controller a request sets up\<close>

definition manager_from :: "permanent_entity option \<Rightarrow> resource_transaction option \<Rightarrow> resource_manager" where
  "manager_from perm t =
     apply_initial_transaction t
       (case perm of None \<Rightarrow> controller_owned | Some e \<Rightarrow> manager_from_permanent_entity e)"

lemma controller_from_change_modes_fields:
  "controller_from_change_modes m =
     (let t = transaction_from_change_modes m
      in \<lparr>c_screen = manager_from (tr_screen_perm t) (tr_screen t),
          c_main_audio = manager_from (tr_main_audio_perm t) (tr_main_audio t),
          c_phone_call = unwrap_or (tr_phone_call t) Entity_None,
          c_speech = unwrap_or (tr_speech t) speech_default,
          c_turn_by_turn = unwrap_or (tr_turn_by_turn t) Entity_None\<rparr>)"
  by (simp add: controller_from_change_modes_def controller_default_def manager_from_def Let_def
      unwrap_or_def split: option.split)

lemma accessory_side_manager_from: "accessory_side (manager_from perm t)"
  by (simp add: manager_from_def accessory_side_apply accessory_side_initial split: option.split)

lemma session_ok_from_change_modes: "session_ok (controller_from_change_modes m)"
proof -
  let ?t = "transaction_from_change_modes m"
  have "tr_phone_call ?t = map_option said_entity (tr_phone_call ?t)"
    and "tr_turn_by_turn ?t = map_option said_entity (tr_turn_by_turn ?t)"
    and "tr_speech ?t = map_option said_speech (tr_speech ?t)"
    using transaction_said_from [of m] unfolding transaction_said_def
    by (metis (no_types, lifting) mode_transaction.select_convs mode_transaction.surjective
        mode_transaction.update_convs)+
  then show ?thesis
    unfolding controller_from_change_modes_fields Let_def
    by (cases "tr_phone_call ?t"; cases "tr_turn_by_turn ?t"; cases "tr_speech ?t")
      (simp_all add: session_ok_def accessory_states_def accessory_side_manager_from)
qed

lemma accessory_session_ok: "accessory_session c \<Longrightarrow> session_ok c"
proof (induction rule: accessory_session.induct)
  case 1
  show ?case
    by (simp add: session_ok_def accessory_states_def controller_default_def accessory_side_initial)
next
  case (3 c q)
  then show ?case
    using session.handle_all_keeps [of c "request_steps q"]
    by (simp add: process_request_steps case_prod_beta Let_def)
qed (rule session_ok_from_change_modes)

section \<open>What an info request restores\<close>

definition manager_restored :: "resource_manager \<Rightarrow> resource_manager" where
  "manager_restored m =
     (if rm_state m = Invalid then controller_owned else m\<lparr>rm_borrows := min (rm_borrows m) 1\<rparr>)"

definition controller_restored :: "resource_controller \<Rightarrow> resource_controller" where
  "controller_restored c =
     c\<lparr>c_screen := manager_restored (c_screen c), c_main_audio := manager_restored (c_main_audio c)\<rparr>"

lemma manager_restores:
  assumes "accessory_side m"
  shows "manager_from (manager_permanent_entity m) (manager_info_transaction m) = manager_restored m"
  using assms
  by (cases "rm_state m")
    (auto simp: accessory_side_def manager_ok_def manager_from_def manager_permanent_entity_def
      manager_info_transaction_def manager_transaction_def apply_initial_transaction_def
      manager_from_permanent_entity_def controller_owned_def accessory_owned_def manager_new_def
      manager_restored_def intro!: resource_manager.equality)

lemma shown_restored:
  "mode_state_shown (controller_state (controller_restored c)) = mode_state_shown (controller_state c)"
  by (simp add: mode_state_shown_def state_shown_def controller_state_def controller_restored_def
      manager_restored_def controller_owned_def manager_new_def)

text \<open>
  Claim C19: the info request of a session restores its controller: whatever requests of the
  accessory led to it, the controller set up from its own info request has the same owners,
  users, constraints and application states, so both show the accessory the same modes. Two
  things are forgotten: an unclaimed resource becomes the controller's, and the depth of nested
  borrows becomes one. A second restoration changes nothing more.\<close>

theorem info_request_restores:
  assumes "accessory_session c"
  shows "controller_from_change_modes (controller_info_request c) = controller_restored c \<and>
         mode_state_serialize (controller_state (controller_restored c)) =
           mode_state_serialize (controller_state c) \<and>
         controller_restored (controller_restored c) = controller_restored c"
proof -
  have ok: "session_ok c"
    using assms by (rule accessory_session_ok)
  have "controller_from_change_modes (controller_info_request c) = controller_restored c"
    using ok unfolding controller_from_change_modes_fields controller_info_request_def
    by (intro resource_controller.equality)
      (simp_all add: transaction_info_roundtrip transaction_said_def controller_info_transaction_def
        controller_restored_def session_ok_def accessory_states_def manager_restores Let_def)
  moreover have "mode_state_serialize (controller_state (controller_restored c)) =
      mode_state_serialize (controller_state c)"
    using shown_restored [of c] serialize_shown by metis
  moreover have "controller_restored (controller_restored c) = controller_restored c"
    by (simp add: controller_restored_def manager_restored_def controller_owned_def manager_new_def)
  ultimately show ?thesis
    by blast
qed

text \<open>The accessory has borrowed the screen twice: restored, one release gives it back.\<close>

theorem info_request_restores_witness:
  "let q = \<lparr>cm_app_states = [],
            cm_resources = [resource_borrow Main_Screen Nice_To_Have Anytime,
                            resource_borrow Main_Screen Nice_To_Have Anytime],
            cm_reason = [], cm_initial = []\<rparr>;
       c = snd (process_request q controller_default);
       c' = controller_from_change_modes (controller_info_request c)
   in rm_borrows (c_screen c) = 2 \<and> rm_borrows (c_screen c') = 1 \<and>
      rm_state (c_screen c') = Accessory_Borrowed"
proof -
  let ?q = "\<lparr>cm_app_states = [],
            cm_resources = [resource_borrow Main_Screen Nice_To_Have Anytime,
                            resource_borrow Main_Screen Nice_To_Have Anytime],
            cm_reason = [], cm_initial = []\<rparr>"
  have "rm_borrows (c_screen (snd (process_request ?q controller_default))) = 2"
    and "rm_state (c_screen (snd (process_request ?q controller_default))) = Accessory_Borrowed"
    by (simp_all add: process_request_def process_resource_def controller_default_def
        controller_owned_def manager_new_def resource_borrow_def process_accessory_request_def
        borrow_by_def borrow_request_priority_def can_borrow_def saturating_add_def usize_max_def)
  moreover have "accessory_session (snd (process_request ?q controller_default))"
    by (intro accessory_session.intros)
  ultimately show ?thesis
    unfolding Let_def
    using info_request_restores [of "snd (process_request ?q controller_default)"]
    by (simp add: controller_restored_def manager_restored_def)
qed

end
