(* ===== verification/Modes_Arbiter.thy ===== *)
theory Modes_Arbiter
  imports Resource_Controller
begin

text \<open>
  \<open>c2a/catplay_c2a/src/proxy_rpc/modes_arbiter.rs\<close>: the bridge between the car (the accessory)
  and the phone (the peer). It answers the car from its own \<open>ResourceController\<close>, forwards the
  car's requests to the peer, and folds the peer's notifications back into the controller. A
  notification that arrives while a forwarded request is unanswered is deferred; when it is
  applied, it is paired with the accepted request that explains it.
\<close>

section \<open>Definitions\<close>

record modes_arbiter =
  ma_modes :: resource_controller
  ma_dirty :: bool
  ma_inflight :: "change_modes list"
  ma_accepted :: "change_modes list"
  ma_pending :: "modes_changed list"

definition arbiter_new :: "change_modes \<Rightarrow> modes_arbiter" where
  "arbiter_new info_modes =
     \<lparr>ma_modes = controller_from_change_modes info_modes, ma_dirty = True, ma_inflight = [],
      ma_accepted = [], ma_pending = []\<rparr>"

definition arbiter_process_car_request ::
    "change_modes \<Rightarrow> modes_arbiter \<Rightarrow> change_modes_response \<times> modes_arbiter" where
  "arbiter_process_car_request request a =
     (let (response, modes) = process_request_to_response request (ma_modes a)
      in (response, a\<lparr>ma_dirty := True, ma_modes := modes\<rparr>))"

definition clear_dirty :: "modes_arbiter \<Rightarrow> modes_arbiter" where
  "clear_dirty a = a\<lparr>ma_dirty := False\<rparr>"

definition mark_dirty :: "modes_arbiter \<Rightarrow> modes_arbiter" where
  "mark_dirty a = a\<lparr>ma_dirty := True\<rparr>"

definition reset_modes :: "modes_arbiter \<Rightarrow> modes_arbiter" where
  "reset_modes a =
     (let modes = ma_modes a;
          modes = (if speech_entity (c_speech modes) = Controller
                   then modes\<lparr>c_speech := speech_default\<rparr> else modes);
          modes = modes\<lparr>c_phone_call := Entity_None, c_turn_by_turn := Entity_None,
                    c_main_audio := manager_new Accessory_Has Anytime Anytime,
                    c_screen := manager_new Controller_Has Anytime Anytime\<rparr>
      in a\<lparr>ma_modes := modes, ma_dirty := True\<rparr>)"

definition on_peer_disconnect :: "modes_arbiter \<Rightarrow> modes_arbiter" where
  "on_peer_disconnect a =
     reset_modes
       (if 0 < length (ma_inflight a) \<or> 0 < length (ma_accepted a) \<or> 0 < length (ma_pending a)
        then a\<lparr>ma_inflight := [], ma_accepted := [], ma_pending := []\<rparr> else a)"

definition has_screen :: "modes_arbiter \<Rightarrow> bool" where
  "has_screen a \<longleftrightarrow> manager_entity (c_screen (ma_modes a)) = Controller"

definition try_steal_screen :: "transfer_priority \<Rightarrow> modes_arbiter \<Rightarrow> modes_arbiter" where
  "try_steal_screen p a =
     (if manager_entity (c_screen (ma_modes a)) = Controller then a
      else if can_take (c_screen (ma_modes a)) p then
        (let (ok, screen) =
               take_by_controller (resource_take Main_Screen p Anytime Anytime) (c_screen (ma_modes a));
             a = a\<lparr>ma_modes := (ma_modes a)\<lparr>c_screen := screen\<rparr>\<rparr>
         in if ok then a\<lparr>ma_dirty := True\<rparr> else a)
      else a)"

definition find_resource :: "change_modes \<Rightarrow> resource_id \<Rightarrow> resource option" where
  "find_resource request i = find (\<lambda>r. req_id r = i) (cm_resources request)"

definition merge_peer_resource ::
    "resource_manager \<Rightarrow> resource_state \<Rightarrow> resource_id \<Rightarrow> change_modes option \<Rightarrow> resource_manager" where
  "merge_peer_resource old new_state i accepted_request =
     (let requested = Option.bind accepted_request (\<lambda>q. find_resource q i)
      in if new_state = Accessory_Borrowed then
           (let unborrow_constraint =
                  unwrap_or
                    (Option.bind
                      (Option.bind requested (\<lambda>r. if req_type r = Borrow then Some r else None))
                      req_unborrow)
                    (if rm_state old = Accessory_Borrowed then rm_unborrow old else Anytime)
            in with_unborrow_constraint (manager_new new_state Anytime Anytime) unborrow_constraint)
         else if state_owner new_state = Controller then manager_new new_state Anytime Anytime
         else
           let take_constraint = (if manager_owner old = Accessory then rm_take old else Anytime);
               borrow_constraint = (if manager_owner old = Accessory then rm_borrow old else Anytime)
           in case requested of
                None \<Rightarrow> manager_new new_state take_constraint borrow_constraint
              | Some r \<Rightarrow>
                  if req_type r = Take
                  then manager_new new_state (unwrap_or (req_take r) take_constraint)
                         (unwrap_or (req_borrow r) borrow_constraint)
                  else manager_new new_state take_constraint borrow_constraint)"

text \<open>The two loops of \<open>apply_peer_modes\<close>; the second one reads the modes before the first.\<close>

definition apply_app_state :: "app_state_changed \<Rightarrow> resource_controller \<Rightarrow> resource_controller" where
  "apply_app_state s c =
     (case asc_id s of
        App_Speech \<Rightarrow>
          c\<lparr>c_speech := \<lparr>speech_entity = asc_entity s,
              speech_mode_of = unwrap_or (asc_speech_mode s) Speech_None\<rparr>\<rparr>
      | App_Phone_Call \<Rightarrow> c\<lparr>c_phone_call := asc_entity s\<rparr>
      | App_Turn_By_Turn \<Rightarrow> c\<lparr>c_turn_by_turn := asc_entity s\<rparr>
      | App_Invalid \<Rightarrow> c)"

definition apply_resource ::
    "resource_controller \<Rightarrow> change_modes option \<Rightarrow> resource_changed \<Rightarrow> resource_controller \<Rightarrow> resource_controller" where
  "apply_resource modes accepted_request r c =
     (let new_state = from_pair (rc_entity r) (rc_permanent_entity r)
      in case rc_id r of
           Main_Screen \<Rightarrow>
             c\<lparr>c_screen := merge_peer_resource (c_screen modes) new_state Main_Screen accepted_request\<rparr>
         | Main_Audio \<Rightarrow>
             c\<lparr>c_main_audio := merge_peer_resource (c_main_audio modes) new_state Main_Audio accepted_request\<rparr>)"

definition apply_peer_modes :: "modes_changed \<Rightarrow> change_modes option \<Rightarrow> modes_arbiter \<Rightarrow> modes_arbiter" where
  "apply_peer_modes m accepted_request a =
     (let next = fold apply_app_state (mc_app_states m) (ma_modes a);
          next = fold (apply_resource (ma_modes a) accepted_request) (mc_resources m) next
      in a\<lparr>ma_modes := next, ma_dirty := True\<rparr>)"

text \<open>\<open>VecDeque::pop_front\<close> of the accepted requests, and the notification applied with it.\<close>

definition apply_with_accepted :: "modes_changed \<Rightarrow> modes_arbiter \<Rightarrow> modes_arbiter" where
  "apply_with_accepted m a =
     (case ma_accepted a of
        [] \<Rightarrow> apply_peer_modes m None a
      | q # qs \<Rightarrow> apply_peer_modes m (Some q) (a\<lparr>ma_accepted := qs\<rparr>))"

definition on_peer_modes_changed :: "modes_changed \<Rightarrow> modes_arbiter \<Rightarrow> modes_arbiter" where
  "on_peer_modes_changed m a =
     (let a = mark_dirty a
      in if ma_inflight a \<noteq> [] then a\<lparr>ma_pending := ma_pending a @ [m]\<rparr>
         else apply_with_accepted m a)"

definition on_peer_change_modes_start :: "change_modes \<Rightarrow> modes_arbiter \<Rightarrow> modes_arbiter" where
  "on_peer_change_modes_start m a = a\<lparr>ma_inflight := ma_inflight a @ [m]\<rparr>"

function drain_loop :: "modes_arbiter \<Rightarrow> modes_arbiter" where
  "drain_loop a =
     (case ma_pending a of
        [] \<Rightarrow> a
      | m # ms \<Rightarrow> drain_loop (apply_with_accepted m (a\<lparr>ma_pending := ms\<rparr>)))"
  by pat_completeness auto
termination
  by (relation "measure (\<lambda>a. length (ma_pending a))")
    (auto simp: apply_with_accepted_def apply_peer_modes_def Let_def split: list.split)

declare drain_loop.simps [simp del]

definition drain_pending_if_idle :: "modes_arbiter \<Rightarrow> modes_arbiter" where
  "drain_pending_if_idle a = (if ma_inflight a \<noteq> [] then a else drain_loop a)"

definition on_peer_change_modes_end :: "change_modes_response \<Rightarrow> modes_arbiter \<Rightarrow> modes_arbiter" where
  "on_peer_change_modes_end resp a =
     (case ma_inflight a of
        [] \<Rightarrow> a
      | request # rest \<Rightarrow>
          let a = a\<lparr>ma_inflight := rest\<rparr>
          in if cmr_status resp \<noteq> 0 then drain_pending_if_idle a
             else drain_pending_if_idle (a\<lparr>ma_accepted := ma_accepted a @ [request]\<rparr>))"

section \<open>The events of the peer\<close>

datatype peer_event =
    Peer_Start change_modes
  | Peer_End change_modes_response
  | Peer_Changed modes_changed

fun peer_step :: "peer_event \<Rightarrow> modes_arbiter \<Rightarrow> modes_arbiter" where
  "peer_step (Peer_Start q) = on_peer_change_modes_start q"
| "peer_step (Peer_End r) = on_peer_change_modes_end r"
| "peer_step (Peer_Changed m) = on_peer_modes_changed m"

fun is_changed :: "peer_event \<Rightarrow> bool" where
  "is_changed (Peer_Changed _) = True"
| "is_changed _ = False"

inductive arbiter_step :: "modes_arbiter \<Rightarrow> modes_arbiter \<Rightarrow> bool" where
  car: "arbiter_step a (snd (arbiter_process_car_request q a))"
| peer: "arbiter_step a (peer_step e a)"
| steal: "arbiter_step a (try_steal_screen p a)"
| clear: "arbiter_step a (clear_dirty a)"
| disconnect: "arbiter_step a (on_peer_disconnect a)"

text \<open>A notification waits only for an answer.\<close>

definition arbiter_ok :: "modes_arbiter \<Rightarrow> bool" where
  "arbiter_ok a \<longleftrightarrow> (ma_pending a \<noteq> [] \<longrightarrow> ma_inflight a \<noteq> [])"

lemma apply_peer_modes_queues [simp]:
  "ma_inflight (apply_peer_modes m q a) = ma_inflight a"
  "ma_accepted (apply_peer_modes m q a) = ma_accepted a"
  "ma_pending (apply_peer_modes m q a) = ma_pending a"
  "ma_dirty (apply_peer_modes m q a)"
  by (simp_all add: apply_peer_modes_def Let_def)

lemma apply_with_accepted_queues [simp]:
  "ma_inflight (apply_with_accepted m a) = ma_inflight a"
  "ma_accepted (apply_with_accepted m a) = tl (ma_accepted a)"
  "ma_pending (apply_with_accepted m a) = ma_pending a"
  "ma_dirty (apply_with_accepted m a)"
  by (simp_all add: apply_with_accepted_def split: list.split)

lemma drain_loop_queues:
  "ma_pending (drain_loop a) = [] \<and> ma_inflight (drain_loop a) = ma_inflight a \<and>
    ma_accepted (drain_loop a) = drop (length (ma_pending a)) (ma_accepted a)"
proof (induction a rule: drain_loop.induct)
  case (1 a)
  then show ?case
    by (cases "ma_pending a") (simp_all add: drain_loop.simps [of a] drop_Suc)
qed

lemma arbiter_ok_step:
  assumes "arbiter_step a b" and "arbiter_ok a"
  shows "arbiter_ok b"
  using assms
proof cases
  case (car q)
  then show ?thesis
    using assms(2) by (simp add: arbiter_ok_def arbiter_process_car_request_def case_prod_beta)
next
  case (peer e)
  then show ?thesis
    using assms(2)
    by (cases e) (auto simp: arbiter_ok_def on_peer_change_modes_start_def on_peer_change_modes_end_def
        on_peer_modes_changed_def mark_dirty_def drain_pending_if_idle_def drain_loop_queues Let_def
        split: list.split)
next
  case (steal p)
  then show ?thesis
    using assms(2) by (simp add: arbiter_ok_def try_steal_screen_def case_prod_beta Let_def)
next
  case clear
  then show ?thesis
    using assms(2) by (simp add: arbiter_ok_def clear_dirty_def)
next
  case disconnect
  then show ?thesis
    using assms(2) by (simp add: arbiter_ok_def on_peer_disconnect_def reset_modes_def Let_def)
qed

inductive_cases arbiter_stepE: "arbiter_step a b"

lemma arbiter_ok_reachable:
  assumes "arbiter_step\<^sup>*\<^sup>* (arbiter_new info) a"
  shows "arbiter_ok a"
  using assms by induction (simp_all add: arbiter_ok_def arbiter_new_def arbiter_ok_step [unfolded arbiter_ok_def])

section \<open>Applying a notification\<close>

lemma rm_state_merge [simp]: "rm_state (merge_peer_resource old s i q) = s"
  by (simp add: merge_peer_resource_def manager_makers Let_def split: option.split)

lemma state_apply_app:
  "controller_state (fold apply_app_state xs c) = fold feed_app_state xs (controller_state c)"
  by (induction xs arbitrary: c)
    (simp_all add: apply_app_state_def feed_app_state_def controller_state_def split: app_state_enum.split)

lemma state_apply_resource:
  "controller_state (fold (apply_resource modes q) rs c) = fold feed_resource rs (controller_state c)"
  by (induction rs arbitrary: c)
    (simp_all add: apply_resource_def feed_resource_def controller_state_def Let_def split: resource_id.split)

lemma feed_commute_one: "feed_app_state x (feed_resource r st) = feed_resource r (feed_app_state x st)"
  by (cases st) (simp add: feed_app_state_def feed_resource_def Let_def split: app_state_enum.split resource_id.split)

lemma feed_commute:
  "fold feed_resource rs (fold feed_app_state xs st) = fold feed_app_state xs (fold feed_resource rs st)"
proof (induction xs arbitrary: st)
  case (Cons x xs)
  have "feed_app_state x (fold feed_resource rs st) = fold feed_resource rs (feed_app_state x st)" for st
    by (induction rs arbitrary: st) (simp_all add: feed_commute_one)
  then show ?case
    using Cons by simp
qed simp

lemma apply_peer_modes_state:
  "controller_state (ma_modes (apply_peer_modes m q a)) = mode_state_feed m (controller_state (ma_modes a))"
  by (simp add: apply_peer_modes_def mode_state_feed_def state_apply_app state_apply_resource feed_commute Let_def)

lemma apply_with_accepted_state:
  "controller_state (ma_modes (apply_with_accepted m a)) = mode_state_feed m (controller_state (ma_modes a))"
  by (simp add: apply_with_accepted_def apply_peer_modes_state split: list.split)

section \<open>Deferred notifications\<close>

text \<open>Once the answer is there, the queue is emptied as if its notifications arrived now.\<close>

lemma drain_is_fold:
  assumes "ma_inflight a = []" and "ma_pending a = []"
  shows "drain_loop (a\<lparr>ma_pending := ms, ma_dirty := ma_dirty a \<or> ms \<noteq> []\<rparr>) = fold on_peer_modes_changed ms a"
  using assms
proof (induction ms arbitrary: a)
  case Nil
  then show ?case
    by (simp add: drain_loop.simps)
next
  case (Cons m ms)
  have dirty: "apply_with_accepted m (x\<lparr>ma_dirty := d, ma_pending := ms\<rparr>) =
      (apply_with_accepted m x)\<lparr>ma_dirty := True, ma_pending := ms\<rparr>" for x d
    by (simp add: apply_with_accepted_def apply_peer_modes_def Let_def split: list.split)
  have swap: "x\<lparr>ma_dirty := True, ma_pending := ms\<rparr> = x\<lparr>ma_pending := ms, ma_dirty := True\<rparr>" for x :: modes_arbiter
    by (cases x) simp
  let ?a = "apply_with_accepted m a"
  have "on_peer_modes_changed m a = ?a"
    using Cons(2) by (simp add: on_peer_modes_changed_def mark_dirty_def Let_def)
      (simp add: apply_with_accepted_def apply_peer_modes_def Let_def split: list.split)
  moreover have "drain_loop (a\<lparr>ma_pending := m # ms, ma_dirty := ma_dirty a \<or> m # ms \<noteq> []\<rparr>) =
      drain_loop (?a\<lparr>ma_pending := ms, ma_dirty := ma_dirty ?a \<or> ms \<noteq> []\<rparr>)"
    unfolding swap [of ?a, symmetric] using dirty [of True a] swap [of ?a] by (simp add: drain_loop.simps [of "a\<lparr>ma_pending := m # ms, ma_dirty := True\<rparr>"])
  ultimately show ?case
    using Cons(1) [of ?a] Cons(2,3) by simp
qed

definition deferring :: "modes_arbiter \<Rightarrow> modes_changed list \<Rightarrow> modes_arbiter" where
  "deferring b ms = b\<lparr>ma_pending := ms, ma_dirty := ma_dirty b \<or> ms \<noteq> []\<rparr>"

definition changes :: "peer_event list \<Rightarrow> modes_changed list" where
  "changes es = concat (map (\<lambda>e. case e of Peer_Changed m \<Rightarrow> [m] | _ \<Rightarrow> []) es)"

lemma fold_changes: "fold peer_step (filter is_changed es) a = fold on_peer_modes_changed (changes es) a"
  by (induction es arbitrary: a) (auto simp: changes_def split: peer_event.split)

text \<open>The answer to the oldest request, before the drain.\<close>

definition answered :: "change_modes_response \<Rightarrow> modes_arbiter \<Rightarrow> modes_arbiter" where
  "answered r b =
     (case ma_inflight b of
        [] \<Rightarrow> b
      | q # qs \<Rightarrow>
          if cmr_status r \<noteq> 0 then b\<lparr>ma_inflight := qs\<rparr>
          else b\<lparr>ma_inflight := qs, ma_accepted := ma_accepted b @ [q]\<rparr>)"

lemma end_answered:
  "ma_inflight b \<noteq> [] \<Longrightarrow> on_peer_change_modes_end r b = drain_pending_if_idle (answered r b)"
  by (simp add: on_peer_change_modes_end_def answered_def Let_def split: list.split)

lemma answered_deferring: "answered r (deferring b ms) = deferring (answered r b) ms"
  by (cases b) (simp add: answered_def deferring_def split: list.split)

lemma answered_pending [simp]: "ma_pending (answered r b) = ma_pending b"
  by (simp add: answered_def split: list.split)

lemma inflight_deferring [simp]: "ma_inflight (deferring b ms) = ma_inflight b"
  by (simp add: deferring_def)

lemma end_quiet:
  assumes "ma_inflight b \<noteq> []" and "ma_pending b = []"
  shows "on_peer_change_modes_end r b = answered r b"
  using assms by (simp add: end_answered drain_pending_if_idle_def drain_loop.simps)

lemma end_deferring:
  assumes "ma_inflight b \<noteq> []" and "ma_pending b = []"
  shows "on_peer_change_modes_end r (deferring b ms) =
    (if ma_inflight (answered r b) \<noteq> [] then deferring (answered r b) ms
     else fold on_peer_modes_changed ms (answered r b))"
  using assms drain_is_fold [of "answered r b" ms, folded deferring_def]
  by (simp add: end_answered answered_deferring drain_pending_if_idle_def)

lemma changed_deferring:
  assumes "ma_inflight b \<noteq> []"
  shows "on_peer_modes_changed m (deferring b ms) = deferring b (ms @ [m])"
  using assms by (simp add: deferring_def on_peer_modes_changed_def mark_dirty_def Let_def)

lemma start_deferring: "on_peer_change_modes_start q (deferring b ms) = deferring (on_peer_change_modes_start q b) ms"
  by (cases b) (simp add: deferring_def on_peer_change_modes_start_def)

lemma deferring_Nil: "ma_pending b = [] \<Longrightarrow> deferring b [] = b"
  by (simp add: deferring_def)

text \<open>A run in which a request is unanswered until the last event.\<close>

fun busy_until_end :: "peer_event list \<Rightarrow> modes_arbiter \<Rightarrow> bool" where
  "busy_until_end [] a = False"
| "busy_until_end (e # es) a =
     (let a' = peer_step e a
      in ma_inflight a \<noteq> [] \<and> (if es = [] then ma_inflight a' = [] else busy_until_end es a'))"

lemma busy_inflight: "busy_until_end es a \<Longrightarrow> ma_inflight a \<noteq> []"
  by (cases es) (simp_all add: Let_def)

lemma busy_run:
  assumes "busy_until_end es (deferring b ms)" and "ma_pending b = []"
  shows "fold peer_step es (deferring b ms) =
    fold on_peer_modes_changed (ms @ changes es) (fold peer_step (filter (\<lambda>e. \<not> is_changed e) es) b)"
  using assms
proof (induction es arbitrary: b ms)
  case (Cons e es)
  have busy: "ma_inflight b \<noteq> []"
    using Cons(2) by (simp add: Let_def)
  show ?case
  proof (cases e)
    case (Peer_Start q)
    have "ma_inflight (on_peer_change_modes_start q b) \<noteq> []"
      by (simp add: on_peer_change_modes_start_def)
    then have "es \<noteq> []" and "busy_until_end es (deferring (on_peer_change_modes_start q b) ms)"
      using Cons(2) by (simp_all add: Peer_Start start_deferring Let_def split: if_splits)
    moreover have "ma_pending (on_peer_change_modes_start q b) = []"
      using Cons(3) by (simp add: on_peer_change_modes_start_def)
    ultimately show ?thesis
      using Cons(1) by (simp add: Peer_Start start_deferring changes_def)
  next
    case (Peer_Changed m)
    then have "es \<noteq> []" and "busy_until_end es (deferring b (ms @ [m]))"
      using Cons(2) busy by (simp_all add: changed_deferring Let_def split: if_splits)
    then show ?thesis
      using Cons(1) [of b "ms @ [m]"] Cons(3) busy by (simp add: Peer_Changed changed_deferring changes_def)
  next
    case (Peer_End r)
    have quiet: "on_peer_change_modes_end r b = answered r b"
      using busy Cons(3) by (rule end_quiet)
    note later = end_deferring [OF busy Cons(3), of r ms]
    have idle: "ma_inflight (fold on_peer_modes_changed ns x) = ma_inflight x" if "ma_inflight x = []" for ns x
      using that by (induction ns arbitrary: x) (simp_all add: on_peer_modes_changed_def mark_dirty_def Let_def)
    show ?thesis
    proof (cases "es = []")
      case True
      then have "ma_inflight (on_peer_change_modes_end r (deferring b ms)) = []"
        using Cons(2) by (simp add: Peer_End Let_def)
      then have "ma_inflight (answered r b) = []"
        unfolding later by (simp split: if_splits)
      then show ?thesis
        using later quiet by (simp add: Peer_End True changes_def)
    next
      case False
      then have more: "busy_until_end es (on_peer_change_modes_end r (deferring b ms))"
        using Cons(2) by (simp add: Peer_End Let_def)
      from busy_inflight [OF this] have "ma_inflight (answered r b) \<noteq> []"
        unfolding later using idle by (auto split: if_splits)
      then show ?thesis
        using Cons(1) [of "answered r b" ms] Cons(3) more later quiet by (simp add: Peer_End changes_def)
    qed
  qed
qed simp

section \<open>Stealing the screen\<close>

lemma steal_take:
  assumes "manager_entity m \<noteq> Controller"
  shows "take_by True (resource_take i p Anytime Anytime) m =
    (if can_take m p then (True, manager_new Controller_Has Anytime Anytime) else (False, m))"
  using assms
  by (cases "rm_state m"; cases p; cases "rm_take m"; cases "rm_unborrow m")
    (simp_all add: take_by_def can_take_def resource_take_def take_request_fields_def Let_def)

section \<open>The car's request, answered here and confirmed by the peer\<close>










section \<open>Properties\<close>

text \<open>
  Claim C9: a notification that arrives while requests are unanswered has the effect it would have
  had after the last answer: however notifications, requests and answers interleave until the
  peer has answered everything, the bridge ends in the state of the run in which all
  notifications come last, in their order. (The run begins at an idle bridge with a request.)
\<close>

theorem notifications_deferred:
  assumes "ma_inflight a = []" and "ma_pending a = []"
    and "busy_until_end es (peer_step (Peer_Start q) a)"
  shows "fold peer_step (Peer_Start q # es) a =
    fold peer_step (Peer_Start q # filter (\<lambda>e. \<not> is_changed e) es @ filter is_changed es) a"
proof -
  let ?b = "on_peer_change_modes_start q a"
  have "ma_pending ?b = []"
    using assms(2) by (simp add: on_peer_change_modes_start_def)
  then show ?thesis
    using busy_run [of es ?b "[]"] assms(3) by (simp add: deferring_Nil fold_changes)
qed

lemma notifications_deferred_witness:
  "let a = arbiter_new change_modes_initial; q = change_modes_initial; n = mode_state_serialize mode_state_default;
       ok = response_new n
   in busy_until_end [Peer_Changed n, Peer_Start q, Peer_End ok, Peer_Changed n, Peer_End ok] (peer_step (Peer_Start q) a) \<and>
     fold peer_step [Peer_Start q, Peer_Changed n, Peer_Start q, Peer_End ok, Peer_Changed n, Peer_End ok] a =
     fold peer_step [Peer_Start q, Peer_Start q, Peer_End ok, Peer_End ok, Peer_Changed n, Peer_Changed n] a"
proof -
  let ?a = "arbiter_new change_modes_initial" and ?n = "mode_state_serialize mode_state_default"
  let ?es = "[Peer_Changed ?n, Peer_Start change_modes_initial, Peer_End (response_new ?n), Peer_Changed ?n,
    Peer_End (response_new ?n)]"
  have a: "ma_inflight ?a = []" "ma_pending ?a = []"
    by (simp_all add: arbiter_new_def)
  then have busy: "busy_until_end ?es (peer_step (Peer_Start change_modes_initial) ?a)"
    by (simp add: on_peer_change_modes_start_def on_peer_modes_changed_def mark_dirty_def
        on_peer_change_modes_end_def drain_pending_if_idle_def drain_loop_queues response_new_def Let_def)
  show ?thesis
    using notifications_deferred [OF a busy] busy by (simp add: Let_def)
qed

text \<open>
  Claim C36: in every reachable state of the bridge a notification waits only while a request is
  unanswered, and whenever none is unanswered, the modes it shows change by a notification
  exactly as the modes of the car do, whichever accepted request the notification is paired with.
\<close>

theorem bridge_follows_peer:
  assumes "arbiter_step\<^sup>*\<^sup>* (arbiter_new info) a"
  shows "(ma_pending a \<noteq> [] \<longrightarrow> ma_inflight a \<noteq> []) \<and>
    (ma_inflight a = [] \<longrightarrow>
      controller_state (ma_modes (on_peer_modes_changed m a)) = mode_state_feed m (controller_state (ma_modes a)) \<and>
      ma_accepted (on_peer_modes_changed m a) = tl (ma_accepted a)) \<and>
    (ma_inflight a \<noteq> [] \<longrightarrow>
      ma_modes (on_peer_modes_changed m a) = ma_modes a \<and>
      ma_pending (on_peer_modes_changed m a) = ma_pending a @ [m])"
  using arbiter_ok_reachable [OF assms]
  by (simp add: arbiter_ok_def on_peer_modes_changed_def mark_dirty_def apply_with_accepted_state Let_def)

lemma bridge_follows_peer_witness:
  "controller_state (ma_modes (on_peer_modes_changed (mode_state_serialize mode_state_default) (arbiter_new change_modes_initial))) =
    mode_state_default"
proof -
  have "ma_inflight (arbiter_new change_modes_initial) = []"
    by (simp add: arbiter_new_def)
  then show ?thesis
    using bridge_follows_peer [of change_modes_initial "arbiter_new change_modes_initial" "mode_state_serialize mode_state_default"]
    by (simp add: feed_serialize) (simp add: mode_state_shown_def mode_state_default_def state_shown_def)
qed



text \<open>
  Claim C37: the overlay gets the screen back exactly when the car allows it: an attempt at stealing
  succeeds iff the constraint on the screen admits its priority, marks the modes dirty exactly when
  it changes them, and leaves every other resource and the queues of requests and notifications
  alone; and a disconnected peer leaves nothing behind: no
  queued request or notification, the screen with the bridge and the audio with the car.
\<close>

theorem screen_returns:
  "(has_screen (try_steal_screen p a) \<longleftrightarrow> has_screen a \<or> can_take (c_screen (ma_modes a)) p) \<and>
   (\<not> has_screen a \<and> can_take (c_screen (ma_modes a)) p \<longleftrightarrow> ma_modes (try_steal_screen p a) \<noteq> ma_modes a) \<and>
   (try_steal_screen p a)\<lparr>ma_modes := m, ma_dirty := d\<rparr> = a\<lparr>ma_modes := m, ma_dirty := d\<rparr> \<and>
   ma_dirty (try_steal_screen p a) = (ma_dirty a \<or> ma_modes (try_steal_screen p a) \<noteq> ma_modes a) \<and>
   (ma_modes (try_steal_screen p a))\<lparr>c_screen := s\<rparr> = (ma_modes a)\<lparr>c_screen := s\<rparr> \<and>
   (let b = on_peer_disconnect a
    in ma_inflight b = [] \<and> ma_accepted b = [] \<and> ma_pending b = [] \<and> has_screen b \<and> ma_dirty b \<and>
      manager_owner (c_main_audio (ma_modes b)) = Accessory \<and> on_peer_disconnect b = b)"
proof -
  let ?m = "c_screen (ma_modes a)"
  have stolen: "try_steal_screen p a = (if has_screen a \<or> \<not> can_take ?m p then a
      else a\<lparr>ma_modes := (ma_modes a)\<lparr>c_screen := manager_new Controller_Has Anytime Anytime\<rparr>, ma_dirty := True\<rparr>)"
    by (simp add: try_steal_screen_def has_screen_def steal_take)
  have moved: "(ma_modes a)\<lparr>c_screen := manager_new Controller_Has Anytime Anytime\<rparr> \<noteq> ma_modes a" if "\<not> has_screen a"
  proof
    assume "(ma_modes a)\<lparr>c_screen := manager_new Controller_Has Anytime Anytime\<rparr> = ma_modes a"
    then have "?m = manager_new Controller_Has Anytime Anytime"
      by (metis resource_controller.select_convs(1) resource_controller.surjective resource_controller.update_convs(1))
    then show False
      using that by (simp add: has_screen_def manager_new_def)
  qed
  have "let b = on_peer_disconnect a
    in ma_inflight b = [] \<and> ma_accepted b = [] \<and> ma_pending b = [] \<and> has_screen b \<and> ma_dirty b \<and>
      manager_owner (c_main_audio (ma_modes b)) = Accessory \<and> on_peer_disconnect b = b"
    by (cases a) (simp add: on_peer_disconnect_def reset_modes_def has_screen_def manager_new_def speech_default_def Let_def)
  moreover have "has_screen (try_steal_screen p a) \<longleftrightarrow> has_screen a \<or> can_take ?m p"
    unfolding stolen by (auto simp: has_screen_def manager_new_def)
  ultimately show ?thesis
    using moved by (auto simp: stolen)
qed

lemma screen_returns_witness:
  "let a = snd (arbiter_process_car_request change_modes_initial (arbiter_new change_modes_initial))
   in has_screen (try_steal_screen Nice_To_Have a) \<and> has_screen (on_peer_disconnect a)"
proof -
  let ?a = "snd (arbiter_process_car_request change_modes_initial (arbiter_new change_modes_initial))"
  have "can_take (c_screen (ma_modes ?a)) Nice_To_Have"
    by code_simp
  then show ?thesis
    using screen_returns [of Nice_To_Have ?a] by (simp add: Let_def)
qed

text \<open>
  A borrow learned from a notification does not count: a borrow of the car on top of it is the
  first one the bridge counts, and a single release gives the resource back, where the managers
  of car and phone, who both counted two, keep it lent.
\<close>

lemma notified_borrow_not_counted:
  "let lent = manager_new Controller_Has Anytime Anytime;
       borrow = resource_borrow Main_Screen Priority_User_Initiated Anytime;
       (_, m1) = borrow_by_accessory borrow lent;
       (_, m2) = borrow_by_accessory borrow m1;
       (_, m3) = unborrow_by_accessory (resource_unborrow Main_Screen) m2;
       bridge1 = merge_peer_resource m1 (rm_state m1) Main_Screen None;
       (_, bridge2) = borrow_by_accessory borrow bridge1;
       (_, bridge3) = unborrow_by_accessory (resource_unborrow Main_Screen) bridge2
   in rm_state m3 = Accessory_Borrowed \<and> rm_state bridge3 = Controller_Has"
  by (simp add: borrow_by_def unborrow_by_def resource_borrow_def resource_unborrow_def manager_new_def
      borrow_request_priority_def release_request_fields_are_empty_def can_borrow_def merge_peer_resource_def
      with_unborrow_constraint_def saturating_add_def usize_max_def Let_def)

end
