(* ===== verification/Bitmap.thy ===== *)
theory Bitmap
  imports Prelude
begin

text \<open>
  \<open>carplay/catplay_ring/src/bitmap.rs\<close>: a set of positions below a capacity as a vector of
  64-bit words, with the operations on regions of positions that the ring buffer uses. The
  abstract view is the set of the marked positions (\<open>gaps\<close>).

  The assertions \<open>debug_assert!(start + len <= self.capacity)\<close> are panics, as in the debug
  build, and so is every \<open>bm[w]\<close> outside of the vector (\<open>word_at\<close>, \<open>word_set\<close>).
\<close>

section \<open>Definitions\<close>

record bitmap =
  bm_words :: "u64 list"
  bm_capacity :: usize
  bm_empty :: bool

text \<open>\<open>capacity.div_ceil(64)\<close>, \<open>x >> 6\<close> and \<open>x & 63\<close> on \<open>usize\<close>.\<close>

definition words_for :: "usize \<Rightarrow> usize" where
  "words_for capacity = (capacity + 63) div 64"

definition bitmap_new :: "usize \<Rightarrow> bitmap" where
  "bitmap_new capacity =
     \<lparr>bm_words = replicate (words_for capacity) 0, bm_capacity = capacity, bm_empty = True\<rparr>"

text \<open>\<open>(1u64 << b) - 1\<close>, for a shift below 64.\<close>

definition low_bits :: "nat \<Rightarrow> u64" where
  "low_bits b = push_bit b 1 - 1"

text \<open>The bits of the first and of the last word a region touches.\<close>

definition first_mask :: "usize \<Rightarrow> usize \<Rightarrow> u64" where
  "first_mask start fin =
     (let first_word = start div 64;
          last_word = (fin - 1) div 64;
          start_bit = start mod 64
      in if first_word = last_word then
           (let end_bit = fin mod 64
            in if end_bit = 0 then NOT (low_bits start_bit)
               else low_bits end_bit AND NOT (low_bits start_bit))
         else NOT (low_bits start_bit))"

definition last_mask :: "usize \<Rightarrow> u64" where
  "last_mask fin = (let end_bit = fin mod 64 in if end_bit = 0 then - 1 else low_bits end_bit)"

text \<open>\<open>bm[i]\<close> and \<open>bm[i] = w\<close>, which panic outside of the vector.\<close>

definition word_at :: "u64 list \<Rightarrow> usize \<Rightarrow> panic + u64" where
  "word_at bm i = (if i < length bm then Inr (bm ! i) else Inl Index_Out_Of_Bounds)"

definition word_set :: "u64 list \<Rightarrow> usize \<Rightarrow> u64 \<Rightarrow> panic + u64 list" where
  "word_set bm i w = (if i < length bm then Inr (bm[i := w]) else Inl Index_Out_Of_Bounds)"

text \<open>The three steps of both loops: the first word, the words between, the last word.\<close>

fun set_words :: "u64 \<Rightarrow> usize list \<Rightarrow> u64 list \<Rightarrow> panic + u64 list" where
  "set_words between [] bm = Inr bm"
| "set_words between (w # ws) bm = sum_bind (word_set bm w between) (set_words between ws)"

definition update_region ::
    "(u64 \<Rightarrow> u64 \<Rightarrow> u64) \<Rightarrow> u64 \<Rightarrow> usize \<Rightarrow> usize \<Rightarrow> u64 list \<Rightarrow> panic + u64 list" where
  "update_region apply_mask between start fin bm =
     (let first_word = start div 64;
          last_word = (fin - 1) div 64
      in sum_bind (word_at bm first_word) (\<lambda>w.
         sum_bind (word_set bm first_word (apply_mask w (first_mask start fin))) (\<lambda>bm.
         sum_bind (set_words between [first_word + 1..<last_word] bm) (\<lambda>bm.
         if last_word \<noteq> first_word
         then sum_bind (word_at bm last_word) (\<lambda>w. word_set bm last_word (apply_mask w (last_mask fin)))
         else Inr bm))))"

definition mark_region :: "usize \<Rightarrow> usize \<Rightarrow> bitmap \<Rightarrow> panic + bitmap" where
  "mark_region start len b =
     (if len = 0 then Inr b
      else if \<not> start + len \<le> bm_capacity b then
        Inl (Explicit_Panic ''start + len <= self.capacity'')
      else
        sum_bind (update_region (OR) (- 1) start (start + len) (bm_words b)) (\<lambda>bm.
        Inr (b\<lparr>bm_words := bm, bm_empty := False\<rparr>)))"

definition unmark_region :: "usize \<Rightarrow> usize \<Rightarrow> bitmap \<Rightarrow> panic + bitmap" where
  "unmark_region start len b =
     (if len = 0 \<or> bm_empty b then Inr b
      else if \<not> start + len \<le> bm_capacity b then
        Inl (Explicit_Panic ''start + len <= self.capacity'')
      else
        sum_bind (update_region (\<lambda>w m. w AND NOT m) 0 start (start + len) (bm_words b)) (\<lambda>bm.
        let still_non_empty = list_ex (\<lambda>w. w \<noteq> 0) bm
        in Inr (b\<lparr>bm_words := bm, bm_empty := (if \<not> still_non_empty then True else bm_empty b)\<rparr>)))"

text \<open>\<open>u64::trailing_zeros\<close>: 64 for zero.\<close>

definition trailing_zeros :: "u64 \<Rightarrow> nat" where
  "trailing_zeros w = length (takeWhile (\<lambda>i. \<not> bit w i) [0..<64])"

text \<open>A word without the bits outside of the region searched.\<close>

definition get_masked_word :: "usize \<Rightarrow> usize \<Rightarrow> u64 list \<Rightarrow> usize \<Rightarrow> panic + u64" where
  "get_masked_word start fin bm wi =
     sum_bind (word_at bm wi) (\<lambda>w.
     let w = (if wi = start div 64 then
                 (let lo = start mod 64 in if lo \<noteq> 0 then w AND NOT (low_bits lo) else w)
               else w)
     in Inr (if wi = (fin - 1) div 64 then
               (let hi = fin mod 64 in if hi \<noteq> 0 then w AND low_bits hi else w)
             else w))"

lemma get_masked_word_inside: "get_masked_word start fin bm wi = Inr w \<Longrightarrow> wi < length bm"
  by (simp add: get_masked_word_def word_at_def split: if_splits)

text \<open>
  The first word with a bit, at \<open>wi\<close> or later, and its bits. The loop ends at the last word, and before that
  with a panic if the vector is shorter.
\<close>

function first_nonzero :: "usize \<Rightarrow> usize \<Rightarrow> u64 list \<Rightarrow> usize \<Rightarrow> panic + (usize \<times> u64) option" where
  "first_nonzero start fin bm wi =
     sum_bind (get_masked_word start fin bm wi) (\<lambda>w.
     if w \<noteq> 0 then Inr (Some (wi, w))
     else if wi = (fin - 1) div 64 then Inr None
     else first_nonzero start fin bm (wi + 1))"
  by pat_completeness auto
termination
  by (relation "measure (\<lambda>(start, fin, bm, wi). length bm - wi)") (auto dest: get_masked_word_inside)

text \<open>The run of ones that reaches the end of a word, followed into the next words.\<close>

function extend_run :: "usize \<Rightarrow> usize \<Rightarrow> u64 list \<Rightarrow> usize \<Rightarrow> usize \<Rightarrow> usize \<Rightarrow> panic + usize" where
  "extend_run start fin bm gap_start run next_wi =
     (if gap_start + run < fin \<and> next_wi \<le> (fin - 1) div 64 then
        sum_bind (get_masked_word start fin bm next_wi) (\<lambda>ww.
        let remaining = fin - (gap_start + run)
        in if ww = - 1 then
              (let run = run + min remaining 64
               in if run = fin - gap_start then Inr run
                  else extend_run start fin bm gap_start run (next_wi + 1))
            else if ww = 0 then Inr run
            else Inr (run + min (min (trailing_zeros (NOT ww)) remaining) 64))
      else Inr run)"
  by pat_completeness auto
termination
  by (relation "measure (\<lambda>(start, fin, bm, gap_start, run, next_wi). Suc ((fin - 1) div 64) - next_wi)") (auto simp: Suc_diff_le)

declare first_nonzero.simps [simp del] extend_run.simps [simp del]

definition search_next_gap :: "usize \<Rightarrow> usize \<Rightarrow> bitmap \<Rightarrow> panic + (usize \<times> usize) option" where
  "search_next_gap start len b =
     (if len = 0 \<or> bm_empty b then Inr None
      else if \<not> start + len \<le> bm_capacity b then
        Inl (Explicit_Panic ''start + len <= self.capacity'')
      else
        let fin = start + len;
            bm = bm_words b
        in sum_bind (first_nonzero start fin bm (start div 64)) (\<lambda>found. case found of
             None \<Rightarrow> Inr None
           | Some (wi, w) \<Rightarrow>
               let tz = trailing_zeros w;
                   gap_start = wi * 64 + tz;
                   ones_here = trailing_zeros (NOT (drop_bit tz w));
                   bits_available_in_word = 64 - tz;
                   max_total = fin - gap_start;
                   take = min (min ones_here bits_available_in_word) max_total
               in if take = max_total then Inr (Some (gap_start, take))
                  else if take < bits_available_in_word then Inr (Some (gap_start, take))
                  else sum_bind (extend_run start fin bm gap_start take (wi + 1)) (\<lambda>run.
                    Inr (Some (gap_start, run)))))"

section \<open>Words and bits\<close>

lemma bit_low_bits: "bit (low_bits b) i \<longleftrightarrow> i < b \<and> i < 64"
  by (auto simp: low_bits_def push_bit_of_1 bit_mask_iff simp flip: mask_eq_exp_minus_1)

lemma bit_minus_1 [simp]: "bit (- 1 :: u64) i \<longleftrightarrow> i < 64"
  by simp

lemma word_split: "64 * (i div 64) + i mod 64 = i" "i mod 64 < 64" for i :: nat
  by simp_all

text \<open>The word of the last position of a region.\<close>

lemma last_word:
  fixes fin :: nat
  assumes "0 < fin"
  shows "fin mod 64 = 0 \<Longrightarrow> fin = 64 * ((fin - 1) div 64) + 64"
    and "fin mod 64 \<noteq> 0 \<Longrightarrow> (fin - 1) div 64 = fin div 64"
proof -
  show "fin = 64 * ((fin - 1) div 64) + 64" if "fin mod 64 = 0"
  proof -
    have "64 dvd fin"
      using that by (rule mod_0_imp_dvd)
    then obtain n where n: "fin = 64 * n" ..
    then obtain k where k: "fin = 64 * Suc k"
      using assms by (cases n) simp_all
    then have "fin - 1 = 63 + 64 * k"
      by simp
    then have "(fin - 1) div 64 = k"
      by simp
    then show ?thesis
      by (simp add: k)
  qed
  show "(fin - 1) div 64 = fin div 64" if "fin mod 64 \<noteq> 0"
  proof -
    have "fin - 1 = 64 * (fin div 64) + (fin mod 64 - 1)"
      using that word_split(1) [of fin] by linarith
    then show ?thesis
      using word_split(2) [of fin] by (simp only: div_mult_self4) simp
  qed
qed

lemma word_order:
  "i div 64 < j div 64 \<Longrightarrow> i < (j :: nat)"
  by (meson div_le_mono leD le_less_linear)

lemma before_end:
  fixes fin :: nat
  assumes "0 < fin"
  shows "i div 64 < (fin - 1) div 64 \<Longrightarrow> i < fin"
    and "(fin - 1) div 64 < i div 64 \<Longrightarrow> \<not> i < fin"
    and "i div 64 = (fin - 1) div 64 \<Longrightarrow> i < fin \<longleftrightarrow> (fin mod 64 = 0 \<or> i mod 64 < fin mod 64)"
proof -
  show "i < fin" if "i div 64 < (fin - 1) div 64"
    using word_order [OF that] by simp
  show "\<not> i < fin" if "(fin - 1) div 64 < i div 64"
    using word_order [OF that] by linarith
  show "i < fin \<longleftrightarrow> (fin mod 64 = 0 \<or> i mod 64 < fin mod 64)" if "i div 64 = (fin - 1) div 64"
    using that last_word [OF assms] word_split [of i] word_split [of fin] by linarith
qed

lemma bit_first_mask:
  assumes "start < fin" and "i div 64 = start div 64"
  shows "bit (first_mask start fin) (i mod 64) \<longleftrightarrow> start \<le> i \<and> i < fin"
proof -
  have fin: "0 < fin"
    using assms(1) by simp
  have low: "i mod 64 < start mod 64 \<longleftrightarrow> i < start"
    using assms(2) word_split [of i] word_split [of start] by linarith
  have le: "start div 64 \<le> (fin - 1) div 64"
    using assms(1) by (intro div_le_mono) simp
  show ?thesis
  proof (cases "start div 64 = (fin - 1) div 64")
    case True
    then show ?thesis
      using low assms(2) before_end(3) [OF fin, of i]
      by (auto simp: first_mask_def Let_def bit_and_iff bit_not_iff bit_low_bits)
  next
    case False
    then have "i < fin"
      using le assms(2) by (intro before_end(1) [OF fin]) simp
    then show ?thesis
      using False low by (auto simp: first_mask_def Let_def bit_not_iff bit_low_bits)
  qed
qed

lemma bit_last_mask:
  assumes "0 < fin" and "i div 64 = (fin - 1) div 64"
  shows "bit (last_mask fin) (i mod 64) \<longleftrightarrow> i < fin"
  using before_end(3) [OF assms] by (auto simp: last_mask_def Let_def bit_low_bits)

section \<open>The marked positions\<close>

definition marked :: "u64 list \<Rightarrow> nat \<Rightarrow> bool" where
  "marked bm i \<longleftrightarrow> i div 64 < length bm \<and> bit (bm ! (i div 64)) (i mod 64)"

definition gaps :: "bitmap \<Rightarrow> nat set" where
  "gaps b = {i. marked (bm_words b) i}"

text \<open>The words cover the capacity, nothing beyond it is marked, and the flag is exact.\<close>

definition bitmap_ok :: "bitmap \<Rightarrow> bool" where
  "bitmap_ok b \<longleftrightarrow>
     length (bm_words b) = words_for (bm_capacity b) \<and> gaps b \<subseteq> {..<bm_capacity b} \<and>
     (bm_empty b \<longleftrightarrow> gaps b = {})"

text \<open>What an update of a region does when its words are inside of the vector.\<close>

definition region_updated ::
    "(u64 \<Rightarrow> u64 \<Rightarrow> u64) \<Rightarrow> u64 \<Rightarrow> usize \<Rightarrow> usize \<Rightarrow> u64 list \<Rightarrow> u64 list" where
  "region_updated apply_mask between start fin bm =
     (let first_word = start div 64;
          last_word = (fin - 1) div 64;
          bm1 = bm[first_word := apply_mask (bm ! first_word) (first_mask start fin)];
          bm2 = fold (\<lambda>w bm. bm[w := between]) [first_word + 1..<last_word] bm1
      in if last_word \<noteq> first_word
         then bm2[last_word := apply_mask (bm2 ! last_word) (last_mask fin)]
         else bm2)"

lemma nth_fold_update:
  "i < length bm \<Longrightarrow> fold (\<lambda>w bm. bm[w := v]) ws bm ! i = (if i \<in> set ws then v else bm ! i)"
  by (induction ws arbitrary: bm) (auto simp: nth_list_update)

lemma length_fold_update [simp]: "length (fold (\<lambda>w bm. bm[w := v]) ws bm) = length bm"
  by (induction ws arbitrary: bm) simp_all

lemma length_region_updated [simp]: "length (region_updated f v start fin bm) = length bm"
  by (simp add: region_updated_def Let_def)

lemma set_words_inside:
  "\<forall>w\<in>set ws. w < length bm \<Longrightarrow> set_words v ws bm = Inr (fold (\<lambda>w bm. bm[w := v]) ws bm)"
  by (induction ws arbitrary: bm) (simp_all add: word_set_def)

lemma update_region_inside:
  assumes "(fin - 1) div 64 < length bm" and "start < fin"
  shows "update_region f v start fin bm = Inr (region_updated f v start fin bm)"
proof -
  have "start div 64 \<le> (fin - 1) div 64"
    using assms(2) by (intro div_le_mono) simp
  then have "start div 64 < length bm"
    using assms(1) by simp
  then show ?thesis
    using assms(1) by (simp add: update_region_def region_updated_def Let_def word_at_def word_set_def set_words_inside)
qed

lemma nth_region_updated:
  assumes "i < length bm" and "(fin - 1) div 64 < length bm" and "start < fin"
  shows "region_updated f v start fin bm ! i =
    (if i = start div 64 then f (bm ! i) (first_mask start fin)
     else if start div 64 < i \<and> i < (fin - 1) div 64 then v
     else if i = (fin - 1) div 64 then f (bm ! i) (last_mask fin)
     else bm ! i)"
proof -
  have "start div 64 \<le> (fin - 1) div 64"
    using assms(3) by (intro div_le_mono) simp
  then show ?thesis
    using assms by (auto simp: region_updated_def Let_def nth_fold_update nth_list_update)
qed

lemma region_in_words:
  assumes "length bm = words_for cap" and "fin \<le> cap" and "0 < fin"
  shows "(fin - 1) div 64 < length bm"
proof -
  have "(fin - 1) div 64 \<le> (cap - 1) div 64"
    using assms(2) by (intro div_le_mono) simp
  also have "\<dots> < words_for cap"
    using assms(2,3) div_add_self2 [of "64 :: nat" "cap - 1"] by (simp add: words_for_def)
  finally show ?thesis
    by (simp add: assms(1))
qed

lemma region_word_cases:
  fixes start :: nat
  assumes "start < fin"
  obtains "i div 64 = start div 64"
  | "start div 64 < i div 64" "i div 64 < (fin - 1) div 64" "start \<le> i" "i < fin"
  | "start div 64 < i div 64" "i div 64 = (fin - 1) div 64" "start \<le> i"
  | "i div 64 < start div 64 \<or> (fin - 1) div 64 < i div 64" "\<not> (start \<le> i \<and> i < fin)"
proof -
  have fin: "0 < fin" using assms by simp
  consider "i div 64 = start div 64" | "start div 64 < i div 64" "i div 64 < (fin - 1) div 64"
    | "start div 64 < i div 64" "i div 64 = (fin - 1) div 64"
    | "i div 64 < start div 64" | "(fin - 1) div 64 < i div 64"
    by linarith
  then show thesis
  proof cases
    case 1
    then show thesis by (rule that(1))
  next
    case 2
    then show thesis
      using before_end(1) [OF fin 2(2)] word_order [OF 2(1)] by (intro that(2)) simp_all
  next
    case 3
    then show thesis
      using word_order [OF 3(1)] by (intro that(3)) simp_all
  next
    case 4
    then show thesis
      using word_order [OF 4] by (intro that(4)) simp_all
  next
    case 5
    then show thesis
      using before_end(2) [OF fin 5] by (intro that(4)) simp_all
  qed
qed

text \<open>A bitwise update of a region: inside it, each position sees the mask bit or the new word.\<close>

lemma marked_region_updated:
  assumes "i div 64 < length bm" and "(fin - 1) div 64 < length bm" and "start < fin"
    and op: "\<And>w m. j < 64 \<Longrightarrow> bit (f w m) j = g (bit w j) (bit m j)" and j: "j = i mod 64"
    and v: "\<And>b. bit v j = g b True" and keep: "\<And>b. g b False = b"
  shows "bit (region_updated f v start fin bm ! (i div 64)) j =
    g (bit (bm ! (i div 64)) j) (start \<le> i \<and> i < fin)"
proof -
  have j64: "j < 64" by (simp add: j)
  from assms(3) show ?thesis
  proof (cases rule: region_word_cases [of start fin i])
    case 1
    then show ?thesis
      using assms(1-3) bit_first_mask [OF assms(3) 1] by (simp add: nth_region_updated op [OF j64] flip: j)
  next
    case 2
    then show ?thesis
      using assms(1-3) v [of "bit (bm ! (i div 64)) j"] by (simp add: nth_region_updated)
  next
    case 3
    then show ?thesis
      using assms(1-3) bit_last_mask [of fin i] by (simp add: nth_region_updated op [OF j64] flip: j)
  next
    case 4
    then show ?thesis
      using assms(1-3) div_le_mono [of start "fin - 1" 64] by (auto simp: nth_region_updated keep)
  qed
qed

lemma marked_mark:
  assumes "(fin - 1) div 64 < length bm" and "start < fin"
  shows "marked (region_updated (OR) (- 1) start fin bm) i \<longleftrightarrow> marked bm i \<or> (start \<le> i \<and> i < fin)"
proof (cases "i div 64 < length bm")
  case True
  then show ?thesis
    using marked_region_updated [OF True assms, where f = "(OR)" and g = "(\<or>)" and v = "- 1"]
    by (simp add: marked_def bit_or_iff)
next
  case False
  then have "\<not> i < fin"
    using assms by (intro before_end(2)) simp_all
  then show ?thesis
    using False by (simp add: marked_def)
qed

lemma marked_unmark:
  assumes "(fin - 1) div 64 < length bm" and "start < fin"
  shows "marked (region_updated (\<lambda>w m. w AND NOT m) 0 start fin bm) i \<longleftrightarrow>
    marked bm i \<and> \<not> (start \<le> i \<and> i < fin)"
proof (cases "i div 64 < length bm")
  case True
  then show ?thesis
    using marked_region_updated [OF True assms, where f = "\<lambda>w m. w AND NOT m" and v = 0
        and g = "\<lambda>b m. b \<and> \<not> m"]
    by (simp add: marked_def bit_and_iff bit_not_iff)
qed (simp add: marked_def)

section \<open>Searching\<close>

lemma takeWhile_True [simp]: "takeWhile (\<lambda>x. True) xs = xs"
  by (induction xs) simp_all

lemma trailing_zeros_le: "trailing_zeros w \<le> 64"
  using length_takeWhile_le [of "\<lambda>i. \<not> bit w i" "[0..<64]"] by (simp add: trailing_zeros_def)

lemma bit_trailing_zeros: "trailing_zeros w < 64 \<Longrightarrow> bit w (trailing_zeros w)"
  using nth_length_takeWhile [of "\<lambda>i. \<not> bit w i" "[0..<64]"] by (simp add: trailing_zeros_def)

lemma below_trailing_zeros:
  assumes "j < trailing_zeros w"
  shows "\<not> bit w j"
proof -
  have "j < 64"
    using assms trailing_zeros_le [of w] by simp
  then show ?thesis
    using takeWhile_nth [of j "\<lambda>i. \<not> bit w i" "[0..<64]"] nth_mem [of j "takeWhile (\<lambda>i. \<not> bit w i) [0..<64]"]
      assms by (auto simp: trailing_zeros_def dest: set_takeWhileD)
qed

lemma trailing_zeros_lt: "w \<noteq> 0 \<Longrightarrow> trailing_zeros w < 64"
proof (rule ccontr)
  assume "\<not> trailing_zeros w < 64"
  then have "\<not> bit w j" if "j < 64" for j
    using that below_trailing_zeros [of j w] by linarith
  then have "w = 0"
    by (intro bit_word_eqI) simp
  moreover assume "w \<noteq> 0"
  ultimately show False by simp
qed

text \<open>The masked bits of a word, without the look whether the word is there.\<close>

definition masked_word :: "usize \<Rightarrow> usize \<Rightarrow> u64 list \<Rightarrow> usize \<Rightarrow> u64" where
  "masked_word start fin bm wi =
     (let w = (if wi = start div 64 \<and> start mod 64 \<noteq> 0 then bm ! wi AND NOT (low_bits (start mod 64)) else bm ! wi)
      in if wi = (fin - 1) div 64 \<and> fin mod 64 \<noteq> 0 then w AND low_bits (fin mod 64) else w)"

lemma get_masked_word_ok: "wi < length bm \<Longrightarrow> get_masked_word start fin bm wi = Inr (masked_word start fin bm wi)"
  by (simp add: get_masked_word_def masked_word_def word_at_def Let_def)

lemma first_nonzero_step:
  assumes "wi < length bm"
  shows "first_nonzero start fin bm wi =
    (if masked_word start fin bm wi \<noteq> 0 then Inr (Some (wi, masked_word start fin bm wi))
     else if wi = (fin - 1) div 64 then Inr None else first_nonzero start fin bm (wi + 1))"
  by (subst first_nonzero.simps) (simp add: get_masked_word_ok [OF assms])

lemma bit_masked_word:
  assumes "start < fin" and "j < 64" and "start div 64 \<le> wi" and "wi \<le> (fin - 1) div 64"
  shows "bit (masked_word start fin bm wi) j \<longleftrightarrow>
    bit (bm ! wi) j \<and> start \<le> 64 * wi + j \<and> 64 * wi + j < fin"
proof -
  have word: "(64 * wi + j) div 64 = wi" "(64 * wi + j) mod 64 = j"
    using assms(2) by simp_all
  have lo: "start \<le> 64 * wi + j \<longleftrightarrow> (wi = start div 64 \<longrightarrow> \<not> j < start mod 64)"
  proof (cases "wi = start div 64")
    case True
    then have "64 * wi + start mod 64 = start"
      using word_split(1) by blast
    then show ?thesis
      using True by linarith
  next
    case False
    then show ?thesis
      using assms(3) word_order [of start "64 * wi + j"] word by simp
  qed
  have hi: "64 * wi + j < fin \<longleftrightarrow> (wi = (fin - 1) div 64 \<longrightarrow> fin mod 64 = 0 \<or> j < fin mod 64)"
    using before_end(1,3) [of fin "64 * wi + j"] assms(1,4) word by fastforce
  show ?thesis
    unfolding lo hi by (auto simp: masked_word_def Let_def bit_and_iff bit_not_iff bit_low_bits assms(2))
qed

text \<open>A word without a bit in the region has no marked position there.\<close>

lemma masked_word_zero:
  assumes "start < fin" and "start div 64 \<le> wi" and "wi \<le> (fin - 1) div 64"
    and "masked_word start fin bm wi = 0" and "i div 64 = wi" and "start \<le> i" and "i < fin"
  shows "\<not> marked bm i"
  using bit_masked_word [OF assms(1) _ assms(2,3), of "i mod 64" bm] assms(4-7) word_split [of i]
  by (auto simp: marked_def)

lemma first_nonzero_found:
  assumes "start < fin" and "(fin - 1) div 64 < length bm" and "start div 64 \<le> wi" and "wi \<le> (fin - 1) div 64"
  shows "case first_nonzero start fin bm wi of
      Inl p \<Rightarrow> False
    | Inr None \<Rightarrow> \<forall>i. wi \<le> i div 64 \<longrightarrow> start \<le> i \<longrightarrow> i < fin \<longrightarrow> \<not> marked bm i
    | Inr (Some (k, w)) \<Rightarrow> wi \<le> k \<and> k \<le> (fin - 1) div 64 \<and> w = masked_word start fin bm k \<and> w \<noteq> 0 \<and>
        (\<forall>i. wi \<le> i div 64 \<longrightarrow> i div 64 < k \<longrightarrow> start \<le> i \<longrightarrow> i < fin \<longrightarrow> \<not> marked bm i)"
  using assms
proof (induction start fin bm wi rule: first_nonzero.induct)
  case (1 start fin bm wi)
  note step = first_nonzero_step [of wi bm start fin]
  have wi: "wi < length bm"
    using 1(3,5) by simp
  have here: "\<not> marked bm i"
    if "masked_word start fin bm wi = 0" "i div 64 = wi" "start \<le> i" "i < fin" for i
    using that 1(2,4,5) by (intro masked_word_zero) simp_all
  consider "masked_word start fin bm wi \<noteq> 0" | "masked_word start fin bm wi = 0" "wi = (fin - 1) div 64"
    | "masked_word start fin bm wi = 0" "wi < (fin - 1) div 64"
    using 1(5) by linarith
  then show ?case
  proof cases
    case 1
    then show ?thesis
      using \<open>wi \<le> (fin - 1) div 64\<close> by (simp add: step [OF wi])
  next
    case 2
    have "i div 64 \<le> wi" if "i < fin" for i
      unfolding 2(2) using that by (intro div_le_mono) simp
    moreover have "first_nonzero start fin bm wi = Inr None"
      unfolding step [OF wi] using 2 by simp
    ultimately show ?thesis
      using 2(1) here by (auto intro: le_antisym)
  next
    case 3
    have more: "wi \<le> i div 64 \<longleftrightarrow> i div 64 = wi \<or> wi + 1 \<le> i div 64" for i
      by auto
    have "first_nonzero start fin bm wi = first_nonzero start fin bm (wi + 1)"
      using 3 by (simp add: step [OF wi])
    moreover note 1(1) [OF get_masked_word_ok [OF wi]]
    ultimately show ?thesis
      using 1(2-4) 3 here unfolding more
      by (fastforce split: sum.splits option.splits prod.splits)
  qed
qed

lemma marked_word_bit: "j < 64 \<Longrightarrow> marked bm (64 * wi + j) \<longleftrightarrow> wi < length bm \<and> bit (bm ! wi) j"
  by (simp add: marked_def)

lemma not_ones:
  assumes "(ww :: u64) \<noteq> - 1"
  shows "trailing_zeros (NOT ww) < 64"
proof (rule trailing_zeros_lt)
  show "NOT ww \<noteq> 0"
    using assms by (metis bit.double_compl bit.compl_zero)
qed

lemma ones_below: "j < trailing_zeros (NOT ww) \<Longrightarrow> bit ww j"
  using below_trailing_zeros [of j "NOT ww"] trailing_zeros_le [of "NOT ww"] by (simp add: bit_not_iff)

lemma one_not_at: "trailing_zeros (NOT ww) < 64 \<Longrightarrow> \<not> bit ww (trailing_zeros (NOT ww))"
  using bit_trailing_zeros [of "NOT ww"] by (simp add: bit_not_iff)

text \<open>A run of marked positions from \<open>s\<close> of length \<open>n\<close> that cannot be prolonged below \<open>fin\<close>.\<close>

definition maximal_run :: "u64 list \<Rightarrow> nat \<Rightarrow> nat \<Rightarrow> nat \<Rightarrow> bool" where
  "maximal_run bm s n fin \<longleftrightarrow>
     s + n \<le> fin \<and> (\<forall>i. s \<le> i \<longrightarrow> i < s + n \<longrightarrow> marked bm i) \<and> (s + n < fin \<longrightarrow> \<not> marked bm (s + n))"

text \<open>One word of a run that has reached the beginning of the word.\<close>

lemma run_in_word:
  assumes "start < fin" and "start div 64 \<le> wi" and "wi \<le> (fin - 1) div 64" and "wi < length bm"
    and "start \<le> 64 * wi + k" and "k < 64"
    and ww: "drop_bit k (masked_word start fin bm wi) = ww"
    and ones: "trailing_zeros (NOT ww) = ones"
  shows "\<forall>j. k \<le> j \<longrightarrow> j < k + ones \<longrightarrow> j < 64 \<and> marked bm (64 * wi + j) \<and> 64 * wi + j < fin"
    and "k + ones < 64 \<longrightarrow> 64 * wi + (k + ones) < fin \<longrightarrow> \<not> marked bm (64 * wi + (k + ones))"
proof -
  have bits: "bit ww j \<longleftrightarrow> k + j < 64 \<and> marked bm (64 * wi + (k + j)) \<and> 64 * wi + (k + j) < fin" for j
  proof (cases "k + j < 64")
    case True
    then show ?thesis
      using assms(4,5) bit_masked_word [OF assms(1) True assms(2,3), of bm]
      by (simp add: ww [symmetric] bit_drop_bit_eq marked_word_bit)
  next
    case False
    then show ?thesis
      using bit_imp_le_length [of "masked_word start fin bm wi" "k + j"]
      by (auto simp: ww [symmetric] bit_drop_bit_eq)
  qed
  show "\<forall>j. k \<le> j \<longrightarrow> j < k + ones \<longrightarrow> j < 64 \<and> marked bm (64 * wi + j) \<and> 64 * wi + j < fin"
  proof (intro allI impI)
    fix j
    assume j: "k \<le> j" "j < k + ones"
    then have "bit ww (j - k)"
      by (intro ones_below) (simp add: ones)
    then show "j < 64 \<and> marked bm (64 * wi + j) \<and> 64 * wi + j < fin"
      using bits [of "j - k"] j(1) by simp
  qed
  show "k + ones < 64 \<longrightarrow> 64 * wi + (k + ones) < fin \<longrightarrow> \<not> marked bm (64 * wi + (k + ones))"
    using bits [of ones] one_not_at [of ww] by (auto simp: ones)
qed

lemma extend_run_maximal:
  assumes "start < fin" and "(fin - 1) div 64 < length bm" and "start div 64 < next_wi"
    and "s + run = 64 * next_wi" and "s + run \<le> fin" and "\<forall>i. s \<le> i \<longrightarrow> i < s + run \<longrightarrow> marked bm i"
  shows "\<exists>n. extend_run start fin bm s run next_wi = Inr n \<and> maximal_run bm s n fin \<and> run \<le> n"
  using assms
proof (induction start fin bm s run next_wi rule: extend_run.induct)
  case (1 start fin bm s run wi)
  let ?ww = "masked_word start fin bm wi"
  let ?ones = "trailing_zeros (NOT ?ww)"
  have fin: "0 < fin" using 1(2) by simp
  show ?case
  proof (cases "s + run < fin \<and> wi \<le> (fin - 1) div 64")
    case False
    have "s + run = fin"
    proof (cases "s + run < fin")
      case True
      then have "\<not> 64 * wi < fin"
        using False before_end(2) [OF fin, of "64 * wi"] by simp
      then show ?thesis
        using 1(5,6) by simp
    qed (use 1(6) in simp)
    then show ?thesis
      using False 1(7) by (simp add: extend_run.simps maximal_run_def)
  next
    case True
    have wi: "start div 64 \<le> wi" "wi \<le> (fin - 1) div 64" "wi < length bm" "start \<le> 64 * wi + 0"
      using True 1(3,4) word_order [of start "64 * wi"] by simp_all
    have shift: "drop_bit 0 ?ww = ?ww" by simp
    note get = get_masked_word_ok [OF wi(3), of start fin]
    have word: "\<forall>j. j < ?ones \<longrightarrow> j < 64 \<and> marked bm (64 * wi + j) \<and> 64 * wi + j < fin"
      "?ones < 64 \<longrightarrow> 64 * wi + ?ones < fin \<longrightarrow> \<not> marked bm (64 * wi + ?ones)"
      using run_in_word [OF 1(2) wi zero_less_numeral shift refl] by simp_all
    show ?thesis
    proof (cases "?ww = - 1")
      case ones: True
      then have "?ones = 64"
        by (simp add: trailing_zeros_def)
      then have all: "j < 64 \<Longrightarrow> marked bm (64 * wi + j) \<and> 64 * wi + j < fin" for j
        using word(1) by simp
      have rem: "min (fin - (s + run)) 64 = 64"
        using all [of 63] 1(5) by linarith
      have more: "\<forall>i. s \<le> i \<longrightarrow> i < s + (run + 64) \<longrightarrow> marked bm i"
      proof (intro allI impI)
        fix i assume "s \<le> i" "i < s + (run + 64)"
        then show "marked bm i"
          using 1(7) all [of "i - 64 * wi"] 1(5) by (cases "i < s + run") auto
      qed
      have le: "s + (run + 64) \<le> fin"
        using all [of 63] 1(5) by simp
      show ?thesis
      proof (cases "run + 64 = fin - s")
        case False
        have eq: "extend_run start fin bm s run wi = extend_run start fin bm s (run + 64) (wi + 1)"
          using True ones rem False by (subst extend_run.simps) (simp add: Let_def get)
        have "\<exists>n. extend_run start fin bm s (run + 64) (wi + 1) = Inr n \<and> maximal_run bm s n fin \<and> run + 64 \<le> n"
          using 1(4,5) by (intro 1(1) [OF True get refl ones refl, unfolded rem, OF False 1(2,3) _ _ le more]) simp_all
        then show ?thesis
          unfolding eq by auto
      next
        case True': True
        have eq: "extend_run start fin bm s run wi = Inr (run + 64)"
          using True ones rem True' by (subst extend_run.simps) (simp add: Let_def get)
        show ?thesis
          unfolding eq using more le True' by (simp add: maximal_run_def)
      qed
    next
      case False
      have lt: "?ones < 64"
        using False by (rule not_ones)
      have le: "64 * wi + ?ones \<le> fin"
        using word(1) [rule_format, of "?ones - 1"] True 1(5) by (cases "?ones = 0") auto
      have eq: "extend_run start fin bm s run wi = Inr (run + ?ones)"
      proof (cases "?ww = 0")
        case zero: True
        then have "?ones = 0"
          by (simp add: trailing_zeros_def upt_conv_Cons)
        then show ?thesis
          using True zero False by (subst extend_run.simps) (simp add: Let_def get)
      next
        case nz: False
        then show ?thesis
          using True False lt le 1(5) by (subst extend_run.simps) (simp add: Let_def get)
      qed
      have marks: "\<forall>i. s \<le> i \<longrightarrow> i < s + (run + ?ones) \<longrightarrow> marked bm i"
      proof (intro allI impI)
        fix i assume "s \<le> i" "i < s + (run + ?ones)"
        then show "marked bm i"
          using 1(7) word(1) [rule_format, of "i - 64 * wi"] 1(5) by (cases "i < s + run") auto
      qed
      have end_eq: "s + (run + ?ones) = 64 * wi + ?ones"
        using 1(5) by simp
      have "maximal_run bm s (run + ?ones) fin"
        unfolding maximal_run_def end_eq using le lt word(2) marks end_eq by auto
      then show ?thesis
        unfolding eq by simp
    qed
  qed
qed

section \<open>The specification of a search\<close>

text \<open>The first run of members of a set in a region: where it begins and how long it is.\<close>

definition first_run :: "nat set \<Rightarrow> nat \<Rightarrow> nat \<Rightarrow> (nat \<times> nat) option" where
  "first_run S start fin =
     (case find (\<lambda>i. i \<in> S) [start..<fin] of
        None \<Rightarrow> None
      | Some i \<Rightarrow> Some (i, length (takeWhile (\<lambda>j. j \<in> S) [i..<fin])))"

lemma length_takeWhile_upt:
  assumes "s + n \<le> fin" and "\<forall>i. s \<le> i \<longrightarrow> i < s + n \<longrightarrow> P i" and "s + n < fin \<longrightarrow> \<not> P (s + n)"
  shows "length (takeWhile P [s..<fin]) = n"
proof -
  have "[s..<fin] = [s..<s + n] @ [s + n..<fin]"
    using assms(1) upt_add_eq_append [of s "s + n" "fin - (s + n)"] by simp
  moreover have "takeWhile P [s + n..<fin] = []"
    using assms(1,3) by (cases "s + n < fin") (simp_all add: upt_conv_Cons)
  moreover have "takeWhile P ([s..<s + n] @ ys) = [s..<s + n] @ takeWhile P ys" for ys
    using assms(2) by (intro takeWhile_append2) simp
  ultimately show ?thesis
    by simp
qed

lemma find_upt:
  assumes "start \<le> s" and "s < fin" and "\<forall>i. start \<le> i \<longrightarrow> i < s \<longrightarrow> \<not> P i" and "P s"
  shows "find P [start..<fin] = Some s"
proof -
  have "[start..<fin] = [start..<s] @ s # [Suc s..<fin]"
    using assms(1,2) upt_add_eq_append [of start s "fin - s"] by (simp add: upt_conv_Cons)
  moreover have "find P (xs @ s # ys) = Some s" if "\<forall>x\<in>set xs. \<not> P x" for xs ys
    using that assms(4) by (induction xs) simp_all
  ultimately show ?thesis
    using assms(3) by simp
qed

lemma first_run_None: "first_run S start fin = None \<longleftrightarrow> (\<forall>i. start \<le> i \<longrightarrow> i < fin \<longrightarrow> i \<notin> S)"
proof -
  have "first_run S start fin = None \<longleftrightarrow> find (\<lambda>i. i \<in> S) [start..<fin] = None"
    by (simp add: first_run_def split: option.split)
  then show ?thesis
    by (auto simp: find_None_iff)
qed

lemma first_run_Some:
  assumes "start \<le> s" and "0 < n" and "s + n \<le> fin" and "\<forall>i. start \<le> i \<longrightarrow> i < s \<longrightarrow> i \<notin> S"
    and "\<forall>i. s \<le> i \<longrightarrow> i < s + n \<longrightarrow> i \<in> S" and "s + n < fin \<longrightarrow> s + n \<notin> S"
  shows "first_run S start fin = Some (s, n)"
proof -
  have "find (\<lambda>i. i \<in> S) [start..<fin] = Some s"
    using assms by (intro find_upt) auto
  moreover have "length (takeWhile (\<lambda>j. j \<in> S) [s..<fin]) = n"
    using assms by (intro length_takeWhile_upt) auto
  ultimately show ?thesis
    by (simp add: first_run_def)
qed

lemma search_next_gap_run:
  assumes ok: "bitmap_ok b" and region: "start + len \<le> bm_capacity b"
  shows "search_next_gap start len b = Inr (first_run (gaps b) start (start + len))"
proof (cases "len = 0 \<or> bm_empty b")
  case True
  then have "first_run (gaps b) start (start + len) = None"
    using ok by (auto simp: first_run_None bitmap_ok_def)
  then show ?thesis
    using True by (auto simp: search_next_gap_def)
next
  case False
  let ?fin = "start + len" and ?bm = "bm_words b"
  have lt: "start < ?fin" using False by simp
  have words: "(?fin - 1) div 64 < length ?bm"
    using region_in_words [of ?bm "bm_capacity b" ?fin] ok region lt by (simp add: bitmap_ok_def)
  have le: "start div 64 \<le> (?fin - 1) div 64"
    using lt by (intro div_le_mono) simp
  note found = first_nonzero_found [OF lt words le_refl le]
  then obtain first where first: "first_nonzero start ?fin ?bm (start div 64) = Inr first"
    by (auto split: sum.splits)
  show ?thesis
  proof (cases first)
    case None
    have "\<not> marked ?bm i" if "start \<le> i" "i < ?fin" for i
      using found that div_le_mono [OF that(1), of 64] by (simp add: first None)
    then have "first_run (gaps b) start ?fin = None"
      by (simp add: first_run_None gaps_def)
    then show ?thesis
      using False region None first by (auto simp: search_next_gap_def)
  next
    case (Some wi_w)
    obtain wi where wi_w: "wi_w = (wi, masked_word start ?fin ?bm wi)"
      using found by (auto simp: first Some split: prod.splits)
    let ?w = "masked_word start ?fin ?bm wi"
    let ?tz = "trailing_zeros ?w"
    let ?ones = "trailing_zeros (NOT (drop_bit ?tz ?w))"
    let ?s = "64 * wi + ?tz"
    have wi: "start div 64 \<le> wi" "wi \<le> (?fin - 1) div 64" and nz: "?w \<noteq> 0"
      and before: "\<And>i. start div 64 \<le> i div 64 \<Longrightarrow> i div 64 < wi \<Longrightarrow> start \<le> i \<Longrightarrow> i < ?fin \<Longrightarrow>
        \<not> marked ?bm i"
      using found by (auto simp: first Some wi_w)
    have wl: "wi < length ?bm"
      using wi(2) words by simp
    have tz: "?tz < 64"
      using nz by (rule trailing_zeros_lt)
    have s: "marked ?bm ?s" "start \<le> ?s" "?s < ?fin"
      using bit_masked_word [OF lt tz wi, of ?bm] bit_trailing_zeros [OF tz] wl tz
      by (simp_all add: marked_word_bit)
    have run: "\<And>j. ?tz \<le> j \<Longrightarrow> j < ?tz + ?ones \<Longrightarrow> j < 64 \<and> marked ?bm (64 * wi + j) \<and> 64 * wi + j < ?fin"
      "?tz + ?ones < 64 \<Longrightarrow> 64 * wi + (?tz + ?ones) < ?fin \<Longrightarrow> \<not> marked ?bm (64 * wi + (?tz + ?ones))"
      using run_in_word [OF lt wi wl s(2) tz refl refl] by blast+
    have ones: "0 < ?ones"
      using one_not_at [of "drop_bit ?tz ?w"] bit_trailing_zeros [OF tz]
      by (cases "?ones = 0") (simp_all add: bit_drop_bit_eq)
    have fits: "?tz + ?ones \<le> 64" "64 * wi + (?tz + ?ones) \<le> ?fin"
      using run(1) [of "?tz + (?ones - 1)"] ones by linarith+
    have quiet: "\<not> marked ?bm i" if i: "start \<le> i" "i < ?s" for i
    proof (cases "i div 64 < wi")
      case True
      then show ?thesis
        using i s(3) by (intro before) (auto intro: div_le_mono)
    next
      case False
      then have "i div 64 = wi" and "i mod 64 < ?tz"
        using i(2) tz word_split [of i] by linarith+
      then show ?thesis
        using below_trailing_zeros [of "i mod 64" ?w] bit_masked_word [OF lt _ wi, of "i mod 64" ?bm]
          i s(3) word_split [of i] by (auto simp: marked_def)
    qed
    have whole: "\<forall>i. ?s \<le> i \<longrightarrow> i < ?s + ?ones \<longrightarrow> marked ?bm i"
    proof (intro allI impI)
      fix i assume i: "?s \<le> i" "i < ?s + ?ones"
      then obtain j where j: "i = 64 * wi + j"
        using le_add1 le_trans le_Suc_ex by blast
      then have "?tz \<le> j" and "j < ?tz + ?ones"
        using i by linarith+
      then show "marked ?bm i"
        using run(1) [of j] j by simp
    qed
    have take: "min (min ?ones (64 - ?tz)) (?fin - ?s) = ?ones"
      using fits by simp
    have res: "search_next_gap start len b =
        (if ?ones = ?fin - ?s \<or> ?ones < 64 - ?tz then Inr (Some (?s, ?ones))
         else sum_bind (extend_run start ?fin ?bm ?s ?ones (wi + 1)) (\<lambda>run. Inr (Some (?s, run))))"
      using False region first Some take by (simp add: search_next_gap_def wi_w Let_def mult.commute)
    have "\<exists>n. search_next_gap start len b = Inr (Some (?s, n)) \<and> maximal_run ?bm ?s n ?fin \<and> 0 < n"
    proof (cases "?ones = ?fin - ?s \<or> ?ones < 64 - ?tz")
      case True
      moreover have "?s + ?ones \<le> ?fin"
        using fits(2) by linarith
      moreover have "\<not> marked ?bm (?s + ?ones)" if "?s + ?ones < ?fin"
      proof -
        have "?tz + ?ones < 64"
          using True that by linarith
        then show ?thesis
          using run(2) that unfolding add.assoc by blast
      qed
      ultimately show ?thesis
        using whole ones unfolding maximal_run_def res by (intro exI [of _ ?ones]) simp
    next
      case False
      then have "\<not> ?ones < 64 - ?tz"
        by blast
      then have "?tz + ?ones = 64"
        using fits(1) tz by linarith
      then have end_word: "?s + ?ones = 64 * (wi + 1)"
        by simp
      have "\<exists>n. extend_run start ?fin ?bm ?s ?ones (wi + 1) = Inr n \<and> maximal_run ?bm ?s n ?fin \<and> ?ones \<le> n"
        using wi(1) fits(2) whole end_word by (intro extend_run_maximal [OF lt words]) (simp_all add: add.assoc)
      then show ?thesis
        using False ones unfolding res by auto
    qed
    then obtain n where n: "search_next_gap start len b = Inr (Some (?s, n))" "maximal_run ?bm ?s n ?fin" "0 < n"
      by blast
    then have "first_run (gaps b) start ?fin = Some (?s, n)"
      using s(2) quiet by (intro first_run_Some) (auto simp: maximal_run_def gaps_def)
    then show ?thesis
      using n(1) by simp
  qed
qed

section \<open>The contract of a gap map\<close>

lemma bitmap_new_ok: "bitmap_ok (bitmap_new cap)" "gaps (bitmap_new cap) = {}" "bm_capacity (bitmap_new cap) = cap"
  by (auto simp: bitmap_ok_def bitmap_new_def gaps_def marked_def nth_replicate)

lemma mark_region_gaps:
  assumes "bitmap_ok b" and "start + len \<le> bm_capacity b"
  shows "\<exists>b'. mark_region start len b = Inr b' \<and> bitmap_ok b' \<and> bm_capacity b' = bm_capacity b \<and>
    gaps b' = gaps b \<union> {start..<start + len}"
proof (cases "len = 0")
  case True
  then show ?thesis
    using assms by (simp add: mark_region_def)
next
  case False
  have words: "(start + len - 1) div 64 < length (bm_words b)"
    using assms False region_in_words [of "bm_words b" "bm_capacity b" "start + len"]
    by (simp add: bitmap_ok_def)
  let ?b = "b\<lparr>bm_words := region_updated (OR) (- 1) start (start + len) (bm_words b), bm_empty := False\<rparr>"
  have "gaps ?b = gaps b \<union> {start..<start + len}"
    using marked_mark [OF words] False by (auto simp: gaps_def)
  moreover from this have "bitmap_ok ?b"
    using assms False by (auto simp: bitmap_ok_def)
  ultimately show ?thesis
    using False assms(2) update_region_inside [OF words] by (simp add: mark_region_def)
qed

lemma gaps_empty_iff: "gaps b = {} \<longleftrightarrow> \<not> list_ex (\<lambda>w. w \<noteq> 0) (bm_words b)"
proof
  assume none: "gaps b = {}"
  show "\<not> list_ex (\<lambda>w. w \<noteq> 0) (bm_words b)"
  proof
    assume "list_ex (\<lambda>w. w \<noteq> 0) (bm_words b)"
    then obtain k where k: "k < length (bm_words b)" "bm_words b ! k \<noteq> 0"
      by (auto simp: list_ex_iff in_set_conv_nth)
    then have "marked (bm_words b) (64 * k + trailing_zeros (bm_words b ! k))"
      by (simp add: marked_word_bit trailing_zeros_lt bit_trailing_zeros)
    then show False
      using none by (auto simp: gaps_def)
  qed
next
  assume none: "\<not> list_ex (\<lambda>w. w \<noteq> 0) (bm_words b)"
  have "bm_words b ! k = 0" if "k < length (bm_words b)" for k
    using none nth_mem [OF that] by (auto simp: list_ex_iff)
  then show "gaps b = {}"
    by (auto simp: gaps_def marked_def)
qed

lemma unmark_region_gaps:
  assumes "bitmap_ok b" and "start + len \<le> bm_capacity b"
  shows "\<exists>b'. unmark_region start len b = Inr b' \<and> bitmap_ok b' \<and> bm_capacity b' = bm_capacity b \<and>
    gaps b' = gaps b - {start..<start + len}"
proof (cases "len = 0 \<or> bm_empty b")
  case True
  then show ?thesis
    using assms by (auto simp: unmark_region_def bitmap_ok_def)
next
  case False
  have words: "(start + len - 1) div 64 < length (bm_words b)"
    using assms False region_in_words [of "bm_words b" "bm_capacity b" "start + len"]
    by (simp add: bitmap_ok_def)
  let ?bm = "region_updated (\<lambda>w m. w AND NOT m) 0 start (start + len) (bm_words b)"
  let ?b = "b\<lparr>bm_words := ?bm, bm_empty := (if \<not> list_ex (\<lambda>w. w \<noteq> 0) ?bm then True else bm_empty b)\<rparr>"
  have "gaps ?b = gaps b - {start..<start + len}"
    using marked_unmark [OF words] False by (auto simp: gaps_def)
  moreover from this have "bitmap_ok ?b"
    using assms False gaps_empty_iff [of ?b] by (auto simp: bitmap_ok_def)
  ultimately show ?thesis
    using False assms(2) update_region_inside [OF words] by (simp add: unmark_region_def Let_def)
qed

text \<open>A region of a ring: it begins at \<open>s\<close> and goes on at 0 when it reaches the capacity.\<close>

lemma ring_bounds:
  fixes s n c :: nat
  shows "s < c \<Longrightarrow> s + min (c - s) n \<le> c" and "n \<le> c \<Longrightarrow> n - min (c - s) n \<le> c"
  by simp_all

lemma ring_region:
  fixes s n c :: nat
  assumes "s < c" and "n \<le> c"
  shows "{s..<s + min (c - s) n} \<union> {0..<0 + (n - min (c - s) n)} = (\<lambda>i. (s + i) mod c) ` {0..<n}"
proof (cases "n \<le> c - s")
  case True
  then have "(s + i) mod c = s + i" if "i < n" for i
    using that assms(1) by simp
  then have "(\<lambda>i. (s + i) mod c) ` {0..<n} = (\<lambda>i. i + s) ` {0..<n}"
    by (intro image_cong) simp_all
  then show ?thesis
    using True by (simp add: min_absorb2 add.commute)
next
  case False
  have low: "(\<lambda>i. (s + i) mod c) ` {0..<c - s} = {s..<c}"
  proof -
    have "(\<lambda>i. (s + i) mod c) ` {0..<c - s} = (\<lambda>i. i + s) ` {0..<c - s}"
      by (intro image_cong) (auto simp: less_diff_conv add.commute)
    then show ?thesis
      using assms(1) by simp
  qed
  have high: "(\<lambda>i. (s + i) mod c) ` {c - s..<n} = {0..<n - (c - s)}"
  proof -
    have "{c - s..<n} = (\<lambda>i. i + (c - s)) ` {0..<n - (c - s)}"
      using False by simp
    then have "(\<lambda>i. (s + i) mod c) ` {c - s..<n} = (\<lambda>i. (s + (i + (c - s))) mod c) ` {0..<n - (c - s)}"
      by (simp only: image_image)
    also have "\<dots> = (\<lambda>i. i) ` {0..<n - (c - s)}"
      using assms by (intro image_cong) (auto simp: add.left_commute)
    finally show ?thesis by simp
  qed
  have "{0..<n} = {0..<c - s} \<union> {c - s..<n}"
    using False by auto
  then have "(\<lambda>i. (s + i) mod c) ` {0..<n} = {s..<c} \<union> {0..<n - (c - s)}"
    unfolding low [symmetric] high [symmetric] by (simp only: image_Un)
  then show ?thesis
    using False assms(1) by simp
qed

text \<open>
  What the ring buffer asks of a map of gaps: the three operations on regions inside the capacity
  return, and do to the set of gaps what they say.
\<close>

locale gap_map =
  fixes mark unmark :: "nat \<Rightarrow> nat \<Rightarrow> 'b \<Rightarrow> panic + 'b"
    and search :: "nat \<Rightarrow> nat \<Rightarrow> 'b \<Rightarrow> panic + (nat \<times> nat) option"
    and cap :: "'b \<Rightarrow> nat"
    and gap_set :: "'b \<Rightarrow> nat set"
    and ok :: "'b \<Rightarrow> bool"
  assumes mark: "ok b \<Longrightarrow> s + n \<le> cap b \<Longrightarrow>
      \<exists>b'. mark s n b = Inr b' \<and> ok b' \<and> cap b' = cap b \<and> gap_set b' = gap_set b \<union> {s..<s + n}"
    and unmark: "ok b \<Longrightarrow> s + n \<le> cap b \<Longrightarrow>
      \<exists>b'. unmark s n b = Inr b' \<and> ok b' \<and> cap b' = cap b \<and> gap_set b' = gap_set b - {s..<s + n}"
    and search: "ok b \<Longrightarrow> s + n \<le> cap b \<Longrightarrow> search s n b = Inr (first_run (gap_set b) s (s + n))"
begin

text \<open>A region of a ring: it begins at \<open>s\<close> and goes on at 0 when it reaches the capacity.\<close>

lemma mark_ring:
  assumes "ok b" and "s < cap b" and "n \<le> cap b"
  shows "\<exists>b' b''. mark s (min (cap b - s) n) b = Inr b' \<and> mark 0 (n - min (cap b - s) n) b' = Inr b'' \<and>
    ok b'' \<and> cap b'' = cap b \<and> gap_set b'' = gap_set b \<union> (\<lambda>i. (s + i) mod cap b) ` {0..<n}"
proof -
  obtain b' where b': "mark s (min (cap b - s) n) b = Inr b'" "ok b'" "cap b' = cap b"
    "gap_set b' = gap_set b \<union> {s..<s + min (cap b - s) n}"
    using mark [OF assms(1) ring_bounds(1) [OF assms(2)]] by blast
  have "0 + (n - min (cap b - s) n) \<le> cap b'"
    using ring_bounds(2) [OF assms(3)] b'(3) by simp
  from mark [OF b'(2) this] obtain b'' where "mark 0 (n - min (cap b - s) n) b' = Inr b''" "ok b''" "cap b'' = cap b'"
    "gap_set b'' = gap_set b' \<union> {0..<0 + (n - min (cap b - s) n)}"
    by blast
  then show ?thesis
    using b' ring_region [OF assms(2,3)] by (auto simp: Un_assoc)
qed

lemma unmark_ring:
  assumes "ok b" and "s < cap b" and "n \<le> cap b"
  shows "\<exists>b' b''. unmark s (min (cap b - s) n) b = Inr b' \<and> unmark 0 (n - min (cap b - s) n) b' = Inr b'' \<and>
    ok b'' \<and> cap b'' = cap b \<and> gap_set b'' = gap_set b - (\<lambda>i. (s + i) mod cap b) ` {0..<n}"
proof -
  obtain b' where b': "unmark s (min (cap b - s) n) b = Inr b'" "ok b'" "cap b' = cap b"
    "gap_set b' = gap_set b - {s..<s + min (cap b - s) n}"
    using unmark [OF assms(1) ring_bounds(1) [OF assms(2)]] by blast
  have "0 + (n - min (cap b - s) n) \<le> cap b'"
    using ring_bounds(2) [OF assms(3)] b'(3) by simp
  from unmark [OF b'(2) this] obtain b'' where b'': "unmark 0 (n - min (cap b - s) n) b' = Inr b''" "ok b''"
    "cap b'' = cap b'" "gap_set b'' = gap_set b' - {0..<0 + (n - min (cap b - s) n)}"
    by blast
  have "gap_set b'' = gap_set b - ({s..<s + min (cap b - s) n} \<union> {0..<0 + (n - min (cap b - s) n)})"
    using b'(4) b''(4) by blast
  then show ?thesis
    using b' b'' unfolding ring_region [OF assms(2,3)] by auto
qed

end

interpretation bitmap_gaps: gap_map mark_region unmark_region search_next_gap bm_capacity gaps bitmap_ok
  by unfold_locales (simp_all only: mark_region_gaps unmark_region_gaps search_next_gap_run)

text \<open>
  Claim C12: a bitmap of a capacity is a set of positions below it. On a region inside of the capacity the three
  operations return, so that no word outside of the vector is read or written (each would be a panic): marking the
  region adds exactly its positions, unmarking removes exactly them, a search gives the first run of marked positions in
  the region at its full length. The emptiness flag stays exact.
\<close>

theorem bitmap_refines_set:
  assumes "bitmap_ok b" and "start + len \<le> bm_capacity b"
  shows "(\<exists>b'. mark_region start len b = Inr b' \<and> bitmap_ok b' \<and> bm_capacity b' = bm_capacity b \<and>
        gaps b' = gaps b \<union> {start..<start + len}) \<and>
    (\<exists>b'. unmark_region start len b = Inr b' \<and> bitmap_ok b' \<and> bm_capacity b' = bm_capacity b \<and>
        gaps b' = gaps b - {start..<start + len}) \<and>
    search_next_gap start len b = Inr (first_run (gaps b) start (start + len))"
  using bitmap_gaps.mark [OF assms] bitmap_gaps.unmark [OF assms] bitmap_gaps.search [OF assms] by blast

text \<open>A run over two words, to the end of the capacity, and what a search finds of it.\<close>

lemma bitmap_refines_set_witness:
  "\<exists>b. mark_region 60 68 (bitmap_new 128) = Inr b \<and> gaps b = {60..<128} \<and> \<not> bm_empty b \<and>
    search_next_gap 3 125 b = Inr (first_run {60..<128} 3 128)"
proof -
  obtain b where b: "mark_region 60 68 (bitmap_new 128) = Inr b" "bitmap_ok b" "bm_capacity b = 128" "gaps b = {60..<128}"
    using bitmap_refines_set [of "bitmap_new 128" 60 68] by (auto simp: bitmap_new_ok)
  then show ?thesis
    using bitmap_refines_set [of b 3 125] by (simp add: bitmap_ok_def)
qed

end
