(* ===== verification/Ring_Buffer.thy ===== *)
theory Ring_Buffer
  imports Bitmap
begin

text \<open>
  \<open>carplay/catplay_ring/src/ring_buffer.rs\<close> and the vector storage of \<open>ring_storage.rs\<close>: the
  single-producer single-consumer ring of audio samples over a monotonic timeline, one operation
  at a time. The storage is \<open>RingStorage::MirroredVec\<close>, twice the capacity long, whose two halves
  \<open>sync_mirror_range\<close> keeps equal; the other variant has the halves mapped to the same memory
  by the kernel and is not modelled. The heads are natural numbers: on 64 bits they would wrap
  after \<open>2^64\<close> samples. \<open>T::default()\<close> is the argument \<open>dflt\<close>.

  The abstract view is the whole timeline, a list with an entry per sample time, \<open>None\<close> for a
  gap, of which the ring keeps the last \<open>capacity\<close> entries (\<open>ring_holds\<close>).
\<close>

section \<open>The ring\<close>

record 'a ring_buffer =
  rb_ring :: "'a list"
  rb_capacity :: usize
  rb_write_head :: usize
  rb_read_head :: usize
  rb_mask :: usize
  rb_gaps :: bitmap

datatype 'a ring_segment = Data "'a list" | Gap usize | Overflow usize | Underflow usize

fun segment_len :: "'a ring_segment \<Rightarrow> usize" where
  "segment_len (Data d) = length d"
| "segment_len (Gap n) = n"
| "segment_len (Overflow n) = n"
| "segment_len (Underflow n) = n"

text \<open>\<open>usize::next_power_of_two\<close>.\<close>

fun next_power_of_two :: "usize \<Rightarrow> usize" where
  "next_power_of_two n = (if n \<le> 1 then 1 else 2 * next_power_of_two ((n + 1) div 2))"

declare next_power_of_two.simps [simp del]

definition logical_to_ring_index :: "'a ring_buffer \<Rightarrow> usize \<Rightarrow> usize" where
  "logical_to_ring_index r logical = logical AND rb_mask r"

definition ring_storage_new :: "'a \<Rightarrow> usize \<Rightarrow> 'a list" where
  "ring_storage_new dflt capacity = replicate (capacity * 2) dflt"

definition new_unsplit :: "'a \<Rightarrow> usize \<Rightarrow> panic + 'a ring_buffer" where
  "new_unsplit dflt sz =
     (let sz = max (next_power_of_two sz) 1
      in if \<not> 0 < sz then Inl (Explicit_Panic ''size > 0'')
         else Inr \<lparr>rb_ring = ring_storage_new dflt sz, rb_capacity = sz, rb_write_head = 0,
           rb_read_head = 0, rb_mask = sz - 1, rb_gaps = bitmap_new sz\<rparr>)"

text \<open>\<open>sync_mirror_range\<close> of the vector storage: \<open>split_at_mut\<close> and the two copies.\<close>

definition sync_mirror_range :: "usize \<Rightarrow> usize \<Rightarrow> usize \<Rightarrow> 'a list \<Rightarrow> panic + 'a list" where
  "sync_mirror_range cap head written_phys ring =
     (if length ring < cap then Inl Index_Out_Of_Bounds else
      let base = take cap ring;
          mirror = drop cap ring;
          start = head;
          fin = head + written_phys;
          b_start = min start cap;
          b_end = min fin cap;
          m_start = max start cap;
          m_end = min fin (2 * cap)
      in sum_bind
           (if b_start < b_end then
              sum_bind (sub_slice base b_start b_end) (\<lambda>src. copy_into mirror b_start b_end src)
            else Inr mirror) (\<lambda>mirror.
         sum_bind
           (if m_start < m_end then
              sum_bind (sub_slice mirror (m_start - cap) (m_end - cap))
                (\<lambda>src. copy_into base (m_start - cap) (m_end - cap) src)
            else Inr base) (\<lambda>base.
         Inr (base @ mirror))))"

text \<open>
  \<open>mmap_aligned_capacity\<close> and \<open>spsc\<close>: the capacity rounded up to whole pages. The size of an element
  and the page size of the system (\<open>None\<close> when \<open>sysconf\<close> fails) are arguments.
\<close>

fun gcd_usize :: "usize \<Rightarrow> usize \<Rightarrow> usize" where
  "gcd_usize a b = (if b \<noteq> 0 then gcd_usize b (a mod b) else a)"

declare gcd_usize.simps [simp del]

definition mmap_aligned_capacity :: "usize \<Rightarrow> usize option \<Rightarrow> usize \<Rightarrow> usize option" where
  "mmap_aligned_capacity elem_size page_size capacity =
     (if capacity = 0 \<or> elem_size = 0 then None
      else Option.bind page_size (\<lambda>page_size.
        let elems_per_page = page_size div gcd_usize elem_size page_size
        in Some (max capacity elems_per_page)))"

definition spsc :: "'a \<Rightarrow> usize \<Rightarrow> usize option \<Rightarrow> usize \<Rightarrow> panic + 'a ring_buffer" where
  "spsc dflt elem_size page_size sz =
     (let sz = next_power_of_two (max sz 1);
          sz = (case mmap_aligned_capacity elem_size page_size sz of Some aligned \<Rightarrow> aligned | None \<Rightarrow> sz)
      in new_unsplit dflt sz)"

subsection \<open>Reading\<close>

text \<open>The search of the logical timeline, which joins the gaps on both sides of the bitmap's end.\<close>

definition search_gap_abs :: "'a ring_buffer \<Rightarrow> usize \<Rightarrow> usize \<Rightarrow> panic + (usize \<times> usize) option" where
  "search_gap_abs r start_abs len =
     (let cap = rb_capacity r;
          start = logical_to_ring_index r start_abs;
          first_len = min len (cap - start)
      in sum_bind (search_next_gap start first_len (rb_gaps r)) (\<lambda>found. case found of
           Some (gap_start, gap_len) \<Rightarrow>
             let abs_start = start_abs + (gap_start - start)
             in if gap_start + gap_len = cap \<and> len > first_len then
                  sum_bind (search_next_gap 0 (len - first_len) (rb_gaps r)) (\<lambda>next. case next of
                    Some (next_start, next_len) \<Rightarrow>
                      Inr (Some (abs_start, if next_start = 0 then gap_len + next_len else gap_len))
                  | None \<Rightarrow> Inr (Some (abs_start, gap_len)))
                else Inr (Some (abs_start, gap_len))
         | None \<Rightarrow>
             if len > first_len then
               sum_bind (search_next_gap 0 (len - first_len) (rb_gaps r)) (\<lambda>next. case next of
                 Some (gap_start, gap_len) \<Rightarrow> Inr (Some (start_abs + first_len + gap_start, gap_len))
               | None \<Rightarrow> Inr None)
             else Inr None))"

record ring_segments =
  sg_cursor :: usize
  sg_overflow :: usize
  sg_readable :: usize
  sg_underflow :: usize
  sg_consumed :: usize

definition iter_segments :: "'a ring_buffer \<Rightarrow> usize \<Rightarrow> bool \<Rightarrow> ring_segments" where
  "iter_segments r requested emit_underflow =
     (let rd = rb_read_head r;
          wr = rb_write_head r;
          overflow = min (wr - rb_capacity r - rd) requested;
          cursor = rd + overflow;
          remaining = requested - overflow;
          readable = min (min (wr - cursor) (rb_capacity r)) remaining
      in \<lparr>sg_cursor = cursor, sg_overflow = overflow, sg_readable = readable,
          sg_underflow = (if emit_underflow then remaining - readable else 0), sg_consumed = 0\<rparr>)"

text \<open>\<open>Iterator::next\<close>: the segment and the iterator after it.\<close>

definition segments_next ::
    "'a ring_buffer \<Rightarrow> ring_segments \<Rightarrow> panic + 'a ring_segment option \<times> ring_segments" where
  "segments_next r s =
     (let consume = \<lambda>segment s. Inr (Some segment, s\<lparr>sg_consumed := sg_consumed s + segment_len segment\<rparr>)
      in if sg_overflow s > 0 then
           consume (Overflow (sg_overflow s)) (s\<lparr>sg_overflow := 0\<rparr>)
         else if sg_readable s > 0 then
           sum_bind (search_gap_abs r (sg_cursor s) (sg_readable s)) (\<lambda>gap.
             let data = \<lambda>len. sum_bind
               (let head = logical_to_ring_index r (sg_cursor s) in sub_slice (rb_ring r) head (head + len))
               (\<lambda>d. Inr (Data d))
             in sum_bind
               (case gap of
                  Some (start, len) \<Rightarrow>
                    if start = sg_cursor s then Inr (Gap len) else data (start - sg_cursor s)
                | None \<Rightarrow> data (sg_readable s)) (\<lambda>segment.
             consume segment
               (s\<lparr>sg_cursor := sg_cursor s + segment_len segment,
                  sg_readable := sg_readable s - segment_len segment\<rparr>)))
         else if sg_underflow s > 0 then
           consume (Underflow (sg_underflow s)) (s\<lparr>sg_underflow := 0\<rparr>)
         else Inr (None, s))"

definition read_commit :: "usize \<Rightarrow> 'a ring_buffer \<Rightarrow> 'a ring_buffer" where
  "read_commit n r = (if n = 0 then r else r\<lparr>rb_read_head := rb_read_head r + n\<rparr>)"

text \<open>Dropping the iterator commits what it yielded.\<close>

definition segments_drop :: "ring_segments \<Rightarrow> 'a ring_buffer \<Rightarrow> 'a ring_buffer" where
  "segments_drop s r = read_commit (sg_consumed s) r"

text \<open>\<open>for_each\<close>: the segments up to the first \<open>None\<close>.\<close>

partial_function (option) collect_segments ::
    "'a ring_buffer \<Rightarrow> ring_segments \<Rightarrow> (panic + 'a ring_segment list \<times> ring_segments) option" where
  "collect_segments r s =
     (case segments_next r s of
        Inl p \<Rightarrow> Some (Inl p)
      | Inr (None, s') \<Rightarrow> Some (Inr ([], s'))
      | Inr (Some segment, s') \<Rightarrow>
          Option.bind (collect_segments r s') (\<lambda>rest.
            Some (sum_bind rest (\<lambda>(segments, s''). Inr (segment # segments, s'')))))"

declare collect_segments.simps [code]

definition read_segments ::
    "'a ring_buffer \<Rightarrow> usize \<Rightarrow> bool \<Rightarrow> (panic + 'a ring_segment list \<times> 'a ring_buffer) option" where
  "read_segments r requested emit_underflow =
     map_option (\<lambda>res. sum_bind res (\<lambda>(segments, s). Inr (segments, segments_drop s r)))
       (collect_segments r (iter_segments r requested emit_underflow))"

text \<open>\<open>read\<close>: the closure's locals, and its four arms.\<close>

record 'a read_state =
  rd_out :: "'a list"
  rd_copied :: usize
  rd_overflow :: usize
  rd_underflow :: usize
  rd_cursor :: usize

fun read_emit :: "'a ring_segment \<Rightarrow> 'a read_state \<Rightarrow> panic + 'a read_state" where
  "read_emit (Data d) s =
     sum_bind (copy_into (rd_out s) (rd_cursor s) (rd_cursor s + length d) d) (\<lambda>out.
     Inr (s\<lparr>rd_out := out, rd_copied := rd_copied s + length d, rd_cursor := rd_cursor s + length d\<rparr>))"
| "read_emit (Overflow n) s =
     Inr (s\<lparr>rd_overflow := rd_overflow s + n, rd_cursor := rd_cursor s + n\<rparr>)"
| "read_emit (Gap n) s =
     Inr (s\<lparr>rd_underflow := rd_underflow s + n, rd_cursor := rd_cursor s + n\<rparr>)"
| "read_emit (Underflow n) s =
     Inr (s\<lparr>rd_underflow := rd_underflow s + n, rd_cursor := rd_cursor s + n\<rparr>)"

fun read_emit_all :: "'a ring_segment list \<Rightarrow> 'a read_state \<Rightarrow> panic + 'a read_state" where
  "read_emit_all [] s = Inr s"
| "read_emit_all (g # gs) s = sum_bind (read_emit g s) (read_emit_all gs)"

record xrun_report =
  xr_overflow :: usize
  xr_copied :: usize
  xr_underflow :: usize

text \<open>The result, the output slice and the ring; \<open>None\<close> if the iteration did not end.\<close>

definition ring_read ::
    "'a list \<Rightarrow> 'a ring_buffer \<Rightarrow> (panic + (xrun_report + unit) \<times> 'a list \<times> 'a ring_buffer) option" where
  "ring_read out r =
     (let requested = length out
      in if requested = 0 then Some (Inr (Inr (), out, r))
         else map_option (\<lambda>res. sum_bind res (\<lambda>(segments, r').
           sum_bind (read_emit_all segments
             \<lparr>rd_out = out, rd_copied = 0, rd_overflow = 0, rd_underflow = 0, rd_cursor = 0\<rparr>) (\<lambda>s.
           Inr (if rd_overflow s = 0 \<and> rd_underflow s = 0 then Inr ()
                else Inl \<lparr>xr_overflow = rd_overflow s, xr_copied = rd_copied s,
                  xr_underflow = rd_underflow s\<rparr>, rd_out s, r'))))
           (read_segments r requested True))"

text \<open>
  \<open>zero_fill_overflow_and_underflow\<close>: the two slices of the report, set to zero.
\<close>

definition fill_slice :: "'a \<Rightarrow> usize \<Rightarrow> usize \<Rightarrow> 'a list \<Rightarrow> panic + 'a list" where
  "fill_slice zero a b out = copy_into out a b (replicate (b - a) zero)"

definition zero_fill_overflow_and_underflow :: "'a \<Rightarrow> xrun_report \<Rightarrow> 'a list \<Rightarrow> panic + 'a list" where
  "zero_fill_overflow_and_underflow zero x out =
     sum_bind (fill_slice zero 0 (xr_overflow x) out) (\<lambda>out.
     fill_slice zero (xr_overflow x + xr_copied x) (xr_overflow x + xr_copied x + xr_underflow x) out)"

definition readable_slice :: "'a ring_buffer \<Rightarrow> panic + usize \<times> 'a list" where
  "readable_slice r =
     (let rd = rb_read_head r;
          wr = rb_write_head r;
          overflow = wr - rb_capacity r - rd;
          available = wr - (rd + overflow)
      in if available = 0 then Inr (overflow, [])
         else
           let to_read = min available (rb_capacity r);
               head = logical_to_ring_index r (rd + overflow)
           in sum_bind (sub_slice (rb_ring r) head (head + to_read)) (\<lambda>slice. Inr (overflow, slice)))"

definition peek_overflow :: "'a ring_buffer \<Rightarrow> usize" where
  "peek_overflow r = rb_write_head r - rb_capacity r - rb_read_head r"

record ring_stats =
  rs_capacity :: usize
  rs_written :: usize
  rs_consumed :: usize
  rs_readable :: usize
  rs_overflow :: usize
  rs_underflow :: usize

definition ring_stat :: "'a ring_buffer \<Rightarrow> ring_stats" where
  "ring_stat r =
     (let consumed = rb_read_head r; written = rb_write_head r
      in \<lparr>rs_capacity = rb_capacity r, rs_written = written, rs_consumed = consumed,
          rs_readable = written - consumed, rs_overflow = written - rb_capacity r - consumed,
          rs_underflow = consumed - written\<rparr>)"

subsection \<open>Writing\<close>

text \<open>
  \<open>writable_slice\<close> borrows \<open>capacity\<close> elements of the storage; the model returns where they
  begin, and \<open>fill_writable\<close> stores into the first of them.
\<close>

definition writable_slice :: "'a ring_buffer \<Rightarrow> panic + usize" where
  "writable_slice r =
     (let head = logical_to_ring_index r (rb_write_head r)
      in if head + rb_capacity r \<le> length (rb_ring r) then Inr head else Inl Index_Out_Of_Bounds)"

definition fill_writable :: "'a list \<Rightarrow> 'a ring_buffer \<Rightarrow> panic + 'a ring_buffer" where
  "fill_writable src r =
     sum_bind (writable_slice r) (\<lambda>head.
     if length src \<le> rb_capacity r then
       sum_bind (copy_into (rb_ring r) head (head + length src) src) (\<lambda>ring. Inr (r\<lparr>rb_ring := ring\<rparr>))
     else Inl Index_Out_Of_Bounds)"

definition write_commit_advance :: "usize \<Rightarrow> usize \<Rightarrow> 'a ring_buffer \<Rightarrow> panic + 'a ring_buffer" where
  "write_commit_advance written_phys advance r =
     (let cap = rb_capacity r
      in if \<not> written_phys \<le> cap then Inl (Explicit_Panic ''written_phys <= cap'')
         else
           let head = logical_to_ring_index r (rb_write_head r)
           in sum_bind
                (if written_phys > 0 then sync_mirror_range cap head written_phys (rb_ring r)
                 else Inr (rb_ring r)) (\<lambda>ring.
              let first_len = min (cap - head) written_phys;
                  second_len = written_phys - first_len
              in sum_bind (unmark_region head first_len (rb_gaps r)) (\<lambda>gaps.
                 sum_bind (unmark_region 0 second_len gaps) (\<lambda>gaps.
                 Inr (r\<lparr>rb_ring := ring, rb_gaps := gaps,
                        rb_write_head := rb_write_head r + advance\<rparr>)))))"

definition write_commit :: "usize \<Rightarrow> 'a ring_buffer \<Rightarrow> panic + 'a ring_buffer" where
  "write_commit written r = write_commit_advance written written r"

datatype write_report = Write_Ok | Partial usize

definition ring_write :: "'a list \<Rightarrow> 'a ring_buffer \<Rightarrow> panic + write_report \<times> 'a ring_buffer" where
  "ring_write input r =
     (let cap = rb_capacity r;
          total = length input
      in if total = 0 then Inr (Write_Ok, r)
         else
           let phys = min total cap;
               src = drop (total - phys) input
           in sum_bind (fill_writable src r) (\<lambda>r.
              sum_bind (write_commit_advance phys total r) (\<lambda>r.
              Inr (if phys < total then Partial phys else Write_Ok, r))))"

definition write_default :: "'a \<Rightarrow> usize \<Rightarrow> 'a ring_buffer \<Rightarrow> panic + 'a ring_buffer" where
  "write_default dflt repeat r =
     (if repeat = 0 then Inr r
      else
        let written_phys = min repeat (rb_capacity r)
        in sum_bind (fill_writable (replicate written_phys dflt) r)
             (write_commit_advance written_phys repeat))"

definition advance_timeline :: "usize \<Rightarrow> 'a ring_buffer \<Rightarrow> panic + 'a ring_buffer" where
  "advance_timeline n r =
     (if n = 0 then Inr r
      else
        let cap = rb_capacity r;
            mark = min n cap;
            start = logical_to_ring_index r (rb_write_head r);
            first_len = min (cap - start) mark;
            second_len = mark - first_len
        in sum_bind (mark_region start first_len (rb_gaps r)) (\<lambda>gaps.
           sum_bind (mark_region 0 second_len gaps) (\<lambda>gaps.
           write_commit_advance 0 n (r\<lparr>rb_gaps := gaps\<rparr>))))"

section \<open>The timeline\<close>

definition ring_ok :: "'a ring_buffer \<Rightarrow> bool" where
  "ring_ok r \<longleftrightarrow>
     (\<exists>k. rb_capacity r = 2 ^ k) \<and> rb_mask r = rb_capacity r - 1 \<and>
     length (rb_ring r) = 2 * rb_capacity r \<and>
     drop (rb_capacity r) (rb_ring r) = take (rb_capacity r) (rb_ring r) \<and>
     bitmap_ok (rb_gaps r) \<and> bm_capacity (rb_gaps r) = rb_capacity r"

text \<open>The ring represents the end of a timeline: each recent time has its sample or its gap mark.\<close>

definition slot_holds :: "'a ring_buffer \<Rightarrow> nat \<Rightarrow> 'a option \<Rightarrow> bool" where
  "slot_holds r i entry \<longleftrightarrow>
     (case entry of None \<Rightarrow> i \<in> gaps (rb_gaps r) | Some x \<Rightarrow> i \<notin> gaps (rb_gaps r) \<and> rb_ring r ! i = x)"

definition ring_holds :: "'a ring_buffer \<Rightarrow> 'a option list \<Rightarrow> bool" where
  "ring_holds r hist \<longleftrightarrow>
     ring_ok r \<and> length hist = rb_write_head r \<and>
     (\<forall>t. t < rb_write_head r \<longrightarrow> rb_write_head r \<le> t + rb_capacity r \<longrightarrow>
        slot_holds r (t mod rb_capacity r) (hist ! t))"

text \<open>What the reader of the timeline is to see of a time.\<close>

datatype 'a tick = Sample 'a | Hole | Lost | Missing

definition tick_at :: "'a option list \<Rightarrow> usize \<Rightarrow> nat \<Rightarrow> 'a tick" where
  "tick_at hist cap t =
     (if length hist \<le> t then Missing
      else if t + cap < length hist then Lost
      else case hist ! t of Some x \<Rightarrow> Sample x | None \<Rightarrow> Hole)"

fun expand :: "'a ring_segment \<Rightarrow> 'a tick list" where
  "expand (Data d) = map Sample d"
| "expand (Gap n) = replicate n Hole"
| "expand (Overflow n) = replicate n Lost"
| "expand (Underflow n) = replicate n Missing"

fun same_kind :: "'a ring_segment \<Rightarrow> 'a ring_segment \<Rightarrow> bool" where
  "same_kind (Data _) (Data _) = True"
| "same_kind (Gap _) (Gap _) = True"
| "same_kind (Overflow _) (Overflow _) = True"
| "same_kind (Underflow _) (Underflow _) = True"
| "same_kind _ _ = False"

text \<open>Segments that are not empty, no two neighbours of the same kind: each is as long as it can be.\<close>

definition maximal_segments :: "'a ring_segment list \<Rightarrow> bool" where
  "maximal_segments gs \<longleftrightarrow>
     (\<forall>g\<in>set gs. 0 < segment_len g) \<and> successively (\<lambda>a b. \<not> same_kind a b) gs"

lemma logical_index:
  assumes "ring_ok r"
  shows "logical_to_ring_index r t = t mod rb_capacity r"
proof -
  obtain k where k: "rb_capacity r = 2 ^ k"
    using assms by (auto simp: ring_ok_def)
  then have "logical_to_ring_index r t = t AND mask k"
    using assms by (simp add: logical_to_ring_index_def ring_ok_def mask_eq_exp_minus_1)
  then show ?thesis
    using k by (simp add: take_bit_eq_mod flip: take_bit_eq_mask)
qed

lemma ring_ok_pos: "ring_ok r \<Longrightarrow> 0 < rb_capacity r"
  by (auto simp: ring_ok_def)

lemma next_power_of_two: "n \<le> next_power_of_two n \<and> (\<exists>k. next_power_of_two n = 2 ^ k)"
proof (induction n rule: next_power_of_two.induct)
  case (1 n)
  show ?case
  proof (cases "n \<le> 1")
    case False
    from 1 [OF False] obtain k where "(n + 1) div 2 \<le> next_power_of_two ((n + 1) div 2)"
      "next_power_of_two ((n + 1) div 2) = 2 ^ k" by blast
    moreover from this have "next_power_of_two n = 2 ^ Suc k"
      using False by (subst next_power_of_two.simps) simp
    ultimately show ?thesis
      by (auto intro!: exI [of _ "Suc k"])
  qed (simp add: next_power_of_two.simps exI [of _ 0])
qed

lemma new_unsplit_holds:
  "\<exists>r. new_unsplit dflt n = Inr r \<and> ring_holds r [] \<and> n \<le> rb_capacity r \<and> rb_read_head r = 0"
proof -
  obtain k where k: "next_power_of_two n = 2 ^ k" and n: "n \<le> next_power_of_two n"
    using next_power_of_two [of n] by blast
  have "max (next_power_of_two n) 1 = 2 ^ k"
    using k by (simp add: max_absorb1)
  then show ?thesis
    using n k by (auto simp: new_unsplit_def ring_holds_def ring_ok_def ring_storage_new_def bitmap_new_ok Let_def)
qed

section \<open>Searching the timeline for gaps\<close>

text \<open>Runs by their offset in the region.\<close>

lemma first_run_None_off: "first_run S t (t + n) = None \<longleftrightarrow> (\<forall>j<n. t + j \<notin> S)"
  unfolding first_run_None by (metis le_add1 le_iff_add nat_add_left_cancel_less)

lemma first_run_Some_off:
  assumes "0 < l" and "d + l \<le> n" and "\<forall>j<d. t + j \<notin> S" and "\<forall>j. d \<le> j \<longrightarrow> j < d + l \<longrightarrow> t + j \<in> S"
    and "d + l < n \<longrightarrow> t + (d + l) \<notin> S"
  shows "first_run S t (t + n) = Some (t + d, l)"
proof (rule first_run_Some)
  show "\<forall>i. t \<le> i \<longrightarrow> i < t + d \<longrightarrow> i \<notin> S"
    using assms(3) by (metis le_iff_add nat_add_left_cancel_less)
  show "\<forall>i. t + d \<le> i \<longrightarrow> i < t + d + l \<longrightarrow> i \<in> S"
  proof (intro allI impI)
    fix i assume "t + d \<le> i" "i < t + d + l"
    then show "i \<in> S"
      using assms(4) [rule_format, of "i - t"] by simp
  qed
qed (use assms in \<open>simp_all add: add.assoc\<close>)

lemma first_run_Some_offD:
  assumes "first_run S t (t + n) = Some (g, l)"
  obtains d where "g = t + d" "0 < l" "d + l \<le> n" "\<forall>j<d. t + j \<notin> S"
    "\<forall>j. d \<le> j \<longrightarrow> j < d + l \<longrightarrow> t + j \<in> S" "d + l < n \<longrightarrow> t + (d + l) \<notin> S"
proof -
  have f: "find (\<lambda>i. i \<in> S) [t..<t + n] = Some g" and l: "l = length (takeWhile (\<lambda>j. j \<in> S) [g..<t + n])"
    using assms by (auto simp: first_run_def split: option.splits)
  obtain d where d: "d < n" "g = t + d" "t + d \<in> S" "\<forall>j<d. t + j \<notin> S"
    using f by (auto simp: find_Some_iff)
  let ?w = "takeWhile (\<lambda>j. j \<in> S) [g..<t + n]"
  have len: "length ?w \<le> n - d"
    using length_takeWhile_le [of "\<lambda>j. j \<in> S" "[g..<t + n]"] d by simp
  have pos: "0 < l"
    using d by (simp add: l upt_conv_Cons)
  have inside: "t + j \<in> S" if "d \<le> j" "j < d + l" for j
  proof -
    have "j - d < length ?w"
      using that l by simp
    moreover from this have "?w ! (j - d) = t + j"
      using takeWhile_nth [of "j - d" "\<lambda>j. j \<in> S"] that d len by simp
    ultimately show ?thesis
      using nth_mem [of "j - d" ?w] set_takeWhileD by metis
  qed
  have after: "t + (d + l) \<notin> S" if "d + l < n"
    using nth_length_takeWhile [of "\<lambda>j. j \<in> S" "[g..<t + n]"] that d l by (simp add: add.assoc)
  show thesis
    using that [of d] d(2,4) pos len l inside after d(1) by (simp add: le_diff_conv add.commute)
qed

text \<open>The two searches of the bitmap, joined at its end, are one search of the ring.\<close>

lemma join_runs:
  fixes T G :: "nat set"
  assumes one_all: "\<forall>j<f. t + j \<in> T \<longleftrightarrow> s + j \<in> G"
    and two_all: "\<forall>j. f + j < n \<longrightarrow> (t + (f + j) \<in> T \<longleftrightarrow> j \<in> G)" and f: "f \<le> n"
  shows "first_run G s (s + f) = Some (g, l) \<Longrightarrow> \<not> (g + l = s + f \<and> f < n) \<Longrightarrow>
      first_run T t (t + n) = Some (t + (g - s), l)"
    and "first_run G s (s + f) = Some (g, l) \<Longrightarrow> g + l = s + f \<Longrightarrow> f < n \<Longrightarrow> first_run G 0 (0 + (n - f)) = None \<Longrightarrow>
      first_run T t (t + n) = Some (t + (g - s), l)"
    and "first_run G s (s + f) = Some (g, l) \<Longrightarrow> g + l = s + f \<Longrightarrow> f < n \<Longrightarrow> first_run G 0 (0 + (n - f)) = Some (g', l') \<Longrightarrow>
      first_run T t (t + n) = Some (t + (g - s), if g' = 0 then l + l' else l)"
    and "first_run G s (s + f) = None \<Longrightarrow> f < n \<Longrightarrow> first_run G 0 (0 + (n - f)) = Some (g', l') \<Longrightarrow>
      first_run T t (t + n) = Some (t + f + g', l')"
    and "first_run G s (s + f) = None \<Longrightarrow> f < n \<Longrightarrow> first_run G 0 (0 + (n - f)) = None \<Longrightarrow>
      first_run T t (t + n) = None"
    and "first_run G s (s + f) = None \<Longrightarrow> \<not> f < n \<Longrightarrow> first_run T t (t + n) = None"
proof -
  note one = one_all [rule_format] and two = two_all [rule_format]
  show "first_run T t (t + n) = None" if "first_run G s (s + f) = None" "\<not> f < n"
    using that f one by (simp add: first_run_None_off)
  show "first_run T t (t + n) = None"
    if "first_run G s (s + f) = None" "f < n" "first_run G 0 (0 + (n - f)) = None"
  proof -
    have "t + j \<notin> T" if "j < n" for j
      using that \<open>first_run G s (s + f) = None\<close> \<open>first_run G 0 (0 + (n - f)) = None\<close> one [of j] two [of "j - f"]
      unfolding first_run_None_off by (cases "j < f") simp_all
    then show ?thesis
      by (simp add: first_run_None_off)
  qed
  show "first_run T t (t + n) = Some (t + f + g', l')"
    if none: "first_run G s (s + f) = None" and "f < n" and some: "first_run G 0 (0 + (n - f)) = Some (g', l')"
  proof -
    have "first_run T t (t + n) = Some (t + (f + g'), l')"
      using some
    proof (rule first_run_Some_offD)
      fix d
      assume d: "g' = 0 + d" "0 < l'" "d + l' \<le> n - f" "\<forall>j<d. 0 + j \<notin> G"
        "\<forall>j. d \<le> j \<longrightarrow> j < d + l' \<longrightarrow> 0 + j \<in> G" "d + l' < n - f \<longrightarrow> 0 + (d + l') \<notin> G"
      have "t + j \<notin> T" if "j < f + g'" for j
        using that none d one [of j] two [of "j - f"] unfolding first_run_None_off
        by (cases "j < f") simp_all
      moreover have "t + j \<in> T" if "f + g' \<le> j" "j < f + g' + l'" for j
        using that d two [of "j - f"] by simp
      moreover have "t + (f + g' + l') \<notin> T" if "f + g' + l' < n"
        using that d two [of "g' + l'"] by (simp add: add.assoc)
      ultimately show ?thesis
        using d by (intro first_run_Some_off) simp_all
    qed
    then show ?thesis
      by (simp add: add.assoc)
  qed
  assume some: "first_run G s (s + f) = Some (g, l)"
  then obtain d where d: "g = s + d" "0 < l" "d + l \<le> f" "\<forall>j<d. s + j \<notin> G"
    "\<forall>j. d \<le> j \<longrightarrow> j < d + l \<longrightarrow> s + j \<in> G" "d + l < f \<longrightarrow> s + (d + l) \<notin> G"
    by (rule first_run_Some_offD)
  have before: "\<forall>j<d. t + j \<notin> T" and run: "\<forall>j. d \<le> j \<longrightarrow> j < d + l \<longrightarrow> t + j \<in> T"
    using d one by simp_all
  show "first_run T t (t + n) = Some (t + (g - s), l)" if "\<not> (g + l = s + f \<and> f < n)"
  proof -
    have "t + (d + l) \<notin> T" if "d + l < n"
      using that \<open>\<not> (g + l = s + f \<and> f < n)\<close> d one [of "d + l"] f by (cases "d + l < f") simp_all
    then show ?thesis
      using d before run f by (simp add: first_run_Some_off)
  qed
  assume end_: "g + l = s + f" "f < n"
  then have dl: "d + l = f"
    using d(1) by simp
  have stop: "first_run T t (t + n) = Some (t + (g - s), l)" if "0 \<notin> G"
  proof -
    have "t + (d + l) \<notin> T"
      using two [of 0] that dl end_(2) by simp
    then show ?thesis
      using d before run f by (simp add: first_run_Some_off)
  qed
  show "first_run T t (t + n) = Some (t + (g - s), l)" if "first_run G 0 (0 + (n - f)) = None"
    using that end_(2) unfolding first_run_None_off by (intro stop) simp
  show "first_run T t (t + n) = Some (t + (g - s), if g' = 0 then l + l' else l)"
    if "first_run G 0 (0 + (n - f)) = Some (g', l')"
    using that
  proof (rule first_run_Some_offD)
    fix e
    assume e: "g' = 0 + e" "0 < l'" "e + l' \<le> n - f" "\<forall>j<e. 0 + j \<notin> G"
      "\<forall>j. e \<le> j \<longrightarrow> j < e + l' \<longrightarrow> 0 + j \<in> G" "e + l' < n - f \<longrightarrow> 0 + (e + l') \<notin> G"
    show ?thesis
    proof (cases "g' = 0")
      case True
      have "t + j \<in> T" if "d \<le> j" "j < d + (l + l')" for j
        using that run e True dl two [of "j - f"] by (cases "j < f") simp_all
      moreover have "t + (d + (l + l')) \<notin> T" if "d + (l + l') < n"
        using that e True two [of l'] by (simp add: dl flip: add.assoc)
      ultimately have "first_run T t (t + n) = Some (t + d, l + l')"
        using before d(2) e(3) True dl end_(2) by (intro first_run_Some_off) simp_all
      then show ?thesis
        using True d(1) by simp
    next
      case False
      then show ?thesis
        using e by (simp add: stop)
    qed
  qed
qed

definition gap_times :: "'a ring_buffer \<Rightarrow> nat set" where
  "gap_times r = {t. t mod rb_capacity r \<in> gaps (rb_gaps r)}"

lemma search_gap_abs_run:
  assumes ok: "ring_ok r" and n: "n \<le> rb_capacity r"
  shows "search_gap_abs r t n = Inr (first_run (gap_times r) t (t + n))"
proof -
  let ?c = "rb_capacity r" and ?G = "gaps (rb_gaps r)"
  let ?s = "t mod ?c"
  let ?f = "min n (?c - ?s)"
  have pos: "0 < ?c" and bm: "bitmap_ok (rb_gaps r)" "bm_capacity (rb_gaps r) = ?c"
    using ok ring_ok_pos [OF ok] by (simp_all add: ring_ok_def)
  have s: "?s < ?c"
    using pos by simp
  have one: "\<forall>j<?f. t + j \<in> gap_times r \<longleftrightarrow> ?s + j \<in> ?G"
  proof (intro allI impI)
    fix j assume that: "j < ?f"
    have "(t + j) mod ?c = (?s + j) mod ?c"
      by (simp add: mod_simps)
    then show "t + j \<in> gap_times r \<longleftrightarrow> ?s + j \<in> ?G"
      using that by (simp add: gap_times_def)
  qed
  have two: "\<forall>j. ?f + j < n \<longrightarrow> (t + (?f + j) \<in> gap_times r \<longleftrightarrow> j \<in> ?G)"
  proof (intro allI impI)
    fix j assume that: "?f + j < n"
    have f: "?f = ?c - ?s"
      using that by linarith
    have "(t + (?c - ?s + j)) mod ?c = (?s + (?c - ?s + j)) mod ?c"
      by (simp add: mod_simps)
    also have "?s + (?c - ?s + j) = j + ?c"
      using s by linarith
    finally have "(t + (?c - ?s + j)) mod ?c = j"
      using that n by simp
    then show "t + (?f + j) \<in> gap_times r \<longleftrightarrow> j \<in> ?G"
      unfolding f by (simp add: gap_times_def)
  qed
  have first: "search_next_gap ?s ?f (rb_gaps r) = Inr (first_run ?G ?s (?s + ?f))"
    using bm s by (intro bitmap_gaps.search) simp_all
  have second: "search_next_gap 0 (n - ?f) (rb_gaps r) = Inr (first_run ?G 0 (0 + (n - ?f)))"
    using bm n by (intro bitmap_gaps.search) simp_all
  have edge: "?s + ?f = ?c" if "?f < n"
    using that s by linarith
  note join = join_runs [OF one two min.cobounded1]
  note eq = search_gap_abs_def Let_def logical_index [OF ok] first second sum_bind_simps
  show ?thesis
  proof (cases "first_run ?G ?s (?s + ?f)")
    case None
    show ?thesis
    proof (cases "?f < n")
      case True
      then show ?thesis
        unfolding eq None using join(4,5) [OF None True]
        by (cases "first_run ?G 0 (0 + (n - ?f))") (simp_all only: option.case prod.case if_True split_paired_all)
    next
      case False
      then show ?thesis
        unfolding eq None using join(6) [OF None False] by (simp only: option.case if_False)
    qed
  next
    case (Some p)
    obtain g l where p: "p = (g, l)" by fastforce
    note Some = Some [unfolded p]
    show ?thesis
    proof (cases "g + l = ?s + ?f \<and> ?f < n")
      case True
      then have c: "g + l = ?c \<and> ?f < n"
        using edge by simp
      show ?thesis
        unfolding eq Some using c join(2,3) [OF Some conjunct1 [OF True] conjunct2 [OF True]]
        by (cases "first_run ?G 0 (0 + (n - ?f))") (simp_all only: option.case prod.case simp_thms if_True split_paired_all)
    next
      case False
      then have c: "\<not> (g + l = ?c \<and> ?f < n)"
        using edge by auto
      show ?thesis
        unfolding eq Some using c join(1) [OF Some False] by (simp only: option.case prod.case if_False)
    qed
  qed
qed

section \<open>Iterating over segments\<close>

lemma ring_nth_mod:
  assumes "ring_ok r" and "i < 2 * rb_capacity r"
  shows "rb_ring r ! i = rb_ring r ! (i mod rb_capacity r)"
proof (cases "i < rb_capacity r")
  case False
  let ?c = "rb_capacity r"
  have halves: "drop ?c (rb_ring r) = take ?c (rb_ring r)" "length (rb_ring r) = 2 * ?c"
    using assms(1) by (simp_all add: ring_ok_def)
  have "rb_ring r ! i = drop ?c (rb_ring r) ! (i - ?c)"
    using False assms(2) halves(2) by simp
  also have "\<dots> = rb_ring r ! (i - ?c)"
    unfolding halves(1) using False assms(2) by simp
  also have "i - ?c = i mod ?c"
    using False assms(2) by (simp add: mod_if)
  finally show ?thesis .
qed simp

lemma ring_holdsD:
  assumes "ring_holds r hist"
  shows "ring_ok r" and "length hist = rb_write_head r" and "0 < rb_capacity r"
  using assms ring_ok_pos by (auto simp: ring_holds_def)

lemma tick_window:
  assumes "ring_holds r hist" and "t < rb_write_head r" and "rb_write_head r \<le> t + rb_capacity r"
  shows "tick_at hist (rb_capacity r) t =
    (if t \<in> gap_times r then Hole else Sample (rb_ring r ! (t mod rb_capacity r)))"
proof -
  have "slot_holds r (t mod rb_capacity r) (hist ! t)"
    using assms by (simp add: ring_holds_def)
  then show ?thesis
    using assms ring_holdsD(2) [OF assms(1)]
    by (auto simp: tick_at_def slot_holds_def gap_times_def split: option.splits)
qed

definition in_window :: "'a ring_buffer \<Rightarrow> ring_segments \<Rightarrow> bool" where
  "in_window r s \<longleftrightarrow> sg_overflow s = 0 \<and>
     (0 < sg_readable s \<longrightarrow> sg_cursor s + sg_readable s \<le> rb_write_head r \<and>
       rb_write_head r \<le> sg_cursor s + rb_capacity r)"

definition is_stored :: "'a ring_segment \<Rightarrow> bool" where
  "is_stored g \<longleftrightarrow> (case g of Data _ \<Rightarrow> True | Gap _ \<Rightarrow> True | _ \<Rightarrow> False)"

definition gap_first :: "'a ring_segment \<Rightarrow> bool" where
  "gap_first g \<longleftrightarrow> (case g of Gap _ \<Rightarrow> True | _ \<Rightarrow> False)"

lemma data_segment:
  assumes hist: "ring_holds r hist" and "t + n \<le> rb_write_head r" and "rb_write_head r \<le> t + rb_capacity r"
    and "\<forall>j<n. t + j \<notin> gap_times r"
  shows "\<exists>d. sub_slice (rb_ring r) (t mod rb_capacity r) (t mod rb_capacity r + n) = Inr d \<and> length d = n \<and>
    map Sample d = map (tick_at hist (rb_capacity r)) [t..<t + n]"
proof -
  let ?c = "rb_capacity r"
  note ok = ring_holdsD [OF hist]
  have len: "length (rb_ring r) = 2 * ?c"
    using ok(1) by (simp add: ring_ok_def)
  have lt: "t mod ?c < ?c"
    using ok(3) by simp
  have bound: "t mod ?c + n \<le> length (rb_ring r)"
    using assms(2,3) lt len by linarith
  let ?d = "take n (drop (t mod ?c) (rb_ring r))"
  have "map Sample ?d = map (tick_at hist ?c) [t..<t + n]"
  proof (rule nth_equalityI)
    fix j assume "j < length (map Sample ?d)"
    then have j: "j < n" by simp
    have "rb_ring r ! (t mod ?c + j) = rb_ring r ! ((t + j) mod ?c)"
      using ring_nth_mod [OF ok(1), of "t mod ?c + j"] j bound len by (simp add: mod_simps)
    then show "map Sample ?d ! j = map (tick_at hist ?c) [t..<t + n] ! j"
      using j bound assms(2-4) tick_window [OF hist, of "t + j"] by simp
  qed (use bound in simp)
  then show ?thesis
    using bound by (intro exI [of _ ?d]) simp
qed

lemma segments_next_window:
  assumes hist: "ring_holds r hist" and win: "in_window r s" and more: "0 < sg_readable s"
  shows "\<exists>g. segments_next r s = Inr (Some g, s\<lparr>sg_cursor := sg_cursor s + segment_len g,
        sg_readable := sg_readable s - segment_len g, sg_consumed := sg_consumed s + segment_len g\<rparr>) \<and>
    expand g = map (tick_at hist (rb_capacity r)) [sg_cursor s..<sg_cursor s + segment_len g] \<and>
    0 < segment_len g \<and> segment_len g \<le> sg_readable s \<and> is_stored g \<and>
    (gap_first g \<longleftrightarrow> sg_cursor s \<in> gap_times r) \<and>
    (segment_len g < sg_readable s \<longrightarrow>
      (sg_cursor s + segment_len g \<in> gap_times r \<longleftrightarrow> \<not> gap_first g))"
proof -
  let ?c = "rb_capacity r" and ?t = "sg_cursor s" and ?n = "sg_readable s"
  have bounds: "sg_overflow s = 0" "?t + ?n \<le> rb_write_head r" "rb_write_head r \<le> ?t + ?c"
    using win more by (simp_all add: in_window_def)
  note ok = ring_holdsD [OF hist]
  have search: "search_gap_abs r ?t ?n = Inr (first_run (gap_times r) ?t (?t + ?n))"
    using bounds by (intro search_gap_abs_run [OF ok(1)]) linarith
  note eq = segments_next_def Let_def search sum_bind_simps logical_index [OF ok(1)]
  have data: "\<exists>d. sub_slice (rb_ring r) (?t mod ?c) (?t mod ?c + k) = Inr d \<and> length d = k \<and>
      map Sample d = map (tick_at hist ?c) [?t..<?t + k]"
    if "k \<le> ?n" "\<forall>j<k. ?t + j \<notin> gap_times r" for k
    using that bounds by (intro data_segment [OF hist]) simp_all
  show ?thesis
  proof (cases "first_run (gap_times r) ?t (?t + ?n)")
    case None
    then have free: "\<forall>j<?n. ?t + j \<notin> gap_times r"
      by (simp add: first_run_None_off)
    obtain d where "sub_slice (rb_ring r) (?t mod ?c) (?t mod ?c + ?n) = Inr d" "length d = ?n"
      "map Sample d = map (tick_at hist ?c) [?t..<?t + ?n]"
      using data [OF le_refl free] by blast
    then show ?thesis
      using None more bounds(1) free [rule_format, of 0]
      by (intro exI [of _ "Data d"]) (simp add: eq is_stored_def gap_first_def)
  next
    case (Some p)
    then obtain g l where p: "first_run (gap_times r) ?t (?t + ?n) = Some (g, l)"
      by (cases p) simp
    then obtain d where d: "g = ?t + d" "0 < l" "d + l \<le> ?n" "\<forall>j<d. ?t + j \<notin> gap_times r"
      "\<forall>j. d \<le> j \<longrightarrow> j < d + l \<longrightarrow> ?t + j \<in> gap_times r" "d + l < ?n \<longrightarrow> ?t + (d + l) \<notin> gap_times r"
      by (rule first_run_Some_offD)
    show ?thesis
    proof (cases "d = 0")
      case True
      have "tick_at hist ?c t = Hole" if "t \<in> set [?t..<?t + l]" for t
        using that d(5) [rule_format, of "t - ?t"] d(3) True bounds tick_window [OF hist, of t] by auto
      then have "map (tick_at hist ?c) [?t..<?t + l] = map (\<lambda>_. Hole) [?t..<?t + l]"
        by (intro map_cong) simp_all
      then have "replicate l Hole = map (tick_at hist ?c) [?t..<?t + l]"
        by (simp add: map_replicate_const)
      then show ?thesis
        using p True d more bounds(1) d(5) [rule_format, of 0]
        by (intro exI [of _ "Gap l"]) (simp add: eq is_stored_def gap_first_def)
    next
      case False
      obtain xs where "sub_slice (rb_ring r) (?t mod ?c) (?t mod ?c + d) = Inr xs" "length xs = d"
        "map Sample xs = map (tick_at hist ?c) [?t..<?t + d]"
        using data [of d] d(3,4) by auto
      then show ?thesis
        using p False d more bounds(1) d(4) [rule_format, of 0] d(5) [rule_format, of d]
        by (intro exI [of _ "Data xs"]) (simp add: eq is_stored_def gap_first_def)
    qed
  qed
qed

lemma not_same_kind:
  "is_stored g \<Longrightarrow> is_stored h \<Longrightarrow> gap_first h \<longleftrightarrow> \<not> gap_first g \<Longrightarrow> \<not> same_kind g h"
  "is_stored g \<Longrightarrow> \<not> same_kind g (Underflow n)" "is_stored g \<Longrightarrow> \<not> same_kind (Overflow m) g"
  by (cases g; cases h; simp add: is_stored_def gap_first_def)+

lemma maximal_Cons:
  "maximal_segments (g # gs) \<longleftrightarrow>
    0 < segment_len g \<and> (gs = [] \<or> \<not> same_kind g (hd gs)) \<and> maximal_segments gs"
  by (auto simp: maximal_segments_def successively_Cons)

text \<open>The iterator from inside the window to its end.\<close>

lemma collect_window:
  assumes "ring_holds r hist" and "in_window r s"
  shows "\<exists>gs s'. collect_segments r s = Some (Inr (gs, s')) \<and>
    concat (map expand gs) = map (tick_at hist (rb_capacity r)) [sg_cursor s..<sg_cursor s + sg_readable s] @
      replicate (sg_underflow s) Missing \<and>
    maximal_segments gs \<and> sg_consumed s' = sg_consumed s + sg_readable s + sg_underflow s \<and>
    (gs \<noteq> [] \<longrightarrow> (if 0 < sg_readable s then is_stored (hd gs) \<and>
      (gap_first (hd gs) \<longleftrightarrow> sg_cursor s \<in> gap_times r) else \<exists>n. hd gs = Underflow n))"
  using assms(2)
proof (induction "sg_readable s" arbitrary: s rule: less_induct)
  case less
  have ov: "sg_overflow s = 0"
    using less(2) by (simp add: in_window_def)
  show ?case
  proof (cases "0 < sg_readable s")
    case True
    from segments_next_window [OF assms(1) less(2) True] obtain g where g:
      "segments_next r s = Inr (Some g, s\<lparr>sg_cursor := sg_cursor s + segment_len g,
        sg_readable := sg_readable s - segment_len g, sg_consumed := sg_consumed s + segment_len g\<rparr>)"
      "expand g = map (tick_at hist (rb_capacity r)) [sg_cursor s..<sg_cursor s + segment_len g]"
      "0 < segment_len g" "segment_len g \<le> sg_readable s" "is_stored g"
      "gap_first g \<longleftrightarrow> sg_cursor s \<in> gap_times r"
      "segment_len g < sg_readable s \<longrightarrow>
        (sg_cursor s + segment_len g \<in> gap_times r \<longleftrightarrow> \<not> gap_first g)"
      by blast
    let ?s = "s\<lparr>sg_cursor := sg_cursor s + segment_len g,
        sg_readable := sg_readable s - segment_len g, sg_consumed := sg_consumed s + segment_len g\<rparr>"
    have "in_window r ?s"
      using less(2) True g(4) by (auto simp: in_window_def)
    then obtain gs s' where IH: "collect_segments r ?s = Some (Inr (gs, s'))"
      "concat (map expand gs) = map (tick_at hist (rb_capacity r)) [sg_cursor ?s..<sg_cursor ?s + sg_readable ?s] @
        replicate (sg_underflow ?s) Missing"
      "maximal_segments gs" "sg_consumed s' = sg_consumed ?s + sg_readable ?s + sg_underflow ?s"
      "gs \<noteq> [] \<longrightarrow> (if 0 < sg_readable ?s then is_stored (hd gs) \<and>
        (gap_first (hd gs) \<longleftrightarrow> sg_cursor ?s \<in> gap_times r) else \<exists>n. hd gs = Underflow n)"
      using less(1) [of ?s] g(3) True by auto
    have run: "collect_segments r s = Some (Inr (g # gs, s'))"
      using IH(1) by (subst collect_segments.simps) (simp add: g(1))
    have range: "[sg_cursor s..<sg_cursor s + sg_readable s] =
        [sg_cursor s..<sg_cursor s + segment_len g] @ [sg_cursor ?s..<sg_cursor ?s + sg_readable ?s]"
      using g(4) upt_add_eq_append [of "sg_cursor s" "sg_cursor s + segment_len g" "sg_readable s - segment_len g"] by simp
    have "\<not> same_kind g (hd gs)" if "gs \<noteq> []"
    proof (cases "0 < sg_readable ?s")
      case True
      then show ?thesis
        using that IH(5) g(7) by (intro not_same_kind(1) [OF g(5)]) simp_all
    next
      case False
      then show ?thesis
        using that IH(5) not_same_kind(2) [OF g(5)] by auto
    qed
    then have "maximal_segments (g # gs)"
      using IH(3) g(3) by (auto simp: maximal_Cons)
    then show ?thesis
      using run range IH(2,4) g(2-6) True by (intro exI [of _ "g # gs"] exI [of _ s']) simp
  next
    case False
    then show ?thesis
      using ov by (cases "sg_underflow s = 0")
        (auto simp: collect_segments.simps segments_next_def maximal_segments_def Let_def)
  qed
qed

text \<open>What a call asks for: all of it, or what has been written when underflow is not emitted.\<close>

definition read_span :: "'a ring_buffer \<Rightarrow> usize \<Rightarrow> bool \<Rightarrow> usize" where
  "read_span r requested emit_underflow =
     (if emit_underflow then requested else min requested (rb_write_head r - rb_read_head r))"

lemma tick_at_Lost: "t + cap < length hist \<Longrightarrow> tick_at hist cap t = Lost"
  and tick_at_Missing: "length hist \<le> t \<Longrightarrow> tick_at hist cap t = Missing"
  by (simp_all add: tick_at_def)

lemma map_upt_const: "(\<And>t. a \<le> t \<Longrightarrow> t < a + n \<Longrightarrow> f t = c) \<Longrightarrow> map f [a..<a + n] = replicate n c"
proof -
  assume "\<And>t. a \<le> t \<Longrightarrow> t < a + n \<Longrightarrow> f t = c"
  then have "map f [a..<a + n] = map (\<lambda>_. c) [a..<a + n]"
    by (intro map_cong) simp_all
  then show ?thesis
    by (simp add: map_replicate_const)
qed

lemma iter_segments_facts:
  fixes r :: "'a ring_buffer" and requested emit_underflow
  assumes pos: "0 < rb_capacity r"
  defines "s \<equiv> iter_segments r requested emit_underflow"
  shows "in_window r (s\<lparr>sg_overflow := 0, sg_consumed := n\<rparr>)"
    and "sg_cursor s = rb_read_head r + sg_overflow s" and "sg_consumed s = 0"
    and "sg_overflow s + sg_readable s + sg_underflow s = read_span r requested emit_underflow"
    and "0 < sg_overflow s \<Longrightarrow> rb_read_head r + sg_overflow s + rb_capacity r \<le> rb_write_head r"
    and "0 < sg_underflow s \<Longrightarrow> rb_write_head r \<le> sg_cursor s + sg_readable s"
proof -
  let ?R = "rb_read_head r" and ?W = "rb_write_head r" and ?c = "rb_capacity r"
  have ov: "sg_overflow s = min (?W - ?c - ?R) requested"
    by (simp add: s_def iter_segments_def Let_def)
  show cur: "sg_cursor s = ?R + sg_overflow s"
    by (simp add: s_def iter_segments_def Let_def)
  have rd: "sg_readable s = min (min (?W - sg_cursor s) ?c) (requested - sg_overflow s)"
    by (simp add: s_def iter_segments_def Let_def)
  have un: "sg_underflow s = (if emit_underflow then requested - sg_overflow s - sg_readable s else 0)"
    by (simp add: s_def iter_segments_def Let_def)
  show "sg_consumed s = 0"
    by (simp add: s_def iter_segments_def Let_def)
  have le: "sg_overflow s \<le> requested" "sg_readable s \<le> requested - sg_overflow s"
    by (simp_all add: ov rd)
  have room: "?W \<le> sg_cursor s + ?c" if "sg_overflow s < requested"
    using that ov cur by linarith
  have fill: "sg_readable s = min (?W - sg_cursor s) (requested - sg_overflow s)"
    using room rd le by (cases "sg_overflow s < requested") (simp_all add: min_absorb1)
  show "in_window r (s\<lparr>sg_overflow := 0, sg_consumed := n\<rparr>)"
    using room fill by (auto simp: in_window_def)
  show "0 < sg_overflow s \<Longrightarrow> ?R + sg_overflow s + ?c \<le> ?W"
    using ov by linarith
  show "0 < sg_underflow s \<Longrightarrow> ?W \<le> sg_cursor s + sg_readable s"
    using un fill by (simp split: if_splits)
  show "sg_overflow s + sg_readable s + sg_underflow s = read_span r requested emit_underflow"
  proof (cases emit_underflow)
    case True
    then show ?thesis
      using le un by (simp add: read_span_def)
  next
    case False
    have "sg_overflow s + sg_readable s = min requested (?W - ?R)"
      using ov fill cur pos by linarith
    then show ?thesis
      using False un by (simp add: read_span_def)
  qed
qed

lemma ticks_split:
  fixes r :: "'a ring_buffer" and requested emit
  assumes hist: "ring_holds r hist"
  defines "s \<equiv> iter_segments r requested emit"
  shows "map (tick_at hist (rb_capacity r)) [rb_read_head r..<rb_read_head r + read_span r requested emit] =
    replicate (sg_overflow s) Lost @
    map (tick_at hist (rb_capacity r)) [sg_cursor s..<sg_cursor s + sg_readable s] @
    replicate (sg_underflow s) Missing"
proof -
  let ?tick = "tick_at hist (rb_capacity r)" and ?R = "rb_read_head r" and ?n = "read_span r requested emit"
  note ok = ring_holdsD [OF hist]
  note facts = iter_segments_facts [OF ok(3), where requested = requested and emit_underflow = emit, folded s_def]
  let ?ov = "sg_overflow s" and ?rd = "sg_readable s" and ?un = "sg_underflow s"
  have lost: "map ?tick [?R..<?R + ?ov] = replicate ?ov Lost"
    using facts(5) ok(2) by (intro map_upt_const tick_at_Lost) simp
  have missing: "map ?tick [?R + ?ov + ?rd..<?R + ?ov + ?rd + ?un] = replicate ?un Missing"
    using facts(2,6) ok(2) by (intro map_upt_const tick_at_Missing) simp
  have "[?R..<?R + ?n] = [?R..<?R + ?ov] @ [?R + ?ov..<?R + ?ov + ?rd] @ [?R + ?ov + ?rd..<?R + ?ov + ?rd + ?un]"
    unfolding facts(4) [symmetric] using upt_add_eq_append [of ?R "?R + ?ov" "?rd + ?un"]
      upt_add_eq_append [of "?R + ?ov" "?R + ?ov + ?rd" ?un] by (simp add: add.assoc)
  then show ?thesis
    by (simp add: lost missing facts(2))
qed

lemma read_segments_ticks:
  assumes hist: "ring_holds r hist"
  shows "\<exists>gs. read_segments r requested emit =
      Some (Inr (gs, r\<lparr>rb_read_head := rb_read_head r + read_span r requested emit\<rparr>)) \<and>
    concat (map expand gs) =
      map (tick_at hist (rb_capacity r)) [rb_read_head r..<rb_read_head r + read_span r requested emit] \<and>
    maximal_segments gs"
proof -
  let ?tick = "tick_at hist (rb_capacity r)" and ?R = "rb_read_head r"
  let ?s = "iter_segments r requested emit" and ?n = "read_span r requested emit"
  note ok = ring_holdsD [OF hist]
  note facts = iter_segments_facts [OF ok(3), where requested = requested and emit_underflow = emit]
  let ?ov = "sg_overflow ?s" and ?rd = "sg_readable ?s" and ?un = "sg_underflow ?s"
  have all: "map ?tick [?R..<?R + ?n] =
      replicate ?ov Lost @ map ?tick [?R + ?ov..<?R + ?ov + ?rd] @ replicate ?un Missing"
    using ticks_split [OF hist, of requested emit] by (simp add: facts(2))
  have commit: "segments_drop s' r = r\<lparr>rb_read_head := ?R + ?n\<rparr>" if "sg_consumed s' = ?n" for s'
    using that by (auto simp: segments_drop_def read_commit_def)
  let ?w = "?s\<lparr>sg_overflow := 0, sg_consumed := ?ov\<rparr>"
  obtain gs s' where rest: "collect_segments r ?w = Some (Inr (gs, s'))"
    "concat (map expand gs) = map ?tick [sg_cursor ?w..<sg_cursor ?w + sg_readable ?w] @
      replicate (sg_underflow ?w) Missing"
    "maximal_segments gs" "sg_consumed s' = sg_consumed ?w + sg_readable ?w + sg_underflow ?w"
    "gs \<noteq> [] \<longrightarrow> (if 0 < sg_readable ?w then is_stored (hd gs) \<and>
      (gap_first (hd gs) \<longleftrightarrow> sg_cursor ?w \<in> gap_times r) else \<exists>n. hd gs = Underflow n)"
    using collect_window [OF hist facts(1)] by blast
  have consumed: "sg_consumed s' = ?n"
    using rest(4) facts(4) by simp
  show ?thesis
  proof (cases "?ov = 0")
    case True
    then have "?w = ?s"
      using facts(3) by simp
    then show ?thesis
      using rest(1-3) all True facts(2) commit [OF consumed] by (auto simp: read_segments_def)
  next
    case False
    then have "segments_next r ?s = Inr (Some (Overflow ?ov), ?w)"
      using facts(3) by (simp add: segments_next_def Let_def)
    then have run: "collect_segments r ?s = Some (Inr (Overflow ?ov # gs, s'))"
      using rest(1) by (subst collect_segments.simps) simp
    have "\<not> same_kind (Overflow ?ov) (hd gs)" if "gs \<noteq> []"
      using that rest(5) not_same_kind(3) [of "hd gs" ?ov] by (auto split: if_splits)
    then have "maximal_segments (Overflow ?ov # gs)"
      using rest(3) False by (auto simp: maximal_Cons)
    then show ?thesis
      using run rest(2) all False facts(2) commit [OF consumed] by (simp add: read_segments_def)
  qed
qed

section \<open>Writing\<close>

text \<open>A store into the writable slice and the mirror synchronisation after it, element by element.\<close>

definition stored_at :: "usize \<Rightarrow> usize \<Rightarrow> 'a list \<Rightarrow> 'a list \<Rightarrow> nat \<Rightarrow> 'a" where
  "stored_at cap head src old i =
     (if i + cap < head + length src then src ! (i + cap - head)
      else if head \<le> i \<and> i < head + length src then src ! (i - head)
      else old ! i)"

lemma nth_splice:
  assumes "a \<le> b" and "b \<le> length dst" and "length src = b - a"
  shows "length (take a dst @ src @ drop b dst) = length dst"
    and "(take a dst @ src @ drop b dst) ! i = (if a \<le> i \<and> i < b then src ! (i - a) else dst ! i)"
  using assms by (auto simp: nth_append)

lemma mirrored_append:
  assumes "x = Inr (base @ mirror)" and "length base = cap" and "length mirror = cap" and "base = mirror"
    and "\<And>i. i < cap \<Longrightarrow> base ! i = P i"
  shows "\<exists>ring. x = Inr ring \<and> length ring = 2 * cap \<and> drop cap ring = take cap ring \<and> (\<forall>i<cap. ring ! i = P i)"
  using assms by (intro exI [of _ "base @ mirror"]) (simp add: nth_append)

lemma sync_after_store:
  assumes "length old = 2 * cap" and "head < cap" and "length src \<le> cap" and "src \<noteq> []"
    and mirror: "drop cap old = take cap old"
  shows "\<exists>ring. sync_mirror_range cap head (length src) (take head old @ src @ drop (head + length src) old) = Inr ring \<and>
    length ring = 2 * cap \<and> drop cap ring = take cap ring \<and>
    (\<forall>i<cap. ring ! i = stored_at cap head src old i)"
proof -
  let ?n = "length src"
  obtain raw where raw_def: "raw = take head old @ src @ drop (head + ?n) old"
    by blast
  have raw: "length raw = 2 * cap" "raw ! i = (if head \<le> i \<and> i < head + ?n then src ! (i - head) else old ! i)" for i
    unfolding raw_def using assms(1-3) nth_splice [of head "head + ?n" old src] by simp_all
  have old: "old ! (cap + i) = old ! i" if "i < cap" for i
    using arg_cong [OF mirror, of "\<lambda>xs. xs ! i"] that assms(1) by simp
  let ?b = "min (head + ?n) cap" and ?m = "head + ?n - cap"
  have b: "head < ?b" "head \<le> ?b" "?b \<le> cap"
    using assms(2,4) by simp_all
  have m: "?m \<le> cap" "?m \<le> head"
    using assms(2,3) by simp_all
  let ?mirror = "take head (drop cap raw) @ take (?b - head) (drop head (take cap raw)) @ drop ?b (drop cap raw)"
  have mirror_len: "length ?mirror = cap"
    using raw(1) b by (subst nth_splice(1)) simp_all
  have mirror_nth: "?mirror ! i = (if head \<le> i \<and> i < ?b then raw ! i else raw ! (cap + i))" if "i < cap" for i
  proof -
    have elem: "take (?b - head) (drop head (take cap raw)) ! (i - head) = raw ! i" if "head \<le> i \<and> i < ?b"
    proof -
      have "i - head < ?b - head"
        using that by linarith
      then show ?thesis
        using that raw(1) by simp
    qed
    have "?mirror ! i = (if head \<le> i \<and> i < ?b then take (?b - head) (drop head (take cap raw)) ! (i - head)
        else drop cap raw ! i)"
      by (rule nth_splice(2)) (use raw(1) b in simp_all)
    moreover have "drop cap raw ! i = raw ! (cap + i)"
      using raw(1) by simp
    ultimately show ?thesis
      using elem by presburger
  qed
  let ?base = "take 0 (take cap raw) @ take (?m - 0) (drop 0 ?mirror) @ drop ?m (take cap raw)"
  have base_len: "length ?base = cap"
    using raw(1) m mirror_len by (subst nth_splice(1)) simp_all
  have base_nth: "?base ! i = (if i < ?m then ?mirror ! i else raw ! i)" if "i < cap" for i
  proof -
    have "?base ! i = (if 0 \<le> i \<and> i < ?m then take (?m - 0) (drop 0 ?mirror) ! (i - 0) else take cap raw ! i)"
      by (rule nth_splice(2)) (use raw(1) m mirror_len in simp_all)
    then show ?thesis
      using that by (cases "i < ?m") (simp_all only: nth_take drop_0 diff_zero zero_le simp_thms if_True if_False)
  qed
  have stored: "?mirror ! i = stored_at cap head src old i" "?base ! i = stored_at cap head src old i"
    if "i < cap" for i
  proof -
    have m_i: "?mirror ! i = stored_at cap head src old i"
      using mirror_nth [OF that] raw(2) [of i] raw(2) [of "cap + i"] old [OF that] that assms(2,3)
      by (auto simp: stored_at_def add.commute)
    then show "?mirror ! i = stored_at cap head src old i" .
    show "?base ! i = stored_at cap head src old i"
      using base_nth [OF that] m_i raw(2) [of i] that assms(2,3) by (auto simp: stored_at_def)
  qed
  have same: "?base = ?mirror"
    by (rule nth_equalityI) (simp_all only: base_len mirror_len stored)
  have copy1: "(if min head cap < ?b
      then sum_bind (sub_slice (take cap raw) (min head cap) ?b) (copy_into (drop cap raw) (min head cap) ?b)
      else Inr (drop cap raw)) = Inr ?mirror"
  proof -
    have "min head cap = head"
      using assms(2) by simp
    then show ?thesis
      using raw(1) b by (simp only: if_True) (subst sub_slice_ok; simp)
  qed
  have copy2: "(if max head cap < min (head + ?n) (2 * cap) then
      sum_bind (sub_slice ?mirror (max head cap - cap) (min (head + ?n) (2 * cap) - cap))
        (copy_into (take cap raw) (max head cap - cap) (min (head + ?n) (2 * cap) - cap))
      else Inr (take cap raw)) = Inr ?base"
  proof (cases "cap < head + ?n")
    case True
    have "max head cap = cap" "min (head + ?n) (2 * cap) = head + ?n"
      using assms(2,3) by simp_all
    then show ?thesis
      using True raw(1) m mirror_len by simp
  next
    case False
    then show ?thesis
      using assms(2) by simp
  qed
  have "sync_mirror_range cap head ?n raw = Inr (?base @ ?mirror)"
  proof -
    have "\<not> length raw < cap"
      using raw(1) by simp
    then show ?thesis
      unfolding sync_mirror_range_def Let_def by (simp only: if_False copy1 copy2 sum_bind_simps)
  qed
  then show ?thesis
    unfolding raw_def [symmetric] by (rule mirrored_append) (rule base_len, rule mirror_len, rule same, rule stored(2))
qed

lemma ring_region_nth:
  assumes "head < cap" and "j < n" and "n \<le> (cap :: nat)"
  shows "(head + j) mod cap = (if head + j < cap then head + j else head + j - cap)"
  using assms by (simp add: mod_if)

lemma stored_at_region:
  assumes "head < cap" and "j < length src" and "length src \<le> cap"
  shows "stored_at cap head src old ((head + j) mod cap) = src ! j"
  using assms unfolding ring_region_nth [OF assms] by (auto simp: stored_at_def)

lemma stored_at_other:
  assumes "head < cap" and "length src \<le> cap" and "i < cap"
    and "i \<notin> (\<lambda>j. (head + j) mod cap) ` {0..<length src}"
  shows "stored_at cap head src old i = old ! i"
proof -
  have "\<not> i + cap < head + length src"
  proof
    assume "i + cap < head + length src"
    then have "i = (head + (i + cap - head)) mod cap" and "i + cap - head < length src"
      using assms(1,3) by simp_all
    then show False
      using assms(4) by (metis atLeastLessThan_iff imageI le0)
  qed
  moreover have "\<not> (head \<le> i \<and> i < head + length src)"
  proof
    assume "head \<le> i \<and> i < head + length src"
    then have "i = (head + (i - head)) mod cap" and "i - head < length src"
      using assms(3) by (simp, linarith)
    then show False
      using assms(4) by (metis atLeastLessThan_iff imageI le0)
  qed
  ultimately show ?thesis
    by (auto simp: stored_at_def)
qed

text \<open>The positions of the ring that \<open>n\<close> samples from the write head on take.\<close>

definition write_region :: "'a ring_buffer \<Rightarrow> nat \<Rightarrow> nat set" where
  "write_region r n = (\<lambda>j. (rb_write_head r mod rb_capacity r + j) mod rb_capacity r) ` {0..<n}"

lemma write_region_eq: "write_region r n = (\<lambda>j. (rb_write_head r + j) mod rb_capacity r) ` {0..<n}"
  by (simp add: write_region_def mod_simps)

lemma write_commit_advance_eq:
  assumes "n \<le> rb_capacity r"
    and "(if n > 0 then sync_mirror_range (rb_capacity r) (logical_to_ring_index r (rb_write_head r)) n (rb_ring r)
      else Inr (rb_ring r)) = Inr ring"
    and "unmark_region (logical_to_ring_index r (rb_write_head r))
      (min (rb_capacity r - logical_to_ring_index r (rb_write_head r)) n) (rb_gaps r) = Inr g1"
    and "unmark_region 0 (n - min (rb_capacity r - logical_to_ring_index r (rb_write_head r)) n) g1 = Inr g2"
  shows "write_commit_advance n adv r =
    Inr (r\<lparr>rb_ring := ring, rb_gaps := g2, rb_write_head := rb_write_head r + adv\<rparr>)"
  using assms by (simp only: write_commit_advance_def Let_def sum_bind_simps not_not if_False simp_thms)

lemma store_commit:
  assumes ok: "ring_ok r" and len: "length src \<le> rb_capacity r"
  shows "\<exists>r1 r2. fill_writable src r = Inr r1 \<and> write_commit_advance (length src) adv r1 = Inr r2 \<and>
    ring_ok r2 \<and> rb_capacity r2 = rb_capacity r \<and> rb_write_head r2 = rb_write_head r + adv \<and>
    rb_read_head r2 = rb_read_head r \<and> gaps (rb_gaps r2) = gaps (rb_gaps r) - write_region r (length src) \<and>
    (\<forall>i<rb_capacity r. rb_ring r2 ! i =
      stored_at (rb_capacity r) (rb_write_head r mod rb_capacity r) src (rb_ring r) i)"
proof -
  let ?c = "rb_capacity r" and ?old = "rb_ring r"
  let ?h = "rb_write_head r mod ?c" and ?n = "length src"
  have ring: "length ?old = 2 * ?c" "drop ?c ?old = take ?c ?old" and bm: "bitmap_ok (rb_gaps r)" "bm_capacity (rb_gaps r) = ?c"
    using ok by (simp_all add: ring_ok_def)
  have h: "?h < ?c"
    using ring_ok_pos [OF ok] by simp
  have bounds: "?h + ?c \<le> length ?old" "?h + ?n \<le> length ?old"
    using ring(1) h len by linarith+
  let ?raw = "take ?h ?old @ src @ drop (?h + ?n) ?old"
  let ?r1 = "r\<lparr>rb_ring := ?raw\<rparr>"
  have fill: "fill_writable src r = Inr ?r1"
    using bounds len by (simp add: fill_writable_def writable_slice_def logical_index [OF ok])
  have index: "logical_to_ring_index ?r1 t = t mod ?c" for t
    using logical_index [OF ok, of t] by (simp add: logical_to_ring_index_def)
  have sel: "rb_capacity ?r1 = ?c" "rb_write_head ?r1 = rb_write_head r" "rb_gaps ?r1 = rb_gaps r" "rb_ring ?r1 = ?raw"
    by simp_all
  obtain ring where new: "(if ?n > 0 then sync_mirror_range ?c ?h ?n ?raw else Inr ?raw) = Inr ring"
    "length ring = 2 * ?c" "drop ?c ring = take ?c ring" "\<forall>i<?c. ring ! i = stored_at ?c ?h src ?old i"
  proof (cases "src = []")
    case True
    then show thesis
      using ring h by (intro that [of ?old]) (auto simp: stored_at_def)
  next
    case False
    then show thesis
      using sync_after_store [OF ring(1) h len False ring(2)] that by auto
  qed
  obtain g1 g2 where unmark: "unmark_region ?h (min (?c - ?h) ?n) (rb_gaps r) = Inr g1"
    "unmark_region 0 (?n - min (?c - ?h) ?n) g1 = Inr g2" "bitmap_ok g2" "bm_capacity g2 = ?c"
    "gaps g2 = gaps (rb_gaps r) - write_region r ?n"
    using bitmap_gaps.unmark_ring [OF bm(1), of ?h ?n] bm(2) h len by (auto simp: write_region_def)
  let ?r2 = "r\<lparr>rb_ring := ring, rb_gaps := g2, rb_write_head := rb_write_head r + adv\<rparr>"
  have "write_commit_advance ?n adv ?r1 = Inr (?r1\<lparr>rb_ring := ring, rb_gaps := g2,
      rb_write_head := rb_write_head ?r1 + adv\<rparr>)"
    using new(1) unmark(1,2) len by (intro write_commit_advance_eq [of _ _ ring g1 g2]) (simp_all only: sel index)
  then have "write_commit_advance ?n adv ?r1 = Inr ?r2"
    by simp
  moreover have "ring_ok ?r2"
    using ok new(2,3) unmark(3,4) by (simp add: ring_ok_def)
  ultimately show ?thesis
    using fill new(4) unmark(5) by (intro exI [of _ ?r1] exI [of _ ?r2]) simp
qed

lemma mod_differ: "a < b \<Longrightarrow> b < a + c \<Longrightarrow> a mod c \<noteq> b mod (c :: nat)"
proof
  assume "a < b" "b < a + c" "a mod c = b mod c"
  then have "c dvd b - a"
    by (metis less_or_eq_imp_le mod_eq_dvd_iff_nat)
  then show False
    using \<open>a < b\<close> \<open>b < a + c\<close> by (auto dest: dvd_imp_le)
qed

text \<open>Times that stay in the ring keep their slot.\<close>

lemma old_slot_free:
  assumes "t < rb_write_head r" and "rb_write_head r + adv \<le> t + rb_capacity r"
  shows "t mod rb_capacity r \<notin> write_region r (min adv (rb_capacity r))"
proof -
  have "t mod rb_capacity r \<noteq> (rb_write_head r + j) mod rb_capacity r" if "j < min adv (rb_capacity r)" for j
    using that assms by (intro mod_differ) simp_all
  then show ?thesis
    unfolding write_region_eq by fastforce
qed

lemma new_slot:
  assumes "rb_write_head r \<le> t" and "t < rb_write_head r + adv" and "0 < rb_capacity r"
  shows "(t - rb_write_head r) mod rb_capacity r < min adv (rb_capacity r)"
    and "t mod rb_capacity r = (rb_write_head r + (t - rb_write_head r) mod rb_capacity r) mod rb_capacity r"
proof -
  show "(t - rb_write_head r) mod rb_capacity r < min adv (rb_capacity r)"
    using assms mod_less_eq_dividend [of "t - rb_write_head r" "rb_capacity r"]
      mod_less_divisor [OF assms(3), of "t - rb_write_head r"] by linarith
  show "t mod rb_capacity r = (rb_write_head r + (t - rb_write_head r) mod rb_capacity r) mod rb_capacity r"
    using assms(1) by (simp add: mod_simps)
qed

lemma store_holds:
  assumes hist: "ring_holds r hist" and n: "length src = min adv (rb_capacity r)" and adv: "length added = adv"
    and same: "\<And>j. j < adv \<Longrightarrow> adv \<le> j + rb_capacity r \<Longrightarrow> added ! j = src ! (j mod rb_capacity r)"
  shows "\<exists>r1 r2. fill_writable src r = Inr r1 \<and> write_commit_advance (length src) adv r1 = Inr r2 \<and>
    ring_holds r2 (hist @ map Some added) \<and> rb_capacity r2 = rb_capacity r \<and> rb_read_head r2 = rb_read_head r"
proof -
  let ?c = "rb_capacity r" and ?W = "rb_write_head r"
  note ok = ring_holdsD [OF hist]
  have len: "length src \<le> ?c"
    using n by simp
  obtain r1 r2 where r: "fill_writable src r = Inr r1" "write_commit_advance (length src) adv r1 = Inr r2"
    "ring_ok r2" "rb_capacity r2 = ?c" "rb_write_head r2 = ?W + adv" "rb_read_head r2 = rb_read_head r"
    "gaps (rb_gaps r2) = gaps (rb_gaps r) - write_region r (length src)"
    "\<forall>i<?c. rb_ring r2 ! i = stored_at ?c (?W mod ?c) src (rb_ring r) i"
    using store_commit [OF ok(1) len, of adv] by blast
  have head: "?W mod ?c < ?c"
    using ok(3) by simp
  have "slot_holds r2 (t mod ?c) ((hist @ map Some added) ! t)"
    if t: "t < ?W + adv" "?W + adv \<le> t + ?c" for t
  proof (cases "t < ?W")
    case True
    then have free: "t mod ?c \<notin> write_region r (length src)"
      unfolding n using t(2) by (rule old_slot_free)
    have "stored_at ?c (?W mod ?c) src (rb_ring r) (t mod ?c) = rb_ring r ! (t mod ?c)"
      using free ok(3) by (intro stored_at_other [OF head len]) (simp_all add: write_region_def)
    moreover have "slot_holds r (t mod ?c) (hist ! t)"
      using hist True t by (simp add: ring_holds_def)
    ultimately show ?thesis
      using free True r(7,8) ok(2,3) by (auto simp: slot_holds_def nth_append split: option.splits)
  next
    case False
    let ?j = "(t - ?W) mod ?c"
    have j: "?j < length src" "t mod ?c = (?W + ?j) mod ?c"
      using new_slot [of r t adv] False t(1) ok(3) unfolding n by (simp_all only: not_less)
    have "rb_ring r2 ! (t mod ?c) = src ! ?j"
      using r(8) ok(3) stored_at_region [OF head j(1) len] unfolding j(2) by (simp add: mod_simps)
    moreover have "t mod ?c \<in> write_region r (length src)"
      unfolding write_region_eq j(2) using j(1) by (intro imageI) simp
    moreover have "added ! (t - ?W) = src ! ?j"
      using False t by (intro same) simp_all
    ultimately show ?thesis
      using False t(1) r(7) ok(2) adv by (simp add: slot_holds_def nth_append)
  qed
  then have "ring_holds r2 (hist @ map Some added)"
    using r(3-5) ok(2) adv by (simp add: ring_holds_def)
  then show ?thesis
    using r(1,2,4,6) by blast
qed

text \<open>
  The samples that \<open>write\<close> puts on the timeline: all of an input that fits, and of a longer one
  the last \<open>capacity\<close>, which the code stores from the old head on.
\<close>

definition written_as :: "usize \<Rightarrow> 'a list \<Rightarrow> 'a list" where
  "written_as cap input =
     take (length input - cap) input @ rotate (length input) (drop (length input - cap) input)"

lemma written_as_fits: "length input \<le> cap \<Longrightarrow> written_as cap input = input"
  by (simp add: written_as_def)

lemma written_as_multiple:
  assumes "cap dvd length input" and "cap \<le> length input"
  shows "written_as cap input = input"
proof -
  have "length (drop (length input - cap) input) = cap"
    using assms(2) by simp
  then have "rotate (length input) (drop (length input - cap) input) = drop (length input - cap) input"
    using assms(1) rotate_conv_mod [of "length input" "drop (length input - cap) input"] by simp
  then show ?thesis
    by (simp add: written_as_def)
qed

lemma nth_written_as:
  assumes "j < length input" and "length input \<le> j + cap"
  shows "written_as cap input ! j = drop (length input - min (length input) cap) input ! (j mod cap)"
proof (cases "length input \<le> cap")
  case True
  then show ?thesis
    using assms by (simp add: written_as_fits min_absorb1)
next
  case False
  let ?d = "length input - cap"
  have len: "length (drop ?d input) = cap"
    using False by simp
  have "\<not> j < ?d" and "length (take ?d input) = ?d"
    using assms(2) by (linarith, simp)
  then have "written_as cap input ! j = rotate (length input) (drop ?d input) ! (j - ?d)"
    by (simp only: written_as_def nth_append if_False)
  also have "\<dots> = drop ?d input ! ((length input + (j - ?d)) mod cap)"
    using assms False by (subst nth_rotate) (simp_all add: len)
  also have "length input + (j - ?d) = j + cap"
    using assms(2) False by simp
  finally show ?thesis
    using False by (simp add: min_absorb2)
qed

lemma ring_write_holds:
  assumes hist: "ring_holds r hist"
  shows "\<exists>r'. ring_write input r =
      Inr (if rb_capacity r < length input then Partial (rb_capacity r) else Write_Ok, r') \<and>
    ring_holds r' (hist @ map Some (written_as (rb_capacity r) input)) \<and>
    rb_capacity r' = rb_capacity r \<and> rb_read_head r' = rb_read_head r"
proof (cases "input = []")
  case True
  then show ?thesis
    using hist by (simp add: ring_write_def written_as_def)
next
  case False
  let ?n = "length input" and ?c = "rb_capacity r"
  let ?src = "drop (?n - min ?n ?c) input"
  have src: "length ?src = min ?n ?c"
    by simp
  have len: "length (written_as ?c input) = ?n"
    by (simp add: written_as_def)
  obtain r1 r2 where r: "fill_writable ?src r = Inr r1" "write_commit_advance (min ?n ?c) ?n r1 = Inr r2"
    "ring_holds r2 (hist @ map Some (written_as ?c input))" "rb_capacity r2 = ?c" "rb_read_head r2 = rb_read_head r"
    using store_holds [OF hist src len nth_written_as] unfolding src by blast
  then have "ring_write input r = Inr (if min ?n ?c < ?n then Partial (min ?n ?c) else Write_Ok, r2)"
    using False by (simp add: ring_write_def Let_def)
  then show ?thesis
    using r(3-5) by (auto simp: min_def split: if_splits)
qed

lemma write_default_holds:
  assumes hist: "ring_holds r hist"
  shows "\<exists>r'. write_default dflt n r = Inr r' \<and> ring_holds r' (hist @ replicate n (Some dflt)) \<and>
    rb_capacity r' = rb_capacity r \<and> rb_read_head r' = rb_read_head r"
proof (cases "n = 0")
  case True
  then show ?thesis
    using hist by (simp add: write_default_def)
next
  case False
  let ?c = "rb_capacity r"
  let ?src = "replicate (min n ?c) dflt"
  have "replicate n dflt ! j = ?src ! (j mod ?c)" if "j < n" "n \<le> j + ?c" for j
  proof -
    have "j mod ?c < min n ?c"
      using that ring_holdsD(3) [OF hist] by (auto intro: le_less_trans [OF mod_less_eq_dividend])
    then show ?thesis
      using that by simp
  qed
  then obtain r1 r2 where "fill_writable ?src r = Inr r1" "write_commit_advance (min n ?c) n r1 = Inr r2"
    "ring_holds r2 (hist @ map Some (replicate n dflt))" "rb_capacity r2 = ?c" "rb_read_head r2 = rb_read_head r"
    using store_holds [OF hist, of ?src n "replicate n dflt"] by auto
  then show ?thesis
    using False by (auto simp: write_default_def Let_def)
qed

text \<open>The zero-copy way: the producer fills the writable slice itself and commits.\<close>

lemma write_commit_holds:
  assumes hist: "ring_holds r hist" and len: "length src \<le> rb_capacity r"
  shows "\<exists>r1 r2. fill_writable src r = Inr r1 \<and> write_commit (length src) r1 = Inr r2 \<and>
    ring_holds r2 (hist @ map Some src) \<and> rb_capacity r2 = rb_capacity r \<and> rb_read_head r2 = rb_read_head r"
proof -
  have "src ! j = src ! (j mod rb_capacity r)" if "j < length src" for j
    using that len by simp
  then show ?thesis
    unfolding write_commit_def using len by (intro store_holds [OF hist]) (simp_all add: min_absorb1)
qed

lemma advance_timeline_holds:
  assumes hist: "ring_holds r hist"
  shows "\<exists>r'. advance_timeline n r = Inr r' \<and> ring_holds r' (hist @ replicate n None) \<and>
    rb_capacity r' = rb_capacity r \<and> rb_read_head r' = rb_read_head r"
proof (cases "n = 0")
  case True
  then show ?thesis
    using hist by (simp add: advance_timeline_def)
next
  case False
  let ?c = "rb_capacity r" and ?W = "rb_write_head r"
  let ?h = "?W mod ?c" and ?m = "min n ?c"
  note ok = ring_holdsD [OF hist]
  have bm: "bitmap_ok (rb_gaps r)" "bm_capacity (rb_gaps r) = ?c" and h: "?h < ?c" and m: "?m \<le> ?c"
    using ok by (simp_all add: ring_ok_def)
  obtain g1 g2 where mark: "mark_region ?h (min (?c - ?h) ?m) (rb_gaps r) = Inr g1"
    "mark_region 0 (?m - min (?c - ?h) ?m) g1 = Inr g2" "bitmap_ok g2" "bm_capacity g2 = ?c"
    "gaps g2 = gaps (rb_gaps r) \<union> write_region r ?m"
    using bitmap_gaps.mark_ring [OF bm(1), of ?h ?m] unfolding bm(2) write_region_def using h m by blast
  let ?r = "r\<lparr>rb_gaps := g2, rb_write_head := ?W + n\<rparr>"
  have "advance_timeline n r = write_commit_advance 0 n (r\<lparr>rb_gaps := g2\<rparr>)"
    using False mark(1,2) by (simp add: advance_timeline_def Let_def logical_index [OF ok(1)])
  also have "\<dots> = Inr ?r"
    by (subst write_commit_advance_eq [of _ _ "rb_ring r" g2 g2]) (simp_all add: unmark_region_def)
  finally have run: "advance_timeline n r = Inr ?r" .
  have "slot_holds ?r (t mod ?c) ((hist @ replicate n None) ! t)"
    if t: "t < ?W + n" "?W + n \<le> t + ?c" for t
  proof (cases "t < ?W")
    case True
    then have "t mod ?c \<notin> write_region r ?m"
      using t(2) by (rule old_slot_free)
    moreover have "slot_holds r (t mod ?c) (hist ! t)"
      using hist True t by (simp add: ring_holds_def)
    ultimately show ?thesis
      using True mark(5) ok(2) by (auto simp: slot_holds_def nth_append split: option.splits)
  next
    case False
    let ?j = "(t - ?W) mod ?c"
    have j: "?j < ?m" "t mod ?c = (?W + ?j) mod ?c"
      using new_slot [of r t n] False t(1) ok(3) by (simp_all only: not_less)
    have "t mod ?c \<in> write_region r ?m"
      unfolding write_region_eq j(2) using j(1) by (intro imageI) simp
    then show ?thesis
      using False t(1) mark(5) ok(2) by (simp add: slot_holds_def nth_append)
  qed
  moreover have "ring_ok ?r"
    using ok(1) mark(3,4) by (simp add: ring_ok_def)
  ultimately have "ring_holds ?r (hist @ replicate n None)"
    using ok(2) by (simp add: ring_holds_def)
  then show ?thesis
    using run by simp
qed

section \<open>Copying out\<close>

text \<open>What \<open>read\<close> leaves in the output slice for a run of ticks, and what it counts.\<close>

definition overlay :: "'a tick list \<Rightarrow> 'a list \<Rightarrow> 'a list" where
  "overlay ticks out = map2 (\<lambda>t x. case t of Sample y \<Rightarrow> y | _ \<Rightarrow> x) ticks out"

definition count_ticks :: "('a tick \<Rightarrow> bool) \<Rightarrow> 'a tick list \<Rightarrow> nat" where
  "count_ticks P ticks = length (filter P ticks)"

definition is_sample :: "'a tick \<Rightarrow> bool" where
  "is_sample t \<longleftrightarrow> (case t of Sample _ \<Rightarrow> True | _ \<Rightarrow> False)"

definition is_lost :: "'a tick \<Rightarrow> bool" where
  "is_lost t \<longleftrightarrow> (case t of Lost \<Rightarrow> True | _ \<Rightarrow> False)"

definition is_silent :: "'a tick \<Rightarrow> bool" where
  "is_silent t \<longleftrightarrow> (case t of Hole \<Rightarrow> True | Missing \<Rightarrow> True | _ \<Rightarrow> False)"

lemmas tick_kinds = is_sample_def is_lost_def is_silent_def

lemma count_ticks_simps [simp]:
  "count_ticks P [] = 0" "count_ticks P (a @ b) = count_ticks P a + count_ticks P b"
  "count_ticks P (replicate n t) = (if P t then n else 0)"
  "count_ticks P (map Sample xs) = length (filter (\<lambda>x. P (Sample x)) xs)"
  by (simp_all add: count_ticks_def filter_map comp_def)

lemma length_overlay [simp]: "length ticks = length out \<Longrightarrow> length (overlay ticks out) = length out"
  by (simp add: overlay_def)

lemma overlay_append:
  "length a = length x \<Longrightarrow> overlay (a @ b) (x @ y) = overlay a x @ overlay b y"
  by (simp add: overlay_def)

lemma overlay_samples [simp]: "length xs = length out \<Longrightarrow> overlay (map Sample xs) out = xs"
  by (induction xs out rule: list_induct2) (simp_all add: overlay_def)

lemma overlay_const [simp]: "\<not> is_sample t \<Longrightarrow> overlay (replicate (length out) t) out = out"
  by (induction out) (auto simp: overlay_def is_sample_def split: tick.splits)

lemma length_expand [simp]: "length (expand g) = segment_len g"
  by (cases g) simp_all

lemma read_emit_step:
  assumes "rd_cursor s = length pre" and "rd_out s = pre @ out" and "length out = segment_len g"
  shows "read_emit g (s\<lparr>rd_out := pre @ out @ post\<rparr>) = Inr
    \<lparr>rd_out = pre @ overlay (expand g) out @ post,
     rd_copied = rd_copied s + count_ticks is_sample (expand g),
     rd_overflow = rd_overflow s + count_ticks is_lost (expand g),
     rd_underflow = rd_underflow s + count_ticks is_silent (expand g),
     rd_cursor = length (pre @ out)\<rparr>"
  using assms overlay_const [of Hole out] overlay_const [of Lost out] overlay_const [of Missing out]
  by (cases g) (simp_all add: tick_kinds)

lemma read_emit_all_overlay:
  assumes "length out = length (concat (map expand gs))" and "rd_cursor s = length pre"
    and "rd_out s = pre @ out"
  shows "read_emit_all gs s = Inr
    \<lparr>rd_out = pre @ overlay (concat (map expand gs)) out,
     rd_copied = rd_copied s + count_ticks is_sample (concat (map expand gs)),
     rd_overflow = rd_overflow s + count_ticks is_lost (concat (map expand gs)),
     rd_underflow = rd_underflow s + count_ticks is_silent (concat (map expand gs)),
     rd_cursor = length (pre @ out)\<rparr>"
  using assms
proof (induction gs arbitrary: out pre s)
  case Nil
  then show ?case
    by (cases s) (simp add: overlay_def)
next
  case (Cons g gs)
  let ?a = "take (segment_len g) out" and ?b = "drop (segment_len g) out"
  have len: "length ?a = segment_len g" "length ?b = length (concat (map expand gs))"
    using Cons(2) by simp_all
  have out: "out = ?a @ ?b"
    by simp
  let ?s = "\<lparr>rd_out = pre @ overlay (expand g) ?a @ ?b,
     rd_copied = rd_copied s + count_ticks is_sample (expand g),
     rd_overflow = rd_overflow s + count_ticks is_lost (expand g),
     rd_underflow = rd_underflow s + count_ticks is_silent (expand g),
     rd_cursor = length (pre @ ?a)\<rparr>"
  have "s\<lparr>rd_out := pre @ ?a @ ?b\<rparr> = s"
    using Cons(4) by simp
  then have "read_emit g s = Inr ?s"
    using read_emit_step [of "s\<lparr>rd_out := pre @ ?a\<rparr>" pre ?a g ?b] Cons(3) len(1) by simp
  moreover have "overlay (concat (map expand (g # gs))) out =
      overlay (expand g) ?a @ overlay (concat (map expand gs)) ?b"
    using overlay_append [of "expand g" ?a "concat (map expand gs)" ?b] len(1) by simp
  ultimately show ?case
    using Cons(1) [OF len(2), of ?s "pre @ overlay (expand g) ?a"] len(1) out by simp
qed

lemma tick_partition: "length ticks = count_ticks is_lost ticks + count_ticks is_sample ticks + count_ticks is_silent ticks"
  unfolding count_ticks_def by (induction ticks) (auto simp: tick_kinds split: tick.splits)

definition report_of :: "'a tick list \<Rightarrow> xrun_report + unit" where
  "report_of ticks =
     (if count_ticks is_sample ticks = length ticks then Inr ()
      else Inl \<lparr>xr_overflow = count_ticks is_lost ticks, xr_copied = count_ticks is_sample ticks,
                xr_underflow = count_ticks is_silent ticks\<rparr>)"

lemma ring_read_ticks:
  fixes r :: "'a ring_buffer"
  assumes hist: "ring_holds r hist"
  defines "ticks \<equiv> \<lambda>n. map (tick_at hist (rb_capacity r)) [rb_read_head r..<rb_read_head r + n]"
  shows "ring_read out r = Some (Inr (report_of (ticks (length out)), overlay (ticks (length out)) out,
    r\<lparr>rb_read_head := rb_read_head r + length out\<rparr>))"
proof (cases "out = []")
  case True
  then show ?thesis
    by (simp add: ring_read_def report_of_def ticks_def overlay_def)
next
  case False
  obtain gs where gs: "read_segments r (length out) True = Some (Inr (gs, r\<lparr>rb_read_head := rb_read_head r + length out\<rparr>))"
    "concat (map expand gs) = ticks (length out)"
    using read_segments_ticks [OF hist, of "length out" True] by (auto simp: read_span_def ticks_def)
  have len: "length out = length (concat (map expand gs))"
    by (simp add: gs(2) ticks_def)
  have "count_ticks is_lost (ticks (length out)) = 0 \<and> count_ticks is_silent (ticks (length out)) = 0 \<longleftrightarrow>
      count_ticks is_sample (ticks (length out)) = length (ticks (length out))"
    using tick_partition [of "ticks (length out)"] by linarith
  then show ?thesis
    using False gs read_emit_all_overlay [OF len, of "\<lparr>rd_out = out, rd_copied = 0, rd_overflow = 0,
        rd_underflow = 0, rd_cursor = 0\<rparr>" "[]"]
    by (simp add: ring_read_def report_of_def Let_def)
qed

lemma read_ticks_without_holes:
  assumes hist: "ring_holds r hist"
    and no_hole: "Hole \<notin> set (map (tick_at hist (rb_capacity r)) [rb_read_head r..<rb_read_head r + n])"
  obtains a xs b where "map (tick_at hist (rb_capacity r)) [rb_read_head r..<rb_read_head r + n] =
    replicate a Lost @ map Sample xs @ replicate b Missing"
proof -
  let ?s = "iter_segments r n True" and ?tick = "tick_at hist (rb_capacity r)"
  note split = ticks_split [OF hist, of n True]
  have win: "in_window r (?s\<lparr>sg_overflow := 0, sg_consumed := 0\<rparr>)"
    by (rule iter_segments_facts [OF ring_holdsD(3) [OF hist]])
  have "\<exists>x. ?tick t = Sample x" if "t \<in> set [sg_cursor ?s..<sg_cursor ?s + sg_readable ?s]" for t
  proof -
    have "?tick t \<in> set (map ?tick [rb_read_head r..<rb_read_head r + read_span r n True])"
      unfolding split using that by simp
    then have "?tick t \<noteq> Hole"
      using no_hole by (auto simp: read_span_def)
    then show ?thesis
      using win that tick_window [OF hist, of t] by (auto simp: in_window_def split: if_splits)
  qed
  then obtain xs where "map ?tick [sg_cursor ?s..<sg_cursor ?s + sg_readable ?s] = map Sample xs"
    using ex_map_conv [of "map ?tick [sg_cursor ?s..<sg_cursor ?s + sg_readable ?s]" Sample] by auto
  then show thesis
    using that split by (simp add: read_span_def)
qed

lemma zero_fill_blocks:
  assumes "length out = a + length xs + b" and "ticks = replicate a Lost @ map Sample xs @ replicate b Missing"
  shows "zero_fill_overflow_and_underflow zero \<lparr>xr_overflow = count_ticks is_lost ticks,
      xr_copied = count_ticks is_sample ticks, xr_underflow = count_ticks is_silent ticks\<rparr> (overlay ticks out) =
    Inr (replicate a zero @ xs @ replicate b zero)"
proof -
  let ?x = "take a out" and ?y = "take (length xs) (drop a out)" and ?z = "drop (a + length xs) out"
  have len: "length ?x = a" "length ?y = length xs" "length ?z = b"
    using assms(1) by simp_all
  have out: "out = ?x @ ?y @ ?z"
    by (metis append_take_drop_id drop_drop add.commute)
  have x: "overlay (replicate a Lost) ?x = ?x" and z: "overlay (replicate b Missing) ?z = ?z"
    using overlay_const [of "Lost" ?x] overlay_const [of "Missing" ?z] unfolding len by (simp_all add: is_sample_def)
  have "overlay ticks (?x @ ?y @ ?z) = ?x @ xs @ ?z"
    unfolding assms(2) using len x z by (simp add: overlay_append)
  then have over: "overlay ticks out = ?x @ xs @ ?z"
    using out by simp
  show ?thesis
    unfolding over using len by (simp add: zero_fill_overflow_and_underflow_def fill_slice_def assms(2) tick_kinds)
qed

section \<open>Properties\<close>

text \<open>
  Claim C8: whatever was written and however the ring wrapped, iterating over its segments returns,
  yields exactly the timeline from the read head on (samples, gaps, then the loss or the lack of
  samples at either end), each segment as long as it can be, and commits exactly what it yielded.
\<close>

theorem ring_segments_timeline:
  fixes r :: "'a ring_buffer"
  assumes "ring_holds r hist"
  shows "\<exists>gs. read_segments r requested emit_underflow =
      Some (Inr (gs, r\<lparr>rb_read_head := rb_read_head r + read_span r requested emit_underflow\<rparr>)) \<and>
    concat (map expand gs) = map (tick_at hist (rb_capacity r))
      [rb_read_head r..<rb_read_head r + read_span r requested emit_underflow] \<and>
    maximal_segments gs"
  using assms by (rule read_segments_ticks)

text \<open>
  Claim C10: the producer's operations append to the timeline and never panic: \<open>write\<close> its input
  (whole, when it fits the ring or is a multiple of the capacity), \<open>write_default\<close> as many default
  samples as asked for, the zero-copy slice with \<open>write_commit\<close> the samples put there, and
  \<open>advance_timeline\<close> a gap; the read head stays.
\<close>

theorem ring_producer_timeline:
  fixes r :: "'a ring_buffer"
  assumes "ring_holds r hist"
  shows "(\<exists>r'. ring_write input r =
        Inr (if rb_capacity r < length input then Partial (rb_capacity r) else Write_Ok, r') \<and>
      ring_holds r' (hist @ map Some (written_as (rb_capacity r) input)) \<and> rb_read_head r' = rb_read_head r) \<and>
    (length input \<le> rb_capacity r \<or> rb_capacity r dvd length input \<longrightarrow>
      written_as (rb_capacity r) input = input) \<and>
    (\<exists>r'. write_default dflt n r = Inr r' \<and> ring_holds r' (hist @ replicate n (Some dflt)) \<and>
      rb_read_head r' = rb_read_head r) \<and>
    (length src \<le> rb_capacity r \<longrightarrow> (\<exists>r1 r2. fill_writable src r = Inr r1 \<and>
      write_commit (length src) r1 = Inr r2 \<and> ring_holds r2 (hist @ map Some src) \<and>
      rb_read_head r2 = rb_read_head r)) \<and>
    (\<exists>r'. advance_timeline n r = Inr r' \<and> ring_holds r' (hist @ replicate n None) \<and>
      rb_read_head r' = rb_read_head r)"
  using ring_write_holds [OF assms, of input] write_default_holds [OF assms, of dflt n]
    write_commit_holds [OF assms, of src] advance_timeline_holds [OF assms, of n]
    written_as_fits [of input "rb_capacity r"] written_as_multiple [of "rb_capacity r" input]
  by (cases "length input \<le> rb_capacity r") (simp, blast?, auto)

text \<open>
  Claim C34: \<open>read\<close> copies each sample of the timeline to its place in the output, leaves the other
  places as they are, counts them exactly, and moves the read head by the whole request; without
  gaps in the timeline, the zero fill of its report then leaves the samples in place and silence
  everywhere else.
\<close>

theorem ring_read_zero_filled:
  fixes r :: "'a ring_buffer"
  assumes "ring_holds r hist"
  shows "\<exists>ticks. ticks = map (tick_at hist (rb_capacity r)) [rb_read_head r..<rb_read_head r + length out] \<and>
    ring_read out r = Some (Inr (report_of ticks, overlay ticks out,
      r\<lparr>rb_read_head := rb_read_head r + length out\<rparr>)) \<and>
    (Hole \<notin> set ticks \<longrightarrow> (case report_of ticks of
        Inr _ \<Rightarrow> map Sample (overlay ticks out) = ticks
      | Inl x \<Rightarrow> zero_fill_overflow_and_underflow zero x (overlay ticks out) =
          Inr (map (\<lambda>t. case t of Sample y \<Rightarrow> y | _ \<Rightarrow> zero) ticks)))"
proof -
  let ?ticks = "map (tick_at hist (rb_capacity r)) [rb_read_head r..<rb_read_head r + length out]"
  have "case report_of ?ticks of
        Inr _ \<Rightarrow> map Sample (overlay ?ticks out) = ?ticks
      | Inl x \<Rightarrow> zero_fill_overflow_and_underflow zero x (overlay ?ticks out) =
          Inr (map (\<lambda>t. case t of Sample y \<Rightarrow> y | _ \<Rightarrow> zero) ?ticks)" if "Hole \<notin> set ?ticks"
  proof -
    obtain a xs b where ticks: "?ticks = replicate a Lost @ map Sample xs @ replicate b Missing"
      using read_ticks_without_holes [OF assms \<open>Hole \<notin> set ?ticks\<close>] .
    have len: "length out = a + length xs + b"
      using arg_cong [OF ticks, of length] by simp
    show ?thesis
    proof (cases "a = 0 \<and> b = 0")
      case True
      then show ?thesis
        unfolding ticks using len by (simp add: report_of_def tick_kinds)
    next
      case False
      then have "report_of ?ticks = Inl \<lparr>xr_overflow = count_ticks is_lost ?ticks,
          xr_copied = count_ticks is_sample ?ticks, xr_underflow = count_ticks is_silent ?ticks\<rparr>"
        unfolding ticks by (simp add: report_of_def tick_kinds)
      then show ?thesis
        using zero_fill_blocks [OF len ticks, of zero] by (simp add: ticks comp_def)
    qed
  qed
  then show ?thesis
    using ring_read_ticks [OF assms, of out] by blast
qed

lemma ring_segments_timeline_witness:
  "\<exists>r gs. new_unsplit (0 :: nat) 4 = Inr r \<and>
    read_segments r 2 True = Some (Inr (gs, r\<lparr>rb_read_head := 2\<rparr>)) \<and> concat (map expand gs) = [Missing, Missing]"
proof -
  obtain r where r: "new_unsplit (0 :: nat) 4 = Inr r" "ring_holds r []" "rb_read_head r = 0"
    using new_unsplit_holds [of "0 :: nat" 4] by blast
  then show ?thesis
    using ring_segments_timeline [OF r(2), of 2 True] by (auto simp: read_span_def tick_at_def upt_rec)
qed

lemma ring_producer_timeline_witness:
  "\<exists>r r'. new_unsplit (0 :: nat) 4 = Inr r \<and> advance_timeline 9 r = Inr r' \<and> ring_holds r' (replicate 9 None)"
proof -
  obtain r where r: "new_unsplit (0 :: nat) 4 = Inr r" "ring_holds r []"
    using new_unsplit_holds [of "0 :: nat" 4] by blast
  then show ?thesis
    using ring_producer_timeline [OF r(2), of "[]" 0 9 "[]"] by (simp del: replicate.simps) blast
qed

lemma ring_read_zero_filled_witness:
  "\<exists>r r'. new_unsplit (0 :: nat) 4 = Inr r \<and>
    ring_read [7, 7] r = Some (Inr (Inl \<lparr>xr_overflow = 0, xr_copied = 0, xr_underflow = 2\<rparr>, [7, 7], r'))"
proof -
  obtain r where r: "new_unsplit (0 :: nat) 4 = Inr r" "ring_holds r []" "rb_read_head r = 0"
    using new_unsplit_holds [of "0 :: nat" 4] by blast
  then show ?thesis
    using ring_read_zero_filled [OF r(2), of "[7, 7]"]
    by (auto simp: tick_at_def upt_rec report_of_def overlay_def count_ticks_def tick_kinds)
qed

text \<open>
  The same gap is emitted exactly once however the reads are chunked: two reads in a row
  yield the ticks that one read of both lengths yields, and leave the ring in the same state.
\<close>

lemma ring_chunked_reads:
  fixes r :: "'a ring_buffer"
  assumes "ring_holds r hist"
  shows "\<exists>g1 g2 g r1 r2. read_segments r a True = Some (Inr (g1, r1)) \<and>
    read_segments r1 b True = Some (Inr (g2, r2)) \<and> read_segments r (a + b) True = Some (Inr (g, r2)) \<and>
    concat (map expand g) = concat (map expand g1) @ concat (map expand g2)"
proof -
  let ?r1 = "r\<lparr>rb_read_head := rb_read_head r + a\<rparr>"
  have "slot_holds ?r1 = slot_holds r"
    by (intro ext) (simp add: slot_holds_def split: option.split)
  then have "ring_holds ?r1 hist"
    using assms by (simp add: ring_holds_def ring_ok_def)
  from read_segments_ticks [OF this, of b True] read_segments_ticks [OF assms, of a True]
    read_segments_ticks [OF assms, of "a + b" True]
  show ?thesis
    using upt_add_eq_append [of "rb_read_head r" "rb_read_head r + a" b]
    by (auto simp: read_span_def add.assoc)
qed

lemma ring_chunked_reads_witness:
  "\<exists>r g1 g2 g r1 r2. new_unsplit (0 :: nat) 4 = Inr r \<and> read_segments r 2 True = Some (Inr (g1, r1)) \<and>
    read_segments r1 3 True = Some (Inr (g2, r2)) \<and> read_segments r 5 True = Some (Inr (g, r2)) \<and>
    concat (map expand g) = concat (map expand g1) @ concat (map expand g2)"
proof -
  obtain r where r: "new_unsplit (0 :: nat) 4 = Inr r" "ring_holds r []"
    using new_unsplit_holds [of "0 :: nat" 4] by blast
  then show ?thesis
    using ring_chunked_reads [OF r(2), of 2 3] by simp
qed

text \<open>
  An input longer than the ring whose length is not a multiple of the capacity is stored from the
  old head on: the reader gets the last samples rotated.
\<close>

lemma ring_write_rotates:
  "(case new_unsplit (0 :: nat) 4 of Inr r \<Rightarrow>
      (case ring_write [1, 2, 3, 4, 5, 6] r of Inr (report, r) \<Rightarrow>
         report = Partial 4 \<and> (case ring_read [0, 0, 0, 0, 0, 0] r of
           Some (Inr (_, out, _)) \<Rightarrow> out = [0, 0, 5, 6, 3, 4] | _ \<Rightarrow> False)))"
  by code_simp

text \<open>
  The report of a read over a gap in the middle counts it with the underflow at the end, so the
  zero fill silences the last samples instead of the gap.
\<close>

lemma zero_fill_misses_gap:
  "(case new_unsplit (0 :: nat) 4 of Inr r \<Rightarrow>
     (case ring_write [1] r of Inr (_, r) \<Rightarrow>
     (case advance_timeline 1 r of Inr r \<Rightarrow>
     (case ring_write [2] r of Inr (_, r) \<Rightarrow>
     (case ring_read [9, 9, 9] r of
        Some (Inr (Inl x, out, _)) \<Rightarrow>
          out = [1, 9, 2] \<and> zero_fill_overflow_and_underflow 0 x out = Inr [1, 9, 0]
      | _ \<Rightarrow> False)))))"
  by code_simp

section \<open>Capacities\<close>

lemma gcd_usize_eq: "gcd_usize a b = gcd a b"
proof (induction a b rule: gcd_usize.induct)
  case (1 a b)
  then show ?case
    by (subst gcd_usize.simps) (auto simp: gcd_red_nat [of a b])
qed

text \<open>
  Where pages are a power of two, the capacity \<open>spsc\<close> chooses fills whole pages, so that the mapped
  storage is never refused for its size (\<open>map_len_bytes % page_size\<close>), and is at least the size asked for.
\<close>

lemma dvd_power_of_two: "(d :: nat) dvd 2 ^ p \<Longrightarrow> \<exists>q. d = 2 ^ q"
proof (induction p arbitrary: d)
  case 0
  then show ?case
    by (auto intro: exI [of _ 0])
next
  case (Suc p)
  show ?case
  proof (cases "even d")
    case True
    then obtain e where e: "d = 2 * e" ..
    then obtain q where "e = 2 ^ q"
      using Suc by auto
    then show ?thesis
      using e by (auto intro: exI [of _ "Suc q"])
  next
    case False
    then have "d dvd 2 ^ p"
      using Suc(2) by (simp add: coprime_dvd_mult_right_iff)
    then show ?thesis
      by (rule Suc(1))
  qed
qed

lemma spsc_page_aligned:
  assumes "0 < elem_size"
  shows "\<exists>r. spsc dflt elem_size (Some (2 ^ p)) n = Inr r \<and> ring_holds r [] \<and> n \<le> rb_capacity r \<and>
    2 ^ p dvd rb_capacity r * elem_size"
proof -
  let ?page = "2 ^ p :: nat" and ?sz = "next_power_of_two (max n 1)"
  let ?g = "gcd elem_size ?page"
  let ?al = "max ?sz (?page div ?g)"
  have pos: "0 < ?sz" and le: "n \<le> ?sz"
    using next_power_of_two [of "max n 1"] by simp_all
  have al: "mmap_aligned_capacity elem_size (Some ?page) ?sz = Some ?al"
    using pos assms by (simp add: mmap_aligned_capacity_def gcd_usize_eq Let_def)
  obtain k where k: "next_power_of_two ?al = 2 ^ k" "?al \<le> 2 ^ k"
    using next_power_of_two [of ?al] by metis
  have "?page div ?g dvd ?page"
    by (metis dvd_div_mult_self dvd_triv_left gcd_dvd2)
  then obtain q where "?page div ?g = 2 ^ q"
    using dvd_power_of_two by blast
  moreover from this have "2 ^ q \<le> (2 :: nat) ^ k"
    using k(2) by simp
  ultimately have "?page div ?g dvd 2 ^ k"
    by (simp add: le_imp_power_dvd)
  then have "?page div ?g * ?g dvd 2 ^ k * elem_size"
    by (rule mult_dvd_mono) (rule gcd_dvd1)
  moreover have "?page div ?g * ?g = ?page"
    by (rule dvd_div_mult_self) (rule gcd_dvd2)
  ultimately have dvd: "?page dvd 2 ^ k * elem_size"
    by (simp only:)
  obtain r where r: "new_unsplit dflt ?al = Inr r" "ring_holds r []"
    using new_unsplit_holds [of dflt ?al] by metis
  have "spsc dflt elem_size (Some ?page) n = new_unsplit dflt ?al"
    by (simp only: spsc_def Let_def al option.case)
  moreover have cap: "rb_capacity r = 2 ^ k"
    using r(1) unfolding new_unsplit_def k(1) Let_def by (auto simp: max_absorb1)
  moreover have "n \<le> 2 ^ k"
    using le k(2) by linarith
  ultimately show ?thesis
    using r dvd by metis
qed

text \<open>What the other observers of the ring report.\<close>

lemma readable_slice_samples:
  fixes r :: "'a ring_buffer"
  assumes hist: "ring_holds r hist" and no_gap: "gap_times r = {}"
  shows "\<exists>slice. readable_slice r = Inr (peek_overflow r, slice) \<and>
    map Sample slice = map (tick_at hist (rb_capacity r)) [rb_read_head r + peek_overflow r..<rb_write_head r]"
proof -
  let ?c = "rb_capacity r" and ?W = "rb_write_head r" and ?s = "rb_read_head r + peek_overflow r"
  note ok = ring_holdsD [OF hist]
  have eq: "readable_slice r = (if ?W - ?s = 0 then Inr (peek_overflow r, [])
      else sum_bind (sub_slice (rb_ring r) (?s mod ?c) (?s mod ?c + min (?W - ?s) ?c))
        (\<lambda>slice. Inr (peek_overflow r, slice)))"
    by (simp only: readable_slice_def peek_overflow_def Let_def logical_index [OF ok(1)])
  show ?thesis
  proof (cases "?W \<le> ?s")
    case True
    then show ?thesis
      by (simp add: eq)
  next
    case False
    have win: "?W \<le> ?s + ?c"
      unfolding peek_overflow_def by linarith
    obtain d where "sub_slice (rb_ring r) (?s mod ?c) (?s mod ?c + (?W - ?s)) = Inr d"
      "map Sample d = map (tick_at hist ?c) [?s..<?s + (?W - ?s)]"
      using data_segment [OF hist, of ?s "?W - ?s"] False win no_gap by auto
    moreover have "min (?W - ?s) ?c = ?W - ?s" and "?W - ?s \<noteq> 0" and "?s + (?W - ?s) = ?W"
      using win False by linarith+
    ultimately show ?thesis
      by (simp only: eq if_False sum_bind_simps) blast
  qed
qed

lemma ring_stat_consistent:
  "rs_overflow (ring_stat r) = peek_overflow r" "rs_readable (ring_stat r) = read_span r n False \<or> n < rs_readable (ring_stat r)"
  "rs_written (ring_stat r) + rs_underflow (ring_stat r) = rs_consumed (ring_stat r) + rs_readable (ring_stat r)"
  by (auto simp: ring_stat_def peek_overflow_def read_span_def Let_def)

end
