(* ===== verification/Text_Encoding.thy ===== *)
theory Text_Encoding
  imports Prelude
begin

text \<open>
  The strings of Rust's standard library over their bytes: validity of UTF-8, conversion to UTF-16, and
  the decoding that replaces what is not UTF-8.
\<close>

section \<open>Strings\<close>

text \<open>\<open>core::str::from_utf8\<close>: the code points of well-formed UTF-8.\<close>

definition is_cont :: "u8 \<Rightarrow> bool" where
  "is_cont b \<longleftrightarrow> 0x80 \<le> b \<and> b \<le> 0xBF"

definition utf8_second :: "u8 \<Rightarrow> u8 \<Rightarrow> bool" where
  "utf8_second lead b \<longleftrightarrow>
     (if lead = 0xE0 then 0xA0 \<le> b \<and> b \<le> 0xBF
      else if lead = 0xED then 0x80 \<le> b \<and> b \<le> 0x9F
      else if lead = 0xF0 then 0x90 \<le> b \<and> b \<le> 0xBF
      else if lead = 0xF4 then 0x80 \<le> b \<and> b \<le> 0x8F
      else is_cont b)"

fun utf8_chars :: "u8 list \<Rightarrow> nat list option" where
  "utf8_chars [] = Some []"
| "utf8_chars (a # rest) =
     (if a < 0x80 then map_option (\<lambda>cs. unat a # cs) (utf8_chars rest)
      else if 0xC2 \<le> a \<and> a \<le> 0xDF then
        (case rest of
           b # rest' \<Rightarrow>
             if is_cont b
             then map_option (\<lambda>cs. ((unat a - 192) * 64 + (unat b - 128)) # cs) (utf8_chars rest')
             else None
         | [] \<Rightarrow> None)
      else if 0xE0 \<le> a \<and> a \<le> 0xEF then
        (case rest of
           b # c # rest' \<Rightarrow>
             if utf8_second a b \<and> is_cont c
             then map_option (\<lambda>cs. ((unat a - 224) * 4096 + (unat b - 128) * 64 + (unat c - 128)) # cs)
               (utf8_chars rest')
             else None
         | _ \<Rightarrow> None)
      else if 0xF0 \<le> a \<and> a \<le> 0xF4 then
        (case rest of
           b # c # d # rest' \<Rightarrow>
             if utf8_second a b \<and> is_cont c \<and> is_cont d
             then map_option (\<lambda>cs. ((unat a - 240) * 262144 + (unat b - 128) * 4096 +
               (unat c - 128) * 64 + (unat d - 128)) # cs) (utf8_chars rest')
             else None
         | _ \<Rightarrow> None)
      else None)"

definition is_str :: "u8 list \<Rightarrow> bool" where
  "is_str bytes \<longleftrightarrow> utf8_chars bytes \<noteq> None"

definition is_ascii :: "u8 list \<Rightarrow> bool" where
  "is_ascii bytes \<longleftrightarrow> list_all (\<lambda>b. b < 0x80) bytes"

definition utf16_of :: "nat \<Rightarrow> u16 list" where
  "utf16_of c =
     (if c < 0x10000 then [of_nat c]
      else [of_nat (0xD800 + (c - 0x10000) div 1024), of_nat (0xDC00 + (c - 0x10000) mod 1024)])"

text \<open>\<open>str::encode_utf16\<close>.\<close>

definition encode_utf16 :: "u8 list \<Rightarrow> u16 list" where
  "encode_utf16 s = concat (map utf16_of (case utf8_chars s of Some cs \<Rightarrow> cs | None \<Rightarrow> []))"

lemma ascii_chars: "is_ascii s \<Longrightarrow> utf8_chars s = Some (map unat s)"
  by (induction s) (simp_all add: is_ascii_def)

lemma ascii_is_str: "is_ascii s \<Longrightarrow> is_str s"
  by (simp add: is_str_def ascii_chars)

lemma ascii_utf16: "is_ascii s \<Longrightarrow> encode_utf16 s = map (\<lambda>b. ucast b) s"
proof -
  assume ascii: "is_ascii s"
  have "concat (map utf16_of (map unat s)) = map (\<lambda>b. of_nat (unat b)) s"
  proof (induction s)
    case (Cons b s)
    then show ?case
      using u8_range [of b] by (simp add: utf16_of_def)
  qed simp
  then show ?thesis
    using ascii by (simp add: encode_utf16_def ascii_chars)
qed

section \<open>Lossy decoding\<close>

text \<open>
  \<open>String::from_utf8_lossy\<close>: the longest prefix of a character that may still be completed is replaced
  by U+FFFD, as is every byte that begins none.
\<close>

definition replacement :: "u8 list" where
  "replacement = [0xEF, 0xBF, 0xBD]"

function from_utf8_lossy :: "u8 list \<Rightarrow> u8 list" where
  "from_utf8_lossy [] = []"
| "from_utf8_lossy (a # rest) =
     (if a < 0x80 then a # from_utf8_lossy rest
      else if 0xC2 \<le> a \<and> a \<le> 0xF4 then
        (case rest of
           [] \<Rightarrow> replacement
         | b # rest2 \<Rightarrow>
             if \<not> utf8_second a b then replacement @ from_utf8_lossy rest
             else if a \<le> 0xDF then a # b # from_utf8_lossy rest2
             else
               (case rest2 of
                  [] \<Rightarrow> replacement
                | c # rest3 \<Rightarrow>
                    if \<not> is_cont c then replacement @ from_utf8_lossy rest2
                    else if a \<le> 0xEF then a # b # c # from_utf8_lossy rest3
                    else
                      (case rest3 of
                         [] \<Rightarrow> replacement
                       | d # rest4 \<Rightarrow>
                           if \<not> is_cont d then replacement @ from_utf8_lossy rest3
                           else a # b # c # d # from_utf8_lossy rest4)))
      else replacement @ from_utf8_lossy rest)"
  by pat_completeness auto
termination
  by (relation "measure length") auto

lemma replacement_chars: "utf8_chars (replacement @ rest) = map_option ((#) 0xFFFD) (utf8_chars rest)"
  by (simp add: replacement_def utf8_second_def is_cont_def)

lemma replacement_alone: "utf8_chars replacement = Some [0xFFFD]"
  using replacement_chars [of "[]"] by simp

lemma lossy_is_str: "is_str (from_utf8_lossy bytes)"
proof (induction bytes rule: from_utf8_lossy.induct)
  case (2 a rest)
  have range: "0xC2 \<le> a \<longleftrightarrow> 194 \<le> unat a"
    by (simp add: word_le_nat_alt)
  show ?case
    using 2 by (auto simp: is_str_def replacement_chars replacement_alone utf8_second_def word_le_nat_alt
        word_less_nat_alt not_le not_less split: list.split if_splits)
qed (simp add: is_str_def)

declare from_utf8_lossy.simps(2) [simp del]

lemma utf8_chars_cases:
  assumes "is_str (a # rest)"
  obtains (1) "a < 0x80" "is_str rest"
  | (2) b rest' where "\<not> a < 0x80" "0xC2 \<le> a" "a \<le> 0xDF" "rest = b # rest'" "is_cont b" "is_str rest'"
  | (3) b c rest' where "\<not> a < 0x80" "\<not> a \<le> 0xDF" "0xE0 \<le> a" "a \<le> 0xEF" "rest = b # c # rest'"
      "utf8_second a b" "is_cont c" "is_str rest'"
  | (4) b c d rest' where "\<not> a < 0x80" "\<not> a \<le> 0xEF" "0xF0 \<le> a" "a \<le> 0xF4" "rest = b # c # d # rest'"
      "utf8_second a b" "is_cont c" "is_cont d" "is_str rest'"
proof -
  have far: "\<not> a \<le> 0xDF" if "0xE0 \<le> a"
    using that by (simp add: word_le_nat_alt)
  have further: "\<not> a \<le> 0xEF" if "0xF0 \<le> a"
    using that by (simp add: word_le_nat_alt)
  have chars: "utf8_chars (a # rest) \<noteq> None"
    using assms by (simp add: is_str_def)
  have lead: "a < 0x80 \<or> (0xC2 \<le> a \<and> a \<le> 0xDF) \<or> (0xE0 \<le> a \<and> a \<le> 0xEF) \<or> (0xF0 \<le> a \<and> a \<le> 0xF4)"
  proof (rule ccontr)
    assume other: "\<not> ?thesis"
    have "utf8_chars (a # rest) = None"
      unfolding utf8_chars.simps(2) using other by (simp only: if_False de_Morgan_disj)
    then show False
      using chars by contradiction
  qed
  consider "a < 0x80" | "\<not> a < 0x80" "0xC2 \<le> a \<and> a \<le> 0xDF"
    | "\<not> a < 0x80" "\<not> (0xC2 \<le> a \<and> a \<le> 0xDF)" "0xE0 \<le> a \<and> a \<le> 0xEF"
    | "\<not> a < 0x80" "\<not> (0xC2 \<le> a \<and> a \<le> 0xDF)" "\<not> (0xE0 \<le> a \<and> a \<le> 0xEF)" "0xF0 \<le> a \<and> a \<le> 0xF4"
    using lead by blast
  then show thesis
  proof cases
    case 1
    then show thesis
      using chars that(1) by (simp add: is_str_def)
  next
    case 2
    then obtain b rest' where "rest = b # rest'"
      using chars by (cases rest) simp_all
    then show thesis
      using 2 chars that(2) [of b rest'] by (simp add: is_str_def split: if_splits)
  next
    case 3
    then obtain b c rest' where "rest = b # c # rest'"
      using chars by (cases rest; cases "tl rest") simp_all
    then show thesis
      using 3 chars far that(3) [of b c rest'] by (simp add: is_str_def split: if_splits)
  next
    case 4
    then obtain b c d rest' where "rest = b # c # d # rest'"
      using chars by (cases rest; cases "tl rest"; cases "tl (tl rest)") simp_all
    then show thesis
      using 4 chars further that(4) [of b c d rest'] by (simp add: is_str_def split: if_splits)
  qed
qed

lemma lossy_str: "is_str bytes \<Longrightarrow> from_utf8_lossy bytes = bytes"
proof (induction "length bytes" arbitrary: bytes rule: less_induct)
  case less
  show ?case
  proof (cases bytes)
    case (Cons a rest)
    have lead: "a \<le> 0xF4" if "a \<le> 0xEF"
      using that by (simp add: word_le_nat_alt)
    have wide: "0xC2 \<le> a" if "0xE0 \<le> a"
      using that by (simp add: word_le_nat_alt)
    have "is_str (a # rest)"
      using less.prems Cons by simp
    then show ?thesis
    proof (cases rule: utf8_chars_cases)
      case 1
      then show ?thesis
        using less.hyps [of rest] Cons by (simp add: from_utf8_lossy.simps(2))
    next
      case (2 b rest')
      moreover from this have "a \<le> 0xF4" "utf8_second a b"
        by (auto simp: word_le_nat_alt utf8_second_def)
      ultimately show ?thesis
        using less.hyps [of rest'] Cons by (simp add: from_utf8_lossy.simps(2))
    next
      case (3 b c rest')
      then show ?thesis
        using less.hyps [of rest'] Cons lead wide by (simp add: from_utf8_lossy.simps(2))
    next
      case (4 b c d rest')
      moreover from this have "\<not> a \<le> 0xDF" "0xC2 \<le> a"
        by (simp_all add: word_le_nat_alt)
      ultimately show ?thesis
        using less.hyps [of rest'] Cons by (simp add: from_utf8_lossy.simps(2))
    qed
  qed simp
qed

end
