(* ===== verification/Plist_Format.thy ===== *)
theory Plist_Format
  imports Text_Encoding
begin

text \<open>
  \<open>core/catplay_plist/src/bplist/wire/format.rs\<close>: constants, integers and the trailer of binary
  property lists.
\<close>

section \<open>Constants\<close>

definition HEADER :: "u8 list" where
  "HEADER = [0x62, 0x70, 0x6C, 0x69, 0x73, 0x74, 0x30, 0x30]"

definition TRAILER_SIZE :: usize where
  "TRAILER_SIZE = 32"

abbreviation marker_FALSE :: u8 where "marker_FALSE \<equiv> 0x08"
abbreviation marker_TRUE :: u8 where "marker_TRUE \<equiv> 0x09"
abbreviation marker_INTEGER :: u8 where "marker_INTEGER \<equiv> 0x10"
abbreviation marker_REAL :: u8 where "marker_REAL \<equiv> 0x20"
abbreviation marker_DATE :: u8 where "marker_DATE \<equiv> 0x30"
abbreviation marker_DATA :: u8 where "marker_DATA \<equiv> 0x40"
abbreviation marker_ASCII :: u8 where "marker_ASCII \<equiv> 0x50"
abbreviation marker_UTF16 :: u8 where "marker_UTF16 \<equiv> 0x60"
abbreviation marker_UID :: u8 where "marker_UID \<equiv> 0x80"
abbreviation marker_ARRAY :: u8 where "marker_ARRAY \<equiv> 0xA0"
abbreviation marker_DICTIONARY :: u8 where "marker_DICTIONARY \<equiv> 0xD0"
abbreviation EXTENDED_LENGTH :: u8 where "EXTENDED_LENGTH \<equiv> 0x0F"

section \<open>Integers\<close>

definition integer_width :: "u64 \<Rightarrow> usize" where
  "integer_width value =
     (if value \<le> 0xFF then 1 else if value \<le> 0xFFFF then 2 else if value \<le> 0xFFFFFFFF then 4 else 8)"

definition valid_read_width :: "usize \<Rightarrow> bool" where
  "valid_read_width width \<longleftrightarrow> width \<in> {1, 2, 3, 4, 8}"

definition read_integer :: "u8 list \<Rightarrow> u64" where
  "read_integer bytes = foldl (\<lambda>value byte. push_bit 8 value OR ucast byte) 0 bytes"

text \<open>\<open>value.to_be_bytes()[8 - width..]\<close>.\<close>

definition be_tail :: "usize \<Rightarrow> u64 \<Rightarrow> u8 list" where
  "be_tail width value = drop (8 - width) (be64_bytes value)"

section \<open>The trailer\<close>

record trailer =
  tr_offset_width :: u8
  tr_ref_width :: u8
  tr_object_count :: u64
  tr_root :: u64
  tr_table_offset :: u64

text \<open>\<open>bytes[i]\<close>; each index and slice of \<open>from_bytes\<close> panics out of range.\<close>

definition byte_at :: "u8 list \<Rightarrow> usize \<Rightarrow> panic + u8" where
  "byte_at bytes i = (case slice_get bytes i of None \<Rightarrow> Inl Index_Out_Of_Bounds | Some b \<Rightarrow> Inr b)"

definition trailer_from_bytes :: "u8 list \<Rightarrow> panic + trailer" where
  "trailer_from_bytes bytes =
     sum_bind (byte_at bytes 6) (\<lambda>offset_width.
     sum_bind (byte_at bytes 7) (\<lambda>ref_width.
     sum_bind (sub_slice bytes 8 16) (\<lambda>object_count.
     sum_bind (sub_slice bytes 16 24) (\<lambda>root.
     sum_bind (sub_slice bytes 24 32) (\<lambda>table_offset.
     Inr \<lparr>tr_offset_width = offset_width, tr_ref_width = ref_width, tr_object_count = read_integer object_count,
       tr_root = read_integer root, tr_table_offset = read_integer table_offset\<rparr>)))))"

definition trailer_to_bytes :: "trailer \<Rightarrow> u8 list" where
  "trailer_to_bytes t =
     replicate 6 0 @ [tr_offset_width t, tr_ref_width t] @ be64_bytes (tr_object_count t) @
     be64_bytes (tr_root t) @ be64_bytes (tr_table_offset t)"

section \<open>Lemmas\<close>

lemma be64_bytes_rev: "be64_bytes w = map (\<lambda>i. ucast (drop_bit (8 * i) w)) (rev [0..<8])"
  by (simp add: be64_bytes_def upt_rec)

lemma be_tail_rev: "width \<le> 8 \<Longrightarrow> be_tail width w = map (\<lambda>i. ucast (drop_bit (8 * i) w)) (rev [0..<width])"
  by (simp add: be_tail_def be64_bytes_rev drop_map drop_rev take_upt)

lemma length_be_tail [simp]: "width \<le> 8 \<Longrightarrow> length (be_tail width w) = width"
  by (simp add: be_tail_def)

lemma be_tail_8 [simp]: "be_tail 8 w = be64_bytes w"
  by (simp add: be_tail_def)

lemma read_tail_from:
  "foldl (\<lambda>value byte. push_bit 8 value OR ucast byte) (drop_bit (8 * width) w)
     (map (\<lambda>i. ucast (drop_bit (8 * i) w) :: u8) (rev [0..<width])) = (w :: u64)"
proof (induction width)
  case (Suc width)
  then show ?case
    using be64_horner_step [of "8 * width" w] by (simp add: add.commute)
qed simp

lemma read_be_tail:
  assumes "width \<le> 8" and "unat w < 256 ^ width"
  shows "read_integer (be_tail width w) = w"
proof -
  have "256 ^ width = (2 :: nat) ^ (8 * width)"
    by (simp add: power_mult)
  then have "unat w div 2 ^ (8 * width) = 0"
    using assms(2) by simp
  moreover have "unat (drop_bit (8 * width) w) = drop_bit (8 * width) (unat w)"
    by (rule unat_drop_bit_eq)
  ultimately have "unat (drop_bit (8 * width) w) = 0"
    by (simp only: drop_bit_eq_div [of _ "unat w"])
  then have "drop_bit (8 * width) w = 0"
    by (simp only: unat_eq_zero)
  then show ?thesis
    using read_tail_from [of width w] by (simp add: read_integer_def be_tail_rev [OF assms(1)])
qed

lemma read_be64 [simp]: "read_integer (be64_bytes w) = w"
  using read_be_tail [of 8 w] unat_range [of w] by simp

lemma integer_width_cases: "integer_width w \<in> {1, 2, 4, 8}"
  by (simp add: integer_width_def)

lemma integer_width_le: "integer_width w \<le> 8" "0 < integer_width w"
  using integer_width_cases [of w] by auto

lemma integer_width_fits: "unat w < 256 ^ integer_width w"
  using unat_range [of w] by (auto simp: integer_width_def word_le_nat_alt)

lemma integer_width_mono:
  assumes "unat v \<le> unat w"
  shows "unat v < 256 ^ integer_width w"
  using assms integer_width_fits [of w] by linarith

lemma valid_integer_width: "valid_read_width (integer_width w)"
  using integer_width_cases [of w] by (auto simp: valid_read_width_def)

lemma length_trailer [simp]: "length (trailer_to_bytes t) = 32"
  by (simp add: trailer_to_bytes_def)

lemma byte_at_ok [simp]: "i < length bytes \<Longrightarrow> byte_at bytes i = Inr (bytes ! i)"
  by (simp add: byte_at_def slice_get_def)

lemma trailer_roundtrip: "trailer_from_bytes (trailer_to_bytes t) = Inr t"
  by (cases t) (simp add: trailer_from_bytes_def trailer_to_bytes_def nth_append)

lemma trailer_inside: "32 \<le> length bytes \<Longrightarrow> \<exists>t. trailer_from_bytes bytes = Inr t"
  by (simp add: trailer_from_bytes_def)

end
