(* ===== verification/Plist_Encode.thy ===== *)
theory Plist_Encode
  imports Plist_Format
begin

text \<open>
  \<open>core/catplay_plist/src/bplist/wire/encode.rs\<close>: the writer of binary property lists over
  scratch the caller owns. The sink is any \<open>emit\<close> of bytes into a state, which may fail; the
  index of objects is \<open>SequentialObjectIndex\<close>, the only one there is. Numbers a client hands in
  (\<open>f64\<close>) are their bits. A method that fails returns what made it fail and no encoder: the code
  drops the encoder then.
\<close>

section \<open>Data\<close>

record ref_edge =
  edge_object :: u64
  edge_next :: "usize option"

record collection =
  col_object :: u64
  col_first :: "usize option"
  col_count :: usize
  col_dictionary :: bool

datatype scratch_kind = Offsets | Collections | Edges

datatype 'e encode_error =
    Emit_Error 'e
  | Scratch_Too_Small scratch_kind usize usize
  | Invalid_Collection
  | Encode_Overflow

text \<open>Why a method stopped: an error it returns, or a panic of an index.\<close>

datatype 'e encode_failure = Encode_Err "'e encode_error" | Encode_Panic panic

record collection_state =
  cs_object :: u64
  cs_first :: "usize option"
  cs_last :: "usize option"
  cs_count :: usize
  cs_dictionary :: bool

datatype scalar_ref =
    Scalar_Boolean bool
  | Scalar_Integer u64 bool
  | Scalar_Real u64
  | Scalar_Date u64
  | Scalar_Uid u64
  | Scalar_String "u8 list"
  | Scalar_Data "u8 list"

record intern_result =
  ir_id :: u64
  ir_is_new :: bool

text \<open>The three slices of the scratch, then the index, the position and the counters.\<close>

record 's encoder =
  en_sink :: 's
  en_offsets :: "u64 list"
  en_slots :: "collection list"
  en_edge_slots :: "ref_edge list"
  en_next :: u64
  en_position :: u64
  en_collections :: usize
  en_open :: usize
  en_edges :: usize

type_synonym ('s, 'e) emitter = "u8 list \<Rightarrow> 's \<Rightarrow> 'e + 's"

section \<open>The sequential index\<close>

definition index_unique :: "'s encoder \<Rightarrow> (u64 \<times> 's encoder) option" where
  "index_unique w =
     (if unat (en_next w) + 1 < 2 ^ 64 then Some (en_next w, w\<lparr>en_next := en_next w + 1\<rparr>) else None)"

definition index_scalar :: "scalar_ref \<Rightarrow> 's encoder \<Rightarrow> (intern_result \<times> 's encoder) option" where
  "index_scalar scalar w = map_option (\<lambda>(i, w). (\<lparr>ir_id = i, ir_is_new = True\<rparr>, w)) (index_unique w)"

section \<open>Writing\<close>

definition en_write :: "('s, 'e) emitter \<Rightarrow> u8 list \<Rightarrow> 's encoder \<Rightarrow> 'e encode_failure + 's encoder" where
  "en_write emit bytes w =
     (if unat (en_position w) + length bytes < 2 ^ 64 then
        (case emit bytes (en_sink w) of
           Inl e \<Rightarrow> Inl (Encode_Err (Emit_Error e))
         | Inr s \<Rightarrow> Inr (w\<lparr>en_sink := s, en_position := en_position w + of_nat (length bytes)\<rparr>))
      else Inl (Encode_Err Encode_Overflow))"

definition encoder_new ::
    "('s, 'e) emitter \<Rightarrow> u64 list \<Rightarrow> collection list \<Rightarrow> ref_edge list \<Rightarrow> 's \<Rightarrow> 'e encode_failure + 's encoder" where
  "encoder_new emit offsets collections edges sink =
     en_write emit HEADER
       \<lparr>en_sink = sink, en_offsets = offsets, en_slots = collections, en_edge_slots = edges,
        en_next = 0, en_position = 0, en_collections = 0, en_open = 0, en_edges = 0\<rparr>"

definition en_slot ::
    "scalar_ref option \<Rightarrow> 's encoder \<Rightarrow> 'e encode_failure + (u64 \<times> bool) \<times> 's encoder" where
  "en_slot scalar w =
     (case (case scalar of
              Some s \<Rightarrow> index_scalar s w
            | None \<Rightarrow> map_option (\<lambda>(i, w). (\<lparr>ir_id = i, ir_is_new = True\<rparr>, w)) (index_unique w)) of
        None \<Rightarrow> Inl (Encode_Err Encode_Overflow)
      | Some (result, w) \<Rightarrow>
          let n = unat (ir_id result)
          in if length (en_offsets w) \<le> n then
               Inl (Encode_Err (Scratch_Too_Small Offsets (n + 1) (length (en_offsets w))))
             else
               Inr ((ir_id result, ir_is_new result),
                 if ir_is_new result then w\<lparr>en_offsets := (en_offsets w)[n := en_position w]\<rparr> else w))"

definition scalar_bytes ::
    "('s, 'e) emitter \<Rightarrow> scalar_ref \<Rightarrow> u8 list \<Rightarrow> 's encoder \<Rightarrow> 'e encode_failure + u64 \<times> 's encoder" where
  "scalar_bytes emit scalar bytes w =
     sum_bind (en_slot (Some scalar) w) (\<lambda>((i, new), w).
     if new then sum_bind (en_write emit bytes w) (\<lambda>w. Inr (i, w)) else Inr (i, w))"

definition en_boolean :: "('s, 'e) emitter \<Rightarrow> bool \<Rightarrow> 's encoder \<Rightarrow> 'e encode_failure + u64 \<times> 's encoder" where
  "en_boolean emit value =
     scalar_bytes emit (Scalar_Boolean value) [if value then marker_TRUE else marker_FALSE]"

text \<open>The used part of the buffer of 17 bytes.\<close>

definition integer_bytes :: "u64 \<Rightarrow> bool \<Rightarrow> u8 list" where
  "integer_bytes value signed_negative =
     (let (mark, width) =
        (if signed_negative then (marker_INTEGER OR 3, 8)
         else if value \<le> 0xFF then (marker_INTEGER, 1)
         else if value \<le> 0xFFFF then (marker_INTEGER OR 1, 2)
         else if value \<le> 0xFFFFFFFF then (marker_INTEGER OR 2, 4)
         else if value \<le> 0x7FFFFFFFFFFFFFFF then (marker_INTEGER OR 3, 8)
         else (marker_INTEGER OR 4, 16))
      in mark # (if width \<le> 8 then be_tail width value else replicate 8 0 @ be64_bytes value))"

definition en_unsigned_integer ::
    "('s, 'e) emitter \<Rightarrow> u64 \<Rightarrow> bool \<Rightarrow> 's encoder \<Rightarrow> 'e encode_failure + u64 \<times> 's encoder" where
  "en_unsigned_integer emit value signed_negative =
     scalar_bytes emit (Scalar_Integer value signed_negative) (integer_bytes value signed_negative)"

text \<open>An \<open>i64\<close> is its 64 bits; \<open>value < 0\<close> is its sign.\<close>

definition en_integer :: "('s, 'e) emitter \<Rightarrow> u64 \<Rightarrow> 's encoder \<Rightarrow> 'e encode_failure + u64 \<times> 's encoder" where
  "en_integer emit value = en_unsigned_integer emit value (sint value < 0)"

definition en_real :: "('s, 'e) emitter \<Rightarrow> u64 \<Rightarrow> 's encoder \<Rightarrow> 'e encode_failure + u64 \<times> 's encoder" where
  "en_real emit bits = scalar_bytes emit (Scalar_Real bits) ((marker_REAL OR 3) # be64_bytes bits)"

definition en_date :: "('s, 'e) emitter \<Rightarrow> u64 \<Rightarrow> 's encoder \<Rightarrow> 'e encode_failure + u64 \<times> 's encoder" where
  "en_date emit bits = scalar_bytes emit (Scalar_Date bits) ((marker_DATE OR 3) # be64_bytes bits)"

definition en_uid :: "('s, 'e) emitter \<Rightarrow> u64 \<Rightarrow> 's encoder \<Rightarrow> 'e encode_failure + u64 \<times> 's encoder" where
  "en_uid emit value =
     (let width = integer_width value
      in scalar_bytes emit (Scalar_Uid value)
           ((marker_UID OR of_nat (width - 1)) # be_tail width value))"

text \<open>\<open>usize::trailing_zeros\<close>, for a width.\<close>

fun usize_trailing_zeros :: "usize \<Rightarrow> nat" where
  "usize_trailing_zeros n =
     (if n = 0 then 64 else if even n then Suc (usize_trailing_zeros (n div 2)) else 0)"

declare usize_trailing_zeros.simps [simp del]

definition en_sized :: "('s, 'e) emitter \<Rightarrow> u8 \<Rightarrow> usize \<Rightarrow> 's encoder \<Rightarrow> 'e encode_failure + 's encoder" where
  "en_sized emit kind n w =
     (if n < 15 then en_write emit [kind OR of_nat n] w
      else
        sum_bind (en_write emit [kind OR EXTENDED_LENGTH] w) (\<lambda>w.
        let len = of_nat n;
            width = integer_width len
        in sum_bind (en_write emit [marker_INTEGER OR of_nat (usize_trailing_zeros width)] w) (\<lambda>w.
           en_write emit (be_tail width len) w)))"

definition en_data :: "('s, 'e) emitter \<Rightarrow> u8 list \<Rightarrow> 's encoder \<Rightarrow> 'e encode_failure + u64 \<times> 's encoder" where
  "en_data emit value w =
     sum_bind (en_slot (Some (Scalar_Data value)) w) (\<lambda>((i, new), w).
     if new then
       sum_bind (en_sized emit marker_DATA (length value) w) (\<lambda>w.
       sum_bind (en_write emit value w) (\<lambda>w. Inr (i, w)))
     else Inr (i, w))"

text \<open>The loop over code units with its buffer of 128 bytes, and the write of its rest.\<close>

fun write_utf16 :: "('s, 'e) emitter \<Rightarrow> u16 list \<Rightarrow> u8 list \<Rightarrow> 's encoder \<Rightarrow> 'e encode_failure + 's encoder" where
  "write_utf16 emit [] buf w = (if buf \<noteq> [] then en_write emit buf w else Inr w)"
| "write_utf16 emit (code # codes) buf w =
     (let buf = buf @ be16_bytes code
      in if length buf = 128 then sum_bind (en_write emit buf w) (write_utf16 emit codes [])
         else write_utf16 emit codes buf w)"

definition en_string :: "('s, 'e) emitter \<Rightarrow> u8 list \<Rightarrow> 's encoder \<Rightarrow> 'e encode_failure + u64 \<times> 's encoder" where
  "en_string emit value w =
     sum_bind (en_slot (Some (Scalar_String value)) w) (\<lambda>((i, new), w).
     if new then
       sum_bind
         (if is_ascii value then
            sum_bind (en_sized emit marker_ASCII (length value) w) (en_write emit value)
          else
            sum_bind (en_sized emit marker_UTF16 (length (encode_utf16 value)) w)
              (write_utf16 emit (encode_utf16 value) []))
         (\<lambda>w. Inr (i, w))
     else Inr (i, w))"

section \<open>Collections\<close>

definition en_begin :: "bool \<Rightarrow> 's encoder \<Rightarrow> 'e encode_failure + collection_state \<times> 's encoder" where
  "en_begin dictionary w =
     sum_bind (en_slot None w) (\<lambda>((object, _), w).
     case checked_add (en_open w) 1 of
       None \<Rightarrow> Inl (Encode_Err Encode_Overflow)
     | Some n \<Rightarrow>
         Inr (\<lparr>cs_object = object, cs_first = None, cs_last = None, cs_count = 0,
               cs_dictionary = dictionary\<rparr>, w\<lparr>en_open := n\<rparr>))"

definition en_child ::
    "collection_state \<Rightarrow> u64 \<Rightarrow> 's encoder \<Rightarrow> 'e encode_failure + collection_state \<times> 's encoder" where
  "en_child state object w =
     (if en_next w \<le> object then Inl (Encode_Err Invalid_Collection)
      else if length (en_edge_slots w) \<le> en_edges w then
        Inl (Encode_Err (Scratch_Too_Small Edges (en_edges w + 1) (length (en_edge_slots w))))
      else
        let edge = en_edges w;
            slots = (en_edge_slots w)[edge := \<lparr>edge_object = object, edge_next = None\<rparr>];
            w = w\<lparr>en_edges := edge + 1\<rparr>
        in sum_bind
             (case cs_last state of
                Some prev \<Rightarrow>
                  if prev < length slots
                  then Inr (slots[prev := (slots ! prev)\<lparr>edge_next := Some edge\<rparr>], cs_first state)
                  else Inl (Encode_Panic Index_Out_Of_Bounds)
              | None \<Rightarrow> Inr (slots, Some edge)) (\<lambda>(slots, first).
           case checked_add (cs_count state) 1 of
             None \<Rightarrow> Inl (Encode_Err Encode_Overflow)
           | Some n \<Rightarrow>
               Inr (state\<lparr>cs_first := first, cs_last := Some edge, cs_count := n\<rparr>,
                 w\<lparr>en_edge_slots := slots\<rparr>)))"

definition en_end :: "collection_state \<Rightarrow> 's encoder \<Rightarrow> 'e encode_failure + u64 \<times> 's encoder" where
  "en_end state w =
     (if en_open w = 0 \<or> en_next w \<le> cs_object state then Inl (Encode_Err Invalid_Collection)
      else if cs_dictionary state \<and> cs_count state mod 2 \<noteq> 0 then Inl (Encode_Err Invalid_Collection)
      else if length (en_slots w) \<le> en_collections w then
        Inl (Encode_Err (Scratch_Too_Small Collections (en_collections w + 1) (length (en_slots w))))
      else
        Inr (cs_object state,
          w\<lparr>en_slots := (en_slots w)[en_collections w :=
                \<lparr>col_object = cs_object state, col_first = cs_first state, col_count = cs_count state,
                 col_dictionary = cs_dictionary state\<rparr>],
            en_collections := en_collections w + 1, en_open := en_open w - 1\<rparr>))"

section \<open>Finishing\<close>

definition write_ref :: "('s, 'e) emitter \<Rightarrow> u64 \<Rightarrow> usize \<Rightarrow> 's encoder \<Rightarrow> 'e encode_failure + 's encoder" where
  "write_ref emit object width = en_write emit (be_tail width object)"

text \<open>The walk along the edges of a collection from its \<open>n\<close>-th child on: the children \<open>keep\<close> picks are written.\<close>

fun write_edges ::
    "('s, 'e) emitter \<Rightarrow> usize \<Rightarrow> (nat \<Rightarrow> bool) \<Rightarrow> nat \<Rightarrow> nat \<Rightarrow> usize option \<Rightarrow> 's encoder \<Rightarrow>
     'e encode_failure + 's encoder" where
  "write_edges emit width keep n 0 edge w = Inr w"
| "write_edges emit width keep n (Suc todo) edge w =
     (case edge of
        None \<Rightarrow> Inl (Encode_Err Invalid_Collection)
      | Some e \<Rightarrow>
          (case slice_get (en_edge_slots w) e of
             None \<Rightarrow> Inl (Encode_Panic Index_Out_Of_Bounds)
           | Some ed \<Rightarrow>
               sum_bind (if keep n then write_ref emit (edge_object ed) width w else Inr w)
                 (write_edges emit width keep (Suc n) todo (edge_next ed))))"

definition write_collection ::
    "('s, 'e) emitter \<Rightarrow> usize \<Rightarrow> collection \<Rightarrow> 's encoder \<Rightarrow> 'e encode_failure + 's encoder" where
  "write_collection emit ref_width c w =
     (if unat (col_object c) < length (en_offsets w) then
        let w = w\<lparr>en_offsets := (en_offsets w)[unat (col_object c) := en_position w]\<rparr>
        in sum_bind
             (en_sized emit (if col_dictionary c then marker_DICTIONARY else marker_ARRAY)
               (if col_dictionary c then col_count c div 2 else col_count c) w) (\<lambda>w.
           if col_dictionary c then
             sum_bind (write_edges emit ref_width (\<lambda>n. n mod 2 = 0) 0 (col_count c) (col_first c) w)
               (write_edges emit ref_width (\<lambda>n. n mod 2 = 1) 0 (col_count c) (col_first c))
           else write_edges emit ref_width (\<lambda>n. True) 0 (col_count c) (col_first c) w)
      else Inl (Encode_Panic Index_Out_Of_Bounds))"

text \<open>The loops over \<open>i\<close> in \<open>start..start + n\<close>.\<close>

fun write_collections ::
    "('s, 'e) emitter \<Rightarrow> usize \<Rightarrow> usize \<Rightarrow> nat \<Rightarrow> 's encoder \<Rightarrow> 'e encode_failure + 's encoder" where
  "write_collections emit ref_width start 0 w = Inr w"
| "write_collections emit ref_width start (Suc n) w =
     (case slice_get (en_slots w) start of
        None \<Rightarrow> Inl (Encode_Panic Index_Out_Of_Bounds)
      | Some c \<Rightarrow>
          sum_bind (write_collection emit ref_width c w)
            (write_collections emit ref_width (Suc start) n))"

fun write_offsets ::
    "('s, 'e) emitter \<Rightarrow> usize \<Rightarrow> usize \<Rightarrow> nat \<Rightarrow> 's encoder \<Rightarrow> 'e encode_failure + 's encoder" where
  "write_offsets emit width start 0 w = Inr w"
| "write_offsets emit width start (Suc n) w =
     (case slice_get (en_offsets w) start of
        None \<Rightarrow> Inl (Encode_Panic Index_Out_Of_Bounds)
      | Some offset \<Rightarrow>
          sum_bind (en_write emit (be_tail width offset) w) (write_offsets emit width (Suc start) n))"

definition en_finish :: "('s, 'e) emitter \<Rightarrow> u64 \<Rightarrow> 's encoder \<Rightarrow> 'e encode_failure + 's encoder" where
  "en_finish emit root w =
     (let num = en_next w
      in if num = 0 \<or> num \<le> root \<or> en_open w \<noteq> 0 then Inl (Encode_Err Invalid_Collection)
         else
           let ref_width = integer_width (num - 1)
           in sum_bind (write_collections emit ref_width 0 (en_collections w) w) (\<lambda>w.
              let table_offset = en_position w;
                  offset_width = integer_width table_offset
              in sum_bind (write_offsets emit offset_width 0 (unat num) w) (\<lambda>w.
                 en_write emit (trailer_to_bytes
                   \<lparr>tr_offset_width = of_nat offset_width, tr_ref_width = of_nat ref_width,
                    tr_object_count = num, tr_root = root, tr_table_offset = table_offset\<rparr>) w)))"

end
