(* ===== verification/Plist_Serde.thy ===== *)
theory Plist_Serde
  imports Plist_Format
begin

text \<open>
  The writing half of the serde adapter of property lists: \<open>bplist/serde/builder.rs\<close> and
  \<open>bplist/serde/encode.rs\<close> of \<open>core/catplay_plist\<close>, with the values of \<open>types/value.rs\<close>. The
  trait \<open>Builder\<close> is the record of its operations; what a type hands to its serializer is a tree of
  the calls it makes. Dates (whose seconds are computed with floats) are left out; numbers of
  type \<open>f64\<close> are their bits.
\<close>

section \<open>Values\<close>

text \<open>An \<open>Integer\<close> is an \<open>i128\<close>; a \<open>Dictionary\<close> keeps the order in which its keys came first.\<close>

datatype pvalue =
    P_Array "pvalue list"
  | P_Dictionary "(u8 list \<times> pvalue) list"
  | P_Boolean bool
  | P_Data "u8 list"
  | P_Real u64
  | P_Integer int
  | P_String "u8 list"
  | P_Uid u64

text \<open>\<open>Dictionary::insert\<close>: \<open>IndexMap\<close> replaces the value of a key it has in its place.\<close>

fun dictionary_insert :: "u8 list \<Rightarrow> 'v \<Rightarrow> (u8 list \<times> 'v) list \<Rightarrow> (u8 list \<times> 'v) list" where
  "dictionary_insert k v [] = [(k, v)]"
| "dictionary_insert k v ((k', v') # m) =
     (if k' = k then (k, v) # m else (k', v') # dictionary_insert k v m)"

section \<open>Builders\<close>

text \<open>The errors of the adapter; a panic of the writer counts with its errors. \<open>Message\<close> is the
  client's own.\<close>

datatype 'e ser_error = Ser_Core 'e | Missing_Value | Invalid_Map

type_synonym ('s, 'e, 'a) building = "'s \<Rightarrow> 'e ser_error + 'a \<times> 's"

record ('s, 'i, 'c, 'e) builder =
  b_boolean :: "bool \<Rightarrow> ('s, 'e, 'i) building"
  b_integer :: "u64 \<Rightarrow> ('s, 'e, 'i) building"
  b_unsigned_integer :: "u64 \<Rightarrow> ('s, 'e, 'i) building"
  b_real :: "u64 \<Rightarrow> ('s, 'e, 'i) building"
  b_string :: "u8 list \<Rightarrow> ('s, 'e, 'i) building"
  b_data :: "u8 list \<Rightarrow> ('s, 'e, 'i) building"
  b_uid :: "u64 \<Rightarrow> ('s, 'e, 'i) building"
  b_begin_array :: "('s, 'e, 'c) building"
  b_begin_dict :: "('s, 'e, 'c) building"
  b_child :: "'c \<Rightarrow> 'i \<Rightarrow> ('s, 'e, 'c) building"
  b_end :: "'c \<Rightarrow> ('s, 'e, 'i) building"

text \<open>\<open>ValueBuilder\<close> has no state.\<close>

datatype value_collection =
    Coll_Array "pvalue list"
  | Coll_Dictionary "(u8 list \<times> pvalue) list" "u8 list option"

definition value_child :: "value_collection \<Rightarrow> pvalue \<Rightarrow> 's \<Rightarrow> 'e ser_error + value_collection \<times> 's" where
  "value_child state value s =
     (case state of
        Coll_Array vs \<Rightarrow> Inr (Coll_Array (vs @ [value]), s)
      | Coll_Dictionary vs (Some key) \<Rightarrow> Inr (Coll_Dictionary (dictionary_insert key value vs) None, s)
      | Coll_Dictionary vs None \<Rightarrow>
          (case value of
             P_String key \<Rightarrow> Inr (Coll_Dictionary vs (Some key), s)
           | _ \<Rightarrow> Inl Invalid_Map))"

definition value_end :: "value_collection \<Rightarrow> 's \<Rightarrow> 'e ser_error + pvalue \<times> 's" where
  "value_end state s =
     (case state of
        Coll_Array vs \<Rightarrow> Inr (P_Array vs, s)
      | Coll_Dictionary vs None \<Rightarrow> Inr (P_Dictionary vs, s)
      | Coll_Dictionary _ (Some _) \<Rightarrow> Inl Invalid_Map)"

definition value_builder :: "('s, pvalue, value_collection, 'e) builder" where
  "value_builder =
     \<lparr>b_boolean = \<lambda>v s. Inr (P_Boolean v, s),
      b_integer = \<lambda>v s. Inr (P_Integer (sint v), s),
      b_unsigned_integer = \<lambda>v s. Inr (P_Integer (uint v), s),
      b_real = \<lambda>v s. Inr (P_Real v, s),
      b_string = \<lambda>v s. Inr (P_String v, s),
      b_data = \<lambda>v s. Inr (P_Data v, s),
      b_uid = \<lambda>v s. Inr (P_Uid v, s),
      b_begin_array = \<lambda>s. Inr (Coll_Array [], s),
      b_begin_dict = \<lambda>s. Inr (Coll_Dictionary [] None, s),
      b_child = value_child,
      b_end = value_end\<rparr>"

lemma value_builder_simps [simp]:
  "b_boolean value_builder b s = Inr (P_Boolean b, s)"
  "b_integer value_builder n s = Inr (P_Integer (sint n), s)"
  "b_unsigned_integer value_builder n s = Inr (P_Integer (uint n), s)"
  "b_real value_builder n s = Inr (P_Real n, s)"
  "b_string value_builder t s = Inr (P_String t, s)"
  "b_data value_builder t s = Inr (P_Data t, s)"
  "b_uid value_builder n s = Inr (P_Uid n, s)"
  "b_begin_array value_builder s = Inr (Coll_Array [], s)"
  "b_begin_dict value_builder s = Inr (Coll_Dictionary [] None, s)"
  "b_child value_builder = value_child"
  "b_end value_builder = value_end"
  by (simp_all add: value_builder_def)

lemma value_child_simps [simp]:
  "value_child (Coll_Array vs) v s = Inr (Coll_Array (vs @ [v]), s)"
  "value_child (Coll_Dictionary m (Some k)) v s = Inr (Coll_Dictionary (dictionary_insert k v m) None, s)"
  "value_child (Coll_Dictionary m None) (P_String t) s = Inr (Coll_Dictionary m (Some t), s)"
  by (simp_all add: value_child_def)

lemma value_end_simps [simp]:
  "value_end (Coll_Array vs) s = Inr (P_Array vs, s)"
  "value_end (Coll_Dictionary m None) s = Inr (P_Dictionary m, s)"
  by (simp_all add: value_end_def)

section \<open>What a client serializes\<close>

text \<open>
  The calls of serde's \<open>Serializer\<close>: a \<open>char\<close> is the string of it, a unit struct a unit, the
  narrower integers are widened, a tuple is a sequence. A map is the sequence of its calls of
  \<open>serialize_key\<close> and \<open>serialize_value\<close>, in any order a client may make them; a key is its string
  where the serializer \<open>StringKey\<close> takes it (a string, a \<open>char\<close>, a unit variant, a newtype of one), and
  \<open>None\<close> where it refuses it.
\<close>

datatype 'd map_call = Call_Key "u8 list option" | Call_Value 'd

datatype sdata =
    S_Bool bool
  | S_I64 u64
  | S_U64 u64
  | S_F64 u64
  | S_Str "u8 list"
  | S_Bytes "u8 list"
  | S_None
  | S_Some sdata
  | S_Unit
  | S_Unit_Variant "u8 list"
  | S_Uid u64
  | S_Newtype_Struct sdata
  | S_Newtype_Variant "u8 list" sdata
  | S_Seq "sdata list"
  | S_Tuple_Variant "u8 list" "sdata list"
  | S_Map "sdata map_call list"
  | S_Struct "(u8 list \<times> sdata) list"
  | S_Struct_Variant "u8 list" "(u8 list \<times> sdata) list"

datatype ser_mode = Mode_Root | Mode_Explicit | Mode_Field

text \<open>The names the adapter gives to options: \<open>"None"\<close> and \<open>"Some"\<close>.\<close>

definition name_None :: "u8 list" where "name_None = [0x4E, 0x6F, 0x6E, 0x65]"
definition name_Some :: "u8 list" where "name_Some = [0x53, 0x6F, 0x6D, 0x65]"

section \<open>The serializer\<close>

definition bind_item ::
    "'e ser_error + 'a \<times> 's \<Rightarrow> ('a \<Rightarrow> 's \<Rightarrow> 'e ser_error + 'b) \<Rightarrow> 'e ser_error + 'b" where
  "bind_item m f = sum_bind m (\<lambda>(x, s). f x s)"

text \<open>\<open>named\<close> once its value is there: a dictionary of one entry.\<close>

definition wrap_named :: "('s, 'i, 'c, 'e) builder \<Rightarrow> u8 list \<Rightarrow> 'i \<Rightarrow> ('s, 'e, 'i) building" where
  "wrap_named b name i s =
     bind_item (b_begin_dict b s) (\<lambda>c s.
     bind_item (b_string b name s) (\<lambda>key s.
     bind_item (b_child b c key s) (\<lambda>c s.
     bind_item (b_child b c i s) (\<lambda>c s.
     b_end b c s))))"

definition end_collection :: "('s, 'i, 'c, 'e) builder \<Rightarrow> 'c \<Rightarrow> ('s, 'e, 'i option) building" where
  "end_collection b c s = bind_item (b_end b c s) (\<lambda>i s. Inr (Some i, s))"

text \<open>\<open>Compound::finish\<close> with an outer dictionary, and its opening.\<close>

definition end_variant :: "('s, 'i, 'c, 'e) builder \<Rightarrow> 'c \<Rightarrow> 'c \<Rightarrow> ('s, 'e, 'i option) building" where
  "end_variant b outer c s =
     bind_item (b_end b c s) (\<lambda>i s.
     bind_item (b_child b outer i s) (\<lambda>outer s.
     end_collection b outer s))"

definition begin_variant :: "('s, 'i, 'c, 'e) builder \<Rightarrow> u8 list \<Rightarrow> ('s, 'e, 'c) building" where
  "begin_variant b variant s =
     bind_item (b_begin_dict b s) (\<lambda>outer s.
     bind_item (b_string b variant s) (\<lambda>key s.
     b_child b outer key s))"

definition scalar_item :: "'e ser_error + 'i \<times> 's \<Rightarrow> 'e ser_error + 'i option \<times> 's" where
  "scalar_item m = bind_item m (\<lambda>i s. Inr (Some i, s))"

definition named_item ::
    "('s, 'i, 'c, 'e) builder \<Rightarrow> u8 list \<Rightarrow> 'i option \<Rightarrow> ('s, 'e, 'i option) building" where
  "named_item b name r s =
     (case r of None \<Rightarrow> Inr (None, s) | Some i \<Rightarrow> scalar_item (wrap_named b name i s))"

text \<open>The loops over elements, calls and struct_fields, over what each value does in a mode.\<close>

fun elements ::
    "('s, 'i, 'c, 'e) builder \<Rightarrow> (ser_mode \<Rightarrow> ('s, 'e, 'i option) building) list \<Rightarrow> 'c \<Rightarrow> ('s, 'e, 'c) building" where
  "elements b [] c s = Inr (c, s)"
| "elements b (v # vs) c s =
     bind_item (v Mode_Explicit s) (\<lambda>r s.
     case r of
       None \<Rightarrow> Inl Missing_Value
     | Some i \<Rightarrow> bind_item (b_child b c i s) (\<lambda>c s. elements b vs c s))"

fun map_calls ::
    "('s, 'i, 'c, 'e) builder \<Rightarrow> (ser_mode \<Rightarrow> ('s, 'e, 'i option) building) map_call list \<Rightarrow> 'i option \<Rightarrow> 'c \<Rightarrow>
     ('s, 'e, 'c) building" where
  "map_calls b [] pending c s = (case pending of None \<Rightarrow> Inr (c, s) | Some _ \<Rightarrow> Inl Invalid_Map)"
| "map_calls b (Call_Key k # calls) pending c s =
     (case (pending, k) of
        (None, Some k) \<Rightarrow> bind_item (b_string b k s) (\<lambda>i s. map_calls b calls (Some i) c s)
      | _ \<Rightarrow> Inl Invalid_Map)"
| "map_calls b (Call_Value v # calls) pending c s =
     (case pending of
        None \<Rightarrow> Inl Invalid_Map
      | Some key \<Rightarrow>
          bind_item (v Mode_Explicit s) (\<lambda>r s.
          case r of
            None \<Rightarrow> Inl Missing_Value
          | Some i \<Rightarrow>
              bind_item (b_child b c key s) (\<lambda>c s.
              bind_item (b_child b c i s) (\<lambda>c s. map_calls b calls None c s))))"

fun struct_fields ::
    "('s, 'i, 'c, 'e) builder \<Rightarrow> (u8 list \<times> (ser_mode \<Rightarrow> ('s, 'e, 'i option) building)) list \<Rightarrow> 'c \<Rightarrow>
     ('s, 'e, 'c) building" where
  "struct_fields b [] c s = Inr (c, s)"
| "struct_fields b ((name, v) # fs) c s =
     bind_item (v Mode_Field s) (\<lambda>r s.
     case r of
       None \<Rightarrow> struct_fields b fs c s
     | Some i \<Rightarrow>
         bind_item (b_string b name s) (\<lambda>key s.
         bind_item (b_child b c key s) (\<lambda>c s.
         bind_item (b_child b c i s) (\<lambda>c s. struct_fields b fs c s))))"

primrec serialize :: "sdata \<Rightarrow> ('s, 'i, 'c, 'e) builder \<Rightarrow> ser_mode \<Rightarrow> ('s, 'e, 'i option) building" where
  "serialize (S_Bool v) = (\<lambda>b mode s. scalar_item (b_boolean b v s))"
| "serialize (S_I64 v) = (\<lambda>b mode s. scalar_item (b_integer b v s))"
| "serialize (S_U64 v) = (\<lambda>b mode s. scalar_item (b_unsigned_integer b v s))"
| "serialize (S_F64 v) = (\<lambda>b mode s. scalar_item (b_real b v s))"
| "serialize (S_Str v) = (\<lambda>b mode s. scalar_item (b_string b v s))"
| "serialize (S_Bytes v) = (\<lambda>b mode s. scalar_item (b_data b v s))"
| "serialize S_None = (\<lambda>b mode s.
     case mode of
       Mode_Explicit \<Rightarrow> bind_item (scalar_item (b_string b [] s)) (named_item b name_None)
     | _ \<Rightarrow> Inr (None, s))"
| "serialize (S_Some v) = (\<lambda>b mode s.
     case mode of
       Mode_Explicit \<Rightarrow> bind_item (serialize v b Mode_Explicit s) (named_item b name_Some)
     | _ \<Rightarrow> serialize v b Mode_Explicit s)"
| "serialize S_Unit = (\<lambda>b mode s. scalar_item (b_string b [] s))"
| "serialize (S_Unit_Variant v) = (\<lambda>b mode s. scalar_item (b_string b v s))"
| "serialize (S_Uid v) = (\<lambda>b mode s. scalar_item (b_uid b v s))"
| "serialize (S_Newtype_Struct v) = (\<lambda>b mode s. serialize v b mode s)"
| "serialize (S_Newtype_Variant name v) = (\<lambda>b mode s.
     bind_item (serialize v b mode s) (named_item b name))"
| "serialize (S_Seq vs) = (\<lambda>b mode s.
     bind_item (b_begin_array b s) (\<lambda>c s.
     bind_item (elements b (map (\<lambda>f. f b) (map serialize vs)) c s) (end_collection b)))"
| "serialize (S_Tuple_Variant name vs) = (\<lambda>b mode s.
     bind_item (begin_variant b name s) (\<lambda>outer s.
     bind_item (b_begin_array b s) (\<lambda>c s.
     bind_item (elements b (map (\<lambda>f. f b) (map serialize vs)) c s) (end_variant b outer))))"
| "serialize (S_Map calls) = (\<lambda>b mode s.
     bind_item (b_begin_dict b s) (\<lambda>c s.
     bind_item (map_calls b (map (map_map_call (\<lambda>f. f b)) (map (map_map_call serialize) calls)) None c s)
       (end_collection b)))"
| "serialize (S_Struct fs) = (\<lambda>b mode s.
     bind_item (b_begin_dict b s) (\<lambda>c s.
     bind_item (struct_fields b (map (map_prod id (\<lambda>f. f b)) (map (map_prod id serialize) fs)) c s) (end_collection b)))"
| "serialize (S_Struct_Variant name fs) = (\<lambda>b mode s.
     bind_item (begin_variant b name s) (\<lambda>outer s.
     bind_item (b_begin_dict b s) (\<lambda>c s.
     bind_item (struct_fields b (map (map_prod id (\<lambda>f. f b)) (map (map_prod id serialize) fs)) c s) (end_variant b outer))))"

text \<open>\<open>to_value\<close>, and the value at the root of \<open>encode\<close>.\<close>

definition serialize_root :: "('s, 'i, 'c, 'e) builder \<Rightarrow> sdata \<Rightarrow> ('s, 'e, 'i) building" where
  "serialize_root b v s =
     bind_item (serialize v b Mode_Root s) (\<lambda>r s.
     case r of None \<Rightarrow> Inl Missing_Value | Some i \<Rightarrow> Inr (i, s))"

definition to_value :: "sdata \<Rightarrow> 'e ser_error + pvalue" where
  "to_value v = map_sum id fst (serialize_root value_builder v ())"

text \<open>\<open>impl Serialize for Value\<close>, with those of \<open>Integer\<close>, \<open>Uid\<close> and \<open>Dictionary\<close>.\<close>

fun value_sdata :: "pvalue \<Rightarrow> sdata" where
  "value_sdata (P_Array vs) = S_Seq (map value_sdata vs)"
| "value_sdata (P_Dictionary m) =
     S_Map (concat (map (\<lambda>(k, v). [Call_Key (Some k), Call_Value (value_sdata v)]) m))"
| "value_sdata (P_Boolean v) = S_Bool v"
| "value_sdata (P_Data v) = S_Bytes v"
| "value_sdata (P_Real v) = S_F64 v"
| "value_sdata (P_Integer n) = (if 0 \<le> n \<and> n < 2 ^ 64 then S_U64 (of_int n) else S_I64 (of_int n))"
| "value_sdata (P_String v) = S_Str v"
| "value_sdata (P_Uid v) = S_Uid v"

end
