(* ===== verification/Plist_Builder.thy ===== *)
theory Plist_Builder
  imports Plist_Serde
begin

text \<open>
  The contract of the trait \<open>Builder\<close>: its operations build a tree, the specification \<open>tree_builder\<close>
  being the builder that keeps all a client gave. Under it the serializer gives through any
  builder what it gives through that one, its own errors included. Both builders of the code
  keep it: \<open>ValueBuilder\<close> up to repeated keys, and the writer of the wire format.
\<close>

section \<open>The specification\<close>

definition tree_child :: "value_collection \<Rightarrow> pvalue \<Rightarrow> 's \<Rightarrow> 'e ser_error + value_collection \<times> 's" where
  "tree_child state value s =
     (case state of
        Coll_Array vs \<Rightarrow> Inr (Coll_Array (vs @ [value]), s)
      | Coll_Dictionary entries (Some key) \<Rightarrow> Inr (Coll_Dictionary (entries @ [(key, value)]) None, s)
      | Coll_Dictionary entries None \<Rightarrow>
          (case value of
             P_String key \<Rightarrow> Inr (Coll_Dictionary entries (Some key), s)
           | _ \<Rightarrow> Inl Invalid_Map))"

definition tree_builder :: "('s, pvalue, value_collection, 'e) builder" where
  "tree_builder = value_builder\<lparr>b_child := tree_child\<rparr>"

lemma tree_builder_simps [simp]:
  "b_boolean tree_builder b s = Inr (P_Boolean b, s)"
  "b_integer tree_builder n s = Inr (P_Integer (sint n), s)"
  "b_unsigned_integer tree_builder n s = Inr (P_Integer (uint n), s)"
  "b_real tree_builder n s = Inr (P_Real n, s)"
  "b_string tree_builder t s = Inr (P_String t, s)"
  "b_data tree_builder t s = Inr (P_Data t, s)"
  "b_uid tree_builder n s = Inr (P_Uid n, s)"
  "b_begin_array tree_builder s = Inr (Coll_Array [], s)"
  "b_begin_dict tree_builder s = Inr (Coll_Dictionary [] None, s)"
  "b_child tree_builder = tree_child"
  "b_end tree_builder = value_end"
  by (simp_all add: tree_builder_def value_builder_def)

lemma tree_child_simps [simp]:
  "tree_child (Coll_Array vs) v s = Inr (Coll_Array (vs @ [v]), s)"
  "tree_child (Coll_Dictionary m (Some k)) v s = Inr (Coll_Dictionary (m @ [(k, v)]) None, s)"
  "tree_child (Coll_Dictionary m None) (P_String t) s = Inr (Coll_Dictionary m (Some t), s)"
  by (simp_all add: tree_child_def)

definition to_tree :: "sdata \<Rightarrow> 'e ser_error + pvalue" where
  "to_tree v = map_sum id fst (serialize_root tree_builder v ())"

section \<open>Simulation\<close>

text \<open>A computation over the builder's state against the same one over values.\<close>

definition simulates ::
    "('s \<Rightarrow> bool) \<Rightarrow> ('e \<Rightarrow> bool) \<Rightarrow> 'e ser_error + 'a \<times> 's \<Rightarrow> 'e ser_error + 'b \<times> unit \<Rightarrow>
     ('s \<Rightarrow> 'a \<Rightarrow> 'b \<Rightarrow> bool) \<Rightarrow> bool" where
  "simulates good core m m' R \<longleftrightarrow>
     (case m of
        Inl e \<Rightarrow> m' = Inl e \<or> (\<exists>e'. e = Ser_Core e' \<and> core e')
      | Inr (x, s) \<Rightarrow> \<exists>x'. m' = Inr (x', ()) \<and> good s \<and> R s x x')"

lemma simulates_Inr [simp]:
  "simulates good core (Inr (x, s)) m' R \<longleftrightarrow> (\<exists>x'. m' = Inr (x', ()) \<and> good s \<and> R s x x')"
  by (simp add: simulates_def)

lemma simulates_Inl [simp]: "simulates good core (Inl e) (Inl e) R"
  by (simp add: simulates_def)

lemma simulates_core: "core e \<Longrightarrow> simulates good core (Inl (Ser_Core e)) m' R"
  by (simp add: simulates_def)

lemma bind_item_simps [simp]: "bind_item (Inl e) f = Inl e" "bind_item (Inr (x, s)) f = f x s"
  by (simp_all add: bind_item_def)

lemma simulates_bind:
  assumes "simulates good1 core m m' R"
    and "\<And>x x' s. good1 s \<Longrightarrow> R s x x' \<Longrightarrow> simulates good core (f x s) (f' x' ()) Q"
  shows "simulates good core (bind_item m f) (bind_item m' f') Q"
  using assms by (auto simp: simulates_def [of good1 core m] simulates_core split: sum.splits)

lemma simulates_step:
  assumes "simulates good1 core m (Inr (y, ())) R"
    and "\<And>x s. good1 s \<Longrightarrow> R s x y \<Longrightarrow> simulates good core (f x s) m' Q"
  shows "simulates good core (bind_item m f) m' Q"
  using assms by (auto simp: simulates_def [of good1 core m] simulates_core split: sum.splits)

lemma simulates_weaken:
  assumes "simulates good core m m' R" and "\<And>s x x'. good s \<Longrightarrow> R s x x' \<Longrightarrow> good' s \<and> R' s x x'"
  shows "simulates good' core m m' R'"
  using assms by (auto simp: simulates_def split: sum.splits)

text \<open>What Rust's types say of a tree: its texts are \<open>str\<close>s.\<close>

primrec sdata_ok :: "sdata \<Rightarrow> bool" where
  "sdata_ok (S_Bool v) = True"
| "sdata_ok (S_I64 v) = True"
| "sdata_ok (S_U64 v) = True"
| "sdata_ok (S_F64 v) = True"
| "sdata_ok (S_Str v) = is_str v"
| "sdata_ok (S_Bytes v) = True"
| "sdata_ok S_None = True"
| "sdata_ok (S_Some v) = sdata_ok v"
| "sdata_ok S_Unit = True"
| "sdata_ok (S_Unit_Variant v) = is_str v"
| "sdata_ok (S_Uid v) = True"
| "sdata_ok (S_Newtype_Struct v) = sdata_ok v"
| "sdata_ok (S_Newtype_Variant name v) = (is_str name \<and> sdata_ok v)"
| "sdata_ok (S_Seq vs) = list_all id (map sdata_ok vs)"
| "sdata_ok (S_Tuple_Variant name vs) = (is_str name \<and> list_all id (map sdata_ok vs))"
| "sdata_ok (S_Map calls) =
     list_all (\<lambda>c. case c of Call_Key (Some k) \<Rightarrow> is_str k | Call_Key None \<Rightarrow> True | Call_Value b \<Rightarrow> b)
       (map (map_map_call sdata_ok) calls)"
| "sdata_ok (S_Struct fs) = list_all (\<lambda>(name, b). is_str name \<and> b) (map (map_prod id sdata_ok) fs)"
| "sdata_ok (S_Struct_Variant name fs) =
     (is_str name \<and> list_all (\<lambda>(name, b). is_str name \<and> b) (map (map_prod id sdata_ok) fs))"

lemma is_str_names [simp]: "is_str []" "is_str name_None" "is_str name_Some"
  by (simp_all add: is_str_def name_None_def name_Some_def)

section \<open>The contract\<close>

text \<open>
  \<open>represents s i v\<close> holds when item \<open>i\<close> stands for value \<open>v\<close>, \<open>collects s c vc\<close> when the open collection \<open>c\<close>
  has got what \<open>vc\<close> has; both survive an extension of the state. A call on a collection extends every
  state that is older than the collection.
\<close>

locale plist_builder =
  fixes B :: "('s, 'i, 'c, 'e) builder"
    and ok :: "'s \<Rightarrow> bool"
    and extends :: "'s \<Rightarrow> 's \<Rightarrow> bool"
    and core :: "'e \<Rightarrow> bool"
    and represents :: "'s \<Rightarrow> 'i \<Rightarrow> pvalue \<Rightarrow> bool"
    and collects :: "'s \<Rightarrow> 'c \<Rightarrow> value_collection \<Rightarrow> bool"
    and newer :: "'s \<Rightarrow> 'c \<Rightarrow> bool"
  assumes extends_refl: "extends s s"
    and extends_trans: "extends s s' \<Longrightarrow> extends s' s'' \<Longrightarrow> extends s s''"
    and represents_mono: "extends s s' \<Longrightarrow> represents s i v \<Longrightarrow> represents s' i v"
    and collects_mono: "extends s s' \<Longrightarrow> collects s c vc \<Longrightarrow> collects s' c vc"
    and newer_mono: "extends s s' \<Longrightarrow> newer s' c \<Longrightarrow> newer s c"
    and boolean: "ok s \<Longrightarrow> simulates (\<lambda>s'. ok s' \<and> extends s s') core (b_boolean B b s) (Inr (P_Boolean b, ())) represents"
    and integer: "ok s \<Longrightarrow> simulates (\<lambda>s'. ok s' \<and> extends s s') core (b_integer B n s) (Inr (P_Integer (sint n), ())) represents"
    and unsigned: "ok s \<Longrightarrow> simulates (\<lambda>s'. ok s' \<and> extends s s') core (b_unsigned_integer B n s) (Inr (P_Integer (uint n), ())) represents"
    and real: "ok s \<Longrightarrow> simulates (\<lambda>s'. ok s' \<and> extends s s') core (b_real B n s) (Inr (P_Real n, ())) represents"
    and str: "ok s \<Longrightarrow> is_str t \<Longrightarrow> simulates (\<lambda>s'. ok s' \<and> extends s s') core (b_string B t s) (Inr (P_String t, ())) represents"
    and data: "ok s \<Longrightarrow> simulates (\<lambda>s'. ok s' \<and> extends s s') core (b_data B t s) (Inr (P_Data t, ())) represents"
    and uid: "ok s \<Longrightarrow> simulates (\<lambda>s'. ok s' \<and> extends s s') core (b_uid B n s) (Inr (P_Uid n, ())) represents"
    and begin_array: "ok s \<Longrightarrow> simulates (\<lambda>s'. ok s' \<and> extends s s') core (b_begin_array B s)
      (Inr (Coll_Array [], ())) (\<lambda>s' c vc. collects s' c vc \<and> newer s c)"
    and begin_dict: "ok s \<Longrightarrow> simulates (\<lambda>s'. ok s' \<and> extends s s') core (b_begin_dict B s)
      (Inr (Coll_Dictionary [] None, ())) (\<lambda>s' c vc. collects s' c vc \<and> newer s c)"
    and child: "ok s \<Longrightarrow> extends s0 s \<Longrightarrow> newer s0 c \<Longrightarrow> collects s c vc \<Longrightarrow> represents s i v \<Longrightarrow>
      (tree_child vc v () :: 'e ser_error + value_collection \<times> unit) = Inr (vc', ()) \<Longrightarrow>
      simulates (\<lambda>s'. ok s' \<and> extends s0 s' \<and> (\<forall>i v. represents s i v \<longrightarrow> represents s' i v)) core
        (b_child B c i s) (Inr (vc', ())) (\<lambda>s' c' vc'. collects s' c' vc' \<and> newer s0 c')"
    and close: "ok s \<Longrightarrow> extends s0 s \<Longrightarrow> newer s0 c \<Longrightarrow> collects s c vc \<Longrightarrow>
      (value_end vc () :: 'e ser_error + pvalue \<times> unit) = Inr (v, ()) \<Longrightarrow>
      simulates (\<lambda>s'. ok s' \<and> extends s0 s') core (b_end B c s) (Inr (v, ())) represents"
begin

abbreviation (input) good :: "'s \<Rightarrow> 's \<Rightarrow> bool" where
  "good s0 s \<equiv> ok s \<and> extends s0 s"

abbreviation (input) item :: "'s \<Rightarrow> 'i option \<Rightarrow> pvalue option \<Rightarrow> bool" where
  "item s \<equiv> rel_option (represents s)"

lemma older: "simulates (good s) core m m' R \<Longrightarrow> extends s0 s \<Longrightarrow> simulates (good s0) core m m' R"
  by (erule simulates_weaken) (auto intro: extends_trans)

text \<open>Two calls of \<open>child\<close> on a dictionary: a key, then a value.\<close>

lemma child_entry:
  assumes "ok s" "extends s0 s" "newer s0 c" "collects s c (Coll_Dictionary m None)"
    and "represents s key (P_String k)" "represents s i v"
    and next_step: "\<And>c s. ok s \<Longrightarrow> extends s0 s \<Longrightarrow> newer s0 c \<Longrightarrow>
      collects s c (Coll_Dictionary (m @ [(k, v)]) None) \<Longrightarrow> simulates (good s0) core (f c s) m' R"
  shows "simulates (good s0) core (bind_item (b_child B c key s) (\<lambda>c s. bind_item (b_child B c i s) f)) m' R"
proof (rule simulates_step [OF child [OF assms(1-5)]])
  show "tree_child (Coll_Dictionary m None) (P_String k) () = Inr (Coll_Dictionary m (Some k), ())"
    by simp
next
  fix c s'
  assume s': "ok s' \<and> extends s0 s' \<and> (\<forall>i v. represents s i v \<longrightarrow> represents s' i v)"
    and c: "collects s' c (Coll_Dictionary m (Some k)) \<and> newer s0 c"
  show "simulates (good s0) core (bind_item (b_child B c i s') f) m' R"
  proof (rule simulates_step [OF child])
    show "tree_child (Coll_Dictionary m (Some k)) v () = Inr (Coll_Dictionary (m @ [(k, v)]) None, ())"
      by simp
  qed (use s' c assms(6) next_step in auto)
qed

section \<open>The loops\<close>

text \<open>What a value of a collection does in a mode, against \<open>ValueBuilder\<close>.\<close>

definition simulated ::
    "(ser_mode \<Rightarrow> ('s, 'e, 'i option) building) \<Rightarrow> (ser_mode \<Rightarrow> (unit, 'e, pvalue option) building) \<Rightarrow> bool" where
  "simulated f f' \<longleftrightarrow> (\<forall>mode s. ok s \<longrightarrow> simulates (good s) core (f mode s) (f' mode ()) item)"

lemma simulatedD: "simulated f f' \<Longrightarrow> ok s \<Longrightarrow> extends s0 s \<Longrightarrow> simulates (good s0) core (f mode s) (f' mode ()) item"
  unfolding simulated_def by (blast intro: older)

lemma elements_simulate:
  assumes "list_all2 simulated fs fs'" "ok s" "extends s0 s" "newer s0 c" "collects s c (Coll_Array vs)"
  shows "simulates (good s0) core (elements B fs c s) (elements tree_builder fs' (Coll_Array vs) ())
    (\<lambda>s' c' vc. newer s0 c' \<and> collects s' c' vc \<and> (\<exists>vs. vc = Coll_Array vs))"
  using assms
proof (induction fs fs' arbitrary: s c vs rule: list_all2_induct)
  case (Cons f fs f' fs')
  have "simulates (good s) core (f Mode_Explicit s) (f' Mode_Explicit ()) item"
    using Cons.hyps Cons.prems by (blast intro: simulatedD extends_refl)
  then show ?case
    unfolding elements.simps
  proof (rule simulates_bind)
    fix r r' s'
    assume s': "good s s'" and r: "item s' r r'"
    show "simulates (good s0) core
        (case r of None \<Rightarrow> Inl Missing_Value
         | Some i \<Rightarrow> bind_item (b_child B c i s') (\<lambda>c s. elements B fs c s))
        (case r' of None \<Rightarrow> Inl Missing_Value
         | Some i \<Rightarrow> bind_item (b_child tree_builder (Coll_Array vs) i ()) (\<lambda>c s. elements tree_builder fs' c s))
        (\<lambda>s' c' vc. newer s0 c' \<and> collects s' c' vc \<and> (\<exists>vs. vc = Coll_Array vs))"
    proof (cases r)
      case (Some i)
      then obtain v where v: "r' = Some v" "represents s' i v"
        using r by (cases r') auto
      have "extends s0 s'" "collects s' c (Coll_Array vs)"
        using s' Cons.prems by (auto intro: extends_trans collects_mono)
      then have step: "simulates (\<lambda>s''. ok s'' \<and> extends s0 s'' \<and> (\<forall>i v. represents s' i v \<longrightarrow> represents s'' i v)) core
          (b_child B c i s') (Inr (Coll_Array (vs @ [v]), ()))
          (\<lambda>s'' c' vc'. collects s'' c' vc' \<and> newer s0 c')"
        using s' v Cons.prems by (intro child) auto
      show ?thesis
        using Some v Cons.IH by (auto intro!: simulates_step [OF step])
    qed (use r in auto)
  qed
qed auto

lemma map_calls_simulate:
  assumes "list_all2 (rel_map_call simulated) fs fs'"
    and "list_all (\<lambda>f. case f of Call_Key (Some k) \<Rightarrow> is_str k | _ \<Rightarrow> True) fs"
    and "ok s" "extends s0 s" "newer s0 c" "collects s c (Coll_Dictionary m None)"
    and "rel_option (\<lambda>key v. represents s key v \<and> (\<exists>k. v = P_String k)) pending pending'"
  shows "simulates (good s0) core (map_calls B fs pending c s)
    (map_calls tree_builder fs' pending' (Coll_Dictionary m None) ())
    (\<lambda>s' c' vc. newer s0 c' \<and> collects s' c' vc \<and> (\<exists>m. vc = Coll_Dictionary m None))"
  using assms
proof (induction fs fs' arbitrary: s c m pending pending' rule: list_all2_induct)
  case Nil
  then show ?case
    by (cases pending; cases pending') auto
next
  case (Cons f fs f' fs')
  show ?case
  proof (cases f)
    case (Call_Key k)
    then have f': "f' = Call_Key k"
      using Cons.hyps by (cases f') auto
    show ?thesis
    proof (cases "pending = None \<and> k \<noteq> None")
      case True
      then obtain k' where k: "k = Some k'" "pending = None" "pending' = None"
        using Cons.prems by (cases k) auto
      then have "is_str k'"
        using Cons.prems Call_Key by simp
      then show ?thesis
        using Call_Key f' k Cons.prems
        by (auto intro!: simulates_step [OF str] Cons.IH intro: extends_trans collects_mono)
    next
      case False
      then show ?thesis
        using Call_Key f' Cons.prems by (cases pending; cases pending'; cases k) auto
    qed
  next
    case (Call_Value g)
    then obtain g' where f': "f' = Call_Value g'" "simulated g g'"
      using Cons.hyps by (cases f') auto
    show ?thesis
    proof (cases pending)
      case None
      then show ?thesis
        using Call_Value f' Cons.prems by (cases pending') auto
    next
      case (Some key)
      then obtain k where k: "pending' = Some (P_String k)" "represents s key (P_String k)"
        using Cons.prems by (cases pending') auto
      have "simulates (good s) core (g Mode_Explicit s) (g' Mode_Explicit ()) item"
        using f' Cons.prems by (blast intro: simulatedD extends_refl)
      then have "simulates (good s0) core
          (bind_item (g Mode_Explicit s) (\<lambda>r s. case r of None \<Rightarrow> Inl Missing_Value
             | Some i \<Rightarrow> bind_item (b_child B c key s) (\<lambda>c s. bind_item (b_child B c i s) (\<lambda>c s. map_calls B fs None c s))))
          (bind_item (g' Mode_Explicit ()) (\<lambda>r s. case r of None \<Rightarrow> Inl Missing_Value
             | Some v \<Rightarrow> map_calls tree_builder fs' None (Coll_Dictionary (m @ [(k, v)]) None) s))
          (\<lambda>s' c' vc. newer s0 c' \<and> collects s' c' vc \<and> (\<exists>m. vc = Coll_Dictionary m None))"
      proof (rule simulates_bind)
        fix r r' s'
        assume s': "good s s'" and r: "item s' r r'"
        then have "extends s0 s'" "collects s' c (Coll_Dictionary m None)" "represents s' key (P_String k)"
          using Cons.prems k by (auto intro: extends_trans collects_mono represents_mono)
        then show "simulates (good s0) core
            (case r of None \<Rightarrow> Inl Missing_Value
             | Some i \<Rightarrow> bind_item (b_child B c key s') (\<lambda>c s. bind_item (b_child B c i s) (\<lambda>c s. map_calls B fs None c s)))
            (case r' of None \<Rightarrow> Inl Missing_Value
             | Some v \<Rightarrow> map_calls tree_builder fs' None (Coll_Dictionary (m @ [(k, v)]) None) ())
            (\<lambda>s' c' vc. newer s0 c' \<and> collects s' c' vc \<and> (\<exists>m. vc = Coll_Dictionary m None))"
          using s' r Cons.prems by (cases r; cases r') (auto intro!: child_entry Cons.IH)
      qed
      then show ?thesis
        using Call_Value f' Some k by (simp cong: option.case_cong)
    qed
  qed
qed

lemma fields_simulate:
  assumes "list_all2 (rel_prod (=) simulated) fs fs'" "list_all (\<lambda>f. is_str (fst f)) fs"
    and "ok s" "extends s0 s" "newer s0 c" "collects s c (Coll_Dictionary m None)"
  shows "simulates (good s0) core (struct_fields B fs c s) (struct_fields tree_builder fs' (Coll_Dictionary m None) ())
    (\<lambda>s' c' vc. newer s0 c' \<and> collects s' c' vc \<and> (\<exists>m. vc = Coll_Dictionary m None))"
  using assms
proof (induction fs fs' arbitrary: s c m rule: list_all2_induct)
  case (Cons f fs f' fs')
  obtain name g g' where f: "f = (name, g)" "f' = (name, g')" "simulated g g'" "is_str name"
    using Cons.hyps Cons.prems by (cases f; cases f') auto
  have "simulates (good s) core (g Mode_Field s) (g' Mode_Field ()) item"
    using f Cons.prems by (blast intro: simulatedD extends_refl)
  then show ?case
    unfolding f struct_fields.simps
  proof (rule simulates_bind)
    fix r r' s'
    assume s': "good s s'" and r: "item s' r r'"
    have here: "ok s'" "extends s0 s'" "collects s' c (Coll_Dictionary m None)"
      using s' Cons.prems by (auto intro: extends_trans collects_mono)
    show "simulates (good s0) core
        (case r of None \<Rightarrow> struct_fields B fs c s'
         | Some i \<Rightarrow> bind_item (b_string B name s') (\<lambda>key s. bind_item (b_child B c key s) (\<lambda>c s.
             bind_item (b_child B c i s) (\<lambda>c s. struct_fields B fs c s))))
        (case r' of None \<Rightarrow> struct_fields tree_builder fs' (Coll_Dictionary m None) ()
         | Some i \<Rightarrow> bind_item (b_string tree_builder name ()) (\<lambda>key s.
             bind_item (b_child tree_builder (Coll_Dictionary m None) key s) (\<lambda>c s.
             bind_item (b_child tree_builder c i s) (\<lambda>c s. struct_fields tree_builder fs' c s))))
        (\<lambda>s' c' vc. newer s0 c' \<and> collects s' c' vc \<and> (\<exists>m. vc = Coll_Dictionary m None))"
    proof (cases r)
      case None
      then show ?thesis
        using r here Cons by (cases r') auto
    next
      case (Some i)
      then obtain v where v: "r' = Some v" "represents s' i v"
        using r by (cases r') auto
      show ?thesis
        unfolding Some v(1) option.case tree_builder_simps bind_item_simps tree_child_simps
      proof (rule simulates_step [OF str [OF here(1) f(4)]])
        fix key s''
        assume s'': "good s' s''" and key: "represents s'' key (P_String name)"
        have "extends s0 s''" "collects s'' c (Coll_Dictionary m None)" "represents s'' i v"
          using here v s'' by (auto intro: extends_trans collects_mono represents_mono)
        then show "simulates (good s0) core
            (bind_item (b_child B c key s'') (\<lambda>c s. bind_item (b_child B c i s) (\<lambda>c s. struct_fields B fs c s)))
            (struct_fields tree_builder fs' (Coll_Dictionary (m @ [(name, v)]) None) ())
            (\<lambda>s' c' vc. newer s0 c' \<and> collects s' c' vc \<and> (\<exists>m. vc = Coll_Dictionary m None))"
          using s'' key Cons.prems Cons.IH by (intro child_entry) auto
      qed
    qed
  qed
qed auto

section \<open>The whole tree\<close>

lemma close_item:
  assumes "ok s" "extends s0 s" "newer s0 c" "collects s c vc"
    and v: "(value_end vc () :: 'e ser_error + pvalue \<times> unit) = Inr (v, ())"
  shows "simulates (good s0) core (end_collection B c s) (end_collection tree_builder vc ()) item"
  using assms by (auto simp: end_collection_def intro!: simulates_step [OF close])

lemma begin_variant_simulates:
  assumes "ok s" "is_str name"
  shows "simulates (good s) core (begin_variant B name s) (begin_variant tree_builder name ())
    (\<lambda>s' c vc. newer s c \<and> collects s' c vc \<and> vc = Coll_Dictionary [] (Some name))"
  unfolding begin_variant_def tree_builder_simps bind_item_simps tree_child_simps
proof (rule simulates_step [OF begin_dict [OF assms(1)]])
  fix c s1
  assume s1: "good s s1" and c: "collects s1 c (Coll_Dictionary [] None) \<and> newer s c"
  then have "ok s1"
    by simp
  show "simulates (good s) core (bind_item (b_string B name s1) (\<lambda>key. b_child B c key))
      (Inr (Coll_Dictionary [] (Some name), ()))
      (\<lambda>s' c vc. newer s c \<and> collects s' c vc \<and> vc = Coll_Dictionary [] (Some name))"
  proof (rule simulates_step [OF str [OF \<open>ok s1\<close> assms(2)]])
    fix key s2
    assume s2: "good s1 s2" and key: "represents s2 key (P_String name)"
    have "extends s s2" "collects s2 c (Coll_Dictionary [] None)"
      using s1 c s2 by (auto intro: extends_trans collects_mono)
    then have "simulates (\<lambda>s'. ok s' \<and> extends s s' \<and> (\<forall>i v. represents s2 i v \<longrightarrow> represents s' i v)) core
        (b_child B c key s2) (Inr (Coll_Dictionary [] (Some name), ()))
        (\<lambda>s' c' vc'. collects s' c' vc' \<and> newer s c')"
      using c s2 key by (intro child) auto
    then show "simulates (good s) core (b_child B c key s2) (Inr (Coll_Dictionary [] (Some name), ()))
        (\<lambda>s' c vc. newer s c \<and> collects s' c vc \<and> vc = Coll_Dictionary [] (Some name))"
      by (auto simp: simulates_def split: sum.splits)
  qed
qed

lemma end_variant_simulates:
  assumes "ok s" "extends s0 s1" "newer s0 outer" "collects s1 outer (Coll_Dictionary [] (Some name))"
    and "extends s1 s" "newer s1 c" "collects s c vc"
    and v: "(value_end vc () :: 'e ser_error + pvalue \<times> unit) = Inr (v, ())"
  shows "simulates (good s0) core (end_variant B outer c s)
    (end_variant tree_builder (Coll_Dictionary [] (Some name)) vc ()) item"
  unfolding end_variant_def tree_builder_simps v bind_item_simps
proof (rule simulates_step [OF close [OF assms(1,5,6,7) v]])
  fix i s2
  assume s2: "good s1 s2" and i: "represents s2 i v"
  have here: "ok s2" "extends s0 s2" "collects s2 outer (Coll_Dictionary [] (Some name))"
    using s2 assms by (auto intro: extends_trans collects_mono)
  show "simulates (good s0) core (bind_item (b_child B outer i s2) (end_collection B))
      (bind_item (tree_child (Coll_Dictionary [] (Some name)) v ()) (end_collection tree_builder)) item"
    unfolding tree_child_simps bind_item_simps append_Nil
  proof (rule simulates_step [OF child [OF here(1,2) assms(3) here(3) i]])
    show "tree_child (Coll_Dictionary [] (Some name)) v () = Inr (Coll_Dictionary [(name, v)] None, ())"
      by simp
  next
    fix c s3
    assume "ok s3 \<and> extends s0 s3 \<and> (\<forall>i v. represents s2 i v \<longrightarrow> represents s3 i v)"
      and "collects s3 c (Coll_Dictionary [(name, v)] None) \<and> newer s0 c"
    then show "simulates (good s0) core (end_collection B c s3)
        (end_collection tree_builder (Coll_Dictionary [(name, v)] None) ()) item"
      by (intro close_item) auto
  qed
qed

lemma wrap_named_simulates:
  assumes "ok s" "is_str name" "represents s i v"
  shows "simulates (good s) core (wrap_named B name i s) (wrap_named tree_builder name v ()) represents"
  unfolding wrap_named_def tree_builder_simps bind_item_simps tree_child_simps value_end_simps append_Nil
proof (rule simulates_step [OF begin_dict [OF assms(1)]])
  fix c s1
  assume s1: "good s s1" and c: "collects s1 c (Coll_Dictionary [] None) \<and> newer s c"
  then have "ok s1"
    by simp
  show "simulates (good s) core (bind_item (b_string B name s1) (\<lambda>key s. bind_item (b_child B c key s) (\<lambda>c s.
        bind_item (b_child B c i s) (b_end B))))
      (Inr (P_Dictionary [(name, v)], ())) represents"
  proof (rule simulates_step [OF str [OF \<open>ok s1\<close> assms(2)]])
    fix key s2
    assume s2: "good s1 s2" and key: "represents s2 key (P_String name)"
    have "extends s s2" "collects s2 c (Coll_Dictionary [] None)" "represents s2 i v"
      using s1 c s2 assms(3) by (auto intro: extends_trans collects_mono represents_mono)
    then show "simulates (good s) core (bind_item (b_child B c key s2) (\<lambda>c s. bind_item (b_child B c i s) (b_end B)))
        (Inr (P_Dictionary [(name, v)], ())) represents"
      using c s2 key by (intro child_entry close) auto
  qed
qed

lemma named_item_simulates:
  assumes "ok s" "is_str name" "item s r r'"
  shows "simulates (good s) core (named_item B name r s) (named_item tree_builder name r' ()) item"
  using assms
  by (cases r; cases r') (auto simp: named_item_def scalar_item_def extends_refl
      intro!: simulates_bind [OF wrap_named_simulates])

lemma elements_of:
  assumes "\<And>v. v \<in> set vs \<Longrightarrow> sdata_ok v \<Longrightarrow> simulated (serialize v B) (serialize v tree_builder)"
    and "list_all id (map sdata_ok vs)"
  shows "list_all2 simulated (map (\<lambda>f. f B) (map serialize vs)) (map (\<lambda>f. f tree_builder) (map serialize vs))"
  using assms by (auto simp: list_all2_conv_all_nth list_all_length)

lemma fields_of:
  assumes "\<And>f. f \<in> set fs \<Longrightarrow> sdata_ok (snd f) \<Longrightarrow> simulated (serialize (snd f) B) (serialize (snd f) tree_builder)"
    and "list_all (\<lambda>(name, b). is_str name \<and> b) (map (map_prod id sdata_ok) fs)"
  shows "list_all2 (rel_prod (=) simulated)
      (map (map_prod id (\<lambda>f. f B)) (map (map_prod id serialize) fs))
      (map (map_prod id (\<lambda>f. f tree_builder)) (map (map_prod id serialize) fs))"
    and "list_all (\<lambda>f. is_str (fst f)) (map (map_prod id (\<lambda>f. f B)) (map (map_prod id serialize) fs))"
proof -
  have one: "rel_prod (=) simulated (map_prod id (\<lambda>f. f B) (map_prod id serialize f))
      (map_prod id (\<lambda>f. f tree_builder) (map_prod id serialize f)) \<and> is_str (fst f)"
    if "f \<in> set fs" for f
    using assms that by (cases f) (auto simp: list_all_iff)
  then show "list_all2 (rel_prod (=) simulated)
      (map (map_prod id (\<lambda>f. f B)) (map (map_prod id serialize) fs))
      (map (map_prod id (\<lambda>f. f tree_builder)) (map (map_prod id serialize) fs))"
    by (simp add: list_all2_conv_all_nth)
  show "list_all (\<lambda>f. is_str (fst f)) (map (map_prod id (\<lambda>f. f B)) (map (map_prod id serialize) fs))"
    using one by (simp add: list_all_iff)
qed

lemma calls_of:
  assumes "\<And>c v. c \<in> set calls \<Longrightarrow> v \<in> set_map_call c \<Longrightarrow> sdata_ok v \<Longrightarrow>
      simulated (serialize v B) (serialize v tree_builder)"
    and "list_all (\<lambda>c. case c of Call_Key (Some k) \<Rightarrow> is_str k | Call_Key None \<Rightarrow> True | Call_Value b \<Rightarrow> b)
       (map (map_map_call sdata_ok) calls)"
  shows "list_all2 (rel_map_call simulated)
      (map (map_map_call (\<lambda>f. f B)) (map (map_map_call serialize) calls))
      (map (map_map_call (\<lambda>f. f tree_builder)) (map (map_map_call serialize) calls))"
    and "list_all (\<lambda>f. case f of Call_Key (Some k) \<Rightarrow> is_str k | _ \<Rightarrow> True)
      (map (map_map_call (\<lambda>f. f B)) (map (map_map_call serialize) calls))"
proof -
  have one: "rel_map_call simulated (map_map_call (\<lambda>f. f B) (map_map_call serialize c))
      (map_map_call (\<lambda>f. f tree_builder) (map_map_call serialize c)) \<and>
      (case map_map_call (\<lambda>f. f B) (map_map_call serialize c) of Call_Key (Some k) \<Rightarrow> is_str k | _ \<Rightarrow> True)"
    if "c \<in> set calls" for c
    using assms that by (cases c) (auto simp: list_all_iff split: option.splits)
  then show "list_all2 (rel_map_call simulated)
      (map (map_map_call (\<lambda>f. f B)) (map (map_map_call serialize) calls))
      (map (map_map_call (\<lambda>f. f tree_builder)) (map (map_map_call serialize) calls))"
    by (simp add: list_all2_conv_all_nth)
  show "list_all (\<lambda>f. case f of Call_Key (Some k) \<Rightarrow> is_str k | _ \<Rightarrow> True)
      (map (map_map_call (\<lambda>f. f B)) (map (map_map_call serialize) calls))"
    using one by (simp add: list_all_length)
qed

lemma scalar_item_simulates:
  "simulates (good s) core m m' represents \<Longrightarrow> simulates (good s) core (scalar_item m) (scalar_item m') item"
  unfolding scalar_item_def by (erule simulates_bind) simp

lemmas scalars_simulate = boolean integer unsigned real str data uid

text \<open>The loops leave a collection \<open>end\<close> accepts.\<close>

definition closing :: "'s \<Rightarrow> 's \<Rightarrow> 'c \<Rightarrow> value_collection \<Rightarrow> bool" where
  "closing s0 s c vc \<longleftrightarrow>
     newer s0 c \<and> collects s c vc \<and> (\<exists>v. (value_end vc () :: 'e ser_error + pvalue \<times> unit) = Inr (v, ()))"

lemma elements_closing:
  assumes "list_all2 simulated fs fs'" "ok s" "extends s0 s" "collects s c (Coll_Array vs) \<and> newer s0 c"
  shows "simulates (good s0) core (elements B fs c s) (elements tree_builder fs' (Coll_Array vs) ()) (closing s0)"
  by (rule simulates_weaken [OF elements_simulate [OF assms(1-3)]]) (use assms(4) in \<open>auto simp: closing_def\<close>)

lemma map_calls_closing:
  assumes "list_all2 (rel_map_call simulated) fs fs'"
    and "list_all (\<lambda>f. case f of Call_Key (Some k) \<Rightarrow> is_str k | _ \<Rightarrow> True) fs"
    and "ok s" "extends s0 s" "collects s c (Coll_Dictionary m None) \<and> newer s0 c"
  shows "simulates (good s0) core (map_calls B fs None c s)
    (map_calls tree_builder fs' None (Coll_Dictionary m None) ()) (closing s0)"
  by (rule simulates_weaken [OF map_calls_simulate [OF assms(1-4)]]) (use assms(5) in \<open>auto simp: closing_def\<close>)

lemma fields_closing:
  assumes "list_all2 (rel_prod (=) simulated) fs fs'" "list_all (\<lambda>f. is_str (fst f)) fs"
    and "ok s" "extends s0 s" "collects s c (Coll_Dictionary m None) \<and> newer s0 c"
  shows "simulates (good s0) core (struct_fields B fs c s) (struct_fields tree_builder fs' (Coll_Dictionary m None) ()) (closing s0)"
  by (rule simulates_weaken [OF fields_simulate [OF assms(1-4)]]) (use assms(5) in \<open>auto simp: closing_def\<close>)

lemma end_item:
  assumes "simulates (good s) core m m' (closing s)"
  shows "simulates (good s) core (bind_item m (end_collection B)) (bind_item m' (end_collection tree_builder)) item"
  using assms by (rule simulates_bind) (auto simp: closing_def intro: close_item)

lemma end_variant_item:
  assumes "simulates (good s1) core m m' (closing s1)"
    and "extends s s1" "newer s outer" "collects s1 outer (Coll_Dictionary [] (Some name))"
  shows "simulates (good s) core (bind_item m (end_variant B outer))
      (bind_item m' (end_variant tree_builder (Coll_Dictionary [] (Some name)))) item"
  using assms(1) by (rule simulates_bind) (use assms(2-4) in \<open>auto simp: closing_def intro: end_variant_simulates\<close>)

lemma named_simulates:
  assumes "simulated f f'" "is_str name" "ok s"
  shows "simulates (good s) core (bind_item (f mode s) (named_item B name))
       (bind_item (f' mode ()) (named_item tree_builder name)) item"
proof (rule simulates_bind)
  show "simulates (good s) core (f mode s) (f' mode ()) item"
    using assms by (simp add: simulated_def)
qed (use assms(2) in \<open>auto intro: older named_item_simulates\<close>)

text \<open>A variant is a dictionary around the collection that \<open>begin\<close> opens and \<open>loop\<close> fills.\<close>

lemma variant_simulates:
  assumes "ok s" "is_str name"
    and opens: "\<And>s. ok s \<Longrightarrow> simulates (good s) core (begin s) (Inr (vc, ())) (\<lambda>s' c vc. collects s' c vc \<and> newer s c)"
    and loop: "\<And>s s0 c. ok s \<Longrightarrow> extends s0 s \<Longrightarrow> collects s c vc \<and> newer s0 c \<Longrightarrow>
      simulates (good s0) core (loop c s) (loop' vc ()) (closing s0)"
  shows "simulates (good s) core
      (bind_item (begin_variant B name s) (\<lambda>outer s. bind_item (begin s) (\<lambda>c s. bind_item (loop c s) (end_variant B outer))))
      (bind_item (begin_variant tree_builder name ()) (\<lambda>outer s. bind_item (loop' vc s) (end_variant tree_builder outer))) item"
proof (rule simulates_bind [OF begin_variant_simulates [OF assms(1,2)]])
  fix outer vouter s1
  assume s1: "good s s1" and outer: "newer s outer \<and> collects s1 outer vouter \<and> vouter = Coll_Dictionary [] (Some name)"
  show "simulates (good s) core (bind_item (begin s1) (\<lambda>c s. bind_item (loop c s) (end_variant B outer)))
      (bind_item (loop' vc ()) (end_variant tree_builder vouter)) item"
  proof (rule simulates_step [OF opens])
    fix c s2
    assume "good s1 s2" "collects s2 c vc \<and> newer s1 c"
    then show "simulates (good s) core (bind_item (loop c s2) (end_variant B outer))
        (bind_item (loop' vc ()) (end_variant tree_builder vouter)) item"
      using outer s1 loop by (auto intro!: end_variant_item)
  qed (use s1 in simp)
qed

theorem serialize_simulates: "sdata_ok v \<Longrightarrow> simulated (serialize v B) (serialize v tree_builder)"
proof (induction v)
  case S_None
  have "simulated (\<lambda>mode s. scalar_item (b_string B [] s)) (\<lambda>mode s. scalar_item (b_string tree_builder [] s))"
    by (auto simp: simulated_def intro!: scalar_item_simulates str)
  from named_simulates [OF this] show ?case
    by (auto simp: simulated_def extends_refl split: ser_mode.split)
next
  case (S_Some v)
  then have v: "simulated (serialize v B) (serialize v tree_builder)"
    by simp
  then show ?case
    using named_simulates [OF v] by (auto simp: simulated_def split: ser_mode.split)
next
  case (S_Newtype_Variant name v)
  then have v: "simulated (serialize v B) (serialize v tree_builder)" and "is_str name"
    by simp_all
  then show ?case
    using named_simulates [OF v] by (auto simp: simulated_def)
next
  case (S_Seq vs)
  note vs = elements_of [OF S_Seq.IH S_Seq.prems [simplified sdata_ok.simps]]
  show ?case
    unfolding simulated_def serialize.simps tree_builder_simps bind_item_simps
    by (intro allI impI simulates_step [OF begin_array] end_item elements_closing vs) auto
next
  case (S_Tuple_Variant name vs)
  then have "is_str name" "list_all id (map sdata_ok vs)"
    by simp_all
  note vs = elements_of [OF S_Tuple_Variant.IH this(2)] and name = this(1)
  show ?case
    unfolding simulated_def serialize.simps tree_builder_simps bind_item_simps
    by (intro allI impI variant_simulates name begin_array elements_closing vs)
next
  case (S_Map calls)
  note calls = calls_of [OF S_Map.IH S_Map.prems [simplified sdata_ok.simps]]
  show ?case
    unfolding simulated_def serialize.simps tree_builder_simps bind_item_simps
    by (intro allI impI simulates_step [OF begin_dict] end_item map_calls_closing calls) auto
next
  case (S_Struct fs)
  note fs = fields_of [OF _ S_Struct.prems [simplified sdata_ok.simps]]
  show ?case
    unfolding simulated_def serialize.simps tree_builder_simps bind_item_simps
    using S_Struct.IH
    by (intro allI impI simulates_step [OF begin_dict] end_item fields_closing fs) auto
next
  case (S_Struct_Variant name fs)
  then have name: "is_str name" and ok: "list_all (\<lambda>(name, b). is_str name \<and> b) (map (map_prod id sdata_ok) fs)"
    by simp_all
  note fs = fields_of [OF _ ok]
  show ?case
    unfolding simulated_def serialize.simps tree_builder_simps bind_item_simps
    using S_Struct_Variant.IH
    by (intro allI impI variant_simulates name begin_dict fields_closing fs) auto
qed (auto simp: simulated_def intro!: scalar_item_simulates scalars_simulate)

text \<open>The whole of \<open>serialize_root\<close>: the item stands for what \<open>to_tree\<close> returns.\<close>

theorem root_simulates:
  assumes "sdata_ok v" "ok s"
  shows "case serialize_root B v s of
      Inl e \<Rightarrow> to_tree v = Inl e \<or> (\<exists>e'. e = Ser_Core e' \<and> core e')
    | Inr (i, s') \<Rightarrow> (\<exists>pv. to_tree v = (Inr pv :: 'e ser_error + pvalue) \<and> ok s' \<and> extends s s' \<and> represents s' i pv)"
proof -
  have "simulates (good s) core (serialize v B Mode_Root s) (serialize v tree_builder Mode_Root ()) item"
    using serialize_simulates [OF assms(1)] assms(2) by (simp add: simulated_def)
  then have "simulates (good s) core (serialize_root B v s) (serialize_root tree_builder v ()) represents"
    unfolding serialize_root_def
    by (rule simulates_bind) (auto split: option.split simp: option_rel_Some1 option_rel_Some2)
  then show ?thesis
    by (auto simp: simulates_def to_tree_def split: sum.splits)
qed

end

section \<open>The builder of values\<close>

text \<open>What \<open>ValueBuilder\<close> makes of a tree: of the entries with one key the last value stays, where the
  key came first.\<close>

definition dictionary_of :: "(u8 list \<times> 'v) list \<Rightarrow> (u8 list \<times> 'v) list" where
  "dictionary_of entries = foldl (\<lambda>m (k, v). dictionary_insert k v m) [] entries"

primrec settle :: "pvalue \<Rightarrow> pvalue" where
  "settle (P_Array vs) = P_Array (map settle vs)"
| "settle (P_Dictionary entries) = P_Dictionary (dictionary_of (map (map_prod id settle) entries))"
| "settle (P_Boolean v) = P_Boolean v"
| "settle (P_Data v) = P_Data v"
| "settle (P_Real v) = P_Real v"
| "settle (P_Integer n) = P_Integer n"
| "settle (P_String v) = P_String v"
| "settle (P_Uid v) = P_Uid v"

fun settle_collection :: "value_collection \<Rightarrow> value_collection" where
  "settle_collection (Coll_Array vs) = Coll_Array (map settle vs)"
| "settle_collection (Coll_Dictionary entries key) = Coll_Dictionary (dictionary_of (map (map_prod id settle) entries)) key"

lemma dictionary_of_simps [simp]:
  "dictionary_of [] = []"
  "dictionary_of (entries @ [(k, v)]) = dictionary_insert k v (dictionary_of entries)"
  by (simp_all add: dictionary_of_def)

lemma settle_child:
  assumes "(tree_child vc v () :: 'e ser_error + _) = Inr (vc', ())"
  shows "(value_child (settle_collection vc) (settle v) () :: 'e ser_error + _) = Inr (settle_collection vc', ())"
proof (cases vc)
  case (Coll_Dictionary entries key)
  then show ?thesis
    using assms by (cases key; cases v) (auto simp: tree_child_def)
qed (use assms in auto)

lemma settle_end:
  assumes "(value_end vc () :: 'e ser_error + _) = Inr (v, ())"
  shows "(value_end (settle_collection vc) () :: 'e ser_error + _) = Inr (settle v, ())"
  using assms by (cases vc) (auto simp: value_end_def split: option.splits)

interpretation plain: plist_builder "value_builder :: (unit, pvalue, value_collection, 'e) builder"
  "\<lambda>_. True" "\<lambda>_ _. True" "\<lambda>_. False" "\<lambda>_ i v. i = settle v" "\<lambda>_ c vc. c = settle_collection vc" "\<lambda>_ _. True"
  by unfold_locales (auto simp: settle_child settle_end)

lemma to_value_settles:
  assumes "sdata_ok v"
  shows "(to_value v :: 'e ser_error + pvalue) = map_sum id settle (to_tree v)"
  using plain.root_simulates [OF assms, of "()", where 'e = 'e]
  by (auto simp: to_value_def split: sum.splits prod.splits)

end
