(* ===== verification/Plist_Written.thy ===== *)
theory Plist_Written
  imports Plist_Encode Plist_Builder
begin

text \<open>
  What the writer of binary property lists has written, when its sink is a \<open>Vec\<close> (\<open>bplist/mod.rs\<close>)
  and the serializer drives it (\<open>impl Builder for Encoder\<close>): the invariant of its scratch, and that it
  keeps the contract of builders. Bodies of scalars are what stands between consecutive offsets;
  a collection has none before \<open>finish\<close>, only a chain of edges.
\<close>

section \<open>The sink\<close>

definition vec_emit :: "(u8 list, 'e) emitter" where
  "vec_emit bytes out = Inr (out @ bytes)"

definition into_core :: "'e + 'a \<Rightarrow> 'e ser_error + 'a" where
  "into_core m = (case m of Inl e \<Rightarrow> Inl (Ser_Core e) | Inr x \<Rightarrow> Inr x)"

definition wire_builder ::
    "('s, 'e) emitter \<Rightarrow> ('s encoder, u64, collection_state, 'e encode_failure) builder" where
  "wire_builder emit =
     \<lparr>b_boolean = \<lambda>v w. into_core (en_boolean emit v w),
      b_integer = \<lambda>v w. into_core (en_integer emit v w),
      b_unsigned_integer = \<lambda>v w. into_core (en_unsigned_integer emit v False w),
      b_real = \<lambda>v w. into_core (en_real emit v w),
      b_string = \<lambda>v w. into_core (en_string emit v w),
      b_data = \<lambda>v w. into_core (en_data emit v w),
      b_uid = \<lambda>v w. into_core (en_uid emit v w),
      b_begin_array = \<lambda>w. into_core (en_begin False w),
      b_begin_dict = \<lambda>w. into_core (en_begin True w),
      b_child = \<lambda>c i w. into_core (en_child c i w),
      b_end = \<lambda>c w. into_core (en_end c w)\<rparr>"

text \<open>\<open>serde::encode::encode\<close>, with the scratch \<open>offsets\<close>, \<open>collections\<close> and \<open>edges\<close>.\<close>

definition encode ::
    "('s, 'e) emitter \<Rightarrow> u64 list \<Rightarrow> collection list \<Rightarrow> ref_edge list \<Rightarrow> sdata \<Rightarrow> 's \<Rightarrow>
     'e encode_failure ser_error + 's encoder" where
  "encode emit offsets collections edges v sink =
     sum_bind (into_core (encoder_new emit offsets collections edges sink)) (\<lambda>w.
     bind_item (serialize_root (wire_builder emit) v w) (\<lambda>root w.
     into_core (en_finish emit root w)))"

text \<open>Writing to a \<open>Vec\<close> fails only when the position would not fit.\<close>

definition fits :: "'s encoder \<Rightarrow> nat \<Rightarrow> bool" where
  "fits w n \<longleftrightarrow> unat (en_position w) + n < 2 ^ 64"

definition put :: "u8 list \<Rightarrow> u8 list encoder \<Rightarrow> u8 list encoder" where
  "put bytes w =
     w\<lparr>en_sink := en_sink w @ bytes, en_position := en_position w + of_nat (length bytes)\<rparr>"

lemma put_simps [simp]:
  "en_sink (put b w) = en_sink w @ b" "en_position (put b w) = en_position w + of_nat (length b)"
  "en_offsets (put b w) = en_offsets w" "en_slots (put b w) = en_slots w"
  "en_edge_slots (put b w) = en_edge_slots w" "en_next (put b w) = en_next w"
  "en_collections (put b w) = en_collections w" "en_open (put b w) = en_open w"
  "en_edges (put b w) = en_edges w"
  by (simp_all add: put_def)

lemma put_put [simp]: "put b (put a w) = put (a @ b) w"
  by (simp add: put_def)

lemma put_Nil [simp]: "put [] w = w"
  by (simp add: put_def)

lemma position_put: "fits w (length b) \<Longrightarrow> unat (en_position (put b w)) = unat (en_position w) + length b"
  by (simp add: fits_def unat_word_ariths unat_of_nat)

lemma fits_0 [simp]: "fits w 0"
  using unat_range [of "en_position w"] by (simp add: fits_def)

lemma fits_put: "fits w (length a) \<Longrightarrow> fits (put a w) n \<longleftrightarrow> fits w (length a + n)"
  using position_put [of w a] by (simp add: fits_def add.assoc)

lemma fits_mono: "fits w n \<Longrightarrow> m \<le> n \<Longrightarrow> fits w m"
  by (simp add: fits_def)

lemma en_write_vec:
  "en_write vec_emit b w = (if fits w (length b) then Inr (put b w) else Inl (Encode_Err Encode_Overflow))"
  by (simp add: en_write_def fits_def put_def vec_emit_def)

lemma write_append:
  "sum_bind (en_write (vec_emit :: (u8 list, 'e) emitter) a w) (en_write vec_emit b) = en_write vec_emit (a @ b) w"
  by (auto simp: en_write_vec fits_put dest: fits_mono [of _ _ "length a"])

lemma write_append_then:
  "sum_bind (en_write (vec_emit :: (u8 list, 'e) emitter) a w) (\<lambda>w. sum_bind (en_write vec_emit b w) f) =
     sum_bind (en_write vec_emit (a @ b) w) f"
  by (auto simp: en_write_vec fits_put dest: fits_mono [of _ _ "length a"])

definition sized_bytes :: "u8 \<Rightarrow> usize \<Rightarrow> u8 list" where
  "sized_bytes kind n =
     (if n < 15 then [kind OR of_nat n]
      else
        let width = integer_width (of_nat n)
        in [kind OR EXTENDED_LENGTH, marker_INTEGER OR of_nat (usize_trailing_zeros width)] @ be_tail width (of_nat n))"

lemma en_sized_vec: "en_sized vec_emit kind n w = en_write vec_emit (sized_bytes kind n) w"
  by (simp add: en_sized_def sized_bytes_def Let_def write_append write_append_then)

lemma write_utf16_vec:
  "(write_utf16 vec_emit us buf w :: 'e encode_failure + _) = en_write vec_emit (buf @ concat (map be16_bytes us)) w"
proof (induction us arbitrary: buf w)
  case Nil
  then show ?case
    by (simp add: en_write_vec)
next
  case (Cons u us)
  then have "(write_utf16 vec_emit us [] :: _ \<Rightarrow> 'e encode_failure + _) = en_write vec_emit (concat (map be16_bytes us))"
    by (simp add: fun_eq_iff)
  then show ?case
    using Cons.IH by (simp add: Let_def write_append)
qed

lemma write_utf16_all: "write_utf16 vec_emit us buf = en_write vec_emit (buf @ concat (map be16_bytes us))"
  by (simp add: fun_eq_iff write_utf16_vec)

section \<open>The state of the scratch\<close>

definition off :: "'s encoder \<Rightarrow> nat \<Rightarrow> nat" where
  "off w i = unat (en_offsets w ! i)"

definition body_end :: "'s encoder \<Rightarrow> nat \<Rightarrow> nat" where
  "body_end w i = (if Suc i < unat (en_next w) then off w (Suc i) else unat (en_position w))"

text \<open>An object with bytes of its own; a collection has none yet.\<close>

definition leaf :: "'s encoder \<Rightarrow> nat \<Rightarrow> bool" where
  "leaf w i \<longleftrightarrow> off w i < body_end w i"

definition body :: "u8 list encoder \<Rightarrow> nat \<Rightarrow> u8 list" where
  "body w i = take (body_end w i - off w i) (drop (off w i) (en_sink w))"

definition closed :: "'s encoder \<Rightarrow> collection list" where
  "closed w = take (en_collections w) (en_slots w)"

definition the_edges :: "'s encoder \<Rightarrow> ref_edge list" where
  "the_edges w = take (en_edges w) (en_edge_slots w)"

text \<open>The edges \<open>finish\<close> passes when it follows a collection.\<close>

fun path :: "ref_edge list \<Rightarrow> usize option \<Rightarrow> usize list \<Rightarrow> bool" where
  "path E first [] = True"
| "path E first (e # es) = (first = Some e \<and> e < length E \<and> path E (edge_next (E ! e)) es)"

definition children :: "ref_edge list \<Rightarrow> usize list \<Rightarrow> u64 list" where
  "children E es = map (\<lambda>e. edge_object (E ! e)) es"

definition collection_ok :: "'s encoder \<Rightarrow> collection \<Rightarrow> bool" where
  "collection_ok w c \<longleftrightarrow>
     unat (col_object c) < unat (en_next w) \<and> \<not> leaf w (unat (col_object c)) \<and>
     (col_dictionary c \<longrightarrow> even (col_count c)) \<and>
     (\<exists>es. path (the_edges w) (col_first c) es \<and> length es = col_count c \<and>
        (\<forall>i\<in>set (children (the_edges w) es). unat i < unat (en_next w)))"

definition encoder_ok :: "u8 list encoder \<Rightarrow> bool" where
  "encoder_ok w \<longleftrightarrow>
     unat (en_position w) = length (en_sink w) \<and> 8 \<le> length (en_sink w) \<and> take 8 (en_sink w) = HEADER \<and>
     unat (en_next w) \<le> length (en_offsets w) \<and> en_collections w \<le> length (en_slots w) \<and>
     en_edges w \<le> length (en_edge_slots w) \<and>
     (\<forall>i < unat (en_next w). 8 \<le> off w i \<and> off w i \<le> body_end w i \<and> body_end w i \<le> length (en_sink w)) \<and>
     (\<forall>c \<in> set (closed w). collection_ok w c) \<and> distinct (map col_object (closed w)) \<and>
     card {i. i < unat (en_next w) \<and> \<not> leaf w i} = en_collections w + en_open w"

section \<open>What objects stand for\<close>

text \<open>The body of a scalar.\<close>

fun scalar_body :: "pvalue \<Rightarrow> u8 list option" where
  "scalar_body (P_Boolean b) = Some [if b then marker_TRUE else marker_FALSE]"
| "scalar_body (P_Data d) = Some (sized_bytes marker_DATA (length d) @ d)"
| "scalar_body (P_Real bits) = Some ((marker_REAL OR 3) # be64_bytes bits)"
| "scalar_body (P_Integer n) =
     (if - (2 ^ 63) \<le> n \<and> n < 2 ^ 64 then Some (integer_bytes (of_int n) (n < 0)) else None)"
| "scalar_body (P_String s) =
     (if \<not> is_str s then None
      else if is_ascii s then Some (sized_bytes marker_ASCII (length s) @ s)
      else Some (sized_bytes marker_UTF16 (length (encode_utf16 s)) @ concat (map be16_bytes (encode_utf16 s))))"
| "scalar_body (P_Uid v) =
     Some ((marker_UID OR of_nat (integer_width v - 1)) # be_tail (integer_width v) v)"
| "scalar_body _ = None"

definition flat :: "(u8 list \<times> pvalue) list \<Rightarrow> pvalue list" where
  "flat entries = concat (map (\<lambda>(k, v). [P_String k, v]) entries)"

inductive stands_for :: "u8 list encoder \<Rightarrow> u64 \<Rightarrow> pvalue \<Rightarrow> bool" for w where
  scalar: "unat i < unat (en_next w) \<Longrightarrow> leaf w (unat i) \<Longrightarrow> body_end w (unat i) \<le> length (en_sink w) \<Longrightarrow>
    scalar_body v = Some (body w (unat i)) \<Longrightarrow> stands_for w i v"
| array: "c \<in> set (closed w) \<Longrightarrow> col_object c = i \<Longrightarrow> unat i < unat (en_next w) \<Longrightarrow> \<not> col_dictionary c \<Longrightarrow>
    path (the_edges w) (col_first c) es \<Longrightarrow> length es = col_count c \<Longrightarrow>
    list_all2 (stands_for w) (children (the_edges w) es) vs \<Longrightarrow> stands_for w i (P_Array vs)"
| dictionary: "c \<in> set (closed w) \<Longrightarrow> col_object c = i \<Longrightarrow> unat i < unat (en_next w) \<Longrightarrow> col_dictionary c \<Longrightarrow>
    path (the_edges w) (col_first c) es \<Longrightarrow> length es = col_count c \<Longrightarrow>
    list_all2 (stands_for w) (children (the_edges w) es) (flat entries) \<Longrightarrow>
    stands_for w i (P_Dictionary entries)"

text \<open>What the children so far make of a collection of values.\<close>

inductive gathered :: "bool \<Rightarrow> pvalue list \<Rightarrow> value_collection \<Rightarrow> bool" where
  "gathered False vs (Coll_Array vs)"
| "gathered True (flat entries) (Coll_Dictionary entries None)"
| "gathered True (flat entries @ [P_String k]) (Coll_Dictionary entries (Some k))"

definition gathers :: "u8 list encoder \<Rightarrow> collection_state \<Rightarrow> value_collection \<Rightarrow> bool" where
  "gathers w c vc \<longleftrightarrow>
     unat (cs_object c) < unat (en_next w) \<and> \<not> leaf w (unat (cs_object c)) \<and>
     cs_object c \<notin> col_object ` set (closed w) \<and>
     (\<exists>es vs. path (the_edges w) (cs_first c) es \<and> length es = cs_count c \<and>
        (case cs_last c of None \<Rightarrow> es = []
         | Some e \<Rightarrow> es \<noteq> [] \<and> List.last es = e \<and> edge_next (the_edges w ! e) = None) \<and>
        list_all2 (stands_for w) (children (the_edges w) es) vs \<and> gathered (cs_dictionary c) vs vc)"

definition younger :: "u8 list encoder \<Rightarrow> collection_state \<Rightarrow> bool" where
  "younger w c \<longleftrightarrow> unat (en_next w) \<le> unat (cs_object c) \<and> (\<forall>e. cs_last c = Some e \<longrightarrow> en_edges w \<le> e)"

definition extends :: "u8 list encoder \<Rightarrow> u8 list encoder \<Rightarrow> bool" where
  "extends w w' \<longleftrightarrow>
     unat (en_next w) \<le> unat (en_next w') \<and>
     (\<forall>i < unat (en_next w). off w' i = off w i \<and> body_end w' i = body_end w i) \<and>
     (\<exists>bytes. en_sink w' = en_sink w @ bytes) \<and>
     (\<exists>cs. closed w' = closed w @ cs \<and> (\<forall>c \<in> set cs. unat (en_next w) \<le> unat (col_object c))) \<and>
     en_edges w \<le> en_edges w' \<and> (\<exists>es. the_edges w' = the_edges w @ es)"

text \<open>The failures the code reports; the others do not happen.\<close>

definition capacity_error :: "'e encode_failure \<Rightarrow> bool" where
  "capacity_error e \<longleftrightarrow>
     e = Encode_Err Encode_Overflow \<or> (\<exists>kind n m. e = Encode_Err (Scratch_Too_Small kind n m) \<and> m < n)"

section \<open>Extensions\<close>

lemma extends_refl: "extends w w"
  by (simp add: extends_def)

lemma extends_trans: "extends w w' \<Longrightarrow> extends w' w'' \<Longrightarrow> extends w w''"
  by (fastforce simp: extends_def)

lemma leaf_extends: "extends w w' \<Longrightarrow> i < unat (en_next w) \<Longrightarrow> leaf w' i = leaf w i"
  by (simp add: extends_def leaf_def)

lemma body_extends:
  "extends w w' \<Longrightarrow> i < unat (en_next w) \<Longrightarrow> body_end w i \<le> length (en_sink w) \<Longrightarrow> body w' i = body w i"
  by (auto simp: extends_def body_def)

lemma path_append: "path E first es \<Longrightarrow> path (E @ E') first es"
  by (induction es arbitrary: first) (auto simp: nth_append)

lemma path_bound: "path E first es \<Longrightarrow> e \<in> set es \<Longrightarrow> e < length E"
  by (induction es arbitrary: first) auto

lemma children_append: "path E first es \<Longrightarrow> children (E @ E') es = children E es"
  using path_bound [of E first es] by (simp add: children_def nth_append)

lemma stands_for_extends: "stands_for w i v \<Longrightarrow> extends w w' \<Longrightarrow> stands_for w' i v"
proof (induction rule: stands_for.induct)
  case (scalar i v)
  then have "extends w w'" by simp
  then obtain bytes where "en_sink w' = en_sink w @ bytes" and "unat (en_next w) \<le> unat (en_next w')"
    and "\<forall>i < unat (en_next w). body_end w' i = body_end w i"
    by (auto simp: extends_def)
  then show ?case
    using scalar by (intro stands_for.scalar) (auto simp: leaf_extends body_extends)
next
  case (array c i es vs)
  then obtain cs E where "closed w' = closed w @ cs" "the_edges w' = the_edges w @ E"
    "unat (en_next w) \<le> unat (en_next w')"
    by (auto simp: extends_def)
  with array show ?case
    by (intro stands_for.array [of c _ _ es])
      (auto simp: path_append children_append elim: list_all2_mono)
next
  case (dictionary c i es entries)
  then obtain cs E where "closed w' = closed w @ cs" "the_edges w' = the_edges w @ E"
    "unat (en_next w) \<le> unat (en_next w')"
    by (auto simp: extends_def)
  with dictionary show ?case
    by (intro stands_for.dictionary [of c _ _ es])
      (auto simp: path_append children_append elim: list_all2_mono)
qed

lemma younger_extends: "extends w w' \<Longrightarrow> younger w' c \<Longrightarrow> younger w c"
  by (auto simp: extends_def younger_def)

lemma gathers_extends:
  assumes ext: "extends w w'" and "gathers w c vc"
  shows "gathers w' c vc"
proof -
  obtain es vs where c: "unat (cs_object c) < unat (en_next w)" "\<not> leaf w (unat (cs_object c))"
      "cs_object c \<notin> col_object ` set (closed w)" "path (the_edges w) (cs_first c) es" "length es = cs_count c"
      "case cs_last c of None \<Rightarrow> es = []
       | Some e \<Rightarrow> es \<noteq> [] \<and> List.last es = e \<and> edge_next (the_edges w ! e) = None"
      "list_all2 (stands_for w) (children (the_edges w) es) vs" "gathered (cs_dictionary c) vs vc"
    using assms(2) by (auto simp: gathers_def)
  obtain cs E where w': "closed w' = closed w @ cs" "\<forall>c \<in> set cs. unat (en_next w) \<le> unat (col_object c)"
      "the_edges w' = the_edges w @ E" "unat (en_next w) \<le> unat (en_next w')"
    using ext by (auto simp: extends_def)
  have "case cs_last c of None \<Rightarrow> es = []
      | Some e \<Rightarrow> es \<noteq> [] \<and> List.last es = e \<and> edge_next (the_edges w' ! e) = None"
    using c(6) path_bound [OF c(4)] w'(3) by (auto simp: nth_append split: option.splits)
  moreover have "list_all2 (stands_for w') (children (the_edges w') es) vs"
    using c(4,7) w'(3) ext by (auto simp: children_append elim!: list_all2_mono intro: stands_for_extends)
  moreover have "cs_object c \<notin> col_object ` set (closed w')"
    using c(1,3) w'(1,2) by auto
  ultimately show ?thesis
    unfolding gathers_def using c w' ext leaf_extends [OF ext c(1)] path_append [OF c(4), of E] by auto
qed

section \<open>A new object\<close>

text \<open>The next object, with \<open>b\<close> as its body; one without a body is a collection that opens.\<close>

definition added :: "u8 list \<Rightarrow> u8 list encoder \<Rightarrow> u8 list encoder" where
  "added b w =
     put b (w\<lparr>en_next := en_next w + 1, en_offsets := (en_offsets w)[unat (en_next w) := en_position w],
              en_open := en_open w + (if b = [] then 1 else 0)\<rparr>)"

definition room :: "u8 list encoder \<Rightarrow> bool" where
  "room w \<longleftrightarrow> unat (en_next w) + 1 < 2 ^ 64 \<and> unat (en_next w) < length (en_offsets w)"

lemma unat_next: "room w \<Longrightarrow> unat (en_next w + 1) = Suc (unat (en_next w))"
  by (simp add: room_def unat_word_ariths)

lemma added_simps:
  assumes "room w" "fits w (length b)"
  shows "en_next (added b w) = en_next w + 1" "unat (en_next (added b w)) = Suc (unat (en_next w))"
    and "en_sink (added b w) = en_sink w @ b" "closed (added b w) = closed w" "the_edges (added b w) = the_edges w"
    and "unat (en_position (added b w)) = unat (en_position w) + length b"
    and "i < unat (en_next w) \<Longrightarrow> off (added b w) i = off w i"
    and "off (added b w) (unat (en_next w)) = unat (en_position w)"
    and "i < unat (en_next w) \<Longrightarrow> body_end (added b w) i = body_end w i"
    and "body_end (added b w) (unat (en_next w)) = unat (en_position w) + length b"
    and "en_open (added b w) = en_open w + (if b = [] then 1 else 0)"
    and "en_collections (added b w) = en_collections w" "en_edges (added b w) = en_edges w"
    and "length (en_offsets (added b w)) = length (en_offsets w)"
    and "en_slots (added b w) = en_slots w" "en_edge_slots (added b w) = en_edge_slots w"
proof -
  show n: "unat (en_next (added b w)) = Suc (unat (en_next w))"
    using unat_next [OF assms(1)] by (simp add: added_def)
  show pos: "unat (en_position (added b w)) = unat (en_position w) + length b"
    using position_put assms(2) by (simp add: added_def fits_def)
  have inside: "unat (en_next w) < length (en_offsets w)"
    using assms(1) by (simp add: room_def)
  show o1: "off (added b w) i = off w i" if "i < unat (en_next w)" for i
    using that by (simp add: added_def off_def)
  show o2: "off (added b w) (unat (en_next w)) = unat (en_position w)"
    using inside by (simp add: added_def off_def)
  show "body_end (added b w) i = body_end w i" if "i < unat (en_next w)"
  proof (cases "Suc i < unat (en_next w)")
    case True
    then show ?thesis
      using n o1 by (simp add: body_end_def)
  next
    case False
    then have "Suc i = unat (en_next w)"
      using that by simp
    then show ?thesis
      using n o2 by (simp add: body_end_def)
  qed
  show "body_end (added b w) (unat (en_next w)) = unat (en_position w) + length b"
    using n pos by (simp add: body_end_def)
qed (simp_all add: added_def closed_def the_edges_def)

lemma added_leaf:
  assumes "room w" "fits w (length b)"
  shows "i < unat (en_next w) \<Longrightarrow> leaf (added b w) i = leaf w i"
    and "leaf (added b w) (unat (en_next w)) \<longleftrightarrow> b \<noteq> []"
  using added_simps [OF assms] by (simp_all add: leaf_def)

lemma added_extends:
  assumes "room w" "fits w (length b)"
  shows "extends w (added b w)"
  using added_simps [OF assms] by (simp add: extends_def)

lemma collection_ok_mono:
  assumes "collection_ok w c" "extends w w'"
  shows "collection_ok w' c"
proof -
  obtain es where es: "path (the_edges w) (col_first c) es" "length es = col_count c"
    "\<forall>i\<in>set (children (the_edges w) es). unat i < unat (en_next w)"
    using assms(1) by (auto simp: collection_ok_def)
  obtain E where E: "the_edges w' = the_edges w @ E" "unat (en_next w) \<le> unat (en_next w')"
    using assms(2) by (auto simp: extends_def)
  have "path (the_edges w') (col_first c) es" "\<forall>i\<in>set (children (the_edges w') es). unat i < unat (en_next w')"
    using es E by (auto simp: path_append children_append intro: less_le_trans)
  then show ?thesis
    using assms es(2) E(2) by (auto simp: collection_ok_def leaf_extends [OF assms(2)] intro: less_le_trans)
qed

lemma added_ok:
  assumes ok: "encoder_ok w" and "room w" "fits w (length b)"
  shows "encoder_ok (added b w)"
proof -
  note simps = added_simps [OF assms(2,3)] and leaves = added_leaf [OF assms(2,3)]
  let ?n = "unat (en_next w)"
  have "{i. i < Suc ?n \<and> \<not> leaf (added b w) i} =
      (if b = [] then insert ?n {i. i < ?n \<and> \<not> leaf w i} else {i. i < ?n \<and> \<not> leaf w i})"
    using leaves by (auto simp: less_Suc_eq)
  then have card: "card {i. i < Suc ?n \<and> \<not> leaf (added b w) i} = en_collections w + (en_open w + (if b = [] then 1 else 0))"
    using ok by (auto simp: encoder_ok_def)
  have objects: "8 \<le> off (added b w) i \<and> off (added b w) i \<le> body_end (added b w) i \<and>
      body_end (added b w) i \<le> length (en_sink w @ b)" if "i < Suc ?n" for i
    using that ok simps(7-10) by (cases "i = ?n") (auto simp: encoder_ok_def trans_le_add1)
  show ?thesis
    using ok assms(2) simps card objects collection_ok_mono [OF _ added_extends [OF assms(2,3)]]
    by (auto simp: encoder_ok_def room_def Suc_le_eq)
qed

lemma added_stands_for:
  assumes ok: "encoder_ok w" and "room w" "fits w (length b)" and "scalar_body v = Some b" "b \<noteq> []"
  shows "stands_for (added b w) (en_next w) v"
proof (rule stands_for.scalar)
  note simps = added_simps [OF assms(2,3)]
  have pos: "unat (en_position w) = length (en_sink w)"
    using ok by (simp add: encoder_ok_def)
  show "scalar_body v = Some (body (added b w) (unat (en_next w)))"
    using assms(4) simps pos by (simp add: body_def)
  show "leaf (added b w) (unat (en_next w))" "unat (en_next w) < unat (en_next (added b w))"
    "body_end (added b w) (unat (en_next w)) \<le> length (en_sink (added b w))"
    using added_leaf [OF assms(2,3)] assms(5) simps pos by simp_all
qed

lemma en_slot_eq:
  "en_slot sc w =
     (if unat (en_next w) + 1 < 2 ^ 64
      then if length (en_offsets w) \<le> unat (en_next w)
        then Inl (Encode_Err (Scratch_Too_Small Offsets (unat (en_next w) + 1) (length (en_offsets w))))
        else Inr ((en_next w, True),
          w\<lparr>en_next := en_next w + 1, en_offsets := (en_offsets w)[unat (en_next w) := en_position w]\<rparr>)
      else Inl (Encode_Err Encode_Overflow))"
  by (cases sc) (simp_all add: en_slot_def index_scalar_def index_unique_def Let_def)

text \<open>All the scalars: a slot, then a body.\<close>

definition put_scalar :: "scalar_ref \<Rightarrow> u8 list \<Rightarrow> u8 list encoder \<Rightarrow> 'e encode_failure + u64 \<times> u8 list encoder" where
  "put_scalar sc b w =
     sum_bind (en_slot (Some sc) w) (\<lambda>((i, new), w).
     if new then sum_bind (en_write vec_emit b w) (\<lambda>w. Inr (i, w)) else Inr (i, w))"

lemma scalars_put:
  "en_boolean vec_emit v = put_scalar (Scalar_Boolean v) [if v then marker_TRUE else marker_FALSE]"
  "en_unsigned_integer vec_emit n neg = put_scalar (Scalar_Integer n neg) (integer_bytes n neg)"
  "en_integer vec_emit n = put_scalar (Scalar_Integer n (sint n < 0)) (integer_bytes n (sint n < 0))"
  "en_real vec_emit n = put_scalar (Scalar_Real n) ((marker_REAL OR 3) # be64_bytes n)"
  "en_uid vec_emit n =
     put_scalar (Scalar_Uid n) ((marker_UID OR of_nat (integer_width n - 1)) # be_tail (integer_width n) n)"
  "en_data vec_emit d = put_scalar (Scalar_Data d) (sized_bytes marker_DATA (length d) @ d)"
  "en_string vec_emit t = put_scalar (Scalar_String t)
     (if is_ascii t then sized_bytes marker_ASCII (length t) @ t
      else sized_bytes marker_UTF16 (length (encode_utf16 t)) @ concat (map be16_bytes (encode_utf16 t)))"
  by (simp_all add: fun_eq_iff en_boolean_def en_unsigned_integer_def en_integer_def en_real_def en_uid_def
      en_data_def en_string_def scalar_bytes_def put_scalar_def Let_def en_sized_vec write_append_then
      write_append write_utf16_all cong: if_cong)

lemma put_scalar_eq:
  assumes "b \<noteq> []"
  shows "put_scalar sc b w =
      (if room w then if fits w (length b) then Inr (en_next w, added b w) else Inl (Encode_Err Encode_Overflow)
       else if unat (en_next w) + 1 < 2 ^ 64
       then Inl (Encode_Err (Scratch_Too_Small Offsets (unat (en_next w) + 1) (length (en_offsets w))))
       else Inl (Encode_Err Encode_Overflow))"
  using assms by (auto simp: put_scalar_def en_slot_eq en_write_vec room_def fits_def added_def not_less)

lemma put_scalar_simulates:
  assumes "encoder_ok w" "scalar_body v = Some b" "b \<noteq> []"
  shows "simulates (\<lambda>w'. encoder_ok w' \<and> extends w w') capacity_error (into_core (put_scalar sc b w))
      (Inr (v, ())) stands_for"
  using assms
  by (auto simp: put_scalar_eq into_core_def capacity_error_def room_def not_less
      intro!: simulates_core added_ok added_extends added_stands_for)

text \<open>A collection that opens.\<close>

lemma en_begin_eq:
  "en_begin d w =
     (if room w then
        if en_open w + 1 < usize_bound
        then Inr (\<lparr>cs_object = en_next w, cs_first = None, cs_last = None, cs_count = 0, cs_dictionary = d\<rparr>, added [] w)
        else Inl (Encode_Err Encode_Overflow)
      else if unat (en_next w) + 1 < 2 ^ 64
      then Inl (Encode_Err (Scratch_Too_Small Offsets (unat (en_next w) + 1) (length (en_offsets w))))
      else Inl (Encode_Err Encode_Overflow))"
  by (auto simp: en_begin_def en_slot_eq room_def added_def checked_add_def not_less)

lemma begin_simulates:
  assumes ok: "encoder_ok w" and "gathered d [] vc"
  shows "simulates (\<lambda>w'. encoder_ok w' \<and> extends w w') capacity_error (into_core (en_begin d w))
      (Inr (vc, ())) (\<lambda>w' c vc. gathers w' c vc \<and> younger w c)"
proof -
  have "gathers (added [] w)
      \<lparr>cs_object = en_next w, cs_first = None, cs_last = None, cs_count = 0, cs_dictionary = d\<rparr> vc" if "room w"
  proof -
    have "en_next w \<notin> col_object ` set (closed w)"
      using ok by (auto simp: encoder_ok_def collection_ok_def)
    moreover have "fits w (length [])"
      by simp
    ultimately show ?thesis
      using added_simps [OF that \<open>fits w (length [])\<close>] added_leaf [OF that \<open>fits w (length [])\<close>] assms(2)
      unfolding gathers_def by (auto simp: children_def intro!: exI [of _ "[]"])
  qed
  then show ?thesis
    using ok added_ok [of w "[]"] added_extends [of w "[]"]
    by (auto simp: en_begin_eq into_core_def capacity_error_def room_def not_less younger_def intro!: simulates_core)
qed

section \<open>A child\<close>

text \<open>Two lists of edges that differ in the link of an edge nothing is linked from.\<close>

definition relinked :: "ref_edge list \<Rightarrow> ref_edge list \<Rightarrow> bool" where
  "relinked E E' \<longleftrightarrow> length E \<le> length E' \<and>
     (\<forall>e < length E. edge_object (E' ! e) = edge_object (E ! e) \<and> (edge_next (E ! e) \<noteq> None \<longrightarrow> E' ! e = E ! e))"

lemma path_relinked: "path E first es \<Longrightarrow> relinked E E' \<Longrightarrow> path E' first es"
proof (induction es arbitrary: first)
  case (Cons e es)
  show ?case
  proof (cases es)
    case Nil
    then show ?thesis using Cons.prems by (auto simp: relinked_def)
  next
    case (Cons e' es')
    then have "edge_next (E ! e) = Some e'" "e < length E"
      using Cons.prems by auto
    then show ?thesis
      using Cons.IH [of "edge_next (E ! e)"] Cons.prems by (auto simp: relinked_def)
  qed
qed simp

lemma children_relinked: "path E first es \<Longrightarrow> relinked E E' \<Longrightarrow> children E' es = children E es"
  using path_bound [of E first es] by (simp add: children_def relinked_def)

lemma path_snoc: "path E first (es @ [e]) \<longleftrightarrow>
    path E first es \<and> e < length E \<and> (if es = [] then first else edge_next (E ! List.last es)) = Some e"
  by (induction es arbitrary: first) auto

text \<open>An encoder after a child differs in its edges only, after an end it has one closed collection more.\<close>

lemma stands_for_relinked:
  assumes "relinked (the_edges w) (the_edges w')"
    and same: "en_next w' = en_next w" "en_sink w' = en_sink w" "set (closed w) \<subseteq> set (closed w')"
      "en_offsets w' = en_offsets w" "en_position w' = en_position w"
    and "stands_for w i v"
  shows "stands_for w' i v"
  using assms(7)
proof (induction rule: stands_for.induct)
  case (scalar i v)
  moreover have "off w' = off w" "body_end w' = body_end w"
    using same by (simp_all add: fun_eq_iff off_def body_end_def)
  ultimately show ?case
    using same by (intro stands_for.scalar) (simp_all add: leaf_def body_def)
next
  case (array c i es vs)
  then show ?case
    using same assms(1)
    by (intro stands_for.array [of c _ _ es])
      (auto simp: path_relinked children_relinked elim: list_all2_mono)
next
  case (dictionary c i es entries)
  then show ?case
    using same assms(1)
    by (intro stands_for.dictionary [of c _ _ es])
      (auto simp: path_relinked children_relinked elim: list_all2_mono)
qed

text \<open>The encoder after a child, and what differs.\<close>

definition linked :: "collection_state \<Rightarrow> u64 \<Rightarrow> 's encoder \<Rightarrow> 's encoder" where
  "linked c i w =
     (let slots = (en_edge_slots w)[en_edges w := \<lparr>edge_object = i, edge_next = None\<rparr>]
      in w\<lparr>en_edges := en_edges w + 1,
           en_edge_slots := (case cs_last c of None \<Rightarrow> slots
             | Some e \<Rightarrow> slots[e := (slots ! e)\<lparr>edge_next := Some (en_edges w)\<rparr>])\<rparr>)"

definition after_child :: "collection_state \<Rightarrow> 's encoder \<Rightarrow> collection_state" where
  "after_child c w =
     c\<lparr>cs_first := (case cs_last c of None \<Rightarrow> Some (en_edges w) | Some _ \<Rightarrow> cs_first c),
       cs_last := Some (en_edges w), cs_count := cs_count c + 1\<rparr>"

lemma linked_simps [simp]:
  "en_sink (linked c i w) = en_sink w" "en_next (linked c i w) = en_next w"
  "en_offsets (linked c i w) = en_offsets w" "en_position (linked c i w) = en_position w"
  "closed (linked c i w) = closed w" "en_edges (linked c i w) = Suc (en_edges w)"
  "en_collections (linked c i w) = en_collections w" "en_open (linked c i w) = en_open w"
  "en_slots (linked c i w) = en_slots w" "length (en_edge_slots (linked c i w)) = length (en_edge_slots w)"
  by (simp_all add: linked_def Let_def closed_def split: option.split)

lemma linked_same [simp]:
  "off (linked c i w) = off w" "body_end (linked c i w) = body_end w" "leaf (linked c i w) = leaf w"
  by (simp_all add: fun_eq_iff off_def body_end_def leaf_def)

lemma en_child_eq:
  assumes "case cs_last c of None \<Rightarrow> True | Some e \<Rightarrow> e < length (en_edge_slots w)"
  shows "en_child c i w =
     (if unat (en_next w) \<le> unat i then Inl (Encode_Err Invalid_Collection)
      else if length (en_edge_slots w) \<le> en_edges w
      then Inl (Encode_Err (Scratch_Too_Small Edges (en_edges w + 1) (length (en_edge_slots w))))
      else if cs_count c + 1 < usize_bound then Inr (after_child c w, linked c i w)
      else Inl (Encode_Err Encode_Overflow))"
  using assms
  by (cases "cs_last c")
    (simp_all add: en_child_def linked_def after_child_def Let_def checked_add_def word_le_nat_alt)

definition linkable :: "'s encoder \<Rightarrow> collection_state \<Rightarrow> bool" where
  "linkable w c \<longleftrightarrow> en_edges w < length (en_edge_slots w) \<and>
     (case cs_last c of None \<Rightarrow> True | Some e \<Rightarrow> e < en_edges w \<and> edge_next (the_edges w ! e) = None)"

lemma length_linked:
  "linkable w c \<Longrightarrow> length (the_edges (linked c i w)) = Suc (en_edges w)"
  "linkable w c \<Longrightarrow> length (the_edges w) = en_edges w"
  by (simp_all add: linkable_def the_edges_def)

lemma linked_nth:
  "linkable w c \<Longrightarrow> e < en_edges w \<Longrightarrow>
    the_edges (linked c i w) ! e =
      (if cs_last c = Some e then (the_edges w ! e)\<lparr>edge_next := Some (en_edges w)\<rparr> else the_edges w ! e)"
  by (auto simp: linkable_def linked_def the_edges_def Let_def nth_list_update split: option.splits)

lemma linked_new: "linkable w c \<Longrightarrow> the_edges (linked c i w) ! en_edges w = \<lparr>edge_object = i, edge_next = None\<rparr>"
  by (auto simp: linkable_def linked_def the_edges_def Let_def nth_list_update split: option.splits)

lemma linked_relinked: "linkable w c \<Longrightarrow> relinked (the_edges w) (the_edges (linked c i w))"
proof -
  assume link: "linkable w c"
  then have "cs_last c = Some e \<Longrightarrow> edge_next (the_edges w ! e) = None" for e
    by (simp add: linkable_def)
  then show ?thesis
    by (auto simp: relinked_def length_linked [OF link] linked_nth [OF link])
qed

lemma collection_ok_linked:
  assumes "linkable w c" "collection_ok w d"
  shows "collection_ok (linked c i w) d"
proof -
  obtain es where es: "path (the_edges w) (col_first d) es" "length es = col_count d"
    "\<forall>i\<in>set (children (the_edges w) es). unat i < unat (en_next w)"
    using assms(2) by (auto simp: collection_ok_def)
  have "path (the_edges (linked c i w)) (col_first d) es"
    "children (the_edges (linked c i w)) es = children (the_edges w) es"
    using path_relinked [OF es(1)] children_relinked [OF es(1)] linked_relinked [OF assms(1)] by blast+
  then show ?thesis
    using assms(2) es by (auto simp: collection_ok_def)
qed

lemma linked_ok: "linkable w c \<Longrightarrow> encoder_ok w \<Longrightarrow> encoder_ok (linked c i w)"
  by (auto simp: encoder_ok_def collection_ok_linked linkable_def)

lemma linked_stands_for: "linkable w c \<Longrightarrow> stands_for w j v \<Longrightarrow> stands_for (linked c i w) j v"
  by (rule stands_for_relinked [OF linked_relinked]) auto

lemma linked_extends:
  assumes "linkable w c" "extends w0 w" "younger w0 c"
  shows "extends w0 (linked c i w)"
proof -
  obtain es where es: "the_edges w = the_edges w0 @ es" "en_edges w0 \<le> en_edges w"
    using assms(2) by (auto simp: extends_def)
  have "take (length (the_edges w0)) (the_edges (linked c i w)) = the_edges w0"
  proof (rule nth_equalityI)
    fix e
    assume "e < length (take (length (the_edges w0)) (the_edges (linked c i w)))"
    then have e: "e < length (the_edges w0)"
      by simp
    then have "e < en_edges w0" "e < en_edges w"
      using es by (auto simp: the_edges_def)
    then have "the_edges (linked c i w) ! e = the_edges w ! e"
      using assms(1,3) by (auto simp: linked_nth younger_def)
    then show "take (length (the_edges w0)) (the_edges (linked c i w)) ! e = the_edges w0 ! e"
      using e es by (simp add: nth_append)
  qed (use es length_linked [OF assms(1)] in auto)
  then have "the_edges (linked c i w) = the_edges w0 @ drop (length (the_edges w0)) (the_edges (linked c i w))"
    by (metis append_take_drop_id)
  then show ?thesis
    using assms(2) es(2) by (auto simp: extends_def)
qed

text \<open>A value more is gathered.\<close>

lemma gathered_child:
  assumes "gathered d vs vc" "(tree_child vc v () :: 'e ser_error + _) = Inr (vc', ())"
  shows "gathered d (vs @ [v]) vc'"
  using assms(1)
proof cases
  case 1
  then show ?thesis using assms(2) by (auto intro: gathered.intros)
next
  case (2 entries)
  then show ?thesis
    using assms(2) by (auto simp: tree_child_def split: pvalue.splits intro: gathered.intros)
next
  case (3 entries k)
  have "flat (entries @ [(k, v)]) = flat entries @ [P_String k, v]"
    by (simp add: flat_def)
  then show ?thesis
    using 3 assms(2) gathered.intros(2) [of "entries @ [(k, v)]"] by simp
qed

lemma gathers_linkable: "gathers w c vc \<Longrightarrow> encoder_ok w \<Longrightarrow> en_edges w < length (en_edge_slots w) \<Longrightarrow> linkable w c"
  using path_bound [of "the_edges w" "cs_first c"]
  by (fastforce simp: gathers_def linkable_def the_edges_def split: option.splits)

lemma linked_gathers:
  assumes "gathers w c vc" "encoder_ok w" "linkable w c" "stands_for w i v"
    and "(tree_child vc v () :: 'e ser_error + _) = Inr (vc', ())"
  shows "gathers (linked c i w) (after_child c w) vc'"
proof -
  obtain es vs where c: "path (the_edges w) (cs_first c) es" "length es = cs_count c"
      "case cs_last c of None \<Rightarrow> es = []
       | Some e \<Rightarrow> es \<noteq> [] \<and> List.last es = e \<and> edge_next (the_edges w ! e) = None"
      "list_all2 (stands_for w) (children (the_edges w) es) vs" "gathered (cs_dictionary c) vs vc"
    using assms(1) by (auto simp: gathers_def)
  let ?E = "the_edges (linked c i w)" and ?e = "en_edges w"
  have re: "relinked (the_edges w) ?E"
    by (rule linked_relinked [OF assms(3)])
  have "path ?E (cs_first (after_child c w)) (es @ [?e])"
  proof (cases "cs_last c")
    case None
    then show ?thesis
      using c(3) length_linked [OF assms(3)] by (simp add: after_child_def)
  next
    case (Some e)
    then have es: "es \<noteq> []" "List.last es = e"
      using c(3) by auto
    moreover have "e < ?e"
      using assms(3) Some by (auto simp: linkable_def)
    ultimately show ?thesis
      using path_relinked [OF c(1) re] Some length_linked [OF assms(3)] linked_nth [OF assms(3), of e]
      by (simp add: path_snoc after_child_def)
  qed
  moreover have "children ?E (es @ [?e]) = children (the_edges w) es @ [i]"
    using children_relinked [OF c(1) re] linked_new [OF assms(3)] by (simp add: children_def)
  then have "list_all2 (stands_for (linked c i w)) (children ?E (es @ [?e])) (vs @ [v])"
    using c(4) assms(4) linked_stands_for [OF assms(3)]
    by (auto intro!: list_all2_appendI elim: list_all2_mono)
  moreover have "gathered (cs_dictionary c) (vs @ [v]) vc'"
    by (rule gathered_child [OF c(5) assms(5)])
  moreover have "edge_next (?E ! ?e) = None"
    using linked_new [OF assms(3)] by simp
  ultimately show ?thesis
    using assms(1) c(2) unfolding gathers_def
    by (intro conjI exI [of _ "es @ [?e]"] exI [of _ "vs @ [v]"]) (auto simp: after_child_def)
qed

lemma stands_for_next: "stands_for w i v \<Longrightarrow> unat i < unat (en_next w)"
  by (erule stands_for.cases) simp_all

lemma child_simulates:
  assumes ok: "encoder_ok w" "extends w0 w" "younger w0 c" "gathers w c vc" "stands_for w i v"
    and vc': "(tree_child vc v () :: 'e encode_failure ser_error + _) = Inr (vc', ())"
  shows "simulates (\<lambda>w'. encoder_ok w' \<and> extends w0 w' \<and> (\<forall>i v. stands_for w i v \<longrightarrow> stands_for w' i v)) capacity_error
      (into_core (en_child c i w) :: 'e encode_failure ser_error + _) (Inr (vc', ()))
      (\<lambda>w' c' vc'. gathers w' c' vc' \<and> younger w0 c')"
proof -
  have tail: "case cs_last c of None \<Rightarrow> True | Some e \<Rightarrow> e < length (en_edge_slots w)"
    using assms(4) path_bound [of "the_edges w" "cs_first c"] ok(1)
    by (fastforce simp: gathers_def the_edges_def encoder_ok_def split: option.splits)
  have younger: "younger w0 (after_child c w)"
    using ok(2,3) by (auto simp: younger_def after_child_def extends_def)
  show ?thesis
  proof (cases "en_edges w < length (en_edge_slots w)")
    case True
    note link = gathers_linkable [OF assms(4) ok(1) True]
    show ?thesis
      unfolding en_child_eq [OF tail] using True stands_for_next [OF assms(5)] younger linked_ok [OF link ok(1)] linked_extends [OF link ok(2,3)]
        linked_stands_for [OF link] linked_gathers [OF assms(4) ok(1) link assms(5) vc']
      by (auto simp: into_core_def capacity_error_def intro: simulates_core)
  next
    case False
    then show ?thesis
      unfolding en_child_eq [OF tail] using stands_for_next [OF assms(5)] by (auto simp: into_core_def capacity_error_def intro: simulates_core)
  qed
qed

section \<open>An end\<close>

definition ended :: "collection_state \<Rightarrow> 's encoder \<Rightarrow> 's encoder" where
  "ended c w =
     w\<lparr>en_slots := (en_slots w)[en_collections w :=
          \<lparr>col_object = cs_object c, col_first = cs_first c, col_count = cs_count c, col_dictionary = cs_dictionary c\<rparr>],
       en_collections := en_collections w + 1, en_open := en_open w - 1\<rparr>"

lemma ended_simps [simp]:
  "en_sink (ended c w) = en_sink w" "en_next (ended c w) = en_next w"
  "en_offsets (ended c w) = en_offsets w" "en_position (ended c w) = en_position w"
  "the_edges (ended c w) = the_edges w" "en_edges (ended c w) = en_edges w"
  "en_collections (ended c w) = Suc (en_collections w)" "en_open (ended c w) = en_open w - 1"
  "length (en_slots (ended c w)) = length (en_slots w)" "en_edge_slots (ended c w) = en_edge_slots w"
  "off (ended c w) = off w" "body_end (ended c w) = body_end w" "leaf (ended c w) = leaf w"
  by (simp_all add: ended_def the_edges_def fun_eq_iff off_def body_end_def leaf_def)

lemma closed_ended:
  "en_collections w < length (en_slots w) \<Longrightarrow>
     closed (ended c w) = closed w @
       [\<lparr>col_object = cs_object c, col_first = cs_first c, col_count = cs_count c, col_dictionary = cs_dictionary c\<rparr>]"
  by (simp add: closed_def ended_def take_Suc_conv_app_nth)

lemma collection_ok_ended: "collection_ok w d \<Longrightarrow> collection_ok (ended c w) d"
  by (simp add: collection_ok_def)

text \<open>The objects without bodies are the closed collections and the open ones.\<close>

lemma an_open_one:
  assumes "encoder_ok w" "gathers w c vc"
  shows "0 < en_open w"
proof -
  let ?N = "{i. i < unat (en_next w) \<and> \<not> leaf w i}"
  have "insert (unat (cs_object c)) ((\<lambda>d. unat (col_object d)) ` set (closed w)) \<subseteq> ?N"
    using assms by (auto simp: gathers_def encoder_ok_def collection_ok_def)
  then have "card (insert (unat (cs_object c)) ((\<lambda>d. unat (col_object d)) ` set (closed w))) \<le> card ?N"
    by (intro card_mono) auto
  moreover have "unat (cs_object c) \<notin> (\<lambda>d. unat (col_object d)) ` set (closed w)"
    using assms(2) by (auto simp: gathers_def image_iff word_unat_eq_iff)
  moreover have "distinct (map (\<lambda>d. unat (col_object d)) (closed w))"
    using assms(1) by (auto simp: encoder_ok_def distinct_map inj_on_def word_unat_eq_iff)
  then have "card ((\<lambda>d. unat (col_object d)) ` set (closed w)) = en_collections w"
    using distinct_card [of "map (\<lambda>d. unat (col_object d)) (closed w)"] assms(1)
    by (simp add: encoder_ok_def closed_def)
  ultimately show ?thesis
    using assms(1) by (simp add: encoder_ok_def)
qed

lemma even_flat: "even (length (flat entries))"
  by (induction entries) (auto simp: flat_def)

lemma gathered_closed:
  assumes "gathered d vs vc" "(value_end vc () :: 'e ser_error + _) = Inr (v, ())"
  shows "d \<longrightarrow> even (length vs)"
  using assms by cases (auto simp: even_flat value_end_def)

lemma ended_stands_for:
  assumes "encoder_ok w" "gathers w c vc" "en_collections w < length (en_slots w)"
    and v: "(value_end vc () :: 'e ser_error + _) = Inr (v, ())"
  shows "stands_for (ended c w) (cs_object c) v"
proof -
  let ?d = "\<lparr>col_object = cs_object c, col_first = cs_first c, col_count = cs_count c, col_dictionary = cs_dictionary c\<rparr>"
  obtain es vs where c: "path (the_edges w) (cs_first c) es" "length es = cs_count c"
      "list_all2 (stands_for w) (children (the_edges w) es) vs" "gathered (cs_dictionary c) vs vc"
    using assms(2) by (auto simp: gathers_def)
  have mem: "?d \<in> set (closed (ended c w))"
    using closed_ended [OF assms(3)] by simp
  have in_range: "unat (cs_object c) < unat (en_next (ended c w))"
    using assms(2) by (simp add: gathers_def)
  have "stands_for w i v \<Longrightarrow> stands_for (ended c w) i v" for i v
    using stands_for_relinked [of w "ended c w" i v] closed_ended [OF assms(3)] by (auto simp: relinked_def)
  then have kids: "list_all2 (stands_for (ended c w)) (children (the_edges w) es) vs"
    using c(3) by (auto elim: list_all2_mono)
  from c(4) show ?thesis
  proof cases
    case 1
    then show ?thesis
      using v c kids mem in_range by (auto intro: stands_for.array [of ?d])
  next
    case (2 entries)
    then show ?thesis
      using v c kids mem in_range by (auto intro: stands_for.dictionary [of ?d])
  next
    case 3
    then show ?thesis
      using v by (simp add: value_end_def)
  qed
qed

lemma ended_ok:
  assumes ok: "encoder_ok w" and c: "gathers w c vc" and slot: "en_collections w < length (en_slots w)"
    and even: "cs_dictionary c \<longrightarrow> even (cs_count c)"
  shows "encoder_ok (ended c w)"
proof -
  let ?d = "\<lparr>col_object = cs_object c, col_first = cs_first c, col_count = cs_count c, col_dictionary = cs_dictionary c\<rparr>"
  obtain es vs where es: "path (the_edges w) (cs_first c) es" "length es = cs_count c"
      "list_all2 (stands_for w) (children (the_edges w) es) vs"
    using c by (auto simp: gathers_def)
  have "\<forall>i \<in> set (children (the_edges w) es). unat i < unat (en_next w)"
    using es(3) stands_for_next by (fastforce simp: list_all2_conv_all_nth in_set_conv_nth)
  then have "collection_ok (ended c w) ?d"
    using c es even by (auto simp: collection_ok_def gathers_def)
  moreover have "distinct (map col_object (closed (ended c w)))"
    using ok c by (auto simp: closed_ended [OF slot] encoder_ok_def gathers_def)
  moreover have "en_collections w + en_open w = Suc (en_collections w) + (en_open w - 1)"
    using an_open_one [OF ok c] by simp
  ultimately show ?thesis
    using ok slot unfolding encoder_ok_def by (auto simp: closed_ended [OF slot] collection_ok_ended)
qed

lemma ended_extends:
  assumes "en_collections w < length (en_slots w)" "extends w0 w" "younger w0 c"
  shows "extends w0 (ended c w)"
  using assms(2,3) by (auto simp: extends_def closed_ended [OF assms(1)] younger_def)

lemma close_simulates:
  assumes ok: "encoder_ok w" "extends w0 w" "younger w0 c" "gathers w c vc"
    and v: "(value_end vc () :: 'e encode_failure ser_error + _) = Inr (v, ())"
  shows "simulates (\<lambda>w'. encoder_ok w' \<and> extends w0 w') capacity_error
      (into_core (en_end c w) :: 'e encode_failure ser_error + _) (Inr (v, ())) stands_for"
proof -
  have even: "cs_dictionary c \<longrightarrow> even (cs_count c)"
  proof -
    obtain es vs where "length es = cs_count c" "list_all2 (stands_for w) (children (the_edges w) es) vs"
        "gathered (cs_dictionary c) vs vc"
      using assms(4) by (auto simp: gathers_def)
    then show ?thesis
      using gathered_closed [OF _ v] list_all2_lengthD [of "stands_for w"] by (fastforce simp: children_def)
  qed
  have "unat (cs_object c) < unat (en_next w)"
    using assms(4) by (simp add: gathers_def)
  then have eq: "(en_end c w :: 'e encode_failure + _) =
      (if length (en_slots w) \<le> en_collections w
       then Inl (Encode_Err (Scratch_Too_Small Collections (en_collections w + 1) (length (en_slots w))))
       else Inr (cs_object c, ended c w))"
    using even an_open_one [OF ok(1) assms(4)]
    by (auto simp: en_end_def ended_def word_le_nat_alt even_iff_mod_2_eq_zero)
  show ?thesis
    unfolding eq
    using ended_ok [OF ok(1) assms(4) _ even] ended_extends [OF _ ok(2,3)] ended_stands_for [OF ok(1) assms(4) _ v]
    by (auto simp: into_core_def capacity_error_def not_le intro: simulates_core)
qed

section \<open>The contract of builders\<close>

lemma wire_builder_simps [simp]:
  "b_boolean (wire_builder emit) v w = into_core (en_boolean emit v w)"
  "b_integer (wire_builder emit) n w = into_core (en_integer emit n w)"
  "b_unsigned_integer (wire_builder emit) n w = into_core (en_unsigned_integer emit n False w)"
  "b_real (wire_builder emit) n w = into_core (en_real emit n w)"
  "b_string (wire_builder emit) t w = into_core (en_string emit t w)"
  "b_data (wire_builder emit) d w = into_core (en_data emit d w)"
  "b_uid (wire_builder emit) n w = into_core (en_uid emit n w)"
  "b_begin_array (wire_builder emit) w = into_core (en_begin False w)"
  "b_begin_dict (wire_builder emit) w = into_core (en_begin True w)"
  "b_child (wire_builder emit) c i w = into_core (en_child c i w)"
  "b_end (wire_builder emit) c w = into_core (en_end c w)"
  by (simp_all add: wire_builder_def)

lemma integer_bodies:
  "scalar_body (P_Integer (uint n)) = Some (integer_bytes n False)"
  "scalar_body (P_Integer (sint n)) = Some (integer_bytes n (sint n < 0))" for n :: u64
proof -
  have "uint n < 2 ^ 64" "- (2 ^ 63) \<le> sint n" "sint n < 2 ^ 63"
    using uint_bounded [of n] sint_greater_eq [of n] sint_lt [of n] by simp_all
  moreover have "- (2 ^ 63) \<le> uint n"
    by (rule order_trans [of _ 0]) simp_all
  ultimately show "scalar_body (P_Integer (uint n)) = Some (integer_bytes n False)"
    "scalar_body (P_Integer (sint n)) = Some (integer_bytes n (sint n < 0))"
    by simp_all
qed

lemma bodies_nonempty [simp]: "integer_bytes n neg \<noteq> []" "sized_bytes kind m \<noteq> []"
  by (auto simp: integer_bytes_def sized_bytes_def Let_def)

interpretation wire: plist_builder "wire_builder vec_emit" encoder_ok extends capacity_error stands_for gathers younger
proof (unfold_locales, unfold wire_builder_simps scalars_put)
  fix w assume "encoder_ok w"
  note scalar = put_scalar_simulates [OF this]
  show "simulates (\<lambda>w'. encoder_ok w' \<and> extends w w') capacity_error
      (into_core (put_scalar (Scalar_Boolean b) [if b then marker_TRUE else marker_FALSE] w))
      (Inr (P_Boolean b, ())) stands_for" for b
    by (rule scalar) auto
  show "simulates (\<lambda>w'. encoder_ok w' \<and> extends w w') capacity_error
      (into_core (put_scalar (Scalar_Integer n (sint n < 0)) (integer_bytes n (sint n < 0)) w))
      (Inr (P_Integer (sint n), ())) stands_for" for n
    by (rule scalar [OF integer_bodies(2)]) simp
  show "simulates (\<lambda>w'. encoder_ok w' \<and> extends w w') capacity_error
      (into_core (put_scalar (Scalar_Integer n False) (integer_bytes n False) w))
      (Inr (P_Integer (uint n), ())) stands_for" for n
    by (rule scalar [OF integer_bodies(1)]) simp
  show "simulates (\<lambda>w'. encoder_ok w' \<and> extends w w') capacity_error
      (into_core (put_scalar (Scalar_Real n) ((marker_REAL OR 3) # be64_bytes n) w))
      (Inr (P_Real n, ())) stands_for" for n
    by (rule scalar) auto
  show "simulates (\<lambda>w'. encoder_ok w' \<and> extends w w') capacity_error
      (into_core (put_scalar (Scalar_String t)
         (if is_ascii t then sized_bytes marker_ASCII (length t) @ t
          else sized_bytes marker_UTF16 (length (encode_utf16 t)) @ concat (map be16_bytes (encode_utf16 t))) w))
      (Inr (P_String t, ())) stands_for" if "is_str t" for t
    by (rule scalar) (use that in auto)
  show "simulates (\<lambda>w'. encoder_ok w' \<and> extends w w') capacity_error
      (into_core (put_scalar (Scalar_Data d) (sized_bytes marker_DATA (length d) @ d) w))
      (Inr (P_Data d, ())) stands_for" for d
    by (rule scalar) auto
  show "simulates (\<lambda>w'. encoder_ok w' \<and> extends w w') capacity_error
      (into_core (put_scalar (Scalar_Uid n)
         ((marker_UID OR of_nat (integer_width n - 1)) # be_tail (integer_width n) n) w))
      (Inr (P_Uid n, ())) stands_for" for n
    by (rule scalar) auto
next
  have "gathered False [] (Coll_Array [])" "gathered True [] (Coll_Dictionary [] None)"
    using gathered.intros(1) [of "[]"] gathered.intros(2) [of "[]"] by (simp_all add: flat_def)
  then show "encoder_ok w \<Longrightarrow> simulates (\<lambda>w'. encoder_ok w' \<and> extends w w') capacity_error (into_core (en_begin False w))
      (Inr (Coll_Array [], ())) (\<lambda>w' c vc. gathers w' c vc \<and> younger w c)"
    and "encoder_ok w \<Longrightarrow> simulates (\<lambda>w'. encoder_ok w' \<and> extends w w') capacity_error (into_core (en_begin True w))
      (Inr (Coll_Dictionary [] None, ())) (\<lambda>w' c vc. gathers w' c vc \<and> younger w c)" for w
    by (auto intro: begin_simulates)
qed (blast intro: extends_refl extends_trans stands_for_extends gathers_extends younger_extends
      child_simulates close_simulates)+

end
