(* ===== verification/Plist_Decode.thy ===== *)
theory Plist_Decode
  imports Plist_Format
begin

text \<open>
  \<open>core/catplay_plist/src/bplist/wire/decode.rs\<close>: the reader of binary property lists, over a slice
  it never copies. \<open>f32 as f64\<close> is the argument \<open>widen\<close> on their bits. Slicing or indexing out of range, a
  difference below zero, a product or sum beyond \<open>usize\<close> and a division by zero are panics; that none happens, whatever
  the input, is proved below. (The positions \<open>start + 1\<close> and \<open>pos + width\<close> in an object were compared with the offset
  of the table, a \<open>usize\<close>.)
\<close>

section \<open>Data\<close>

datatype decode_error =
    Too_Short
  | Invalid_Magic
  | Invalid_Trailer
  | Out_Of_Bounds
  | Invalid_Reference
  | Invalid_Object
  | Invalid_Utf8
  | Integer_Out_Of_Range

datatype decode_failure = Decode_Err decode_error | Decode_Panic panic

definition no_panic :: "decode_failure + 'a \<Rightarrow> bool" where
  "no_panic r \<longleftrightarrow> (case r of Inl (Decode_Panic _) \<Rightarrow> False | _ \<Rightarrow> True)"

definition or_panic :: "panic + 'a \<Rightarrow> decode_failure + 'a" where
  "or_panic r = (case r of Inl p \<Rightarrow> Inl (Decode_Panic p) | Inr x \<Rightarrow> Inr x)"

definition ok_or :: "decode_error \<Rightarrow> 'a option \<Rightarrow> decode_failure + 'a" where
  "ok_or e x = (case x of None \<Rightarrow> Inl (Decode_Err e) | Some y \<Rightarrow> Inr y)"

lemma or_panic_simps [simp]: "or_panic (Inl p) = Inl (Decode_Panic p)" "or_panic (Inr x) = Inr x"
  by (simp_all add: or_panic_def)

lemma ok_or_simps [simp]: "ok_or e None = Inl (Decode_Err e)" "ok_or e (Some x) = Inr x"
  by (simp_all add: ok_or_def)

datatype plist_integer = Signed u64 | Unsigned u64

record refs =
  rf_bytes :: "u8 list"
  rf_width :: usize

datatype plist_object =
    Obj_Boolean bool
  | Obj_Integer plist_integer
  | Obj_Real u64
  | Obj_Date u64
  | Obj_Uid u64
  | Obj_Data "u8 list"
  | Obj_String "u8 list"
  | Obj_Utf16 "u8 list"
  | Obj_Array refs
  | Obj_Dictionary refs refs

text \<open>The panics of the debug build on arithmetic.\<close>

definition in_range :: "usize option \<Rightarrow> panic + usize" where
  "in_range r = expect ''attempt to compute with overflow'' r"

definition usize_sub :: "usize \<Rightarrow> usize \<Rightarrow> panic + usize" where
  "usize_sub a b = in_range (if b \<le> a then Some (a - b) else None)"

definition usize_div :: "usize \<Rightarrow> usize \<Rightarrow> panic + usize" where
  "usize_div a b = (if b = 0 then Inl (Explicit_Panic ''attempt to divide by zero'') else Inr (a div b))"

definition refs_len :: "refs \<Rightarrow> panic + usize" where
  "refs_len r = usize_div (length (rf_bytes r)) (rf_width r)"

text \<open>\<open>slice.get(a..b)\<close>.\<close>

definition get_range :: "'a list \<Rightarrow> usize \<Rightarrow> usize \<Rightarrow> 'a list option" where
  "get_range xs a b = (if a \<le> b \<and> b \<le> length xs then Some (take (b - a) (drop a xs)) else None)"

definition refs_get :: "refs \<Rightarrow> usize \<Rightarrow> u64 option" where
  "refs_get r index =
     Option.bind (checked_mul index (rf_width r)) (\<lambda>start.
     Option.bind (checked_add start (rf_width r)) (\<lambda>fin.
     map_option read_integer (get_range (rf_bytes r) start fin)))"

record document =
  doc_input :: "u8 list"
  doc_table_offset :: usize
  doc_offset_width :: usize
  doc_ref_width :: usize
  doc_object_count :: usize
  doc_root :: u64

section \<open>Objects\<close>

definition doc_offset :: "document \<Rightarrow> u64 \<Rightarrow> decode_failure + usize" where
  "doc_offset d i =
     (let n = unat i
      in if doc_object_count d \<le> n then Inl (Decode_Err Invalid_Reference)
         else
           sum_bind (or_panic (in_range (checked_mul n (doc_offset_width d)))) (\<lambda>at.
           sum_bind (or_panic (in_range (checked_add (doc_table_offset d) at))) (\<lambda>start.
           sum_bind (or_panic (in_range (checked_add start (doc_offset_width d)))) (\<lambda>fin.
           sum_bind (or_panic (sub_slice (doc_input d) start fin)) (\<lambda>bytes.
           let offset = unat (read_integer bytes)
           in if offset < length HEADER \<or> doc_table_offset d \<le> offset
              then Inl (Decode_Err Out_Of_Bounds) else Inr offset)))))"

definition doc_body :: "document \<Rightarrow> usize \<Rightarrow> usize \<Rightarrow> decode_failure + u8 list" where
  "doc_body d start len =
     sum_bind (ok_or Out_Of_Bounds (checked_add start len)) (\<lambda>fin.
     if doc_table_offset d < fin then Inl (Decode_Err Out_Of_Bounds)
     else ok_or Out_Of_Bounds (get_range (doc_input d) start fin))"

definition doc_length :: "document \<Rightarrow> u8 \<Rightarrow> usize \<Rightarrow> decode_failure + usize \<times> usize" where
  "doc_length d nibble pos =
     (if nibble \<noteq> EXTENDED_LENGTH then Inr (unat nibble, pos)
      else
        sum_bind (doc_body d pos 1) (\<lambda>bytes.
        sum_bind (ok_or Out_Of_Bounds (slice_get bytes 0)) (\<lambda>code.
        let pos = pos + 1
        in if drop_bit 4 code \<noteq> drop_bit 4 marker_INTEGER \<or> 3 < code AND 0x0F
           then Inl (Decode_Err Invalid_Object)
           else
             let width = 2 ^ unat (code AND 0x0F)
             in sum_bind (doc_body d pos width) (\<lambda>bytes. Inr (unat (read_integer bytes), pos + width)))))"

text \<open>
  An \<open>i128\<close> of 16 bytes is in the range of \<open>u64\<close> iff its high half is zero. The conversions of
  bodies into arrays of their own length cannot fail.
\<close>

definition doc_object :: "(u32 \<Rightarrow> u64) \<Rightarrow> document \<Rightarrow> u64 \<Rightarrow> decode_failure + plist_object" where
  "doc_object widen d i =
     sum_bind (doc_offset d i) (\<lambda>start.
     sum_bind (or_panic (byte_at (doc_input d) start)) (\<lambda>code.
     let tag = code AND 0xF0;
         nibble = code AND 0x0F;
         pos = start + 1
     in if tag = 0 \<and> nibble = 8 \<and> code = marker_FALSE then Inr (Obj_Boolean False)
        else if tag = 0 \<and> nibble = 9 \<and> code = marker_TRUE then Inr (Obj_Boolean True)
        else if tag = marker_INTEGER \<and> nibble \<le> 2 then
          sum_bind (doc_body d pos (2 ^ unat nibble)) (\<lambda>bytes. Inr (Obj_Integer (Unsigned (read_integer bytes))))
        else if tag = marker_INTEGER \<and> nibble = 3 then
          sum_bind (doc_body d pos 8) (\<lambda>bytes. Inr (Obj_Integer (Signed (read_integer bytes))))
        else if tag = marker_INTEGER \<and> nibble = 4 then
          sum_bind (doc_body d pos 16) (\<lambda>bytes.
          if read_integer (take 8 bytes) = 0 then Inr (Obj_Integer (Unsigned (read_integer (drop 8 bytes))))
          else Inl (Decode_Err Integer_Out_Of_Range))
        else if tag = marker_REAL \<and> nibble = 2 then
          sum_bind (doc_body d pos 4) (\<lambda>bytes. Inr (Obj_Real (widen (ucast (read_integer bytes)))))
        else if tag = marker_REAL \<and> nibble = 3 then
          sum_bind (doc_body d pos 8) (\<lambda>bytes. Inr (Obj_Real (read_integer bytes)))
        else if tag = marker_DATE \<and> nibble = 3 then
          sum_bind (doc_body d pos 8) (\<lambda>bytes. Inr (Obj_Date (read_integer bytes)))
        else if tag = marker_DATA then
          sum_bind (doc_length d nibble pos) (\<lambda>(len, pos).
          sum_bind (doc_body d pos len) (\<lambda>bytes. Inr (Obj_Data bytes)))
        else if tag = marker_ASCII then
          sum_bind (doc_length d nibble pos) (\<lambda>(len, pos).
          sum_bind (doc_body d pos len) (\<lambda>bytes.
          if is_str bytes then Inr (Obj_String bytes) else Inl (Decode_Err Invalid_Utf8)))
        else if tag = marker_UTF16 then
          sum_bind (doc_length d nibble pos) (\<lambda>(len, pos).
          sum_bind (ok_or Out_Of_Bounds (checked_mul len 2)) (\<lambda>n.
          sum_bind (doc_body d pos n) (\<lambda>bytes. Inr (Obj_Utf16 bytes))))
        else if tag = marker_UID \<and> nibble \<le> 7 then
          sum_bind (doc_body d pos (unat nibble + 1)) (\<lambda>bytes. Inr (Obj_Uid (read_integer bytes)))
        else if tag = marker_ARRAY then
          sum_bind (doc_length d nibble pos) (\<lambda>(len, pos).
          sum_bind (ok_or Out_Of_Bounds (checked_mul len (doc_ref_width d))) (\<lambda>n.
          sum_bind (doc_body d pos n) (\<lambda>bytes.
          Inr (Obj_Array \<lparr>rf_bytes = bytes, rf_width = doc_ref_width d\<rparr>))))
        else if tag = marker_DICTIONARY then
          sum_bind (doc_length d nibble pos) (\<lambda>(len, pos).
          sum_bind (ok_or Out_Of_Bounds (checked_mul len (doc_ref_width d))) (\<lambda>byte_len.
          sum_bind (ok_or Out_Of_Bounds (checked_mul byte_len 2)) (\<lambda>n.
          sum_bind (doc_body d pos n) (\<lambda>bytes.
          if byte_len \<le> length bytes then
            Inr (Obj_Dictionary
              \<lparr>rf_bytes = take byte_len bytes, rf_width = doc_ref_width d\<rparr>
              \<lparr>rf_bytes = drop byte_len bytes, rf_width = doc_ref_width d\<rparr>)
          else Inl (Decode_Panic Index_Out_Of_Bounds)))))
        else Inl (Decode_Err Invalid_Object)))"

section \<open>Parsing\<close>

text \<open>The loop that validates the offsets of the objects \<open>start..start + n\<close>.\<close>

fun check_offsets :: "document \<Rightarrow> nat \<Rightarrow> nat \<Rightarrow> decode_failure + unit" where
  "check_offsets d start 0 = Inr ()"
| "check_offsets d start (Suc n) =
     sum_bind (doc_offset d (of_nat start)) (\<lambda>_. check_offsets d (Suc start) n)"

definition document_parse :: "u8 list \<Rightarrow> decode_failure + document" where
  "document_parse input =
     (if length input < length HEADER + TRAILER_SIZE then Inl (Decode_Err Too_Short)
      else if get_range input 0 (length HEADER) \<noteq> Some HEADER then Inl (Decode_Err Invalid_Magic)
      else
        sum_bind (or_panic (usize_sub (length input) TRAILER_SIZE)) (\<lambda>trailer_offset.
        sum_bind (or_panic (sub_slice input trailer_offset (length input))) (\<lambda>bytes.
        sum_bind (or_panic (trailer_from_bytes bytes)) (\<lambda>trailer.
        let offset_width = unat (tr_offset_width trailer);
            ref_width = unat (tr_ref_width trailer);
            object_count = unat (tr_object_count trailer);
            root = tr_root trailer;
            table_offset = unat (tr_table_offset trailer)
        in if \<not> valid_read_width offset_width \<or> \<not> valid_read_width ref_width then
             Inl (Decode_Err Invalid_Trailer)
           else if object_count = 0 \<or> object_count \<le> unat root \<or> table_offset < length HEADER then
             Inl (Decode_Err Invalid_Trailer)
           else
             sum_bind (ok_or Invalid_Trailer (checked_mul object_count offset_width)) (\<lambda>n.
             sum_bind (ok_or Invalid_Trailer (checked_add table_offset n)) (\<lambda>table_end.
             if trailer_offset < table_end then Inl (Decode_Err Invalid_Trailer)
             else
               let doc = \<lparr>doc_input = input, doc_table_offset = table_offset, doc_offset_width = offset_width,
                     doc_ref_width = ref_width, doc_object_count = object_count, doc_root = root\<rparr>
               in sum_bind (check_offsets doc 0 object_count) (\<lambda>_. Inr doc)))))))"

section \<open>Looking up a key\<close>

text \<open>The comparison of a UTF-16 key with the wanted string, pair by pair of bytes.\<close>

definition utf16_matches :: "u8 list \<Rightarrow> u8 list \<Rightarrow> bool" where
  "utf16_matches bytes wanted \<longleftrightarrow>
     length bytes div 2 = length (encode_utf16 wanted) \<and>
     list_all (\<lambda>(pair, unit). be16_of (pair ! 0) (pair ! 1) = unit)
       (zip (chunks_exact 2 bytes) (encode_utf16 wanted))"

fun dictionary_search ::
    "(u32 \<Rightarrow> u64) \<Rightarrow> document \<Rightarrow> refs \<Rightarrow> refs \<Rightarrow> u8 list \<Rightarrow> nat \<Rightarrow> nat \<Rightarrow> decode_failure + u64 option" where
  "dictionary_search widen d keys values wanted index 0 = Inr None"
| "dictionary_search widen d keys values wanted index (Suc n) =
     sum_bind (ok_or Invalid_Reference (refs_get keys index)) (\<lambda>key_id.
     sum_bind (doc_object widen d key_id) (\<lambda>object.
     sum_bind
       (case object of
          Obj_String v \<Rightarrow> Inr (v = wanted)
        | Obj_Utf16 bytes \<Rightarrow> Inr (utf16_matches bytes wanted)
        | _ \<Rightarrow> Inl (Decode_Err Invalid_Object)) (\<lambda>found.
     if found then sum_bind (ok_or Invalid_Reference (refs_get values index)) (\<lambda>v. Inr (Some v))
     else dictionary_search widen d keys values wanted (Suc index) n)))"

definition dictionary_get :: "(u32 \<Rightarrow> u64) \<Rightarrow> document \<Rightarrow> u64 \<Rightarrow> u8 list \<Rightarrow> decode_failure + u64 option" where
  "dictionary_get widen d dictionary wanted =
     sum_bind (doc_object widen d dictionary) (\<lambda>object.
     case object of
       Obj_Dictionary keys values \<Rightarrow>
         sum_bind (or_panic (refs_len keys)) (\<lambda>len. dictionary_search widen d keys values wanted 0 len)
     | _ \<Rightarrow> Inl (Decode_Err Invalid_Object))"

section \<open>No input makes the reader panic\<close>

definition doc_ok :: "document \<Rightarrow> bool" where
  "doc_ok d \<longleftrightarrow>
     doc_table_offset d + doc_object_count d * doc_offset_width d \<le> length (doc_input d) \<and>
     doc_table_offset d + doc_object_count d * doc_offset_width d < usize_bound \<and> 0 < doc_ref_width d"

text \<open>Panics below are only those of the operations, none of them an error the reader returns.\<close>

lemma arithmetic_ok [simp]:
  "in_range (Some n) = Inr n"
  "b \<le> a \<Longrightarrow> usize_sub a b = Inr (a - b)"
  "0 < b \<Longrightarrow> usize_div a b = Inr (a div b)"
  by (simp_all add: in_range_def usize_sub_def usize_div_def)

lemma no_panic_simps [simp]:
  "no_panic (Inr x)" "no_panic (Inl (Decode_Err e))" "\<not> no_panic (Inl (Decode_Panic p))"
  "no_panic (ok_or e y)"
  by (simp_all add: no_panic_def ok_or_def split: option.split)

lemma no_panic_bind: "no_panic m \<Longrightarrow> (\<And>x. m = Inr x \<Longrightarrow> no_panic (f x)) \<Longrightarrow> no_panic (sum_bind m f)"
  by (cases m) (auto simp: no_panic_def split: decode_failure.splits)

lemma doc_offset_bound: "doc_offset d i = Inr off \<Longrightarrow> length HEADER \<le> off \<and> off < doc_table_offset d"
  by (auto simp: doc_offset_def Let_def sum_bind_Inr_iff split: if_splits)

lemma doc_offset_inside:
  assumes "unat i < doc_object_count d"
    and "doc_table_offset d + unat i * doc_offset_width d + doc_offset_width d < usize_bound"
  shows "doc_offset d i =
    (let start = doc_table_offset d + unat i * doc_offset_width d
     in sum_bind (or_panic (sub_slice (doc_input d) start (start + doc_offset_width d))) (\<lambda>bytes.
        let offset = unat (read_integer bytes)
        in if offset < length HEADER \<or> doc_table_offset d \<le> offset
           then Inl (Decode_Err Out_Of_Bounds) else Inr offset))"
  using assms by (simp add: doc_offset_def Let_def checked_mul_def checked_add_def)

lemma no_panic_offset:
  assumes "doc_ok d"
  shows "no_panic (doc_offset d i)"
proof (cases "doc_object_count d \<le> unat i")
  case False
  then have "unat i * doc_offset_width d + doc_offset_width d \<le> doc_object_count d * doc_offset_width d"
    using mult_le_mono1 [of "Suc (unat i)" "doc_object_count d" "doc_offset_width d"] by simp
  then have "doc_table_offset d + unat i * doc_offset_width d + doc_offset_width d \<le> length (doc_input d)"
    "doc_table_offset d + unat i * doc_offset_width d + doc_offset_width d < usize_bound"
    using assms unfolding doc_ok_def by linarith+
  then show ?thesis
    using False by (simp add: doc_offset_inside Let_def)
qed (simp add: doc_offset_def Let_def)

lemma no_panic_body [simp]: "no_panic (doc_body d start len)"
  by (auto simp: doc_body_def intro!: no_panic_bind)

lemma length_body: "doc_body d start len = Inr bytes \<Longrightarrow> length bytes = len"
  by (auto simp: doc_body_def sum_bind_Inr_iff ok_or_def checked_add_def get_range_def split: if_splits option.splits)

lemma no_panic_length [simp]: "no_panic (doc_length d nibble pos)"
  by (auto simp: doc_length_def Let_def intro!: no_panic_bind)

lemma no_panic_byte: "start < length xs \<Longrightarrow> no_panic (or_panic (byte_at xs start))"
  by simp

lemma no_panic_object:
  assumes "doc_ok d"
  shows "no_panic (doc_object widen d i)"
proof -
  have start: "start < length (doc_input d)" if "doc_offset d i = Inr start" for start
    using doc_offset_bound [OF that] assms by (simp add: doc_ok_def)
  have halves: "byte_len \<le> length bytes"
    if "checked_mul byte_len 2 = Some n" "doc_body d pos n = Inr bytes" for byte_len n pos bytes
    using that length_body [OF that(2)] by (auto simp: checked_mul_def split: if_splits)
  show ?thesis
    unfolding doc_object_def Let_def
    by (rule no_panic_bind [OF no_panic_offset [OF assms]], rule no_panic_bind,
        erule no_panic_byte [OF start])
      (auto intro!: no_panic_bind split: prod.split simp: ok_or_def dest: halves split: option.splits)
qed

lemma checked_Some [simp]:
  "checked_add a b = Some n \<longleftrightarrow> n = a + b \<and> a + b < usize_bound"
  "checked_mul a b = Some n \<longleftrightarrow> n = a * b \<and> a * b < usize_bound"
  by (auto simp: checked_add_def checked_mul_def)

lemma ok_or_Inr [simp]: "ok_or e x = Inr y \<longleftrightarrow> x = Some y"
  by (simp add: ok_or_def split: option.split)

lemma below_diff: "\<not> n - m < x \<Longrightarrow> x \<le> (n :: nat)"
  by simp

text \<open>Parsing with the trailer already taken off.\<close>

definition parse_trailer :: "u8 list \<Rightarrow> trailer \<Rightarrow> decode_failure + document" where
  "parse_trailer input trailer =
     (let offset_width = unat (tr_offset_width trailer);
          ref_width = unat (tr_ref_width trailer);
          object_count = unat (tr_object_count trailer);
          root = tr_root trailer;
          table_offset = unat (tr_table_offset trailer)
      in if \<not> valid_read_width offset_width \<or> \<not> valid_read_width ref_width then
           Inl (Decode_Err Invalid_Trailer)
         else if object_count = 0 \<or> object_count \<le> unat root \<or> table_offset < length HEADER then
           Inl (Decode_Err Invalid_Trailer)
         else
           sum_bind (ok_or Invalid_Trailer (checked_mul object_count offset_width)) (\<lambda>n.
           sum_bind (ok_or Invalid_Trailer (checked_add table_offset n)) (\<lambda>table_end.
           if length input - TRAILER_SIZE < table_end then Inl (Decode_Err Invalid_Trailer)
           else
             let doc = \<lparr>doc_input = input, doc_table_offset = table_offset, doc_offset_width = offset_width,
                   doc_ref_width = ref_width, doc_object_count = object_count, doc_root = root\<rparr>
             in sum_bind (check_offsets doc 0 object_count) (\<lambda>_. Inr doc))))"

lemma document_parse_long:
  assumes "length HEADER + TRAILER_SIZE \<le> length input" and "get_range input 0 (length HEADER) = Some HEADER"
  shows "\<exists>t. trailer_from_bytes (drop (length input - TRAILER_SIZE) input) = Inr t \<and>
    document_parse input = parse_trailer input t"
proof -
  have "32 \<le> length (drop (length input - TRAILER_SIZE) input)"
    using assms(1) by (simp add: TRAILER_SIZE_def)
  then obtain t where t: "trailer_from_bytes (drop (length input - TRAILER_SIZE) input) = Inr t"
    using trailer_inside by blast
  moreover have "document_parse input = parse_trailer input t"
    using assms t unfolding document_parse_def parse_trailer_def by (simp only: Let_def) (simp add: TRAILER_SIZE_def)
  ultimately show ?thesis
    by blast
qed

lemma document_parse_cases:
  obtains "document_parse input = Inl (Decode_Err Too_Short)"
  | "document_parse input = Inl (Decode_Err Invalid_Magic)"
  | t where "document_parse input = parse_trailer input t"
  using document_parse_long [of input] by (fastforce simp: document_parse_def)

lemma valid_read_width_pos: "valid_read_width n \<Longrightarrow> 0 < n"
  by (auto simp: valid_read_width_def)

lemma document_parse_ok: "document_parse input = Inr d \<Longrightarrow> doc_ok d"
  by (cases input rule: document_parse_cases)
    (auto simp: parse_trailer_def Let_def sum_bind_Inr_iff doc_ok_def valid_read_width_pos split: if_splits dest!: below_diff)

text \<open>Parsing has looked at every offset, so that each identifier has an object's position.\<close>

lemma check_offsets_all: "check_offsets d start n = Inr u \<Longrightarrow> k < n \<Longrightarrow> \<exists>off. doc_offset d (of_nat (start + k)) = Inr off"
proof (induction d start n arbitrary: k u rule: check_offsets.induct)
  case (2 d start n)
  then show ?case
    by (cases k) (auto simp: sum_bind_Inr_iff)
qed simp

lemma document_parse_offsets:
  assumes "document_parse input = Inr d" and "unat i < doc_object_count d"
  shows "\<exists>off. doc_offset d i = Inr off"
proof -
  have "check_offsets d 0 (doc_object_count d) = Inr ()"
    using assms(1) by (cases input rule: document_parse_cases) (auto simp: parse_trailer_def Let_def sum_bind_Inr_iff split: if_splits)
  from check_offsets_all [OF this assms(2)] show ?thesis
    by simp
qed

lemma no_panic_check: "doc_ok d \<Longrightarrow> no_panic (check_offsets d start n)"
  by (induction d start n rule: check_offsets.induct) (auto intro!: no_panic_bind no_panic_offset)

lemma no_panic_search: "doc_ok d \<Longrightarrow> no_panic (dictionary_search widen d keys vs wanted index n)"
  by (induction widen d keys vs wanted index n rule: dictionary_search.induct)
    (auto intro!: no_panic_bind no_panic_object split: plist_object.split)

lemma no_panic_parse: "no_panic (document_parse input)"
  by (cases input rule: document_parse_cases)
    (auto simp: parse_trailer_def Let_def doc_ok_def valid_read_width_pos intro!: no_panic_bind no_panic_check dest!: below_diff)

text \<open>The references of a collection have the width of the document, which is not zero.\<close>

lemma object_refs:
  assumes "doc_object widen d i = Inr (Obj_Dictionary ks vs)"
  shows "rf_width ks = doc_ref_width d"
  using assms unfolding doc_object_def Let_def
  by (auto simp: sum_bind_Inr_iff split: if_splits prod.splits)

lemma no_panic_refs: "0 < rf_width r \<Longrightarrow> no_panic (or_panic (refs_len r))"
  by (simp add: refs_len_def)

lemma no_panic_get:
  assumes "doc_ok d"
  shows "no_panic (dictionary_get widen d i wanted)"
proof -
  have "0 < rf_width ks" if "doc_object widen d i = Inr (Obj_Dictionary ks vs)" for ks vs
    using object_refs [OF that] assms by (simp add: doc_ok_def)
  then show ?thesis
    unfolding dictionary_get_def
    by (auto intro!: no_panic_bind no_panic_object [OF assms] no_panic_search [OF assms] no_panic_refs
        split: plist_object.split)
qed

text \<open>
  Claim C17: on any bytes at all \<open>Document::parse\<close>, the reading of any object of the document it
  returns and the look-up of any key in it give a value or an error: no slice or index of
  the reader is out of range, no difference, product or sum leaves the machine integers, nothing is divided by zero. And
  every identifier below the object count has an object inside the region between header and offset table.
\<close>

theorem plist_reader_never_panics:
  "no_panic (document_parse input) \<and>
   no_panic (sum_bind (document_parse input) (\<lambda>d. doc_object widen d i)) \<and>
   no_panic (sum_bind (document_parse input) (\<lambda>d. dictionary_get widen d i wanted)) \<and>
   (case document_parse input of Inl _ \<Rightarrow> True | Inr d \<Rightarrow>
      {i. unat i < doc_object_count d} \<subseteq>
      {i. \<exists>off. doc_offset d i = Inr off \<and> length HEADER \<le> off \<and> off < doc_table_offset d})"
proof (intro conjI)
  show "no_panic (document_parse input)"
    by (rule no_panic_parse)
  show "no_panic (sum_bind (document_parse input) (\<lambda>d. doc_object widen d i))"
    by (blast intro: no_panic_bind no_panic_parse no_panic_object document_parse_ok)
  show "no_panic (sum_bind (document_parse input) (\<lambda>d. dictionary_get widen d i wanted))"
    by (blast intro: no_panic_bind no_panic_parse no_panic_get document_parse_ok)
  show "case document_parse input of Inl _ \<Rightarrow> True | Inr d \<Rightarrow>
           {i. unat i < doc_object_count d} \<subseteq>
           {i. \<exists>off. doc_offset d i = Inr off \<and> length HEADER \<le> off \<and> off < doc_table_offset d}"
    using document_parse_offsets [of input] doc_offset_bound
    by (fastforce split: sum.split)
qed

end
