(* ===== verification/Plist_Finish.thy ===== *)
theory Plist_Finish
  imports Plist_Written Plist_Decode
begin

text \<open>
  What \<open>Encoder::finish\<close> makes of the scratch, and that \<open>Document::parse\<close> accepts it: bodies of
  collections after those of scalars, the table of offsets, the trailer.
\<close>

section \<open>The walk along the edges\<close>

fun picked :: "(nat \<Rightarrow> bool) \<Rightarrow> nat \<Rightarrow> 'a list \<Rightarrow> 'a list" where
  "picked keep n [] = []"
| "picked keep n (x # xs) = (if keep n then x # picked keep (Suc n) xs else picked keep (Suc n) xs)"

definition refs_bytes :: "usize \<Rightarrow> u64 list \<Rightarrow> u8 list" where
  "refs_bytes width ids = concat (map (be_tail width) ids)"

lemma write_then:
  fixes f :: "u8 list encoder \<Rightarrow> 'e encode_failure + u8 list encoder"
  assumes "f (put a w) = en_write vec_emit b (put a w)"
  shows "sum_bind (en_write vec_emit a w) f = en_write vec_emit (a @ b) w"
  using assms by (auto simp: en_write_vec fits_put dest: fits_mono [of _ _ "length a"])

lemma write_edges_vec:
  "path (en_edge_slots w) first es \<Longrightarrow>
     write_edges (vec_emit :: (u8 list, 'e) emitter) width keep n (length es) first w =
       en_write vec_emit (refs_bytes width (picked keep n (children (en_edge_slots w) es))) w"
proof (induction es arbitrary: first n w)
  case Nil
  then show ?case
    by (simp add: en_write_vec children_def refs_bytes_def)
next
  case (Cons e es)
  have next_step: "write_edges (vec_emit :: (u8 list, 'e) emitter) width keep (Suc n) (length es) (edge_next (en_edge_slots w ! e)) (put b w) =
      en_write vec_emit (refs_bytes width (picked keep (Suc n) (children (en_edge_slots w) es))) (put b w)" for b
    using Cons.prems Cons.IH [of "put b w"] by simp
  show ?case
    using Cons.prems next_step [of "[]"] next_step [of "be_tail width (edge_object (en_edge_slots w ! e))"]
      write_append [of "be_tail width (edge_object (en_edge_slots w ! e))" w
        "refs_bytes width (picked keep (Suc n) (children (en_edge_slots w) es))"]
    by (auto simp: slice_get_def write_ref_def children_def refs_bytes_def en_write_vec split: if_splits)
qed

text \<open>The references of a collection in the order of its body: those of the keys come first.\<close>

definition body_refs :: "bool \<Rightarrow> 'a list \<Rightarrow> 'a list" where
  "body_refs d ids =
     (if d then picked (\<lambda>n. n mod 2 = 0) 0 ids @ picked (\<lambda>n. n mod 2 = 1) 0 ids else ids)"

definition collection_bytes :: "usize \<Rightarrow> bool \<Rightarrow> u64 list \<Rightarrow> u8 list" where
  "collection_bytes width d ids =
     sized_bytes (if d then marker_DICTIONARY else marker_ARRAY) (if d then length ids div 2 else length ids) @
     refs_bytes width (body_refs d ids)"

lemma collection_bytes_nonempty [simp]: "collection_bytes width d ids \<noteq> []"
  by (simp add: collection_bytes_def)

lemma picked_all [simp]: "picked (\<lambda>n. True) n xs = xs"
  by (induction xs arbitrary: n) simp_all

lemma refs_bytes_append: "refs_bytes width (xs @ ys) = refs_bytes width xs @ refs_bytes width ys"
  by (simp add: refs_bytes_def)

lemma write_collection_vec:
  assumes "unat (col_object c) < length (en_offsets w)"
    and "path (en_edge_slots w) (col_first c) es" "length es = col_count c"
  shows "write_collection (vec_emit :: (u8 list, 'e) emitter) width c w =
     en_write vec_emit (collection_bytes width (col_dictionary c) (children (en_edge_slots w) es))
       (w\<lparr>en_offsets := (en_offsets w)[unat (col_object c) := en_position w]\<rparr>)"
proof -
  let ?w = "w\<lparr>en_offsets := (en_offsets w)[unat (col_object c) := en_position w]\<rparr>"
  let ?ids = "children (en_edge_slots w) es"
  have len: "length ?ids = col_count c"
    using assms(3) by (simp add: children_def)
  have edges: "write_edges (vec_emit :: (u8 list, 'e) emitter) width keep 0 (col_count c) (col_first c) (put b ?w) =
      en_write vec_emit (refs_bytes width (picked keep 0 ?ids)) (put b ?w)" for keep b
    using write_edges_vec [of "put b ?w" "col_first c" es width keep 0] assms(2,3) by simp
  have "sum_bind (en_write (vec_emit :: (u8 list, 'e) emitter) b ?w) (write_edges vec_emit width keep 0 (col_count c) (col_first c)) =
      sum_bind (en_write vec_emit b ?w) (en_write vec_emit (refs_bytes width (picked keep 0 ?ids)))" for keep b
    using edges by (simp add: en_write_vec)
  note one = this [unfolded write_append]
  show ?thesis
  proof (cases "col_dictionary c")
    case False
    then show ?thesis
      using assms(1) one len by (simp add: write_collection_def en_sized_vec collection_bytes_def body_refs_def)
  next
    case True
    have "sum_bind (en_write (vec_emit :: (u8 list, 'e) emitter) b ?w) (\<lambda>w. sum_bind (write_edges vec_emit width keep 0 (col_count c) (col_first c) w)
          (write_edges vec_emit width keep' 0 (col_count c) (col_first c))) =
        en_write vec_emit (b @ refs_bytes width (picked keep 0 ?ids) @ refs_bytes width (picked keep' 0 ?ids)) ?w" for b keep keep'
      by (rule write_then) (simp add: edges write_then [where b = "refs_bytes width (picked keep' 0 ?ids)"])
    then show ?thesis
      using assms(1) True len
      by (simp add: write_collection_def en_sized_vec collection_bytes_def body_refs_def refs_bytes_append)
  qed
qed

section \<open>The bodies of the collections\<close>

text \<open>An object whose body stands in the sink, where its offset says.\<close>

definition located :: "u8 list encoder \<Rightarrow> nat \<Rightarrow> u8 list \<Rightarrow> bool" where
  "located w i b \<longleftrightarrow> 8 \<le> off w i \<and> off w i + length b \<le> length (en_sink w) \<and>
     take (length b) (drop (off w i) (en_sink w)) = b"

lemma located_put:
  assumes "located w i b" "off w' i = off w i" "en_sink w' = en_sink w @ x"
  shows "located w' i b"
  using assms by (auto simp: located_def)

definition collection_bytes_of :: "usize \<Rightarrow> ref_edge list \<Rightarrow> collection \<Rightarrow> u8 list \<Rightarrow> bool" where
  "collection_bytes_of width E c b \<longleftrightarrow>
     (\<exists>es. path E (col_first c) es \<and> length es = col_count c \<and> b = collection_bytes width (col_dictionary c) (children E es))"

text \<open>An object whose body ends before the next object that starts after it; no other starts with it.\<close>

definition apart :: "'s encoder \<Rightarrow> nat set \<Rightarrow> nat \<Rightarrow> u8 list \<Rightarrow> bool" where
  "apart w objects i b \<longleftrightarrow> (\<forall>j \<in> objects. j = i \<or> off w j < off w i \<or> off w i + length b \<le> off w j)"

definition placed :: "u8 list encoder \<Rightarrow> u8 list encoder \<Rightarrow> nat set \<Rightarrow> usize \<Rightarrow> collection \<Rightarrow> bool" where
  "placed w w' objects width c \<longleftrightarrow>
     length (en_sink w) \<le> off w' (unat (col_object c)) \<and>
     (\<exists>b. located w' (unat (col_object c)) b \<and> apart w' objects (unat (col_object c)) b \<and>
        collection_bytes_of width (en_edge_slots w) c b)"

abbreviation objects_of :: "collection list \<Rightarrow> nat set" where
  "objects_of cs \<equiv> (\<lambda>c. unat (col_object c)) ` set cs"

lemma write_collections_result:
  fixes w :: "u8 list encoder"
  assumes "unat (en_position w) = length (en_sink w)" "8 \<le> length (en_sink w)"
    and "length (en_slots w) \<ge> start + n"
    and "\<forall>c \<in> set (take n (drop start (en_slots w))). unat (col_object c) < length (en_offsets w) \<and>
      (\<exists>es. path (en_edge_slots w) (col_first c) es \<and> length es = col_count c)"
    and "distinct (map (\<lambda>c. unat (col_object c)) (take n (drop start (en_slots w))))"
  shows "case write_collections (vec_emit :: (u8 list, 'e) emitter) width start n w of
      Inl e \<Rightarrow> e = Encode_Err Encode_Overflow
    | Inr w' \<Rightarrow>
        (\<exists>x. en_sink w' = en_sink w @ x) \<and> unat (en_position w') = length (en_sink w') \<and>
        en_next w' = en_next w \<and> length (en_offsets w') = length (en_offsets w) \<and>
        (\<forall>c \<in> set (take n (drop start (en_slots w))).
           placed w w' (objects_of (take n (drop start (en_slots w)))) width c) \<and>
        (\<forall>i. i \<notin> objects_of (take n (drop start (en_slots w))) \<longrightarrow> off w' i = off w i)"
  using assms
proof (induction n arbitrary: start w)
  case (Suc n)
  let ?c = "en_slots w ! start"
  have split: "take (Suc n) (drop start (en_slots w)) = ?c # take n (drop (Suc start) (en_slots w))"
    using Suc.prems(3) by (simp add: Cons_nth_drop_Suc [symmetric])
  obtain es where es: "path (en_edge_slots w) (col_first ?c) es" "length es = col_count ?c"
    and inside: "unat (col_object ?c) < length (en_offsets w)"
    using Suc.prems(4) split by auto
  let ?b = "collection_bytes width (col_dictionary ?c) (children (en_edge_slots w) es)"
  let ?w = "w\<lparr>en_offsets := (en_offsets w)[unat (col_object ?c) := en_position w]\<rparr>"
  have step: "write_collections (vec_emit :: (u8 list, 'e) emitter) width start (Suc n) w =
      sum_bind (en_write vec_emit ?b ?w) (write_collections vec_emit width (Suc start) n)"
    using Suc.prems(3) write_collection_vec [OF inside es, where 'e = 'e] by (simp add: slice_get_def)
  show ?case
  proof (cases "fits ?w (length ?b)")
    case False
    then show ?thesis
      unfolding step by (simp add: en_write_vec)
  next
    case True
    let ?w1 = "put ?b ?w"
    have pos: "unat (en_position ?w1) = length (en_sink ?w1)"
      using position_put [OF True] Suc.prems(1) by simp
    have fresh: "unat (col_object ?c) \<notin> (\<lambda>c. unat (col_object c)) ` set (take n (drop (Suc start) (en_slots w)))"
      using Suc.prems(5) split by simp
    have here: "located ?w1 (unat (col_object ?c)) ?b"
      using Suc.prems(1,2) inside by (simp add: located_def off_def)
    have IH: "case write_collections (vec_emit :: (u8 list, 'e) emitter) width (Suc start) n ?w1 of
        Inl e \<Rightarrow> e = Encode_Err Encode_Overflow
      | Inr w' \<Rightarrow>
          (\<exists>x. en_sink w' = en_sink ?w1 @ x) \<and> unat (en_position w') = length (en_sink w') \<and>
          en_next w' = en_next ?w1 \<and> length (en_offsets w') = length (en_offsets ?w1) \<and>
          (\<forall>c \<in> set (take n (drop (Suc start) (en_slots ?w1))).
             placed ?w1 w' (objects_of (take n (drop (Suc start) (en_slots ?w1)))) width c) \<and>
          (\<forall>i. i \<notin> objects_of (take n (drop (Suc start) (en_slots ?w1))) \<longrightarrow> off w' i = off ?w1 i)"
      by (rule Suc.IH) (use pos Suc.prems split in auto)
    show ?thesis
    proof (cases "write_collections (vec_emit :: (u8 list, 'e) emitter) width (Suc start) n ?w1")
      case (Inl e)
      then show ?thesis
        using IH True unfolding step by (simp add: en_write_vec)
    next
      case (Inr w')
      let ?cs = "take n (drop (Suc start) (en_slots w))" and ?o = "unat (col_object ?c)"
      from Inr IH obtain x where w': "en_sink w' = en_sink w @ ?b @ x" "unat (en_position w') = length (en_sink w')"
          "en_next w' = en_next w" "length (en_offsets w') = length (en_offsets w)"
          "\<forall>c \<in> set ?cs. placed ?w1 w' (objects_of ?cs) width c"
        and offs: "\<And>i. i \<notin> objects_of ?cs \<Longrightarrow> off w' i = off ?w1 i"
        by auto
      have first: "off w' ?o = length (en_sink w)"
        using offs [OF fresh] Suc.prems(1) inside by (simp add: off_def)
      have later: "length (en_sink w) + length ?b \<le> off w' j" if "j \<in> objects_of ?cs" for j
        using that w'(5) by (auto simp: placed_def)
      have "located w' ?o ?b"
        by (rule located_put [OF here offs [OF fresh]]) (simp add: w'(1))
      moreover have "collection_bytes_of width (en_edge_slots w) ?c ?b"
        using es by (auto simp: collection_bytes_of_def)
      moreover have "apart w' (insert ?o (objects_of ?cs)) ?o ?b"
        using first later by (auto simp: apart_def)
      ultimately have head: "placed w w' (insert ?o (objects_of ?cs)) width ?c"
        using first by (auto simp: placed_def)
      have rest: "placed w w' (insert ?o (objects_of ?cs)) width c" if "c \<in> set ?cs" for c
      proof -
        have "0 < length ?b"
          by simp
        moreover have "length (en_sink w) + length ?b \<le> off w' (unat (col_object c))"
          using that by (intro later) simp
        ultimately have "off w' ?o < off w' (unat (col_object c))"
          using first by linarith
        moreover have "placed ?w1 w' (objects_of ?cs) width c"
          using that w'(5) by blast
        ultimately show ?thesis
          by (auto simp: placed_def apart_def)
      qed
      have "\<forall>c \<in> set (?c # ?cs). placed w w' (objects_of (?c # ?cs)) width c"
        using head rest by simp
      moreover have "\<forall>i. i \<notin> objects_of (?c # ?cs) \<longrightarrow> off w' i = off w i"
        using offs by (simp add: off_def)
      ultimately show ?thesis
        unfolding step split using True Inr w'(1-4) by (simp add: en_write_vec)
    qed
  qed
qed simp

section \<open>The table of offsets\<close>

lemma write_offsets_vec:
  "start + n \<le> length (en_offsets w) \<Longrightarrow>
     write_offsets (vec_emit :: (u8 list, 'e) emitter) width start n w =
       en_write vec_emit (refs_bytes width (take n (drop start (en_offsets w)))) w"
proof (induction n arbitrary: start w)
  case 0
  then show ?case
    by (simp add: en_write_vec refs_bytes_def)
next
  case (Suc n)
  have split: "take (Suc n) (drop start (en_offsets w)) = en_offsets w ! start # take n (drop (Suc start) (en_offsets w))"
    using Suc.prems by (simp add: Cons_nth_drop_Suc [symmetric])
  have "write_offsets (vec_emit :: (u8 list, 'e) emitter) width (Suc start) n (put b w) =
      en_write vec_emit (refs_bytes width (take n (drop (Suc start) (en_offsets w)))) (put b w)" for b
    using Suc.prems Suc.IH [of "Suc start" "put b w"] by simp
  then show ?case
    using Suc.prems
      write_then [where f = "write_offsets (vec_emit :: (u8 list, 'e) emitter) width (Suc start) n"
        and b = "refs_bytes width (take n (drop (Suc start) (en_offsets w)))"]
    unfolding split by (simp add: slice_get_def refs_bytes_def)
qed

lemma length_refs_bytes: "width \<le> 8 \<Longrightarrow> length (refs_bytes width xs) = length xs * width"
  by (induction xs) (simp_all add: refs_bytes_def)

lemma refs_bytes_nth:
  assumes "width \<le> 8" "i < length xs"
  shows "take width (drop (i * width) (refs_bytes width xs)) = be_tail width (xs ! i)"
proof -
  have "refs_bytes width xs = refs_bytes width (take i xs) @ be_tail width (xs ! i) @ refs_bytes width (drop (Suc i) xs)"
    using id_take_nth_drop [OF assms(2)] refs_bytes_append [of width "take i xs"]
    by (simp add: refs_bytes_def) (metis concat.simps(2) concat_append list.simps(9) map_append)
  moreover have "length (refs_bytes width (take i xs)) = i * width"
    using length_refs_bytes [OF assms(1), of "take i xs"] assms(2) by simp
  ultimately show ?thesis
    using assms(1) by simp
qed

section \<open>The document\<close>

text \<open>What \<open>finish\<close> leaves behind, from an encoder whose collections are all closed.\<close>

definition written :: "u8 list encoder \<Rightarrow> u64 \<Rightarrow> u8 list encoder \<Rightarrow> bool" where
  "written w root w1 \<longleftrightarrow>
     (\<exists>x. en_sink w1 = en_sink w @ x) \<and> unat (en_position w1) = length (en_sink w1) \<and>
     en_next w1 = en_next w \<and> length (en_offsets w1) = length (en_offsets w) \<and>
     (\<forall>c \<in> set (closed w). placed w w1 (objects_of (closed w)) (integer_width (en_next w - 1)) c) \<and>
     (\<forall>i < unat (en_next w). leaf w i \<longrightarrow> off w1 i = off w i)"

definition tail_bytes :: "u64 \<Rightarrow> u8 list encoder \<Rightarrow> u8 list" where
  "tail_bytes root w1 =
     (let width = integer_width (en_position w1)
      in refs_bytes width (take (unat (en_next w1)) (en_offsets w1)) @
         trailer_to_bytes \<lparr>tr_offset_width = of_nat width, tr_ref_width = of_nat (integer_width (en_next w1 - 1)),
           tr_object_count = en_next w1, tr_root = root, tr_table_offset = en_position w1\<rparr>)"

lemma finish_result:
  assumes ok: "encoder_ok w" and "en_open w = 0" "unat root < unat (en_next w)"
  shows "case en_finish (vec_emit :: (u8 list, 'e) emitter) root w of
      Inl e \<Rightarrow> e = Encode_Err Encode_Overflow
    | Inr w' \<Rightarrow> \<exists>w1. written w root w1 \<and> en_sink w' = en_sink w1 @ tail_bytes root w1 \<and> length (en_sink w') < 2 ^ 64"
proof -
  have slots: "take (en_collections w) (drop 0 (en_slots w)) = closed w"
    by (simp add: closed_def)
  have edges: "en_edge_slots w = the_edges w @ drop (en_edges w) (en_edge_slots w)"
    by (simp add: the_edges_def)
  have result: "case write_collections (vec_emit :: (u8 list, 'e) emitter) (integer_width (en_next w - 1)) 0 (en_collections w) w of
      Inl e \<Rightarrow> e = Encode_Err Encode_Overflow
    | Inr w' \<Rightarrow>
        (\<exists>x. en_sink w' = en_sink w @ x) \<and> unat (en_position w') = length (en_sink w') \<and>
        en_next w' = en_next w \<and> length (en_offsets w') = length (en_offsets w) \<and>
        (\<forall>c \<in> set (take (en_collections w) (drop 0 (en_slots w))).
           placed w w' (objects_of (take (en_collections w) (drop 0 (en_slots w)))) (integer_width (en_next w - 1)) c) \<and>
        (\<forall>i. i \<notin> objects_of (take (en_collections w) (drop 0 (en_slots w))) \<longrightarrow> off w' i = off w i)"
  proof (rule write_collections_result)
    show "\<forall>c\<in>set (take (en_collections w) (drop 0 (en_slots w))). unat (col_object c) < length (en_offsets w) \<and>
        (\<exists>es. path (en_edge_slots w) (col_first c) es \<and> length es = col_count c)"
    proof
      fix c assume "c \<in> set (take (en_collections w) (drop 0 (en_slots w)))"
      then have "collection_ok w c"
        using ok unfolding slots by (simp add: encoder_ok_def)
      then obtain es where es: "path (the_edges w) (col_first c) es" "length es = col_count c"
        and "unat (col_object c) < unat (en_next w)"
        by (auto simp: collection_ok_def)
      moreover have "path (en_edge_slots w) (col_first c) es"
        using path_append [OF es(1)] edges by metis
      ultimately show "unat (col_object c) < length (en_offsets w) \<and>
          (\<exists>es. path (en_edge_slots w) (col_first c) es \<and> length es = col_count c)"
        using ok by (auto simp: encoder_ok_def)
    qed
    show "distinct (map (\<lambda>c. unat (col_object c)) (take (en_collections w) (drop 0 (en_slots w))))"
      using ok unfolding slots by (auto simp: encoder_ok_def distinct_map inj_on_def word_unat_eq_iff)
  qed (use ok in \<open>auto simp: encoder_ok_def\<close>)
  have leaves: "i \<notin> (\<lambda>c. unat (col_object c)) ` set (closed w)" if "leaf w i" for i
    using ok that by (auto simp: encoder_ok_def collection_ok_def)
  have guard: "\<not> (en_next w = 0 \<or> en_next w \<le> root \<or> en_open w \<noteq> 0)"
    using assms(2,3) by (auto simp: word_le_nat_alt)
  show ?thesis
  proof (cases "write_collections (vec_emit :: (u8 list, 'e) emitter) (integer_width (en_next w - 1)) 0 (en_collections w) w")
    case (Inl e)
    then show ?thesis
      using result guard by (simp add: en_finish_def Let_def)
  next
    case (Inr w1)
    with result leaves have w1: "written w root w1"
      unfolding slots written_def by auto
    have "unat (en_next w1) \<le> length (en_offsets w1)"
      using w1 ok by (simp add: written_def encoder_ok_def)
    then have "en_finish (vec_emit :: (u8 list, 'e) emitter) root w = en_write vec_emit (tail_bytes root w1) w1"
      using Inr guard w1 write_offsets_vec [of 0 "unat (en_next w1)" w1, where 'e = 'e]
      by (simp add: en_finish_def Let_def tail_bytes_def written_def write_append)
    then show ?thesis
      using w1 position_put [of w1 "tail_bytes root w1"] by (auto simp: en_write_vec fits_def written_def)
  qed
qed

text \<open>With no collection open, an object without a body of its own is a closed collection.\<close>

lemma closed_objects:
  assumes ok: "encoder_ok w" and "en_open w = 0" "i < unat (en_next w)" "\<not> leaf w i"
  shows "\<exists>c \<in> set (closed w). unat (col_object c) = i"
proof -
  let ?N = "{i. i < unat (en_next w) \<and> \<not> leaf w i}" and ?C = "(\<lambda>c. unat (col_object c)) ` set (closed w)"
  have "?C \<subseteq> ?N"
    using ok by (auto simp: encoder_ok_def collection_ok_def)
  moreover have "distinct (map (\<lambda>c. unat (col_object c)) (closed w))"
    using ok by (auto simp: encoder_ok_def distinct_map inj_on_def word_unat_eq_iff)
  then have "card ?C = card ?N"
    using distinct_card [of "map (\<lambda>c. unat (col_object c)) (closed w)"] ok assms(2)
    by (simp add: encoder_ok_def closed_def)
  ultimately have "?C = ?N"
    by (intro card_subset_eq) auto
  then have "i \<in> ?C"
    using assms(3,4) by simp
  then show ?thesis
    by auto
qed

lemma written_offsets:
  assumes ok: "encoder_ok w" and "en_open w = 0" and w1: "written w root w1" and i: "i < unat (en_next w)"
  shows "8 \<le> off w1 i" "off w1 i < length (en_sink w1)"
proof -
  have "8 \<le> off w1 i \<and> off w1 i < length (en_sink w1)"
  proof (cases "leaf w i")
    case True
    then have "off w1 i = off w i" "off w i < length (en_sink w)" "8 \<le> off w i"
      using ok w1 i by (auto simp: written_def encoder_ok_def leaf_def)
    then show ?thesis
      using w1 by (auto simp: written_def)
  next
    case False
    then obtain c where "c \<in> set (closed w)" "unat (col_object c) = i"
      using closed_objects [OF ok assms(2) i] by blast
    then obtain b where "located w1 i b" "b \<noteq> []"
      using w1 by (fastforce simp: written_def placed_def collection_bytes_of_def)
    then show ?thesis
      by (cases b) (auto simp: located_def)
  qed
  then show "8 \<le> off w1 i" "off w1 i < length (en_sink w1)"
    by simp_all
qed

text \<open>Bodies behind the header, offsets into them: what the tail is written for.\<close>

definition framed :: "u8 list encoder \<Rightarrow> bool" where
  "framed w1 \<longleftrightarrow> unat (en_position w1) = length (en_sink w1) \<and> 8 \<le> length (en_sink w1) \<and>
     take 8 (en_sink w1) = HEADER \<and> unat (en_next w1) \<le> length (en_offsets w1) \<and>
     (\<forall>i < unat (en_next w1). 8 \<le> off w1 i \<and> off w1 i < length (en_sink w1))"

lemma written_framed:
  assumes ok: "encoder_ok w" and "en_open w = 0" and w1: "written w root w1"
  shows "framed w1"
  using assms written_offsets [OF assms] by (auto simp: framed_def written_def encoder_ok_def)

definition the_document :: "u8 list encoder \<Rightarrow> u64 \<Rightarrow> document" where
  "the_document w1 root =
     \<lparr>doc_input = en_sink w1 @ tail_bytes root w1, doc_table_offset = length (en_sink w1),
      doc_offset_width = integer_width (en_position w1), doc_ref_width = integer_width (en_next w1 - 1),
      doc_object_count = unat (en_next w1), doc_root = root\<rparr>"

lemma length_HEADER: "length HEADER = 8"
  by (simp add: HEADER_def)

lemma width_byte: "unat (of_nat (integer_width v) :: u8) = integer_width v"
  using integer_width_cases [of v] by auto

lemma tail_bytes_parts:
  assumes "unat (en_next w1) \<le> length (en_offsets w1)"
  shows "length (tail_bytes root w1) = unat (en_next w1) * integer_width (en_position w1) + 32"
    and "i < unat (en_next w1) \<Longrightarrow>
      take (integer_width (en_position w1)) (drop (i * integer_width (en_position w1)) (tail_bytes root w1)) =
        be_tail (integer_width (en_position w1)) (en_offsets w1 ! i)"
    and "drop (unat (en_next w1) * integer_width (en_position w1)) (tail_bytes root w1) =
      trailer_to_bytes \<lparr>tr_offset_width = of_nat (integer_width (en_position w1)),
        tr_ref_width = of_nat (integer_width (en_next w1 - 1)),
        tr_object_count = en_next w1, tr_root = root, tr_table_offset = en_position w1\<rparr>"
proof -
  let ?width = "integer_width (en_position w1)" and ?ids = "take (unat (en_next w1)) (en_offsets w1)"
  have width: "?width \<le> 8"
    by (rule integer_width_le)
  have len: "length (refs_bytes ?width ?ids) = unat (en_next w1) * ?width"
    using length_refs_bytes [OF width] assms by simp
  show "length (tail_bytes root w1) = unat (en_next w1) * ?width + 32"
    using len by (simp add: tail_bytes_def Let_def)
  show "drop (unat (en_next w1) * ?width) (tail_bytes root w1) =
      trailer_to_bytes \<lparr>tr_offset_width = of_nat ?width, tr_ref_width = of_nat (integer_width (en_next w1 - 1)),
        tr_object_count = en_next w1, tr_root = root, tr_table_offset = en_position w1\<rparr>"
    using len by (simp add: tail_bytes_def Let_def)
  assume i: "i < unat (en_next w1)"
  then have "Suc i * ?width \<le> unat (en_next w1) * ?width"
    by (intro mult_le_mono1) simp
  then have "i * ?width + ?width \<le> length (refs_bytes ?width ?ids)"
    using len by simp
  then have "take ?width (drop (i * ?width) (tail_bytes root w1)) = take ?width (drop (i * ?width) (refs_bytes ?width ?ids))"
    by (simp add: tail_bytes_def Let_def)
  also have "\<dots> = be_tail ?width (?ids ! i)"
    using i assms by (intro refs_bytes_nth [OF width]) simp
  finally show "take ?width (drop (i * ?width) (tail_bytes root w1)) = be_tail ?width (en_offsets w1 ! i)"
    using i by simp
qed

lemma the_document_offset:
  assumes framed: "framed w1" and i: "unat i < unat (en_next w1)"
    and small: "length (en_sink w1 @ tail_bytes root w1) < 2 ^ 64"
  shows "doc_offset (the_document w1 root) i = Inr (off w1 (unat i))"
proof -
  let ?width = "integer_width (en_position w1)"
  have n: "unat (en_next w1) \<le> length (en_offsets w1)"
    using framed by (simp add: framed_def)
  have "Suc (unat i) * ?width \<le> unat (en_next w1) * ?width"
    using i n by (intro mult_le_mono1) simp
  then have bound: "unat i * ?width + ?width \<le> length (tail_bytes root w1)"
    using tail_bytes_parts(1) [OF n, of root] by simp
  have bytes: "sub_slice (doc_input (the_document w1 root)) (length (en_sink w1) + unat i * ?width)
      (length (en_sink w1) + unat i * ?width + ?width) = Inr (be_tail ?width (en_offsets w1 ! unat i))"
    using tail_bytes_parts(2) [OF n, of "unat i" root] i bound by (simp add: the_document_def)
  have range: "8 \<le> off w1 (unat i)" "off w1 (unat i) < length (en_sink w1)"
    using framed i by (simp_all add: framed_def)
  have "unat (en_offsets w1 ! unat i) \<le> unat (en_position w1)"
    using range(2) framed by (simp add: framed_def off_def)
  then have "read_integer (be_tail ?width (en_offsets w1 ! unat i)) = en_offsets w1 ! unat i"
    by (intro read_be_tail integer_width_le integer_width_mono)
  moreover have "length (en_sink w1) + unat i * ?width + ?width < usize_bound"
    using bound small by (simp add: usize_bound_def)
  ultimately show ?thesis
    using bytes range i
    by (simp add: doc_offset_inside Let_def the_document_def off_def HEADER_def)
qed

lemma check_offsets_ok:
  "(\<And>i. unat i < doc_object_count d \<Longrightarrow> \<exists>off. doc_offset d i = Inr off) \<Longrightarrow>
     doc_object_count d < 2 ^ 64 \<Longrightarrow> start + n \<le> doc_object_count d \<Longrightarrow> check_offsets d start n = Inr ()"
proof (induction d start n rule: check_offsets.induct)
  case (2 d start n)
  have "unat (of_nat start :: u64) = start"
    using 2 by (simp add: unat_of_nat)
  then obtain off where "doc_offset d (of_nat start) = Inr off"
    using "2.prems"(1) [of "of_nat start"] "2.prems"(3) by auto
  then show ?case
    using 2 by simp
qed simp

lemma parse_framed:
  assumes framed: "framed w1" and root: "unat root < unat (en_next w1)"
    and small: "length (en_sink w1 @ tail_bytes root w1) < 2 ^ 64"
  shows "document_parse (en_sink w1 @ tail_bytes root w1) = Inr (the_document w1 root)"
proof -
  let ?input = "en_sink w1 @ tail_bytes root w1" and ?width = "integer_width (en_position w1)"
  have n: "unat (en_next w1) \<le> length (en_offsets w1)" and pos: "unat (en_position w1) = length (en_sink w1)"
    and header: "8 \<le> length (en_sink w1)" "take 8 (en_sink w1) = HEADER"
    using framed by (auto simp: framed_def)
  have len: "length ?input = length (en_sink w1) + unat (en_next w1) * ?width + 32"
    using tail_bytes_parts(1) [OF n] by simp
  have trailer: "trailer_from_bytes (drop (length ?input - TRAILER_SIZE) ?input) =
      Inr \<lparr>tr_offset_width = of_nat ?width, tr_ref_width = of_nat (integer_width (en_next w1 - 1)),
        tr_object_count = en_next w1, tr_root = root, tr_table_offset = en_position w1\<rparr>"
    using tail_bytes_parts(3) [OF n, of root] len by (simp add: TRAILER_SIZE_def trailer_roundtrip)
  have magic: "get_range ?input 0 (length HEADER) = Some HEADER"
    using header by (simp add: get_range_def length_HEADER)
  have long: "length HEADER + TRAILER_SIZE \<le> length ?input"
    using header len by (simp add: TRAILER_SIZE_def HEADER_def)
  have trailer_ok: "unat (en_next w1) \<noteq> 0" "\<not> unat (en_next w1) \<le> unat root" "\<not> unat (en_position w1) < length HEADER"
    using root header pos by (auto simp: HEADER_def)
  have checked: "unat (en_next w1) * ?width < usize_bound"
    "unat (en_position w1) + unat (en_next w1) * ?width < usize_bound"
    "\<not> length ?input - TRAILER_SIZE < unat (en_position w1) + unat (en_next w1) * ?width"
    using len small pos by (simp_all add: usize_bound_def TRAILER_SIZE_def)
  have "check_offsets (the_document w1 root) 0 (unat (en_next w1)) = Inr ()"
    using the_document_offset [OF framed _ small] unat_range [of "en_next w1"]
    by (intro check_offsets_ok) (auto simp: the_document_def)
  then show ?thesis
    using document_parse_long [OF long magic] trailer trailer_ok checked valid_integer_width pos
    by (auto simp: parse_trailer_def Let_def width_byte the_document_def checked_mul_def checked_add_def)
qed

end
