(* ===== verification/Plist_Text.thy ===== *)
theory Plist_Text
  imports Plist_Format
begin

text \<open>
  The text conversions the property lists rely on: \<open>char::decode_utf16\<close> and \<open>String::push\<close> of the
  standard library, \<open>utf16_string\<close> of \<open>core/catplay_plist/src/bplist/serde/decode.rs\<close>. Shown:
  text written as UTF-16 is read back as the UTF-8 it came from.
\<close>

section \<open>Conversions\<close>

text \<open>\<open>char::decode_utf16\<close>, up to its first error.\<close>

fun utf16_chars :: "u16 list \<Rightarrow> nat list option" where
  "utf16_chars [] = Some []"
| "utf16_chars (u # rest) =
     (if u < 0xD800 \<or> 0xDFFF < u then map_option (\<lambda>cs. unat u # cs) (utf16_chars rest)
      else if 0xDC00 \<le> u then None
      else
        (case rest of
           v # rest' \<Rightarrow>
             if 0xDC00 \<le> v \<and> v \<le> 0xDFFF
             then map_option (\<lambda>cs. ((unat u - 0xD800) * 1024 + (unat v - 0xDC00) + 0x10000) # cs)
               (utf16_chars rest')
             else None
         | [] \<Rightarrow> None))"

text \<open>\<open>char::encode_utf8\<close>.\<close>

definition utf8_of :: "nat \<Rightarrow> u8 list" where
  "utf8_of c =
     (if c < 0x80 then [of_nat c]
      else if c < 0x800 then [of_nat (0xC0 + c div 64), of_nat (0x80 + c mod 64)]
      else if c < 0x10000 then
        [of_nat (0xE0 + c div 4096), of_nat (0x80 + c div 64 mod 64), of_nat (0x80 + c mod 64)]
      else
        [of_nat (0xF0 + c div 262144), of_nat (0x80 + c div 4096 mod 64),
         of_nat (0x80 + c div 64 mod 64), of_nat (0x80 + c mod 64)])"

text \<open>
  \<open>utf16_string\<close> fails on the first unpaired surrogate. The first pass, which sums the lengths, cannot
  overflow: a slice has at most \<open>isize::MAX\<close> bytes and four bytes of UTF-8 take four of UTF-16.
\<close>

definition utf16_string :: "u8 list \<Rightarrow> u8 list option" where
  "utf16_string bytes =
     map_option (\<lambda>cs. concat (map utf8_of cs))
       (utf16_chars (map (\<lambda>v. be16_of (v ! 0) (v ! 1)) (chunks_exact 2 bytes)))"

section \<open>Round trips\<close>

definition is_scalar_value :: "nat \<Rightarrow> bool" where
  "is_scalar_value c \<longleftrightarrow> c < 0xD800 \<or> 0xE000 \<le> c \<and> c < 0x110000"

lemma unat_u16: "n < 65536 \<Longrightarrow> unat (of_nat n :: u16) = n"
  by (simp add: unat_of_nat)

lemma utf16_chars_of:
  assumes "is_scalar_value c"
  shows "utf16_chars (utf16_of c @ rest) = map_option (\<lambda>cs. c # cs) (utf16_chars rest)"
proof (cases "c < 0x10000")
  case True
  then have "unat (of_nat c :: u16) = c"
    by (simp add: unat_of_nat)
  with True assms show ?thesis
    by (auto simp: utf16_of_def is_scalar_value_def word_less_nat_alt word_le_nat_alt)
next
  case False
  let ?h = "0xD800 + (c - 0x10000) div 1024" and ?l = "0xDC00 + (c - 0x10000) mod 1024"
  have c: "0x10000 \<le> c" "c < 0x110000"
    using False assms by (auto simp: is_scalar_value_def)
  then have "(c - 0x10000) div 1024 < 1024"
    by (simp add: less_mult_imp_div_less)
  moreover have "(c - 0x10000) mod 1024 < 1024"
    by simp
  ultimately have units: "unat (of_nat ?h :: u16) = ?h" "unat (of_nat ?l :: u16) = ?l"
    "?h < 0xDC00" "?l \<le> 0xDFFF"
    by (auto simp del: of_nat_add intro!: unat_u16)
  have "(?h - 0xD800) * 1024 + (?l - 0xDC00) + 0x10000 = c"
    using c by simp
  with False units show ?thesis
    by (simp add: utf16_of_def word_less_nat_alt word_le_nat_alt del: of_nat_add)
qed

lemma utf16_chars_encode:
  "list_all is_scalar_value cs \<Longrightarrow> utf16_chars (concat (map utf16_of cs)) = Some cs"
  by (induction cs) (simp_all add: utf16_chars_of)

lemma digit_64: "b < 64 \<Longrightarrow> (a * 64 + b) div 64 = (a :: nat)" "b < 64 \<Longrightarrow> (a * 64 + b) mod 64 = (b :: nat)"
  by simp_all

text \<open>The forms of a code point of two, three and four bytes.\<close>

lemma utf8_of_digits:
  "y < 64 \<Longrightarrow> 2 \<le> x \<Longrightarrow> x < 32 \<Longrightarrow> utf8_of (x * 64 + y) = [of_nat (192 + x), of_nat (128 + y)]"
  "y < 64 \<Longrightarrow> z < 64 \<Longrightarrow> x < 16 \<Longrightarrow> 2048 \<le> x * 4096 + y * 64 + z \<Longrightarrow>
     utf8_of (x * 4096 + y * 64 + z) = [of_nat (224 + x), of_nat (128 + y), of_nat (128 + z)]"
  "y < 64 \<Longrightarrow> z < 64 \<Longrightarrow> w < 64 \<Longrightarrow> 65536 \<le> x * 262144 + y * 4096 + z * 64 + w \<Longrightarrow>
     utf8_of (x * 262144 + y * 4096 + z * 64 + w) =
       [of_nat (240 + x), of_nat (128 + y), of_nat (128 + z), of_nat (128 + w)]"
proof -
  assume *: "y < 64" "2 \<le> x" "x < 32"
  then have "(x * 64 + y) div 64 = x" "(x * 64 + y) mod 64 = y" "128 \<le> x * 64 + y" "x * 64 + y < 2048"
    by simp_all
  then show "utf8_of (x * 64 + y) = [of_nat (192 + x), of_nat (128 + y)]"
    by (simp only: utf8_of_def if_False if_True linorder_not_less [symmetric])
next
  assume *: "y < 64" "z < 64" "x < 16" "2048 \<le> x * 4096 + y * 64 + z"
  let ?c = "x * 4096 + y * 64 + z"
  have "?c = (x * 64 + y) * 64 + z"
    by simp
  then have "?c div 64 = x * 64 + y" "?c mod 64 = z" "(x * 64 + y) mod 64 = y"
    using * by (simp_all only: digit_64)
  moreover have "?c div 4096 = x" "?c < 65536"
    using * by simp_all
  moreover note *
  ultimately show "utf8_of ?c = [of_nat (224 + x), of_nat (128 + y), of_nat (128 + z)]"
    by (simp add: utf8_of_def del: of_nat_add)
next
  assume *: "y < 64" "z < 64" "w < 64" "65536 \<le> x * 262144 + y * 4096 + z * 64 + w"
  let ?c = "x * 262144 + y * 4096 + z * 64 + w"
  have "?c = (x * 4096 + y * 64 + z) * 64 + w" "x * 4096 + y * 64 + z = (x * 64 + y) * 64 + z"
    by simp_all
  then have "?c div 64 = x * 4096 + y * 64 + z" "?c mod 64 = w" "(x * 4096 + y * 64 + z) mod 64 = z"
    "(x * 64 + y) mod 64 = y"
    using * by (simp_all only: digit_64)
  moreover have "?c div 262144 = x" "?c div 4096 = x * 64 + y"
    using * by simp_all
  moreover note *
  ultimately show "utf8_of ?c = [of_nat (240 + x), of_nat (128 + y), of_nat (128 + z), of_nat (128 + w)]"
    by (simp add: utf8_of_def del: of_nat_add)
qed

lemma cont_range: "is_cont b \<Longrightarrow> 128 \<le> unat b \<and> unat b < 192"
  by (simp add: is_cont_def word_le_nat_alt)

lemma second_cont: "utf8_second a b \<Longrightarrow> is_cont b"
  by (auto simp: utf8_second_def is_cont_def word_le_nat_alt split: if_splits)

text \<open>Well-formed UTF-8 holds scalar values only, and is what their encoding gives.\<close>

lemma utf8_2:
  assumes "0xC2 \<le> a" "a \<le> 0xDF" "is_cont b"
  shows "utf8_of ((unat a - 192) * 64 + (unat b - 128)) = [a, b]"
    and "is_scalar_value ((unat a - 192) * 64 + (unat b - 128))"
proof -
  have "194 \<le> unat a" "unat a \<le> 223"
    using assms by (simp_all add: word_le_nat_alt)
  then show "utf8_of ((unat a - 192) * 64 + (unat b - 128)) = [a, b]"
    "is_scalar_value ((unat a - 192) * 64 + (unat b - 128))"
    using cont_range [OF assms(3)] by (subst utf8_of_digits, auto, auto simp: is_scalar_value_def)
qed

lemma utf8_3:
  assumes "0xE0 \<le> a" "a \<le> 0xEF" "utf8_second a b" "is_cont c"
  shows "utf8_of ((unat a - 224) * 4096 + (unat b - 128) * 64 + (unat c - 128)) = [a, b, c]"
    and "is_scalar_value ((unat a - 224) * 4096 + (unat b - 128) * 64 + (unat c - 128))"
proof -
  have a: "224 \<le> unat a" "unat a \<le> 239"
    using assms by (simp_all add: word_le_nat_alt)
  have b: "unat a = 224 \<Longrightarrow> 160 \<le> unat b" "unat a = 237 \<Longrightarrow> unat b \<le> 159"
    using assms(3) by (auto simp: utf8_second_def word_le_nat_alt word_unat_eq_iff split: if_splits)
  note bc = cont_range [OF second_cont [OF assms(3)]] cont_range [OF assms(4)]
  have "2048 \<le> (unat a - 224) * 4096 + (unat b - 128) * 64 + (unat c - 128)"
    using a b bc by (cases "unat a = 224") auto
  then show "utf8_of ((unat a - 224) * 4096 + (unat b - 128) * 64 + (unat c - 128)) = [a, b, c]"
    using a bc by (subst utf8_of_digits) auto
  show "is_scalar_value ((unat a - 224) * 4096 + (unat b - 128) * 64 + (unat c - 128))"
    using a b bc by (cases "unat a \<le> 236"; cases "unat a = 237") (auto simp: is_scalar_value_def)
qed

lemma utf8_4:
  assumes "0xF0 \<le> a" "a \<le> 0xF4" "utf8_second a b" "is_cont c" "is_cont d"
  shows "utf8_of ((unat a - 240) * 262144 + (unat b - 128) * 4096 + (unat c - 128) * 64 + (unat d - 128)) =
      [a, b, c, d]"
    and "is_scalar_value ((unat a - 240) * 262144 + (unat b - 128) * 4096 + (unat c - 128) * 64 + (unat d - 128))"
proof -
  let ?c = "(unat a - 240) * 262144 + (unat b - 128) * 4096 + (unat c - 128) * 64 + (unat d - 128)"
  have a: "240 \<le> unat a" "unat a \<le> 244"
    using assms by (simp_all add: word_le_nat_alt)
  have b: "unat a = 240 \<Longrightarrow> 144 \<le> unat b" "unat a = 244 \<Longrightarrow> unat b \<le> 143"
    using assms(3) by (auto simp: utf8_second_def word_le_nat_alt word_unat_eq_iff split: if_splits)
  note bcd = cont_range [OF second_cont [OF assms(3)]] cont_range [OF assms(4)] cont_range [OF assms(5)]
  have least: "65536 \<le> ?c"
    using a b bcd by (cases "unat a = 240") auto
  then show "utf8_of ?c = [a, b, c, d]"
    using a bcd by (subst utf8_of_digits) auto
  show "is_scalar_value ?c"
    using a b bcd least by (cases "unat a = 244") (auto simp: is_scalar_value_def)
qed

lemma utf8_decoded:
  "utf8_chars s = Some cs \<Longrightarrow> concat (map utf8_of cs) = s \<and> list_all is_scalar_value cs"
proof (induction s arbitrary: cs rule: utf8_chars.induct)
  case (2 a rest)
  consider (one) "a < 0x80"
    | (two) b rest' where "\<not> a < 0x80" "0xC2 \<le> a \<and> a \<le> 0xDF" "rest = b # rest'" "is_cont b"
    | (three) b c rest' where "\<not> a < 0x80" "\<not> (0xC2 \<le> a \<and> a \<le> 0xDF)" "0xE0 \<le> a \<and> a \<le> 0xEF"
        "rest = b # c # rest'" "utf8_second a b \<and> is_cont c"
    | (four) b c d rest' where "\<not> a < 0x80" "\<not> (0xC2 \<le> a \<and> a \<le> 0xDF)" "\<not> (0xE0 \<le> a \<and> a \<le> 0xEF)"
        "0xF0 \<le> a \<and> a \<le> 0xF4" "rest = b # c # d # rest'" "utf8_second a b \<and> is_cont c \<and> is_cont d"
    using "2.prems" by (simp only: utf8_chars.simps split: if_splits list.splits) blast+
  then show ?case
  proof cases
    case one
    with "2.prems" obtain cs' where cs': "utf8_chars rest = Some cs'" "cs = unat a # cs'"
      by auto
    have "unat a < 128"
      using one by (simp add: word_less_nat_alt)
    then show ?thesis
      using "2.IH"(1) [OF one cs'(1)] cs'(2) by (simp add: utf8_of_def is_scalar_value_def)
  next
    case (two b rest')
    with "2.prems" obtain cs' where cs': "utf8_chars rest' = Some cs'"
      "cs = ((unat a - 192) * 64 + (unat b - 128)) # cs'"
      by auto
    then show ?thesis
      using "2.IH"(2) [OF two(1,2,3,4) cs'(1)] utf8_2 [of a b] two by simp
  next
    case (three b c rest')
    with "2.prems" obtain cs' where cs': "utf8_chars rest' = Some cs'"
      "cs = ((unat a - 224) * 4096 + (unat b - 128) * 64 + (unat c - 128)) # cs'"
      by auto
    then show ?thesis
      using "2.IH"(3) [OF three(1,2,3,4) refl three(5) cs'(1)] utf8_3 [of a b c] three by simp
  next
    case (four b c d rest')
    with "2.prems" obtain cs' where cs': "utf8_chars rest' = Some cs'"
      "cs = ((unat a - 240) * 262144 + (unat b - 128) * 4096 + (unat c - 128) * 64 + (unat d - 128)) # cs'"
      by auto
    then show ?thesis
      using "2.IH"(4) [OF four(1,2,3,4,5) refl refl four(6) cs'(1)] utf8_4 [of a b c d] four by simp
  qed
qed simp

text \<open>What the writer puts down for a string is what the reader of text makes the string of.\<close>

lemma chunks_be16: "map (\<lambda>v. be16_of (v ! 0) (v ! 1)) (chunks_exact 2 (concat (map be16_bytes us))) = us"
  by (induction us) (simp_all add: chunks_exact.simps be16_bytes_def)

lemma utf16_string_encoded:
  assumes "is_str s"
  shows "utf16_string (concat (map be16_bytes (encode_utf16 s))) = Some s"
proof -
  obtain cs where cs: "utf8_chars s = Some cs"
    using assms by (auto simp: is_str_def)
  then show ?thesis
    using utf8_decoded [OF cs] by (simp only: utf16_string_def chunks_be16 encode_utf16_def utf16_chars_encode option.case option.map simp_thms)
qed

end
