(* ===== verification/Plist_Value.thy ===== *)
theory Plist_Value
  imports Plist_Decode Plist_Serde Plist_Text
begin

text \<open>
  \<open>core/catplay_plist/src/bplist/serde/decode.rs\<close>, for the type \<open>Value\<close>: \<open>ValueDecoder\<close> under the
  visitor of \<open>types/value.rs\<close>, with its limit on depth. What the model does not read is in the
  record \<open>outside\<close>: the cast of \<open>f32\<close> to \<open>f64\<close>, the text serde's visitor of \<open>String\<close> makes of bytes,
  and the value of a date.
\<close>

section \<open>Data\<close>

definition MAX_DEPTH :: nat where
  "MAX_DEPTH = 128"

datatype de_error =
    De_Format decode_failure
  | Depth_Limit
  | Type_Mismatch
  | Trailing_Elements
  | De_Invalid_Utf16
  | De_Message

record outside =
  out_widen :: "u32 \<Rightarrow> u64"
  out_bytes_key :: "u8 list \<Rightarrow> de_error + u8 list"
  out_date :: "u64 \<Rightarrow> de_error + pvalue"

definition into_format :: "decode_failure + 'a \<Rightarrow> de_error + 'a" where
  "into_format r = (case r of Inl e \<Rightarrow> Inl (De_Format e) | Inr x \<Rightarrow> Inr x)"

lemma format_panic_Inr: "into_format (or_panic r) = Inr x \<longleftrightarrow> r = Inr x"
  by (simp add: into_format_def or_panic_def split: sum.split)

lemma into_format_simps [simp]: "into_format (Inl e) = Inl (De_Format e)" "into_format (Inr x) = Inr x"
  by (simp_all add: into_format_def)

definition text_of :: "u8 list \<Rightarrow> de_error + u8 list" where
  "text_of bytes = (case utf16_string bytes of None \<Rightarrow> Inl De_Invalid_Utf16 | Some s \<Rightarrow> Inr s)"

section \<open>Decoding\<close>

text \<open>A key, at the depth of the children: \<open>String\<close> through \<open>deserialize_any\<close>.\<close>

definition decode_key :: "outside \<Rightarrow> document \<Rightarrow> nat \<Rightarrow> u64 \<Rightarrow> de_error + u8 list" where
  "decode_key x d depth i =
     (if MAX_DEPTH \<le> depth then Inl Depth_Limit
      else
        sum_bind (into_format (doc_object (out_widen x) d i)) (\<lambda>object.
        case object of
          Obj_String s \<Rightarrow> Inr s
        | Obj_Utf16 bytes \<Rightarrow> text_of bytes
        | Obj_Data bytes \<Rightarrow> out_bytes_key x bytes
        | _ \<Rightarrow> Inl De_Message))"

text \<open>
  The loops of \<open>visit_seq\<close> and \<open>visit_map\<close>, over the \<open>n\<close> references that are left: \<open>Refs::get\<close> is \<open>None\<close>
  from the length on. They return the index they stopped at, for the check of trailing elements.
\<close>

fun decode_elements :: "(u64 \<Rightarrow> de_error + 'v) \<Rightarrow> refs \<Rightarrow> nat \<Rightarrow> nat \<Rightarrow> de_error + 'v list \<times> nat" where
  "decode_elements child refs index 0 = Inr ([], index)"
| "decode_elements child refs index (Suc n) =
     (case refs_get refs index of
        None \<Rightarrow> Inr ([], index)
      | Some i \<Rightarrow>
          sum_bind (child i) (\<lambda>v.
          sum_bind (decode_elements child refs (Suc index) n) (\<lambda>(vs, stop). Inr (v # vs, stop))))"

fun decode_entries ::
    "(u64 \<Rightarrow> de_error + u8 list) \<Rightarrow> (u64 \<Rightarrow> de_error + 'v) \<Rightarrow> refs \<Rightarrow> refs \<Rightarrow> nat \<Rightarrow> nat \<Rightarrow>
     (u8 list \<times> 'v) list \<Rightarrow> de_error + (u8 list \<times> 'v) list \<times> nat" where
  "decode_entries key child ks vs index 0 m = Inr (m, index)"
| "decode_entries key child ks vs index (Suc n) m =
     (case refs_get ks index of
        None \<Rightarrow> Inr (m, index)
      | Some k \<Rightarrow>
          (case refs_get vs index of
             None \<Rightarrow> Inl Type_Mismatch
           | Some i \<Rightarrow>
               sum_bind (key k) (\<lambda>k.
               sum_bind (child i) (\<lambda>v.
               decode_entries key child ks vs (Suc index) n (dictionary_insert k v m)))))"

function decode_value :: "outside \<Rightarrow> document \<Rightarrow> nat \<Rightarrow> u64 \<Rightarrow> de_error + pvalue" where
  "decode_value x d depth i =
     (if MAX_DEPTH \<le> depth then Inl Depth_Limit
      else
        sum_bind (into_format (doc_object (out_widen x) d i)) (\<lambda>object.
        case object of
          Obj_Boolean v \<Rightarrow> Inr (P_Boolean v)
        | Obj_Integer (Signed v) \<Rightarrow> Inr (P_Integer (sint v))
        | Obj_Integer (Unsigned v) \<Rightarrow> Inr (P_Integer (uint v))
        | Obj_Real v \<Rightarrow> Inr (P_Real v)
        | Obj_String s \<Rightarrow> Inr (P_String s)
        | Obj_Utf16 bytes \<Rightarrow> sum_bind (text_of bytes) (\<lambda>s. Inr (P_String s))
        | Obj_Data bytes \<Rightarrow> Inr (P_Data bytes)
        | Obj_Uid v \<Rightarrow> Inr (P_Uid v)
        | Obj_Date v \<Rightarrow> out_date x v
        | Obj_Array refs \<Rightarrow>
            sum_bind (into_format (or_panic (refs_len refs))) (\<lambda>len.
            sum_bind (decode_elements (\<lambda>i. decode_value x d (Suc depth) i) refs 0 len) (\<lambda>(vs, stop).
            if stop \<noteq> len then Inl Trailing_Elements else Inr (P_Array vs)))
        | Obj_Dictionary ks vs \<Rightarrow>
            sum_bind (into_format (or_panic (refs_len ks))) (\<lambda>len.
            sum_bind (decode_entries (decode_key x d (Suc depth)) (\<lambda>i. decode_value x d (Suc depth) i) ks vs 0
              len []) (\<lambda>(m, stop).
            if stop \<noteq> len then Inl Trailing_Elements else Inr (P_Dictionary m)))))"
  by pat_completeness auto
termination
  by (relation "measure (\<lambda>(x, d, depth, i). MAX_DEPTH - depth)") auto

declare decode_value.simps [simp del]

text \<open>\<open>from_slice\<close>.\<close>

definition from_slice :: "outside \<Rightarrow> u8 list \<Rightarrow> de_error + pvalue" where
  "from_slice x input =
     sum_bind (into_format (document_parse input)) (\<lambda>d. decode_value x d 0 (doc_root d))"

end
