(* ===== verification/Plist_Read.thy ===== *)
theory Plist_Read
  imports Plist_Finish Plist_Value
begin

text \<open>
  Reading what the writer wrote: \<open>Document::object\<close> on the bodies of scalars and of collections.
\<close>

section \<open>Bodies inside a document\<close>

definition holds_at :: "document \<Rightarrow> nat \<Rightarrow> u8 list \<Rightarrow> bool" where
  "holds_at d p b \<longleftrightarrow> p + length b \<le> doc_table_offset d \<and> doc_table_offset d \<le> length (doc_input d) \<and>
     length (doc_input d) < usize_bound \<and> take (length b) (drop p (doc_input d)) = b"

lemma body_held:
  assumes "holds_at d p b" "k + m \<le> length b"
  shows "doc_body d (p + k) m = Inr (take m (drop k b))"
proof -
  have "take m (drop (p + k) (doc_input d)) = take m (drop k (take (length b) (drop p (doc_input d))))"
    using assms(2) by (simp add: drop_take add.commute min_def)
  then show ?thesis
    using assms by (simp add: holds_at_def doc_body_def checked_add_def get_range_def add.assoc)
qed

lemma code_held:
  assumes "holds_at d p (c # b)"
  shows "slice_get (doc_input d) p = Some c"
proof -
  have *: "take (Suc (length b)) (drop p (doc_input d)) = c # b"
    using assms by (simp add: holds_at_def)
  then obtain rest where "drop p (doc_input d) = c # rest"
    by (cases "drop p (doc_input d)") auto
  then have "p < length (doc_input d)" "doc_input d ! p = c"
    using nth_via_drop [of p "doc_input d"] by (auto simp: not_le [symmetric] simp del: not_le)
  then show ?thesis
    by simp
qed

lemma kind_nibble:
  assumes "n < 16" "kind \<in> {marker_DATA, marker_ASCII, marker_UTF16, marker_ARRAY, marker_DICTIONARY, marker_UID}"
  shows "(kind OR of_nat n :: u8) AND 0xF0 = kind" "(kind OR of_nat n :: u8) AND 0x0F = of_nat n"
proof -
  have n: "n \<in> set [0..<16]"
    using assms(1) by simp
  show "(kind OR of_nat n :: u8) AND 0xF0 = kind" "(kind OR of_nat n :: u8) AND 0x0F = of_nat n"
    using n assms(2) by (auto simp: upt_rec)
qed

lemma tz_1: "usize_trailing_zeros (Suc 0) = 0"
  by (subst usize_trailing_zeros.simps) simp

lemma tz_values: "usize_trailing_zeros 1 = 0" "usize_trailing_zeros 2 = 1" "usize_trailing_zeros 4 = 2"
  "usize_trailing_zeros 8 = 3"
  by (simp_all add: tz_1 usize_trailing_zeros.simps [of 2]
      usize_trailing_zeros.simps [of 4] usize_trailing_zeros.simps [of 8])

lemma tz_width: "usize_trailing_zeros (integer_width v) \<in> {0, 1, 2, 3}"
  "2 ^ usize_trailing_zeros (integer_width v) = integer_width v"
  using integer_width_cases [of v] by (auto simp: tz_values simp del: One_nat_def)

text \<open>The length in front of a body.\<close>

lemma length_held:
  assumes held: "holds_at d p (sized_bytes kind n @ b)"
    and kind: "kind \<in> {marker_DATA, marker_ASCII, marker_UTF16, marker_ARRAY, marker_DICTIONARY}"
    and n: "n < usize_bound"
  shows "hd (sized_bytes kind n) AND 0xF0 = kind"
    and "doc_length d (hd (sized_bytes kind n) AND 0x0F) (p + 1) = Inr (n, p + length (sized_bytes kind n))"
proof -
  show "hd (sized_bytes kind n) AND 0xF0 = kind"
    using kind_nibble(1) [of n kind] kind_nibble(1) [of 15 kind] kind by (auto simp: sized_bytes_def Let_def)
  show "doc_length d (hd (sized_bytes kind n) AND 0x0F) (p + 1) = Inr (n, p + length (sized_bytes kind n))"
  proof (cases "n < 15")
    case True
    then have "unat (of_nat n :: u8) = n"
      by (simp add: unat_of_nat)
    moreover from this True have "(of_nat n :: u8) \<noteq> EXTENDED_LENGTH"
      by (auto simp: word_unat_eq_iff)
    ultimately show ?thesis
      using True kind kind_nibble(2) [of n kind] by (auto simp: sized_bytes_def doc_length_def)
  next
    case False
    let ?v = "of_nat n :: u64"
    let ?code = "marker_INTEGER OR of_nat (usize_trailing_zeros (integer_width ?v)) :: u8"
    let ?width = "integer_width ?v"
    have bytes: "sized_bytes kind n = (kind OR EXTENDED_LENGTH) # ?code # be_tail ?width ?v"
      using False by (simp add: sized_bytes_def Let_def)
    have code: "drop_bit 4 ?code = drop_bit 4 marker_INTEGER" "\<not> 3 < ?code AND 0x0F"
      "unat (?code AND 0x0F) = usize_trailing_zeros ?width"
      using tz_width(1) [of ?v] by auto
    have first: "doc_body d (p + 1) 1 = Inr [?code]"
      using body_held [OF held, of 1 1] bytes by simp
    have second: "doc_body d (p + 2) ?width = Inr (be_tail ?width ?v)"
      using body_held [OF held, of 2 ?width] bytes integer_width_le(1) [of ?v] by simp
    have "read_integer (be_tail ?width ?v) = ?v"
      by (intro read_be_tail integer_width_le integer_width_fits)
    moreover have "unat ?v = n"
      using n by (simp add: unat_of_nat usize_bound_def)
    moreover have "(kind OR EXTENDED_LENGTH) AND 0x0F = EXTENDED_LENGTH"
      using kind_nibble(2) [of 15 kind] kind by auto
    ultimately show ?thesis
      using first second code tz_width(2) [of ?v] integer_width_le(1) [of ?v]
      by (simp add: doc_length_def bytes Let_def slice_get_def)
  qed
qed

section \<open>Scalars\<close>

fun scalar_value :: "plist_object \<Rightarrow> pvalue option" where
  "scalar_value (Obj_Boolean v) = Some (P_Boolean v)"
| "scalar_value (Obj_Integer (Signed v)) = Some (P_Integer (sint v))"
| "scalar_value (Obj_Integer (Unsigned v)) = Some (P_Integer (uint v))"
| "scalar_value (Obj_Real v) = Some (P_Real v)"
| "scalar_value (Obj_String s) = Some (P_String s)"
| "scalar_value (Obj_Utf16 bytes) = map_option P_String (utf16_string bytes)"
| "scalar_value (Obj_Data bytes) = Some (P_Data bytes)"
| "scalar_value (Obj_Uid v) = Some (P_Uid v)"
| "scalar_value _ = None"

lemma sized_held:
  assumes "doc_offset d i = Inr p" and held: "holds_at d p (sized_bytes kind n @ b)"
    and kind: "kind \<in> {marker_DATA, marker_ASCII, marker_UTF16, marker_ARRAY, marker_DICTIONARY}"
    and n: "n < usize_bound"
  shows "slice_get (doc_input d) p = Some (hd (sized_bytes kind n))"
    and "doc_body d (p + length (sized_bytes kind n)) (length b) = Inr b"
proof -
  have "sized_bytes kind n @ b = hd (sized_bytes kind n) # (tl (sized_bytes kind n) @ b)"
    by (cases "sized_bytes kind n") (use bodies_nonempty in auto)
  then show "slice_get (doc_input d) p = Some (hd (sized_bytes kind n))"
    using code_held held by metis
  show "doc_body d (p + length (sized_bytes kind n)) (length b) = Inr b"
    using body_held [OF held, of "length (sized_bytes kind n)" "length b"] by simp
qed

lemma held_small: "holds_at d p b \<Longrightarrow> length b < usize_bound"
  by (simp add: holds_at_def)

lemma data_read:
  assumes "doc_offset d i = Inr p" "holds_at d p (sized_bytes marker_DATA (length b) @ b)"
  shows "doc_object widen d i = Inr (Obj_Data b)"
proof -
  have n: "length b < usize_bound"
    using held_small [OF assms(2)] by simp
  show ?thesis
    using assms(1) length_held [OF assms(2) _ n] sized_held [OF assms _ n]
    by (simp add: doc_object_def byte_at_def slice_get_def)
qed

lemma ascii_read:
  assumes "doc_offset d i = Inr p" "holds_at d p (sized_bytes marker_ASCII (length b) @ b)" "is_str b"
  shows "doc_object widen d i = Inr (Obj_String b)"
proof -
  have n: "length b < usize_bound"
    using held_small [OF assms(2)] by simp
  show ?thesis
    using assms(1,3) length_held [OF assms(2) _ n] sized_held [OF assms(1,2) _ n]
    by (simp add: doc_object_def byte_at_def slice_get_def)
qed

lemma utf16_read:
  assumes "doc_offset d i = Inr p" "holds_at d p (sized_bytes marker_UTF16 (length us) @ concat (map be16_bytes us))"
  shows "doc_object widen d i = Inr (Obj_Utf16 (concat (map be16_bytes us)))"
proof -
  have len: "length (concat (map be16_bytes us)) = length us * 2"
    by (induction us) simp_all
  then have n: "length us * 2 < usize_bound" "length us < usize_bound"
    using held_small [OF assms(2)] by simp_all
  show ?thesis
    using assms(1) n len length_held [OF assms(2) _ n(2)] sized_held [OF assms(1,2) _ n(2)]
    by (simp add: doc_object_def byte_at_def slice_get_def checked_mul_def)
qed

lemma plain_read:
  assumes "doc_offset d i = Inr p" "holds_at d p (c # b)"
  shows "slice_get (doc_input d) p = Some c" "doc_body d (Suc p) (length b) = Inr b"
  using code_held [OF assms(2)] body_held [OF assms(2), of 1 "length b"] by simp_all

lemma real_read:
  assumes "doc_offset d i = Inr p" "holds_at d p ((marker_REAL OR 3) # be64_bytes v)"
  shows "doc_object widen d i = Inr (Obj_Real v)"
  using assms(1) plain_read [OF assms] by (simp add: doc_object_def byte_at_def slice_get_def)

lemma date_read:
  assumes "doc_offset d i = Inr p" "holds_at d p ((marker_DATE OR 3) # be64_bytes v)"
  shows "doc_object widen d i = Inr (Obj_Date v)"
  using assms(1) plain_read [OF assms] by (simp add: doc_object_def byte_at_def slice_get_def)

lemma boolean_read:
  assumes "doc_offset d i = Inr p" "holds_at d p [if v then marker_TRUE else marker_FALSE]"
  shows "doc_object widen d i = Inr (Obj_Boolean v)"
  using assms(1) plain_read [OF assms] by (cases v) (simp_all add: doc_object_def byte_at_def slice_get_def)

lemma uid_read:
  assumes "doc_offset d i = Inr p"
    and "holds_at d p ((marker_UID OR of_nat (integer_width v - 1)) # be_tail (integer_width v) v)"
  shows "doc_object widen d i = Inr (Obj_Uid v)"
proof -
  let ?w = "integer_width v"
  have w: "0 < ?w" "?w \<le> 8"
    using integer_width_le by auto
  have n: "?w - 1 < 16" "unat (of_nat (?w - 1) :: u8) = ?w - 1"
    using integer_width_cases [of v] by auto
  have nibble: "(marker_UID OR of_nat (?w - 1) :: u8) AND 0xF0 = marker_UID"
    "(marker_UID OR of_nat (?w - 1) :: u8) AND 0x0F = of_nat (?w - 1)" "(of_nat (?w - 1) :: u8) \<le> 7"
    using kind_nibble [OF n(1), of marker_UID] n w by (auto simp: word_le_nat_alt)
  have body: "doc_body d (Suc p) ?w = Inr (be_tail ?w v)"
    using plain_read(2) [OF assms] w by simp
  have "read_integer (be_tail ?w v) = v"
    by (intro read_be_tail integer_width_le integer_width_fits)
  then show ?thesis
    using assms(1) plain_read(1) [OF assms] nibble body n w by (simp add: doc_object_def byte_at_def slice_get_def)
qed

lemma plain_integer_read:
  assumes "doc_offset d i = Inr p" "holds_at d p (c # be_tail width v)"
    and "(c, width) \<in> {(0x10, 1), (0x11, 2), (0x12, 4)}" and "unat v < 256 ^ width"
  shows "doc_object widen d i = Inr (Obj_Integer (Unsigned v))"
proof -
  have "width \<le> 8"
    using assms(3) by auto
  then have "read_integer (be_tail width v) = v" "length (be_tail width v) = width"
    using read_be_tail assms(4) by simp_all
  then show ?thesis
    using assms(1,3) plain_read [OF assms(1,2)] by (auto simp: doc_object_def byte_at_def slice_get_def)
qed

lemma signed_read:
  assumes "doc_offset d i = Inr p" "holds_at d p (0x13 # be64_bytes v)"
  shows "doc_object widen d i = Inr (Obj_Integer (Signed v))"
  using assms(1) plain_read [OF assms] by (simp add: doc_object_def byte_at_def slice_get_def)

lemma wide_read:
  assumes "doc_offset d i = Inr p" "holds_at d p (0x14 # replicate 8 0 @ be64_bytes v)"
  shows "doc_object widen d i = Inr (Obj_Integer (Unsigned v))"
proof -
  have "read_integer (replicate 8 0) = 0"
    by (simp add: read_integer_def numeral_eq_Suc)
  then show ?thesis
    using assms(1) plain_read [OF assms] by (simp add: doc_object_def byte_at_def slice_get_def)
qed

lemma integer_read:
  assumes "doc_offset d i = Inr p" "holds_at d p (integer_bytes (of_int n) (n < 0))"
    and n: "- (2 ^ 63) \<le> n" "n < 2 ^ 64"
  shows "\<exists>obj. doc_object widen d i = Inr obj \<and> scalar_value obj = Some (P_Integer n)"
proof -
  let ?v = "of_int n :: u64"
  have small: "sint ?v = n" if "n < 2 ^ 63"
    using that n by (simp add: sint_sbintrunc' signed_take_bit_int_eq_self)
  show ?thesis
  proof (cases "n < 0")
    case True
    then show ?thesis
      using signed_read [OF assms(1)] assms(2) small by (auto simp: integer_bytes_def)
  next
    case False
    then have uint: "uint ?v = n"
      using n by (simp add: uint_word_of_int)
    then have uint: "uint ?v = n" "unat ?v = nat n"
      by (simp_all only: unat_eq_nat_uint)
    consider "?v \<le> 0xFF" | "\<not> ?v \<le> 0xFF" "?v \<le> 0xFFFF" | "\<not> ?v \<le> 0xFFFF" "?v \<le> 0xFFFFFFFF"
      | "\<not> ?v \<le> 0xFFFFFFFF" "?v \<le> 0x7FFFFFFFFFFFFFFF" | "\<not> ?v \<le> 0x7FFFFFFFFFFFFFFF"
      by blast
    then show ?thesis
    proof cases
      case 1
      then show ?thesis
        using plain_integer_read [OF assms(1), of "0x10" 1] assms(2) False uint
        by (auto simp: integer_bytes_def word_le_nat_alt)
    next
      case 2
      then show ?thesis
        using plain_integer_read [OF assms(1), of "0x11" 2] assms(2) False uint
        by (auto simp: integer_bytes_def word_le_nat_alt)
    next
      case 3
      then have "\<not> ?v \<le> 0xFF"
        by (simp add: word_le_nat_alt)
      then show ?thesis
        using 3 plain_integer_read [OF assms(1), of "0x12" 4] assms(2) False uint
        by (auto simp: integer_bytes_def word_le_nat_alt)
    next
      case 4
      then have "\<not> ?v \<le> 0xFF" "\<not> ?v \<le> 0xFFFF" "n < 2 ^ 63"
        using uint False by (simp_all add: word_le_nat_alt)
      then show ?thesis
        using 4 signed_read [OF assms(1)] assms(2) False small by (auto simp: integer_bytes_def)
    next
      case 5
      then have "\<not> ?v \<le> 0xFF" "\<not> ?v \<le> 0xFFFF" "\<not> ?v \<le> 0xFFFFFFFF"
        by (simp_all add: word_le_nat_alt)
      then show ?thesis
        using 5 wide_read [OF assms(1)] assms(2) False uint by (auto simp: integer_bytes_def)
    qed
  qed
qed

text \<open>Every scalar is read as itself.\<close>

lemma scalar_read:
  assumes "doc_offset d i = Inr p" "scalar_body v = Some b" "holds_at d p b"
  shows "\<exists>obj. doc_object widen d i = Inr obj \<and> scalar_value obj = Some v"
proof (cases v)
  case (P_Integer n)
  then show ?thesis
    using assms integer_read [OF assms(1)] by (auto split: if_splits)
next
  case (P_String s)
  then have s: "is_str s"
    using assms(2) by (auto split: if_splits)
  show ?thesis
  proof (cases "is_ascii s")
    case True
    then show ?thesis
      using P_String s assms ascii_read [OF assms(1) _ s] by auto
  next
    case False
    then show ?thesis
      using P_String s assms utf16_read [OF assms(1)] utf16_string_encoded [OF s] by auto
  qed
qed (use assms data_read [OF assms(1)] real_read [OF assms(1)] boolean_read [OF assms(1)] uid_read [OF assms(1)] in auto)

end
