(* ===== verification/Plist_Roundtrip.thy ===== *)
theory Plist_Roundtrip
  imports Plist_Read
begin

text \<open>
  The whole codec: what a client serializes into a \<open>Vec\<close> is what decoding it as a \<open>Value\<close> gives
  back, in agreement with \<open>to_value\<close>, up to the limit the decoder sets on depth.
\<close>

section \<open>References\<close>

definition refs_of :: "usize \<Rightarrow> u64 list \<Rightarrow> refs" where
  "refs_of width ids = \<lparr>rf_bytes = refs_bytes width ids, rf_width = width\<rparr>"

lemma refs_len_of: "0 < width \<Longrightarrow> width \<le> 8 \<Longrightarrow> refs_len (refs_of width ids) = Inr (length ids)"
  by (simp add: refs_len_def refs_of_def length_refs_bytes)

lemma refs_get_of:
  assumes "0 < width" "width \<le> 8" "\<forall>i \<in> set ids. unat i < 256 ^ width" "length (refs_bytes width ids) < usize_bound"
    and k: "k < length ids"
  shows "refs_get (refs_of width ids) k = Some (ids ! k)"
proof -
  have "Suc k * width \<le> length ids * width"
    using k by (intro mult_le_mono1) simp
  then have bound: "k * width + width \<le> length (refs_bytes width ids)"
    using length_refs_bytes [OF assms(2), of ids] by simp
  have "read_integer (be_tail width (ids ! k)) = ids ! k"
    using assms(2,3) k by (intro read_be_tail) auto
  then show ?thesis
    using bound assms(4) refs_bytes_nth [OF assms(2) k]
    by (simp add: refs_get_def refs_of_def checked_mul_def checked_add_def get_range_def)
qed

section \<open>Collections\<close>

lemma array_read:
  assumes "doc_offset d i = Inr p" and held: "holds_at d p (collection_bytes (doc_ref_width d) False ids)"
    and width: "0 < doc_ref_width d" "doc_ref_width d \<le> 8"
  shows "doc_object widen d i = Inr (Obj_Array (refs_of (doc_ref_width d) ids))"
proof -
  have b: "holds_at d p (sized_bytes marker_ARRAY (length ids) @ refs_bytes (doc_ref_width d) ids)"
    using held by (simp add: collection_bytes_def body_refs_def)
  have len: "length (refs_bytes (doc_ref_width d) ids) = length ids * doc_ref_width d"
    by (rule length_refs_bytes [OF width(2)])
  have small: "length ids * doc_ref_width d < usize_bound"
    using held_small [OF b] len by simp
  have "length ids \<le> length ids * doc_ref_width d"
    using width(1) by simp
  from le_less_trans [OF this small] have n: "length ids < usize_bound" .
  show ?thesis
    using assms(1) small len length_held [OF b _ n] sized_held [OF assms(1) b _ n]
    by (simp add: doc_object_def byte_at_def slice_get_def checked_mul_def refs_of_def)
qed

fun firsts :: "'a list \<Rightarrow> 'a list" where
  "firsts (x # y # zs) = x # firsts zs"
| "firsts zs = zs"

fun seconds :: "'a list \<Rightarrow> 'a list" where
  "seconds (x # y # zs) = y # seconds zs"
| "seconds zs = []"

lemma picked_shift: "(\<And>n. keep (Suc (Suc n)) = keep n) \<Longrightarrow> picked keep (Suc (Suc n)) xs = picked keep n xs"
  by (induction xs arbitrary: n) simp_all

lemma picked_firsts: "picked (\<lambda>n. n mod 2 = 0) 0 xs = firsts xs"
  by (induction xs rule: firsts.induct) (simp_all add: picked_shift del: picked.simps(2) add: picked.simps)

lemma picked_seconds: "picked (\<lambda>n. n mod 2 = 1) 0 xs = seconds xs"
  by (induction xs rule: seconds.induct) (simp_all add: picked_shift)

lemma length_firsts: "even (length xs) \<Longrightarrow> length (firsts xs) = length xs div 2 \<and> length (seconds xs) = length xs div 2"
  by (induction xs rule: firsts.induct) auto

lemma dictionary_read:
  assumes "doc_offset d i = Inr p" and held: "holds_at d p (collection_bytes (doc_ref_width d) True ids)"
    and width: "0 < doc_ref_width d" "doc_ref_width d \<le> 8" and even: "even (length ids)"
  shows "doc_object widen d i =
    Inr (Obj_Dictionary (refs_of (doc_ref_width d) (firsts ids)) (refs_of (doc_ref_width d) (seconds ids)))"
proof -
  let ?w = "doc_ref_width d" and ?n = "length ids div 2"
  let ?k = "refs_bytes ?w (firsts ids)" and ?v = "refs_bytes ?w (seconds ids)"
  have b: "holds_at d p (sized_bytes marker_DICTIONARY ?n @ ?k @ ?v)"
    using held by (simp add: collection_bytes_def body_refs_def picked_firsts picked_seconds [unfolded One_nat_def] refs_bytes_append)
  have len: "length ?k = ?n * ?w" "length ?v = ?n * ?w"
    using length_refs_bytes [OF width(2)] length_firsts [OF even] by simp_all
  have small: "?n * ?w * 2 < usize_bound"
    using held_small [OF b] len by simp
  have "?n \<le> ?n * ?w * 2"
    using width(1) by simp
  from le_less_trans [OF this small] have n: "?n < usize_bound" .
  have "?n * ?w < usize_bound"
    using small by simp
  then show ?thesis
    using assms(1) small len length_held [OF b _ n] sized_held [OF assms(1) b _ n]
    by (simp add: doc_object_def byte_at_def slice_get_def checked_mul_def refs_of_def mult_2_right)
qed

section \<open>The loops of the decoder\<close>

text \<open>
  \<open>limited ok x\<close> is what a value gives at a depth: its result where the depth suffices, the error of
  the limit where it does not.
\<close>

definition limited :: "bool \<Rightarrow> 'a \<Rightarrow> de_error + 'a" where
  "limited fits_in x = (if fits_in then Inr x else Inl Depth_Limit)"

lemma elements_limited:
  assumes "\<And>k. k < length vs \<Longrightarrow> refs_get refs (index + k) = Some (ids ! k)"
    and "list_all2 (\<lambda>i v. child i = limited (P v) (g v)) ids vs"
  shows "decode_elements child refs index (length vs) =
    limited (list_all P vs) (map g vs, index + length vs)"
  using assms
proof (induction vs arbitrary: ids index)
  case (Cons v vs)
  then obtain i ids' where ids: "ids = i # ids'" "child i = limited (P v) (g v)"
    "list_all2 (\<lambda>i v. child i = limited (P v) (g v)) ids' vs"
    by (cases ids) auto
  have first: "refs_get refs index = Some i"
    using Cons.prems(1) [of 0] ids(1) by simp
  have "decode_elements child refs (Suc index) (length vs) =
      limited (list_all P vs) (map g vs, Suc index + length vs)"
    using Cons.IH [OF _ ids(3)] Cons.prems(1) [of "Suc _"] ids(1) by simp
  then show ?case
    using first ids(2) by (simp add: limited_def)
qed (simp add: limited_def)

lemma entries_limited:
  assumes "\<And>k. k < length es \<Longrightarrow> refs_get ks (index + k) = Some (kids ! k)"
    and "\<And>k. k < length es \<Longrightarrow> refs_get vs (index + k) = Some (vids ! k)"
    and "list_all2 (\<lambda>i e. key i = limited Q (fst e)) kids es"
    and "list_all2 (\<lambda>i e. child i = limited (P (snd e)) (g (snd e))) vids es"
  shows "decode_entries key child ks vs index (length es) m =
    limited (list_all (\<lambda>e. Q \<and> P (snd e)) es)
      (foldl (\<lambda>m (k, v). dictionary_insert k v m) m (map (map_prod id g) es), index + length es)"
  using assms
proof (induction es arbitrary: kids vids index m)
  case (Cons e es)
  then obtain i kids' j vids' where ids: "kids = i # kids'" "vids = j # vids'"
    "key i = limited Q (fst e)" "child j = limited (P (snd e)) (g (snd e))"
    "list_all2 (\<lambda>i e. key i = limited Q (fst e)) kids' es"
    "list_all2 (\<lambda>i e. child i = limited (P (snd e)) (g (snd e))) vids' es"
    by (cases kids; cases vids) auto
  have first: "refs_get ks index = Some i" "refs_get vs index = Some j"
    using Cons.prems(1,2) [of 0] ids(1,2) by simp_all
  have "decode_entries key child ks vs (Suc index) (length es) m' =
      limited (list_all (\<lambda>e. Q \<and> P (snd e)) es)
        (foldl (\<lambda>m (k, v). dictionary_insert k v m) m' (map (map_prod id g) es), Suc index + length es)" for m'
    using Cons.IH [OF _ _ ids(5,6)] Cons.prems(1,2) [of "Suc _"] ids(1,2) by (simp add: id_def)
  then show ?case
    using first ids(3,4) by (cases e) (simp add: limited_def id_def)
qed (simp add: limited_def)

section \<open>The whole document\<close>

text \<open>How deep the decoder goes for a value.\<close>

primrec height :: "pvalue \<Rightarrow> nat" where
  "height (P_Array vs) = foldr max (map Suc (map height vs)) 0"
| "height (P_Dictionary entries) = foldr max (map (\<lambda>e. Suc (snd e)) (map (map_prod id height) entries)) 0"
| "height (P_Boolean v) = 0"
| "height (P_Data v) = 0"
| "height (P_Real v) = 0"
| "height (P_Integer n) = 0"
| "height (P_String v) = 0"
| "height (P_Uid v) = 0"

lemma foldr_max: "d + foldr max (map f xs) 0 < (b :: nat) \<longleftrightarrow> d < b \<and> (\<forall>x \<in> set xs. d + f x < b)"
  by (induction xs) auto

lemma height_fits:
  "d + height (P_Array vs) < b \<longleftrightarrow> d < b \<and> list_all (\<lambda>v. Suc d + height v < b) vs"
  "d + height (P_Dictionary entries) < b \<longleftrightarrow> d < b \<and> list_all (\<lambda>e. Suc d < b \<and> Suc d + height (snd e) < b) entries"
proof -
  show "d + height (P_Array vs) < b \<longleftrightarrow> d < b \<and> list_all (\<lambda>v. Suc d + height v < b) vs"
    using foldr_max [of d Suc "map height vs" b] by (auto simp: list_all_iff)
  show "d + height (P_Dictionary entries) < b \<longleftrightarrow> d < b \<and> list_all (\<lambda>e. Suc d < b \<and> Suc d + height (snd e) < b) entries"
    using foldr_max [of d "\<lambda>e. Suc (snd e)" "map (map_prod id height) entries" b] by (fastforce simp: list_all_iff)
qed

lemma path_unique: "path E first es \<Longrightarrow> path E first es' \<Longrightarrow> length es = length es' \<Longrightarrow> es = es'"
proof (induction es arbitrary: first es')
  case (Cons e es)
  then show ?case
    by (cases es') auto
qed simp

text \<open>What a finished encoder and its document have in common, for the lemmas below.\<close>

definition finished :: "u8 list encoder \<Rightarrow> u64 \<Rightarrow> u8 list encoder \<Rightarrow> bool" where
  "finished w root w1 \<longleftrightarrow> encoder_ok w \<and> en_open w = 0 \<and> written w root w1 \<and>
     length (en_sink w1 @ tail_bytes root w1) < 2 ^ 64"

lemma located_held:
  assumes "finished w root w1" "located w1 i b"
  shows "holds_at (the_document w1 root) (off w1 i) b"
  using assms by (auto simp: finished_def located_def holds_at_def the_document_def usize_bound_def)

lemma leaf_located:
  assumes "finished w root w1" "i < unat (en_next w)" "leaf w i" "body_end w i \<le> length (en_sink w)"
  shows "located w1 i (body w i)"
proof -
  obtain x where x: "en_sink w1 = en_sink w @ x" and "off w1 i = off w i"
    using assms by (auto simp: finished_def written_def)
  moreover have "8 \<le> off w i" "off w i < body_end w i"
    using assms by (auto simp: finished_def encoder_ok_def leaf_def)
  ultimately show ?thesis
    using assms(4) by (simp add: located_def body_def)
qed

lemma collection_bytes_unique:
  assumes es: "path (the_edges w) (col_first c) es" "length es = col_count c"
    and "collection_bytes_of width (en_edge_slots w) c b"
  shows "b = collection_bytes width (col_dictionary c) (children (the_edges w) es)"
proof -
  obtain es' where es': "path (en_edge_slots w) (col_first c) es'" "length es' = col_count c"
      "b = collection_bytes width (col_dictionary c) (children (en_edge_slots w) es')"
    using assms(3) by (auto simp: collection_bytes_of_def)
  have edges: "en_edge_slots w = the_edges w @ drop (en_edges w) (en_edge_slots w)"
    by (simp add: the_edges_def)
  have "path (en_edge_slots w) (col_first c) es" "children (en_edge_slots w) es = children (the_edges w) es"
    using path_append [OF es(1)] children_append [OF es(1)] edges by metis+
  moreover have "es' = es"
    using path_unique es'(1,2) es(2) calculation(1) by simp
  ultimately show ?thesis
    using es'(3) by simp
qed

lemma collection_located:
  assumes fin: "finished w root w1" and c: "c \<in> set (closed w)"
    and es: "path (the_edges w) (col_first c) es" "length es = col_count c"
  shows "located w1 (unat (col_object c))
    (collection_bytes (integer_width (en_next w - 1)) (col_dictionary c) (children (the_edges w) es))"
proof -
  obtain b where "located w1 (unat (col_object c)) b" "collection_bytes_of (integer_width (en_next w - 1)) (en_edge_slots w) c b"
    using fin c by (auto simp: finished_def written_def placed_def)
  then show ?thesis
    using collection_bytes_unique [OF es] by simp
qed

text \<open>A document that has, under each identifier, the body the encoder means for it.\<close>

definition lays_out :: "document \<Rightarrow> u8 list encoder \<Rightarrow> bool" where
  "lays_out d w \<longleftrightarrow> encoder_ok w \<and> doc_ref_width d = integer_width (en_next w - 1) \<and>
     (\<forall>i. unat i < unat (en_next w) \<and> leaf w (unat i) \<longrightarrow>
        (\<exists>p. doc_offset d i = Inr p \<and> holds_at d p (body w (unat i)))) \<and>
     (\<forall>c \<in> set (closed w). \<forall>es. path (the_edges w) (col_first c) es \<and> length es = col_count c \<longrightarrow>
        (\<exists>p. doc_offset d (col_object c) = Inr p \<and>
           holds_at d p (collection_bytes (doc_ref_width d) (col_dictionary c) (children (the_edges w) es))))"

lemma finished_lays_out:
  assumes fin: "finished w root w1"
  shows "lays_out (the_document w1 root) w"
proof -
  let ?d = "the_document w1 root"
  have width: "doc_ref_width ?d = integer_width (en_next w - 1)"
    using fin by (simp add: finished_def written_def the_document_def)
  have offset: "doc_offset ?d i = Inr (off w1 (unat i))" if "unat i < unat (en_next w)" for i
    using fin that by (auto simp: finished_def written_def intro!: the_document_offset written_framed)
  have "holds_at ?d (off w1 (unat i)) (body w (unat i))" if "unat i < unat (en_next w)" "leaf w (unat i)" for i
    using fin that by (intro located_held [OF fin leaf_located [OF fin]]) (auto simp: finished_def encoder_ok_def)
  moreover have "unat (col_object c) < unat (en_next w)" if "c \<in> set (closed w)" for c
    using fin that by (auto simp: finished_def encoder_ok_def collection_ok_def)
  ultimately show ?thesis
    using fin offset width located_held [OF fin collection_located [OF fin]]
    unfolding lays_out_def by (auto simp: finished_def)
qed

lemma ref_fits:
  fixes n :: u64
  assumes "unat i < unat n"
  shows "unat i < 256 ^ integer_width (n - 1)"
proof (rule integer_width_mono)
  have "n \<noteq> 0"
    using assms by auto
  then show "unat i \<le> unat (n - 1)"
    using assms by (simp add: unat_minus_one)
qed

lemma flat_Cons: "flat ((k, v) # es) = P_String k # v # flat es"
  by (simp add: flat_def)

lemma flat_pairs:
  assumes "list_all2 R ids (flat es)"
  shows "list_all2 (\<lambda>i e. R i (P_String (fst e))) (firsts ids) es"
    and "list_all2 (\<lambda>i e. R i (snd e)) (seconds ids) es" and "even (length ids)"
proof -
  have "list_all2 (\<lambda>i e. R i (P_String (fst e))) (firsts ids) es \<and>
      list_all2 (\<lambda>i e. R i (snd e)) (seconds ids) es \<and> even (length ids)"
    using assms
  proof (induction es arbitrary: ids)
    case Nil
    then show ?case
      by (simp add: flat_def)
  next
    case (Cons e es)
    obtain k v where e: "e = (k, v)"
      by (cases e)
    with Cons.prems obtain i j ids' where "ids = i # j # ids'" "R i (P_String k)" "R j v" "list_all2 R ids' (flat es)"
      by (auto simp: flat_Cons list_all2_Cons2)
    then show ?case
      using Cons.IH e by simp
  qed
  then show "list_all2 (\<lambda>i e. R i (P_String (fst e))) (firsts ids) es"
    "list_all2 (\<lambda>i e. R i (snd e)) (seconds ids) es" "even (length ids)"
    by auto
qed

lemma set_firsts: "set (firsts ids) \<subseteq> set ids" "set (seconds ids) \<subseteq> set ids"
  by (induction ids rule: firsts.induct) auto

lemma length_refs_firsts:
  assumes "even (length ids)"
  shows "length (firsts ids) \<le> length ids" "length (seconds ids) \<le> length ids"
  using length_firsts [OF assms] by auto

text \<open>The reading of a leaf at a depth, as a value and as a key.\<close>

lemma leaf_object:
  assumes "lays_out d w" "unat i < unat (en_next w)" "leaf w (unat i)" "scalar_body v = Some (body w (unat i))"
  shows "\<exists>obj. doc_object widen d i = Inr obj \<and> scalar_value obj = Some v"
  using assms scalar_read unfolding lays_out_def by blast

lemma scalar_settle: "scalar_body v = Some b \<Longrightarrow> settle v = v \<and> height v = 0"
  by (cases v) auto

lemma scalar_decode:
  assumes "doc_object (out_widen x) d i = Inr obj" "scalar_value obj = Some v"
  shows "decode_value x d depth i = limited (depth < MAX_DEPTH) v"
  using assms by (cases obj) (auto simp: decode_value.simps [of x d depth i] limited_def text_of_def split: plist_integer.split)

lemma key_decode:
  assumes "doc_object (out_widen x) d i = Inr obj" "scalar_value obj = Some (P_String k)"
  shows "decode_key x d depth i = limited (depth < MAX_DEPTH) k"
  using assms by (cases obj) (auto simp: decode_key_def limited_def text_of_def elim: scalar_value.elims)

lemma string_item:
  assumes fin: "lays_out d w" and "stands_for w i (P_String k)"
  shows "decode_key x d depth i = limited (depth < MAX_DEPTH) k"
  using assms(2)
proof cases
  case scalar
  then show ?thesis
    using leaf_object [OF fin] key_decode by blast
qed

text \<open>The facts of a closed collection.\<close>

lemma collection_object:
  assumes fin: "lays_out d w" and c: "c \<in> set (closed w)"
    and es: "path (the_edges w) (col_first c) es" "length es = col_count c"
  defines "ids \<equiv> children (the_edges w) es"
  shows "\<not> col_dictionary c \<Longrightarrow> doc_object widen d (col_object c) = Inr (Obj_Array (refs_of (doc_ref_width d) ids))"
    and "col_dictionary c \<Longrightarrow> even (length ids) \<Longrightarrow> doc_object widen d (col_object c) =
      Inr (Obj_Dictionary (refs_of (doc_ref_width d) (firsts ids)) (refs_of (doc_ref_width d) (seconds ids)))"
    and "length (refs_bytes (doc_ref_width d) ids) < usize_bound"
proof -
  have width: "0 < doc_ref_width d" "doc_ref_width d \<le> 8"
    using fin integer_width_le by (simp_all add: lays_out_def)
  obtain p where offset: "doc_offset d (col_object c) = Inr p"
    and held: "holds_at d p (collection_bytes (doc_ref_width d) (col_dictionary c) ids)"
    using fin c es unfolding lays_out_def ids_def by blast
  show "\<not> col_dictionary c \<Longrightarrow> doc_object widen d (col_object c) = Inr (Obj_Array (refs_of (doc_ref_width d) ids))"
    using array_read [OF offset _ width] held by simp
  show "col_dictionary c \<Longrightarrow> even (length ids) \<Longrightarrow> doc_object widen d (col_object c) =
      Inr (Obj_Dictionary (refs_of (doc_ref_width d) (firsts ids)) (refs_of (doc_ref_width d) (seconds ids)))"
    using dictionary_read [OF offset _ width] held by simp
  have "length (refs_bytes (doc_ref_width d) ids) = length (refs_bytes (doc_ref_width d) (body_refs (col_dictionary c) ids))"
    if "col_dictionary c \<longrightarrow> even (length ids)"
    using that length_firsts [of ids] length_refs_bytes [OF width(2)]
    by (auto simp: body_refs_def picked_firsts picked_seconds [unfolded One_nat_def])
  moreover have "col_dictionary c \<longrightarrow> even (length ids)"
    using fin c es(2) unfolding ids_def children_def by (auto simp: lays_out_def encoder_ok_def collection_ok_def)
  ultimately show "length (refs_bytes (doc_ref_width d) ids) < usize_bound"
    using held_small [OF held] by (simp add: collection_bytes_def)
qed

lemma decode_stands_for:
  assumes fin: "lays_out d w" and "stands_for w i v"
  shows "decode_value x d depth i = limited (depth + height v < MAX_DEPTH) (settle v)"
  using assms(2)
proof (induction arbitrary: depth rule: stands_for.induct)
  case (scalar i v)
  then show ?case
    using leaf_object [OF fin] scalar_decode scalar_settle by fastforce
next
  case (array c i es vs)
  let ?ids = "children (the_edges w) es"
  let ?w = "doc_ref_width d"
  have len: "length vs = length ?ids"
    using array.IH by (simp add: list_all2_lengthD)
  have width: "0 < ?w" "?w \<le> 8"
    using fin integer_width_le by (simp_all add: lays_out_def)
  note obj = collection_object [OF fin array.hyps(1,5,6)]
  have fits_in: "\<forall>j \<in> set ?ids. unat j < 256 ^ ?w"
    using array.IH ref_fits stands_for_next fin unfolding lays_out_def
    by (fastforce simp: list_all2_conv_all_nth in_set_conv_nth)
  have "decode_elements (decode_value x d (Suc depth)) (refs_of ?w ?ids) 0 (length vs) =
      limited (list_all (\<lambda>v. Suc depth + height v < MAX_DEPTH) vs) (map settle vs, 0 + length vs)"
  proof (rule elements_limited)
    show "refs_get (refs_of ?w ?ids) (0 + k) = Some (?ids ! k)" if "k < length vs" for k
      using refs_get_of [OF width fits_in obj(3)] that len by simp
    show "list_all2 (\<lambda>i v. decode_value x d (Suc depth) i = limited (Suc depth + height v < MAX_DEPTH) (settle v)) ?ids vs"
      using array.IH by (auto elim: list_all2_mono)
  qed
  then show ?case
    using obj(1) array.hyps(2,4) len refs_len_of [OF width, of ?ids]
    by (auto simp: decode_value.simps [of x d depth i] limited_def height_fits simp del: height.simps)
next
  case (dictionary c i es entries)
  let ?ids = "children (the_edges w) es"
  let ?w = "doc_ref_width d"
  note pairs = flat_pairs [OF dictionary.IH]
  have len: "length entries = length (firsts ?ids)" "length entries = length (seconds ?ids)"
    using pairs(1,2) by (simp_all add: list_all2_lengthD)
  have width: "0 < ?w" "?w \<le> 8"
    using fin integer_width_le by (simp_all add: lays_out_def)
  note obj = collection_object [OF fin dictionary.hyps(1,5,6)]
  have fits_in: "\<forall>j \<in> set ?ids. unat j < 256 ^ ?w"
    using dictionary.IH ref_fits stands_for_next fin unfolding lays_out_def
    by (fastforce simp: list_all2_conv_all_nth in_set_conv_nth)
  have small: "length (refs_bytes ?w xs) < usize_bound" if "length xs \<le> length ?ids" for xs
    using le_less_trans [OF _ obj(3)] that length_refs_bytes [OF width(2)] by simp
  have gets: "refs_get (refs_of ?w (firsts ?ids)) (0 + k) = Some (firsts ?ids ! k)"
    "refs_get (refs_of ?w (seconds ?ids)) (0 + k) = Some (seconds ?ids ! k)" if "k < length entries" for k
    using refs_get_of [OF width, of "firsts ?ids" k] refs_get_of [OF width, of "seconds ?ids" k]
      fits_in set_firsts [of ?ids] small length_refs_firsts [OF pairs(3)] that len by auto
  have "decode_entries (decode_key x d (Suc depth)) (decode_value x d (Suc depth))
      (refs_of ?w (firsts ?ids)) (refs_of ?w (seconds ?ids)) 0 (length entries) [] =
    limited (list_all (\<lambda>e. Suc depth < MAX_DEPTH \<and> Suc depth + height (snd e) < MAX_DEPTH) entries)
      (foldl (\<lambda>m (k, v). dictionary_insert k v m) [] (map (map_prod id settle) entries), 0 + length entries)"
  proof (rule entries_limited [OF gets])
    show "list_all2 (\<lambda>i e. decode_key x d (Suc depth) i = limited (Suc depth < MAX_DEPTH) (fst e)) (firsts ?ids) entries"
      using pairs(1) by (auto elim!: list_all2_mono intro: string_item [OF fin])
    show "list_all2 (\<lambda>i e. decode_value x d (Suc depth) i = limited (Suc depth + height (snd e) < MAX_DEPTH) (settle (snd e)))
        (seconds ?ids) entries"
      using pairs(2) by (auto elim!: list_all2_mono)
  qed
  then show ?case
    using obj(2) [OF dictionary.hyps(4) pairs(3)] dictionary.hyps(2) len(1) refs_len_of [OF width, of "firsts ?ids"]
    by (auto simp: decode_value.simps [of x d depth i] limited_def height_fits dictionary_of_def simp del: height.simps)
qed

section \<open>Collections are closed in the end\<close>

definition keeps_open :: "('s encoder \<Rightarrow> 'e ser_error + 'a \<times> 's encoder) \<Rightarrow> bool" where
  "keeps_open f \<longleftrightarrow> (\<forall>w x w'. f w = Inr (x, w') \<longrightarrow> en_open w' = en_open w)"

lemma keeps_openD: "keeps_open f \<Longrightarrow> f w = Inr (x, w') \<Longrightarrow> en_open w' = en_open w"
  by (simp add: keeps_open_def)

lemma bind_item_Inr:
  "bind_item m f = Inr y \<longleftrightarrow> (\<exists>x s. m = Inr (x, s) \<and> f x s = Inr y)"
  by (auto simp: bind_item_def sum_bind_Inr_iff)

lemma into_core_Inr [simp]: "into_core m = Inr x \<longleftrightarrow> m = Inr x"
  by (simp add: into_core_def split: sum.split)

lemma write_open: "en_write emit b w = Inr w' \<Longrightarrow> en_open w' = en_open w"
  by (auto simp: en_write_def split: if_splits sum.splits)

lemma slot_open: "en_slot sc w = Inr (x, w') \<Longrightarrow> en_open w' = en_open w"
  by (auto simp: en_slot_eq split: if_splits)

lemma sized_open: "en_sized emit kind n w = Inr w' \<Longrightarrow> en_open w' = en_open w"
  by (auto simp: en_sized_def Let_def sum_bind_Inr_iff split: if_splits dest!: write_open)

lemma utf16_open: "write_utf16 emit us buf w = Inr w' \<Longrightarrow> en_open w' = en_open w"
  by (induction emit us buf w rule: write_utf16.induct)
    (fastforce simp: Let_def sum_bind_Inr_iff split: if_splits dest: write_open)+

lemma scalar_open: "scalar_bytes emit sc b w = Inr (x, w') \<Longrightarrow> en_open w' = en_open w"
  by (auto simp: scalar_bytes_def sum_bind_Inr_iff split: if_splits dest!: write_open slot_open)

lemma data_open: "en_data emit d w = Inr (x, w') \<Longrightarrow> en_open w' = en_open w"
  by (auto simp: en_data_def sum_bind_Inr_iff split: if_splits dest!: write_open slot_open sized_open)

lemma string_open: "en_string emit t w = Inr (x, w') \<Longrightarrow> en_open w' = en_open w"
  by (auto simp: en_string_def sum_bind_Inr_iff split: if_splits dest!: write_open slot_open sized_open utf16_open)

lemma begin_open: "en_begin d w = Inr (c, w') \<Longrightarrow> en_open w' = Suc (en_open w)"
  by (auto simp: en_begin_def sum_bind_Inr_iff checked_add_def split: if_splits dest!: slot_open)

lemma child_open: "en_child c i w = Inr (c', w') \<Longrightarrow> en_open w' = en_open w"
  by (auto simp: en_child_def Let_def sum_bind_Inr_iff split: if_splits option.splits)

lemma end_open: "en_end c w = Inr (i, w') \<Longrightarrow> Suc (en_open w') = en_open w"
  by (auto simp: en_end_def split: if_splits)

lemmas wire_scalar_defs = en_boolean_def en_integer_def en_unsigned_integer_def en_real_def en_uid_def

lemma wire_open:
  "b_boolean (wire_builder emit) v w = Inr (i, w') \<Longrightarrow> en_open w' = en_open w"
  "b_integer (wire_builder emit) n w = Inr (i, w') \<Longrightarrow> en_open w' = en_open w"
  "b_unsigned_integer (wire_builder emit) n w = Inr (i, w') \<Longrightarrow> en_open w' = en_open w"
  "b_real (wire_builder emit) n w = Inr (i, w') \<Longrightarrow> en_open w' = en_open w"
  "b_string (wire_builder emit) t w = Inr (i, w') \<Longrightarrow> en_open w' = en_open w"
  "b_data (wire_builder emit) t w = Inr (i, w') \<Longrightarrow> en_open w' = en_open w"
  "b_uid (wire_builder emit) n w = Inr (i, w') \<Longrightarrow> en_open w' = en_open w"
  "b_begin_array (wire_builder emit) w = Inr (c, w') \<Longrightarrow> en_open w' = Suc (en_open w)"
  "b_begin_dict (wire_builder emit) w = Inr (c, w') \<Longrightarrow> en_open w' = Suc (en_open w)"
  "b_child (wire_builder emit) c i w = Inr (c', w') \<Longrightarrow> en_open w' = en_open w"
  "b_end (wire_builder emit) c w = Inr (i, w') \<Longrightarrow> Suc (en_open w') = en_open w"
  by (auto simp: wire_scalar_defs Let_def dest: scalar_open data_open string_open begin_open child_open end_open)

lemma elements_open:
  assumes "\<And>f mode. f \<in> set fs \<Longrightarrow> keeps_open (f mode)"
  shows "elements (wire_builder emit) fs c w = Inr (c', w') \<Longrightarrow> en_open w' = en_open w"
  using assms
proof (induction fs arbitrary: c w)
  case (Cons f fs)
  have head: "f mode w = Inr (x, w1) \<Longrightarrow> en_open w1 = en_open w" for mode w x w1
    using Cons.prems(2) [of f mode] by (simp add: keeps_open_def)
  show ?case
    using Cons by (auto simp: bind_item_Inr split: option.splits dest!: child_open head)
qed simp

lemma map_calls_open:
  assumes "\<forall>f mode. Call_Value f \<in> set fs \<longrightarrow> keeps_open (f mode)"
  shows "map_calls (wire_builder emit) fs pending c w = Inr (c', w') \<Longrightarrow> en_open w' = en_open w"
  using assms
proof (induction fs arbitrary: pending c w)
  case Nil
  then show ?case
    by (auto split: option.splits)
next
  case (Cons f fs)
  show ?case
  proof (cases f)
    case (Call_Value g)
    then have head: "g mode w = Inr (x, w1) \<Longrightarrow> en_open w1 = en_open w" for mode w x w1
      using Cons.prems(2) by (simp add: keeps_open_def)
    show ?thesis
      using Cons Call_Value by (auto simp: bind_item_Inr split: option.splits dest!: child_open head)
  qed (use Cons in \<open>auto simp: bind_item_Inr split: option.splits prod.splits dest!: string_open\<close>)
qed

lemma fields_open:
  assumes "\<And>name f mode. (name, f) \<in> set fs \<Longrightarrow> keeps_open (f mode)"
  shows "struct_fields (wire_builder emit) fs c w = Inr (c', w') \<Longrightarrow> en_open w' = en_open w"
  using assms
proof (induction fs arbitrary: c w)
  case (Cons f fs)
  obtain name g where f: "f = (name, g)"
    by (cases f)
  then have head: "g mode w = Inr (x, w1) \<Longrightarrow> en_open w1 = en_open w" for mode w x w1
    using Cons.prems(2) [of name g mode] by (simp add: keeps_open_def)
  have rest: "struct_fields (wire_builder emit) fs c w = Inr (c', w') \<Longrightarrow> en_open w' = en_open w" for c w
    using Cons.IH Cons.prems(2) by (meson list.set_intros(2))
  show ?case
    using Cons.prems(1) unfolding f
    by (auto simp: bind_item_Inr split: option.splits dest!: child_open string_open head rest)
qed simp

lemma calls_keep_open:
  assumes "\<And>c v mode. c \<in> set calls \<Longrightarrow> v \<in> set_map_call c \<Longrightarrow> keeps_open (serialize v b mode)"
    and "Call_Value f \<in> set (map (map_map_call (\<lambda>f. f b)) (map (map_map_call serialize) calls))"
  shows "keeps_open (f mode)"
proof -
  obtain c where c: "c \<in> set calls" "Call_Value f = map_map_call (\<lambda>f. f b) (map_map_call serialize c)"
    using assms(2) by auto
  show ?thesis
  proof (cases c)
    case (Call_Value v)
    then show ?thesis
      using assms(1) [OF c(1), of v] c(2) by simp
  qed (use c(2) in simp)
qed

lemma named_open: "named_item (wire_builder emit) name r w = Inr (x, w') \<Longrightarrow> en_open w' = en_open w"
  by (auto simp: named_item_def scalar_item_def wrap_named_def bind_item_Inr split: option.splits
      dest!: begin_open string_open child_open end_open)

lemma serialize_open: "keeps_open (serialize v (wire_builder emit) mode)"
proof (induction v arbitrary: mode)
  case S_None
  then show ?case
    by (auto simp: keeps_open_def scalar_item_def bind_item_Inr split: ser_mode.splits dest!: named_open string_open)
next
  case (S_Some v)
  then show ?case
    by (auto simp: keeps_open_def bind_item_Inr split: ser_mode.splits dest!: named_open)
next
  case (S_Newtype_Variant name v)
  then show ?case
    by (auto simp: keeps_open_def bind_item_Inr dest!: named_open)
next
  case (S_Seq vs)
  then show ?case
    by (auto simp: keeps_open_def end_collection_def bind_item_Inr
        dest!: begin_open end_open elements_open [rotated])
next
  case (S_Tuple_Variant name vs)
  then show ?case
    by (auto simp: keeps_open_def end_variant_def begin_variant_def end_collection_def bind_item_Inr
        dest!: begin_open string_open child_open end_open elements_open [rotated])
next
  case (S_Map calls)
  let ?fs = "map (map_map_call (\<lambda>f. f (wire_builder emit))) (map (map_map_call serialize) calls)"
  have "\<forall>f mode. Call_Value f \<in> set ?fs \<longrightarrow> keeps_open (f mode)"
  proof (intro allI impI)
    fix f mode
    assume "Call_Value f \<in> set ?fs"
    with S_Map show "keeps_open (f mode)"
      by (rule calls_keep_open)
  qed
  note loop = map_calls_open [OF this]
  show ?case
    using loop by (auto simp: keeps_open_def end_collection_def bind_item_Inr simp del: map_map dest!: begin_open end_open)
next
  case (S_Struct fs)
  then show ?case
    by (auto simp: keeps_open_def end_collection_def bind_item_Inr
        dest!: begin_open end_open fields_open [rotated])
next
  case (S_Struct_Variant name fs)
  then show ?case
    by (auto simp: keeps_open_def end_variant_def begin_variant_def end_collection_def bind_item_Inr
        dest!: begin_open string_open child_open end_open fields_open [rotated])
qed (auto simp: keeps_open_def scalar_item_def bind_item_Inr wire_scalar_defs Let_def
    dest: scalar_open data_open string_open)


lemma serialize_root_open: "serialize_root (wire_builder emit) v w = Inr (i, w') \<Longrightarrow> en_open w' = en_open w"
  using keeps_openD [OF serialize_open] by (auto simp: serialize_root_def bind_item_Inr split: option.splits)

section \<open>The codec\<close>

lemma encoder_new_vec:
  "\<exists>w. encoder_new (vec_emit :: (u8 list, 'e) emitter) offsets collections edges [] = Inr w \<and> encoder_ok w \<and> en_open w = 0"
  by (simp add: encoder_new_def en_write_def vec_emit_def encoder_ok_def HEADER_def closed_def)

lemma stands_for_older: "stands_for w i v \<Longrightarrow> unat i < unat (en_next w)"
  by (cases rule: stands_for.cases) (auto simp: encoder_ok_def)

lemma encode_finished:
  assumes v: "sdata_ok v"
  shows "case (encode vec_emit offsets collections edges v [] :: 'e encode_failure ser_error + u8 list encoder) of
      Inl e \<Rightarrow> to_tree v = Inl e \<or> (\<exists>e'. e = Ser_Core e' \<and> capacity_error e')
    | Inr w' \<Rightarrow> \<exists>w w1 root tree. to_tree v = (Inr tree :: 'e encode_failure ser_error + pvalue) \<and>
        finished w root w1 \<and> unat root < unat (en_next w) \<and> stands_for w root tree \<and>
        en_sink w' = en_sink w1 @ tail_bytes root w1"
proof -
  obtain w0 where w0: "encoder_new (vec_emit :: (u8 list, 'e) emitter) offsets collections edges [] = Inr w0"
      "encoder_ok w0" "en_open w0 = 0"
    using encoder_new_vec by blast
  have built: "case serialize_root (wire_builder (vec_emit :: (u8 list, 'e) emitter)) v w0 of
      Inl e \<Rightarrow> to_tree v = Inl e \<or> (\<exists>e'. e = Ser_Core e' \<and> capacity_error e')
    | Inr (i, w) \<Rightarrow> \<exists>tree. to_tree v = (Inr tree :: 'e encode_failure ser_error + pvalue) \<and>
        encoder_ok w \<and> extends w0 w \<and> stands_for w i tree"
    by (rule wire.root_simulates [OF v w0(2)])
  show ?thesis
  proof (cases "serialize_root (wire_builder (vec_emit :: (u8 list, 'e) emitter)) v w0")
    case (Inl e)
    then show ?thesis
      using built by (simp add: encode_def w0(1) into_core_def)
  next
    case (Inr r)
    obtain root w where r: "r = (root, w)"
      by (cases r)
    obtain tree where tree: "to_tree v = (Inr tree :: 'e encode_failure ser_error + pvalue)" "encoder_ok w" "stands_for w root tree"
      using built Inr r by auto
    have ready: "encoder_ok w" "en_open w = 0" "unat root < unat (en_next w)"
      using tree serialize_root_open [OF Inr [unfolded r]] w0(3) stands_for_older [OF tree(3)] by simp_all
    have result: "encode vec_emit offsets collections edges v [] =
        into_core (en_finish (vec_emit :: (u8 list, 'e) emitter) root w)"
      using Inr r by (simp add: encode_def w0(1) into_core_def)
    show ?thesis
    proof (cases "en_finish (vec_emit :: (u8 list, 'e) emitter) root w")
      case (Inl e)
      then show ?thesis
        using finish_result [OF ready, where 'e = 'e] by (simp add: result into_core_def capacity_error_def)
    next
      case (Inr w')
      obtain w1 where w1: "written w root w1" "en_sink w' = en_sink w1 @ tail_bytes root w1" "length (en_sink w') < 2 ^ 64"
        using finish_result [OF ready, where 'e = 'e] Inr by auto
      then have "finished w root w1"
        using ready by (simp add: finished_def)
      then show ?thesis
        using Inr tree w1(2) ready(3) by (auto simp: result into_core_def)
    qed
  qed
qed

text \<open>A document with the objects of an encoder is read as the tree they stand for.\<close>

lemma finished_framed: "finished w root w1 \<Longrightarrow> framed w1 \<and> en_next w1 = en_next w"
  using written_framed [of w root w1] by (simp add: finished_def written_def)

lemma from_slice_lays_out:
  assumes "document_parse bytes = Inr d" "lays_out d w" "stands_for w (doc_root d) tree"
  shows "from_slice x bytes = limited (height tree < MAX_DEPTH) (settle tree)"
  using decode_stands_for [OF assms(2,3), of x 0] assms(1) by (simp add: from_slice_def into_format_def)

lemma codec_result:
  assumes v: "sdata_ok v"
  shows "case (encode vec_emit offsets collections edges v [] :: 'e encode_failure ser_error + u8 list encoder) of
      Inl e \<Rightarrow> to_tree v = Inl e \<or> (\<exists>e'. e = Ser_Core e' \<and> capacity_error e')
    | Inr w \<Rightarrow> \<exists>tree. to_tree v = (Inr tree :: 'e encode_failure ser_error + pvalue) \<and>
        from_slice x (en_sink w) = limited (height tree < MAX_DEPTH) (settle tree)"
proof -
  have "from_slice x (en_sink w1 @ tail_bytes root w1) = limited (height tree < MAX_DEPTH) (settle tree)"
    if fin: "finished w root w1" and root: "unat root < unat (en_next w)" and tree: "stands_for w root tree" for w root w1 tree
  proof (rule from_slice_lays_out)
    show "document_parse (en_sink w1 @ tail_bytes root w1) = Inr (the_document w1 root)"
      using finished_framed [OF fin] root fin by (intro parse_framed) (auto simp: finished_def)
    show "lays_out (the_document w1 root) w"
      by (rule finished_lays_out [OF fin])
  qed (simp add: the_document_def tree)
  then show ?thesis
    using encode_finished [OF v, of offsets collections edges, where 'e = 'e] by (auto split: sum.splits)
qed

end
