(* ===== verification/Plist_Codec.thy ===== *)
theory Plist_Codec
  imports Plist_Roundtrip
begin

text \<open>
  Values that the program's types admit, what serializing them gives, and the properties of the
  codec as a whole.
\<close>

section \<open>Values\<close>

text \<open>A \<open>Value\<close> with its texts valid, its integers within the two ranges the format has, and the
  keys of its dictionaries distinct.\<close>

primrec value_ok :: "pvalue \<Rightarrow> bool" where
  "value_ok (P_Array vs) = list_all id (map value_ok vs)"
| "value_ok (P_Dictionary m) =
     (distinct (map fst m) \<and> list_all (\<lambda>(k, b). is_str k \<and> b) (map (map_prod id value_ok) m))"
| "value_ok (P_Boolean v) = True"
| "value_ok (P_Data v) = True"
| "value_ok (P_Real v) = True"
| "value_ok (P_Integer n) = (- (2 ^ 63) \<le> n \<and> n < 2 ^ 64)"
| "value_ok (P_String v) = is_str v"
| "value_ok (P_Uid v) = True"

lemma dictionary_insert_fresh: "k \<notin> fst ` set m \<Longrightarrow> dictionary_insert k v m = m @ [(k, v)]"
  by (induction k v m rule: dictionary_insert.induct) auto

lemma insert_all_distinct:
  "distinct (map fst (m @ entries)) \<Longrightarrow> foldl (\<lambda>m (k, v). dictionary_insert k v m) m entries = m @ entries"
proof (induction entries arbitrary: m)
  case (Cons e entries)
  then show ?case
    by (cases e) (auto simp: dictionary_insert_fresh)
qed simp

lemma dictionary_of_distinct: "distinct (map fst m) \<Longrightarrow> dictionary_of m = m"
  using insert_all_distinct [of "[]" m] by (simp add: dictionary_of_def)

lemma value_ok_simps:
  "value_ok (P_Array vs) \<longleftrightarrow> (\<forall>v \<in> set vs. value_ok v)"
  "value_ok (P_Dictionary m) \<longleftrightarrow> distinct (map fst m) \<and> (\<forall>(k, v) \<in> set m. is_str k \<and> value_ok v)"
  by (auto simp: list_all_iff)

declare value_ok.simps(1,2) [simp del]

lemma settle_ok: "value_ok v \<Longrightarrow> settle v = v"
proof (induction v)
  case (P_Array vs)
  then have "map settle vs = vs"
    by (intro map_idI) (simp add: value_ok_simps)
  then show ?case
    by simp
next
  case (P_Dictionary m)
  have "map_prod id settle (k, v) = (k, v)" if "(k, v) \<in> set m" for k v
    using that P_Dictionary.IH [of "(k, v)" v] P_Dictionary.prems by (auto simp: value_ok_simps)
  then have "map (map_prod id settle) m = m"
    by (intro map_idI) auto
  then show ?case
    using P_Dictionary.prems by (simp add: dictionary_of_distinct value_ok_simps)
qed simp_all

section \<open>Serializing a value\<close>

text \<open>The calls of a value, in any mode, build it again.\<close>

lemma serialize_values:
  assumes "\<And>v mode. v \<in> set vs \<Longrightarrow>
      serialize (value_sdata v) tree_builder mode () = (Inr (Some v, ()) :: 'e ser_error + pvalue option \<times> unit)"
  shows "elements tree_builder (map (\<lambda>f. f tree_builder) (map serialize (map value_sdata vs))) (Coll_Array us) () =
    (Inr (Coll_Array (us @ vs), ()) :: 'e ser_error + value_collection \<times> unit)"
  using assms by (induction vs arbitrary: us) (simp_all del: map_map)

lemma serialize_entries:
  assumes "\<And>v mode. v \<in> snd ` set m \<Longrightarrow>
      serialize (value_sdata v) tree_builder mode () = (Inr (Some v, ()) :: 'e ser_error + pvalue option \<times> unit)"
  shows "map_calls tree_builder (map (map_map_call (\<lambda>f. f tree_builder)) (map (map_map_call serialize)
      (concat (map (\<lambda>(k, v). [Call_Key (Some k), Call_Value (value_sdata v)]) m)))) None (Coll_Dictionary us None) () =
    (Inr (Coll_Dictionary (us @ m) None, ()) :: 'e ser_error + value_collection \<times> unit)"
  using assms
proof (induction m arbitrary: us)
  case (Cons e m)
  obtain k v where e: "e = (k, v)"
    by (cases e)
  then have "serialize (value_sdata v) tree_builder Mode_Explicit () = (Inr (Some v, ()) :: 'e ser_error + pvalue option \<times> unit)"
    by (intro Cons.prems) simp
  moreover have "map_calls tree_builder (map (map_map_call (\<lambda>f. f tree_builder)) (map (map_map_call serialize)
      (concat (map (\<lambda>(k, v). [Call_Key (Some k), Call_Value (value_sdata v)]) m)))) None (Coll_Dictionary (us @ [e]) None) () =
    (Inr (Coll_Dictionary (us @ [e] @ m) None, ()) :: 'e ser_error + value_collection \<times> unit)"
    unfolding append_assoc [symmetric] by (rule Cons.IH, rule Cons.prems, simp)
  ultimately show ?case
    using e by (simp del: map_map)
qed simp

lemma serialize_value:
  "value_ok v \<Longrightarrow>
     serialize (value_sdata v) tree_builder mode () = (Inr (Some v, ()) :: 'e ser_error + pvalue option \<times> unit)"
proof (induction v arbitrary: mode)
  case (P_Array vs)
  then show ?case
    using serialize_values [of vs "[]", where 'e = 'e]
    by (simp add: value_ok_simps end_collection_def del: map_map)
next
  case (P_Dictionary m)
  have "serialize (value_sdata v) tree_builder mode () = (Inr (Some v, ()) :: 'e ser_error + pvalue option \<times> unit)"
    if "(k, v) \<in> set m" for k v mode
    using that P_Dictionary.IH [of "(k, v)" v] P_Dictionary.prems by (auto simp: value_ok_simps)
  then have "serialize (value_sdata v) tree_builder mode () = (Inr (Some v, ()) :: 'e ser_error + pvalue option \<times> unit)"
    if "v \<in> snd ` set m" for v mode
    using that by auto
  then show ?case
    using serialize_entries [of m "[]", where 'e = 'e] by (simp add: end_collection_def del: map_map map_concat)
next
  case (P_Integer n)
  show ?case
  proof (cases "0 \<le> n")
    case True
    then show ?thesis
      using P_Integer by (simp add: scalar_item_def uint_word_of_int)
  next
    case False
    then have "sint (of_int n :: u64) = n"
      using P_Integer by (simp add: signed_of_int signed_take_bit_int_eq_self)
    then show ?thesis
      using False by (simp add: scalar_item_def)
  qed
qed (simp_all add: scalar_item_def)

lemma value_tree: "value_ok v \<Longrightarrow> to_tree (value_sdata v) = (Inr v :: 'e ser_error + pvalue)"
  by (simp add: to_tree_def serialize_root_def serialize_value)

lemma value_sdata_ok: "value_ok v \<Longrightarrow> sdata_ok (value_sdata v)"
proof (induction v)
  case (P_Array vs)
  then show ?case
    by (simp add: value_ok_simps list_all_iff)
next
  case (P_Dictionary m)
  have "sdata_ok (value_sdata v)" if "(k, v) \<in> set m" for k v
    using that P_Dictionary.IH [of "(k, v)" v] P_Dictionary.prems by (auto simp: value_ok_simps)
  then show ?case
    using P_Dictionary.prems by (fastforce simp: list_all_iff value_ok_simps)
qed simp_all

end
