(* ===== verification/Plist_Related.thy ===== *)
theory Plist_Related
  imports Plist_Codec
begin

text \<open>
  The serializer uses its builder only through the operations: over two builders that answer alike
  it answers alike. The writer, in the same way, uses its sink only through \<open>emit\<close>, and reads of its
  scratch only what it wrote there.
\<close>

section \<open>Two builders\<close>

lemma bind_item_related:
  assumes "rel_sum E (rel_prod I R) m n" and "\<And>x y s t. I x y \<Longrightarrow> R s t \<Longrightarrow> rel_sum E Q (f x s) (g y t)"
  shows "rel_sum E Q (bind_item m f) (bind_item n g)"
  using assms by (cases rule: rel_sum.cases) (auto simp: bind_item_def)

locale related_builders =
  fixes B :: "('s, 'i, 'c, 'e) builder" and B' :: "('t, 'i, 'c, 'f) builder"
    and R :: "'s \<Rightarrow> 't \<Rightarrow> bool" and E :: "'e \<Rightarrow> 'f \<Rightarrow> bool"
  assumes booleans: "R s t \<Longrightarrow> rel_sum (rel_ser_error E) (rel_prod (=) R) (b_boolean B b s) (b_boolean B' b t)"
    and integers: "R s t \<Longrightarrow> rel_sum (rel_ser_error E) (rel_prod (=) R) (b_integer B n s) (b_integer B' n t)"
    and unsigned: "R s t \<Longrightarrow>
      rel_sum (rel_ser_error E) (rel_prod (=) R) (b_unsigned_integer B n s) (b_unsigned_integer B' n t)"
    and reals: "R s t \<Longrightarrow> rel_sum (rel_ser_error E) (rel_prod (=) R) (b_real B n s) (b_real B' n t)"
    and strings: "R s t \<Longrightarrow> rel_sum (rel_ser_error E) (rel_prod (=) R) (b_string B u s) (b_string B' u t)"
    and datas: "R s t \<Longrightarrow> rel_sum (rel_ser_error E) (rel_prod (=) R) (b_data B u s) (b_data B' u t)"
    and uids: "R s t \<Longrightarrow> rel_sum (rel_ser_error E) (rel_prod (=) R) (b_uid B n s) (b_uid B' n t)"
    and begin_arrays: "R s t \<Longrightarrow> rel_sum (rel_ser_error E) (rel_prod (=) R) (b_begin_array B s) (b_begin_array B' t)"
    and begin_dicts: "R s t \<Longrightarrow> rel_sum (rel_ser_error E) (rel_prod (=) R) (b_begin_dict B s) (b_begin_dict B' t)"
    and children: "R s t \<Longrightarrow> rel_sum (rel_ser_error E) (rel_prod (=) R) (b_child B c i s) (b_child B' c i t)"
    and ends: "R s t \<Longrightarrow> rel_sum (rel_ser_error E) (rel_prod (=) R) (b_end B c s) (b_end B' c t)"
begin

definition same :: "'e ser_error + 'a \<times> 's \<Rightarrow> 'f ser_error + 'a \<times> 't \<Rightarrow> bool" where
  "same m n \<longleftrightarrow> rel_sum (rel_ser_error E) (rel_prod (=) R) m n"

lemma operations:
  assumes "R s t"
  shows "same (b_boolean B b s) (b_boolean B' b t)" "same (b_integer B n s) (b_integer B' n t)"
    "same (b_unsigned_integer B n s) (b_unsigned_integer B' n t)" "same (b_real B n s) (b_real B' n t)"
    "same (b_string B u s) (b_string B' u t)" "same (b_data B u s) (b_data B' u t)" "same (b_uid B n s) (b_uid B' n t)"
    "same (b_begin_array B s) (b_begin_array B' t)" "same (b_begin_dict B s) (b_begin_dict B' t)"
    "same (b_child B c i s) (b_child B' c i t)" "same (b_end B c s) (b_end B' c t)"
  using assms unfolding same_def
  by (blast intro: booleans integers unsigned reals strings datas uids begin_arrays begin_dicts children ends)+

lemma same_Inr: "R s t \<Longrightarrow> same (Inr (x, s)) (Inr (x, t))"
  by (simp add: same_def)

lemma same_Inl: "same (Inl Missing_Value) (Inl Missing_Value)" "same (Inl Invalid_Map) (Inl Invalid_Map)"
  by (simp_all add: same_def)

lemma same_bind:
  assumes "same m n" and "\<And>x s t. R s t \<Longrightarrow> same (f x s) (g x t)"
  shows "same (bind_item m f) (bind_item n g)"
  using assms unfolding same_def by (auto intro!: bind_item_related [where I = "(=)" and R = R])

lemma same_option:
  assumes "same m n" and "\<And>x. r = Some x \<Longrightarrow> same (f x) (g x)"
  shows "same (case r of None \<Rightarrow> m | Some x \<Rightarrow> f x) (case r of None \<Rightarrow> n | Some x \<Rightarrow> g x)"
  using assms by (cases r) auto

lemmas steps = same_bind same_option same_Inr same_Inl operations

definition alike_values :: "(ser_mode \<Rightarrow> ('s, 'e, 'i option) building) \<Rightarrow> (ser_mode \<Rightarrow> ('t, 'f, 'i option) building) \<Rightarrow> bool" where
  "alike_values f g \<longleftrightarrow> (\<forall>mode s t. R s t \<longrightarrow> same (f mode s) (g mode t))"

lemma alike_valuesD: "alike_values f g \<Longrightarrow> R s t \<Longrightarrow> same (f mode s) (g mode t)"
  by (simp add: alike_values_def)

lemma elements_alike:
  "list_all2 alike_values fs gs \<Longrightarrow> R s t \<Longrightarrow> same (elements B fs c s) (elements B' gs c t)"
proof (induction fs gs arbitrary: c s t rule: list_all2_induct)
  case (Cons f fs g gs)
  then show ?case
    by (auto intro!: steps alike_valuesD)
qed (simp add: same_Inr)

lemma map_calls_alike:
  "list_all2 (rel_map_call alike_values) fs gs \<Longrightarrow> R s t \<Longrightarrow> same (map_calls B fs pending c s) (map_calls B' gs pending c t)"
proof (induction fs gs arbitrary: pending c s t rule: list_all2_induct)
  case Nil
  then show ?case
    by (auto intro!: steps)
next
  case (Cons f fs g gs)
  then show ?case
    by (cases f; cases g; cases pending) (auto intro!: steps alike_valuesD split: option.splits)
qed

lemma fields_alike:
  "list_all2 (rel_prod (=) alike_values) fs gs \<Longrightarrow> R s t \<Longrightarrow> same (struct_fields B fs c s) (struct_fields B' gs c t)"
proof (induction fs gs arbitrary: c s t rule: list_all2_induct)
  case (Cons f fs g gs)
  then show ?case
    by (cases f; cases g) (auto intro!: steps alike_valuesD)
qed (simp add: same_Inr)

lemma scalar_alike: "same m n \<Longrightarrow> same (scalar_item m) (scalar_item n)"
  by (auto simp: scalar_item_def intro!: steps)

lemma named_alike: "R s t \<Longrightarrow> same (named_item B name r s) (named_item B' name r t)"
  by (auto simp: named_item_def wrap_named_def intro!: steps scalar_alike)

lemma end_alike: "R s t \<Longrightarrow> same (end_collection B c s) (end_collection B' c t)"
  by (auto simp: end_collection_def intro!: steps)

lemma variant_alike:
  "R s t \<Longrightarrow> same (begin_variant B name s) (begin_variant B' name t)"
  "R s t \<Longrightarrow> same (end_variant B outer c s) (end_variant B' outer c t)"
  by (auto simp: begin_variant_def end_variant_def intro!: steps end_alike)

lemmas parts = steps scalar_alike named_alike end_alike variant_alike elements_alike map_calls_alike fields_alike

lemma serialize_alike: "alike_values (serialize v B) (serialize v B')"
proof (induction v)
  case S_None
  then show ?case
    by (auto simp: alike_values_def intro!: parts split: ser_mode.splits)
next
  case (S_Some v)
  then show ?case
    by (auto simp: alike_values_def intro!: parts split: ser_mode.splits)
next
  case (S_Seq vs)
  then have "list_all2 alike_values (map (\<lambda>f. f B) (map serialize vs)) (map (\<lambda>f. f B') (map serialize vs))"
    by (simp add: list_all2_conv_all_nth)
  then show ?case
    by (auto simp: alike_values_def simp del: map_map intro!: parts)
next
  case (S_Tuple_Variant name vs)
  then have "list_all2 alike_values (map (\<lambda>f. f B) (map serialize vs)) (map (\<lambda>f. f B') (map serialize vs))"
    by (simp add: list_all2_conv_all_nth)
  then show ?case
    by (auto simp: alike_values_def simp del: map_map intro!: parts)
next
  case (S_Map calls)
  then have "list_all2 (rel_map_call alike_values) (map (map_map_call (\<lambda>f. f B)) (map (map_map_call serialize) calls))
      (map (map_map_call (\<lambda>f. f B')) (map (map_map_call serialize) calls))"
    by (auto simp: list.rel_map map_call.rel_map intro!: list.rel_refl_strong map_call.rel_refl_strong)
  then show ?case
    by (auto simp: alike_values_def simp del: map_map intro!: parts)
next
  case (S_Struct fs)
  then have "list_all2 (rel_prod (=) alike_values) (map (map_prod id (\<lambda>f. f B)) (map (map_prod id serialize) fs))
      (map (map_prod id (\<lambda>f. f B')) (map (map_prod id serialize) fs))"
    by (fastforce simp: list.rel_map rel_prod_sel snds.simps intro!: list.rel_refl_strong)
  then show ?case
    by (auto simp: alike_values_def simp del: map_map intro!: parts)
next
  case (S_Struct_Variant name fs)
  then have "list_all2 (rel_prod (=) alike_values) (map (map_prod id (\<lambda>f. f B)) (map (map_prod id serialize) fs))
      (map (map_prod id (\<lambda>f. f B')) (map (map_prod id serialize) fs))"
    by (fastforce simp: list.rel_map rel_prod_sel snds.simps intro!: list.rel_refl_strong)
  then show ?case
    by (auto simp: alike_values_def simp del: map_map intro!: parts)
qed (auto simp: alike_values_def intro!: parts)

lemma root_alike: "R s t \<Longrightarrow> same (serialize_root B v s) (serialize_root B' v t)"
  using serialize_alike by (auto simp: serialize_root_def intro!: parts alike_valuesD)

end

section \<open>Two sinks\<close>

lemma sum_bind_related:
  assumes "rel_sum E R m n" and "\<And>x y. R x y \<Longrightarrow> rel_sum E Q (f x) (g y)"
  shows "rel_sum E Q (sum_bind m f) (sum_bind n g)"
  using assms by (cases rule: rel_sum.cases) auto

primrec buffer_length :: "'s encoder \<Rightarrow> scratch_kind \<Rightarrow> usize" where
  "buffer_length w Offsets = length (en_offsets w)"
| "buffer_length w Collections = length (en_slots w)"
| "buffer_length w Edges = length (en_edge_slots w)"

text \<open>A lack of scratch names the length of the buffer that was too short.\<close>

definition honest :: "(scratch_kind \<Rightarrow> usize) \<Rightarrow> 'e encode_failure \<Rightarrow> bool" where
  "honest L e \<longleftrightarrow> (\<forall>kind n m. e = Encode_Err (Scratch_Too_Small kind n m) \<longrightarrow> m = L kind \<and> n = Suc m)"

lemma honest_simps [simp]:
  "honest L (Encode_Err (Scratch_Too_Small kind n m)) \<longleftrightarrow> m = L kind \<and> n = Suc m"
  "honest L (Encode_Err Encode_Overflow)" "honest L (Encode_Err Invalid_Collection)"
  "honest L (Encode_Err (Emit_Error x))" "honest L (Encode_Panic p)"
  by (simp_all add: honest_def)

lemma take_changed: "take n (xs[i := f (xs ! i)]) = (if i < n then (take n xs)[i := f (take n xs ! i)] else take n xs)"
  by (simp add: take_update_swap list_update_beyond)

lemma slice_get_take: "i < length (take n xs) \<Longrightarrow> slice_get xs i = Some (take n xs ! i)"
  by (simp add: slice_get_def)

lemma slice_get_agree: "take n xs = take n ys \<Longrightarrow> length xs = length ys \<Longrightarrow> i < n \<Longrightarrow> slice_get xs i = slice_get ys i"
  using nth_take [of i n xs] nth_take [of i n ys] by (simp add: slice_get_def)

text \<open>A sink that takes all a \<open>Vec\<close> would hold.\<close>

locale related_sink =
  fixes emit :: "('t, 'e) emitter" and Q :: "u8 list \<Rightarrow> 't \<Rightarrow> bool" and L :: "scratch_kind \<Rightarrow> usize"
  assumes emits: "Q s t \<Longrightarrow> length s + length b < 2 ^ 64 \<Longrightarrow> \<exists>t'. emit b t = Inr t' \<and> Q (s @ b) t'"
begin

definition R :: "u8 list encoder \<Rightarrow> 't encoder \<Rightarrow> bool" where
  "R w w' \<longleftrightarrow> unat (en_position w) = length (en_sink w) \<and> Q (en_sink w) (en_sink w') \<and>
     buffer_length w = L \<and> buffer_length w' = L \<and>
     unat (en_next w) \<le> L Offsets \<and> en_collections w \<le> L Collections \<and> en_edges w \<le> L Edges \<and>
     take (unat (en_next w)) (en_offsets w') = take (unat (en_next w)) (en_offsets w) \<and>
     take (en_collections w) (en_slots w') = take (en_collections w) (en_slots w) \<and>
     take (en_edges w) (en_edge_slots w') = take (en_edges w) (en_edge_slots w) \<and>
     en_next w' = en_next w \<and> en_position w' = en_position w \<and> en_collections w' = en_collections w \<and>
     en_open w' = en_open w \<and> en_edges w' = en_edges w"

definition E :: "'e encode_failure \<Rightarrow> 'e encode_failure \<Rightarrow> bool" where
  "E e e' \<longleftrightarrow> e' = e \<and> honest L e"

lemma E_simps [simp]:
  "E (Encode_Err Invalid_Collection) (Encode_Err Invalid_Collection)" "E (Encode_Panic p) (Encode_Panic p)"
  "E (Encode_Err Encode_Overflow) (Encode_Err Encode_Overflow)"
  "E (Encode_Err (Scratch_Too_Small k n m)) (Encode_Err (Scratch_Too_Small k n m)) \<longleftrightarrow> m = L k \<and> n = Suc m"
  by (simp_all add: E_def)

lemma R_same: "R w w' \<Longrightarrow> en_next w' = en_next w \<and> en_position w' = en_position w \<and>
    en_collections w' = en_collections w \<and> en_open w' = en_open w \<and> en_edges w' = en_edges w"
  by (simp add: R_def)

lemma R_used: "R w w' \<Longrightarrow> unat (en_next w) \<le> L Offsets \<and> en_collections w \<le> L Collections \<and> en_edges w \<le> L Edges"
  by (simp add: R_def)

lemma R_length: "R w w' \<Longrightarrow> length (en_offsets w) = L Offsets \<and> length (en_slots w) = L Collections \<and>
    length (en_edge_slots w) = L Edges \<and> length (en_offsets w') = L Offsets \<and> length (en_slots w') = L Collections \<and>
    length (en_edge_slots w') = L Edges"
  by (auto simp: R_def fun_eq_iff) (metis buffer_length.simps)+

lemma lengths_eq: "buffer_length w = L \<longleftrightarrow> length (en_offsets w) = L Offsets \<and>
    length (en_slots w) = L Collections \<and> length (en_edge_slots w) = L Edges"
proof
  assume same: "length (en_offsets w) = L Offsets \<and> length (en_slots w) = L Collections \<and> length (en_edge_slots w) = L Edges"
  have "buffer_length w k = L k" for k
    using same by (cases k) simp_all
  then show "buffer_length w = L" ..
qed auto

lemma write_alike:
  assumes "R w w'"
  shows "rel_sum E R (en_write vec_emit b w) (en_write emit b w')"
proof (cases "unat (en_position w) + length b < 2 ^ 64")
  case True
  have pos: "unat (en_position w + of_nat (length b)) = unat (en_position w) + length b"
    using True by (simp add: unat_word_ariths unat_of_nat)
  obtain t where "emit b (en_sink w') = Inr t" "Q (en_sink w @ b) t"
    using assms True emits [of "en_sink w" "en_sink w'" b] by (auto simp: R_def)
  then show ?thesis
    using assms True pos by (simp add: en_write_def vec_emit_def R_def lengths_eq)
next
  case False
  then show ?thesis
    using assms by (simp add: en_write_def R_same)
qed

definition alike where
  "alike m n \<longleftrightarrow> rel_sum E (rel_prod (=) R) m n"

lemma alike_Inr: "R w w' \<Longrightarrow> alike (Inr (x, w)) (Inr (x, w'))"
  by (simp add: alike_def)

lemma alike_Inl [simp]: "alike (Inl e) (Inl e') \<longleftrightarrow> E e e'"
  by (simp add: alike_def)

lemma alike_bind: "alike m n \<Longrightarrow> (\<And>x w w'. R w w' \<Longrightarrow> alike (f (x, w)) (g (x, w'))) \<Longrightarrow> alike (sum_bind m f) (sum_bind n g)"
  unfolding alike_def by (erule sum_bind_related) auto

lemma alike_step: "rel_sum E R m n \<Longrightarrow> (\<And>w w'. R w w' \<Longrightarrow> alike (f w) (g w')) \<Longrightarrow> alike (sum_bind m f) (sum_bind n g)"
  unfolding alike_def by (erule sum_bind_related)

lemma slot_alike:
  assumes "R w w'"
  shows "alike (en_slot sc w) (en_slot sc w')"
proof (cases "unat (en_next w) + 1 < 2 ^ 64 \<and> unat (en_next w) < L Offsets")
  case True
  then have "unat (en_next w + 1) = Suc (unat (en_next w))"
    by (simp add: unat_word_ariths)
  then have "R (w\<lparr>en_next := en_next w + 1, en_offsets := (en_offsets w)[unat (en_next w) := en_position w]\<rparr>)
      (w'\<lparr>en_next := en_next w' + 1, en_offsets := (en_offsets w')[unat (en_next w') := en_position w']\<rparr>)"
    using assms True R_length [OF assms]
    by (simp add: R_def lengths_eq take_Suc_conv_app_nth)
  then show ?thesis
    using assms True R_length [OF assms] by (simp add: en_slot_eq R_same alike_Inr)
next
  case False
  then show ?thesis
    using assms R_length [OF assms] R_used [OF assms] by (auto simp: en_slot_eq R_same)
qed

lemma sized_alike: "R w w' \<Longrightarrow> rel_sum E R (en_sized vec_emit kind n w) (en_sized emit kind n w')"
  by (auto simp: en_sized_def Let_def intro!: write_alike sum_bind_related [where R = R])

lemma utf16_alike: "R w w' \<Longrightarrow> rel_sum E R (write_utf16 vec_emit us buf w) (write_utf16 emit us buf w')"
proof (induction us arbitrary: buf w w')
  case (Cons u us)
  then show ?case
    by (auto simp: Let_def intro!: write_alike sum_bind_related [where R = R])
qed (simp add: write_alike)

lemma scalar_alike: "R w w' \<Longrightarrow> alike (scalar_bytes vec_emit sc b w) (scalar_bytes emit sc b w')"
  by (auto simp: scalar_bytes_def intro!: alike_bind slot_alike alike_step write_alike alike_Inr)

lemma data_alike: "R w w' \<Longrightarrow> alike (en_data vec_emit d w) (en_data emit d w')"
  by (auto simp: en_data_def intro!: alike_bind slot_alike alike_step write_alike sized_alike alike_Inr)

lemma string_alike: "R w w' \<Longrightarrow> alike (en_string vec_emit d w) (en_string emit d w')"
  by (auto simp: en_string_def intro!: alike_bind slot_alike alike_step write_alike sized_alike utf16_alike alike_Inr
      sum_bind_related [where R = R])

lemma R_open: "R w w' \<Longrightarrow> R (w\<lparr>en_open := n\<rparr>) (w'\<lparr>en_open := n\<rparr>)"
  by (simp add: R_def lengths_eq)

lemma begin_alike: "R w w' \<Longrightarrow> alike (en_begin d w) (en_begin d w')"
  by (auto simp: en_begin_def R_same checked_add_def intro!: alike_bind slot_alike alike_Inr R_open)

lemma R_edges:
  assumes "R w w'" and "en_edges w < L Edges" and "length edges = L Edges" "length edges' = L Edges"
    and "take (Suc (en_edges w)) edges' = take (Suc (en_edges w)) edges"
  shows "R (w\<lparr>en_edges := Suc (en_edges w), en_edge_slots := edges\<rparr>) (w'\<lparr>en_edges := Suc (en_edges w), en_edge_slots := edges'\<rparr>)"
  using assms by (simp add: R_def lengths_eq)

lemma child_alike:
  assumes R: "R w w'"
  shows "alike (en_child c i w) (en_child c i w')"
proof -
  let ?edge = "\<lparr>edge_object = i, edge_next = None\<rparr>"
  let ?slots = "(en_edge_slots w)[en_edges w := ?edge]" and ?slots' = "(en_edge_slots w')[en_edges w := ?edge]"
  have same: "take (Suc (en_edges w)) ?slots' = take (Suc (en_edges w)) ?slots" if "en_edges w < L Edges"
    using R that R_length [OF R] by (simp add: R_def take_Suc_conv_app_nth)
  have "take (Suc (en_edges w)) (?slots'[prev := (?slots' ! prev)\<lparr>edge_next := Some (en_edges w)\<rparr>]) =
      take (Suc (en_edges w)) (?slots[prev := (?slots ! prev)\<lparr>edge_next := Some (en_edges w)\<rparr>])"
    if "en_edges w < L Edges" for prev
    using same [OF that] take_changed [of "Suc (en_edges w)" ?slots prev "edge_next_update (\<lambda>_. Some (en_edges w))"]
      take_changed [of "Suc (en_edges w)" ?slots' prev "edge_next_update (\<lambda>_. Some (en_edges w))"] by simp
  then show ?thesis
    using R R_length [OF R] R_used [OF R] same
    by (auto simp: en_child_def Let_def R_same checked_add_def split: option.split intro!: alike_Inr R_edges)
qed

lemma end_alike:
  assumes R: "R w w'"
  shows "alike (en_end c w) (en_end c w')"
proof (cases "en_collections w < L Collections")
  case True
  let ?slot = "\<lparr>col_object = cs_object c, col_first = cs_first c, col_count = cs_count c, col_dictionary = cs_dictionary c\<rparr>"
  have "R (w\<lparr>en_slots := (en_slots w)[en_collections w := ?slot], en_collections := en_collections w + 1, en_open := n\<rparr>)
      (w'\<lparr>en_slots := (en_slots w')[en_collections w := ?slot], en_collections := en_collections w + 1, en_open := n\<rparr>)" for n
    using R True R_length [OF R] by (simp add: R_def lengths_eq take_Suc_conv_app_nth)
  then show ?thesis
    using R True R_length [OF R] by (auto simp: en_end_def R_same intro!: alike_Inr)
next
  case False
  then show ?thesis
    using R R_length [OF R] R_used [OF R] by (auto simp: en_end_def R_same)
qed

lemma core_alike: "alike m n \<Longrightarrow> rel_sum (rel_ser_error E) (rel_prod (=) R) (into_core m) (into_core n)"
  unfolding alike_def by (cases m; cases n) (auto simp: into_core_def)

end

sublocale related_sink \<subseteq> builders: related_builders "wire_builder vec_emit" "wire_builder emit" R E
  by unfold_locales (auto simp: en_boolean_def en_integer_def en_unsigned_integer_def en_real_def en_uid_def Let_def
      intro!: core_alike scalar_alike data_alike string_alike begin_alike child_alike end_alike)

text \<open>
  \<open>finish\<close> follows the edges of the closed collections; the contract of the writer says that they lead
  to edges it wrote.
\<close>

context related_sink
begin

definition K :: "ref_edge list \<Rightarrow> collection list \<Rightarrow> u64 \<Rightarrow> u8 list encoder \<Rightarrow> 't encoder \<Rightarrow> bool" where
  "K G C N w w' \<longleftrightarrow> R w w' \<and> the_edges w = G \<and> closed w = C \<and> en_next w = N"

lemma K_same: "K G C N w w' \<Longrightarrow> en_next w' = en_next w \<and> en_position w' = en_position w \<and>
    en_collections w' = en_collections w \<and> en_open w' = en_open w \<and> en_edges w' = en_edges w"
  using R_same [of w w'] by (auto simp: K_def)

lemma write_kept:
  assumes "K G C N w w'"
  shows "rel_sum E (K G C N) (en_write vec_emit b w) (en_write emit b w')"
proof -
  have "R w w'"
    using assms by (simp add: K_def)
  then have "rel_sum E R (en_write vec_emit b w) (en_write emit b w')"
    by (rule write_alike)
  then show ?thesis
    using assms by (auto simp: en_write_vec rel_sum.simps K_def the_edges_def closed_def split: if_splits)
qed

lemma sized_kept: "K G C N w w' \<Longrightarrow> rel_sum E (K G C N) (en_sized vec_emit kind n w) (en_sized emit kind n w')"
  by (auto simp: en_sized_def Let_def intro!: write_kept sum_bind_related [where R = "K G C N"])

lemma R_offsets:
  assumes "R w w'"
  shows "R (w\<lparr>en_offsets := (en_offsets w)[i := p]\<rparr>) (w'\<lparr>en_offsets := (en_offsets w')[i := p]\<rparr>)"
  using assms R_length [OF assms] by (simp add: R_def lengths_eq take_update_swap)

lemma K_offsets:
  "K G C N w w' \<Longrightarrow> K G C N (w\<lparr>en_offsets := (en_offsets w)[i := p]\<rparr>) (w'\<lparr>en_offsets := (en_offsets w')[i := p]\<rparr>)"
  unfolding K_def by (auto intro: R_offsets simp: the_edges_def closed_def)

lemma K_edge:
  assumes "K G C N w w'" "e < length G"
  shows "slice_get (en_edge_slots w) e = Some (G ! e)" "slice_get (en_edge_slots w') e = Some (G ! e)"
proof -
  have "G = take (en_edges w) (en_edge_slots w)" "G = take (en_edges w) (en_edge_slots w')"
    using assms(1) by (auto simp: K_def the_edges_def R_def)
  then show "slice_get (en_edge_slots w) e = Some (G ! e)" "slice_get (en_edge_slots w') e = Some (G ! e)"
    using assms(2) slice_get_take by metis+
qed

lemma edges_kept:
  "K G C N w w' \<Longrightarrow> path G e es \<Longrightarrow>
     rel_sum E (K G C N) (write_edges vec_emit width keep n (length es) e w) (write_edges emit width keep n (length es) e w')"
proof (induction es arbitrary: n e w w')
  case (Cons e' es)
  then show ?case
    using K_edge [OF Cons.prems(1), of e']
    by (auto simp: write_ref_def simp del: slice_get_Some intro!: write_kept sum_bind_related [where R = "K G C N"])
qed simp

lemma collection_kept:
  assumes "K G C N w w'" "path G (col_first c) es" "length es = col_count c"
  shows "rel_sum E (K G C N) (write_collection vec_emit width c w) (write_collection emit width c w')"
proof -
  have "length (en_offsets w') = length (en_offsets w)"
    using assms(1) R_length [of w w'] by (simp add: K_def)
  moreover have "en_position w' = en_position w"
    using assms(1) by (simp add: K_same)
  moreover have "K G C N x y \<Longrightarrow> rel_sum E (K G C N) (write_edges vec_emit width keep 0 (col_count c) (col_first c) x)
      (write_edges emit width keep 0 (col_count c) (col_first c) y)" for keep x y
    using edges_kept [OF _ assms(2)] assms(3) by simp
  ultimately show ?thesis
    using assms(1)
    by (auto simp: write_collection_def Let_def intro!: sum_bind_related [where R = "K G C N"] sized_kept K_offsets)
qed

lemma K_slot:
  assumes "K G C N w w'" "i < length C"
  shows "slice_get (en_slots w) i = Some (C ! i)" "slice_get (en_slots w') i = Some (C ! i)"
proof -
  have "C = take (en_collections w) (en_slots w)" "C = take (en_collections w) (en_slots w')"
    using assms(1) by (auto simp: K_def closed_def R_def)
  then show "slice_get (en_slots w) i = Some (C ! i)" "slice_get (en_slots w') i = Some (C ! i)"
    using assms(2) slice_get_take by metis+
qed

lemma collections_kept:
  assumes "\<forall>c \<in> set C. \<exists>es. path G (col_first c) es \<and> length es = col_count c"
  shows "K G C N w w' \<Longrightarrow> start + n \<le> length C \<Longrightarrow>
    rel_sum E (K G C N) (write_collections vec_emit width start n w) (write_collections emit width start n w')"
proof (induction n arbitrary: start w w')
  case (Suc n)
  obtain es where "path G (col_first (C ! start)) es" "length es = col_count (C ! start)"
    using assms Suc.prems(2) by (metis Suc_le_eq add_Suc_right le_add1 nth_mem order_le_less_trans)
  then show ?case
    using Suc K_slot [OF Suc.prems(1), of start]
    by (auto simp del: slice_get_Some intro!: sum_bind_related [where R = "K G C N"] collection_kept)
qed simp

lemma K_offset:
  assumes "K G C N w w'" "i < unat (en_next w)"
  shows "slice_get (en_offsets w') i = slice_get (en_offsets w) i"
proof (rule slice_get_agree)
  have R: "R w w'"
    using assms(1) by (simp add: K_def)
  show "take (unat (en_next w)) (en_offsets w') = take (unat (en_next w)) (en_offsets w)"
    using R unfolding R_def by blast
  show "length (en_offsets w') = length (en_offsets w)"
    using R_length [OF R] by simp
qed (rule assms(2))

lemma offsets_kept:
  "K G C N w w' \<Longrightarrow> start + n \<le> unat N \<Longrightarrow>
     rel_sum E (K G C N) (write_offsets vec_emit width start n w) (write_offsets emit width start n w')"
proof (induction n arbitrary: start w w')
  case (Suc n)
  moreover have "slice_get (en_offsets w') start = slice_get (en_offsets w) start"
    using Suc.prems by (intro K_offset [OF Suc.prems(1)]) (simp add: K_def)
  ultimately show ?case
    by (auto split: option.split intro!: write_kept sum_bind_related [where R = "K G C N"])
qed simp

lemma finish_alike:
  assumes "R w w'" and "en_collections w \<le> length (en_slots w)"
    and paths: "\<forall>c \<in> set (closed w). \<exists>es. path (the_edges w) (col_first c) es \<and> length es = col_count c"
  shows "rel_sum E R (en_finish vec_emit root w) (en_finish emit root w')"
proof -
  let ?K = "K (the_edges w) (closed w) (en_next w)"
  have start: "?K w w'"
    using assms(1) by (simp add: K_def)
  have "rel_sum E ?K (en_finish vec_emit root w) (en_finish emit root w')"
    using R_same [OF assms(1)] assms(2)
    by (auto simp: en_finish_def Let_def K_same closed_def
        intro!: sum_bind_related [where R = ?K] collections_kept [OF paths] start offsets_kept write_kept)
  then show ?thesis
    by (rule sum.rel_mono_strong) (simp_all add: K_def)
qed

lemma encode_alike:
  assumes "sdata_ok v" and sinks: "Q [] t" and lengths: "length offsets = L Offsets" "length collections = L Collections" "length edges = L Edges"
    "length offsets' = L Offsets" "length collections' = L Collections" "length edges' = L Edges"
  shows "rel_sum (rel_ser_error E) R (encode vec_emit offsets collections edges v [])
    (encode emit offsets' collections' edges' v t)"
proof -
  let ?w = "\<lambda>offsets collections edges s. \<lparr>en_sink = s, en_offsets = offsets, en_slots = collections, en_edge_slots = edges,
        en_next = 0, en_position = 0, en_collections = 0, en_open = 0, en_edges = 0\<rparr>"
  have "R (?w offsets collections edges []) (?w offsets' collections' edges' t)"
    using sinks lengths by (simp add: R_def lengths_eq)
  then have opened: "rel_sum E R (encoder_new vec_emit offsets collections edges []) (encoder_new emit offsets' collections' edges' t)"
    unfolding encoder_new_def by (rule write_alike)
  obtain w where w: "encoder_new (vec_emit :: (u8 list, 'e) emitter) offsets collections edges [] = Inr w" "encoder_ok w"
    using encoder_new_vec by blast
  then obtain w' where w': "encoder_new emit offsets' collections' edges' t = Inr w'" "R w w'"
    using opened by (auto simp: rel_sum.simps)
  have related: "rel_sum (rel_ser_error E) (rel_prod (=) R) (serialize_root (wire_builder vec_emit) v w) (serialize_root (wire_builder emit) v w')"
    using builders.root_alike [OF w'(2)] by (simp add: builders.same_def)
  have built: "case serialize_root (wire_builder (vec_emit :: (u8 list, 'e) emitter)) v w of
      Inl e \<Rightarrow> to_tree v = Inl e \<or> (\<exists>e'. e = Ser_Core e' \<and> capacity_error e')
    | Inr (i, w1) \<Rightarrow> \<exists>tree. to_tree v = (Inr tree :: 'e encode_failure ser_error + pvalue) \<and>
        encoder_ok w1 \<and> extends w w1 \<and> stands_for w1 i tree"
    by (rule wire.root_simulates [OF assms(1) w(2)])
  have closing: "rel_sum (rel_ser_error E) R (into_core (en_finish vec_emit root w1)) (into_core (en_finish emit root w1'))"
    if "R w1 w1'" "encoder_ok w1" for root w1 w1'
  proof -
    have "\<forall>c \<in> set (closed w1). \<exists>es. path (the_edges w1) (col_first c) es \<and> length es = col_count c"
      using that(2) unfolding encoder_ok_def collection_ok_def by blast
    then have "rel_sum E R (en_finish vec_emit root w1) (en_finish emit root w1')"
      using that by (intro finish_alike) (simp_all add: encoder_ok_def)
    then show ?thesis
      by (cases rule: rel_sum.cases) (simp_all add: into_core_def)
  qed
  have new [simp]: "into_core (Inr x :: 'e encode_failure + 'x) = Inr x" for x :: 'x
    by (simp add: into_core_def)
  from related show ?thesis
  proof (cases rule: rel_sum.cases)
    case (1 e e')
    then show ?thesis
      by (simp add: encode_def w w' bind_item_def into_core_def)
  next
    case (2 r r')
    then obtain root w1 w1' where w1: "serialize_root (wire_builder (vec_emit :: (u8 list, 'e) emitter)) v w = Inr (root, w1)"
        "serialize_root (wire_builder emit) v w' = Inr (root, w1')" "R w1 w1'"
      by (cases r; cases r') auto
    moreover have "encoder_ok w1"
      using built w1(1) by auto
    ultimately show ?thesis
      using closing by (simp add: encode_def w(1) w'(1))
  qed
qed

text \<open>Every lack of scratch is reported as it is, whatever is serialized.\<close>

lemma finish_not_small:
  "en_write emit b w = Inl e \<Longrightarrow> honest L e"
  "en_sized emit kind n w = Inl e \<Longrightarrow> honest L e"
  "write_edges emit width keep m todo first w = Inl e \<Longrightarrow> honest L e"
  "write_collection emit width c w = Inl e \<Longrightarrow> honest L e"
  "write_collections emit width start n w = Inl e \<Longrightarrow> honest L e"
  "write_offsets emit width start n w = Inl e \<Longrightarrow> honest L e"
  "en_finish emit root w = Inl e \<Longrightarrow> honest L e"
proof -
  show one: "en_write emit b w = Inl e \<Longrightarrow> honest L e" for b w
    by (auto simp: en_write_def split: if_splits sum.splits)
  show sized: "en_sized emit kind n w = Inl e \<Longrightarrow> honest L e" for kind n w
    by (auto simp: en_sized_def Let_def sum_bind_Inl_iff split: if_splits dest: one)
  show edges: "write_edges emit width keep m todo first w = Inl e \<Longrightarrow> honest L e" for width keep m first todo w
    by (induction todo arbitrary: m first w)
      (auto simp: write_ref_def sum_bind_Inl_iff split: option.splits if_splits dest: one)
  show collection: "write_collection emit width c w = Inl e \<Longrightarrow> honest L e" for width c w
    by (auto simp: write_collection_def Let_def sum_bind_Inl_iff split: if_splits dest: sized edges)
  show collections: "write_collections emit width start n w = Inl e \<Longrightarrow> honest L e" for width start n w
    by (induction n arbitrary: start w) (auto simp: sum_bind_Inl_iff split: option.splits dest: collection)
  show offsets: "write_offsets emit width start n w = Inl e \<Longrightarrow> honest L e" for width start n w
    by (induction n arbitrary: start w) (auto simp: sum_bind_Inl_iff split: option.splits dest: one)
  show "en_finish emit root w = Inl e \<Longrightarrow> honest L e"
    by (auto simp: en_finish_def Let_def sum_bind_Inl_iff split: if_splits dest: one collections offsets)
qed

end

lemma into_core_Inl: "into_core m = Inl (Ser_Core e) \<longleftrightarrow> m = Inl e"
  by (simp add: into_core_def split: sum.split)

context related_sink
begin

lemma encode_honest:
  assumes "Q s t" "s = []" "length offsets = L Offsets" "length collections = L Collections" "length edges = L Edges"
    and failed: "encode emit offsets collections edges v t = Inl (Ser_Core e)"
  shows "honest L e"
proof -
  let ?w = "\<lambda>s. \<lparr>en_sink = s, en_offsets = offsets, en_slots = collections, en_edge_slots = edges,
        en_next = 0, en_position = 0, en_collections = 0, en_open = 0, en_edges = 0\<rparr>"
  consider "encoder_new emit offsets collections edges t = Inl e"
    | w' where "encoder_new emit offsets collections edges t = Inr w'" "serialize_root (wire_builder emit) v w' = Inl (Ser_Core e)"
    | root w' where "en_finish emit root w' = Inl e"
    using failed by (auto simp: encode_def into_core_Inl bind_item_def sum_bind_Inl_iff)
  then show ?thesis
  proof cases
    case 1
    then show ?thesis
      unfolding encoder_new_def by (rule finish_not_small(1))
  next
    case 2
    have "R (?w []) (?w t)"
      using assms(1-5) by (simp add: R_def lengths_eq)
    then have "rel_sum E R (encoder_new vec_emit offsets collections edges []) (encoder_new emit offsets collections edges t)"
      unfolding encoder_new_def by (rule write_alike)
    then obtain w where "R w w'"
      using 2(1) by (auto simp: rel_sum.simps)
    then have "rel_sum (rel_ser_error E) (rel_prod (=) R) (serialize_root (wire_builder vec_emit) v w) (serialize_root (wire_builder emit) v w')"
      using builders.root_alike by (simp add: builders.same_def)
    then obtain e' where "rel_ser_error E e' (Ser_Core e)"
      using 2(2) by (auto simp: rel_sum.simps)
    then show ?thesis
      by (cases e') (auto simp: E_def)
  next
    case 3
    then show ?thesis
      by (rule finish_not_small(7))
  qed
qed

end

section \<open>The sinks of the code\<close>

text \<open>Appending behind what a buffer holds already.\<close>

interpretation behind: related_sink vec_emit "\<lambda>s t. t = front @ s" L for front L
  by unfold_locales (simp add: vec_emit_def)

text \<open>Counting.\<close>

end
