(* ===== verification/Plist_Root.thy ===== *)
theory Plist_Root
  imports Plist_Decode
begin

text \<open>
  \<open>make_root_first\<close> of \<open>core/catplay_plist/src/bplist/mod.rs\<close>: the body of the root object moves to
  byte 8, where CarPlay 210 looks for it, and the table of offsets follows. The text of an error
  is the error itself; reading a slice is \<open>sub_slice\<close>, whose failure is a panic.
\<close>

section \<open>The code\<close>

datatype 'e plist_error =
    Plist_Empty
  | Unexpected_State
  | Plist_Encode 'e
  | Plist_Decode 'e
  | Plist_Panic panic

definition slice_or_panic :: "panic + 'a \<Rightarrow> 'e plist_error + 'a" where
  "slice_or_panic r = (case r of Inl p \<Rightarrow> Inl (Plist_Panic p) | Inr x \<Rightarrow> Inr x)"

text \<open>\<open>entry(i)\<close>, and the offset it holds.\<close>

definition table_offset :: "u8 list \<Rightarrow> usize \<Rightarrow> usize \<Rightarrow> usize \<Rightarrow> 'e plist_error + usize" where
  "table_offset data table width i =
     sum_bind (slice_or_panic (sub_slice data (table + i * width) (table + i * width + width))) (\<lambda>bytes.
     Inr (unat (read_integer bytes)))"

text \<open>The first loop over \<open>0..count\<close>, from \<open>i\<close> on.\<close>

fun find_root_end ::
    "u8 list \<Rightarrow> usize \<Rightarrow> usize \<Rightarrow> usize \<Rightarrow> usize \<Rightarrow> nat \<Rightarrow> usize \<Rightarrow> 'e plist_error + usize" where
  "find_root_end data table width root_start i 0 root_end = Inr root_end"
| "find_root_end data table width root_start i (Suc n) root_end =
     sum_bind (table_offset data table width i) (\<lambda>offset.
     if \<not> (8 \<le> offset \<and> offset < table) then Inl Unexpected_State
     else find_root_end data table width root_start (Suc i) n
            (if root_start < offset then min root_end offset else root_end))"

text \<open>What the checks find, before anything is written: nothing to do, or where the root lies.\<close>

record root_plan =
  rp_table :: usize
  rp_width :: usize
  rp_count :: usize
  rp_root :: usize
  rp_start :: usize
  rp_end :: usize

definition plan_root_first :: "u8 list \<Rightarrow> 'e plist_error + root_plan option" where
  "plan_root_first data =
     (if length data < 41 \<or> take 8 data \<noteq> HEADER then Inl Unexpected_State
      else
        let trailer = length data - 32
        in sum_bind (slice_or_panic (sub_slice data (trailer + 6) (trailer + 7))) (\<lambda>width_byte.
           let width = unat (hd width_byte)
           in if width \<notin> {1, 2, 4, 8} then Inl Unexpected_State
              else
                sum_bind (slice_or_panic (sub_slice data (trailer + 8) (trailer + 16))) (\<lambda>bytes.
                let count = unat (read_integer bytes)
                in sum_bind (slice_or_panic (sub_slice data (trailer + 16) (trailer + 24))) (\<lambda>bytes.
                   let root = unat (read_integer bytes)
                   in sum_bind (slice_or_panic (sub_slice data (trailer + 24) (trailer + 32))) (\<lambda>bytes.
                      let table = unat (read_integer bytes)
                      in if count \<le> root \<or> table < 9 \<or>
                           (case Option.bind (checked_mul count width) (checked_add table) of
                              None \<Rightarrow> True | Some fin \<Rightarrow> trailer < fin)
                         then Inl Unexpected_State
                         else
                           sum_bind (table_offset data table width root) (\<lambda>root_start.
                           if \<not> (8 \<le> root_start \<and> root_start < table) then Inl Unexpected_State
                           else if root_start = 8 then Inr None
                           else
                             sum_bind (find_root_end data table width root_start 0 count table) (\<lambda>root_end.
                             Inr (Some \<lparr>rp_table = table, rp_width = width, rp_count = count, rp_root = root,
                               rp_start = root_start, rp_end = root_end\<rparr>))))))))"

text \<open>\<open>rotate_right\<close> of a slice.\<close>

definition rotate_right :: "usize \<Rightarrow> 'a list \<Rightarrow> 'a list" where
  "rotate_right k xs = drop (length xs - k) xs @ take (length xs - k) xs"

text \<open>The second loop, over the data it changes: its result and the data it leaves.\<close>

fun repair_offsets ::
    "root_plan \<Rightarrow> usize \<Rightarrow> nat \<Rightarrow> u8 list \<Rightarrow> ('e plist_error + unit) \<times> u8 list" where
  "repair_offsets p i 0 data = (Inr (), data)"
| "repair_offsets p i (Suc n) data =
     (let at = rp_table p + i * rp_width p
      in case table_offset data (rp_table p) (rp_width p) i of
           Inl e \<Rightarrow> (Inl e, data)
         | Inr offset \<Rightarrow>
             (case (if i = rp_root p then Some 8
                    else if offset < rp_start p then checked_add offset (rp_end p - rp_start p)
                    else Some offset) of
                None \<Rightarrow> (Inl Unexpected_State, data)
              | Some adjusted \<Rightarrow>
                  (case copy_into data at (at + rp_width p) (be_tail (rp_width p) (of_nat adjusted)) of
                     Inl e \<Rightarrow> (Inl (Plist_Panic e), data)
                   | Inr data \<Rightarrow> repair_offsets p (Suc i) n data)))"

definition make_root_first :: "u8 list \<Rightarrow> ('e plist_error + unit) \<times> u8 list" where
  "make_root_first data =
     (case plan_root_first data of
        Inl e \<Rightarrow> (Inl e, data)
      | Inr None \<Rightarrow> (Inr (), data)
      | Inr (Some p) \<Rightarrow>
          (case sub_slice data 8 (rp_end p) of
             Inl e \<Rightarrow> (Inl (Plist_Panic e), data)
           | Inr moved \<Rightarrow>
               repair_offsets p 0 (rp_count p)
                 (take 8 data @ rotate_right (rp_end p - rp_start p) moved @ drop (rp_end p) data)))"

end
