(* ===== verification/Plist_Root_First.thy ===== *)
theory Plist_Root_First
  imports Plist_Root Plist_Codec
begin

text \<open>
  What \<open>make_root_first\<close> does to a document the encoder wrote: it succeeds, the document parses as
  before, the root lies at byte 8 and every object keeps its body.
\<close>

section \<open>The table of offsets\<close>

definition adjusted :: "usize \<Rightarrow> usize \<Rightarrow> usize \<Rightarrow> nat \<Rightarrow> u64 \<Rightarrow> u64" where
  "adjusted root start fin i offset =
     of_nat (if i = root then 8 else if unat offset < start then unat offset + (fin - start) else unat offset)"

fun adjust :: "usize \<Rightarrow> usize \<Rightarrow> usize \<Rightarrow> nat \<Rightarrow> u64 list \<Rightarrow> u64 list" where
  "adjust root start fin i [] = []"
| "adjust root start fin i (offset # offsets) =
     adjusted root start fin i offset # adjust root start fin (Suc i) offsets"

lemma length_adjust [simp]: "length (adjust root start fin i offsets) = length offsets"
  by (induction offsets arbitrary: i) simp_all

lemma adjust_nth: "k < length offsets \<Longrightarrow> adjust root start fin i offsets ! k = adjusted root start fin (i + k) (offsets ! k)"
  by (induction offsets arbitrary: i k) (auto simp: nth_Cons split: nat.split)

fun end_of :: "usize \<Rightarrow> usize \<Rightarrow> u64 list \<Rightarrow> usize" where
  "end_of start fin [] = fin"
| "end_of start fin (offset # offsets) = end_of start (if start < unat offset then min fin (unat offset) else fin) offsets"

lemma end_of_le: "end_of start fin offsets \<le> fin"
  by (induction offsets arbitrary: fin) (simp_all, meson le_trans min.cobounded1)

lemma end_of_next: "v \<in> set offsets \<Longrightarrow> start < unat v \<Longrightarrow> end_of start fin offsets \<le> unat v"
proof (induction offsets arbitrary: fin)
  case (Cons u offsets)
  then show ?case
    using end_of_le [of start "min fin (unat v)" offsets] by auto
qed simp

lemma end_of_greater: "start < fin \<Longrightarrow> start < end_of start fin offsets"
  by (induction offsets arbitrary: fin) auto

lemma end_of_attained:
  "end_of start fin offsets = fin \<or> (\<exists>v \<in> set offsets. start < unat v \<and> end_of start fin offsets = unat v)"
  by (induction offsets arbitrary: fin) (auto simp: min_def)

section \<open>The loops\<close>

lemma refs_bytes_Cons: "refs_bytes width (v # vs) = be_tail width v @ refs_bytes width vs"
  by (simp add: refs_bytes_def)

lemma table_offset_at:
  assumes "width \<le> 8" "unat v < 256 ^ width"
  shows "table_offset (s @ refs_bytes width (xs @ v # ys) @ t) (length s) width (length xs) = (Inr (unat v) :: 'e plist_error + usize)"
  using assms by (simp add: table_offset_def slice_or_panic_def refs_bytes_append refs_bytes_Cons
      length_refs_bytes read_be_tail)

lemma find_root_end_result:
  assumes "width \<le> 8" "\<forall>v \<in> set ys. unat v < 256 ^ width \<and> 8 \<le> unat v \<and> unat v < length s"
  shows "find_root_end (s @ refs_bytes width (xs @ ys) @ t) (length s) width start (length xs) (length ys) fin =
    (Inr (end_of start fin ys) :: 'e plist_error + usize)"
  using assms(2)
proof (induction ys arbitrary: xs fin)
  case (Cons v ys)
  then show ?case
    using table_offset_at [OF assms(1), of v s xs ys t, where 'e = 'e] Cons.IH [of "xs @ [v]"] by simp
qed simp

lemma repair_offsets_result:
  assumes "rp_width p \<le> 8" "rp_table p = length s"
    and "\<forall>v \<in> set ys. unat v < 256 ^ rp_width p \<and>
      (unat v < rp_start p \<longrightarrow> unat v + (rp_end p - rp_start p) < usize_bound)"
  shows "repair_offsets p (length xs) (length ys) (s @ refs_bytes (rp_width p) (xs @ ys) @ t) =
    (Inr () :: 'e plist_error + unit, s @ refs_bytes (rp_width p) (xs @ adjust (rp_root p) (rp_start p) (rp_end p) (length xs) ys) @ t)"
  using assms(3)
proof (induction ys arbitrary: xs)
  case (Cons v ys)
  let ?a = "adjusted (rp_root p) (rp_start p) (rp_end p) (length xs) v"
  have written: "copy_into (s @ refs_bytes (rp_width p) (xs @ v # ys) @ t) (length s + length xs * rp_width p)
      (length s + length xs * rp_width p + rp_width p) (be_tail (rp_width p) ?a) =
    Inr (s @ refs_bytes (rp_width p) ((xs @ [?a]) @ ys) @ t)"
    using assms(1) by (simp add: refs_bytes_append refs_bytes_Cons length_refs_bytes)
  have chosen: "(if length xs = rp_root p then Some 8
      else if unat v < rp_start p then checked_add (unat v) (rp_end p - rp_start p) else Some (unat v)) =
    Some (if length xs = rp_root p then 8
      else if unat v < rp_start p then unat v + (rp_end p - rp_start p) else unat v)"
    using Cons.prems by (simp add: checked_add_def)
  have "repair_offsets p (Suc (length xs)) (length ys) (s @ refs_bytes (rp_width p) ((xs @ [?a]) @ ys) @ t) =
    (Inr () :: 'e plist_error + unit, s @ refs_bytes (rp_width p) ((xs @ [?a]) @
      adjust (rp_root p) (rp_start p) (rp_end p) (Suc (length xs)) ys) @ t)"
    using Cons.IH [of "xs @ [?a]"] Cons.prems by simp
  moreover have "table_offset (s @ refs_bytes (rp_width p) (xs @ v # ys) @ t) (length s) (rp_width p) (length xs) =
      (Inr (unat v) :: 'e plist_error + usize)"
    using Cons.prems by (intro table_offset_at assms(1)) simp
  ultimately show ?case
    using written unfolding repair_offsets.simps list.size Let_def assms(2) add_Suc_right add_0_right
    by (simp add: chosen adjusted_def)
qed simp

section \<open>The move\<close>

lemma trailer_slices:
  "sub_slice (pre @ trailer_to_bytes t) (length pre + 6) (length pre + 7) = Inr [tr_offset_width t]"
  "sub_slice (pre @ trailer_to_bytes t) (length pre + 8) (length pre + 16) = Inr (be64_bytes (tr_object_count t))"
  "sub_slice (pre @ trailer_to_bytes t) (length pre + 16) (length pre + 24) = Inr (be64_bytes (tr_root t))"
  "sub_slice (pre @ trailer_to_bytes t) (length pre + 24) (length pre + 32) = Inr (be64_bytes (tr_table_offset t))"
  by (simp_all add: trailer_to_bytes_def)

definition root_end :: "u64 \<Rightarrow> u8 list encoder \<Rightarrow> usize" where
  "root_end root w1 = end_of (off w1 (unat root)) (length (en_sink w1)) (take (unat (en_next w1)) (en_offsets w1))"

text \<open>The encoder that would have written the moved document.\<close>

definition root_moved :: "u64 \<Rightarrow> u8 list encoder \<Rightarrow> u8 list encoder" where
  "root_moved root w1 =
     (let start = off w1 (unat root); fin = root_end root w1; n = unat (en_next w1)
      in if start = 8 then w1
         else w1\<lparr>en_sink := take 8 (en_sink w1) @ take (fin - start) (drop start (en_sink w1)) @
                 take (start - 8) (drop 8 (en_sink w1)) @ drop fin (en_sink w1),
               en_offsets := adjust (unat root) start fin 0 (take n (en_offsets w1)) @ drop n (en_offsets w1)\<rparr>)"

lemma root_end_bounds:
  assumes "framed w1" "unat root < unat (en_next w1)"
  shows "off w1 (unat root) < root_end root w1" "root_end root w1 \<le> length (en_sink w1)"
    "i < unat (en_next w1) \<Longrightarrow> off w1 (unat root) < off w1 i \<Longrightarrow> root_end root w1 \<le> off w1 i"
proof -
  show "off w1 (unat root) < root_end root w1" "root_end root w1 \<le> length (en_sink w1)"
    using assms by (auto simp: root_end_def framed_def intro: end_of_greater end_of_le)
  show "root_end root w1 \<le> off w1 i" if "i < unat (en_next w1)" "off w1 (unat root) < off w1 i"
  proof -
    have "en_offsets w1 ! i \<in> set (take (unat (en_next w1)) (en_offsets w1))"
      using assms that by (force simp: framed_def in_set_conv_nth)
    then show ?thesis
      using that by (simp add: root_end_def off_def end_of_next)
  qed
qed

lemma plan_framed:
  assumes framed: "framed w1" and root: "unat root < unat (en_next w1)"
    and small: "length (en_sink w1 @ tail_bytes root w1) < 2 ^ 64"
  shows "plan_root_first (en_sink w1 @ tail_bytes root w1) =
    (Inr (if off w1 (unat root) = 8 then None
       else Some \<lparr>rp_table = length (en_sink w1), rp_width = integer_width (en_position w1), rp_count = unat (en_next w1),
         rp_root = unat root, rp_start = off w1 (unat root), rp_end = root_end root w1\<rparr>) :: 'e plist_error + _)"
proof -
  let ?s = "en_sink w1" and ?n = "unat (en_next w1)" and ?width = "integer_width (en_position w1)"
  let ?offsets = "take ?n (en_offsets w1)"
  define pre where "pre = ?s @ refs_bytes ?width ?offsets"
  define t where "t = \<lparr>tr_offset_width = of_nat ?width, tr_ref_width = of_nat (integer_width (en_next w1 - 1)),
           tr_object_count = en_next w1, tr_root = root, tr_table_offset = en_position w1\<rparr>"
  have data: "?s @ tail_bytes root w1 = pre @ trailer_to_bytes t"
    by (simp add: tail_bytes_def pre_def t_def Let_def)
  have pos: "unat (en_position w1) = length ?s" and n: "?n \<le> length (en_offsets w1)"
    and header: "8 \<le> length ?s" "take 8 ?s = HEADER" and offs: "i < ?n \<Longrightarrow> 8 \<le> off w1 i \<and> off w1 i < length ?s" for i
    using framed by (auto simp: framed_def)
  have width: "?width \<le> 8" "unat (of_nat ?width :: u8) \<in> {1, 2, 4, 8}" "unat (of_nat ?width :: u8) = ?width"
    using integer_width_le integer_width_cases [of "en_position w1"] width_byte by auto
  have len: "length pre = length ?s + ?n * ?width"
    using n by (simp add: pre_def length_refs_bytes [OF width(1)])
  have count: "length ?offsets = ?n"
    using n by simp
  have table: "9 \<le> length ?s"
    using offs [OF root] by simp
  have fits: "\<forall>v \<in> set ?offsets. unat v < 256 ^ ?width \<and> 8 \<le> unat v \<and> unat v < length ?s"
  proof
    fix v assume "v \<in> set ?offsets"
    then obtain i where "i < ?n" "v = en_offsets w1 ! i"
      using n by (auto simp: in_set_conv_nth)
    then have v: "8 \<le> unat v" "unat v < length ?s"
      using offs by (auto simp: off_def)
    then have "unat v < 256 ^ ?width"
      using pos by (intro integer_width_mono) simp
    then show "unat v < 256 ^ ?width \<and> 8 \<le> unat v \<and> unat v < length ?s"
      using v by simp
  qed
  have "?offsets = take (unat root) ?offsets @ en_offsets w1 ! unat root # drop (Suc (unat root)) ?offsets"
    using root n id_take_nth_drop [of "unat root" ?offsets] by simp
  moreover have "length (take (unat root) ?offsets) = unat root" "en_offsets w1 ! unat root \<in> set ?offsets"
    using root n by (auto simp: in_set_conv_nth)
  ultimately have start: "table_offset (pre @ trailer_to_bytes t) (length ?s) ?width (unat root) =
      (Inr (off w1 (unat root)) :: 'e plist_error + usize)"
    using table_offset_at [OF width(1), of "en_offsets w1 ! unat root" ?s "take (unat root) ?offsets"
        "drop (Suc (unat root)) ?offsets" "trailer_to_bytes t", where 'e = 'e] fits
    by (simp add: pre_def off_def)
  have fin: "find_root_end (pre @ trailer_to_bytes t) (length ?s) ?width (off w1 (unat root)) 0 ?n (length ?s) =
      (Inr (root_end root w1) :: 'e plist_error + usize)"
    using find_root_end_result [OF width(1) fits, of "[]" "trailer_to_bytes t" "off w1 (unat root)" "length ?s", where 'e = 'e]
    by (simp add: pre_def root_end_def count del: length_take)
  have checks: "\<not> length (pre @ trailer_to_bytes t) < 41" "take 8 (pre @ trailer_to_bytes t) = HEADER"
    "length (pre @ trailer_to_bytes t) - 32 = length pre"
    using len table header by (auto simp: pre_def)
  have bounds: "?n * ?width < usize_bound" "length ?s + ?n * ?width < usize_bound" "8 \<le> off w1 (unat root)"
    "off w1 (unat root) < length ?s"
    using small len offs [OF root] unfolding data by (simp_all add: usize_bound_def)
  show ?thesis
    unfolding data plan_root_first_def checks Let_def trailer_slices slice_or_panic_def sum.case sum_bind_simps
    using checks(1,2) width(2,3) root table bounds start fin pos len
    by (simp add: t_def checked_mul_def checked_add_def)
qed

lemma root_moved_same [simp]:
  "en_position (root_moved root w1) = en_position w1" "en_next (root_moved root w1) = en_next w1"
  by (simp_all add: root_moved_def Let_def)

lemma root_moved_off:
  assumes framed: "framed w1" and i: "i < unat (en_next w1)"
  shows "off (root_moved root w1) i =
    (let start = off w1 (unat root)
     in if i = unat root then 8
        else if off w1 i < start then off w1 i + (if start = 8 then 0 else root_end root w1 - start)
        else off w1 i)"
proof (cases "off w1 (unat root) = 8")
  case True
  have "8 \<le> off w1 i"
    using framed i by (simp add: framed_def)
  then show ?thesis
    using True by (simp add: root_moved_def Let_def)
next
  case False
  have n: "unat (en_next w1) \<le> length (en_offsets w1)"
    using framed by (simp add: framed_def)
  then have "root_end root w1 \<le> length (en_sink w1)"
    by (simp add: root_end_def end_of_le)
  then have bound: "root_end root w1 < 2 ^ 64"
    using framed unat_range [of "en_position w1"] by (simp add: framed_def)
  have "off (root_moved root w1) i =
      unat (adjusted (unat root) (off w1 (unat root)) (root_end root w1) i (en_offsets w1 ! i))"
    using False i n by (simp add: root_moved_def Let_def off_def nth_append adjust_nth)
  also have "\<dots> = (if i = unat root then 8
      else if off w1 i < off w1 (unat root) then off w1 i + (root_end root w1 - off w1 (unat root)) else off w1 i)"
    using bound unat_range [of "en_offsets w1 ! i"] by (simp add: adjusted_def off_def unat_of_nat)
  finally show ?thesis
    using False by simp
qed

lemma root_moved_sink:
  assumes "framed w1" "unat root < unat (en_next w1)"
  shows "length (en_sink (root_moved root w1)) = length (en_sink w1)"
    and "take 8 (en_sink (root_moved root w1)) = take 8 (en_sink w1)"
proof -
  have "8 \<le> off w1 (unat root)" "8 \<le> length (en_sink w1)"
    using assms by (auto simp: framed_def)
  then show "length (en_sink (root_moved root w1)) = length (en_sink w1)"
    "take 8 (en_sink (root_moved root w1)) = take 8 (en_sink w1)"
    using root_end_bounds(1,2) [OF assms] by (auto simp: root_moved_def Let_def)
qed

lemma root_moved_framed:
  assumes framed: "framed w1" and root: "unat root < unat (en_next w1)"
  shows "framed (root_moved root w1)"
proof -
  have "8 \<le> off (root_moved root w1) i \<and> off (root_moved root w1) i < length (en_sink w1)" if i: "i < unat (en_next w1)" for i
  proof -
    have "8 \<le> off w1 i" "off w1 i < length (en_sink w1)" "8 < length (en_sink w1)"
      using framed i by (fastforce simp: framed_def)+
    then show ?thesis
      using root_end_bounds(1,2) [OF assms] by (auto simp: root_moved_off [OF framed i] Let_def)
  qed
  moreover have "length (en_offsets (root_moved root w1)) = length (en_offsets w1)"
    using framed by (auto simp: root_moved_def Let_def framed_def)
  ultimately show ?thesis
    using framed root_moved_sink [OF assms] by (auto simp: framed_def)
qed

lemma rotate_right_middle:
  assumes "8 \<le> start" "start < fin" "fin \<le> length s"
  shows "rotate_right (fin - start) (take (fin - 8) (drop 8 (s @ t))) =
    take (fin - start) (drop start s) @ take (start - 8) (drop 8 s)"
proof -
  have sum: "fin - 8 = (start - 8) + (fin - start)" and shift: "start - 8 + 8 = start"
    using assms by simp_all
  have "take (fin - 8) (drop 8 (s @ t)) = take (fin - 8) (drop 8 s)"
    using assms by simp
  also have "\<dots> = take (start - 8) (drop 8 s) @ take (fin - start) (drop start s)"
    unfolding sum take_add drop_drop shift ..
  finally show ?thesis
    using assms by (simp add: rotate_right_def)
qed

lemma make_root_first_framed:
  assumes framed: "framed w1" and root: "unat root < unat (en_next w1)"
    and small: "length (en_sink w1 @ tail_bytes root w1) < 2 ^ 64"
  shows "make_root_first (en_sink w1 @ tail_bytes root w1) =
    (Inr () :: 'e plist_error + unit, en_sink (root_moved root w1) @ tail_bytes root (root_moved root w1))"
proof (cases "off w1 (unat root) = 8")
  case True
  then show ?thesis
    using plan_framed [OF assms, where 'e = 'e] by (simp add: make_root_first_def root_moved_def Let_def)
next
  case False
  let ?s = "en_sink w1" and ?n = "unat (en_next w1)" and ?width = "integer_width (en_position w1)"
  let ?offsets = "take ?n (en_offsets w1)" and ?start = "off w1 (unat root)" and ?fin = "root_end root w1"
  define t where "t = trailer_to_bytes \<lparr>tr_offset_width = of_nat ?width, tr_ref_width = of_nat (integer_width (en_next w1 - 1)),
           tr_object_count = en_next w1, tr_root = root, tr_table_offset = en_position w1\<rparr>"
  define p where "p = \<lparr>rp_table = length ?s, rp_width = ?width, rp_count = ?n, rp_root = unat root, rp_start = ?start,
    rp_end = ?fin\<rparr>"
  have tail: "tail_bytes root w1 = refs_bytes ?width ?offsets @ t"
    by (simp add: tail_bytes_def t_def Let_def)
  have pos: "unat (en_position w1) = length ?s" and n: "?n \<le> length (en_offsets w1)"
    and range: "i < ?n \<Longrightarrow> 8 \<le> off w1 i \<and> off w1 i < length ?s" for i
    using framed by (auto simp: framed_def)
  have root_range: "8 \<le> ?start" "?start < ?fin" "?fin \<le> length ?s"
    using range [OF root] root_end_bounds(1,2) [OF framed root] by auto
  have count: "length ?offsets = ?n"
    using n by simp
  have fits: "\<forall>v \<in> set ?offsets. unat v < 256 ^ rp_width p \<and>
      (unat v < rp_start p \<longrightarrow> unat v + (rp_end p - rp_start p) < usize_bound)"
  proof
    fix v assume "v \<in> set ?offsets"
    then obtain i where "i < ?n" "v = en_offsets w1 ! i"
      using n by (auto simp: in_set_conv_nth)
    then have v: "unat v < length ?s"
      using range by (auto simp: off_def)
    then have "unat v < 256 ^ ?width"
      using pos by (intro integer_width_mono) simp
    moreover have "unat v < ?start \<Longrightarrow> unat v + (?fin - ?start) < ?fin"
      using root_range by linarith
    moreover have "?fin < usize_bound"
      using root_range pos unat_range [of "en_position w1"] by (simp add: usize_bound_def)
    ultimately show "unat v < 256 ^ rp_width p \<and>
        (unat v < rp_start p \<longrightarrow> unat v + (rp_end p - rp_start p) < usize_bound)"
      unfolding p_def by fastforce
  qed
  let ?moved = "take 8 ?s @ take (?fin - ?start) (drop ?start ?s) @ take (?start - 8) (drop 8 ?s) @ drop ?fin ?s"
  have widths: "rp_width p \<le> 8" and same: "rp_table p = length ?moved"
    using root_range integer_width_le by (simp_all add: p_def)
  have rotated: "rotate_right (?fin - ?start) (take (?fin - 8) (drop 8 (?s @ tail_bytes root w1))) =
      take (?fin - ?start) (drop ?start ?s) @ take (?start - 8) (drop 8 ?s)"
    by (rule rotate_right_middle [OF root_range])
  have repaired: "repair_offsets p 0 ?n (?moved @ refs_bytes ?width ?offsets @ t) =
      (Inr () :: 'e plist_error + unit, ?moved @ refs_bytes ?width (adjust (unat root) ?start ?fin 0 ?offsets) @ t)"
    using repair_offsets_result [OF widths same fits, of "[]" t, where 'e = 'e]
    by (simp add: p_def count del: length_take)
  have "make_root_first (?s @ tail_bytes root w1) = (Inr () :: 'e plist_error + unit,
      ?moved @ refs_bytes ?width (adjust (unat root) ?start ?fin 0 ?offsets) @ t)"
    using plan_framed [OF assms, where 'e = 'e] False rotated repaired root_range
    unfolding make_root_first_def
    by (simp add: tail p_def)
  moreover have "en_sink (root_moved root w1) @ tail_bytes root (root_moved root w1) =
      ?moved @ refs_bytes ?width (adjust (unat root) ?start ?fin 0 ?offsets) @ t"
    using False n by (simp add: root_moved_def Let_def tail_bytes_def t_def)
  ultimately show ?thesis
    by simp
qed

section \<open>Objects keep their bodies\<close>

lemma body_end_le:
  assumes "encoder_ok w" "i < j" "j < unat (en_next w)"
  shows "body_end w i \<le> off w j"
  using assms(2,3)
proof (induction rule: strict_inc_induct)
  case (base i)
  then show ?case
    by (simp add: body_end_def)
next
  case (step i)
  moreover have "body_end w i = off w (Suc i)"
    using step by (simp add: body_end_def)
  moreover have "off w (Suc i) \<le> body_end w (Suc i)"
    using step assms(1) by (simp add: encoder_ok_def)
  ultimately show ?case
    by simp
qed

lemma written_apart:
  assumes fin: "finished w root w1" and i: "i < unat (en_next w)"
  shows "leaf w i \<Longrightarrow> apart w1 {..<unat (en_next w)} i (body w i)"
    and "\<not> leaf w i \<Longrightarrow> \<exists>b c. c \<in> set (closed w) \<and> unat (col_object c) = i \<and> located w1 i b \<and>
      apart w1 {..<unat (en_next w)} i b \<and> collection_bytes_of (integer_width (en_next w - 1)) (en_edge_slots w) c b"
proof -
  have ok: "encoder_ok w" "en_open w = 0" and w1: "written w root w1"
    using fin by (simp_all add: finished_def)
  let ?n = "unat (en_next w)"
  have leaves: "off w1 j = off w j \<and> off w j < body_end w j \<and> body_end w j \<le> length (en_sink w)" if "j < ?n" "leaf w j" for j
    using that w1 ok by (simp add: written_def encoder_ok_def leaf_def)
  have others: "length (en_sink w) \<le> off w1 j" if j: "j < ?n" "\<not> leaf w j" for j
    using closed_objects [OF ok j] w1 by (auto simp: written_def placed_def)
  show "apart w1 {..<?n} i (body w i)" if leaf: "leaf w i"
  proof -
    have len: "off w i + length (body w i) = body_end w i"
      using leaves [OF i leaf] by (auto simp: body_def)
    have "j = i \<or> off w1 j < off w1 i \<or> off w1 i + length (body w i) \<le> off w1 j" if j: "j < ?n" for j
    proof (cases "leaf w j")
      case True
      consider "j < i" | "j = i" | "i < j"
        by linarith
      then show ?thesis
        using body_end_le [OF ok(1), of j i] body_end_le [OF ok(1), of i j] i j leaves [OF i leaf] leaves [OF j True] len
        by cases auto
    next
      case False
      then show ?thesis
        using others [OF j] leaves [OF i leaf] len by simp
    qed
    then show ?thesis
      by (simp add: apart_def)
  qed
  show "\<exists>b c. c \<in> set (closed w) \<and> unat (col_object c) = i \<and> located w1 i b \<and>
      apart w1 {..<?n} i b \<and> collection_bytes_of (integer_width (en_next w - 1)) (en_edge_slots w) c b" if bare: "\<not> leaf w i"
  proof -
    obtain c where c: "c \<in> set (closed w)" "unat (col_object c) = i"
      using closed_objects [OF ok i bare] by blast
    then have "placed w w1 (objects_of (closed w)) (integer_width (en_next w - 1)) c"
      using w1 by (simp add: written_def)
    then obtain b where b: "length (en_sink w) \<le> off w1 i" "located w1 i b" "apart w1 (objects_of (closed w)) i b"
        "collection_bytes_of (integer_width (en_next w - 1)) (en_edge_slots w) c b"
      using c(2) by (auto simp: placed_def)
    have "j = i \<or> off w1 j < off w1 i \<or> off w1 i + length b \<le> off w1 j" if j: "j < ?n" for j
    proof (cases "leaf w j")
      case True
      then show ?thesis
        using leaves [OF j True] b(1) by linarith
    next
      case False
      then have "j \<in> objects_of (closed w)"
        using closed_objects [OF ok j] by auto
      then show ?thesis
        using b(3) by (auto simp: apart_def)
    qed
    then have "apart w1 {..<?n} i b"
      by (simp add: apart_def)
    then show ?thesis
      using b c by blast
  qed
qed

text \<open>The bytes of a list whose middle has moved to the front.\<close>

lemma moved_slices:
  assumes "8 \<le> start" "start < fin" "fin \<le> length s"
  defines "m \<equiv> take 8 s @ take (fin - start) (drop start s) @ take (start - 8) (drop 8 s) @ drop fin s"
  shows "k \<le> fin - start \<Longrightarrow> take k (drop 8 m) = take k (drop start s)"
    and "8 \<le> p \<Longrightarrow> p + k \<le> start \<Longrightarrow> take k (drop (p + (fin - start)) m) = take k (drop p s)"
    and "fin \<le> p \<Longrightarrow> drop p m = drop p s"
proof -
  show "k \<le> fin - start \<Longrightarrow> take k (drop 8 m) = take k (drop start s)"
    using assms by (simp add: m_def)
  have "length (take 8 s @ take (fin - start) (drop start s)) = 8 + (fin - start)"
    using assms by simp
  then have "drop (p + (fin - start)) m = drop (p - 8) (take (start - 8) (drop 8 s) @ drop fin s)" if "8 \<le> p" for p
    using assms that by (simp add: m_def)
  then show "take k (drop (p + (fin - start)) m) = take k (drop p s)" if "8 \<le> p" "p + k \<le> start"
    using assms that by (simp add: drop_take)
  show "fin \<le> p \<Longrightarrow> drop p m = drop p s"
    using assms by (simp add: m_def)
qed

lemma root_moved_located:
  assumes framed: "framed w1" and root: "unat root < unat (en_next w1)" and i: "i < unat (en_next w1)"
    and here: "located w1 i b" "apart w1 {..<unat (en_next w1)} i b" "b \<noteq> []"
  shows "located (root_moved root w1) i b"
proof (cases "off w1 (unat root) = 8")
  case True
  then show ?thesis
    using here by (simp add: root_moved_def)
next
  case False
  let ?s = "en_sink w1" and ?start = "off w1 (unat root)" and ?fin = "root_end root w1"
  have range: "8 \<le> ?start" "?start < ?fin" "?fin \<le> length ?s"
    using framed root root_end_bounds(1,2) [OF framed root] by (auto simp: framed_def)
  have sink: "en_sink (root_moved root w1) =
      take 8 ?s @ take (?fin - ?start) (drop ?start ?s) @ take (?start - 8) (drop 8 ?s) @ drop ?fin ?s"
    using False by (simp add: root_moved_def Let_def)
  note slices = moved_slices [OF range, folded sink]
  have len: "length (en_sink (root_moved root w1)) = length ?s"
    by (rule root_moved_sink(1) [OF framed root])
  have b: "8 \<le> off w1 i" "off w1 i + length b \<le> length ?s" "take (length b) (drop (off w1 i) ?s) = b"
    using here(1) by (auto simp: located_def)
  have sep: "j = i \<or> off w1 j < off w1 i \<or> off w1 i + length b \<le> off w1 j" if "j < unat (en_next w1)" for j
    using here(2) that by (simp add: apart_def)
  note at = root_moved_off [OF framed i, of root, unfolded Let_def]
  consider "i = unat root" | "i \<noteq> unat root" "off w1 i < ?start" | "i \<noteq> unat root" "?start \<le> off w1 i"
    by linarith
  then show ?thesis
  proof cases
    case 1
    have "?start + length b \<le> ?fin"
    proof (cases "?fin = length ?s")
      case False
      obtain v where "v \<in> set (take (unat (en_next w1)) (en_offsets w1))" "?start < unat v" "?fin = unat v"
        using end_of_attained False unfolding root_end_def by metis
      then obtain j where "j < unat (en_next w1)" "off w1 j = ?fin" "?start < off w1 j"
        by (auto simp: in_set_conv_nth off_def)
      then show ?thesis
        using sep [of j] 1 by auto
    qed (use b 1 in simp)
    moreover have "off (root_moved root w1) i = 8"
      using root_moved_off [OF framed root, of root] 1 by simp
    ultimately show ?thesis
      using 1 b slices(1) [of "length b"] range by (simp add: located_def len)
  next
    case 2
    then have "off w1 i + length b \<le> ?start"
      using sep [OF root] by auto
    then show ?thesis
      using 2 b slices(2) [of "off w1 i" "length b"] range False by (simp add: located_def at len) arith
  next
    case 3
    then have "?start < off w1 i"
      using sep [OF root] here(3) by (cases b) auto
    then have "?fin \<le> off w1 i"
      by (rule root_end_bounds(3) [OF framed root i])
    then show ?thesis
      using 3 b slices(3) by (simp add: located_def at len)
  qed
qed

text \<open>The document after the move: the encoder's objects, the root at byte 8.\<close>

theorem root_moved_lays_out:
  assumes fin: "finished w root w1" and root: "unat root < unat (en_next w)"
  shows "lays_out (the_document (root_moved root w1) root) w"
    and "doc_offset (the_document (root_moved root w1) root) root = Inr 8"
proof -
  let ?w2 = "root_moved root w1" and ?d = "the_document (root_moved root w1) root"
  have ok: "encoder_ok w" "en_open w = 0" and w1: "written w root w1" "en_next w1 = en_next w"
    using fin by (auto simp: finished_def written_def)
  have framed: "framed w1"
    using written_framed [OF ok w1(1)] .
  then have framed2: "framed ?w2"
    using root w1(2) by (simp add: root_moved_framed)
  have len: "length (doc_input ?d) = length (en_sink w1 @ tail_bytes root w1)"
    using framed framed2 root w1(2) tail_bytes_parts(1) [of w1 root] tail_bytes_parts(1) [of ?w2 root]
    by (simp add: the_document_def root_moved_sink framed_def)
  have offset: "doc_offset ?d i = Inr (off ?w2 (unat i))" if "unat i < unat (en_next w)" for i
    using framed2 that w1(2) fin len by (intro the_document_offset) (auto simp: the_document_def finished_def)
  have held: "holds_at ?d (off ?w2 i) b"
    if "i < unat (en_next w)" "located w1 i b" "apart w1 {..<unat (en_next w)} i b" "b \<noteq> []" for i b
  proof -
    have "located ?w2 i b"
      using root_moved_located [OF framed] root that w1(2) by simp
    then show ?thesis
      using fin len by (auto simp: finished_def located_def holds_at_def the_document_def usize_bound_def)
  qed
  have "holds_at ?d (off ?w2 (unat i)) (body w (unat i))" if i: "unat i < unat (en_next w)" "leaf w (unat i)" for i
  proof (rule held [OF i(1)])
    have "body_end w (unat i) \<le> length (en_sink w)"
      using ok i by (simp add: encoder_ok_def)
    then show "located w1 (unat i) (body w (unat i))" "body w (unat i) \<noteq> []"
      using leaf_located [OF fin i] i(2) by (auto simp: body_def leaf_def)
  qed (rule written_apart(1) [OF fin i])
  moreover have "holds_at ?d (off ?w2 (unat (col_object c)))
      (collection_bytes (integer_width (en_next w - 1)) (col_dictionary c) (children (the_edges w) es))"
    and "unat (col_object c) < unat (en_next w)"
    if c: "c \<in> set (closed w)" and es: "path (the_edges w) (col_first c) es" "length es = col_count c" for c es
  proof -
    show i: "unat (col_object c) < unat (en_next w)"
      using ok c by (auto simp: encoder_ok_def collection_ok_def)
    have "\<not> leaf w (unat (col_object c))" and distinct: "distinct (map col_object (closed w))"
      using ok c by (auto simp: encoder_ok_def collection_ok_def)
    then obtain b c' where c': "c' \<in> set (closed w)" "unat (col_object c') = unat (col_object c)"
        "apart w1 {..<unat (en_next w)} (unat (col_object c)) b"
        "collection_bytes_of (integer_width (en_next w - 1)) (en_edge_slots w) c' b"
      using written_apart(2) [OF fin i] by blast
    then have "c' = c"
      using distinct c by (auto simp: distinct_map inj_on_def word_unat_eq_iff)
    then have "apart w1 {..<unat (en_next w)} (unat (col_object c))
        (collection_bytes (integer_width (en_next w - 1)) (col_dictionary c) (children (the_edges w) es))"
      using c'(3,4) collection_bytes_unique [OF es] by simp
    then show "holds_at ?d (off ?w2 (unat (col_object c)))
        (collection_bytes (integer_width (en_next w - 1)) (col_dictionary c) (children (the_edges w) es))"
      by (intro held i collection_located [OF fin c es]) simp_all
  qed
  ultimately show "lays_out ?d w"
    using ok offset w1(2) unfolding lays_out_def by (auto simp: the_document_def)
  show "doc_offset ?d root = Inr 8"
    using offset [OF root] root_moved_off [OF framed, of "unat root" root] root w1(2) by simp
qed

end
