(* ===== verification/Plist_Scratch.thy ===== *)
theory Plist_Scratch
  imports Plist_Related Plist_Root_First
begin

text \<open>
  \<open>ScratchBuffers\<close> of \<open>core/catplay_plist/src/bplist/mod.rs\<close>: encoding into a buffer, with scratch that
  grows until the document fits, and \<open>CachingSerializer\<close>. What a failed attempt leaves in the
  scratch is the argument \<open>left\<close>, of which only the lengths matter; allocation does not fail.
\<close>

section \<open>Scratch\<close>

record scratch =
  sc_offsets :: "u64 list"
  sc_collections :: "collection list"
  sc_edges :: "ref_edge list"

text \<open>\<open>ScratchBuffers::default()\<close>.\<close>

definition empty_scratch :: scratch where
  "empty_scratch = \<lparr>sc_offsets = [], sc_collections = [], sc_edges = []\<rparr>"

text \<open>\<open>usize::checked_next_power_of_two\<close> and \<open>Vec::resize\<close>.\<close>

definition checked_next_power_of_two :: "usize \<Rightarrow> usize option" where
  "checked_next_power_of_two n = map_option (\<lambda>k. 2 ^ k) (List.find (\<lambda>k. n \<le> 2 ^ k) [0..<64])"

definition vec_resize :: "usize \<Rightarrow> 'a \<Rightarrow> 'a list \<Rightarrow> 'a list" where
  "vec_resize n x xs = take n xs @ replicate (n - length xs) x"

definition scratch_grow :: "scratch_kind \<Rightarrow> usize \<Rightarrow> scratch \<Rightarrow> 'e encode_error + scratch" where
  "scratch_grow kind needed s =
     (case checked_next_power_of_two needed of
        None \<Rightarrow> Inl Encode_Overflow
      | Some n \<Rightarrow>
          Inr (case kind of
             Offsets \<Rightarrow> s\<lparr>sc_offsets := vec_resize (max n (length (sc_offsets s))) 0 (sc_offsets s)\<rparr>
           | Collections \<Rightarrow>
               s\<lparr>sc_collections := vec_resize (max n (length (sc_collections s)))
                   \<lparr>col_object = 0, col_first = None, col_count = 0, col_dictionary = False\<rparr> (sc_collections s)\<rparr>
           | Edges \<Rightarrow>
               s\<lparr>sc_edges := vec_resize (max n (length (sc_edges s)))
                   \<lparr>edge_object = 0, edge_next = None\<rparr> (sc_edges s)\<rparr>))"

text \<open>An attempt over the scratch, and the scratch after it.\<close>

definition encode_with ::
    "('s, 'e) emitter \<Rightarrow> scratch \<Rightarrow> sdata \<Rightarrow> 's \<Rightarrow> 'e encode_failure ser_error + 's encoder" where
  "encode_with emit s v sink = encode emit (sc_offsets s) (sc_collections s) (sc_edges s) v sink"

definition scratch_of :: "'s encoder \<Rightarrow> scratch" where
  "scratch_of w = \<lparr>sc_offsets = en_offsets w, sc_collections = en_slots w, sc_edges = en_edge_slots w\<rparr>"

definition overwritten :: "'a list \<Rightarrow> 'a list \<Rightarrow> 'a list" where
  "overwritten new old = take (length old) new @ drop (length new) old"

definition spoiled :: "(scratch \<Rightarrow> scratch) \<Rightarrow> scratch \<Rightarrow> scratch" where
  "spoiled left s =
     \<lparr>sc_offsets = overwritten (sc_offsets (left s)) (sc_offsets s),
      sc_collections = overwritten (sc_collections (left s)) (sc_collections s),
      sc_edges = overwritten (sc_edges (left s)) (sc_edges s)\<rparr>"

primrec scratch_length :: "scratch \<Rightarrow> scratch_kind \<Rightarrow> usize" where
  "scratch_length s Offsets = length (sc_offsets s)"
| "scratch_length s Collections = length (sc_collections s)"
| "scratch_length s Edges = length (sc_edges s)"

section \<open>Growing\<close>

lemma next_power_Some:
  assumes "checked_next_power_of_two n = Some m"
  shows "n \<le> m" "m \<le> 2 ^ 63"
proof -
  obtain k where k: "List.find (\<lambda>k. n \<le> 2 ^ k) [0..<64] = Some k" "m = 2 ^ k"
    using assms by (auto simp: checked_next_power_of_two_def)
  then have "n \<le> 2 ^ k" "k < 64"
    by (auto simp: find_Some_iff)
  then show "n \<le> m" "m \<le> 2 ^ 63"
    using k(2) power_increasing [of k 63 "2 :: nat"] by simp_all
qed

lemma length_vec_resize [simp]: "length (vec_resize n x xs) = n"
  by (simp add: vec_resize_def)

lemma length_overwritten [simp]: "length (overwritten new old) = length old"
  by (simp add: overwritten_def)

lemma spoiled_length [simp]: "scratch_length (spoiled left s) kind = scratch_length s kind"
  by (cases kind) (simp_all add: spoiled_def)

lemma grow_length:
  assumes "scratch_grow kind needed s = Inr s'"
  shows "scratch_length s kind < needed \<Longrightarrow> scratch_length s kind < scratch_length s' kind \<and> scratch_length s kind < 2 ^ 63"
    and "kind' \<noteq> kind \<Longrightarrow> scratch_length s' kind' = scratch_length s kind'"
    and "scratch_length s' kind \<ge> needed"
proof -
  obtain n where n: "checked_next_power_of_two needed = Some n"
    using assms by (auto simp: scratch_grow_def split: option.splits)
  then show "scratch_length s kind < needed \<Longrightarrow> scratch_length s kind < scratch_length s' kind \<and> scratch_length s kind < 2 ^ 63"
    and "kind' \<noteq> kind \<Longrightarrow> scratch_length s' kind' = scratch_length s kind'"
    and "scratch_length s' kind \<ge> needed"
    using assms next_power_Some [OF n] by (cases kind; cases kind'; auto simp: scratch_grow_def)+
qed

text \<open>What is left to grow.\<close>

definition room_to_grow :: "scratch \<Rightarrow> nat" where
  "room_to_grow s = (2 ^ 63 - scratch_length s Offsets) + (2 ^ 63 - scratch_length s Collections) +
     (2 ^ 63 - scratch_length s Edges)"

lemma grow_decreases:
  assumes "scratch_grow kind needed (spoiled left s) = Inr s'" "scratch_length s kind < needed"
  shows "room_to_grow s' < room_to_grow s"
proof -
  note grown = grow_length [OF assms(1), unfolded spoiled_length]
  have here: "scratch_length s kind < scratch_length s' kind" "scratch_length s kind < 2 ^ 63"
    using grown(1) assms(2) by simp_all
  have others: "kind \<noteq> Offsets \<Longrightarrow> scratch_length s' Offsets = scratch_length s Offsets"
    "kind \<noteq> Collections \<Longrightarrow> scratch_length s' Collections = scratch_length s Collections"
    "kind \<noteq> Edges \<Longrightarrow> scratch_length s' Edges = scratch_length s Edges"
    using grown(2) by (simp_all del: scratch_length.simps)
  show ?thesis
    unfolding room_to_grow_def using here others
    by (cases kind) (simp_all del: scratch_length.simps)
qed

section \<open>The sinks\<close>

text \<open>The closure of \<open>measure\<close> counts; the flag is \<open>overflow\<close>.\<close>

definition count_emit :: "(usize \<times> bool, 'e) emitter" where
  "count_emit chunk sink =
     (case checked_add (fst sink) (length chunk) of
        Some n \<Rightarrow> Inr (n, snd sink)
      | None \<Rightarrow> Inr (fst sink, True))"

interpretation counted: related_sink count_emit "\<lambda>s t. t = (length s, False)" L for L
  by unfold_locales (simp add: count_emit_def checked_add_def usize_bound_def)

lemma too_small_grows:
  assumes "encode_with vec_emit s v front = (Inl (Ser_Core (Encode_Err (Scratch_Too_Small kind n m))) :: 'e encode_failure ser_error + _)
    \<or> encode_with count_emit s v (0, False) = (Inl (Ser_Core (Encode_Err (Scratch_Too_Small kind n m))) :: 'e encode_failure ser_error + _)"
    and grown: "scratch_grow kind n (spoiled left s) = Inr s'"
  shows "room_to_grow s' < room_to_grow s"
proof (rule grow_decreases [OF grown])
  have "honest (scratch_length s) (Encode_Err (Scratch_Too_Small kind n m) :: 'e encode_failure)"
    using assms(1)
  proof
    assume "encode_with vec_emit s v front = (Inl (Ser_Core (Encode_Err (Scratch_Too_Small kind n m))) :: 'e encode_failure ser_error + _)"
    then show ?thesis
      unfolding encode_with_def by (rule behind.encode_honest [rotated -1]) simp_all
  next
    assume "encode_with count_emit s v (0, False) = (Inl (Ser_Core (Encode_Err (Scratch_Too_Small kind n m))) :: 'e encode_failure ser_error + _)"
    then show ?thesis
      unfolding encode_with_def by (rule counted.encode_honest [rotated -1]) simp_all
  qed
  then show "scratch_length s kind < n"
    by simp
qed

section \<open>Encoding\<close>

function scratch_measure ::
    "(scratch \<Rightarrow> scratch) \<Rightarrow> sdata \<Rightarrow> scratch \<Rightarrow> ('e encode_failure ser_error plist_error + usize) \<times> scratch" where
  "scratch_measure left v s =
     (case encode_with count_emit s v (0, False) of
        Inr w \<Rightarrow>
          (if \<not> snd (en_sink w) then Inr (fst (en_sink w)) else Inl Unexpected_State, scratch_of w)
      | Inl e \<Rightarrow>
          (case e of
             Ser_Core (Encode_Err (Scratch_Too_Small kind needed _)) \<Rightarrow>
               (case scratch_grow kind needed (spoiled left s) :: 'e encode_error + scratch of
                  Inl _ \<Rightarrow> (Inl Unexpected_State, spoiled left s)
                | Inr s \<Rightarrow> scratch_measure left v s)
           | _ \<Rightarrow> (Inl (Plist_Encode e), spoiled left s)))"
  by pat_completeness auto
termination
  by (relation "measure (\<lambda>(left, v, s). room_to_grow s)") (auto intro: too_small_grows)

text \<open>\<open>encode_into\<close>: the result, \<open>dst\<close> and the scratch.\<close>

definition encode_into ::
    "(scratch \<Rightarrow> scratch) \<Rightarrow> sdata \<Rightarrow> u8 list \<Rightarrow> scratch \<Rightarrow>
     ('e encode_failure ser_error plist_error + unit) \<times> u8 list \<times> scratch" where
  "encode_into left v dst s =
     (case scratch_measure left v s of
        (Inl e, s) \<Rightarrow> (Inl e, dst, s)
      | (Inr encoded_size, s) \<Rightarrow>
          (case encode_with vec_emit s v dst of
             Inr w \<Rightarrow>
               if length (en_sink w) - length dst = encoded_size then
                 (let (r, data) = make_root_first (drop (length dst) (en_sink w))
                  in (r, take (length dst) (en_sink w) @ data, scratch_of w))
               else (Inl Unexpected_State, take (length dst) (en_sink w), scratch_of w)
           | Inl e \<Rightarrow> (Inl (Plist_Encode e), dst, spoiled left s)))"

text \<open>\<open>encode_into_reusing_capacity\<close>.\<close>

function encode_reusing ::
    "(scratch \<Rightarrow> scratch) \<Rightarrow> sdata \<Rightarrow> u8 list \<Rightarrow> scratch \<Rightarrow>
     ('e encode_failure ser_error plist_error + unit) \<times> u8 list \<times> scratch" where
  "encode_reusing left v dst s =
     (case encode_with vec_emit s v dst of
        Inr w \<Rightarrow>
          (let (r, data) = make_root_first (drop (length dst) (en_sink w))
           in (r, take (length dst) (en_sink w) @ data, scratch_of w))
      | Inl e \<Rightarrow>
          (case e of
             Ser_Core (Encode_Err (Scratch_Too_Small kind needed _)) \<Rightarrow>
               (case scratch_grow kind needed (spoiled left s) :: 'e encode_error + scratch of
                  Inl _ \<Rightarrow> (Inl Unexpected_State, dst, spoiled left s)
                | Inr s \<Rightarrow> encode_reusing left v dst s)
           | _ \<Rightarrow> (Inl (Plist_Encode e), dst, spoiled left s)))"
  by pat_completeness auto
termination
  by (relation "measure (\<lambda>(left, v, dst, s). room_to_grow s)") (auto intro: too_small_grows)

declare scratch_measure.simps [simp del] encode_reusing.simps [simp del]

text \<open>\<open>PlistSerializable::pencode\<close>.\<close>

definition pencode :: "(scratch \<Rightarrow> scratch) \<Rightarrow> sdata \<Rightarrow> 'e encode_failure ser_error plist_error + u8 list" where
  "pencode left v =
     (case encode_into left v [] empty_scratch of
        (Inl e, _) \<Rightarrow> Inl e
      | (Inr _, buf, _) \<Rightarrow> Inr buf)"

section \<open>Decoding a buffer\<close>

text \<open>The message of \<open>PlistError::Decode\<close>, as what it is made of.\<close>

datatype 'x decode_cause = Cause_Format de_error | Cause_Xml 'x | Cause_Unsupported

definition is_ascii_whitespace :: "u8 \<Rightarrow> bool" where
  "is_ascii_whitespace b \<longleftrightarrow> b \<in> {0x20, 0x09, 0x0A, 0x0C, 0x0D}"

definition starts_like_xml :: "u8 list \<Rightarrow> bool" where
  "starts_like_xml data \<longleftrightarrow> List.find (\<lambda>b. \<not> is_ascii_whitespace b) data = Some 0x3C"

text \<open>\<open>from_bytes::<Value>\<close>; the reader of XML is the argument \<open>xml\<close>.\<close>

definition from_bytes ::
    "outside \<Rightarrow> (u8 list \<Rightarrow> 'x + pvalue) \<Rightarrow> u8 list \<Rightarrow> 'x decode_cause plist_error + pvalue" where
  "from_bytes x xml data =
     (if data = [] then Inl Plist_Empty
      else if take 8 data = HEADER then map_sum (\<lambda>e. Plist_Decode (Cause_Format e)) id (from_slice x data)
      else if starts_like_xml data \<or> (take 3 data = [0xEF, 0xBB, 0xBF] \<and> starts_like_xml (drop 3 data))
      then map_sum (\<lambda>e. Plist_Decode (Cause_Xml e)) id (xml data)
      else Inl (Plist_Decode Cause_Unsupported))"

section \<open>The caching serializer\<close>

record caching_serializer =
  ca_buf :: "u8 list"
  ca_size :: usize
  ca_scratch :: scratch

definition caching_new :: "usize \<Rightarrow> caching_serializer" where
  "caching_new cache_size = \<lparr>ca_buf = [], ca_size = cache_size, ca_scratch = empty_scratch\<rparr>"

definition caching_reclaim :: "u8 list \<Rightarrow> caching_serializer \<Rightarrow> caching_serializer" where
  "caching_reclaim buf c = c\<lparr>ca_buf := []\<rparr>"

text \<open>\<open>reserve\<close> changes no contents; \<open>split_off(0)\<close> takes all of them.\<close>

definition caching_serialize ::
    "(scratch \<Rightarrow> scratch) \<Rightarrow> sdata \<Rightarrow> caching_serializer \<Rightarrow>
     ('e encode_failure ser_error plist_error + u8 list) \<times> caching_serializer" where
  "caching_serialize left v c =
     (let out = ca_buf c; c = c\<lparr>ca_buf := []\<rparr>
      in case encode_reusing left v out (ca_scratch c) of
           (Inl e, out, s) \<Rightarrow> (Inl e, caching_reclaim out (c\<lparr>ca_scratch := s\<rparr>))
         | (Inr _, out, s) \<Rightarrow> (Inr out, c\<lparr>ca_scratch := s\<rparr>))"

definition caching_deserialize :: "outside \<Rightarrow> u8 list \<Rightarrow> de_error plist_error + pvalue" where
  "caching_deserialize x data =
     (if data = [] then Inl Plist_Empty else map_sum Plist_Decode id (from_slice x data))"

section \<open>What a document holds\<close>

text \<open>\<open>doc\<close> is a document of \<open>v\<close>: its root lies at byte 8, and reading it gives what \<open>to_value\<close> makes of \<open>v\<close>,
  unless the tree \<open>v\<close> builds is deeper than the reader follows.\<close>

definition document_of :: "sdata \<Rightarrow> outside \<Rightarrow> u8 list \<Rightarrow> bool" where
  "document_of v x doc \<longleftrightarrow>
     take 8 doc = HEADER \<and>
     (\<exists>d. document_parse doc = Inr d \<and> doc_offset d (doc_root d) = Inr 8) \<and>
     (\<exists>tree. to_tree v = (Inr tree :: unit ser_error + pvalue) \<and>
        to_value v = (Inr (settle tree) :: unit ser_error + pvalue) \<and>
        from_slice x doc = limited (height tree < MAX_DEPTH) (settle tree))"

text \<open>Errors are the client's own, or there was no more room: for the document in 64 bits of offsets,
  or for a buffer of the scratch.\<close>

definition failed_for :: "sdata \<Rightarrow> 'e encode_failure ser_error plist_error \<Rightarrow> scratch \<Rightarrow> bool" where
  "failed_for v e s \<longleftrightarrow>
     (\<exists>e'. e = Plist_Encode e' \<and> (to_value v = Inl e' \<or> e' = Ser_Core (Encode_Err Encode_Overflow))) \<or>
     e = Unexpected_State \<and> (\<exists>kind. 2 ^ 63 \<le> scratch_length s kind)"

text \<open>The tree does not depend on what other errors there could be.\<close>

interpretation trees: related_builders "tree_builder :: (unit, pvalue, value_collection, 'e) builder"
  "tree_builder :: (unit, pvalue, value_collection, 'f) builder" "\<lambda>_ _. True" "\<lambda>_ _. False"
  by unfold_locales (auto simp: tree_child_def value_end_def split: value_collection.splits option.splits pvalue.splits)

lemma to_tree_any: "(to_tree v :: 'e ser_error + pvalue) = Inr tree \<Longrightarrow> (to_tree v :: 'f ser_error + pvalue) = Inr tree"
proof -
  have "trees.same (serialize_root tree_builder v () :: 'e ser_error + pvalue \<times> unit)
      (serialize_root tree_builder v () :: 'f ser_error + pvalue \<times> unit)"
    by (rule trees.root_alike) simp
  then show "(to_tree v :: 'e ser_error + pvalue) = Inr tree \<Longrightarrow> (to_tree v :: 'f ser_error + pvalue) = Inr tree"
    by (auto simp: to_tree_def trees.same_def rel_sum.simps)
qed

lemma to_tree_client:
  assumes "(to_tree v :: 'e ser_error + pvalue) = Inl e"
  shows "e = Missing_Value \<or> e = Invalid_Map"
proof -
  have "trees.same (serialize_root tree_builder v () :: 'e ser_error + pvalue \<times> unit)
      (serialize_root tree_builder v () :: 'e ser_error + pvalue \<times> unit)"
    by (rule trees.root_alike) simp
  then show ?thesis
    using assms by (cases e) (auto simp: to_tree_def trees.same_def rel_sum.simps elim: ser_error.rel_cases)
qed

section \<open>Attempts\<close>

lemma moved_document:
  assumes fin: "finished w root w1" and root: "unat root < unat (en_next w)" and tree: "stands_for w root tree"
    and v: "sdata_ok v" "to_tree v = (Inr tree :: 'e ser_error + pvalue)"
  shows "\<exists>doc. make_root_first (en_sink w1 @ tail_bytes root w1) = (Inr () :: 'f plist_error + unit, doc) \<and>
    document_of v x doc \<and> length doc = length (en_sink w1 @ tail_bytes root w1)"
proof -
  let ?w2 = "root_moved root w1" and ?doc = "en_sink (root_moved root w1) @ tail_bytes root (root_moved root w1)"
  have framed: "framed w1" and next1: "en_next w1 = en_next w"
    and small: "length (en_sink w1 @ tail_bytes root w1) < 2 ^ 64"
    using finished_framed [OF fin] fin by (auto simp: finished_def)
  then have framed2: "framed ?w2"
    using root by (simp add: root_moved_framed)
  have len: "length ?doc = length (en_sink w1 @ tail_bytes root w1)"
    using framed framed2 root next1 tail_bytes_parts(1) [of w1 root] tail_bytes_parts(1) [of ?w2 root]
    by (simp add: root_moved_sink framed_def)
  have parsed: "document_parse ?doc = Inr (the_document ?w2 root)"
    using framed2 root next1 small len by (intro parse_framed) simp_all
  have "from_slice x ?doc = limited (height tree < MAX_DEPTH) (settle tree)"
    using tree by (intro from_slice_lays_out [OF parsed root_moved_lays_out(1) [OF fin root]]) (simp add: the_document_def)
  moreover have "doc_offset (the_document ?w2 root) (doc_root (the_document ?w2 root)) = Inr 8"
    using root_moved_lays_out(2) [OF fin root] by (simp add: the_document_def)
  moreover have "take 8 ?doc = HEADER"
    using framed2 by (simp add: framed_def)
  moreover have built: "to_tree v = (Inr tree :: unit ser_error + pvalue)"
    by (rule to_tree_any [OF v(2)])
  then have "to_value v = (Inr (settle tree) :: unit ser_error + pvalue)"
    using to_value_settles [OF v(1), where 'e = unit] by simp
  ultimately have "document_of v x ?doc"
    using parsed built unfolding document_of_def by blast
  moreover have "make_root_first (en_sink w1 @ tail_bytes root w1) = (Inr () :: 'f plist_error + unit, ?doc)"
    using framed root next1 small by (intro make_root_first_framed) simp_all
  ultimately show ?thesis
    using len by blast
qed

lemma attempt_result:
  assumes v: "sdata_ok v"
  shows "case (encode_with vec_emit s v dst :: 'e encode_failure ser_error + u8 list encoder) of
      Inl e \<Rightarrow> to_tree v = Inl e \<or> e = Ser_Core (Encode_Err Encode_Overflow) \<or>
        (\<exists>kind. e = Ser_Core (Encode_Err (Scratch_Too_Small kind (Suc (scratch_length s kind)) (scratch_length s kind))))
    | Inr w \<Rightarrow> take (length dst) (en_sink w) = dst \<and>
        (\<exists>doc. make_root_first (drop (length dst) (en_sink w)) = (Inr () :: 'f plist_error + unit, doc) \<and> document_of v x doc)"
proof -
  let ?run = "encode_with vec_emit s v [] :: 'e encode_failure ser_error + u8 list encoder"
  have "rel_sum (rel_ser_error (behind.E (scratch_length s))) (behind.R dst (scratch_length s)) ?run (encode_with vec_emit s v dst)"
    unfolding encode_with_def by (intro behind.encode_alike v) simp_all
  then show ?thesis
  proof (cases rule: rel_sum.cases)
    case (1 e e')
    have "to_tree v = Inl e \<or> (\<exists>e'. e = Ser_Core e' \<and> capacity_error e')"
      using encode_finished [OF v, of "sc_offsets s" "sc_collections s" "sc_edges s", where 'e = 'e] 1(1)
      by (simp add: encode_with_def)
    then show ?thesis
      using 1 by (cases e; cases e') (auto simp: behind.E_def capacity_error_def)
  next
    case (2 w0 w)
    then obtain w1 w2 root tree where "to_tree v = (Inr tree :: 'e encode_failure ser_error + pvalue)"
        "finished w1 root w2" "unat root < unat (en_next w1)" "stands_for w1 root tree" "en_sink w0 = en_sink w2 @ tail_bytes root w2"
      using encode_finished [OF v, of "sc_offsets s" "sc_collections s" "sc_edges s", where 'e = 'e]
      by (auto simp: encode_with_def)
    moreover have "en_sink w = dst @ en_sink w0"
      using 2(3) by (simp add: behind.R_def)
    ultimately show ?thesis
      using 2(2) moved_document [of w1 root w2 tree v x] v by auto
  qed
qed

lemma grow_fails:
  assumes "scratch_grow kind (Suc (scratch_length s kind)) (spoiled left s) = Inl e"
  shows "2 ^ 63 \<le> scratch_length s kind"
proof -
  have "List.find (\<lambda>k. Suc (scratch_length s kind) \<le> 2 ^ k) [0..<64] = None"
    using assms by (auto simp: scratch_grow_def checked_next_power_of_two_def split: option.splits)
  then have "\<forall>k < 64. \<not> Suc (scratch_length s kind) \<le> 2 ^ k"
    by (auto simp: find_None_iff)
  from this [rule_format, of 63] show ?thesis
    by simp
qed

lemma failed_spoiled [simp]: "failed_for v e (spoiled left s) \<longleftrightarrow> failed_for v e s"
  by (simp add: failed_for_def)

lemma reusing_result:
  assumes v: "sdata_ok v"
  shows "case (encode_reusing left v dst s :: ('e encode_failure ser_error plist_error + unit) \<times> u8 list \<times> scratch) of
      (Inr _, out, s') \<Rightarrow> \<exists>doc. out = dst @ doc \<and> document_of v x doc
    | (Inl e, out, s') \<Rightarrow> out = dst \<and> failed_for v e s'"
  using v
proof (induction left v dst s rule: encode_reusing.induct [where 'a = 'e])
  case (1 left v dst s)
  note result = attempt_result [OF "1.prems", of s dst x, where 'e = 'e and 'f = "'e encode_failure ser_error"]
  show ?case
  proof (cases "encode_with vec_emit s v dst :: 'e encode_failure ser_error + u8 list encoder")
    case (Inr w)
    then obtain doc where "make_root_first (drop (length dst) (en_sink w)) = (Inr () :: 'e encode_failure ser_error plist_error + unit, doc)"
        "document_of v x doc" "take (length dst) (en_sink w) = dst"
      using result by auto
    then show ?thesis
      using Inr by (simp add: encode_reusing.simps [of left v dst s])
  next
    case (Inl e)
    show ?thesis
    proof (cases "\<exists>kind. e = Ser_Core (Encode_Err (Scratch_Too_Small kind (Suc (scratch_length s kind)) (scratch_length s kind)))")
      case True
      then obtain kind where e: "e = Ser_Core (Encode_Err (Scratch_Too_Small kind (Suc (scratch_length s kind)) (scratch_length s kind)))"
        by blast
      show ?thesis
      proof (cases "scratch_grow kind (Suc (scratch_length s kind)) (spoiled left s) :: 'e encode_error + scratch")
        case (Inl f)
        then show ?thesis
          using \<open>encode_with vec_emit s v dst = Inl e\<close> e grow_fails [OF Inl]
          by (auto simp: encode_reusing.simps [of left v dst s] failed_for_def simp del: scratch_length.simps)
      next
        case (Inr s')
        have "encode_reusing left v dst s = (encode_reusing left v dst s' :: ('e encode_failure ser_error plist_error + unit) \<times> u8 list \<times> scratch)"
          using \<open>encode_with vec_emit s v dst = Inl e\<close> e Inr by (simp add: encode_reusing.simps [of left v dst s])
        then show ?thesis
          using "1.IH" [OF Inl e _ _ Inr] "1.prems" by simp
      qed
    next
      case False
      then have "to_tree v = Inl e \<or> e = Ser_Core (Encode_Err Encode_Overflow)"
        using result Inl by auto
      moreover have "encode_reusing left v dst s = (Inl (Plist_Encode e) :: 'e encode_failure ser_error plist_error + unit, dst, spoiled left s)"
        using Inl calculation to_tree_client [of v e]
        by (auto simp: encode_reusing.simps [of left v dst s])
      ultimately show ?thesis
        using to_value_settles [OF "1.prems", where 'e = "'e encode_failure"] by (auto simp: failed_for_def)
    qed
  qed
qed

text \<open>Measuring finds the length of the document, over scratch that suffices.\<close>

lemma counted_attempt:
  assumes v: "sdata_ok v"
  shows "case (encode_with count_emit s v (0, False) :: 'e encode_failure ser_error + (usize \<times> bool) encoder) of
      Inl e \<Rightarrow> to_tree v = Inl e \<or> e = Ser_Core (Encode_Err Encode_Overflow) \<or>
        (\<exists>kind. e = Ser_Core (Encode_Err (Scratch_Too_Small kind (Suc (scratch_length s kind)) (scratch_length s kind))))
    | Inr w \<Rightarrow> \<not> snd (en_sink w) \<and> (\<exists>w0. encode_with vec_emit (scratch_of w) v [] =
          (Inr w0 :: 'e encode_failure ser_error + u8 list encoder) \<and> length (en_sink w0) = fst (en_sink w))"
proof -
  let ?count = "encode_with count_emit s v (0, False) :: 'e encode_failure ser_error + (usize \<times> bool) encoder"
  have related: "rel_sum (rel_ser_error (counted.E (scratch_length s))) (counted.R (scratch_length s))
      (encode_with vec_emit s' v []) ?count" if "scratch_length s' = scratch_length s" for s'
  proof -
    have "length (sc_offsets s') = scratch_length s Offsets" "length (sc_collections s') = scratch_length s Collections"
      "length (sc_edges s') = scratch_length s Edges"
      unfolding that [symmetric] by simp_all
    then show ?thesis
      unfolding encode_with_def by (intro counted.encode_alike v) simp_all
  qed
  from related [OF refl] show ?thesis
  proof (cases rule: rel_sum.cases)
    case (1 e e')
    have "to_tree v = Inl e \<or> (\<exists>e'. e = Ser_Core e' \<and> capacity_error e')"
      using encode_finished [OF v, of "sc_offsets s" "sc_collections s" "sc_edges s", where 'e = 'e] 1(1)
      by (simp add: encode_with_def)
    then show ?thesis
      using 1 by (cases e; cases e') (auto simp: counted.E_def capacity_error_def)
  next
    case (2 w0 w)
    then have "counted.R (scratch_length s) w0 w"
      by simp
    then have "scratch_length (scratch_of w) kind = scratch_length s kind" for kind
      using counted.R_length [of "scratch_length s" w0 w] by (cases kind) (simp_all add: scratch_of_def)
    then have "scratch_length (scratch_of w) = scratch_length s"
      by (intro ext)
    from related [OF this] 2(2) obtain w1 where "encode_with vec_emit (scratch_of w) v [] =
        (Inr w1 :: 'e encode_failure ser_error + u8 list encoder)" "counted.R (scratch_length s) w1 w"
      by (auto simp: rel_sum.simps)
    then show ?thesis
      using 2(2) by (auto simp: counted.R_def)
  qed
qed

lemma measure_result:
  assumes v: "sdata_ok v"
  shows "case (scratch_measure left v s :: ('e encode_failure ser_error plist_error + usize) \<times> scratch) of
      (Inr n, s') \<Rightarrow> \<exists>w. encode_with vec_emit s' v [] = (Inr w :: 'e encode_failure ser_error + u8 list encoder) \<and>
        length (en_sink w) = n
    | (Inl e, s') \<Rightarrow> failed_for v e s'"
  using v
proof (induction left v s rule: scratch_measure.induct [where 'a = 'e])
  case (1 left v s)
  note result = counted_attempt [OF "1.prems", of s, where 'e = 'e]
  show ?case
  proof (cases "encode_with count_emit s v (0, False) :: 'e encode_failure ser_error + (usize \<times> bool) encoder")
    case (Inr w)
    then show ?thesis
      using result by (simp add: scratch_measure.simps [of left v s])
  next
    case (Inl e)
    show ?thesis
    proof (cases "\<exists>kind. e = Ser_Core (Encode_Err (Scratch_Too_Small kind (Suc (scratch_length s kind)) (scratch_length s kind)))")
      case True
      then obtain kind where e: "e = Ser_Core (Encode_Err (Scratch_Too_Small kind (Suc (scratch_length s kind)) (scratch_length s kind)))"
        by blast
      show ?thesis
      proof (cases "scratch_grow kind (Suc (scratch_length s kind)) (spoiled left s) :: 'e encode_error + scratch")
        case (Inl f)
        then show ?thesis
          using \<open>encode_with count_emit s v (0, False) = Inl e\<close> e grow_fails [OF Inl]
          by (auto simp: scratch_measure.simps [of left v s] failed_for_def simp del: scratch_length.simps)
      next
        case (Inr s')
        have "scratch_measure left v s = (scratch_measure left v s' :: ('e encode_failure ser_error plist_error + usize) \<times> scratch)"
          using \<open>encode_with count_emit s v (0, False) = Inl e\<close> e Inr by (simp add: scratch_measure.simps [of left v s])
        then show ?thesis
          using "1.IH" [OF Inl e _ _ Inr] "1.prems" by simp
      qed
    next
      case False
      then have "to_tree v = Inl e \<or> e = Ser_Core (Encode_Err Encode_Overflow)"
        using result Inl by auto
      moreover have "scratch_measure left v s = (Inl (Plist_Encode e) :: 'e encode_failure ser_error plist_error + usize, spoiled left s)"
        using Inl calculation to_tree_client [of v e]
        by (auto simp: scratch_measure.simps [of left v s])
      ultimately show ?thesis
        using to_value_settles [OF "1.prems", where 'e = "'e encode_failure"] by (auto simp: failed_for_def)
    qed
  qed
qed

lemma attempt_behind:
  assumes "sdata_ok v" "encode_with vec_emit s v [] = (Inr w0 :: 'e encode_failure ser_error + u8 list encoder)"
  shows "\<exists>w. encode_with vec_emit s v dst = (Inr w :: 'e encode_failure ser_error + u8 list encoder) \<and> en_sink w = dst @ en_sink w0"
proof -
  have "rel_sum (rel_ser_error (behind.E (scratch_length s))) (behind.R dst (scratch_length s))
      (encode_with vec_emit s v [] :: 'e encode_failure ser_error + u8 list encoder) (encode_with vec_emit s v dst)"
    unfolding encode_with_def by (intro behind.encode_alike assms(1)) simp_all
  then show ?thesis
    using assms(2) by (auto simp: rel_sum.simps behind.R_def)
qed

lemma into_result:
  assumes v: "sdata_ok v"
  shows "case (encode_into left v dst s :: ('e encode_failure ser_error plist_error + unit) \<times> u8 list \<times> scratch) of
      (Inr _, out, s') \<Rightarrow> \<exists>doc. out = dst @ doc \<and> document_of v x doc
    | (Inl e, out, s') \<Rightarrow> out = dst \<and> failed_for v e s'"
proof (cases "fst (scratch_measure left v s :: ('e encode_failure ser_error plist_error + usize) \<times> scratch)")
  case (Inl e)
  then show ?thesis
    using measure_result [OF v, of left s, where 'e = 'e] by (auto simp: encode_into_def split: prod.splits)
next
  case (Inr n)
  then obtain s' w0 where s': "scratch_measure left v s = (Inr n :: 'e encode_failure ser_error plist_error + usize, s')"
      "encode_with vec_emit s' v [] = (Inr w0 :: 'e encode_failure ser_error + u8 list encoder)" "length (en_sink w0) = n"
    using measure_result [OF v, of left s, where 'e = 'e] by (cases "scratch_measure left v s :: ('e encode_failure ser_error plist_error + usize) \<times> scratch") auto
  then obtain w where w: "encode_with vec_emit s' v dst = (Inr w :: 'e encode_failure ser_error + u8 list encoder)"
      "en_sink w = dst @ en_sink w0"
    using attempt_behind [OF v, of s' w0 dst] by blast
  then obtain doc where "make_root_first (en_sink w0) = (Inr () :: 'e encode_failure ser_error plist_error + unit, doc)"
      "document_of v x doc"
    using attempt_result [OF v, of s' dst x, where 'e = 'e and 'f = "'e encode_failure ser_error"] by auto
  then show ?thesis
    using s' w by (simp add: encode_into_def)
qed

end
