(* ===== verification/Plist_Success.thy ===== *)
theory Plist_Success
  imports Plist_Scratch
begin

text \<open>
  Writing a \<open>Value\<close> of bounded size succeeds: what each operation of the encoder can add to its counters and
  to its position, so that neither overflows, and no scratch is asked for that could not be made.
\<close>

section \<open>What an operation spends\<close>

definition load :: "'s encoder \<Rightarrow> nat" where
  "load w = unat (en_position w) + unat (en_next w) + en_open w + en_edges w + en_collections w"

text \<open>No collection that was closed has more children than there are edges.\<close>

definition modest :: "'s encoder \<Rightarrow> bool" where
  "modest w \<longleftrightarrow> (\<forall>c \<in> set (take (en_collections w) (en_slots w)). col_count c \<le> en_edges w)"

text \<open>An overflow only beyond 64 bits, no more scratch than \<open>b\<close>.\<close>

definition frugal :: "nat \<Rightarrow> 'e encode_failure \<Rightarrow> bool" where
  "frugal b e \<longleftrightarrow>
     (case e of
        Encode_Err Encode_Overflow \<Rightarrow> 2 ^ 64 \<le> b
      | Encode_Err (Scratch_Too_Small kind n m) \<Rightarrow> n \<le> b
      | _ \<Rightarrow> True)"

lemma frugal_simps [simp]:
  "frugal b (Encode_Err Encode_Overflow) \<longleftrightarrow> 2 ^ 64 \<le> b"
  "frugal b (Encode_Err (Scratch_Too_Small kind n m)) \<longleftrightarrow> n \<le> b"
  "frugal b (Encode_Err (Emit_Error e))"
  "frugal b (Encode_Err Invalid_Collection)"
  "frugal b (Encode_Panic p)"
  by (simp_all add: frugal_def)

lemma frugal_mono: "frugal a e \<Longrightarrow> a \<le> b \<Longrightarrow> frugal b e"
  by (auto simp: frugal_def split: encode_failure.splits encode_error.splits)

definition after :: "'s encoder \<Rightarrow> nat \<Rightarrow> 's encoder \<Rightarrow> bool" where
  "after w k w' \<longleftrightarrow> load w' \<le> load w + k \<and> en_edges w \<le> en_edges w' \<and> (modest w \<longrightarrow> modest w')"

lemma after_trans: "after w k w' \<Longrightarrow> after w' l w'' \<Longrightarrow> k + l \<le> n \<Longrightarrow> after w n w''"
  by (auto simp: after_def)

text \<open>The same for the methods that only write, which leave the counters and the collections alone.\<close>

definition writes :: "'s encoder \<Rightarrow> nat \<Rightarrow> 'e encode_failure + 's encoder \<Rightarrow> bool" where
  "writes w k r \<longleftrightarrow>
     (case r of
        Inl e \<Rightarrow> frugal (load w + k) e
      | Inr w' \<Rightarrow> load w' \<le> load w + k \<and> en_next w' = en_next w \<and> en_edges w' = en_edges w \<and>
          en_collections w' = en_collections w \<and> en_slots w' = en_slots w)"

definition spends ::
    "('a \<Rightarrow> 's encoder \<Rightarrow> bool) \<Rightarrow> 's encoder \<Rightarrow> nat \<Rightarrow> 'e encode_failure + 'a \<times> 's encoder \<Rightarrow> bool" where
  "spends P w k r \<longleftrightarrow>
     (case r of
        Inl e \<Rightarrow> frugal (load w + k) e
      | Inr (x, w') \<Rightarrow> after w k w' \<and> P x w')"

definition spent ::
    "('a \<Rightarrow> 's encoder \<Rightarrow> bool) \<Rightarrow> 's encoder \<Rightarrow> nat \<Rightarrow> 'e encode_failure ser_error + 'a \<times> 's encoder \<Rightarrow> bool" where
  "spent P w k r \<longleftrightarrow>
     (case r of
        Inl (Ser_Core e) \<Rightarrow> frugal (load w + k) e
      | Inl _ \<Rightarrow> True
      | Inr (x, w') \<Rightarrow> after w k w' \<and> P x w')"

lemma writes_Inr [simp]: "writes w k (Inr w)"
  by (simp add: writes_def)

lemma writes_bind:
  assumes "writes w k m" and "\<And>w'. m = Inr w' \<Longrightarrow> en_edges w' = en_edges w \<Longrightarrow> en_slots w' = en_slots w \<Longrightarrow> writes w' l (f w')"
    and "k + l \<le> n"
  shows "writes w n (sum_bind m f)"
proof (cases m)
  case (Inl e)
  then show ?thesis
    using assms(1,3) by (auto simp: writes_def elim: frugal_mono)
next
  case (Inr w')
  then show ?thesis
    using assms by (auto simp: writes_def elim!: frugal_mono split: sum.splits)
qed

lemma writes_mono: "writes w k m \<Longrightarrow> k \<le> n \<Longrightarrow> writes w n m"
  by (auto simp: writes_def split: sum.splits elim: frugal_mono)

lemma writes_spends:
  assumes "writes w k m"
  shows "spends (\<lambda>_ _. True) w k (sum_bind m (\<lambda>w. Inr (x, w)))"
  using assms by (auto simp: writes_def spends_def after_def modest_def split: sum.splits)

lemma spends_bind:
  assumes "spends P w k m" and "\<And>x w'. m = Inr (x, w') \<Longrightarrow> P x w' \<Longrightarrow> spends Q w' l (f x w')" and "k + l \<le> n"
  shows "spends Q w n (sum_bind m (\<lambda>(x, w). f x w))"
proof (cases m)
  case (Inl e)
  then show ?thesis
    using assms(1,3) by (auto simp: spends_def elim: frugal_mono)
next
  case (Inr r)
  then obtain x w' where m: "m = Inr (x, w')"
    by (cases r) auto
  then have step: "after w k w'" "spends Q w' l (f x w')"
    using assms(1,2) by (auto simp: spends_def)
  then show ?thesis
    using assms(3) m
    by (auto simp: spends_def split: sum.splits intro: after_trans elim!: frugal_mono) (simp add: after_def)
qed

lemma spent_core: "spends P w k m \<Longrightarrow> spent P w k (into_core m)"
  by (auto simp: spent_def spends_def into_core_def split: sum.splits)

lemma spent_bind:
  assumes "spent P w k m"
    and "\<And>x w'. m = Inr (x, w') \<Longrightarrow> P x w' \<Longrightarrow> en_edges w \<le> en_edges w' \<Longrightarrow> spent Q w' l (f x w')" and "k + l \<le> n"
  shows "spent Q w n (bind_item m f)"
proof (cases m)
  case (Inl e)
  then show ?thesis
    using assms(1,3) by (cases e) (auto simp: spent_def bind_item_def elim: frugal_mono)
next
  case (Inr r)
  then obtain x w' where m: "m = Inr (x, w')"
    by (cases r) auto
  then have step: "after w k w'" "spent Q w' l (f x w')"
    using assms(1,2) by (auto simp: spent_def after_def)
  then have "load w' + l \<le> load w + n"
    using assms(3) by (simp add: after_def)
  then show ?thesis
    using step assms(3) m
    by (auto simp: spent_def bind_item_def split: sum.splits ser_error.splits intro: after_trans elim!: frugal_mono)
qed

lemma spent_mono: "spent P w k m \<Longrightarrow> k \<le> n \<Longrightarrow> spent P w n m"
  by (auto simp: spent_def after_def split: sum.splits ser_error.splits elim!: frugal_mono)

section \<open>Writing\<close>

lemma write_writes: "writes w (length bytes) (en_write emit bytes w)"
proof (cases "unat (en_position w) + length bytes < 2 ^ 64")
  case True
  then have "unat (en_position w + of_nat (length bytes)) = unat (en_position w) + length bytes"
    by (simp add: unat_word_ariths unat_of_nat)
  then show ?thesis
    using True by (simp add: en_write_def writes_def load_def split: sum.split)
next
  case False
  then show ?thesis
    by (simp add: en_write_def writes_def load_def)
qed

lemma sized_writes: "writes w 10 (en_sized emit kind n w)"
proof (cases "n < 15")
  case True
  then show ?thesis
    using writes_mono [OF write_writes, of "[kind OR of_nat n]" 10] by (simp add: en_sized_def)
next
  case False
  let ?len = "of_nat n :: u64"
  have tail: "writes w 8 (en_write emit (be_tail (integer_width ?len) ?len) w)" for w :: "'a encoder"
    by (rule writes_mono [OF write_writes]) (simp add: integer_width_le)
  have byte: "writes w 1 (en_write emit [b] w)" for b and w :: "'a encoder"
    by (rule writes_mono [OF write_writes]) simp
  have "writes w 9 (sum_bind (en_write emit [b] w) (\<lambda>w. en_write emit (be_tail (integer_width ?len) ?len) w))"
    for b and w :: "'a encoder"
    by (rule writes_bind [OF byte tail]) simp
  then show ?thesis
    using False unfolding en_sized_def by (simp only: if_False Let_def) (rule writes_bind [where l = 9, OF byte], simp_all)
qed

lemma utf16_writes: "writes w (length buf + 2 * length codes) (write_utf16 emit codes buf w)"
proof (induction emit codes buf w rule: write_utf16.induct)
  case (1 emit buf w)
  then show ?case
    by (simp add: write_writes)
next
  case (2 emit code codes buf w)
  show ?case
  proof (cases "length (buf @ be16_bytes code) = 128")
    case True
    have "writes w (length (buf @ be16_bytes code) + 2 * length codes)
        (sum_bind (en_write emit (buf @ be16_bytes code) w) (write_utf16 emit codes []))"
      using "2.IH"(1) [OF refl True] by (intro writes_bind [OF write_writes _ order_refl]) simp
    then show ?thesis
      using True by (simp add: Let_def)
  next
    case False
    then show ?thesis
      using "2.IH"(2) [OF refl False] by (simp add: Let_def)
  qed
qed

section \<open>Objects\<close>

abbreviation anything :: "'a \<Rightarrow> 's encoder \<Rightarrow> bool" where
  "anything \<equiv> \<lambda>_ _. True"

lemma slot_spends: "spends anything w 1 (en_slot scalar w)"
proof (cases "unat (en_next w) + 1 < 2 ^ 64")
  case True
  then have "unat (en_next w + 1) = Suc (unat (en_next w))"
    by (simp add: unat_word_ariths)
  then show ?thesis
    using True
    by (auto simp: en_slot_def index_scalar_def index_unique_def spends_def after_def load_def modest_def Let_def
        split: option.split)
next
  case False
  then show ?thesis
    by (auto simp: en_slot_def index_scalar_def index_unique_def spends_def load_def split: option.split)
qed

lemma slot_writes:
  assumes "\<And>w. writes w k (f w)"
  shows "spends anything w (1 + k)
    (sum_bind (en_slot scalar w) (\<lambda>((i, new), w). if new then sum_bind (f w) (\<lambda>w. Inr (i, w)) else Inr (i, w)))"
proof -
  have "spends anything w' k (if snd x then sum_bind (f w') (\<lambda>w. Inr (fst x, w)) else Inr (fst x, w'))" for x w'
    using writes_spends [OF assms, of w' "fst x"] by (cases "snd x") (simp_all add: spends_def [of _ w' k "Inr _"] after_def)
  from spends_bind [OF slot_spends this order_refl] show ?thesis
    by (simp add: case_prod_unfold)
qed

lemma scalar_spends: "length bytes \<le> k \<Longrightarrow> spends anything w (1 + k) (scalar_bytes emit scalar bytes w)"
  unfolding scalar_bytes_def by (rule slot_writes) (erule writes_mono [OF write_writes])

lemma length_utf8_chars: "utf8_chars s = Some cs \<Longrightarrow> length cs \<le> length s"
  by (induction s arbitrary: cs rule: utf8_chars.induct)
    (fastforce split: if_splits list.splits)+

lemma length_utf16: "length (encode_utf16 s) \<le> 2 * length s"
proof -
  have "length (concat (map utf16_of cs)) \<le> 2 * length cs" for cs
    by (induction cs) (simp_all add: utf16_of_def)
  then show ?thesis
    using length_utf8_chars [of s] by (force simp: encode_utf16_def split: option.split intro: order_trans)
qed

lemma string_spends: "spends anything w (11 + 4 * length s) (en_string emit s w)"
proof -
  have "writes w (10 + 4 * length s)
      (if is_ascii s then sum_bind (en_sized emit marker_ASCII (length s) w) (en_write emit s)
       else sum_bind (en_sized emit marker_UTF16 (length (encode_utf16 s)) w) (write_utf16 emit (encode_utf16 s) []))" for w
  proof (cases "is_ascii s")
    case True
    then show ?thesis
      by (auto intro!: writes_bind [OF sized_writes write_writes])
  next
    case False
    have "writes w' (4 * length s) (write_utf16 emit (encode_utf16 s) [] w')" for w'
      by (rule writes_mono [OF utf16_writes]) (use length_utf16 [of s] in simp)
    then show ?thesis
      using False by (auto intro!: writes_bind [OF sized_writes])
  qed
  from slot_writes [OF this, of w "Some (Scalar_String s)"] show ?thesis
    by (simp add: en_string_def)
qed

lemma sum_bind_twice: "sum_bind (sum_bind m f) g = sum_bind m (\<lambda>x. sum_bind (f x) g)"
  by (cases m) simp_all

lemma data_spends: "spends anything w (11 + length d) (en_data emit d w)"
proof -
  have "writes w (10 + length d) (sum_bind (en_sized emit marker_DATA (length d) w) (en_write emit d))" for w
    by (rule writes_bind [OF sized_writes write_writes]) simp
  from slot_writes [OF this, of w "Some (Scalar_Data d)"] show ?thesis
    by (simp add: en_data_def sum_bind_twice cong: if_cong)
qed

section \<open>Collections\<close>

text \<open>A collection under construction counts no more children than there are edges.\<close>

abbreviation counts :: "collection_state \<Rightarrow> 's encoder \<Rightarrow> bool" where
  "counts \<equiv> \<lambda>c w. cs_count c \<le> en_edges w"

lemma begin_spends: "spends counts w 2 (en_begin dictionary w)"
  unfolding en_begin_def
  by (rule spends_bind [where l = 1, OF slot_spends])
    (auto simp: spends_def after_def load_def modest_def checked_add_def usize_bound_def split: prod.split)

lemma child_spends:
  assumes "cs_count c \<le> en_edges w"
  shows "spends counts w 1 (en_child c i w)"
proof (cases "length (en_edge_slots w) \<le> en_edges w \<or> en_next w \<le> i")
  case True
  then show ?thesis
    using assms by (auto simp: en_child_def spends_def load_def)
next
  case False
  then show ?thesis
    using assms
    by (auto simp: en_child_def spends_def after_def load_def modest_def Let_def checked_add_def usize_bound_def
        split: option.split)
qed

lemma end_spends:
  assumes "cs_count c \<le> en_edges w"
  shows "spends anything w 1 (en_end c w)"
  using assms
  by (auto simp: en_end_def spends_def after_def load_def modest_def not_le take_Suc_conv_app_nth nth_list_update)

section \<open>Values\<close>

text \<open>A bound of what writing a value spends: bytes, objects, edges, collections.\<close>

primrec weight :: "pvalue \<Rightarrow> nat" where
  "weight (P_Array vs) = 3 + sum_list (map (\<lambda>k. k + 1) (map weight vs))"
| "weight (P_Dictionary m) = 3 + sum_list (map (\<lambda>(k, n). 13 + 4 * length k + n) (map (map_prod id weight) m))"
| "weight (P_Boolean v) = 2"
| "weight (P_Data v) = 11 + length v"
| "weight (P_Real v) = 10"
| "weight (P_Integer n) = 18"
| "weight (P_String v) = 11 + 4 * length v"
| "weight (P_Uid v) = 10"

lemma length_integer_bytes: "length (integer_bytes n b) \<le> 17"
  by (auto simp: integer_bytes_def Let_def)

lemma spent_scalar:
  assumes "spends anything w k m"
  shows "spent anything w k (scalar_item (into_core m))"
  unfolding scalar_item_def
  by (rule spent_bind [where l = 0, OF spent_core [OF assms]]) (simp_all add: spent_def after_def)

lemma child_spent: "cs_count c \<le> en_edges w \<Longrightarrow> spent counts w 1 (b_child (wire_builder emit) c i w)"
  by (simp only: wire_builder_simps) (intro spent_core child_spends)

lemma end_spent: "cs_count c \<le> en_edges w \<Longrightarrow> spent anything w 1 (end_collection (wire_builder emit) c w)"
  using spent_scalar [OF end_spends, of c w] by (simp add: end_collection_def scalar_item_def)

lemma spent_elements:
  assumes "\<And>v w. v \<in> set vs \<Longrightarrow> spent anything w (weight v) (serialize (value_sdata v) (wire_builder emit) Mode_Explicit w)"
  shows "cs_count c \<le> en_edges (w :: 'a encoder) \<Longrightarrow>
    spent counts w (sum_list (map (\<lambda>v. weight v + 1) vs))
      (elements (wire_builder emit) (map (\<lambda>v. serialize (value_sdata v) (wire_builder emit)) vs) c w)"
  using assms
proof (induction vs arbitrary: c w)
  case Nil
  then show ?case
    by (simp add: spent_def after_def)
next
  case (Cons v vs)
  let ?more = "sum_list (map (\<lambda>v. weight v + 1) vs)"
  show ?case
    unfolding list.map elements.simps
  proof (rule spent_bind [where k = "weight v" and l = "1 + ?more"])
    show "spent anything w (weight v) (serialize (value_sdata v) (wire_builder emit) Mode_Explicit w)"
      using Cons.prems(2) by simp
    fix r and w' :: "'a encoder"
    assume edges: "en_edges w \<le> en_edges w'"
    show "spent counts w' (1 + ?more)
        (case r of None \<Rightarrow> Inl Missing_Value
         | Some i \<Rightarrow> bind_item (b_child (wire_builder emit) c i w')
             (elements (wire_builder emit) (map (\<lambda>v. serialize (value_sdata v) (wire_builder emit)) vs)))"
    proof (cases r)
      case (Some i)
      have "spent counts w' 1 (b_child (wire_builder emit) c i w')"
        using Cons.prems(1) edges by (intro child_spent) simp
      then show ?thesis
        unfolding Some option.case
        by (rule spent_bind [OF _ _ order_refl]) (use Cons in simp_all)
    qed (simp add: spent_def)
  qed simp
qed

lemma spent_entries:
  assumes "\<And>v w. v \<in> snd ` set m \<Longrightarrow> spent anything w (weight v) (serialize (value_sdata v) (wire_builder emit) Mode_Explicit w)"
  shows "cs_count c \<le> en_edges (w :: 'a encoder) \<Longrightarrow>
    spent counts w (sum_list (map (\<lambda>(k, v). 13 + 4 * length k + weight v) m))
      (map_calls (wire_builder emit)
        (concat (map (\<lambda>(k, v). [Call_Key (Some k), Call_Value (serialize (value_sdata v) (wire_builder emit))]) m)) None c w)"
  using assms
proof (induction m arbitrary: c w)
  case Nil
  then show ?case
    by (simp add: spent_def after_def)
next
  case (Cons e m)
  obtain k v where e: "e = (k, v)"
    by (cases e)
  let ?more = "sum_list (map (\<lambda>(k, v). 13 + 4 * length k + weight v) m)"
  let ?rest = "concat (map (\<lambda>(k, v). [Call_Key (Some k), Call_Value (serialize (value_sdata v) (wire_builder emit))]) m)"
  have entry: "spent counts w' (2 + ?more)
      (bind_item (b_child (wire_builder emit) c key w') (\<lambda>c w. bind_item (b_child (wire_builder emit) c i w)
        (map_calls (wire_builder emit) ?rest None)))" if "en_edges w \<le> en_edges w'" for w' :: "'a encoder" and key i
  proof (rule spent_bind [where k = 1 and l = "1 + ?more"])
    show "spent counts w' 1 (b_child (wire_builder emit) c key w')"
      using that Cons.prems(1) by (intro child_spent) simp
    fix c' :: collection_state and w'' :: "'a encoder"
    assume "cs_count c' \<le> en_edges w''"
    then have "spent counts w'' 1 (b_child (wire_builder emit) c' i w'')"
      by (rule child_spent)
    then show "spent counts w'' (1 + ?more)
        (bind_item (b_child (wire_builder emit) c' i w'') (map_calls (wire_builder emit) ?rest None))"
      by (rule spent_bind [OF _ _ order_refl]) (use Cons in simp_all)
  qed simp
  have pair: "spent counts w' (weight v + (2 + ?more))
      (bind_item (serialize (value_sdata v) (wire_builder emit) Mode_Explicit w') (\<lambda>r s. case r of
         None \<Rightarrow> Inl Missing_Value
       | Some i \<Rightarrow> bind_item (b_child (wire_builder emit) c key s) (\<lambda>c w. bind_item (b_child (wire_builder emit) c i w)
           (map_calls (wire_builder emit) ?rest None))))" if "en_edges w \<le> en_edges w'" for w' :: "'a encoder" and key
  proof (rule spent_bind [where k = "weight v" and l = "2 + ?more"])
    show "spent anything w' (weight v) (serialize (value_sdata v) (wire_builder emit) Mode_Explicit w')"
      using Cons.prems(2) by (simp add: e)
  qed (use that entry in \<open>auto simp: spent_def [of counts _ _ "Inl _"] split: option.split\<close>)
  have "spent anything w (11 + 4 * length k) (b_string (wire_builder emit) k w)"
    by (simp add: spent_core string_spends)
  then show ?case
    unfolding e list.map concat.simps prod.case append_Cons append_Nil map_calls.simps option.case
    by (rule spent_bind [where l = "weight v + (2 + ?more)"]) (use pair in simp_all)
qed

theorem value_spends:
  "spent anything (w :: 'a encoder) (weight v) (serialize (value_sdata v) (wire_builder emit) mode w)"
proof (induction v arbitrary: mode w)
  case (P_Array vs)
  have "spent counts w 2 (b_begin_array (wire_builder emit) w)"
    by (simp add: spent_core begin_spends)
  moreover have "spent anything w' (sum_list (map (\<lambda>v. weight v + 1) vs) + 1)
      (bind_item (elements (wire_builder emit) (map (\<lambda>v. serialize (value_sdata v) (wire_builder emit)) vs) c w')
        (end_collection (wire_builder emit)))" if "cs_count c \<le> en_edges w'" for c and w' :: "'a encoder"
    by (rule spent_bind [OF spent_elements [OF P_Array that] end_spent order_refl])
  ultimately show ?case
    unfolding value_sdata.simps serialize.simps
    by - (rule spent_bind [where P = counts and k = 2 and l = "sum_list (map (\<lambda>v. weight v + 1) vs) + 1"], simp_all add: comp_def)
next
  case (P_Dictionary m)
  have "spent counts w 2 (b_begin_dict (wire_builder emit) w)"
    by (simp add: spent_core begin_spends)
  moreover have "spent anything w' (sum_list (map (\<lambda>(k, v). 13 + 4 * length k + weight v) m) + 1)
      (bind_item (map_calls (wire_builder emit)
        (concat (map (\<lambda>(k, v). [Call_Key (Some k), Call_Value (serialize (value_sdata v) (wire_builder emit))]) m)) None c w')
        (end_collection (wire_builder emit)))" if "cs_count c \<le> en_edges w'" for c and w' :: "'a encoder"
    by (rule spent_bind [OF spent_entries [OF _ that] end_spent order_refl]) (use P_Dictionary in \<open>auto simp: image_iff\<close>)
  ultimately show ?case
    unfolding value_sdata.simps serialize.simps
    by - (rule spent_bind [where P = counts and k = 2 and l = "sum_list (map (\<lambda>(k, v). 13 + 4 * length k + weight v) m) + 1"],
      simp_all add: comp_def map_concat case_prod_unfold)
next
  case (P_Integer n)
  show ?case
    using spent_scalar [OF scalar_spends [OF length_integer_bytes]]
    by (auto simp: en_unsigned_integer_def en_integer_def)
next
  case (P_Uid n)
  have "length (b # be_tail (integer_width n) n) \<le> 9" for b
    using integer_width_le(1) [of n] by simp
  then have "spent anything w 10 (scalar_item (into_core (scalar_bytes emit scalar (b # be_tail (integer_width n) n) w)))" for b scalar
    using spent_scalar [OF scalar_spends [where k = 9]] by force
  then show ?case
    by (simp add: en_uid_def Let_def)
qed (auto simp: en_boolean_def en_real_def intro!: spent_scalar data_spends string_spends
      scalar_spends [where k = 9, simplified] scalar_spends [where k = 1, unfolded one_add_one])

section \<open>The whole document\<close>

lemma edges_writes:
  "width \<le> 8 \<Longrightarrow> writes w (8 * todo) (write_edges emit width keep n todo edge w)"
proof (induction emit width keep n todo edge w rule: write_edges.induct)
  case (2 emit width keep n todo edge w)
  show ?case
  proof (cases "edge = None \<or> (\<exists>e. edge = Some e \<and> slice_get (en_edge_slots w) e = None)")
    case True
    then show ?thesis
      by (auto simp: writes_def slice_get_def)
  next
    case False
    then obtain e ed where e: "edge = Some e" "slice_get (en_edge_slots w) e = Some ed"
      by (cases edge) auto
    have "writes w 8 (write_ref emit (edge_object ed) width w)"
      unfolding write_ref_def by (rule writes_mono [OF write_writes]) (use 2(2) in simp)
    then have "writes w 8 (if keep n then write_ref emit (edge_object ed) width w else Inr w)"
      by simp
    then show ?thesis
      unfolding write_edges.simps e option.case
      by (rule writes_bind) (use 2 e in auto)
  qed
qed simp

lemma collection_writes:
  assumes "width \<le> 8"
  shows "writes w (10 + 16 * col_count c) (write_collection emit width c w)"
proof (cases "unat (col_object c) < length (en_offsets w)")
  case True
  let ?w = "w\<lparr>en_offsets := (en_offsets w)[unat (col_object c) := en_position w]\<rparr>"
  note edges = edges_writes [OF assms]
  have "writes w' (16 * col_count c)
      (if col_dictionary c then
         sum_bind (write_edges emit width (\<lambda>n. n mod 2 = 0) 0 (col_count c) (col_first c) w')
           (write_edges emit width (\<lambda>n. n mod 2 = 1) 0 (col_count c) (col_first c))
       else write_edges emit width (\<lambda>n. True) 0 (col_count c) (col_first c) w')" for w' :: "'a encoder"
  proof (cases "col_dictionary c")
    case True
    have "8 * col_count c + 8 * col_count c \<le> 16 * col_count c"
      by simp
    then show ?thesis
      using True by (simp only: if_True) (rule writes_bind [OF edges edges])
  next
    case False
    then show ?thesis
      by (simp only: if_False) (rule writes_mono [OF edges], simp)
  qed
  then have "writes ?w (10 + 16 * col_count c) (write_collection emit width c w)"
    unfolding write_collection_def using True
    by (simp only: if_True Let_def) (rule writes_bind [OF sized_writes _ order_refl])
  moreover have "load ?w = load w"
    by (simp add: load_def)
  ultimately show ?thesis
    by (simp add: writes_def split: sum.splits)
next
  case False
  then show ?thesis
    by (simp add: write_collection_def writes_def)
qed

lemma collections_write:
  "width \<le> 8 \<Longrightarrow> \<forall>i < n. start + i < length (en_slots w) \<longrightarrow> col_count (en_slots w ! (start + i)) \<le> en_edges w \<Longrightarrow>
    writes w (n * (10 + 16 * en_edges w)) (write_collections emit width start n w)"
proof (induction emit width start n w rule: write_collections.induct)
  case (2 emit width start n w)
  show ?case
  proof (cases "slice_get (en_slots w) start")
    case None
    then show ?thesis
      by (simp add: writes_def slice_get_def)
  next
    case (Some c)
    have small: "10 + 16 * col_count c \<le> 10 + 16 * en_edges w"
      using 2(3) [rule_format, of 0] Some by auto
    have later: "\<forall>i < n. Suc start + i < length (en_slots w) \<longrightarrow> col_count (en_slots w ! (Suc start + i)) \<le> en_edges w"
      using 2(3) by auto
    have "writes w (10 + 16 * en_edges w) (write_collection emit width c w)"
      by (rule writes_mono [OF collection_writes [OF 2(2)] small])
    then show ?thesis
      unfolding write_collections.simps Some option.case
      by (rule writes_bind [where l = "n * (10 + 16 * en_edges w)"]) (use 2(1) [OF Some _ 2(2)] later in auto)
  qed
qed simp

lemma offsets_write:
  assumes "width \<le> 8"
  shows "writes w (8 * n) (write_offsets emit width start n w)"
  using assms
proof (induction emit width start n w rule: write_offsets.induct)
  case (2 emit width start n w)
  show ?case
  proof (cases "slice_get (en_offsets w) start")
    case None
    then show ?thesis
      by (simp add: writes_def slice_get_def)
  next
    case (Some offset)
    have "writes w 8 (en_write emit (be_tail width offset) w)"
      by (rule writes_mono [OF write_writes]) (use 2(2) in simp)
    then show ?thesis
      unfolding write_offsets.simps Some option.case by (rule writes_bind) (use 2 Some in auto)
  qed
qed simp

lemma finish_writes:
  assumes "modest w"
  shows "writes w (en_collections w * (10 + 16 * en_edges w) + (8 * unat (en_next w) + 32)) (en_finish emit root w)"
proof (cases "en_next w = 0 \<or> en_next w \<le> root \<or> en_open w \<noteq> 0")
  case True
  then show ?thesis
    by (auto simp: en_finish_def writes_def)
next
  case False
  have "col_count (en_slots w ! i) \<le> en_edges w" if "i < en_collections w" "i < length (en_slots w)" for i
    using assms that nth_mem [of i "take (en_collections w) (en_slots w)"] by (simp add: modest_def)
  then have first: "writes w (en_collections w * (10 + 16 * en_edges w))
      (write_collections emit (integer_width (en_next w - 1)) 0 (en_collections w) w)"
    by (intro collections_write integer_width_le) simp
  have trailer: "writes w' 32 (en_write emit (trailer_to_bytes t) w')" for t and w' :: "'a encoder"
    using write_writes [of w' "trailer_to_bytes t"] by simp
  have rest: "writes w' (8 * unat (en_next w) + 32)
      (sum_bind (write_offsets emit (integer_width p) 0 (unat (en_next w)) w') (\<lambda>w. en_write emit (trailer_to_bytes t) w))"
    for t p and w' :: "'a encoder"
    by (rule writes_bind [OF offsets_write trailer]) (simp_all add: integer_width_le)
  show ?thesis
    using False unfolding en_finish_def by (simp only: if_False Let_def) (rule writes_bind [OF first rest order_refl])
qed

text \<open>All that encoding a value can spend.\<close>

definition total_spent :: "nat \<Rightarrow> nat" where
  "total_spent n = n + (n * (10 + 16 * n) + (8 * n + 32))"

lemma total_mono: "m \<le> n \<Longrightarrow> total_spent m \<le> total_spent n"
  unfolding total_spent_def by (intro add_mono mult_mono) simp_all

lemma total_bound:
  assumes "n \<le> 2 ^ 29"
  shows "total_spent n < 2 ^ 63"
proof -
  have "total_spent n \<le> total_spent (2 ^ 29)"
    by (rule total_mono [OF assms])
  also have "\<dots> < 2 ^ 63"
    by (simp add: total_spent_def)
  finally show ?thesis .
qed

lemma encode_frugal:
  assumes "encode emit offsets collections edges (value_sdata v) sink = Inl (Ser_Core e)"
  shows "frugal (total_spent (8 + weight v)) e"
proof -
  let ?w0 = "\<lparr>en_sink = sink, en_offsets = offsets, en_slots = collections, en_edge_slots = edges,
        en_next = 0, en_position = 0, en_collections = 0, en_open = 0, en_edges = 0\<rparr>"
  let ?new = "encoder_new emit offsets collections edges sink"
  have zero: "load ?w0 = 0" "modest ?w0"
    by (simp_all add: load_def modest_def)
  have new: "writes ?w0 8 ?new"
    using write_writes [of ?w0 HEADER emit] by (simp add: encoder_new_def length_HEADER)
  show ?thesis
  proof (cases ?new)
    case (Inl f)
    then have "frugal 8 e"
      using assms new zero by (simp add: encode_def into_core_def writes_def)
    then show ?thesis
      by (rule frugal_mono) (simp add: total_spent_def)
  next
    case (Inr w)
    then have w: "load w \<le> 8" "modest w"
      using new zero by (simp_all add: writes_def modest_def)
    let ?root = "serialize_root (wire_builder emit) (value_sdata v) w"
    have root: "spent anything w (weight v) ?root"
      unfolding serialize_root_def
      by (rule spent_bind [where l = 0, OF value_spends]) (auto simp: spent_def after_def split: option.split)
    show ?thesis
    proof (cases ?root)
      case (Inl f)
      then have "frugal (load w + weight v) e"
        using assms Inr root by (simp add: encode_def into_core_def bind_item_def spent_def)
      then show ?thesis
        using w by (elim frugal_mono) (simp add: total_spent_def)
    next
      case (Inr r)
      then obtain i w' where r: "?root = Inr (i, w')"
        by (cases r) auto
      then have w': "load w' \<le> 8 + weight v" "modest w'"
        using root w by (simp_all add: spent_def after_def)
      have "en_finish emit i w' = Inl e"
        using assms \<open>?new = Inr w\<close> r by (simp add: encode_def into_core_def bind_item_def split: sum.splits)
      then have "frugal (load w' + (en_collections w' * (10 + 16 * en_edges w') + (8 * unat (en_next w') + 32))) e"
        using finish_writes [OF w'(2), of emit i] by (simp add: writes_def)
      moreover have "load w' + (en_collections w' * (10 + 16 * en_edges w') + (8 * unat (en_next w') + 32)) \<le> total_spent (load w')"
        unfolding total_spent_def by (intro add_mono mult_mono) (simp_all add: load_def)
      ultimately show ?thesis
        using total_mono [OF w'(1)] by (auto elim!: frugal_mono)
    qed
  qed
qed

section \<open>Growing to a result\<close>

text \<open>A bound on values of a gigabyte and less.\<close>

definition small_value :: "pvalue \<Rightarrow> bool" where
  "small_value v \<longleftrightarrow> weight v \<le> 2 ^ 28"

lemma small_total: "small_value v \<Longrightarrow> total_spent (8 + weight v) < 2 ^ 63"
  by (intro total_bound) (simp add: small_value_def)

lemma measure_succeeds:
  assumes v: "sdata_ok (value_sdata v)" "to_tree (value_sdata v) = (Inr v :: 'e encode_failure ser_error + pvalue)" "small_value v"
  shows "\<exists>n s'. scratch_measure left (value_sdata v) s = (Inr n :: 'e encode_failure ser_error plist_error + usize, s')"
  using v
proof (induction left "value_sdata v" s rule: scratch_measure.induct [where 'a = 'e])
  case (1 left s)
  note result = counted_attempt [OF "1.prems"(1), of s, where 'e = 'e]
  show ?case
  proof (cases "encode_with count_emit s (value_sdata v) (0, False) :: 'e encode_failure ser_error + (usize \<times> bool) encoder")
    case (Inr w)
    then show ?thesis
      using result by (simp add: scratch_measure.simps [of left "value_sdata v" s])
  next
    case (Inl e)
    have frugal: "frugal (total_spent (8 + weight v)) f" if "e = Ser_Core f" for f
      using Inl that by (auto simp: encode_with_def intro: encode_frugal)
    then have "e \<noteq> Ser_Core (Encode_Err Encode_Overflow)"
      using small_total [OF "1.prems"(3)] by fastforce
    then obtain kind where e: "e = Ser_Core (Encode_Err (Scratch_Too_Small kind (Suc (scratch_length s kind)) (scratch_length s kind)))"
      using result Inl "1.prems"(2) by auto
    have "scratch_length s kind < 2 ^ 63"
      using frugal [OF e] small_total [OF "1.prems"(3)] by (simp del: scratch_length.simps)
    then obtain s' where grown: "scratch_grow kind (Suc (scratch_length s kind)) (spoiled left s) = (Inr s' :: 'e encode_error + scratch)"
      using grow_fails [of kind s left] by (cases "scratch_grow kind (Suc (scratch_length s kind)) (spoiled left s) :: 'e encode_error + scratch") force+
    then have "scratch_measure left (value_sdata v) s =
        (scratch_measure left (value_sdata v) s' :: ('e encode_failure ser_error plist_error + usize) \<times> scratch)"
      using Inl e by (simp add: scratch_measure.simps [of left "value_sdata v" s])
    then show ?thesis
      using "1.hyps" [OF Inl e _ _ grown] "1.prems" by simp
  qed
qed

lemma pencode_succeeds:
  assumes v: "sdata_ok (value_sdata v)"
    and tree: "to_tree (value_sdata v) = (Inr v :: 'e encode_failure ser_error + pvalue)" and small: "small_value v"
  shows "\<exists>doc. pencode left (value_sdata v) = (Inr doc :: 'e encode_failure ser_error plist_error + u8 list) \<and>
    document_of (value_sdata v) x doc"
proof -
  obtain n s' where measured: "scratch_measure left (value_sdata v) empty_scratch =
      (Inr n :: 'e encode_failure ser_error plist_error + usize, s')"
    using measure_succeeds [OF v tree small] by blast
  then obtain w where w: "encode_with vec_emit s' (value_sdata v) [] = (Inr w :: 'e encode_failure ser_error + u8 list encoder)"
      "length (en_sink w) = n"
    using measure_result [OF v, of left empty_scratch, where 'e = 'e] by auto
  then obtain doc where "make_root_first (en_sink w) = (Inr () :: 'e encode_failure ser_error plist_error + unit, doc)"
      "document_of (value_sdata v) x doc"
    using attempt_result [OF v, of s' "[]" x, where 'e = 'e and 'f = "'e encode_failure ser_error"] by auto
  then show ?thesis
    using measured w by (simp add: pencode_def encode_into_def)
qed

end
