(* ===== verification/Plist_Utf8.thy ===== *)
theory Plist_Utf8
  imports Plist_Text
begin

text \<open>Every string the readers put together from characters is valid UTF-8.\<close>

lemma u8_of: "n < 256 \<Longrightarrow> unat (of_nat n :: u8) = n"
  by (simp add: unat_of_nat)

lemma u8_le:
  "n < 256 \<Longrightarrow> m \<le> (of_nat n :: u8) \<longleftrightarrow> unat m \<le> n" "n < 256 \<Longrightarrow> (of_nat n :: u8) \<le> m \<longleftrightarrow> n \<le> unat m"
  "n < 256 \<Longrightarrow> (of_nat n :: u8) < m \<longleftrightarrow> n < unat m"
  by (simp_all add: word_le_nat_alt word_less_nat_alt u8_of)

lemma u8_eq: "n < 256 \<Longrightarrow> (of_nat n :: u8) = m \<longleftrightarrow> n = unat m"
  using u8_of [of n] by (auto simp: word_unat_eq_iff)

lemma cont_of: "b < 64 \<Longrightarrow> is_cont (of_nat (128 + b)) \<and> unat (of_nat (128 + b) :: u8) = 128 + b"
  unfolding is_cont_def using u8_le [of "128 + b"] u8_of [of "128 + b"] by simp

lemma utf8_chars_2: "2 \<le> a \<Longrightarrow> a < 32 \<Longrightarrow> b < 64 \<Longrightarrow>
   utf8_chars (of_nat (192 + a) # of_nat (128 + b) # rest) = map_option ((#) (a * 64 + b)) (utf8_chars rest)"
  using cont_of [of b] by (simp add: u8_le u8_of del: of_nat_add)

lemma utf8_chars_3: "a < 16 \<Longrightarrow> b < 64 \<Longrightarrow> c < 64 \<Longrightarrow> (a = 0 \<longrightarrow> 32 \<le> b) \<Longrightarrow> (a = 13 \<longrightarrow> b < 32) \<Longrightarrow>
   utf8_chars (of_nat (224 + a) # of_nat (128 + b) # of_nat (128 + c) # rest) =
     map_option ((#) (a * 4096 + b * 64 + c)) (utf8_chars rest)"
  using cont_of [of b] cont_of [of c]
  by (auto simp: u8_le u8_of u8_eq utf8_second_def simp del: of_nat_add)

lemma utf8_chars_4: "a < 5 \<Longrightarrow> b < 64 \<Longrightarrow> c < 64 \<Longrightarrow> d < 64 \<Longrightarrow> (a = 0 \<longrightarrow> 16 \<le> b) \<Longrightarrow> (a = 4 \<longrightarrow> b < 16) \<Longrightarrow>
   utf8_chars (of_nat (240 + a) # of_nat (128 + b) # of_nat (128 + c) # of_nat (128 + d) # rest) =
     map_option ((#) (a * 262144 + b * 4096 + c * 64 + d)) (utf8_chars rest)"
  using cont_of [of b] cont_of [of c] cont_of [of d]
  by (auto simp: u8_le u8_of u8_eq utf8_second_def simp del: of_nat_add)

lemma utf8_chars_of:
  assumes "is_scalar_value n"
  shows "utf8_chars (utf8_of n @ rest) = map_option ((#) n) (utf8_chars rest)"
proof -
  obtain a b c d where digits: "a = n div 262144" "b = n div 4096 mod 64" "c = n div 64 mod 64" "d = n mod 64"
    by blast
  have parts: "n div 4096 = a * 64 + b" "n div 64 = n div 4096 * 64 + c" "n = n div 64 * 64 + d"
    unfolding digits using div_mult2_eq [of n 64 64] div_mult2_eq [of n 4096 64] div_mult_mod_eq by simp_all
  then have n: "n = n div 4096 * 4096 + c * 64 + d" "n = a * 262144 + b * 4096 + c * 64 + d"
    by linarith+
  have small: "b < 64" "c < 64" "d < 64"
    by (simp_all add: digits)
  consider "n < 0x80" | "0x80 \<le> n" "n < 0x800" | "0x800 \<le> n" "n < 0x10000" | "0x10000 \<le> n" "n < 0x110000"
    using assms by (fastforce simp: is_scalar_value_def)
  then show ?thesis
  proof cases
    case 1
    then show ?thesis
      by (simp add: utf8_of_def u8_le u8_of)
  next
    case 2
    then have "2 \<le> n div 64" "n div 64 < 32"
      by simp_all
    note read = utf8_chars_2 [OF this small(3)]
    have "utf8_of n = [of_nat (192 + n div 64), of_nat (128 + d)]"
      unfolding digits utf8_of_def using 2 by simp
    then show ?thesis
      using read parts(3) by simp
  next
    case 3
    then have "n div 4096 < 16" "n div 4096 = 0 \<longrightarrow> 32 \<le> c" "n div 4096 = 13 \<longrightarrow> c < 32"
      using n(1) small assms by (auto simp: is_scalar_value_def)
    note read = utf8_chars_3 [OF this(1) small(2,3) this(2,3)]
    have "utf8_of n = [of_nat (224 + n div 4096), of_nat (128 + c), of_nat (128 + d)]"
      unfolding digits utf8_of_def using 3 by simp
    then show ?thesis
      using read n(1) by simp
  next
    case 4
    then have "a < 5" "a = 0 \<longrightarrow> 16 \<le> b" "a = 4 \<longrightarrow> b < 16"
      using n(2) small by linarith+
    note read = utf8_chars_4 [OF this(1) small this(2,3)]
    have "utf8_of n = [of_nat (240 + a), of_nat (128 + b), of_nat (128 + c), of_nat (128 + d)]"
      unfolding digits utf8_of_def using 4 by simp
    then show ?thesis
      using read n(2) by simp
  qed
qed

lemma is_str_utf8: "list_all is_scalar_value cs \<Longrightarrow> is_str (concat (map utf8_of cs))"
  by (induction cs) (auto simp: is_str_def utf8_chars_of)

lemma utf16_scalar: "utf16_chars us = Some cs \<Longrightarrow> list_all is_scalar_value cs"
proof (induction us arbitrary: cs rule: utf16_chars.induct)
  case (2 u rest)
  have "unat u < 65536"
    using unat_range [of u] by simp
  then show ?case
    using 2 by (auto simp: is_scalar_value_def word_le_nat_alt word_less_nat_alt split: if_splits list.splits)
qed simp

lemma utf16_string_is_str: "utf16_string bytes = Some s \<Longrightarrow> is_str s"
  by (auto simp: utf16_string_def intro: is_str_utf8 utf16_scalar)

end
