(* ===== verification/Plist_Typed.thy ===== *)
theory Plist_Typed
  imports Plist_Codec Plist_Utf8
begin

text \<open>
  What reading gives is a value of the program's types: its texts are UTF-8, its integers fit the
  format, its dictionaries have no key twice.
\<close>

text \<open>What is asked of the code that is not modelled: a text made of bytes is one, a date is a value.\<close>

definition outside_ok :: "outside \<Rightarrow> bool" where
  "outside_ok x \<longleftrightarrow> (\<forall>b s. out_bytes_key x b = Inr s \<longrightarrow> is_str s) \<and> (\<forall>n v. out_date x n = Inr v \<longrightarrow> value_ok v)"

lemma object_text: "doc_object widen d i = Inr (Obj_String s) \<Longrightarrow> is_str s"
  by (auto simp: doc_object_def Let_def sum_bind_Inr_iff split: if_splits prod.splits)

lemma key_typed:
  assumes "outside_ok x" "decode_key x d depth i = Inr k"
  shows "is_str k"
proof -
  obtain object where object: "doc_object (out_widen x) d i = Inr object"
    using assms(2) by (cases "doc_object (out_widen x) d i") (auto simp: decode_key_def split: if_splits)
  then show ?thesis
    using assms object_text by (cases object)
      (auto simp: decode_key_def text_of_def outside_ok_def split: if_splits option.splits dest: utf16_string_is_str)
qed

lemma elements_typed:
  assumes "\<And>i v. child i = Inr v \<Longrightarrow> P v"
  shows "decode_elements child refs index n = Inr (vs, stop) \<Longrightarrow> \<forall>v \<in> set vs. P v"
proof (induction n arbitrary: index vs)
  case (Suc n)
  then show ?case
    using assms by (fastforce simp: sum_bind_Inr_iff split: option.splits)
qed simp

lemma insert_keys: "distinct (map fst m) \<Longrightarrow> distinct (map fst (dictionary_insert k v m)) \<and>
    set (dictionary_insert k v m) \<subseteq> insert (k, v) (set m) \<and> fst ` set (dictionary_insert k v m) = insert k (fst ` set m)"
  by (induction k v m rule: dictionary_insert.induct) auto

lemma entries_typed:
  assumes "\<And>i k. key i = Inr k \<Longrightarrow> Q k" "\<And>i v. child i = Inr v \<Longrightarrow> P v"
  shows "decode_entries key child ks vs index n m = Inr (m', stop) \<Longrightarrow> distinct (map fst m) \<and> (\<forall>(k, v) \<in> set m. Q k \<and> P v) \<Longrightarrow>
    distinct (map fst m') \<and> (\<forall>(k, v) \<in> set m'. Q k \<and> P v)"
proof (induction n arbitrary: index m)
  case (Suc n)
  show ?case
  proof (cases "refs_get ks index")
    case None
    then show ?thesis
      using Suc.prems by simp
  next
    case (Some i)
    then obtain j k v where step: "refs_get vs index = Some j" "key i = Inr k" "child j = Inr v"
        "decode_entries key child ks vs (Suc index) n (dictionary_insert k v m) = Inr (m', stop)"
      using Suc.prems(1) by (auto simp: sum_bind_Inr_iff split: option.splits)
    have "distinct (map fst (dictionary_insert k v m)) \<and> (\<forall>(k, v) \<in> set (dictionary_insert k v m). Q k \<and> P v)"
      using Suc.prems(2) insert_keys [of m k v] assms(1) [OF step(2)] assms(2) [OF step(3)] by fastforce
    then show ?thesis
      by (rule Suc.IH [OF step(4)])
  qed
qed simp

lemma word64_bounds: "- (2 ^ 63) \<le> sint (w :: u64)" "sint w < 2 ^ 64" "- (2 ^ 63) \<le> uint w" "uint w < 2 ^ 64"
proof -
  show "- (2 ^ 63) \<le> sint w" "uint w < 2 ^ 64"
    using sint_ge [of w] uint_lt2p [of w] by simp_all
  have "sint w < 2 ^ 63"
    using sint_lt [of w] by simp
  then show "sint w < 2 ^ 64"
    by simp
  show "- (2 ^ 63) \<le> uint w"
    by (rule order_trans [of _ 0]) simp_all
qed

lemma value_typed: "outside_ok x \<Longrightarrow> decode_value x d depth i = Inr v \<Longrightarrow> value_ok v"
proof (induction x d depth i arbitrary: v rule: decode_value.induct)
  case (1 x d depth i)
  show ?case
  proof (cases "depth < MAX_DEPTH")
    case False
    then show ?thesis
      using "1.prems" by (simp add: decode_value.simps [of x d depth i])
  next
    case True
    then obtain object where object: "doc_object (out_widen x) d i = Inr object"
      using "1.prems"(2) by (cases "doc_object (out_widen x) d i") (auto simp: decode_value.simps [of x d depth i])
    have child: "decode_value x d (Suc depth) j = Inr u \<Longrightarrow> value_ok u"
      if "object = Obj_Array refs \<and> refs_len refs = Inr len \<or> object = Obj_Dictionary ks us \<and> refs_len ks = Inr len"
      for j u refs ks us len
      using that "1.IH" object True "1.prems"(1) by auto
    show ?thesis
    proof (cases object)
      case (Obj_Array refs)
      then obtain len vs stop where "refs_len refs = Inr len" "decode_elements (decode_value x d (Suc depth)) refs 0 len = Inr (vs, stop)"
          "v = P_Array vs"
        using "1.prems"(2) object True
        by (auto simp: decode_value.simps [of x d depth i] sum_bind_Inr_iff format_panic_Inr split: if_splits)
      then show ?thesis
        using elements_typed [of "decode_value x d (Suc depth)" value_ok] child Obj_Array by (simp add: value_ok_simps)
    next
      case (Obj_Dictionary ks us)
      then obtain len m stop where "refs_len ks = Inr len" "decode_entries (decode_key x d (Suc depth)) (decode_value x d (Suc depth)) ks us 0
            len [] = Inr (m, stop)" "v = P_Dictionary m"
        using "1.prems"(2) object True
        by (auto simp: decode_value.simps [of x d depth i] sum_bind_Inr_iff format_panic_Inr split: if_splits)
      then show ?thesis
        using entries_typed [of "decode_key x d (Suc depth)" is_str "decode_value x d (Suc depth)" value_ok]
          key_typed [OF "1.prems"(1)] child Obj_Dictionary
        by (simp add: value_ok_simps)
    next
      case (Obj_Integer n)
      then show ?thesis
        using "1.prems"(2) object True word64_bounds
        by (cases n) (auto simp: decode_value.simps [of x d depth i])
    qed (use "1.prems" object True object_text in
      \<open>auto simp: decode_value.simps [of x d depth i] sum_bind_Inr_iff text_of_def outside_ok_def
        split: option.splits dest: utf16_string_is_str\<close>)
  qed
qed

text \<open>A reader that refuses dates, and how deep the values are that it reads.\<close>

definition refuses_dates :: "outside \<Rightarrow> bool" where
  "refuses_dates x \<longleftrightarrow> (\<forall>seconds. \<exists>e. out_date x seconds = Inl e)"

lemma value_height: "refuses_dates x \<Longrightarrow> decode_value x d depth i = Inr v \<Longrightarrow> depth + height v < MAX_DEPTH"
proof (induction x d depth i arbitrary: v rule: decode_value.induct)
  case (1 x d depth i)
  show ?case
  proof (cases "depth < MAX_DEPTH")
    case False
    then show ?thesis
      using "1.prems" by (simp add: decode_value.simps [of x d depth i])
  next
    case True
    then obtain object where object: "doc_object (out_widen x) d i = Inr object"
      using "1.prems"(2) by (cases "doc_object (out_widen x) d i") (auto simp: decode_value.simps [of x d depth i])
    have child: "decode_value x d (Suc depth) j = Inr u \<Longrightarrow> Suc depth + height u < MAX_DEPTH"
      if "object = Obj_Array refs \<and> refs_len refs = Inr len \<or> object = Obj_Dictionary ks us \<and> refs_len ks = Inr len"
      for j u refs ks us len
      using that "1.IH" object True "1.prems"(1) by auto
    show ?thesis
    proof (cases object)
      case (Obj_Array refs)
      then obtain len vs stop where "refs_len refs = Inr len" "decode_elements (decode_value x d (Suc depth)) refs 0 len = Inr (vs, stop)"
          "v = P_Array vs"
        using "1.prems"(2) object True
        by (auto simp: decode_value.simps [of x d depth i] sum_bind_Inr_iff format_panic_Inr split: if_splits)
      then show ?thesis
        using elements_typed [of "decode_value x d (Suc depth)" "\<lambda>u. Suc depth + height u < MAX_DEPTH"] child Obj_Array True
        by (simp add: height_fits list_all_iff del: height.simps)
    next
      case (Obj_Dictionary ks us)
      then obtain len m stop where "refs_len ks = Inr len" "decode_entries (decode_key x d (Suc depth)) (decode_value x d (Suc depth)) ks us 0
            len [] = Inr (m, stop)" "v = P_Dictionary m"
        using "1.prems"(2) object True
        by (auto simp: decode_value.simps [of x d depth i] sum_bind_Inr_iff format_panic_Inr split: if_splits)
      moreover from this have "\<forall>(k, u) \<in> set m. Suc depth + height u < MAX_DEPTH"
        using entries_typed [of "decode_key x d (Suc depth)" "\<lambda>_. True" "decode_value x d (Suc depth)" "\<lambda>u. Suc depth + height u < MAX_DEPTH"]
          child Obj_Dictionary by fastforce
      then have "list_all (\<lambda>e. Suc depth < MAX_DEPTH \<and> Suc depth + height (snd e) < MAX_DEPTH) m"
        by (fastforce simp: list_all_iff simp del: height.simps)
      ultimately show ?thesis
        using True by (simp only: height_fits)
    next
      case (Obj_Integer n)
      then show ?thesis
        using "1.prems"(2) object True by (cases n) (auto simp: decode_value.simps [of x d depth i])
    next
      case (Obj_Date seconds)
      obtain e where "out_date x seconds = Inl e"
        using "1.prems"(1) by (auto simp: refuses_dates_def)
      then show ?thesis
        using "1.prems"(2) object True Obj_Date by (simp add: decode_value.simps [of x d depth i])
    qed (use "1.prems"(2) object True in
      \<open>auto simp: decode_value.simps [of x d depth i] sum_bind_Inr_iff text_of_def split: option.splits\<close>)
  qed
qed

end
