(* ===== verification/Plist_Library.thy ===== *)
theory Plist_Library
  imports Plist_Success Plist_Typed
begin

text \<open>
  The properties of the library \<open>core/catplay_plist\<close> as its clients see it.
\<close>

section \<open>Encoding into a buffer\<close>


text \<open>A scratch that suffices for one scalar, and an instance of the code that is not modelled.\<close>

definition small_scratch :: scratch where
  "small_scratch = \<lparr>sc_offsets = [0, 0], sc_collections = [], sc_edges = []\<rparr>"

definition plain_outside :: outside where
  "plain_outside = \<lparr>out_widen = ucast, out_bytes_key = \<lambda>b. if is_str b then Inr b else Inl De_Message,
     out_date = \<lambda>n. Inl De_Message\<rparr>"

lemma small_scratch_suffices:
  "\<exists>w. encode_with vec_emit small_scratch (S_Bool True) dst = (Inr w :: unit encode_failure ser_error + u8 list encoder)"
  by (simp add: encode_with_def encode_def encoder_new_def serialize_root_def wire_builder_def small_scratch_def
      en_write_vec fits_def HEADER_def into_core_def scalar_item_def en_boolean_def scalar_bytes_def en_slot_eq
      put_def en_finish_def Let_def integer_width_def slice_get_def trailer_to_bytes_def)

lemma reusing_small_scratch:
  "\<exists>out s'. encode_reusing left (S_Bool True) dst small_scratch =
     (Inr () :: unit encode_failure ser_error plist_error + unit, out, s')"
proof -
  obtain w where w: "encode_with vec_emit small_scratch (S_Bool True) dst = (Inr w :: unit encode_failure ser_error + u8 list encoder)"
    using small_scratch_suffices by blast
  then obtain doc where "make_root_first (drop (length dst) (en_sink w)) = (Inr () :: unit encode_failure ser_error plist_error + unit, doc)"
    using attempt_result [where v = "S_Bool True" and s = small_scratch and dst = dst and x = plain_outside and 'e = unit and 'f = "unit encode_failure ser_error"]
    by auto
  then show ?thesis
    by (simp add: encode_reusing.simps [of left "S_Bool True" dst small_scratch] w)
qed










section \<open>Reading\<close>







section \<open>The move of the root\<close>

text \<open>
  Claim C18: Moving the root first changes where things lie, not what they are: of every document the
  encoder writes, \<open>make_root_first\<close> makes one of the same length whose root lies at byte 8 and which
  reads as the same value.
\<close>
theorem root_move_keeps_document:
  assumes "sdata_ok v"
    and "encode vec_emit offsets collections edges v [] = (Inr w :: 'e encode_failure ser_error + u8 list encoder)"
  shows "case make_root_first (en_sink w) of
      (r :: 'f plist_error + unit, doc) \<Rightarrow>
        r = Inr () \<and> length doc = length (en_sink w) \<and>
        (\<exists>d. document_parse doc = Inr d \<and> doc_offset d (doc_root d) = Inr 8) \<and>
        from_slice x doc = from_slice x (en_sink w)"
proof -
  obtain w1 w2 root tree where fin: "to_tree v = (Inr tree :: 'e encode_failure ser_error + pvalue)"
      "finished w1 root w2" "unat root < unat (en_next w1)" "stands_for w1 root tree" "en_sink w = en_sink w2 @ tail_bytes root w2"
    using encode_finished [OF assms(1), of offsets collections edges, where 'e = 'e] assms(2) by auto
  obtain doc where doc: "make_root_first (en_sink w) = (Inr () :: 'f plist_error + unit, doc)" "document_of v x doc"
      "length doc = length (en_sink w)"
    using moved_document [OF fin(2-4) assms(1) fin(1), of x, where 'f = 'f] fin(5) by auto
  have "from_slice x (en_sink w) = limited (height tree < MAX_DEPTH) (settle tree)"
    using codec_result [OF assms(1), where offsets = offsets and collections = collections and edges = edges and x = x
        and 'e = 'e] assms(2) fin(1) by simp
  then show ?thesis
    using doc to_tree_any [OF fin(1), where 'f = unit] by (auto simp: document_of_def)
qed

lemma fixed_scratch_suffices:
  "\<exists>w. encode vec_emit [0, 0] [] [] (S_Bool True) [] = (Inr w :: unit encode_failure ser_error + u8 list encoder)"
  using small_scratch_suffices [of "[]"] by (simp add: encode_with_def small_scratch_def)

theorem root_move_keeps_document_witness:
  "sdata_ok (S_Bool True) \<and>
   (\<exists>w doc. encode vec_emit [0, 0] [] [] (S_Bool True) [] = (Inr w :: unit encode_failure ser_error + u8 list encoder) \<and>
      make_root_first (en_sink w) = (Inr () :: unit plist_error + unit, doc) \<and>
      from_slice plain_outside doc = from_slice plain_outside (en_sink w))"
proof -
  obtain w where w: "encode vec_emit [0, 0] [] [] (S_Bool True) [] = (Inr w :: unit encode_failure ser_error + u8 list encoder)"
    using fixed_scratch_suffices by blast
  then show ?thesis
    using root_move_keeps_document [OF _ w, where x = plain_outside and 'f = unit] by (auto split: prod.splits)
qed

section \<open>Fixed scratch\<close>



section \<open>The caching serializer\<close>

text \<open>
  A caching serializer never carries bytes from one document to the next: the buffer it keeps
  is empty when it is made, after every call, failed or not, and after a buffer is reclaimed; so each
  call gives a document of its own argument alone, which \<open>deserialize\<close> reads.
\<close>
lemma caching_serializer_is_fresh:
  assumes "sdata_ok v" "ca_buf c = []"
  shows "ca_buf (caching_new n) = [] \<and> ca_buf (caching_reclaim buf c') = [] \<and>
    (case (caching_serialize left v c :: ('e encode_failure ser_error plist_error + u8 list) \<times> caching_serializer) of
       (r, c') \<Rightarrow> ca_buf c' = [] \<and>
         (case r of
            Inr doc \<Rightarrow> document_of v x doc \<and> caching_deserialize x doc = map_sum Plist_Decode id (from_slice x doc)
          | Inl e \<Rightarrow> failed_for v e (ca_scratch c')))"
proof (intro conjI)
  show "ca_buf (caching_new n) = []" "ca_buf (caching_reclaim buf c') = []"
    by (simp_all add: caching_new_def caching_reclaim_def)
  have "document_of v x doc \<Longrightarrow> doc \<noteq> []" for doc
    by (auto simp: document_of_def HEADER_def)
  moreover have "case encode_reusing left v [] (ca_scratch c) of
      (Inr _, out, s') \<Rightarrow> \<exists>doc. out = [] @ doc \<and> document_of v x doc
    | (Inl e :: 'e encode_failure ser_error plist_error + unit, out, s') \<Rightarrow> out = [] \<and> failed_for v e s'"
    by (rule reusing_result [OF assms(1)])
  ultimately show "case (caching_serialize left v c :: ('e encode_failure ser_error plist_error + u8 list) \<times> caching_serializer) of
       (r, c') \<Rightarrow> ca_buf c' = [] \<and>
         (case r of
            Inr doc \<Rightarrow> document_of v x doc \<and> caching_deserialize x doc = map_sum Plist_Decode id (from_slice x doc)
          | Inl e \<Rightarrow> failed_for v e (ca_scratch c'))"
    using assms(2)
    by (cases "encode_reusing left v [] (ca_scratch c) :: ('e encode_failure ser_error plist_error + unit) \<times> u8 list \<times> scratch"
          rule: prod_cases3)
      (auto simp: caching_serialize_def caching_reclaim_def caching_deserialize_def split: sum.splits)
qed

lemma caching_serializer_is_fresh_witness:
  "sdata_ok (S_Bool True) \<and>
   (\<exists>doc c'. caching_serialize id (S_Bool True) \<lparr>ca_buf = [], ca_size = 4096, ca_scratch = small_scratch\<rparr> =
      (Inr doc :: unit encode_failure ser_error plist_error + u8 list, c') \<and> ca_buf c' = [] \<and>
      caching_deserialize plain_outside doc = Inr (P_Boolean True))"
proof -
  have tree: "to_tree (S_Bool True) = (Inr (P_Boolean True) :: unit ser_error + pvalue)"
    by (simp add: to_tree_def serialize_root_def scalar_item_def)
  let ?c = "\<lparr>ca_buf = [], ca_size = 4096, ca_scratch = small_scratch\<rparr>"
  obtain out s' where "encode_reusing id (S_Bool True) [] small_scratch =
      (Inr () :: unit encode_failure ser_error plist_error + unit, out, s')"
    using reusing_small_scratch by blast
  then have run: "caching_serialize id (S_Bool True) ?c =
      (Inr out :: unit encode_failure ser_error plist_error + u8 list, ?c\<lparr>ca_scratch := s'\<rparr>)"
    by (simp add: caching_serialize_def)
  then have "document_of (S_Bool True) plain_outside out"
    "caching_deserialize plain_outside out = map_sum Plist_Decode id (from_slice plain_outside out)"
    using caching_serializer_is_fresh [where v = "S_Bool True" and c = ?c and left = id and x = plain_outside and 'e = unit]
    by simp_all
  then have "caching_deserialize plain_outside out = Inr (P_Boolean True)"
    by (simp add: document_of_def tree limited_def MAX_DEPTH_def)
  then show ?thesis
    using run by simp
qed

end
