(* ===== verification/Csm_Wire.thy ===== *)
theory Csm_Wire
  imports Text_Encoding
begin

text \<open>
  \<open>core/catplay_csm/src/decoder/wire\<close>: the parameters of control session messages as a sequence of
  length, identifier and value. A reader streams them to a callback: the model returns the list of calls.
  A writer counts what it passes to its callback: the model collects it. Measuring is a run of the same
  writer whose output is dropped.
\<close>

section \<open>Errors and parameters\<close>

datatype csm_error =
    Csm_Overflow
  | Csm_Underflow
  | Packet_Magic
  | Packet_Underflow
  | Packet_Overflow
  | Packet_Unknown

record csm_param =
  cp_id :: u16
  cp_value :: "u8 list"

section \<open>Reading\<close>

record csm_reader =
  cr_data :: "u8 list"
  cr_underflow :: bool
  cr_overflow :: bool

definition csm_reader_new :: "u8 list \<Rightarrow> csm_reader" where
  "csm_reader_new data = \<lparr>cr_data = data, cr_underflow = False, cr_overflow = False\<rparr>"

text \<open>The loop of \<open>stream_all_erased\<close>: the parameters, the data that is left, and whether a length was wrong.\<close>

function stream_params :: "u8 list \<Rightarrow> csm_param list \<times> u8 list \<times> bool" where
  "stream_params data =
     (if length data < 4 then ([], data, False)
      else
        let len = unat (be16_of (data ! 0) (data ! 1)); i = be16_of (data ! 2) (data ! 3)
        in if length data < len \<or> len < 4 then ([], data, True)
           else
             let (params, rest, overflow) = stream_params (drop len data)
             in (\<lparr>cp_id = i, cp_value = take (len - 4) (drop 4 data)\<rparr> # params, rest, overflow))"
  by pat_completeness auto
termination
  by (relation "measure length") auto

declare stream_params.simps [simp del]

definition stream_all :: "csm_reader \<Rightarrow> csm_param list \<times> csm_reader" where
  "stream_all r =
     (let (params, rest, overflow) = stream_params (cr_data r)
      in (params, r\<lparr>cr_overflow := cr_overflow r \<or> overflow, cr_underflow := rest \<noteq> []\<rparr>))"

definition count_repeating :: "u16 \<Rightarrow> csm_reader \<Rightarrow> usize" where
  "count_repeating i r =
     length (filter (\<lambda>p. cp_id p = i) (fst (stream_all (csm_reader_new (cr_data r)))))"

definition reader_take_error :: "csm_reader \<Rightarrow> csm_error option" where
  "reader_take_error r =
     (if cr_underflow r then Some Csm_Underflow
      else if cr_overflow r then Some Csm_Overflow
      else None)"

section \<open>Writing\<close>

record csm_writer =
  cw_out :: "u8 list"
  cw_written :: usize
  cw_overflow :: bool

definition csm_writer_new :: "u8 list \<Rightarrow> csm_writer" where
  "csm_writer_new out = \<lparr>cw_out = out, cw_written = 0, cw_overflow = False\<rparr>"

definition write_data_chunk :: "u8 list \<Rightarrow> csm_writer \<Rightarrow> csm_writer" where
  "write_data_chunk data w =
     (case checked_add (cw_written w) (length data) of
        Some written \<Rightarrow> w\<lparr>cw_written := written, cw_out := cw_out w @ data\<rparr>
      | None \<Rightarrow> w\<lparr>cw_overflow := True\<rparr>)"

definition write_tlv_header :: "u16 \<Rightarrow> usize \<Rightarrow> csm_writer \<Rightarrow> csm_writer" where
  "write_tlv_header i value_len w =
     (if 65535 - 4 < value_len then w\<lparr>cw_overflow := True\<rparr>
      else write_data_chunk (be16_bytes i) (write_data_chunk (be16_bytes (of_nat (value_len + 4))) w))"

definition write_tlv :: "u16 \<Rightarrow> u8 list \<Rightarrow> csm_writer \<Rightarrow> csm_writer" where
  "write_tlv i data w = write_data_chunk data (write_tlv_header i (length data) w)"

definition write_params :: "csm_param list \<Rightarrow> csm_writer \<Rightarrow> csm_writer" where
  "write_params params w = foldl (\<lambda>w p. write_tlv (cp_id p) (cp_value p) w) w params"

definition writer_take_error :: "csm_writer \<Rightarrow> csm_error option" where
  "writer_take_error w = (if cw_overflow w then Some Csm_Overflow else None)"

text \<open>\<open>measure\<close>, \<open>with_vec\<close> (the vector behind the writer, and the count) and \<open>serialize\<close>.\<close>

definition csm_measured :: "(csm_writer \<Rightarrow> csm_writer) \<Rightarrow> usize" where
  "csm_measured run = cw_written (run (csm_writer_new []))"

definition csm_with_vec :: "(csm_writer \<Rightarrow> csm_writer) \<Rightarrow> u8 list \<Rightarrow> u8 list \<times> usize" where
  "csm_with_vec run vec = (let w = run (csm_writer_new vec) in (cw_out w, cw_written w))"

definition csm_serialized :: "(csm_writer \<Rightarrow> csm_writer) \<Rightarrow> u8 list" where
  "csm_serialized run = fst (csm_with_vec run [])"

section \<open>What the reader sees of what the writer writes\<close>

definition tlv :: "u16 \<Rightarrow> u8 list \<Rightarrow> u8 list" where
  "tlv i data = be16_bytes (of_nat (length data + 4)) @ be16_bytes i @ data"

abbreviation tlv_fits :: "u8 list \<Rightarrow> bool" where
  "tlv_fits data \<equiv> length data \<le> 65531"

definition tlvs :: "csm_param list \<Rightarrow> u8 list" where
  "tlvs params = concat (map (\<lambda>p. tlv (cp_id p) (cp_value p)) params)"

lemma tlvs_simps [simp]:
  "tlvs [] = []"
  "tlvs (p # ps) = tlv (cp_id p) (cp_value p) @ tlvs ps"
  "tlvs (ps @ qs) = tlvs ps @ tlvs qs"
  by (simp_all add: tlvs_def)

lemma length_tlv [simp]: "length (tlv i data) = length data + 4"
  by (simp add: tlv_def)

lemma tlv_eq:
  "tlv i data = ucast (drop_bit 8 (of_nat (length data + 4) :: u16)) # ucast (of_nat (length data + 4) :: u16) #
     ucast (drop_bit 8 i) # ucast i # data"
  by (simp add: tlv_def be16_bytes_def)

lemma stream_params_Cons:
  "stream_params (a # b # c # d # rest) =
    (let len = unat (be16_of a b)
     in if length rest + 4 < len \<or> len < 4 then ([], a # b # c # d # rest, True)
        else
          let (params, left, overflow) = stream_params (drop (len - 4) rest)
          in (\<lparr>cp_id = be16_of c d, cp_value = take (len - 4) rest\<rparr> # params, left, overflow))"
proof -
  have "drop n (a # b # c # d # rest) = drop (n - 4) rest" if "4 \<le> n" for n
    using that by (auto simp: drop_Cons' numeral_eq_Suc)
  then show ?thesis
    by (subst stream_params.simps) (simp add: Let_def)
qed

lemma stream_short: "length data < 4 \<Longrightarrow> stream_params data = ([], data, False)"
  by (simp add: stream_params.simps)

lemma stream_tlv:
  assumes "tlv_fits data"
  shows "stream_params (tlv i data @ tail) =
    (let (params, rest, overflow) = stream_params tail
     in (\<lparr>cp_id = i, cp_value = data\<rparr> # params, rest, overflow))"
proof -
  have len: "unat (of_nat (length data + 4) :: u16) = length data + 4"
    using assms by (simp add: unat_of_nat del: of_nat_add)
  show ?thesis
    unfolding tlv_eq by (simp add: stream_params_Cons len Let_def del: of_nat_add)
qed

lemma stream_tlvs:
  assumes "list_all (\<lambda>p. tlv_fits (cp_value p)) params"
  shows "stream_params (tlvs params @ tail) = (let (ps, rest, overflow) = stream_params tail in (params @ ps, rest, overflow))"
  using assms
proof (induction params)
  case (Cons p ps)
  then show ?case
    by (simp add: stream_tlv split: prod.splits)
qed (simp split: prod.splits)

lemma stream_params_Nil [simp]: "stream_params [] = ([], [], False)"
  by (simp add: stream_params.simps)

lemma stream_all_tlvs:
  "list_all (\<lambda>p. tlv_fits (cp_value p)) params \<Longrightarrow> stream_params (tlvs params) = (params, [], False)"
  using stream_tlvs [of params "[]"] by simp

text \<open>Whatever is read, the parameters and what is left are the data: nothing is skipped or invented.\<close>

lemma stream_accounts:
  "stream_params data = (params, rest, overflow) \<Longrightarrow>
     data = tlvs params @ rest \<and> list_all (\<lambda>p. tlv_fits (cp_value p)) params \<and> (overflow \<longleftrightarrow> 4 \<le> length rest)"
proof (induction "length data" arbitrary: data params rest overflow rule: less_induct)
  case less
  show ?case
  proof (cases "length data < 4")
    case True
    then show ?thesis
      using less.prems by (auto simp: stream_short)
  next
    case False
    then obtain a b c d left where data: "data = a # b # c # d # left"
      by (cases data; cases "tl data"; cases "tl (tl data)"; cases "tl (tl (tl data))") auto
    let ?len = "unat (be16_of a b)"
    show ?thesis
    proof (cases "length left + 4 < ?len \<or> ?len < 4")
      case True
      then show ?thesis
        using less.prems by (auto simp: data stream_params_Cons Let_def)
    next
      case False
      obtain ps r f where rec: "stream_params (drop (?len - 4) left) = (ps, r, f)"
        by (cases "stream_params (drop (?len - 4) left)")
      have result: "params = \<lparr>cp_id = be16_of c d, cp_value = take (?len - 4) left\<rparr> # ps" "rest = r" "overflow = f"
        using less.prems False rec by (auto simp: data stream_params_Cons Let_def)
      have ih: "drop (?len - 4) left = tlvs ps @ r" "list_all (\<lambda>p. tlv_fits (cp_value p)) ps" "f \<longleftrightarrow> 4 \<le> length r"
        using less.hyps [OF _ rec] by (auto simp: data)
      have len: "length (take (?len - 4) left) + 4 = ?len" "?len < 65536"
        using False unat_range [of "be16_of a b"] by auto
      have "tlv (be16_of c d) (take (?len - 4) left) = a # b # c # d # take (?len - 4) left"
        unfolding tlv_eq len(1) by simp
      then have "data = tlv (be16_of c d) (take (?len - 4) left) @ drop (?len - 4) left"
        by (simp add: data)
      then show ?thesis
        using ih len by (simp add: result)
    qed
  qed
qed

end
