(* ===== verification/Int_Bytes.thy ===== *)
theory Int_Bytes
  imports Prelude
begin

text \<open>
  Integers of any width and sign in big-endian bytes: \<open>to_be_bytes\<close>, \<open>from_be_bytes\<close>, and their round trips.
\<close>

section \<open>Definitions\<close>

text \<open>\<open>to_be_bytes\<close> of an integer of \<open>n\<close> bytes.\<close>

definition int_be_bytes :: "nat \<Rightarrow> int \<Rightarrow> u8 list" where
  "int_be_bytes n i = map (\<lambda>k. of_int (i div 256 ^ k)) (rev [0..<n])"

text \<open>\<open>from_be_bytes\<close> of the first \<open>n\<close> bytes.\<close>

definition be_uint :: "u8 list \<Rightarrow> int" where
  "be_uint bytes = foldl (\<lambda>i b. i * 256 + uint b) 0 bytes"

definition int_from_be :: "nat \<Rightarrow> bool \<Rightarrow> u8 list \<Rightarrow> int" where
  "int_from_be n sg bytes =
     (let i = be_uint (take n bytes) in if sg \<and> 256 ^ n div 2 \<le> i then i - 256 ^ n else i)"

definition int_ok :: "nat \<Rightarrow> bool \<Rightarrow> int \<Rightarrow> bool" where
  "int_ok n sg i \<longleftrightarrow>
     (if sg then - (256 ^ n div 2) \<le> i \<and> i < 256 ^ n div 2 else 0 \<le> i \<and> i < 256 ^ n)"

section \<open>Round trips\<close>

lemma length_int_be_bytes [simp]: "length (int_be_bytes n i) = n"
  by (simp add: int_be_bytes_def)

lemma int_be_bytes_Suc: "int_be_bytes (Suc n) i = of_int (i div 256 ^ n) # int_be_bytes n i"
  by (simp add: int_be_bytes_def)

lemma uint_byte: "uint (of_int i :: u8) = i mod 256"
  by (simp add: uint_word_of_int)

lemma be_uint_from:
  "foldl (\<lambda>i b. i * 256 + uint b) (i div 256 ^ n) (int_be_bytes n i) = i"
proof (induction n)
  case (Suc n)
  have "i div 256 ^ Suc n * 256 + i div 256 ^ n mod 256 = i div 256 ^ n"
    by (simp add: zdiv_zmult2_eq mult.commute [of 256])
  then show ?case
    using Suc by (simp add: int_be_bytes_Suc uint_byte)
qed (simp add: int_be_bytes_def)

lemma foldl_be_shift:
  "foldl (\<lambda>i b. i * 256 + uint b) a bytes = a * 256 ^ length bytes + be_uint (bytes :: u8 list)"
proof (induction bytes arbitrary: a)
  case (Cons b bytes)
  have "be_uint (b # bytes) = uint b * 256 ^ length bytes + be_uint bytes"
    using Cons [of "uint b"] by (simp add: be_uint_def)
  then show ?case
    using Cons [of "a * 256 + uint b"] by (simp add: algebra_simps)
qed (simp add: be_uint_def)

lemma be_uint_int_be: "be_uint (int_be_bytes n i) = i mod 256 ^ n"
  using be_uint_from [of i n] foldl_be_shift [of "i div 256 ^ n" "int_be_bytes n i"]
    div_mult_mod_eq [of i "256 ^ n"] by simp

lemma be_uint_range: "0 \<le> be_uint bytes \<and> be_uint bytes < 256 ^ length bytes"
proof (induction bytes)
  case (Cons b bytes)
  have "be_uint (b # bytes) = uint b * 256 ^ length bytes + be_uint bytes"
    using foldl_be_shift [of "uint b" bytes] by (simp add: be_uint_def)
  moreover have "0 \<le> uint b" "uint b \<le> 255"
    using uint_lt2p [of b] by simp_all
  then have "0 \<le> uint b * 256 ^ length bytes" "uint b * 256 ^ length bytes \<le> (255 :: int) * 256 ^ length bytes"
    by (simp_all add: mult_right_mono)
  ultimately show ?case
    using Cons unfolding list.size(4) add_0_right One_nat_def add_Suc_right power_Suc by linarith
qed (simp add: be_uint_def)

lemma half_twice: "0 < n \<Longrightarrow> (256 :: int) ^ n div 2 * 2 = 256 ^ n"
  by (cases n) simp_all

lemma int_ok_0:
  assumes "0 < n"
  shows "int_ok n sg 0"
proof -
  have "(0 :: int) < 256 ^ n div 2 * 2"
    unfolding half_twice [OF assms] by simp
  then have "(0 :: int) < 256 ^ n div 2"
    by linarith
  then show ?thesis
    unfolding int_ok_def by simp
qed

lemma int_from_be_ok:
  assumes "n \<le> length bytes" "0 < n"
  shows "int_ok n sg (int_from_be n sg bytes)"
  using be_uint_range [of "take n bytes"] half_twice [OF assms(2)] assms(1)
  unfolding int_ok_def int_from_be_def Let_def length_take min_absorb2 [OF assms(1)] by auto

lemma int_from_be_roundtrip:
  assumes "int_ok n sg i" "0 < n"
  shows "int_from_be n sg (int_be_bytes n i @ rest) = i"
proof (cases "0 \<le> i")
  case True
  then have "i mod 256 ^ n = i"
    using assms(1) half_twice [OF assms(2)] by (auto simp: int_ok_def split: if_splits)
  then show ?thesis
    using True assms(1) half_twice [OF assms(2)]
    by (auto simp: int_ok_def int_from_be_def be_uint_int_be Let_def split: if_splits)
next
  case False
  then have "(i + 256 ^ n) mod 256 ^ n = i + 256 ^ n"
    using assms(1) half_twice [OF assms(2)] by (intro mod_pos_pos_trivial) (auto simp: int_ok_def split: if_splits)
  then have "i mod 256 ^ n = i + 256 ^ n"
    by simp
  then show ?thesis
    using False assms(1) half_twice [OF assms(2)]
    by (auto simp: int_ok_def int_from_be_def be_uint_int_be Let_def split: if_splits)
qed

lemma int_be_bytes_shift: "int_be_bytes n (i + c * 256 ^ n) = int_be_bytes n i"
proof (induction n arbitrary: c)
  case (Suc n)
  have "(i + c * 256 ^ Suc n) div 256 ^ n = (i + c * 256 * 256 ^ n) div 256 ^ n"
    by (simp add: mult.assoc)
  also have "\<dots> = i div 256 ^ n + c * 256"
    by simp
  finally have "of_int ((i + c * 256 ^ Suc n) div 256 ^ n) = (of_int (i div 256 ^ n) :: u8)"
    by (simp only: uint_byte word_uint_eq_iff) simp
  moreover have "int_be_bytes n (i + c * 256 ^ Suc n) = int_be_bytes n i"
    using Suc [of "c * 256"] by (simp add: mult.assoc)
  ultimately show ?case
    by (simp only: int_be_bytes_Suc)
qed (simp add: int_be_bytes_def)

lemma int_be_bytes_be_uint: "int_be_bytes (length bytes) (be_uint bytes) = bytes"
proof (induction bytes)
  case (Cons b bytes)
  have "be_uint (b # bytes) = be_uint bytes + uint b * 256 ^ length bytes"
    using foldl_be_shift [of "uint b" bytes] by (simp add: be_uint_def)
  moreover have "be_uint bytes div 256 ^ length bytes = 0"
    using be_uint_range [of bytes] by (simp add: div_pos_pos_trivial)
  ultimately show ?case
    using Cons by (simp add: int_be_bytes_Suc int_be_bytes_shift)
qed (simp add: int_be_bytes_def)

lemma int_be_bytes_from_be [simp]:
  assumes "length bytes = n"
  shows "int_be_bytes n (int_from_be n sg bytes) = bytes"
  using assms int_be_bytes_be_uint [of bytes] int_be_bytes_shift [of n "be_uint bytes" "- 1"]
  by (auto simp: int_from_be_def Let_def)

end
