(* ===== verification/Csm_Codec.thy ===== *)
theory Csm_Codec
  imports Csm_Wire Int_Bytes
begin

text \<open>
  \<open>core/catplay_csm/src/decoder/prim\<close>, \<open>alloc\<close>, \<open>wire/project.rs\<close> and \<open>packets/macros.rs\<close>: the codec of message
  fields. The types that can be fields are the datatype \<open>csm_type\<close>, a struct being the table of its fields
  as the macro \<open>csm_struct!\<close> lists them; the values of all types are the datatype \<open>csm_value\<close>. The
  implementations of \<open>CsmPayloadEncode\<close>, \<open>CsmEncode\<close>, \<open>CsmDecode\<close> and \<open>CsmAccum\<close> are functions over the type.
\<close>

section \<open>Types and values\<close>

text \<open>
  Integers are given by their width in bytes and their sign. \<open>C_U8_Array n\<close> is \<open>[u8; n]\<close> and the packed
  sequence of \<open>n\<close> bytes, which share their implementation. Enumerations list the names and discriminants of
  their variants, the default first; a value is its discriminant. A struct is known by its name and, when it
  is a message (\<open>packet_type!\<close>), its \<open>PACKET_ID\<close>.
\<close>

type_synonym struct_name = "string \<times> u16 option"

datatype csm_count = Count_One | Count_Optional | Count_Zero_Or_More | Count_One_Or_More

datatype csm_type =
    C_Bool
  | C_Int nat bool
  | C_Enum "(string \<times> u8) list"
  | C_Rational nat bool
  | C_String
  | C_Byte_Array
  | C_Flag
  | C_U8_Array nat
  | C_Packed csm_type
  | C_Tight csm_type nat
  | C_Struct struct_name "csm_field list"
and csm_field = Field u16 csm_count string csm_type

datatype csm_value =
    V_Bool bool
  | V_Int int
  | V_Enum u8
  | V_Rational int int
  | V_String "u8 list"
  | V_Bytes "u8 list"
  | V_Flag bool
  | V_List "csm_value list"
  | V_Struct "csm_slot list"
and csm_slot = Slot_One csm_value | Slot_Option "csm_value option" | Slot_Vec "csm_value list"

abbreviation C_U8 :: csm_type where "C_U8 \<equiv> C_Int 1 False"
abbreviation C_U16 :: csm_type where "C_U16 \<equiv> C_Int 2 False"
abbreviation C_U32 :: csm_type where "C_U32 \<equiv> C_Int 4 False"
abbreviation C_U64 :: csm_type where "C_U64 \<equiv> C_Int 8 False"
abbreviation C_I8 :: csm_type where "C_I8 \<equiv> C_Int 1 True"
abbreviation C_I16 :: csm_type where "C_I16 \<equiv> C_Int 2 True"
abbreviation C_I32 :: csm_type where "C_I32 \<equiv> C_Int 4 True"
abbreviation C_I64 :: csm_type where "C_I64 \<equiv> C_Int 8 True"
abbreviation C_Rat32 :: csm_type where "C_Rat32 \<equiv> C_Rational 4 True"

text \<open>\<open>CsmPackedSize\<close>: the bytes of a packed element; 0 for the types that are none.\<close>

primrec packed_size :: "csm_type \<Rightarrow> usize" where
  "packed_size C_Bool = 1"
| "packed_size (C_Int width sg) = width"
| "packed_size (C_Enum variants) = 1"
| "packed_size (C_Rational width sg) = 0"
| "packed_size C_String = 0"
| "packed_size C_Byte_Array = 0"
| "packed_size C_Flag = 0"
| "packed_size (C_U8_Array n) = n"
| "packed_size (C_Packed t) = 0"
| "packed_size (C_Tight t n) = packed_size t * n"
| "packed_size (C_Struct name fs) = 0"

text \<open>\<open>Default\<close>.\<close>

primrec default_value :: "csm_type \<Rightarrow> csm_value" and default_slot :: "csm_field \<Rightarrow> csm_slot" where
  "default_value C_Bool = V_Bool False"
| "default_value (C_Int width sg) = V_Int 0"
| "default_value (C_Enum variants) = V_Enum (snd (hd variants))"
| "default_value (C_Rational width sg) = V_Rational 0 0"
| "default_value C_String = V_String []"
| "default_value C_Byte_Array = V_Bytes []"
| "default_value C_Flag = V_Flag False"
| "default_value (C_U8_Array n) = V_Bytes (replicate n 0)"
| "default_value (C_Packed t) = V_List []"
| "default_value (C_Tight t n) = V_List (replicate n (default_value t))"
| "default_value (C_Struct name fs) = V_Struct (map default_slot fs)"
| "default_slot (Field i count name t) =
     (case count of
        Count_One \<Rightarrow> Slot_One (default_value t)
      | Count_Optional \<Rightarrow> Slot_Option None
      | _ \<Rightarrow> Slot_Vec [])"

section \<open>Encoding\<close>

text \<open>The types without parts: \<open>bool\<close>, integers, enumerations, rationals, strings, byte arrays, flags.\<close>

definition encode_bool :: "bool \<Rightarrow> csm_writer \<Rightarrow> csm_writer" where
  [simp]: "encode_bool b w = write_data_chunk [if b then 1 else 0] w"

definition encode_int :: "nat \<Rightarrow> int \<Rightarrow> csm_writer \<Rightarrow> csm_writer" where
  [simp]: "encode_int width i w = write_data_chunk (int_be_bytes width i) w"

definition encode_enum :: "u8 \<Rightarrow> csm_writer \<Rightarrow> csm_writer" where
  [simp]: "encode_enum d w = write_data_chunk [d] w"

definition encode_rational :: "nat \<Rightarrow> int \<Rightarrow> int \<Rightarrow> csm_writer \<Rightarrow> csm_writer" where
  [simp]: "encode_rational width p q w =
     write_data_chunk (int_be_bytes width q) (write_data_chunk (int_be_bytes width p) w)"

definition encode_str :: "u8 list \<Rightarrow> csm_writer \<Rightarrow> csm_writer" where
  [simp]: "encode_str s w = write_data_chunk [0] (write_data_chunk s w)"

definition encode_u8_array :: "u8 list \<Rightarrow> csm_writer \<Rightarrow> csm_writer" where
  [simp]: "encode_u8_array b w = write_data_chunk b w"

definition encode_u8_slice :: "u8 list \<Rightarrow> csm_writer \<Rightarrow> csm_writer" where
  [simp]: "encode_u8_slice b w = write_data_chunk b w"

definition encode_flag :: "u16 \<Rightarrow> bool \<Rightarrow> csm_writer \<Rightarrow> csm_writer" where
  [simp]: "encode_flag i present w = (if present then write_tlv i [] w else w)"

text \<open>
  Sequences: \<open>CsmPacked\<close>, the slice behind \<open>CsmPackedTight\<close> with its measure, and the repeated
  parameter of an option or a vector, over the function that encodes an element.
\<close>

definition encode_packed :: "(csm_value \<Rightarrow> csm_writer \<Rightarrow> csm_writer) \<Rightarrow> csm_value list \<Rightarrow> csm_writer \<Rightarrow> csm_writer" where
  [simp]: "encode_packed encode vs w = foldl (\<lambda>w v. encode v w) w vs"

definition encode_slice :: "(csm_value \<Rightarrow> csm_writer \<Rightarrow> csm_writer) \<Rightarrow> csm_value list \<Rightarrow> csm_writer \<Rightarrow> csm_writer" where
  [simp]: "encode_slice encode vs w = foldl (\<lambda>w v. encode v w) w vs"

definition measure_slice :: "(csm_value \<Rightarrow> usize) \<Rightarrow> csm_value list \<Rightarrow> usize" where
  [simp]: "measure_slice m vs = foldl (\<lambda>n v. min (usize_bound - 1) (n + m v)) 0 vs"

definition encode_option :: "(csm_value \<Rightarrow> csm_writer \<Rightarrow> csm_writer) \<Rightarrow> csm_value option \<Rightarrow> csm_writer \<Rightarrow> csm_writer" where
  [simp]: "encode_option encode v w = (case v of Some v \<Rightarrow> encode v w | None \<Rightarrow> w)"

definition encode_vec :: "(csm_value \<Rightarrow> csm_writer \<Rightarrow> csm_writer) \<Rightarrow> csm_value list \<Rightarrow> csm_writer \<Rightarrow> csm_writer" where
  [simp]: "encode_vec encode vs w = foldl (\<lambda>w v. encode v w) w vs"

text \<open>
  \<open>encode_to_bytes\<close> and \<open>measure\<close> of each type, \<open>encode_param\<close>, and the encoding of a field and of the
  fields of a struct in their order. What is not of the type leaves the writer as it is: it has no
  counterpart in the code.
\<close>

function encode_to_bytes :: "csm_type \<Rightarrow> csm_value \<Rightarrow> csm_writer \<Rightarrow> csm_writer"
and measure_value :: "csm_type \<Rightarrow> csm_value \<Rightarrow> usize"
and encode_param :: "csm_type \<Rightarrow> u16 \<Rightarrow> csm_value \<Rightarrow> csm_writer \<Rightarrow> csm_writer"
and encode_field :: "csm_field \<Rightarrow> csm_slot \<Rightarrow> csm_writer \<Rightarrow> csm_writer"
and encode_fields :: "csm_field list \<Rightarrow> csm_slot list \<Rightarrow> csm_writer \<Rightarrow> csm_writer" where
  "encode_to_bytes C_Bool v w =
     (case v of V_Bool b \<Rightarrow> encode_bool b w | _ \<Rightarrow> w)"
| "encode_to_bytes (C_Int width sg) v w =
     (case v of V_Int i \<Rightarrow> encode_int width i w | _ \<Rightarrow> w)"
| "encode_to_bytes (C_Enum variants) v w =
     (case v of V_Enum d \<Rightarrow> encode_enum d w | _ \<Rightarrow> w)"
| "encode_to_bytes (C_Rational width sg) v w =
     (case v of V_Rational p q \<Rightarrow> encode_rational width p q w | _ \<Rightarrow> w)"
| "encode_to_bytes C_String v w =
     (case v of V_String s \<Rightarrow> encode_str s w | _ \<Rightarrow> w)"
| "encode_to_bytes C_Byte_Array v w = (case v of V_Bytes b \<Rightarrow> encode_u8_slice b w | _ \<Rightarrow> w)"
| "encode_to_bytes C_Flag v w = w"
| "encode_to_bytes (C_U8_Array n) v w = (case v of V_Bytes b \<Rightarrow> encode_u8_array b w | _ \<Rightarrow> w)"
| "encode_to_bytes (C_Packed t) v w =
     (case v of V_List vs \<Rightarrow> encode_packed (\<lambda>v w. encode_to_bytes t v w) vs w | _ \<Rightarrow> w)"
| "encode_to_bytes (C_Tight t n) v w =
     (case v of V_List vs \<Rightarrow> encode_slice (\<lambda>v w. encode_to_bytes t v w) vs w | _ \<Rightarrow> w)"
| "encode_to_bytes (C_Struct name fs) v w =
     (case v of V_Struct slots \<Rightarrow> encode_fields fs slots w | _ \<Rightarrow> w)"
| "measure_value t v =
     (case t of
        C_Bool \<Rightarrow> 1
      | C_Int width _ \<Rightarrow> width
      | C_Enum _ \<Rightarrow> 1
      | C_Rational width _ \<Rightarrow> width * 2
      | C_String \<Rightarrow> (case v of V_String s \<Rightarrow> length s + 1 | _ \<Rightarrow> 0)
      | C_Byte_Array \<Rightarrow> (case v of V_Bytes b \<Rightarrow> length b | _ \<Rightarrow> 0)
      | C_U8_Array n \<Rightarrow> n
      | C_Tight element _ \<Rightarrow>
          (case v of
             V_List vs \<Rightarrow> measure_slice (\<lambda>v. measure_value element v) vs
           | _ \<Rightarrow> 0)
      | _ \<Rightarrow> csm_measured (encode_to_bytes t v))"
| "encode_param t i v w =
     (if t = C_Flag then encode_flag i (v = V_Flag True) w
      else
        let len = measure_value t v; w = write_tlv_header i len w
        in if cw_overflow w then w else encode_to_bytes t v w)"
| "encode_field (Field i count name t) slot w =
     (case slot of
        Slot_One v \<Rightarrow> encode_param t i v w
      | Slot_Option v \<Rightarrow> encode_option (\<lambda>v w. encode_param t i v w) v w
      | Slot_Vec vs \<Rightarrow> encode_vec (\<lambda>v w. encode_param t i v w) vs w)"
| "encode_fields [] slots w = w"
| "encode_fields (f # fs) slots w =
     (case slots of [] \<Rightarrow> w | slot # slots \<Rightarrow> encode_fields fs slots (encode_field f slot w))"
  by pat_completeness auto
termination
  by (relation "measure (\<lambda>x. case x of
        Inl (Inl (t, _)) \<Rightarrow> 4 * size t
      | Inl (Inr (t, _)) \<Rightarrow> 4 * size t + 1
      | Inr (Inl (t, _)) \<Rightarrow> 4 * size t + 2
      | Inr (Inr (Inl (f, _))) \<Rightarrow> 4 * size f
      | Inr (Inr (Inr (fs, _))) \<Rightarrow> 4 * size_list size fs)") auto

declare measure_value.simps [simp del] encode_param.simps [simp del]

text \<open>\<open>CsmPayloadEncode::serialize\<close>.\<close>

definition serialize_value :: "csm_type \<Rightarrow> csm_value \<Rightarrow> u8 list" where
  "serialize_value t v = csm_serialized (encode_to_bytes t v)"

section \<open>Decoding\<close>

text \<open>\<open>String::decode_from_bytes\<close>: one final zero is not part of the string.\<close>

definition decode_string :: "u8 list \<Rightarrow> u8 list" where
  "decode_string data =
     from_utf8_lossy (if data \<noteq> [] \<and> last data = 0 then take (length data - 1) data else data)"

definition decode_bool :: "u8 list \<Rightarrow> bool" where
  [simp]: "decode_bool data \<longleftrightarrow> data \<noteq> [] \<and> hd data = 1"

definition decode_int :: "nat \<Rightarrow> bool \<Rightarrow> u8 list \<Rightarrow> int" where
  [simp]: "decode_int width sg data = (if length data < width then 0 else int_from_be width sg data)"

definition decode_enum :: "(string \<times> u8) list \<Rightarrow> u8 list \<Rightarrow> u8" where
  [simp]: "decode_enum variants data =
     (if data \<noteq> [] \<and> hd data \<in> snd ` set variants then hd data else snd (hd variants))"

definition decode_rational :: "nat \<Rightarrow> bool \<Rightarrow> u8 list \<Rightarrow> csm_value" where
  [simp]: "decode_rational width sg data =
     (if length data < width * 2 then V_Rational 0 0
      else V_Rational (int_from_be width sg data) (int_from_be width sg (drop width data)))"

definition decode_byte_array :: "u8 list \<Rightarrow> u8 list" where
  [simp]: "decode_byte_array data = data"

definition decode_u8_array :: "usize \<Rightarrow> u8 list \<Rightarrow> u8 list" where
  [simp]: "decode_u8_array n data = take n data @ replicate (n - length data) 0"

definition decode_packed :: "(u8 list \<Rightarrow> csm_value) \<Rightarrow> usize \<Rightarrow> u8 list \<Rightarrow> csm_value list" where
  [simp]: "decode_packed decode k data = map decode (chunks k data)"

definition decode_packed_array ::
    "(u8 list \<Rightarrow> csm_value) \<Rightarrow> csm_value \<Rightarrow> usize \<Rightarrow> usize \<Rightarrow> u8 list \<Rightarrow> csm_value list" where
  [simp]: "decode_packed_array decode absent k n data =
     (let cs = chunks k data
      in map (\<lambda>j. case slice_get cs j of Some chunk \<Rightarrow> decode chunk | None \<Rightarrow> absent) [0..<n])"

text \<open>\<open>prealloc\<close> of a field: a vector becomes an empty one, with room for what will be pushed.\<close>

definition prealloc_slot :: "csm_slot \<Rightarrow> csm_slot" where
  "prealloc_slot slot = (case slot of Slot_Vec _ \<Rightarrow> Slot_Vec [] | _ \<Rightarrow> slot)"

text \<open>
  \<open>decode_from_bytes\<close> of each type, \<open>add_param\<close> of a field, and \<open>feed_param\<close>: the first field with the
  identifier of the parameter takes it.
\<close>

function decode_from_bytes :: "csm_type \<Rightarrow> u8 list \<Rightarrow> csm_value"
and add_param :: "csm_field \<Rightarrow> csm_slot \<Rightarrow> u8 list \<Rightarrow> csm_slot"
and feed_param :: "csm_field list \<Rightarrow> csm_param \<Rightarrow> csm_slot list \<Rightarrow> csm_slot list" where
  "decode_from_bytes C_Bool data = V_Bool (decode_bool data)"
| "decode_from_bytes (C_Int width sg) data = V_Int (decode_int width sg data)"
| "decode_from_bytes (C_Enum variants) data = V_Enum (decode_enum variants data)"
| "decode_from_bytes (C_Rational width sg) data = decode_rational width sg data"
| "decode_from_bytes C_String data = V_String (decode_string data)"
| "decode_from_bytes C_Byte_Array data = V_Bytes (decode_byte_array data)"
| "decode_from_bytes C_Flag data = V_Flag True"
| "decode_from_bytes (C_U8_Array n) data = V_Bytes (decode_u8_array n data)"
| "decode_from_bytes (C_Packed t) data = V_List (decode_packed (\<lambda>chunk. decode_from_bytes t chunk) (packed_size t) data)"
| "decode_from_bytes (C_Tight t n) data =
     V_List (decode_packed_array (\<lambda>chunk. decode_from_bytes t chunk) (default_value t) (packed_size t) n data)"
| "decode_from_bytes (C_Struct name fs) data =
     V_Struct (foldl (\<lambda>slots p. feed_param fs p slots) (map (\<lambda>f. prealloc_slot (default_slot f)) fs)
       (fst (stream_all (csm_reader_new data))))"
| "add_param (Field i count name t) slot data =
     (case slot of
        Slot_One _ \<Rightarrow> Slot_One (decode_from_bytes t data)
      | Slot_Option _ \<Rightarrow> Slot_Option (Some (decode_from_bytes t data))
      | Slot_Vec vs \<Rightarrow> Slot_Vec (vs @ [decode_from_bytes t data]))"
| "feed_param [] p slots = slots"
| "feed_param (f # fs) p slots =
     (case (f, slots) of
        (_, []) \<Rightarrow> []
      | (Field i count name t, slot # slots) \<Rightarrow>
          if cp_id p = i then add_param f slot (cp_value p) # slots
          else slot # feed_param fs p slots)"
  by pat_completeness auto
termination
  by (relation "measure (\<lambda>x. case x of
        Inl (t, _) \<Rightarrow> 4 * size t
      | Inr (Inl (f, _)) \<Rightarrow> 4 * size f
      | Inr (Inr (fs, _)) \<Rightarrow> 4 * size_list size fs + 1)") auto

end
