(* ===== verification/Csm_Fields.thy ===== *)
theory Csm_Fields
  imports Csm_Codec
begin

text \<open>
  What the codec of fields promises: the values of each type, the bytes they stand for, exact measures,
  and that decoding gives back what was encoded.
\<close>

section \<open>Well-formed types and their values\<close>

primrec field_id :: "csm_field \<Rightarrow> u16" where
  "field_id (Field i count name t) = i"

primrec type_ok :: "csm_type \<Rightarrow> bool" and field_ok :: "csm_field \<Rightarrow> bool" where
  "type_ok C_Bool = True"
| "type_ok (C_Int width sg) = (0 < width)"
| "type_ok (C_Enum variants) = (variants \<noteq> [])"
| "type_ok (C_Rational width sg) = (0 < width)"
| "type_ok C_String = True"
| "type_ok C_Byte_Array = True"
| "type_ok C_Flag = True"
| "type_ok (C_U8_Array n) = True"
| "type_ok (C_Packed t) = (type_ok t \<and> 0 < packed_size t)"
| "type_ok (C_Tight t n) = (type_ok t \<and> 0 < packed_size t)"
| "type_ok (C_Struct name fs) = (distinct (map field_id fs) \<and> list_all (\<lambda>b. b) (map field_ok fs))"
| "field_ok (Field i count name t) = type_ok t"

text \<open>The values of a type, all that the types of the program admit.\<close>

primrec typed :: "csm_type \<Rightarrow> csm_value \<Rightarrow> bool" and slot_typed :: "csm_field \<Rightarrow> csm_slot \<Rightarrow> bool" where
  "typed C_Bool v = (case v of V_Bool b \<Rightarrow> True | _ \<Rightarrow> False)"
| "typed (C_Int width sg) v = (case v of V_Int i \<Rightarrow> int_ok width sg i | _ \<Rightarrow> False)"
| "typed (C_Enum variants) v = (case v of V_Enum d \<Rightarrow> d \<in> snd ` set variants | _ \<Rightarrow> False)"
| "typed (C_Rational width sg) v =
     (case v of V_Rational p q \<Rightarrow> int_ok width sg p \<and> int_ok width sg q | _ \<Rightarrow> False)"
| "typed C_String v = (case v of V_String s \<Rightarrow> is_str s | _ \<Rightarrow> False)"
| "typed C_Byte_Array v = (case v of V_Bytes b \<Rightarrow> True | _ \<Rightarrow> False)"
| "typed C_Flag v = (case v of V_Flag b \<Rightarrow> True | _ \<Rightarrow> False)"
| "typed (C_U8_Array n) v = (case v of V_Bytes b \<Rightarrow> length b = n | _ \<Rightarrow> False)"
| "typed (C_Packed t) v = (case v of V_List vs \<Rightarrow> list_all (typed t) vs | _ \<Rightarrow> False)"
| "typed (C_Tight t n) v = (case v of V_List vs \<Rightarrow> length vs = n \<and> list_all (typed t) vs | _ \<Rightarrow> False)"
| "typed (C_Struct name fs) v =
     (case v of
        V_Struct slots \<Rightarrow> list_all2 (\<lambda>p slot. p slot) (map slot_typed fs) slots
      | _ \<Rightarrow> False)"
| "slot_typed (Field i count name t) slot =
     (case (count, slot) of
        (Count_One, Slot_One v) \<Rightarrow> typed t v
      | (Count_Optional, Slot_Option r) \<Rightarrow> (case r of None \<Rightarrow> True | Some v \<Rightarrow> typed t v)
      | (Count_Zero_Or_More, Slot_Vec vs) \<Rightarrow> list_all (typed t) vs
      | (Count_One_Or_More, Slot_Vec vs) \<Rightarrow> list_all (typed t) vs
      | _ \<Rightarrow> False)"

text \<open>
  An optional or repeated flag that is not set cannot be told from an absent one, since neither is written.
  \<open>has_type\<close> is a value without such flags, and \<open>as_read\<close> drops them.
\<close>

primrec has_type :: "csm_type \<Rightarrow> csm_value \<Rightarrow> bool" and slot_ok :: "csm_field \<Rightarrow> csm_slot \<Rightarrow> bool" where
  "has_type C_Bool v = (case v of V_Bool b \<Rightarrow> True | _ \<Rightarrow> False)"
| "has_type (C_Int width sg) v = (case v of V_Int i \<Rightarrow> int_ok width sg i | _ \<Rightarrow> False)"
| "has_type (C_Enum variants) v = (case v of V_Enum d \<Rightarrow> d \<in> snd ` set variants | _ \<Rightarrow> False)"
| "has_type (C_Rational width sg) v =
     (case v of V_Rational p q \<Rightarrow> int_ok width sg p \<and> int_ok width sg q | _ \<Rightarrow> False)"
| "has_type C_String v = (case v of V_String s \<Rightarrow> is_str s | _ \<Rightarrow> False)"
| "has_type C_Byte_Array v = (case v of V_Bytes b \<Rightarrow> True | _ \<Rightarrow> False)"
| "has_type C_Flag v = (case v of V_Flag b \<Rightarrow> True | _ \<Rightarrow> False)"
| "has_type (C_U8_Array n) v = (case v of V_Bytes b \<Rightarrow> length b = n | _ \<Rightarrow> False)"
| "has_type (C_Packed t) v = (case v of V_List vs \<Rightarrow> list_all (has_type t) vs | _ \<Rightarrow> False)"
| "has_type (C_Tight t n) v = (case v of V_List vs \<Rightarrow> length vs = n \<and> list_all (has_type t) vs | _ \<Rightarrow> False)"
| "has_type (C_Struct name fs) v =
     (case v of
        V_Struct slots \<Rightarrow> list_all2 (\<lambda>p slot. p slot) (map slot_ok fs) slots
      | _ \<Rightarrow> False)"
| "slot_ok (Field i count name t) slot =
     (case (count, slot) of
        (Count_One, Slot_One v) \<Rightarrow> has_type t v
      | (Count_Optional, Slot_Option r) \<Rightarrow> (case r of None \<Rightarrow> True | Some v \<Rightarrow> has_type t v \<and> v \<noteq> V_Flag False)
      | (Count_Zero_Or_More, Slot_Vec vs) \<Rightarrow> list_all (\<lambda>v. has_type t v \<and> v \<noteq> V_Flag False) vs
      | (Count_One_Or_More, Slot_Vec vs) \<Rightarrow> list_all (\<lambda>v. has_type t v \<and> v \<noteq> V_Flag False) vs
      | _ \<Rightarrow> False)"

primrec as_read :: "csm_value \<Rightarrow> csm_value" and slot_as_read :: "csm_slot \<Rightarrow> csm_slot" where
  "as_read (V_Bool b) = V_Bool b"
| "as_read (V_Int i) = V_Int i"
| "as_read (V_Enum d) = V_Enum d"
| "as_read (V_Rational p q) = V_Rational p q"
| "as_read (V_String s) = V_String s"
| "as_read (V_Bytes b) = V_Bytes b"
| "as_read (V_Flag b) = V_Flag b"
| "as_read (V_List vs) = V_List (map as_read vs)"
| "as_read (V_Struct slots) = V_Struct (map slot_as_read slots)"
| "slot_as_read (Slot_One v) = Slot_One (as_read v)"
| "slot_as_read (Slot_Option r) =
     Slot_Option (case map_option as_read r of Some v \<Rightarrow> if v = V_Flag False then None else Some v | None \<Rightarrow> None)"
| "slot_as_read (Slot_Vec vs) = Slot_Vec (filter (\<lambda>v. v \<noteq> V_Flag False) (map as_read vs))"

lemma as_read_flag [simp]: "as_read v = V_Flag b \<longleftrightarrow> v = V_Flag b"
  by (cases v) simp_all

section \<open>The bytes a value stands for\<close>

primrec slot_values :: "csm_slot \<Rightarrow> csm_value list" where
  "slot_values (Slot_One v) = [v]"
| "slot_values (Slot_Option r) = (case r of None \<Rightarrow> [] | Some v \<Rightarrow> [v])"
| "slot_values (Slot_Vec vs) = vs"

text \<open>\<open>bytes_of\<close> is the payload of a value, \<open>params_of\<close> the parameters of a field.\<close>

primrec bytes_of :: "csm_type \<Rightarrow> csm_value \<Rightarrow> u8 list" and params_of :: "csm_field \<Rightarrow> csm_slot \<Rightarrow> csm_param list" where
  "bytes_of C_Bool v = (case v of V_Bool b \<Rightarrow> [if b then 1 else 0] | _ \<Rightarrow> [])"
| "bytes_of (C_Int width sg) v = (case v of V_Int i \<Rightarrow> int_be_bytes width i | _ \<Rightarrow> [])"
| "bytes_of (C_Enum variants) v = (case v of V_Enum d \<Rightarrow> [d] | _ \<Rightarrow> [])"
| "bytes_of (C_Rational width sg) v =
     (case v of V_Rational p q \<Rightarrow> int_be_bytes width p @ int_be_bytes width q | _ \<Rightarrow> [])"
| "bytes_of C_String v = (case v of V_String s \<Rightarrow> s @ [0] | _ \<Rightarrow> [])"
| "bytes_of C_Byte_Array v = (case v of V_Bytes b \<Rightarrow> b | _ \<Rightarrow> [])"
| "bytes_of C_Flag v = []"
| "bytes_of (C_U8_Array n) v = (case v of V_Bytes b \<Rightarrow> b | _ \<Rightarrow> [])"
| "bytes_of (C_Packed t) v = (case v of V_List vs \<Rightarrow> concat (map (bytes_of t) vs) | _ \<Rightarrow> [])"
| "bytes_of (C_Tight t n) v = (case v of V_List vs \<Rightarrow> concat (map (bytes_of t) vs) | _ \<Rightarrow> [])"
| "bytes_of (C_Struct name fs) v =
     (case v of
        V_Struct slots \<Rightarrow> tlvs (concat (map (\<lambda>(p, slot). p slot) (zip (map params_of fs) slots)))
      | _ \<Rightarrow> [])"
| "params_of (Field i count name t) slot =
     map (\<lambda>v. \<lparr>cp_id = i, cp_value = bytes_of t v\<rparr>) (filter (\<lambda>v. v \<noteq> V_Flag False) (slot_values slot))"

text \<open>Every parameter, at every depth, fits the 16 bits of its length.\<close>

primrec fits :: "csm_type \<Rightarrow> csm_value \<Rightarrow> bool" and slot_fits :: "csm_field \<Rightarrow> csm_slot \<Rightarrow> bool" where
  "fits C_Bool v = True"
| "fits (C_Int width sg) v = True"
| "fits (C_Enum variants) v = True"
| "fits (C_Rational width sg) v = True"
| "fits C_String v = True"
| "fits C_Byte_Array v = True"
| "fits C_Flag v = True"
| "fits (C_U8_Array n) v = True"
| "fits (C_Packed t) v = True"
| "fits (C_Tight t n) v = True"
| "fits (C_Struct name fs) v =
     (case v of
        V_Struct slots \<Rightarrow> list_all2 (\<lambda>p slot. p slot) (map slot_fits fs) slots
      | _ \<Rightarrow> False)"
| "slot_fits (Field i count name t) slot =
     list_all (\<lambda>v. fits t v \<and> tlv_fits (bytes_of t v)) (slot_values slot)"

definition fields_params :: "csm_field list \<Rightarrow> csm_slot list \<Rightarrow> csm_param list" where
  "fields_params fs slots = concat (map2 params_of fs slots)"

lemma fields_params_simps [simp]:
  "fields_params [] slots = []"
  "fields_params fs [] = []"
  "fields_params (f # fs) (slot # slots) = params_of f slot @ fields_params fs slots"
  by (simp_all add: fields_params_def)

lemma struct_simps [simp]:
  "type_ok (C_Struct name fs) \<longleftrightarrow> distinct (map field_id fs) \<and> list_all field_ok fs"
  "typed (C_Struct name fs) (V_Struct slots) \<longleftrightarrow> list_all2 slot_typed fs slots"
  "has_type (C_Struct name fs) (V_Struct slots) \<longleftrightarrow> list_all2 slot_ok fs slots"
  "fits (C_Struct name fs) (V_Struct slots) \<longleftrightarrow> list_all2 slot_fits fs slots"
  "bytes_of (C_Struct name fs) (V_Struct slots) = tlvs (fields_params fs slots)"
  by (simp_all add: list_all2_map1 list.pred_map comp_def fields_params_def zip_map1 split_def)

declare type_ok.simps(11) [simp del] typed.simps(11) [simp del] has_type.simps(11) [simp del] fits.simps(11) [simp del] bytes_of.simps(11) [simp del]

lemma typed_struct: "typed (C_Struct name fs) v \<Longrightarrow> \<exists>slots. v = V_Struct slots \<and> list_all2 slot_typed fs slots"
  by (cases v) (simp_all add: typed.simps(11) list_all2_map1)

lemma slot_typed_values: "slot_typed (Field i count name t) slot \<Longrightarrow> v \<in> set (slot_values slot) \<Longrightarrow> typed t v"
  by (auto simp: list_all_iff split: csm_count.splits csm_slot.splits option.splits)

text \<open>The two agree on values without unset flags.\<close>

lemma has_type_typed:
  "has_type t v \<Longrightarrow> typed t v \<and> as_read v = v"
  "slot_ok f slot \<Longrightarrow> slot_typed f slot \<and> slot_as_read slot = slot"
proof (induction t and f arbitrary: v and slot)
  case (C_Packed t)
  then show ?case
    by (cases v) (auto simp: list_all_iff map_idI)
next
  case (C_Tight t n)
  then show ?case
    by (cases v) (auto simp: list_all_iff map_idI)
next
  case (C_Struct name fs)
  show ?case
  proof (cases v)
    case (V_Struct slots)
    then have all: "list_all2 slot_ok fs slots"
      using C_Struct.prems by simp
    then have "slot_as_read slot = slot" if "slot \<in> set slots" for slot
      using that C_Struct.IH by (fastforce simp: list_all2_conv_all_nth in_set_conv_nth)
    moreover have "list_all2 slot_typed fs slots"
      using all by (rule list.rel_mono_strong) (use C_Struct.IH in auto)
    ultimately show ?thesis
      by (simp add: V_Struct map_idI)
  qed (use C_Struct.prems in \<open>simp_all add: has_type.simps(11)\<close>)
next
  case (Field i count name t)
  then show ?case
    by (cases count; cases slot) (auto simp: list_all_iff map_idI split: option.splits intro!: filter_True)
qed (auto split: csm_value.splits)

end
