(* ===== verification/Csm_Roundtrip.thy ===== *)
theory Csm_Roundtrip
  imports Csm_Fields
begin

text \<open>
  The writer produces exactly the bytes a value stands for and measures them exactly; the reader gives
  every field its own parameters and so the value back.
\<close>

section \<open>Exact encoding\<close>

definition pushed :: "u8 list \<Rightarrow> csm_writer \<Rightarrow> csm_writer" where
  "pushed bytes w = w\<lparr>cw_out := cw_out w @ bytes, cw_written := cw_written w + length bytes\<rparr>"

definition has_room :: "nat \<Rightarrow> csm_writer \<Rightarrow> bool" where
  "has_room n w \<longleftrightarrow> \<not> cw_overflow w \<and> cw_written w + n < usize_bound"

lemma pushed_writer [simp]:
  "pushed [] w = w"
  "pushed ys (pushed xs w) = pushed (xs @ ys) w"
  "cw_overflow (pushed xs w) = cw_overflow w"
  "has_room n (pushed xs w) \<longleftrightarrow> has_room (length xs + n) w"
  by (simp_all add: pushed_def has_room_def add.assoc)

lemma has_room_le: "has_room n w \<Longrightarrow> m \<le> n \<Longrightarrow> has_room m w"
  by (simp add: has_room_def)

lemma has_room_new: "has_room n w \<Longrightarrow> has_room n (csm_writer_new out)"
  by (simp add: has_room_def csm_writer_new_def)

lemma write_chunk_pushed: "has_room (length bytes) w \<Longrightarrow> write_data_chunk bytes w = pushed bytes w"
  by (simp add: write_data_chunk_def checked_add_def has_room_def pushed_def)

lemma write_header_pushed:
  assumes "tlv_fits bytes" "has_room (length bytes + 4) w"
  shows "write_tlv_header i (length bytes) w = pushed (be16_bytes (of_nat (length bytes + 4)) @ be16_bytes i) w"
proof -
  have "has_room 2 w" "has_room 4 w"
    using assms(2) by (auto elim: has_room_le)
  then show ?thesis
    using assms(1) by (simp add: write_tlv_header_def write_chunk_pushed)
qed

lemma write_tlv_pushed:
  assumes "tlv_fits bytes" "has_room (length bytes + 4) w"
  shows "write_tlv i bytes w = pushed (tlv i bytes) w"
  using assms has_room_le [OF assms(2), of "length bytes"]
  by (simp add: write_tlv_def write_header_pushed write_chunk_pushed tlv_def add.commute)

lemma foldl_pushed:
  assumes "\<And>v w. v \<in> set vs \<Longrightarrow> has_room (length (b v)) w \<Longrightarrow> e v w = pushed (b v) w"
    and "has_room (length (concat (map b vs))) w"
  shows "foldl (\<lambda>w v. e v w) w vs = pushed (concat (map b vs)) w"
  using assms
proof (induction vs arbitrary: w)
  case (Cons v vs)
  moreover have "has_room (length (b v)) w"
    using Cons.prems(2) by (auto elim: has_room_le)
  ultimately show ?case
    by simp
qed simp

lemma measure_all:
  assumes "\<And>v. v \<in> set vs \<Longrightarrow> m v = length (b v)" "n + length (concat (map b vs)) < usize_bound"
  shows "foldl (\<lambda>n v. min (usize_bound - 1) (n + m v)) n vs = n + length (concat (map b vs))"
  using assms by (induction vs arbitrary: n) simp_all

lemma packed_fits: "0 < packed_size t \<Longrightarrow> fits t v"
  by (cases t) simp_all

lemma flag_typed: "typed t (V_Flag b) \<Longrightarrow> t = C_Flag"
  by (cases t) (auto dest: typed_struct)

lemma encode_param_pushed:
  assumes "t \<noteq> C_Flag \<Longrightarrow> encode_to_bytes t v (pushed header w) = pushed (header @ bytes_of t v) w \<and> measure_value t v = length (bytes_of t v)"
    and "typed t v" "tlv_fits (bytes_of t v)"
    and "has_room (length (tlvs (params_of (Field i Count_One name t) (Slot_One v)))) w"
    and header: "header = be16_bytes (of_nat (length (bytes_of t v) + 4)) @ be16_bytes i"
  shows "encode_param t i v w = pushed (tlvs (params_of (Field i Count_One name t) (Slot_One v))) w"
proof (cases "t = C_Flag")
  case True
  then obtain b where "v = V_Flag b"
    using assms(2) by (cases v) simp_all
  then show ?thesis
    using assms(4) True by (auto simp: encode_param.simps write_tlv_pushed)
next
  case False
  then have flag: "v \<noteq> V_Flag False"
    using assms(2) flag_typed by auto
  then have room: "has_room (length (bytes_of t v) + 4) w"
    using assms(4) by simp
  have "encode_param t i v w = encode_to_bytes t v (pushed header w)"
    using assms(1) False write_header_pushed [OF assms(3) room, of i] room
    by (simp add: encode_param.simps header has_room_def Let_def)
  then show ?thesis
    using assms(1) False flag by (simp add: header tlv_def)
qed

lemma encode_slot_pushed:
  assumes t: "\<And>v w. typed t v \<Longrightarrow> fits t v \<Longrightarrow> has_room (length (bytes_of t v)) w \<Longrightarrow>
      encode_to_bytes t v w = pushed (bytes_of t v) w \<and> measure_value t v = length (bytes_of t v)"
    and "slot_typed (Field i count name t) slot" "slot_fits (Field i count name t) slot"
    and "has_room (length (tlvs (params_of (Field i count name t) slot))) w"
  shows "encode_field (Field i count name t) slot w = pushed (tlvs (params_of (Field i count name t) slot)) w"
proof -
  let ?b = "\<lambda>v. tlvs (params_of (Field i Count_One name t) (Slot_One v))"
  have param: "encode_param t i v w = pushed (?b v) w"
    if "v \<in> set (slot_values slot)" "has_room (length (?b v)) w" for v w
  proof (rule encode_param_pushed [OF _ _ _ that(2) refl])
    have v: "typed t v" "fits t v" "tlv_fits (bytes_of t v)"
      using that(1) slot_typed_values [OF assms(2)] assms(3) by (auto simp: list_all_iff)
    then show "typed t v" "tlv_fits (bytes_of t v)"
      by simp_all
    assume "t \<noteq> C_Flag"
    then have "v \<noteq> V_Flag False"
      using flag_typed v(1) by auto
    then have "has_room (length (bytes_of t v)) w" "has_room (length (bytes_of t v)) (pushed (be16_bytes (of_nat (length (bytes_of t v) + 4)) @ be16_bytes i) w)"
      using that(2) has_room_le [of _ w "length (bytes_of t v)"] by (simp_all add: add.commute)
    then show "encode_to_bytes t v (pushed (be16_bytes (of_nat (length (bytes_of t v) + 4)) @ be16_bytes i) w) =
        pushed ((be16_bytes (of_nat (length (bytes_of t v) + 4)) @ be16_bytes i) @ bytes_of t v) w \<and>
      measure_value t v = length (bytes_of t v)"
      using t [OF v(1,2)] by simp
  qed
  have "tlvs (map (\<lambda>v. \<lparr>cp_id = i, cp_value = bytes_of t v\<rparr>) (filter (\<lambda>v. v \<noteq> V_Flag False) vs)) =
      concat (map ?b vs)" for vs
    by (induction vs) simp_all
  then have all: "tlvs (params_of (Field i count name t) slot) = concat (map ?b (slot_values slot))"
    by simp
  have "encode_field (Field i count name t) slot w = foldl (\<lambda>w v. encode_param t i v w) w (slot_values slot)"
    by (simp split: csm_slot.split option.split)
  then show ?thesis
    using foldl_pushed [of "slot_values slot" ?b "encode_param t i", OF param] assms(4)
    unfolding all by simp
qed

lemma encode_fields_pushed:
  assumes "\<And>f slot w. f \<in> set fs \<Longrightarrow> slot_typed f slot \<Longrightarrow> slot_fits f slot \<Longrightarrow>
      has_room (length (tlvs (params_of f slot))) w \<Longrightarrow> encode_field f slot w = pushed (tlvs (params_of f slot)) w"
    and "list_all2 slot_typed fs slots" "list_all2 slot_fits fs slots"
    and "has_room (length (tlvs (fields_params fs slots))) w"
  shows "encode_fields fs slots w = pushed (tlvs (fields_params fs slots)) w"
  using assms
proof (induction fs arbitrary: slots w)
  case (Cons f fs)
  then obtain slot more where slots: "slots = slot # more"
    by (cases slots) simp_all
  have "has_room (length (tlvs (params_of f slot))) w"
    using Cons.prems(4) by (auto simp: slots elim: has_room_le)
  then show ?case
    using Cons by (simp add: slots)
qed simp

text \<open>The bytes written, and the assertion on the measure in \<open>encode_param\<close>, for every type and field.\<close>

lemma encode_pushed:
  shows "\<And>v w. type_ok t \<Longrightarrow> typed t v \<Longrightarrow> fits t v \<Longrightarrow> has_room (length (bytes_of t v)) w \<Longrightarrow>
      encode_to_bytes t v w = pushed (bytes_of t v) w \<and> measure_value t v = length (bytes_of t v)"
    and "\<And>slot w. field_ok f \<Longrightarrow> slot_typed f slot \<Longrightarrow> slot_fits f slot \<Longrightarrow>
      has_room (length (tlvs (params_of f slot))) w \<Longrightarrow> encode_field f slot w = pushed (tlvs (params_of f slot)) w"
proof (induction t and f)
  case C_Bool
  then show ?case
    by (simp add: write_chunk_pushed measure_value.simps split: csm_value.splits)
next
  case (C_Int width sg)
  then show ?case
    by (simp add: write_chunk_pushed measure_value.simps split: csm_value.splits)
next
  case (C_Enum variants)
  then show ?case
    by (simp add: write_chunk_pushed measure_value.simps split: csm_value.splits)
next
  case (C_Rational width sg)
  then show ?case
    by (simp add: write_chunk_pushed has_room_le [of "width + width"] measure_value.simps split: csm_value.splits)
next
  case C_String
  then obtain s where "v = V_String s"
    by (cases v) simp_all
  then show ?case
    using C_String has_room_le [of "Suc (length s)" w "length s"]
    by (simp add: write_chunk_pushed measure_value.simps)
next
  case C_Byte_Array
  then show ?case
    by (simp add: write_chunk_pushed measure_value.simps split: csm_value.splits)
next
  case C_Flag
  then show ?case
    by (simp add: measure_value.simps csm_measured_def csm_writer_new_def)
next
  case (C_U8_Array n)
  then show ?case
    by (simp add: write_chunk_pushed measure_value.simps split: csm_value.splits)
next
  case (C_Packed t)
  then obtain vs where v: "v = V_List vs" "list_all (typed t) vs"
    by (cases v) simp_all
  have all: "foldl (\<lambda>w v. encode_to_bytes t v w) w vs = pushed (bytes_of (C_Packed t) v) w"
    if "has_room (length (bytes_of (C_Packed t) v)) w" for w
    using foldl_pushed [of vs "bytes_of t" "encode_to_bytes t" w] C_Packed.IH C_Packed.prems that v
    by (simp add: list_all_iff packed_fits)
  then show ?case
    using C_Packed.prems(4) v(1) all [OF C_Packed.prems(4)] all [OF has_room_new [OF C_Packed.prems(4)], of "[]"]
    by (simp add: measure_value.simps csm_measured_def pushed_def csm_writer_new_def)
next
  case (C_Tight t n)
  then obtain vs where v: "v = V_List vs" "list_all (typed t) vs"
    by (cases v) simp_all
  have element: "fits t x" if "x \<in> set vs" for x
    using C_Tight.prems(1,2) v that by (simp add: list_all_iff packed_fits)
  have room: "has_room (length (bytes_of t x)) w'" if "x \<in> set vs" "has_room (length (concat (map (bytes_of t) vs))) w'" for x w'
    using that by (auto simp: in_set_conv_decomp elim: has_room_le)
  have own: "encode_to_bytes t x w' = pushed (bytes_of t x) w' \<and> measure_value t x = length (bytes_of t x)"
    if "x \<in> set vs" "has_room (length (bytes_of t x)) w'" for x w'
    using C_Tight.IH C_Tight.prems(1) v(2) element that by (simp add: list_all_iff)
  have whole: "has_room (length (concat (map (bytes_of t) vs))) w"
    using C_Tight.prems(4) v(1) by simp
  have "foldl (\<lambda>n v. min (usize_bound - 1) (n + measure_value t v)) 0 vs = 0 + length (concat (map (bytes_of t) vs))"
    using whole own room by (intro measure_all) (auto simp: has_room_def)
  moreover have "foldl (\<lambda>w v. encode_to_bytes t v w) w vs = pushed (concat (map (bytes_of t) vs)) w"
    using whole own by (intro foldl_pushed) auto
  ultimately show ?case
    using v(1) by (simp add: measure_value.simps [of "C_Tight t n"])
next
  case (C_Struct name fs)
  then obtain slots where v: "v = V_Struct slots"
    using typed_struct by blast
  have all: "encode_to_bytes (C_Struct name fs) v w = pushed (bytes_of (C_Struct name fs) v) w"
    if "has_room (length (bytes_of (C_Struct name fs) v)) w" for w
    using encode_fields_pushed [of fs slots w] C_Struct that by (simp add: v list_all_iff)
  then show ?case
    using C_Struct.prems(4) all [OF has_room_new [OF C_Struct.prems(4)], of "[]"]
    by (simp add: measure_value.simps csm_measured_def pushed_def csm_writer_new_def)
next
  case (Field i count name t)
  show ?case
    using encode_slot_pushed [OF Field.IH, of i count name slot w] Field.prems by simp
qed

section \<open>Every field takes its own parameters\<close>

definition own :: "csm_field \<Rightarrow> csm_param list \<Rightarrow> u8 list list" where
  "own f params = map cp_value (filter (\<lambda>p. cp_id p = field_id f) params)"

lemma own_simps [simp]:
  "own f [] = []"
  "own f (ps @ qs) = own f ps @ own f qs"
  by (simp_all add: own_def)

lemma fed_Cons:
  "foldl (\<lambda>slots p. feed_param (f # fs) p slots) (slot # slots) params =
     foldl (add_param f) slot (own f params) #
     foldl (\<lambda>slots p. feed_param fs p slots) slots (filter (\<lambda>p. cp_id p \<noteq> field_id f) params)"
  by (induction params arbitrary: slot slots) (cases f; simp add: own_def)+

lemma feed_Nil: "foldl (\<lambda>slots p. feed_param [] p slots) slots params = slots"
  by (induction params) simp_all

lemma fed_fields:
  assumes "distinct (map field_id fs)" "length slots = length fs"
  shows "foldl (\<lambda>slots p. feed_param fs p slots) slots params =
    map2 (\<lambda>f slot. foldl (add_param f) slot (own f params)) fs slots"
  using assms
proof (induction fs arbitrary: slots params)
  case (Cons f fs)
  then obtain slot more where slots: "slots = slot # more"
    by (cases slots) simp_all
  have "own g (filter (\<lambda>p. cp_id p \<noteq> field_id f) params) = own g params" if "g \<in> set fs" for g
  proof -
    have "field_id g \<noteq> field_id f"
      using Cons.prems(1) that by (metis distinct.simps(2) image_eqI list.simps(9) set_map)
    then show ?thesis
      by (auto simp: own_def intro!: arg_cong [where f = "map cp_value"] filter_cong)
  qed
  then have "map2 (\<lambda>g slot. foldl (add_param g) slot (own g (filter (\<lambda>p. cp_id p \<noteq> field_id f) params))) fs more =
      map2 (\<lambda>g slot. foldl (add_param g) slot (own g params)) fs more"
    by (auto dest: set_zip_leftD)
  then show ?case
    using Cons by (simp add: slots fed_Cons del: feed_param.simps)
qed (simp add: feed_Nil del: feed_param.simps)

abbreviation fresh_slot :: "csm_field \<Rightarrow> csm_slot" where
  "fresh_slot f \<equiv> prealloc_slot (default_slot f)"

lemma decode_struct:
  assumes "distinct (map field_id fs)"
  shows "decode_from_bytes (C_Struct name fs) data =
    V_Struct (map (\<lambda>f. foldl (add_param f) (fresh_slot f) (own f (fst (stream_params data)))) fs)"
  using fed_fields [OF assms, of "map fresh_slot fs"]
  by (simp add: stream_all_def csm_reader_new_def zip_map2 split_def zip_same_conv_map comp_def Let_def)

section \<open>Whatever is read has its type\<close>

lemma present: "decode_from_bytes t data \<noteq> V_Flag False"
  by (cases t) (simp_all add: Let_def)

lemma fixed_default: "0 < packed_size t \<Longrightarrow> type_ok t \<Longrightarrow> has_type t (default_value t)"
proof (induction t)
  case (C_Tight t n)
  then show ?case
    by (simp add: list_all_iff)
qed (simp_all add: int_ok_0)

lemma slot_ok_add:
  assumes "has_type t (decode_from_bytes t data)" "slot_ok (Field i count name t) slot"
  shows "slot_ok (Field i count name t) (add_param (Field i count name t) slot data)"
  using assms present [of t data] by (cases count; cases slot) (auto split: option.splits)

lemma slot_ok_all:
  "(\<And>data. has_type t (decode_from_bytes t data)) \<Longrightarrow> slot_ok (Field i count name t) slot \<Longrightarrow>
     slot_ok (Field i count name t) (foldl (add_param (Field i count name t)) slot datas)"
  by (induction datas arbitrary: slot) (simp_all add: slot_ok_add del: add_param.simps slot_ok.simps)

lemma decode_has_type:
  shows "type_ok t \<Longrightarrow> has_type t (default_value t) \<and> (\<forall>data. has_type t (decode_from_bytes t data))"
    and "field_ok f \<Longrightarrow> slot_ok f (fresh_slot f) \<and> slot_ok f (default_slot f) \<and>
      (\<forall>datas. slot_ok f (foldl (add_param f) (fresh_slot f) datas))"
proof (induction t and f)
  case (C_Int width sg)
  then show ?case
    by (auto simp: int_from_be_ok int_ok_0)
next
  case (C_Enum variants)
  then show ?case
    by auto
next
  case (C_Rational width sg)
  then show ?case
    by (auto simp: int_from_be_ok int_ok_0)
next
  case C_String
  then show ?case
    by (simp add: decode_string_def lossy_is_str) (simp add: is_str_def)
next
  case (C_U8_Array n)
  then show ?case
    by (simp add: min_def)
next
  case (C_Packed t)
  then show ?case
    by (simp add: list_all_iff)
next
  case (C_Tight t n)
  then show ?case
    by (auto simp: list_all_iff Let_def split: option.split)
next
  case (C_Struct name fs)
  then have each: "slot_ok f (default_slot f)" "slot_ok f (foldl (add_param f) (fresh_slot f) datas)"
    if "f \<in> set fs" for f datas
    using that by (auto simp: list_all_iff)
  have "list_all2 slot_ok fs (map default_slot fs)"
    "list_all2 slot_ok fs (map (\<lambda>f. foldl (add_param f) (fresh_slot f) (own f params)) fs)" for params
    using each by (auto simp: list_all2_map2 list.rel_refl_strong intro!: list_all2_same [THEN iffD2])
  then show ?case
    using C_Struct.prems by (simp add: decode_struct del: decode_from_bytes.simps)
next
  case (Field i count name t)
  then have t: "has_type t (default_value t)" "\<And>data. has_type t (decode_from_bytes t data)"
    by simp_all
  then have fresh: "slot_ok (Field i count name t) (fresh_slot (Field i count name t))"
    "slot_ok (Field i count name t) (default_slot (Field i count name t))"
    by (simp_all add: prealloc_slot_def split: csm_count.split)
  show ?case
    using fresh slot_ok_all [OF t(2) fresh(1)] by blast
qed simp_all

section \<open>What was written is read back\<close>

lemma packed_length: "type_ok t \<Longrightarrow> 0 < packed_size t \<Longrightarrow> typed t v \<Longrightarrow> length (bytes_of t v) = packed_size t"
proof (induction t arbitrary: v)
  case (C_Tight t n)
  then obtain vs where v: "v = V_List vs" "length vs = n" "list_all (typed t) vs"
    by (cases v) simp_all
  have "length (concat (map (bytes_of t) vs)) = length vs * packed_size t"
    using C_Tight v(3) by (induction vs) simp_all
  then show ?case
    using v by (simp add: mult.commute)
qed (auto split: csm_value.splits)

lemma chunks_concat:
  "0 < k \<Longrightarrow> list_all (\<lambda>v. length (b v) = k) vs \<Longrightarrow> chunks k (concat (map b vs)) = map b vs"
  by (induction vs) (auto simp: chunks.simps [of k "x @ y" for x y])

lemma chunks_values:
  assumes "type_ok t" "0 < packed_size t" "list_all (typed t) vs"
  shows "chunks (packed_size t) (concat (map (bytes_of t) vs)) = map (bytes_of t) vs"
  using assms packed_length [OF assms(1,2)] by (intro chunks_concat) (auto simp: list_all_iff)

lemma params_ids: "p \<in> set (params_of f slot) \<Longrightarrow> cp_id p = field_id f"
  by (cases f) auto

lemma own_params: "own f (params_of f slot) = map cp_value (params_of f slot)"
  unfolding own_def by (subst filter_True) (auto dest: params_ids)

lemma own_fields:
  assumes "distinct (map field_id fs)" "length slots = length fs"
  shows "map (\<lambda>f. own f (fields_params fs slots)) fs = map2 (\<lambda>f slot. map cp_value (params_of f slot)) fs slots"
  using assms
proof (induction fs arbitrary: slots)
  case (Cons f fs)
  then obtain slot more where slots: "slots = slot # more"
    by (cases slots) simp_all
  have other: "own g (params_of h s) = []" if "field_id g \<noteq> field_id h" for g h s
    using that by (auto simp: own_def filter_empty_conv dest: params_ids)
  have "own f (fields_params gs ss) = []" if "field_id f \<notin> field_id ` set gs" for gs ss
    using that
  proof (induction gs arbitrary: ss)
    case (Cons g gs)
    then show ?case
      by (cases ss) (simp_all add: other)
  qed simp
  moreover have "own g (params_of f slot) = []" if "g \<in> set fs" for g
    using Cons.prems(1) that by (intro other) (auto simp: image_iff)
  ultimately show ?case
    using Cons by (simp add: slots own_params cong: map_cong)
qed simp

lemma stream_fields:
  assumes "list_all2 slot_fits fs slots"
  shows "stream_params (tlvs (fields_params fs slots)) = (fields_params fs slots, [], False)"
proof (rule stream_all_tlvs)
  have each: "list_all (\<lambda>p. tlv_fits (cp_value p)) (params_of f slot)" if "slot_fits f slot" for f slot
    using that by (cases f) (auto simp: list_all_iff)
  from assms show "list_all (\<lambda>p. tlv_fits (cp_value p)) (fields_params fs slots)"
    by (induction fs slots rule: list_all2_induct) (simp_all add: each)
qed

lemma slot_read_back:
  assumes t: "\<And>v. typed t v \<Longrightarrow> fits t v \<Longrightarrow> v \<noteq> V_Flag False \<Longrightarrow> decode_from_bytes t (bytes_of t v) = as_read v"
    and "slot_typed f slot" "slot_fits f slot" and f: "f = Field i count name t"
  shows "foldl (add_param f) (fresh_slot f) (map cp_value (params_of f slot)) = slot_as_read slot"
proof -
  have again: "decode_from_bytes t (bytes_of t v) = as_read v" if "v \<in> set (slot_values slot)" "v \<noteq> V_Flag False" for v
    using t slot_typed_values assms(2,3) that by (auto simp: f list_all_iff)
  have many: "foldl (add_param f) (Slot_Vec us) (map (\<lambda>v. bytes_of t v) vs) = Slot_Vec (us @ map (\<lambda>v. decode_from_bytes t (bytes_of t v)) vs)" for us vs
    by (induction vs arbitrary: us) (simp_all add: f)
  show ?thesis
  proof (cases slot)
    case (Slot_One v)
    then show ?thesis
      using again [of v] assms(2) flag_typed [of t False]
      by (cases count; cases "v = V_Flag False") (auto simp: f prealloc_slot_def)
  next
    case (Slot_Option r)
    then show ?thesis
      using again assms(2) by (cases count; cases r) (auto simp: f prealloc_slot_def)
  next
    case (Slot_Vec vs)
    let ?set = "filter (\<lambda>v. v \<noteq> V_Flag False) vs"
    have "count = Count_Zero_Or_More \<or> count = Count_One_Or_More"
      using assms(2) Slot_Vec by (cases count; auto simp: f list_all_iff)+
    moreover have "map (\<lambda>v. decode_from_bytes t (bytes_of t v)) ?set = map as_read ?set"
      using again Slot_Vec by simp
    moreover have "filter (\<lambda>v. v \<noteq> V_Flag False) (map as_read vs) = map as_read ?set"
      by (simp add: filter_map comp_def)
    ultimately show ?thesis
      using many [of "[]" ?set] Slot_Vec by (auto simp: f prealloc_slot_def comp_def)
  qed
qed

lemma decode_bytes_of:
  shows "\<And>v. type_ok t \<Longrightarrow> typed t v \<Longrightarrow> fits t v \<Longrightarrow> v \<noteq> V_Flag False \<Longrightarrow> decode_from_bytes t (bytes_of t v) = as_read v"
    and "\<And>slot. field_ok f \<Longrightarrow> slot_typed f slot \<Longrightarrow> slot_fits f slot \<Longrightarrow>
      foldl (add_param f) (fresh_slot f) (map cp_value (params_of f slot)) = slot_as_read slot"
proof (induction t and f)
  case C_Bool
  then show ?case
    by (cases v) simp_all
next
  case (C_Int width sg)
  then obtain i where "v = V_Int i" "int_ok width sg i"
    by (cases v) simp_all
  then show ?case
    using C_Int.prems(1) int_from_be_roundtrip [of width sg i "[]"] by simp
next
  case (C_Enum variants)
  then show ?case
    by (cases v) simp_all
next
  case (C_Rational width sg)
  then obtain p q where "v = V_Rational p q" "int_ok width sg p" "int_ok width sg q"
    by (cases v) simp_all
  then show ?case
    using C_Rational.prems(1) int_from_be_roundtrip [of width sg p "int_be_bytes width q"]
      int_from_be_roundtrip [of width sg q "[]"] by simp
next
  case C_String
  then show ?case
    by (cases v) (simp_all add: decode_string_def lossy_str)
next
  case C_Byte_Array
  then show ?case
    by (cases v) simp_all
next
  case C_Flag
  then show ?case
    by (cases v) simp_all
next
  case (C_U8_Array n)
  then show ?case
    by (cases v) simp_all
next
  case (C_Packed t)
  then obtain vs where v: "v = V_List vs" "list_all (typed t) vs"
    by (cases v) simp_all
  moreover have "v \<noteq> V_Flag False" if "v \<in> set vs" for v
    using v(2) that C_Packed.prems(1) flag_typed [of t False] by (auto simp: list_all_iff)
  ultimately show ?case
    using C_Packed chunks_values [of t vs] by (simp add: packed_fits list_all_iff)
next
  case (C_Tight t n)
  then obtain vs where v: "v = V_List vs" "length vs = n" "list_all (typed t) vs"
    by (cases v) simp_all
  have "vs ! k \<noteq> V_Flag False" if "k < n" for k
    using v(2,3) that C_Tight.prems(1) flag_typed [of t False] by (auto simp: list_all_length)
  then have "map (\<lambda>k. decode_from_bytes t (bytes_of t (vs ! k))) [0..<n] = map as_read vs"
    using C_Tight v by (intro nth_equalityI) (simp_all add: packed_fits list_all_length)
  moreover have "map (\<lambda>k. case slice_get (map (bytes_of t) vs) k of Some chunk \<Rightarrow> decode_from_bytes t chunk | None \<Rightarrow> default_value t) [0..<n] =
      map (\<lambda>k. decode_from_bytes t (bytes_of t (vs ! k))) [0..<n]"
    using v(2) by (simp add: slice_get_def)
  ultimately show ?case
    using C_Tight.prems v chunks_values [of t vs] by (simp add: Let_def)
next
  case (C_Struct name fs)
  then obtain slots where v: "v = V_Struct slots" "list_all2 slot_typed fs slots" "list_all2 slot_fits fs slots"
    using typed_struct [OF C_Struct.prems(2)] C_Struct.prems(3) by auto
  have distinct: "distinct (map field_id fs)" and len: "length slots = length fs"
    using C_Struct.prems(1) v(2) by (simp_all add: list_all2_lengthD)
  have each: "foldl (add_param f) (fresh_slot f) (map cp_value (params_of f slot)) = slot_as_read slot"
    if "(f, slot) \<in> set (zip fs slots)" for f slot
  proof -
    have "f \<in> set fs" "field_ok f" "slot_typed f slot" "slot_fits f slot"
      using set_zip_leftD [OF that] C_Struct.prems(1) v(2,3) that by (auto simp: list_all_iff list_all2_iff)
    then show ?thesis
      by (rule C_Struct.IH)
  qed
  have "map (\<lambda>f. foldl (add_param f) (fresh_slot f) (own f (fields_params fs slots))) fs =
      map2 (\<lambda>f vs. foldl (add_param f) (fresh_slot f) vs) fs (map (\<lambda>f. own f (fields_params fs slots)) fs)"
    by (simp add: zip_map2 zip_same_conv_map comp_def)
  also have "\<dots> = map2 (\<lambda>f slot. foldl (add_param f) (fresh_slot f) (map cp_value (params_of f slot))) fs slots"
    unfolding own_fields [OF distinct len] by (rule nth_equalityI) (simp_all add: len)
  also have "\<dots> = map2 (\<lambda>f slot. slot_as_read slot) fs slots"
    using each by (auto intro: map_cong)
  also have "\<dots> = map slot_as_read slots"
    by (rule nth_equalityI) (simp_all add: len)
  finally show ?case
    using stream_fields [OF v(3)] by (simp add: v(1) decode_struct [OF distinct] del: decode_from_bytes.simps)
next
  case (Field i count name t)
  show ?case
    by (rule slot_read_back [OF Field.IH Field.prems(2,3) refl]) (use Field.prems(1) in simp_all)
qed

end
