(* ===== verification/Csm_Groups.thy ===== *)
theory Csm_Groups
  imports Csm_Codec
begin

text \<open>
  The enumerations and groups of \<open>core/catplay_csm/src/msg/iap2.rs\<close>, with the names, discriminants,
  identifiers and counts of the source. Each definition is one \<open>enum_type!\<close> or \<open>group_type!\<close>.
\<close>

definition ObjectState :: csm_type where
  "ObjectState = C_Enum [
     (''Detected'', 0), (''NotDetected'', 1), (''Removed'', 2)]"

definition RoadSignType :: csm_type where
  "RoadSignType = C_Enum [
     (''Stop'', 0), (''SpeedLimit'', 1), (''DoNotEnter'', 2), (''RoadClosed'', 3), (''Roundabout'', 4),
     (''Yield'', 5), (''NoRightTurn'', 6), (''NoLeftTurn'', 7), (''NoUTurn'', 8), (''NoLeftOrUTurn'', 9),
     (''OneWayRight'', 10), (''OneWayLeft'', 11), (''RailCrossing'', 12), (''NoParking'', 13),
     (''LaneEndsRight'', 14), (''LaneEndsLeft'', 15), (''RoadGeometryWarning'', 16),
     (''SchoolZoneChildrenWarning'', 17), (''NoTurnOnRed'', 18)]"

definition RoadSign :: csm_type where
  "RoadSign = C_Struct (''RoadSign'', None) [
     Field 0 Count_One ''identifier'' C_U32, Field 1 Count_One ''state'' ObjectState,
     Field 2 Count_One ''type_'' RoadSignType, Field 3 Count_Optional ''value'' C_String,
     Field 4 Count_Optional ''lateral_offset'' C_I32, Field 5 Count_Optional ''forward_offset'' C_U32]"

definition RoadLaneType :: csm_type where
  "RoadLaneType = C_Enum [
     (''NoLaneDetected'', 0), (''SingleSolidLine'', 1), (''SingleDashedLine'', 2), (''DoubleLine'', 3),
     (''BottsDots'', 4)]"

definition RoadLaneColor :: csm_type where
  "RoadLaneColor = C_Enum [
     (''NoLaneDetected'', 0), (''UnknownOther'', 1), (''Yellow'', 2), (''White'', 3), (''Blue'', 4),
     (''Red'', 5)]"

definition RoadLane :: csm_type where
  "RoadLane = C_Struct (''RoadLane'', None) [
     Field 0 Count_One ''identifier'' C_U32, Field 1 Count_One ''state'' ObjectState,
     Field 2 Count_Optional ''type_left'' RoadLaneType, Field 3 Count_Optional ''type_right'' RoadLaneType,
     Field 4 Count_Optional ''color_left'' RoadLaneColor,
     Field 5 Count_Optional ''color_right'' RoadLaneColor, Field 6 Count_Optional ''width'' C_U32,
     Field 7 Count_Optional ''curvature_center'' C_Rat32, Field 8 Count_Optional ''curvature_left'' C_Rat32,
     Field 9 Count_Optional ''curvature_right'' C_Rat32]"

definition RoadObjectType :: csm_type where
  "RoadObjectType = C_Enum [
     (''Other'', 0), (''Car'', 1), (''Truck'', 2), (''Motorcycle'', 3), (''Pedestrian'', 4),
     (''Bicycle'', 5), (''Animal'', 6)]"

definition RoadObject :: csm_type where
  "RoadObject = C_Struct (''RoadObject'', None) [
     Field 0 Count_One ''identifier'' C_U32, Field 1 Count_One ''state'' ObjectState,
     Field 2 Count_One ''type_'' RoadObjectType, Field 3 Count_Optional ''is_moving'' C_Bool,
     Field 4 Count_Optional ''lateral_offset'' C_I32, Field 5 Count_Optional ''lateral_speed'' C_I32,
     Field 6 Count_Optional ''lateral_acceleration'' C_I32, Field 7 Count_Optional ''forward_offset'' C_U32,
     Field 8 Count_Optional ''forward_speed'' C_I32, Field 9 Count_Optional ''forward_acceleration'' C_I32]"

definition CenterCoordinate :: csm_type where
  "CenterCoordinate = C_Struct (''CenterCoordinate'', None) [
     Field 0 Count_One ''latitude'' C_I32, Field 1 Count_One ''longitude'' C_I32]"

definition EntryPoint :: csm_type where
  "EntryPoint = C_Struct (''EntryPoint'', None) [
     Field 0 Count_One ''latitude'' C_I32, Field 1 Count_One ''longitude'' C_I32]"

definition ParametersSuccessfullyUsed :: csm_type where
  "ParametersSuccessfullyUsed = C_Struct (''ParametersSuccessfullyUsed'', None) [
     Field 2 Count_One ''center_coordinate'' C_Flag, Field 3 Count_One ''address'' C_Flag,
     Field 4 Count_One ''entry_point'' C_Flag]"

definition PowerProvidingCapability :: csm_type where
  "PowerProvidingCapability = C_Enum [
     (''None'', 0), (''C37Passthrough'', 1), (''Advanced'', 2)]"

definition MatchAction :: csm_type where
  "MatchAction = C_Enum [
     (''Value0'', 0), (''Value1'', 1), (''Value2'', 2), (''Value3'', 3), (''Value4'', 4)]"

definition SupportedExternalAccessoryProtocol :: csm_type where
  "SupportedExternalAccessoryProtocol = C_Struct (''SupportedExternalAccessoryProtocol'', None) [
     Field 0 Count_One ''external_accessory_protocol_identifier'' C_U8,
     Field 1 Count_One ''external_accessory_protocol_name'' C_String,
     Field 2 Count_One ''external_accessory_protocol_match_action'' MatchAction,
     Field 3 Count_Optional ''native_transport_component_identifier'' C_U16,
     Field 4 Count_One ''external_accessory_protocol_car_play'' C_Flag]"

definition UARTTransportComponent :: csm_type where
  "UARTTransportComponent = C_Struct (''UARTTransportComponent'', None) [
     Field 0 Count_One ''transport_component_identifier'' C_U16,
     Field 1 Count_One ''transport_component_name'' C_String,
     Field 2 Count_One ''transport_supports_iap2_connection'' C_Flag]"

definition UsbDeviceModeAudioSampleRate :: csm_type where
  "UsbDeviceModeAudioSampleRate = C_Enum [
     (''Value8000Hz'', 0), (''Value11025Hz'', 1), (''Value12000Hz'', 2), (''Value16000Hz'', 3),
     (''Value22050Hz'', 4), (''Value24000Hz'', 5), (''Value32000Hz'', 6), (''Value44100Hz'', 7),
     (''Value48000Hz'', 8)]"

definition USBDeviceTransportComponent :: csm_type where
  "USBDeviceTransportComponent = C_Struct (''USBDeviceTransportComponent'', None) [
     Field 0 Count_One ''transport_component_identifier'' C_U16,
     Field 1 Count_One ''transport_component_name'' C_String,
     Field 2 Count_One ''transport_supports_iap2_connection'' C_Flag,
     Field 3 Count_Zero_Or_More ''usb_device_supported_audio_sample_rate'' UsbDeviceModeAudioSampleRate]"

definition USBHostTransportComponent :: csm_type where
  "USBHostTransportComponent = C_Struct (''USBHostTransportComponent'', None) [
     Field 0 Count_One ''transport_component_identifier'' C_U16,
     Field 1 Count_One ''transport_component_name'' C_String,
     Field 2 Count_One ''transport_supports_iap2_connection'' C_Flag,
     Field 3 Count_Optional ''usb_host_transport_car_play_interface_number'' C_U8,
     Field 4 Count_One ''transport_supports_car_play'' C_Flag,
     Field 5 Count_One ''transport_supports_theme_assets'' C_Flag]"

definition BluetoothTransportComponent :: csm_type where
  "BluetoothTransportComponent = C_Struct (''BluetoothTransportComponent'', None) [
     Field 0 Count_One ''transport_component_identifier'' C_U16,
     Field 1 Count_One ''transport_component_name'' C_String,
     Field 2 Count_One ''transport_supports_iap2_connection'' C_Flag,
     Field 3 Count_One ''bluetooth_transport_media_access_control_address'' (C_U8_Array 6)]"

definition HidComponentFunction :: csm_type where
  "HidComponentFunction = C_Enum [
     (''Keyboard'', 0), (''MediaPlaybackRemote'', 1), (''AssistiveTouch'', 2), (''Reserved'', 3),
     (''GamepadDeviceHolding'', 4), (''ReservedValue5'', 5), (''Gamepad'', 6), (''SwitchControl'', 7),
     (''Headset'', 8), (''NotApplicable'', 9), (''BrailleDisplayKeyboard'', 10)]"

definition iAP2HIDComponent :: csm_type where
  "iAP2HIDComponent = C_Struct (''iAP2HIDComponent'', None) [
     Field 0 Count_One ''hid_component_identifier'' C_U16,
     Field 1 Count_One ''hid_component_name'' C_String,
     Field 2 Count_One ''hid_component_function'' HidComponentFunction]"

definition EngineTypes :: csm_type where
  "EngineTypes = C_Enum [
     (''Gasoline'', 0), (''Diesel'', 1), (''Electric'', 2), (''Cng'', 3)]"

definition ChargingConnectorTypes :: csm_type where
  "ChargingConnectorTypes = C_Enum [
     (''Ccs1'', 0), (''Ccs2'', 1), (''J1772'', 2), (''ChAdeMo'', 3), (''Mennekes'', 4), (''GbTDc'', 5),
     (''GbTAc'', 6), (''NacsDc'', 7), (''NacsAc'', 8)]"

definition VehicleInformationComponent :: csm_type where
  "VehicleInformationComponent = C_Struct (''VehicleInformationComponent'', None) [
     Field 0 Count_One ''identifier'' C_U16, Field 1 Count_One ''name'' C_String,
     Field 2 Count_Zero_Or_More ''engine_type'' EngineTypes, Field 6 Count_One ''display_name'' C_String,
     Field 8 Count_Optional ''maps_display_name'' C_String, Field 9 Count_Optional ''siri_name'' C_String,
     Field 10 Count_Optional ''vehicle_color_hex_code'' C_String,
     Field 11 Count_Zero_Or_More ''supported_charging_connectors'' ChargingConnectorTypes,
     Field 12 Count_Optional ''power_for_connector_type_ccs1'' C_U32,
     Field 13 Count_Optional ''power_for_connector_type_ccs2'' C_U32,
     Field 14 Count_Optional ''power_for_connector_type_j1772'' C_U32,
     Field 15 Count_Optional ''power_for_connector_type_ch_ade_mo'' C_U32,
     Field 16 Count_Optional ''power_for_connector_type_mennekes'' C_U32,
     Field 17 Count_Optional ''power_for_connector_type_gbt_dc'' C_U32,
     Field 18 Count_Optional ''power_for_connector_type_gbt_ac'' C_U32,
     Field 19 Count_Optional ''power_for_connector_type_nacs_dc'' C_U32,
     Field 20 Count_Optional ''power_for_connector_type_nacs_ac'' C_U32]"

definition VehicleStatusComponent :: csm_type where
  "VehicleStatusComponent = C_Struct (''VehicleStatusComponent'', None) [
     Field 0 Count_One ''identifier'' C_U16, Field 1 Count_One ''name'' C_String,
     Field 3 Count_One ''range'' C_Flag, Field 4 Count_One ''outside_temperature'' C_Flag,
     Field 5 Count_One ''inside_temperature'' C_Flag, Field 6 Count_One ''range_warning'' C_Flag,
     Field 9 Count_One ''range_gasoline'' C_Flag, Field 10 Count_One ''range_diesel'' C_Flag,
     Field 11 Count_One ''range_electric'' C_Flag, Field 12 Count_One ''range_cng'' C_Flag,
     Field 13 Count_One ''range_warning_gasoline'' C_Flag,
     Field 14 Count_One ''range_warning_diesel'' C_Flag,
     Field 15 Count_One ''range_warning_electric'' C_Flag, Field 16 Count_One ''range_warning_cng'' C_Flag,
     Field 17 Count_One ''wiper_status'' C_Flag, Field 18 Count_One ''barometric_pressure'' C_Flag,
     Field 19 Count_One ''alerts'' C_Flag, Field 20 Count_One ''passenger_seat_status'' C_Flag,
     Field 21 Count_One ''electric_charge_info'' C_Flag, Field 30 Count_One ''max_range_info'' C_Flag]"

definition LocationInformationComponent :: csm_type where
  "LocationInformationComponent = C_Struct (''LocationInformationComponent'', None) [
     Field 0 Count_One ''identifier'' C_U16, Field 1 Count_One ''name'' C_String,
     Field 17 Count_One ''global_positioning_system_fix_data'' C_Flag,
     Field 18 Count_One ''recommended_minimum_specific_gps_transit_data'' C_Flag,
     Field 19 Count_One ''gps_satellites_in_view'' C_Flag, Field 20 Count_One ''vehicle_speed_data'' C_Flag,
     Field 21 Count_One ''vehicle_gyro_data'' C_Flag,
     Field 22 Count_One ''vehicle_accelerometer_data'' C_Flag,
     Field 23 Count_One ''vehicle_heading_data'' C_Flag]"

definition USBHostHIDComponent :: csm_type where
  "USBHostHIDComponent = C_Struct (''USBHostHIDComponent'', None) [
     Field 0 Count_One ''hid_component_identifier'' C_U16,
     Field 1 Count_One ''hid_component_name'' C_String,
     Field 2 Count_One ''hid_component_function'' HidComponentFunction,
     Field 3 Count_One ''usb_host_transport_component_identifier'' C_U16,
     Field 4 Count_One ''usb_host_transport_interface_number'' C_U16]"

definition WirelessCarPlayTransportComponent :: csm_type where
  "WirelessCarPlayTransportComponent = C_Struct (''WirelessCarPlayTransportComponent'', None) [
     Field 0 Count_One ''transport_component_identifier'' C_U16,
     Field 1 Count_One ''transport_component_name'' C_String,
     Field 2 Count_One ''transport_supports_iap2_connection'' C_Flag,
     Field 4 Count_One ''transport_supports_car_play'' C_Flag,
     Field 5 Count_One ''transport_supports_theme_assets'' C_Flag]"

definition BLETransportComponent :: csm_type where
  "BLETransportComponent = C_Struct (''BLETransportComponent'', None) [
     Field 0 Count_One ''transport_component_identifier'' C_U16,
     Field 1 Count_One ''transport_component_name'' C_String,
     Field 2 Count_One ''transport_supports_iap2_connection'' C_Flag,
     Field 3 Count_One ''ble_transport_media_access_control_address'' (C_U8_Array 6),
     Field 4 Count_One ''ble_pairing_types'' (C_Packed C_U8)]"

definition BluetoothHIDComponent :: csm_type where
  "BluetoothHIDComponent = C_Struct (''BluetoothHIDComponent'', None) [
     Field 0 Count_One ''hid_component_identifier'' C_U16,
     Field 1 Count_One ''hid_component_name'' C_String,
     Field 2 Count_One ''hid_component_function'' HidComponentFunction,
     Field 3 Count_One ''bluetooth_transport_component_identifier'' C_U16]"

definition RouteGuidanceDisplayComponent :: csm_type where
  "RouteGuidanceDisplayComponent = C_Struct (''RouteGuidanceDisplayComponent'', None) [
     Field 0 Count_One ''identifier'' C_U16, Field 1 Count_One ''name'' C_String,
     Field 2 Count_Optional ''max_current_road_name_length'' C_U16,
     Field 3 Count_Optional ''max_destination_name_length'' C_U16,
     Field 4 Count_Optional ''max_after_maneuver_road_name_length'' C_U16,
     Field 5 Count_Optional ''max_maneuver_description_length'' C_U16,
     Field 6 Count_Optional ''max_guidance_maneuver_storage_capacity'' C_U16,
     Field 7 Count_Optional ''max_lane_guidance_description_length'' C_U16,
     Field 8 Count_Optional ''max_lane_guidance_storage_capacity'' C_U16]"

definition SupportedRoadObjectDetectionType :: csm_type where
  "SupportedRoadObjectDetectionType = C_Enum [
     (''Reserved'', 0), (''RoadSign'', 1), (''RoadLane'', 2), (''RoadObject'', 3)]"

definition RoadObjectDetectionComponent :: csm_type where
  "RoadObjectDetectionComponent = C_Struct (''RoadObjectDetectionComponent'', None) [
     Field 0 Count_One ''identifier'' C_U16, Field 1 Count_One ''name'' C_String,
     Field 2 Count_One_Or_More ''supported_road_object_detection_type'' SupportedRoadObjectDetectionType]"

definition Color :: csm_type where
  "Color = C_Struct (''Color'', None) [
     Field 0 Count_One ''red'' C_U16, Field 1 Count_One ''green'' C_U16, Field 2 Count_One ''blue'' C_U16,
     Field 3 Count_Optional ''alpha'' C_U16]"

definition SecondaryColor :: csm_type where
  "SecondaryColor = C_Struct (''SecondaryColor'', None) [
     Field 0 Count_One ''red'' C_U16, Field 1 Count_One ''green'' C_U16, Field 2 Count_One ''blue'' C_U16,
     Field 3 Count_Optional ''alpha'' C_U16]"

definition SupportedRadioTechnology :: csm_type where
  "SupportedRadioTechnology = C_Enum [
     (''Nfc'', 0), (''BleAndUwb'', 1)]"

definition VehicleDigitalCarKeyInformation :: csm_type where
  "VehicleDigitalCarKeyInformation = C_Struct (''VehicleDigitalCarKeyInformation'', None) [
     Field 0 Count_One ''ccc_vehicle_identifier'' C_String, Field 1 Count_One ''ccc_manufacturer'' C_String,
     Field 2 Count_One ''ccc_brand'' C_String, Field 3 Count_One ''product_plan_uid'' C_String,
     Field 4 Count_One ''supported_radio_technology'' SupportedRadioTechnology,
     Field 5 Count_One ''provisioning_template_identifier'' C_String,
     Field 6 Count_One ''owner_key_pairing_available'' C_Bool,
     Field 7 Count_Optional ''online_services_activated'' C_Bool,
     Field 8 Count_Optional ''proof_of_ownership_present'' C_Bool]"

definition PowerDuringSleep :: csm_type where
  "PowerDuringSleep = C_Enum [
     (''DontToggleAccessoryPowerOnWake'', 0), (''ToggleAccessoryPowerOnWake'', 1)]"

definition CallStateUpdateStatus :: csm_type where
  "CallStateUpdateStatus = C_Enum [
     (''Disconnected'', 0), (''Sending'', 1), (''Ringing'', 2), (''Connecting'', 3), (''Active'', 4),
     (''Held'', 5), (''Disconnecting'', 6)]"

definition CallStateUpdateDirection :: csm_type where
  "CallStateUpdateDirection = C_Enum [
     (''Unknown'', 0), (''Incoming'', 1), (''Outgoing'', 2)]"

definition CallStateUpdateService :: csm_type where
  "CallStateUpdateService = C_Enum [
     (''Unknown'', 0), (''Telephony'', 1), (''FaceTimeAudio'', 2), (''FaceTimeVideo'', 3)]"

definition CallStateUpdateDisconnectReason :: csm_type where
  "CallStateUpdateDisconnectReason = C_Enum [
     (''NoReasonCallEnded'', 0), (''CallDeclined'', 1), (''CallFailed'', 2)]"

definition CommunicationsUpdateSignalStrength :: csm_type where
  "CommunicationsUpdateSignalStrength = C_Enum [
     (''Value0Bars'', 0), (''Value1Bar'', 1), (''Value2Bars'', 2), (''Value3Bars'', 3), (''Value4Bars'', 4),
     (''Value5Bars'', 5)]"

definition CommunicationsUpdateRegistrationStatus :: csm_type where
  "CommunicationsUpdateRegistrationStatus = C_Enum [
     (''Unknown'', 0), (''NotRegistered'', 1), (''Searching'', 2), (''Denied'', 3), (''RegisteredHome'', 4),
     (''RegisteredRoaming'', 5), (''EmergencyCallsOnly'', 6)]"

definition InitiateCallType :: csm_type where
  "InitiateCallType = C_Enum [
     (''Destination'', 0), (''Voicemail'', 1), (''Redial'', 2)]"

definition InitiateCallService :: csm_type where
  "InitiateCallService = C_Enum [
     (''Telephony'', 1), (''FaceTimeAudio'', 2), (''FaceTimeVideo'', 3)]"

definition AcceptCallAcceptAction :: csm_type where
  "AcceptCallAcceptAction = C_Enum [
     (''AcceptHoldAndAccept'', 0), (''EndAndAccept'', 1)]"

definition EndCallEndAction :: csm_type where
  "EndCallEndAction = C_Enum [
     (''EndDecline'', 0), (''EndAll'', 1)]"

definition SendDtmfTone :: csm_type where
  "SendDtmfTone = C_Enum [
     (''Number0'', 0), (''Number1'', 1), (''Number2'', 2), (''Number3'', 3), (''Number4'', 4),
     (''Number5'', 5), (''Number6'', 6), (''Number7'', 7), (''Number8'', 8), (''Number9'', 9),
     (''Star'', 10), (''Pound'', 11)]"

definition RecentsListProperties :: csm_type where
  "RecentsListProperties = C_Struct (''RecentsListProperties'', None) [
     Field 0 Count_One ''index'' C_Flag, Field 1 Count_One ''remote_id'' C_Flag,
     Field 2 Count_One ''display_name'' C_Flag, Field 3 Count_One ''label'' C_Flag,
     Field 4 Count_One ''address_book_id'' C_Flag, Field 5 Count_One ''service'' C_Flag,
     Field 6 Count_One ''type_'' C_Flag, Field 7 Count_One ''unix_timestamp'' C_Flag,
     Field 8 Count_One ''duration'' C_Flag, Field 9 Count_One ''occurrences'' C_Flag]"

definition FavoritesListProperties :: csm_type where
  "FavoritesListProperties = C_Struct (''FavoritesListProperties'', None) [
     Field 0 Count_One ''index'' C_Flag, Field 1 Count_One ''remote_id'' C_Flag,
     Field 2 Count_One ''display_name'' C_Flag, Field 3 Count_One ''label'' C_Flag,
     Field 4 Count_One ''address_book_id'' C_Flag, Field 5 Count_One ''service'' C_Flag]"

definition ListUpdateService :: csm_type where
  "ListUpdateService = C_Enum [
     (''Unknown'', 0), (''Telephony'', 1), (''FaceTimeAudio'', 2), (''FaceTimeVideo'', 3)]"

definition ListUpdateRecentsListType :: csm_type where
  "ListUpdateRecentsListType = C_Enum [
     (''Unknown'', 0), (''Incoming'', 1), (''Outgoing'', 2), (''Missed'', 3)]"

definition RecentsList :: csm_type where
  "RecentsList = C_Struct (''RecentsList'', None) [
     Field 0 Count_One ''index'' C_U16, Field 1 Count_One ''remote_id'' C_String,
     Field 2 Count_One ''display_name'' C_String, Field 3 Count_Optional ''label'' C_String,
     Field 4 Count_Optional ''address_book_id'' C_String, Field 5 Count_One ''service'' ListUpdateService,
     Field 6 Count_One ''type_'' ListUpdateRecentsListType, Field 7 Count_Optional ''unix_timestamp'' C_U64,
     Field 8 Count_Optional ''duration'' C_U32, Field 9 Count_One ''occurrences'' C_U8]"

definition FavoritesList :: csm_type where
  "FavoritesList = C_Struct (''FavoritesList'', None) [
     Field 0 Count_One ''index'' C_U16, Field 1 Count_One ''remote_id'' C_String,
     Field 2 Count_One ''display_name'' C_String, Field 3 Count_Optional ''label'' C_String,
     Field 4 Count_Optional ''address_book_id'' C_String, Field 5 Count_One ''service'' ListUpdateService]"

definition CarPlayAvailabilityWiredAttributes :: csm_type where
  "CarPlayAvailabilityWiredAttributes = C_Struct (''CarPlayAvailabilityWiredAttributes'', None) [
     Field 0 Count_One ''available'' C_Bool, Field 1 Count_Optional ''usb_transport_identifier'' C_String]"

definition CarPlayAvailabilityWirelessAttributes :: csm_type where
  "CarPlayAvailabilityWirelessAttributes = C_Struct (''CarPlayAvailabilityWirelessAttributes'', None) [
     Field 0 Count_One ''available'' C_Bool,
     Field 1 Count_Optional ''bluetooth_transport_identifier'' C_String]"

definition ThemeAssetsAttributes :: csm_type where
  "ThemeAssetsAttributes = C_Struct (''ThemeAssetsAttributes'', None) [
     Field 0 Count_One ''available'' C_Bool]"

definition CarPlayStartSessionWiredAttributes :: csm_type where
  "CarPlayStartSessionWiredAttributes = C_Struct (''CarPlayStartSessionWiredAttributes'', None) [
     Field 0 Count_One_Or_More ''ip_address'' C_String]"

definition CarPlayStartSessionWiFiSecurityType :: csm_type where
  "CarPlayStartSessionWiFiSecurityType = C_Enum [
     (''Reserved'', 0), (''ReservedValue1'', 1), (''ReservedValue2'', 2),
     (''Wpa3PersonalTransitionMode'', 3), (''Wpa3PersonalOnly'', 4)]"

definition CarPlayStartSessionWirelessAttributes :: csm_type where
  "CarPlayStartSessionWirelessAttributes = C_Struct (''CarPlayStartSessionWirelessAttributes'', None) [
     Field 0 Count_One ''wifi_ssid'' C_String, Field 1 Count_One ''passphrase'' C_String,
     Field 2 Count_One ''channel'' C_U8, Field 3 Count_One_Or_More ''ip_address'' C_String,
     Field 4 Count_One ''security_type'' CarPlayStartSessionWiFiSecurityType]"

definition AssetInformation :: csm_type where
  "AssetInformation = C_Struct (''AssetInformation'', None) [
     Field 0 Count_One ''asset_identifier'' C_String, Field 1 Count_One ''asset_version'' C_I32]"

definition MediaLibraryType :: csm_type where
  "MediaLibraryType = C_Enum [
     (''LocalDeviceLibrary'', 0), (''AppleMusicRadioLibrary'', 2)]"

definition MediaLibraryInformationMediaLibraryInformation :: csm_type where
  "MediaLibraryInformationMediaLibraryInformation = C_Struct (''MediaLibraryInformationMediaLibraryInformation'', None) [
     Field 0 Count_One ''media_library_name'' C_String,
     Field 1 Count_One ''media_library_unique_identifier'' C_String,
     Field 2 Count_One ''media_library_type'' MediaLibraryType]"

definition MediaItemProperties :: csm_type where
  "MediaItemProperties = C_Struct (''MediaItemProperties'', None) [
     Field 0 Count_One ''media_item_property_persistent_identifier'' C_Flag,
     Field 1 Count_One ''media_item_property_title'' C_Flag,
     Field 2 Count_One ''media_item_property_media_type'' C_Flag,
     Field 3 Count_One ''media_item_property_rating'' C_Flag,
     Field 4 Count_One ''media_item_property_playback_duration_in_milliseconds'' C_Flag,
     Field 5 Count_One ''media_item_property_album_persistent_identifier'' C_Flag,
     Field 6 Count_One ''media_item_property_album_title'' C_Flag,
     Field 7 Count_One ''media_item_property_album_track_number'' C_Flag,
     Field 8 Count_One ''media_item_property_album_track_count'' C_Flag,
     Field 9 Count_One ''media_item_property_album_disc_number'' C_Flag,
     Field 10 Count_One ''media_item_property_album_disc_count'' C_Flag,
     Field 11 Count_One ''media_item_property_artist_persistent_identifier'' C_Flag,
     Field 12 Count_One ''media_item_property_artist'' C_Flag,
     Field 13 Count_One ''media_item_property_album_artist_persistent_identifier'' C_Flag,
     Field 14 Count_One ''media_item_property_album_artist'' C_Flag,
     Field 15 Count_One ''media_item_property_genre_persistent_identifier'' C_Flag,
     Field 16 Count_One ''media_item_property_genre'' C_Flag,
     Field 17 Count_One ''media_item_property_composer_persistent_identifier'' C_Flag,
     Field 18 Count_One ''media_item_property_composer'' C_Flag,
     Field 19 Count_One ''media_item_property_is_part_of_compilation'' C_Flag,
     Field 25 Count_One ''media_item_property_is_resident_on_device'' C_Flag,
     Field 27 Count_One ''media_item_property_chapter_count'' C_Flag]"

definition MediaPlaylistProperties :: csm_type where
  "MediaPlaylistProperties = C_Struct (''MediaPlaylistProperties'', None) [
     Field 0 Count_One ''media_playlist_property_persistent_identifier'' C_Flag,
     Field 1 Count_One ''media_playlist_property_name'' C_Flag,
     Field 2 Count_One ''media_playlist_property_parent_persistent_identifier'' C_Flag,
     Field 3 Count_One ''media_playlist_property_is_genius_mix'' C_Flag,
     Field 4 Count_One ''media_playlist_property_is_folder'' C_Flag,
     Field 5 Count_One ''media_playlist_property_contained_media_items_file_transfer_identifier'' C_Flag,
     Field 6 Count_One ''media_playlist_property_is_apple_music_radio_station'' C_Flag,
     Field 7 Count_One ''media_playlist_property_content_transfer'' C_Flag]"

definition MediaPlaylistContentTransferInfoRequest :: csm_type where
  "MediaPlaylistContentTransferInfoRequest = C_Struct (''MediaPlaylistContentTransferInfoRequest'', None) [
     Field 0 Count_One ''media_item_pid'' C_Flag, Field 1 Count_One ''media_item_title'' C_Flag,
     Field 6 Count_One ''media_item_album_title'' C_Flag, Field 12 Count_One ''media_item_artist'' C_Flag,
     Field 14 Count_One ''media_item_album_artist'' C_Flag, Field 16 Count_One ''media_item_genre'' C_Flag,
     Field 18 Count_One ''media_item_composer'' C_Flag]"

definition MediaType :: csm_type where
  "MediaType = C_Enum [
     (''MediaTypeMusic'', 0), (''MediaTypePodcast'', 1), (''MediaTypeAudioBook'', 2),
     (''MediaTypeiTunesU'', 3)]"

definition MediaItem :: csm_type where
  "MediaItem = C_Struct (''MediaItem'', None) [
     Field 0 Count_Optional ''media_item_persistent_identifier'' C_U64,
     Field 1 Count_Optional ''media_item_title'' C_String,
     Field 2 Count_Zero_Or_More ''media_item_media_type'' MediaType,
     Field 3 Count_Optional ''media_item_rating'' C_U8,
     Field 4 Count_Optional ''media_item_playback_duration_in_milliseconds'' C_U32,
     Field 5 Count_Optional ''media_item_album_persistent_identifier'' C_U64,
     Field 6 Count_Optional ''media_item_album_title'' C_String,
     Field 7 Count_Optional ''media_item_album_track_number'' C_U16,
     Field 8 Count_Optional ''media_item_album_track_count'' C_U16,
     Field 9 Count_Optional ''media_item_album_disc_number'' C_U16,
     Field 10 Count_Optional ''media_item_album_disc_count'' C_U16,
     Field 11 Count_Optional ''media_item_artist_persistent_identifier'' C_U64,
     Field 12 Count_Optional ''media_item_artist'' C_String,
     Field 13 Count_Optional ''media_item_album_artist_persistent_identifier'' C_U64,
     Field 14 Count_Optional ''media_item_album_artist'' C_String,
     Field 15 Count_Optional ''media_item_genre_persistent_identifier'' C_U64,
     Field 16 Count_Optional ''media_item_genre'' C_String,
     Field 17 Count_Optional ''media_item_composer_persistent_identifier'' C_U64,
     Field 18 Count_Optional ''media_item_composer'' C_String,
     Field 19 Count_Optional ''media_item_is_part_of_compilation'' C_Bool,
     Field 21 Count_Optional ''media_item_is_like_supported'' C_Bool,
     Field 22 Count_Optional ''media_item_is_ban_supported'' C_Bool,
     Field 23 Count_Optional ''media_item_is_liked'' C_Bool,
     Field 24 Count_Optional ''media_item_is_banned'' C_Bool,
     Field 25 Count_Optional ''media_item_is_resident_on_device'' C_Bool,
     Field 26 Count_Optional ''media_item_artwork_file_transfer_identifier'' C_U8,
     Field 27 Count_Optional ''media_item_chapter_count'' C_U16]"

definition MediaPlaylist :: csm_type where
  "MediaPlaylist = C_Struct (''MediaPlaylist'', None) [
     Field 0 Count_Optional ''media_playlist_persistent_identifier'' C_U64,
     Field 1 Count_Optional ''media_playlist_name'' C_String,
     Field 2 Count_Optional ''media_playlist_parent_persistent_identifier'' C_U64,
     Field 3 Count_Optional ''media_playlist_is_genius_mix'' C_Bool,
     Field 4 Count_Optional ''media_playlist_is_folder'' C_Bool,
     Field 5 Count_Optional ''media_playlist_contained_media_items_file_transfer_identifier'' C_U8,
     Field 6 Count_Optional ''media_playlist_is_apple_music_radio_station'' C_Bool,
     Field 7 Count_One ''media_playlist_content_transfer'' C_Flag]"

definition MediaLibraryCollectionType :: csm_type where
  "MediaLibraryCollectionType = C_Enum [
     (''Playlist'', 0), (''Artist'', 1), (''Album'', 2), (''AlbumArtist'', 3), (''Genre'', 4),
     (''Composer'', 5)]"

definition BluetoothComponentStatus :: csm_type where
  "BluetoothComponentStatus = C_Struct (''BluetoothComponentStatus'', None) [
     Field 0 Count_One ''component_identifier'' C_U16, Field 1 Count_One ''component_enabled'' C_Bool]"

definition ConnectedBluetoothProfiles :: csm_type where
  "ConnectedBluetoothProfiles = C_Struct (''ConnectedBluetoothProfiles'', None) [
     Field 0 Count_One ''bluetooth_hands_free'' C_Flag,
     Field 1 Count_One ''bluetooth_phone_book_access'' C_Flag,
     Field 3 Count_One ''bluetooth_audio_video_remote_control'' C_Flag,
     Field 4 Count_One ''bluetooth_advanced_audio_distribution'' C_Flag,
     Field 5 Count_One ''bluetooth_human_interface_device'' C_Flag,
     Field 6 Count_One ''bluetooth_sensor_service'' C_Flag,
     Field 7 Count_One ''bluetooth_iap2_link'' C_Flag,
     Field 8 Count_One ''bluetooth_personal_area_network_access_point'' C_Flag,
     Field 9 Count_One ''bluetooth_message_access'' C_Flag,
     Field 10 Count_One ''bluetooth_passthrough_service'' C_Flag,
     Field 11 Count_One ''bluetooth_gaming_service'' C_Flag,
     Field 12 Count_One ''bluetooth_personal_area_network_client'' C_Flag,
     Field 13 Count_One ''bluetooth_braille_service'' C_Flag,
     Field 14 Count_One ''bluetooth_multi_stream_service'' C_Flag,
     Field 15 Count_One ''bluetooth_legatt_client'' C_Flag, Field 16 Count_One ''bluetooth_lea'' C_Flag]"

definition WirelessCarPlayUpdateStatus :: csm_type where
  "WirelessCarPlayUpdateStatus = C_Enum [
     (''Unavailable'', 0), (''Available'', 1)]"

definition StartNowPlayingUpdatesMediaItemAttributes :: csm_type where
  "StartNowPlayingUpdatesMediaItemAttributes = C_Struct (''StartNowPlayingUpdatesMediaItemAttributes'', None) [
     Field 0 Count_One ''media_item_persistent_identifier'' C_Flag,
     Field 1 Count_One ''media_item_title'' C_Flag,
     Field 4 Count_One ''media_item_playback_duration_in_milliseconds'' C_Flag,
     Field 6 Count_One ''media_item_album_title'' C_Flag,
     Field 7 Count_One ''media_item_album_track_number'' C_Flag,
     Field 8 Count_One ''media_item_album_track_count'' C_Flag,
     Field 9 Count_One ''media_item_album_disc_number'' C_Flag,
     Field 10 Count_One ''media_item_album_disc_count'' C_Flag,
     Field 12 Count_One ''media_item_artist'' C_Flag, Field 16 Count_One ''media_item_genre'' C_Flag,
     Field 18 Count_One ''media_item_composer'' C_Flag,
     Field 21 Count_One ''media_item_is_like_supported'' C_Flag,
     Field 22 Count_One ''media_item_is_ban_supported'' C_Flag,
     Field 23 Count_One ''media_item_is_liked'' C_Flag, Field 24 Count_One ''media_item_is_banned'' C_Flag,
     Field 26 Count_One ''media_item_artwork_file_transfer_identifier'' C_Flag,
     Field 27 Count_One ''media_item_chapter_count'' C_Flag]"

definition StartNowPlayingUpdatesPlaybackAttributes :: csm_type where
  "StartNowPlayingUpdatesPlaybackAttributes = C_Struct (''StartNowPlayingUpdatesPlaybackAttributes'', None) [
     Field 0 Count_One ''playback_status'' C_Flag,
     Field 1 Count_One ''playback_elapsed_time_in_milliseconds'' C_Flag,
     Field 2 Count_One ''playback_queue_index'' C_Flag, Field 3 Count_One ''playback_queue_count'' C_Flag,
     Field 4 Count_One ''playback_queue_chapter_index'' C_Flag,
     Field 5 Count_One ''playback_shuffle_mode'' C_Flag, Field 6 Count_One ''playback_repeat_mode'' C_Flag,
     Field 7 Count_One ''playback_app_name'' C_Flag,
     Field 8 Count_One ''playback_media_library_unique_identifier'' C_Flag,
     Field 9 Count_One ''playback_apple_music_radio_ad'' C_Flag,
     Field 10 Count_One ''playback_apple_music_radio_station_name'' C_Flag,
     Field 11 Count_One ''playback_apple_music_radio_station_media_playlist_id'' C_Flag,
     Field 12 Count_One ''playback_speed'' C_Flag,
     Field 13 Count_One ''playback_set_elapsed_time_available'' C_Flag,
     Field 14 Count_One ''playback_queue_list_avail'' C_Flag,
     Field 15 Count_One ''playback_queue_list_transfer_id'' C_Flag,
     Field 16 Count_One ''playback_app_bundle_id'' C_Flag,
     Field 17 Count_Optional ''playback_queue_list_content_transfer_size'' C_U32]"

definition PlaybackQueueListContentTransferInfoRequest :: csm_type where
  "PlaybackQueueListContentTransferInfoRequest = C_Struct (''PlaybackQueueListContentTransferInfoRequest'', None) [
     Field 0 Count_One ''media_item_pid'' C_Flag, Field 1 Count_One ''media_item_title'' C_Flag,
     Field 6 Count_One ''media_item_album_title'' C_Flag, Field 12 Count_One ''media_item_artist'' C_Flag,
     Field 14 Count_One ''media_item_album_artist'' C_Flag, Field 16 Count_One ''media_item_genre'' C_Flag,
     Field 18 Count_One ''media_item_composer'' C_Flag]"

definition NowPlayingUpdateMediaItemAttributes :: csm_type where
  "NowPlayingUpdateMediaItemAttributes = C_Struct (''NowPlayingUpdateMediaItemAttributes'', None) [
     Field 0 Count_Optional ''media_item_persistent_identifier'' C_U64,
     Field 1 Count_Optional ''media_item_title'' C_String,
     Field 4 Count_Optional ''media_item_playback_duration_in_milliseconds'' C_U32,
     Field 6 Count_Optional ''media_item_album_title'' C_String,
     Field 7 Count_Optional ''media_item_album_track_number'' C_U16,
     Field 8 Count_Optional ''media_item_album_track_count'' C_U16,
     Field 9 Count_Optional ''media_item_album_disc_number'' C_U16,
     Field 10 Count_Optional ''media_item_album_disc_count'' C_U16,
     Field 12 Count_Optional ''media_item_artist'' C_String,
     Field 16 Count_Optional ''media_item_genre'' C_String,
     Field 18 Count_Optional ''media_item_composer'' C_String,
     Field 21 Count_Optional ''media_item_is_like_supported'' C_Bool,
     Field 22 Count_Optional ''media_item_is_ban_supported'' C_Bool,
     Field 23 Count_Optional ''media_item_is_liked'' C_Bool,
     Field 24 Count_Optional ''media_item_is_banned'' C_Bool,
     Field 26 Count_Optional ''media_item_artwork_file_transfer_identifier'' C_U8,
     Field 27 Count_Optional ''media_item_chapter_count'' C_U16]"

definition PlaybackStatus :: csm_type where
  "PlaybackStatus = C_Enum [
     (''Stopped'', 0), (''Playing'', 1), (''Paused'', 2), (''SeekForward'', 3), (''SeekBackward'', 4)]"

definition PlaybackShuffle :: csm_type where
  "PlaybackShuffle = C_Enum [
     (''Off'', 0), (''Songs'', 1), (''Albums'', 2)]"

definition PlaybackRepeat :: csm_type where
  "PlaybackRepeat = C_Enum [
     (''Off'', 0), (''One'', 1), (''All'', 2)]"

definition NowPlayingUpdatePlaybackAttributes :: csm_type where
  "NowPlayingUpdatePlaybackAttributes = C_Struct (''NowPlayingUpdatePlaybackAttributes'', None) [
     Field 0 Count_Optional ''playback_status'' PlaybackStatus,
     Field 1 Count_Optional ''playback_elapsed_time_in_milliseconds'' C_U32,
     Field 2 Count_Optional ''playback_queue_index'' C_U32,
     Field 3 Count_Optional ''playback_queue_count'' C_U32,
     Field 4 Count_Optional ''playback_queue_chapter_index'' C_U32,
     Field 5 Count_Optional ''playback_shuffle_mode'' PlaybackShuffle,
     Field 6 Count_Optional ''playback_repeat_mode'' PlaybackRepeat,
     Field 7 Count_Optional ''playback_app_name'' C_String,
     Field 8 Count_Optional ''playback_media_library_unique_identifier'' C_String,
     Field 9 Count_Optional ''playback_apple_music_radio_ad'' C_Bool,
     Field 10 Count_Optional ''playback_apple_music_radio_station_name'' C_String,
     Field 11 Count_Optional ''playback_apple_music_radio_station_media_playlist_id'' C_U64,
     Field 12 Count_Optional ''playback_speed'' C_U16,
     Field 13 Count_Optional ''playback_set_elapsed_time_available'' C_Bool,
     Field 14 Count_Optional ''playback_queue_list_avail'' C_Bool,
     Field 15 Count_Optional ''playback_queue_list_transfer_id'' C_U8,
     Field 16 Count_Optional ''playback_app_bundle_id'' C_String,
     Field 17 Count_One ''playback_queue_list_content_transfer'' C_Flag]"

definition RouteGuidanceState :: csm_type where
  "RouteGuidanceState = C_Enum [
     (''NoRouteSetARouteIsNotSet'', 0), (''RouteSetARouteIsSet'', 1),
     (''ArrivedArrivedAtTheDestination'', 2), (''LoadingRetrievingRoutingInformation'', 3),
     (''LocatingLocationPositionNotAvailable'', 4), (''ReroutingRecalculatingTheRoute'', 5),
     (''ProceedToRouteVehicleNeedsToJoinTheRoute'', 6)]"

definition ManeuverState :: csm_type where
  "ManeuverState = C_Enum [
     (''ContinueContinueAlongThisRouteUntilNextManeuver'', 0),
     (''InitialNotificationThatManeuverIsInTheNearFuture'', 1),
     (''PrepareNotificationThatManeuverIsInTheImmediateFuture'', 2), (''ExecuteVehicleIsInManeuver'', 3)]"

definition DistanceDisplayUnits :: csm_type where
  "DistanceDisplayUnits = C_Enum [
     (''Km'', 0), (''Miles'', 1), (''M'', 2), (''Yards'', 3), (''Ft'', 4)]"

definition DestinationChargingInfo :: csm_type where
  "DestinationChargingInfo = C_Enum [
     (''NotAChargingStation'', 0), (''ChargingStationRouteDoesNotIncludeChargingInstructions'', 1),
     (''Value2'', 2), (''Value3'', 3)]"

definition ChargingStationInfoGroup :: csm_type where
  "ChargingStationInfoGroup = C_Struct (''ChargingStationInfoGroup'', None) [
     Field 0 Count_One ''connector_type'' ChargingConnectorTypes, Field 1 Count_One ''voltage'' C_U16,
     Field 2 Count_One ''power'' C_U32]"

definition ManeuverType :: csm_type where
  "ManeuverType = C_Enum [
     (''NoTurnDefaultValue'', 0), (''LeftTurnAngleIsBetween45And135Degrees'', 1),
     (''RightTurnAngleIsBetween45And135Degrees'', 2), (''Value3'', 3), (''MakeAUTurn'', 4),
     (''ContinueToFollowTheRoadTheVehicleIsCurrentlyOn'', 5), (''EnterRoundabout'', 6),
     (''ExitRoundabout'', 7), (''OffRampTakeTheRampToLeaveTheHighway'', 8),
     (''OnRampTakeTheRampToMergeOntoTheHighway'', 9), (''Value10'', 10),
     (''ProceedToTheBeginningOfTheRoute'', 11),
     (''ArriveAtDestinationDestinationHasBeenReachedNavigationWillEnd'', 12), (''Value13'', 13),
     (''Value14'', 14), (''EnterFerry'', 15), (''ExitFerry'', 16), (''ChangeToADifferentFerry'', 17),
     (''MakeAUTurnAndProceedToTheRoute'', 18), (''UseTheRoundaboutToMakeAUTurn'', 19),
     (''AtTheEndOfTheRoadTurnLeft'', 20), (''AtTheEndOfTheRoadTurnRight'', 21),
     (''HighwayOffRampLeftExitTheHighwayOnTheLeft'', 22),
     (''HighwayOffRampRightExitTheHighwayOnTheRight'', 23), (''Value24'', 24), (''Value25'', 25),
     (''MakeAUTurnWhenPossible'', 26), (''Value27'', 27),
     (''RoundaboutExit1ExitTheRoundaboutAtThe1stStreet'', 28),
     (''RoundaboutExit2ExitTheRoundaboutAtThe2ndStreet'', 29),
     (''RoundaboutExit3ExitTheRoundaboutAtThe3rdStreet'', 30),
     (''RoundaboutExit4ExitTheRoundaboutAtThe4thStreet'', 31),
     (''RoundaboutExit5ExitTheRoundaboutAtThe5thStreet'', 32),
     (''RoundaboutExit6ExitTheRoundaboutAtThe6thStreet'', 33),
     (''RoundaboutExit7ExitTheRoundaboutAtThe7thStreet'', 34),
     (''RoundaboutExit8ExitTheRoundaboutAtThe8thStreet'', 35),
     (''RoundaboutExit9ExitTheRoundaboutAtThe9thStreet'', 36),
     (''RoundaboutExit10ExitTheRoundaboutAtThe10thStreet'', 37),
     (''RoundaboutExit11ExitTheRoundaboutAtThe11thStreet'', 38),
     (''RoundaboutExit12ExitTheRoundaboutAtThe12thStreet'', 39),
     (''RoundaboutExit13ExitTheRoundaboutAtThe13thStreet'', 40),
     (''RoundaboutExit14ExitTheRoundaboutAtThe14thStreet'', 41),
     (''RoundaboutExit15ExitTheRoundaboutAtThe15thStreet'', 42),
     (''RoundaboutExit16ExitTheRoundaboutAtThe16thStreet'', 43),
     (''RoundaboutExit17ExitTheRoundaboutAtThe17thStreet'', 44),
     (''RoundaboutExit18ExitTheRoundaboutAtThe18thStreet'', 45),
     (''RoundaboutExit19ExitTheRoundaboutAtThe19thStreet'', 46),
     (''SharpLeftTurnAngleIsBetween135And180Degrees'', 47),
     (''SharpRightTurnAngleIsBetween135And180Degrees'', 48),
     (''SlightLeftTurnTurnOntoADifferentRoadCompareToKeepLeft'', 49),
     (''SlightRightTurnTurnOntoADifferentRoadCompareToKeepRight'', 50), (''Value51'', 51),
     (''ChangeHighwayLeftHighwayToHighwayChangeFromTheLeftSideOfTheRoad'', 52), (''Value53'', 53)]"

definition DrivingSide :: csm_type where
  "DrivingSide = C_Enum [
     (''RightOrAntiClockwiseForRoundabouts'', 0), (''LeftOrClockwiseForRoundabouts'', 1)]"

definition JunctionType :: csm_type where
  "JunctionType = C_Enum [
     (''Value0'', 0), (''Value1'', 1)]"

definition LaneInformationStatus :: csm_type where
  "LaneInformationStatus = C_Enum [
     (''NotGoodTheVehicleShouldNotTakeThisLane'', 0), (''Value1'', 1), (''Value2'', 2)]"

definition LaneInformation :: csm_type where
  "LaneInformation = C_Struct (''LaneInformation'', None) [
     Field 0 Count_One ''index'' C_U16, Field 1 Count_One ''lane_status'' LaneInformationStatus,
     Field 2 Count_Zero_Or_More ''lane_angle'' C_I16, Field 3 Count_Optional ''lane_angle_highlight'' C_I16]"

definition VoiceOverCursorDirection :: csm_type where
  "VoiceOverCursorDirection = C_Enum [
     (''Next'', 0), (''Previous'', 1), (''Escape'', 2)]"

definition VoiceOverScrollDirection :: csm_type where
  "VoiceOverScrollDirection = C_Enum [
     (''Left'', 0), (''Right'', 1), (''Up'', 2), (''Down'', 3)]"

definition WiFiRequestStatus :: csm_type where
  "WiFiRequestStatus = C_Enum [
     (''Success'', 0), (''UserDeclined'', 1), (''NetworkInformationUnavailable'', 2)]"

definition WiFiSecurityType :: csm_type where
  "WiFiSecurityType = C_Enum [
     (''Wep'', 0), (''Wpa'', 1), (''Wpa2'', 2), (''MixedWpaAndWpa2'', 3)]"

definition AccessoryWiFiConfigurationSecurityType :: csm_type where
  "AccessoryWiFiConfigurationSecurityType = C_Enum [
     (''None'', 0), (''Wep'', 1), (''Wpa2PersonalWpa3PersonalTransitionMode'', 2)]"

definition WiperStatus :: csm_type where
  "WiperStatus = C_Struct (''WiperStatus'', None) [
     Field 0 Count_Optional ''washer_on'' C_Bool, Field 1 Count_Optional ''wipe_duration'' C_U16,
     Field 2 Count_Optional ''wait_duration'' C_U32]"

definition VehicleAlerts :: csm_type where
  "VehicleAlerts = C_Enum [
     (''TractionLoss'', 0), (''AntiLockBrakeSystemWarning'', 1), (''LowTirePressureWarning'', 2),
     (''HazardWarning'', 3), (''HardBrake'', 4), (''AirBagDeploy'', 5)]"

definition CarPlayAppCategories :: csm_type where
  "CarPlayAppCategories = C_Struct (''CarPlayAppCategories'', None) [
     Field 0 Count_One ''all_car_play_apps'' C_Flag, Field 1 Count_One ''messaging'' C_Flag,
     Field 2 Count_One ''calling'' C_Flag, Field 3 Count_One ''navigation'' C_Flag,
     Field 4 Count_One ''audio'' C_Flag, Field 5 Count_One ''automaker'' C_Flag,
     Field 7 Count_One ''quick_ordering'' C_Flag, Field 8 Count_One ''ev_charging'' C_Flag,
     Field 9 Count_One ''parking'' C_Flag, Field 10 Count_One ''productivity'' C_Flag,
     Field 11 Count_One ''fueling'' C_Flag, Field 12 Count_One ''driving_task'' C_Flag]"

definition ExternalAccessoryAppCategories :: csm_type where
  "ExternalAccessoryAppCategories = C_Struct (''ExternalAccessoryAppCategories'', None) [
     Field 0 Count_One ''all_external_accessory_apps'' C_Flag]"

definition CarPlayAppListAvailable :: csm_type where
  "CarPlayAppListAvailable = C_Enum [
     (''Unknown'', 0), (''Declined'', 1), (''Accepted'', 2)]"

definition CarPlayAppList :: csm_type where
  "CarPlayAppList = C_Struct (''CarPlayAppList'', None) [
     Field 0 Count_Optional ''index'' C_U16, Field 1 Count_Optional ''app_bundle_id'' C_String,
     Field 2 Count_Optional ''app_display_name'' C_String, Field 3 Count_Optional ''app_category_id'' C_U16,
     Field 4 Count_Optional ''app_icon_identifier'' C_Byte_Array]"

definition AppListAvailable :: csm_type where
  "AppListAvailable = C_Enum [
     (''Unknown'', 0), (''Unavailable'', 1), (''Available'', 2)]"

definition ExternalAccessoryAppList :: csm_type where
  "ExternalAccessoryAppList = C_Struct (''ExternalAccessoryAppList'', None) [
     Field 0 Count_Optional ''index'' C_U16, Field 1 Count_Optional ''app_bundle_id'' C_String,
     Field 2 Count_Optional ''app_display_name'' C_String, Field 3 Count_Optional ''app_category_id'' C_U16,
     Field 4 Count_Optional ''app_icon_identifier'' C_Byte_Array]"

definition AccessoryPowerModes :: csm_type where
  "AccessoryPowerModes = C_Enum [
     (''Reserved'', 0), (''LowPower'', 1), (''IntermittentHighPower'', 2), (''UltraHighPower'', 3)]"

definition BatteryChargingState :: csm_type where
  "BatteryChargingState = C_Enum [
     (''Disabled'', 0), (''Charging'', 1), (''Charged'', 2)]"

definition BlePairingType :: csm_type where
  "BlePairingType = C_Enum [
     (''PasskeyPairing'', 0), (''OutOfBandOobPairing'', 1)]"

definition BlePairingState :: csm_type where
  "BlePairingState = C_Enum [
     (''PairingSuccessfulOrAlreadyPaired'', 0), (''PairingFailed'', 1)]"

definition AppLaunchMethod :: csm_type where
  "AppLaunchMethod = C_Enum [
     (''LaunchWithUserAlertDefault'', 0), (''LaunchWithoutUserAlert'', 1)]"

definition ExternalAccessoryProtocolSessionStatus :: csm_type where
  "ExternalAccessoryProtocolSessionStatus = C_Enum [
     (''SessionStatusOk'', 0), (''SessionClose'', 1)]"

end
