(* ===== verification/Csm_Messages.thy ===== *)
theory Csm_Messages
  imports Csm_Groups
begin

text \<open>
  The messages of \<open>core/catplay_csm/src/msg/iap2.rs\<close> with identifiers below \<open>0x4E00\<close>: Bluetooth pairing,
  road objects, destinations, calls, lists and the media library. Each definition is one
  \<open>packet_type!\<close>.
\<close>

definition StartOOBBTPairing :: csm_type where
  "StartOOBBTPairing = C_Struct (''StartOOBBTPairing'', Some 0x00B0) []"

definition OOBBTPairingAccessoryInformation :: csm_type where
  "OOBBTPairingAccessoryInformation = C_Struct (''OOBBTPairingAccessoryInformation'', Some 0x00B1) [
     Field 0 Count_One ''bluetooth_transport_component_identifier'' C_U16,
     Field 1 Count_One ''device_class'' C_U32]"

definition OOBBTPairingLinkKeyInformation :: csm_type where
  "OOBBTPairingLinkKeyInformation = C_Struct (''OOBBTPairingLinkKeyInformation'', Some 0x00B2) [
     Field 0 Count_One ''link_key'' C_Byte_Array, Field 1 Count_One ''device_mac_address'' (C_U8_Array 6)]"

definition OOBBTPairingCompletionInformation :: csm_type where
  "OOBBTPairingCompletionInformation = C_Struct (''OOBBTPairingCompletionInformation'', Some 0x00B3) [
     Field 0 Count_One ''result_code'' C_U8]"

definition StopOOBBTPairing :: csm_type where
  "StopOOBBTPairing = C_Struct (''StopOOBBTPairing'', Some 0x00B4) []"

definition StartBluetoothPairing :: csm_type where
  "StartBluetoothPairing = C_Struct (''StartBluetoothPairing'', Some 0x0B00) [
     Field 0 Count_One ''bluetooth_transport_component_identifier'' C_U16,
     Field 1 Count_Optional ''device_mac_address'' (C_U8_Array 6)]"

definition BluetoothPairingAccessoryInformation :: csm_type where
  "BluetoothPairingAccessoryInformation = C_Struct (''BluetoothPairingAccessoryInformation'', Some 0x0B01) [
     Field 0 Count_One ''bluetooth_transport_component_identifier'' C_U16,
     Field 1 Count_One ''pairing_data_p192'' (C_Tight (C_U8_Array 16) 2),
     Field 2 Count_Optional ''pairing_data_p256'' (C_Tight (C_U8_Array 16) 2)]"

definition BluetoothPairingStatus :: csm_type where
  "BluetoothPairingStatus = C_Struct (''BluetoothPairingStatus'', Some 0x0B02) [
     Field 0 Count_One ''bluetooth_transport_component_identifier'' C_U16,
     Field 1 Count_One ''success'' C_Flag, Field 2 Count_Optional ''cancel_reason'' C_String]"

definition StopBluetoothPairing :: csm_type where
  "StopBluetoothPairing = C_Struct (''StopBluetoothPairing'', Some 0x0B03) [
     Field 0 Count_One ''bluetooth_transport_component_identifier'' C_U16,
     Field 1 Count_One ''success'' C_Flag, Field 2 Count_One ''already_paired'' C_Flag,
     Field 3 Count_One ''pairing_cancel'' C_Flag]"

definition StartRoadObjectDetectionUpdates :: csm_type where
  "StartRoadObjectDetectionUpdates = C_Struct (''StartRoadObjectDetectionUpdates'', Some 0x0D00) [
     Field 0 Count_Zero_Or_More ''component_identifier'' C_U16, Field 1 Count_One ''road_sign'' C_Flag,
     Field 2 Count_One ''road_lane'' C_Flag, Field 3 Count_One ''road_object'' C_Flag]"

definition RoadObjectDetectionUpdate :: csm_type where
  "RoadObjectDetectionUpdate = C_Struct (''RoadObjectDetectionUpdate'', Some 0x0D01) [
     Field 0 Count_One ''component_identifier'' C_U16, Field 1 Count_One ''timestamp'' C_U64,
     Field 2 Count_Optional ''ego_speed'' C_I32, Field 3 Count_Optional ''yaw_rate'' C_Rat32,
     Field 4 Count_Zero_Or_More ''road_sign'' RoadSign, Field 5 Count_Zero_Or_More ''road_lane'' RoadLane,
     Field 6 Count_Zero_Or_More ''road_object'' RoadObject]"

definition StopRoadObjectDetectionUpdates :: csm_type where
  "StopRoadObjectDetectionUpdates = C_Struct (''StopRoadObjectDetectionUpdates'', Some 0x0D02) [
     Field 0 Count_Zero_Or_More ''component_identifier'' C_U16]"

definition StartDestinationInformation :: csm_type where
  "StartDestinationInformation = C_Struct (''StartDestinationInformation'', Some 0x10DA) [
     Field 0 Count_One ''source_name'' C_Flag]"

definition DestinationInformation :: csm_type where
  "DestinationInformation = C_Struct (''DestinationInformation'', Some 0x10DB) [
     Field 0 Count_One ''destination_identifier'' C_String,
     Field 1 Count_Optional ''display_name'' C_String,
     Field 2 Count_One ''center_coordinate'' CenterCoordinate, Field 3 Count_One ''address'' C_String,
     Field 4 Count_Zero_Or_More ''entry_point'' EntryPoint,
     Field 5 Count_One ''coordinate_threshold'' C_U32, Field 6 Count_One ''locale'' C_String,
     Field 7 Count_Optional ''source_name'' C_String]"

definition StopDestinationInformation :: csm_type where
  "StopDestinationInformation = C_Struct (''StopDestinationInformation'', Some 0x10DC) []"

definition DestinationInformationStatus :: csm_type where
  "DestinationInformationStatus = C_Struct (''DestinationInformationStatus'', Some 0x10DD) [
     Field 0 Count_One ''destination_identifier'' C_String, Field 1 Count_One ''failure_occurred'' C_Flag,
     Field 2 Count_Optional ''parameters_successfully_used'' ParametersSuccessfullyUsed]"

definition StartIdentification :: csm_type where
  "StartIdentification = C_Struct (''StartIdentification'', Some 0x1D00) []"

definition IdentificationInformation :: csm_type where
  "IdentificationInformation = C_Struct (''IdentificationInformation'', Some 0x1D01) [
     Field 0 Count_One ''name'' C_String, Field 1 Count_One ''model_identifier'' C_String,
     Field 2 Count_One ''manufacturer'' C_String, Field 3 Count_One ''serial_number'' C_String,
     Field 4 Count_One ''firmware_version'' C_String, Field 5 Count_One ''hardware_version'' C_String,
     Field 6 Count_One ''messages_sent_by_accessory'' (C_Packed C_U16),
     Field 7 Count_One ''messages_received_from_device'' (C_Packed C_U16),
     Field 8 Count_One ''power_providing_capability'' PowerProvidingCapability,
     Field 9 Count_One ''maximum_current_drawn_from_device'' C_U16,
     Field 10 Count_Zero_Or_More ''supported_external_accessory_protocol'' SupportedExternalAccessoryProtocol,
     Field 11 Count_Optional ''app_match_team_id'' C_String,
     Field 12 Count_One ''current_language'' C_String,
     Field 13 Count_One_Or_More ''supported_language'' C_String,
     Field 14 Count_Optional ''uart_transport_component'' UARTTransportComponent,
     Field 15 Count_Optional ''usb_device_transport_component'' USBDeviceTransportComponent,
     Field 16 Count_Optional ''usb_host_transport_component'' USBHostTransportComponent,
     Field 17 Count_Zero_Or_More ''bluetooth_transport_component'' BluetoothTransportComponent,
     Field 18 Count_Zero_Or_More ''iap2_hid_component'' iAP2HIDComponent,
     Field 20 Count_Optional ''vehicle_information_component'' VehicleInformationComponent,
     Field 21 Count_Optional ''vehicle_status_component'' VehicleStatusComponent,
     Field 22 Count_Optional ''location_information_component'' LocationInformationComponent,
     Field 23 Count_Zero_Or_More ''usb_host_hid_component'' USBHostHIDComponent,
     Field 24 Count_Zero_Or_More ''wireless_car_play_transport_component'' WirelessCarPlayTransportComponent,
     Field 26 Count_Optional ''ble_transport_component'' BLETransportComponent,
     Field 29 Count_Optional ''bluetooth_hid_component'' BluetoothHIDComponent,
     Field 30 Count_Zero_Or_More ''route_guidance_display_component'' RouteGuidanceDisplayComponent,
     Field 33 Count_Zero_Or_More ''road_object_detection_component'' RoadObjectDetectionComponent,
     Field 34 Count_One ''product_plan_uid'' C_String,
     Field 35 Count_Zero_Or_More ''physical_device_compatibility'' C_String,
     Field 36 Count_Optional ''color'' Color, Field 37 Count_Optional ''secondary_color'' SecondaryColor,
     Field 38 Count_Optional ''vehicle_digital_car_key_information'' VehicleDigitalCarKeyInformation,
     Field 240 Count_Optional ''maximum_current_drawn_in_uhpm'' C_U16,
     Field 241 Count_Optional ''power_during_sleep'' PowerDuringSleep]"

definition IdentificationAccepted :: csm_type where
  "IdentificationAccepted = C_Struct (''IdentificationAccepted'', Some 0x1D02) []"

definition IdentificationRejected :: csm_type where
  "IdentificationRejected = C_Struct (''IdentificationRejected'', Some 0x1D03) [
     Field 0 Count_One ''name'' C_Flag, Field 1 Count_One ''model_identifier'' C_Flag,
     Field 2 Count_One ''manufacturer'' C_Flag, Field 3 Count_One ''serial_number'' C_Flag,
     Field 4 Count_One ''firmware_version'' C_Flag, Field 5 Count_One ''hardware_version'' C_Flag,
     Field 6 Count_Optional ''messages_sent_by_accessory'' (C_Packed C_U16),
     Field 7 Count_Optional ''messages_received_from_device'' (C_Packed C_U16),
     Field 8 Count_One ''power_providing_capability'' C_Flag,
     Field 9 Count_One ''maximum_current_drawn_from_device'' C_Flag,
     Field 10 Count_One ''supported_external_accessory_protocol'' C_Flag,
     Field 11 Count_One ''app_match_team_id'' C_Flag, Field 12 Count_One ''current_language'' C_Flag,
     Field 13 Count_One ''supported_language'' C_Flag,
     Field 14 Count_One ''uart_transport_component'' C_Flag,
     Field 15 Count_One ''usb_device_transport_component'' C_Flag,
     Field 16 Count_One ''usb_host_transport_component'' C_Flag,
     Field 17 Count_One ''bluetooth_transport_component'' C_Flag,
     Field 18 Count_Zero_Or_More ''iap2_hid_component'' C_Flag,
     Field 20 Count_One ''vehicle_information_component'' C_Flag,
     Field 21 Count_One ''vehicle_status_component'' C_Flag,
     Field 22 Count_One ''location_information_component'' C_Flag,
     Field 23 Count_Zero_Or_More ''usb_host_hid_component'' C_Flag,
     Field 24 Count_Zero_Or_More ''wireless_car_play_transport_component'' C_Flag,
     Field 26 Count_One ''ble_transport_component'' C_Flag,
     Field 29 Count_One ''bluetooth_hid_component'' C_Flag,
     Field 30 Count_Zero_Or_More ''route_guidance_display_component'' C_Flag,
     Field 33 Count_Zero_Or_More ''road_object_detection_component'' C_Flag,
     Field 34 Count_One ''product_plan_uid'' C_Flag,
     Field 240 Count_Optional ''maximum_current_drawn_in_uhpm'' C_U16,
     Field 241 Count_One ''power_during_sleep'' C_Flag]"

definition CancelIdentification :: csm_type where
  "CancelIdentification = C_Struct (''CancelIdentification'', Some 0x1D05) []"

definition IdentificationInformationUpdate :: csm_type where
  "IdentificationInformationUpdate = C_Struct (''IdentificationInformationUpdate'', Some 0x1D06) [
     Field 0 Count_One ''name'' C_String, Field 1 Count_One ''model_identifier'' C_String,
     Field 2 Count_One ''manufacturer'' C_String, Field 3 Count_One ''serial_number'' C_String,
     Field 4 Count_One ''firmware_version'' C_String, Field 5 Count_One ''hardware_version'' C_String,
     Field 6 Count_One ''current_language'' C_String]"

definition StartCallStateUpdates :: csm_type where
  "StartCallStateUpdates = C_Struct (''StartCallStateUpdates'', Some 0x4154) [
     Field 0 Count_One ''remote_id'' C_Flag, Field 1 Count_One ''display_name'' C_Flag,
     Field 2 Count_One ''status'' C_Flag, Field 3 Count_One ''direction'' C_Flag,
     Field 4 Count_One ''call_uuid'' C_Flag, Field 6 Count_One ''address_book_id'' C_Flag,
     Field 7 Count_One ''label'' C_Flag, Field 8 Count_One ''service'' C_Flag,
     Field 9 Count_One ''is_conferenced'' C_Flag, Field 10 Count_One ''conference_group'' C_Flag,
     Field 11 Count_One ''disconnect_reason'' C_Flag, Field 12 Count_One ''start_timestamp'' C_Flag]"

definition CallStateUpdate :: csm_type where
  "CallStateUpdate = C_Struct (''CallStateUpdate'', Some 0x4155) [
     Field 0 Count_Optional ''remote_id'' C_String, Field 1 Count_Optional ''display_name'' C_String,
     Field 2 Count_One ''status'' CallStateUpdateStatus,
     Field 3 Count_Optional ''direction'' CallStateUpdateDirection,
     Field 4 Count_Optional ''call_uuid'' C_String, Field 6 Count_Optional ''address_book_id'' C_String,
     Field 7 Count_Optional ''label'' C_String, Field 8 Count_Optional ''service'' CallStateUpdateService,
     Field 9 Count_Optional ''is_conferenced'' C_Bool, Field 10 Count_Optional ''conference_group'' C_U8,
     Field 11 Count_Optional ''disconnect_reason'' CallStateUpdateDisconnectReason,
     Field 12 Count_Optional ''start_timestamp'' C_U64]"

definition StopCallStateUpdates :: csm_type where
  "StopCallStateUpdates = C_Struct (''StopCallStateUpdates'', Some 0x4156) []"

definition StartCommunicationsUpdates :: csm_type where
  "StartCommunicationsUpdates = C_Struct (''StartCommunicationsUpdates'', Some 0x4157) [
     Field 0 Count_One ''signal_strength'' C_Flag, Field 1 Count_One ''registration_status'' C_Flag,
     Field 2 Count_One ''airplane_mode_status'' C_Flag, Field 4 Count_One ''carrier_name'' C_Flag,
     Field 5 Count_One ''cellular_supported'' C_Flag, Field 6 Count_One ''telephony_enabled'' C_Flag,
     Field 7 Count_One ''face_time_audio_enabled'' C_Flag,
     Field 8 Count_One ''face_time_video_enabled'' C_Flag, Field 9 Count_One ''mute_status'' C_Flag,
     Field 10 Count_One ''current_call_count'' C_Flag, Field 11 Count_One ''new_voicemail_count'' C_Flag,
     Field 12 Count_One ''initiate_call_available'' C_Flag,
     Field 13 Count_One ''end_and_accept_available'' C_Flag,
     Field 14 Count_One ''hold_and_accept_available'' C_Flag, Field 15 Count_One ''swap_available'' C_Flag,
     Field 16 Count_One ''merge_available'' C_Flag, Field 17 Count_One ''hold_available'' C_Flag]"

definition CommunicationsUpdate :: csm_type where
  "CommunicationsUpdate = C_Struct (''CommunicationsUpdate'', Some 0x4158) [
     Field 0 Count_Optional ''signal_strength'' CommunicationsUpdateSignalStrength,
     Field 1 Count_Optional ''registration_status'' CommunicationsUpdateRegistrationStatus,
     Field 2 Count_Optional ''airplane_mode_status'' C_Bool,
     Field 4 Count_Optional ''carrier_name'' C_String, Field 5 Count_Optional ''cellular_supported'' C_Bool,
     Field 6 Count_Optional ''telephony_enabled'' C_Bool,
     Field 7 Count_Optional ''face_time_audio_enabled'' C_Bool,
     Field 8 Count_Optional ''face_time_video_enabled'' C_Bool,
     Field 9 Count_Optional ''mute_status'' C_Bool, Field 10 Count_Optional ''current_call_count'' C_U8,
     Field 11 Count_Optional ''new_voicemail_count'' C_U8,
     Field 12 Count_Optional ''initiate_call_available'' C_Bool,
     Field 13 Count_Optional ''end_and_accept_available'' C_Bool,
     Field 14 Count_Optional ''hold_and_accept_available'' C_Bool,
     Field 15 Count_Optional ''swap_available'' C_Bool, Field 16 Count_Optional ''merge_available'' C_Bool,
     Field 17 Count_Optional ''hold_available'' C_Bool]"

definition StopCommunicationsUpdates :: csm_type where
  "StopCommunicationsUpdates = C_Struct (''StopCommunicationsUpdates'', Some 0x4159) []"

definition InitiateCall :: csm_type where
  "InitiateCall = C_Struct (''InitiateCall'', Some 0x415A) [
     Field 0 Count_One ''type_'' InitiateCallType, Field 1 Count_Optional ''destination_id'' C_String,
     Field 2 Count_Optional ''service'' InitiateCallService,
     Field 3 Count_Optional ''address_book_id'' C_String]"

definition AcceptCall :: csm_type where
  "AcceptCall = C_Struct (''AcceptCall'', Some 0x415B) [
     Field 0 Count_One ''accept_action'' AcceptCallAcceptAction,
     Field 1 Count_Optional ''call_uuid'' C_String]"

definition EndCall :: csm_type where
  "EndCall = C_Struct (''EndCall'', Some 0x415C) [
     Field 0 Count_One ''end_action'' EndCallEndAction, Field 1 Count_Optional ''call_uuid'' C_String]"

definition SwapCalls :: csm_type where
  "SwapCalls = C_Struct (''SwapCalls'', Some 0x415D) []"

definition MergeCalls :: csm_type where
  "MergeCalls = C_Struct (''MergeCalls'', Some 0x415E) []"

definition HoldStatusUpdate :: csm_type where
  "HoldStatusUpdate = C_Struct (''HoldStatusUpdate'', Some 0x415F) [
     Field 0 Count_One ''hold_status'' C_Bool, Field 1 Count_Optional ''call_uuid'' C_String]"

definition MuteStatusUpdate :: csm_type where
  "MuteStatusUpdate = C_Struct (''MuteStatusUpdate'', Some 0x4160) [
     Field 0 Count_One ''mute_status'' C_Bool]"

definition SendDTMF :: csm_type where
  "SendDTMF = C_Struct (''SendDTMF'', Some 0x4161) [
     Field 0 Count_One ''tone'' SendDtmfTone, Field 1 Count_Optional ''call_uuid'' C_String]"

definition StartListUpdates :: csm_type where
  "StartListUpdates = C_Struct (''StartListUpdates'', Some 0x4170) [
     Field 1 Count_Optional ''recents_list_properties'' RecentsListProperties,
     Field 3 Count_Optional ''recents_list_max'' C_U16,
     Field 4 Count_Optional ''recents_list_combine'' C_Bool,
     Field 6 Count_Optional ''favorites_list_properties'' FavoritesListProperties,
     Field 8 Count_Optional ''favorites_list_max'' C_U16]"

definition ListUpdate :: csm_type where
  "ListUpdate = C_Struct (''ListUpdate'', Some 0x4171) [
     Field 0 Count_Optional ''recents_list_available'' C_Bool,
     Field 1 Count_Zero_Or_More ''recents_list'' RecentsList,
     Field 2 Count_Optional ''recents_list_count'' C_U16,
     Field 5 Count_Optional ''favorites_list_available'' C_Bool,
     Field 6 Count_Zero_Or_More ''favorites_list'' FavoritesList,
     Field 7 Count_Optional ''favorites_list_count'' C_U16]"

definition StopListUpdates :: csm_type where
  "StopListUpdates = C_Struct (''StopListUpdates'', Some 0x4172) []"

definition CarPlayAvailability :: csm_type where
  "CarPlayAvailability = C_Struct (''CarPlayAvailability'', Some 0x4300) [
     Field 0 Count_Optional ''wired_attributes'' CarPlayAvailabilityWiredAttributes,
     Field 1 Count_Optional ''wireless_attributes'' CarPlayAvailabilityWirelessAttributes,
     Field 2 Count_Optional ''theme_assets_attributes'' ThemeAssetsAttributes]"

definition CarPlayStartSession :: csm_type where
  "CarPlayStartSession = C_Struct (''CarPlayStartSession'', Some 0x4301) [
     Field 0 Count_Optional ''wired_attributes'' CarPlayStartSessionWiredAttributes,
     Field 1 Count_Optional ''wireless_attributes'' CarPlayStartSessionWirelessAttributes,
     Field 2 Count_One ''port'' C_U32, Field 3 Count_One ''device_identifier'' C_String,
     Field 4 Count_One ''public_key'' C_String, Field 5 Count_One ''source_version'' C_String,
     Field 6 Count_Optional ''car_play_sdk_version'' C_String,
     Field 7 Count_Optional ''asset_information'' AssetInformation,
     Field 8 Count_Optional ''supports_mutual_authentication'' C_Bool]"

definition AvailableDigitalCarKeys :: csm_type where
  "AvailableDigitalCarKeys = C_Struct (''AvailableDigitalCarKeys'', Some 0x4302) [
     Field 0 Count_One_Or_More ''key_identifier'' C_String]"

definition MatchedDigitalCarKeys :: csm_type where
  "MatchedDigitalCarKeys = C_Struct (''MatchedDigitalCarKeys'', Some 0x4303) [
     Field 0 Count_Zero_Or_More ''key_identifier'' C_String]"

definition StartMediaLibraryInformation :: csm_type where
  "StartMediaLibraryInformation = C_Struct (''StartMediaLibraryInformation'', Some 0x4C00) []"

definition MediaLibraryInformation :: csm_type where
  "MediaLibraryInformation = C_Struct (''MediaLibraryInformation'', Some 0x4C01) [
     Field 0 Count_Zero_Or_More ''media_library_information'' MediaLibraryInformationMediaLibraryInformation]"

definition StopMediaLibraryInformation :: csm_type where
  "StopMediaLibraryInformation = C_Struct (''StopMediaLibraryInformation'', Some 0x4C02) []"

definition StartMediaLibraryUpdates :: csm_type where
  "StartMediaLibraryUpdates = C_Struct (''StartMediaLibraryUpdates'', Some 0x4C03) [
     Field 0 Count_One ''media_library_unique_identifier'' C_String,
     Field 1 Count_Optional ''last_known_media_library_revision'' C_String,
     Field 2 Count_Optional ''media_item_properties'' MediaItemProperties,
     Field 3 Count_Optional ''media_playlist_properties'' MediaPlaylistProperties,
     Field 4 Count_One ''media_library_update_progress'' C_Flag,
     Field 5 Count_One ''media_library_is_hiding_remote_items'' C_Flag,
     Field 6 Count_One ''play_all_songs_capable'' C_Flag,
     Field 7 Count_Optional ''media_playlist_content_transfer_info_request'' MediaPlaylistContentTransferInfoRequest]"

definition MediaLibraryUpdate :: csm_type where
  "MediaLibraryUpdate = C_Struct (''MediaLibraryUpdate'', Some 0x4C04) [
     Field 0 Count_One ''media_library_unique_identifier'' C_String,
     Field 1 Count_Optional ''media_library_revision'' C_String,
     Field 2 Count_Zero_Or_More ''media_item'' MediaItem,
     Field 3 Count_Zero_Or_More ''media_playlist'' MediaPlaylist,
     Field 4 Count_Zero_Or_More ''media_item_delete_persistent_identifier'' C_U64,
     Field 5 Count_Zero_Or_More ''media_playlist_delete_persistent_identifier'' C_U64,
     Field 6 Count_One ''media_library_reset'' C_Flag,
     Field 7 Count_Optional ''media_library_update_progress'' C_U8,
     Field 8 Count_Optional ''media_library_is_hiding_remote_items'' C_Bool,
     Field 9 Count_Optional ''play_all_songs_capable'' C_Bool]"

definition StopMediaLibraryUpdates :: csm_type where
  "StopMediaLibraryUpdates = C_Struct (''StopMediaLibraryUpdates'', Some 0x4C05) [
     Field 0 Count_One ''media_library_unique_identifier'' C_String]"

definition PlayMediaLibraryCurrentSelection :: csm_type where
  "PlayMediaLibraryCurrentSelection = C_Struct (''PlayMediaLibraryCurrentSelection'', Some 0x4C06) [
     Field 0 Count_One ''media_library_unique_identifier'' C_String]"

definition PlayMediaLibraryItems :: csm_type where
  "PlayMediaLibraryItems = C_Struct (''PlayMediaLibraryItems'', Some 0x4C07) [
     Field 0 Count_One ''items_persistent_identifiers'' (C_Packed C_U64),
     Field 1 Count_Optional ''items_starting_index'' C_U32,
     Field 2 Count_One ''media_library_unique_identifier'' C_String]"

definition PlayMediaLibraryCollection :: csm_type where
  "PlayMediaLibraryCollection = C_Struct (''PlayMediaLibraryCollection'', Some 0x4C08) [
     Field 0 Count_One ''collection_persistent_identifier'' C_U64,
     Field 1 Count_One ''collection_type'' MediaLibraryCollectionType,
     Field 2 Count_Optional ''collection_starting_index'' C_U32,
     Field 3 Count_One ''media_library_unique_identifier'' C_String,
     Field 4 Count_Optional ''starting_media_item_persistent_identifier'' C_U64]"

definition PlayMediaLibrarySpecial :: csm_type where
  "PlayMediaLibrarySpecial = C_Struct (''PlayMediaLibrarySpecial'', Some 0x4C09) [
     Field 0 Count_One ''media_library_unique_identifier'' C_String, Field 1 Count_One ''all_songs'' C_Flag,
     Field 2 Count_Optional ''starting_media_item_persistent_identifier'' C_U64]"

end
