(* ===== verification/Csm_Messages_More.thy ===== *)
theory Csm_Messages_More
  imports Csm_Groups
begin

text \<open>
  The messages of \<open>core/catplay_csm/src/msg/iap2.rs\<close> with identifiers from \<open>0x4E00\<close> on: device state,
  now playing, navigation, assistive functions, HID, identification, authentication, power, vehicle,
  external accessory and location. Each definition is one \<open>packet_type!\<close>.
\<close>

definition BluetoothComponentInformation :: csm_type where
  "BluetoothComponentInformation = C_Struct (''BluetoothComponentInformation'', Some 0x4E01) [
     Field 0 Count_Zero_Or_More ''bluetooth_component_status'' BluetoothComponentStatus]"

definition StartBluetoothConnectionUpdates :: csm_type where
  "StartBluetoothConnectionUpdates = C_Struct (''StartBluetoothConnectionUpdates'', Some 0x4E03) [
     Field 0 Count_One_Or_More ''bluetooth_transport_component_identifier'' C_U16]"

definition BluetoothConnectionUpdate :: csm_type where
  "BluetoothConnectionUpdate = C_Struct (''BluetoothConnectionUpdate'', Some 0x4E04) [
     Field 0 Count_One ''bluetooth_transport_component_identifier'' C_U16,
     Field 1 Count_Optional ''connected_bluetooth_profiles'' ConnectedBluetoothProfiles]"

definition StopBluetoothConnectionUpdates :: csm_type where
  "StopBluetoothConnectionUpdates = C_Struct (''StopBluetoothConnectionUpdates'', Some 0x4E05) []"

definition DeviceInformationUpdate :: csm_type where
  "DeviceInformationUpdate = C_Struct (''DeviceInformationUpdate'', Some 0x4E09) [
     Field 0 Count_Optional ''device_name'' C_String]"

definition DeviceLanguageUpdate :: csm_type where
  "DeviceLanguageUpdate = C_Struct (''DeviceLanguageUpdate'', Some 0x4E0A) [
     Field 0 Count_Optional ''device_language'' C_String]"

definition DeviceTimeUpdate :: csm_type where
  "DeviceTimeUpdate = C_Struct (''DeviceTimeUpdate'', Some 0x4E0B) [
     Field 0 Count_One ''seconds_since_reference_date'' C_U64,
     Field 1 Count_One ''time_zone_offset_minutes'' C_I16,
     Field 2 Count_One ''daylight_savings_offset_minutes'' C_I8]"

definition DeviceUUIDUpdate :: csm_type where
  "DeviceUUIDUpdate = C_Struct (''DeviceUUIDUpdate'', Some 0x4E0C) [
     Field 0 Count_One ''uuid'' C_String]"

definition WirelessCarPlayUpdate :: csm_type where
  "WirelessCarPlayUpdate = C_Struct (''WirelessCarPlayUpdate'', Some 0x4E0D) [
     Field 0 Count_One ''status'' WirelessCarPlayUpdateStatus]"

definition DeviceTransportIdentifierNotification :: csm_type where
  "DeviceTransportIdentifierNotification = C_Struct (''DeviceTransportIdentifierNotification'', Some 0x4E0E) [
     Field 0 Count_Optional ''bluetooth_transport_identifier'' C_String,
     Field 1 Count_Optional ''usb_transport_identifier'' C_String]"

definition StartNowPlayingUpdates :: csm_type where
  "StartNowPlayingUpdates = C_Struct (''StartNowPlayingUpdates'', Some 0x5000) [
     Field 0 Count_Optional ''media_item_attributes'' StartNowPlayingUpdatesMediaItemAttributes,
     Field 1 Count_Optional ''playback_attributes'' StartNowPlayingUpdatesPlaybackAttributes,
     Field 2 Count_Optional ''playback_queue_list_content_transfer_info_request'' PlaybackQueueListContentTransferInfoRequest]"

definition NowPlayingUpdate :: csm_type where
  "NowPlayingUpdate = C_Struct (''NowPlayingUpdate'', Some 0x5001) [
     Field 0 Count_Optional ''media_item_attributes'' NowPlayingUpdateMediaItemAttributes,
     Field 1 Count_Optional ''playback_attributes'' NowPlayingUpdatePlaybackAttributes]"

definition StopNowPlayingUpdates :: csm_type where
  "StopNowPlayingUpdates = C_Struct (''StopNowPlayingUpdates'', Some 0x5002) []"

definition SetNowPlayingInformation :: csm_type where
  "SetNowPlayingInformation = C_Struct (''SetNowPlayingInformation'', Some 0x5003) [
     Field 0 Count_Optional ''elapsed_time'' C_U32, Field 1 Count_Optional ''playback_queue_index'' C_U32,
     Field 2 Count_Optional ''playback_queue_list_content_transfer_start_index'' C_U32]"

definition StartRouteGuidanceUpdates :: csm_type where
  "StartRouteGuidanceUpdates = C_Struct (''StartRouteGuidanceUpdates'', Some 0x5200) [
     Field 0 Count_Zero_Or_More ''route_guidance_display_component_id'' C_U16,
     Field 1 Count_One ''source_name'' C_Flag, Field 2 Count_One ''source_supports_route_guidance'' C_Flag,
     Field 3 Count_One ''supports_exit_info'' C_Flag,
     Field 4 Count_One ''destination_time_zone_offset_minutes'' C_Flag,
     Field 5 Count_One ''ev_charge_info'' C_Flag]"

definition RouteGuidanceUpdate :: csm_type where
  "RouteGuidanceUpdate = C_Struct (''RouteGuidanceUpdate'', Some 0x5201) [
     Field 0 Count_Zero_Or_More ''route_guidance_display_component_id'' C_U16,
     Field 1 Count_Optional ''route_guidance_state'' RouteGuidanceState,
     Field 2 Count_Optional ''maneuver_state'' ManeuverState,
     Field 3 Count_Optional ''current_road_name'' C_String,
     Field 4 Count_Optional ''destination_name'' C_String,
     Field 5 Count_Optional ''estimated_time_of_arrival'' C_U64,
     Field 6 Count_Optional ''time_remaining_to_destination'' C_U64,
     Field 7 Count_Optional ''distance_remaining'' C_U32,
     Field 8 Count_Optional ''distance_remaining_display_string'' C_String,
     Field 9 Count_Optional ''distance_remaining_display_units'' DistanceDisplayUnits,
     Field 10 Count_Optional ''distance_remaining_to_next_maneuver'' C_U32,
     Field 11 Count_Optional ''distance_remaining_to_next_maneuver_display_string'' C_String,
     Field 12 Count_Optional ''distance_remaining_to_next_maneuver_display_units'' DistanceDisplayUnits,
     Field 13 Count_Optional ''route_guidance_maneuver_current_list'' (C_Packed C_U16),
     Field 14 Count_Optional ''route_guidance_maneuver_total_count'' C_U16,
     Field 15 Count_Optional ''route_guidance_visible_in_app'' C_Bool,
     Field 16 Count_Optional ''lane_guidance_current_index'' C_U16,
     Field 17 Count_Optional ''lane_guidance_total_count'' C_U16,
     Field 18 Count_Optional ''present_lane_guidance'' C_Bool,
     Field 19 Count_Optional ''source_name'' C_String,
     Field 20 Count_Optional ''source_supports_route_guidance'' C_Bool,
     Field 21 Count_Optional ''destination_time_zone_offset_minutes'' C_I16,
     Field 22 Count_Optional ''destination_charging_info'' DestinationChargingInfo,
     Field 23 Count_Zero_Or_More ''charging_station_info_group'' ChargingStationInfoGroup,
     Field 24 Count_Optional ''arrival_battery_level'' C_U32,
     Field 25 Count_Optional ''departure_battery_level'' C_U32,
     Field 26 Count_Optional ''completed_trip_battery_level'' C_U32]"

definition RouteGuidanceManeuverInformation :: csm_type where
  "RouteGuidanceManeuverInformation = C_Struct (''RouteGuidanceManeuverInformation'', Some 0x5202) [
     Field 0 Count_One ''route_guidance_display_component_id'' C_U16, Field 1 Count_One ''index'' C_U16,
     Field 2 Count_Optional ''maneuver_description'' C_String,
     Field 3 Count_Optional ''maneuver_type'' ManeuverType,
     Field 4 Count_Optional ''after_maneuver_road_name'' C_String,
     Field 5 Count_Optional ''distance_between_maneuver'' C_U32,
     Field 6 Count_Optional ''distance_between_maneuver_display_string'' C_String,
     Field 7 Count_Optional ''distance_between_maneuver_display_units'' DistanceDisplayUnits,
     Field 8 Count_Optional ''driving_side'' DrivingSide,
     Field 9 Count_Optional ''junction_type'' JunctionType,
     Field 10 Count_Zero_Or_More ''junction_element_angle'' C_I16,
     Field 11 Count_Optional ''junction_element_exit_angle'' C_I16,
     Field 12 Count_Optional ''linked_lane_guidance_information'' C_U16,
     Field 13 Count_Optional ''exit_info'' C_String]"

definition StopRouteGuidanceUpdates :: csm_type where
  "StopRouteGuidanceUpdates = C_Struct (''StopRouteGuidanceUpdates'', Some 0x5203) [
     Field 0 Count_Zero_Or_More ''route_guidance_display_component_id'' C_U16]"

definition LaneGuidanceInformation :: csm_type where
  "LaneGuidanceInformation = C_Struct (''LaneGuidanceInformation'', Some 0x5204) [
     Field 0 Count_One ''route_guidance_display_component_id'' C_U16,
     Field 1 Count_One ''lane_guidance_index'' C_U16,
     Field 2 Count_One_Or_More ''lane_information'' LaneInformation,
     Field 3 Count_Optional ''lane_guidance_description'' C_String]"

definition StartAssistiveTouch :: csm_type where
  "StartAssistiveTouch = C_Struct (''StartAssistiveTouch'', Some 0x5400) []"

definition StopAssistiveTouch :: csm_type where
  "StopAssistiveTouch = C_Struct (''StopAssistiveTouch'', Some 0x5401) []"

definition StartAssistiveTouchInformation :: csm_type where
  "StartAssistiveTouchInformation = C_Struct (''StartAssistiveTouchInformation'', Some 0x5402) []"

definition AssistiveTouchInformation :: csm_type where
  "AssistiveTouchInformation = C_Struct (''AssistiveTouchInformation'', Some 0x5403) [
     Field 0 Count_One ''is_enabled'' C_Bool]"

definition StopAssistiveTouchInformation :: csm_type where
  "StopAssistiveTouchInformation = C_Struct (''StopAssistiveTouchInformation'', Some 0x5404) []"

definition RequestVoiceOverMoveCursor :: csm_type where
  "RequestVoiceOverMoveCursor = C_Struct (''RequestVoiceOverMoveCursor'', Some 0x5601) [
     Field 0 Count_One ''cursor_direction'' VoiceOverCursorDirection]"

definition RequestVoiceOverActivateCursor :: csm_type where
  "RequestVoiceOverActivateCursor = C_Struct (''RequestVoiceOverActivateCursor'', Some 0x5602) []"

definition RequestVoiceOverScrollPage :: csm_type where
  "RequestVoiceOverScrollPage = C_Struct (''RequestVoiceOverScrollPage'', Some 0x5603) [
     Field 0 Count_One ''scroll_direction'' VoiceOverScrollDirection]"

definition RequestVoiceOverSpeakText :: csm_type where
  "RequestVoiceOverSpeakText = C_Struct (''RequestVoiceOverSpeakText'', Some 0x5606) [
     Field 0 Count_Optional ''text_to_speak'' C_String]"

definition RequestVoiceOverPauseText :: csm_type where
  "RequestVoiceOverPauseText = C_Struct (''RequestVoiceOverPauseText'', Some 0x5608) []"

definition RequestVoiceOverResumeText :: csm_type where
  "RequestVoiceOverResumeText = C_Struct (''RequestVoiceOverResumeText'', Some 0x5609) []"

definition StartVoiceOverUpdates :: csm_type where
  "StartVoiceOverUpdates = C_Struct (''StartVoiceOverUpdates'', Some 0x560B) [
     Field 0 Count_One ''speaking_volume'' C_Flag, Field 1 Count_One ''speaking_rate'' C_Flag,
     Field 2 Count_One ''enabled'' C_Flag]"

definition VoiceOverUpdate :: csm_type where
  "VoiceOverUpdate = C_Struct (''VoiceOverUpdate'', Some 0x560C) [
     Field 0 Count_Optional ''speaking_volume'' C_U8, Field 1 Count_Optional ''speaking_rate'' C_U8,
     Field 2 Count_Optional ''enabled'' C_Bool]"

definition StopVoiceOverUpdates :: csm_type where
  "StopVoiceOverUpdates = C_Struct (''StopVoiceOverUpdates'', Some 0x560D) []"

definition RequestVoiceOverConfiguration :: csm_type where
  "RequestVoiceOverConfiguration = C_Struct (''RequestVoiceOverConfiguration'', Some 0x560E) [
     Field 0 Count_Optional ''speaking_volume'' C_U8, Field 1 Count_Optional ''speaking_rate'' C_U8]"

definition StartVoiceOverCursorUpdates :: csm_type where
  "StartVoiceOverCursorUpdates = C_Struct (''StartVoiceOverCursorUpdates'', Some 0x560F) [
     Field 0 Count_One ''label'' C_Flag, Field 1 Count_One ''value'' C_Flag,
     Field 2 Count_One ''hint'' C_Flag, Field 3 Count_One ''traits'' C_Flag]"

definition VoiceOverCursorUpdate :: csm_type where
  "VoiceOverCursorUpdate = C_Struct (''VoiceOverCursorUpdate'', Some 0x5610) [
     Field 0 Count_Optional ''label'' C_String, Field 1 Count_Optional ''value'' C_String,
     Field 2 Count_Optional ''hint'' C_String, Field 3 Count_Optional ''traits'' (C_Packed C_U16)]"

definition StopVoiceOverCursorUpdates :: csm_type where
  "StopVoiceOverCursorUpdates = C_Struct (''StopVoiceOverCursorUpdates'', Some 0x5611) []"

definition StartVoiceOver :: csm_type where
  "StartVoiceOver = C_Struct (''StartVoiceOver'', Some 0x5612) []"

definition StopVoiceOver :: csm_type where
  "StopVoiceOver = C_Struct (''StopVoiceOver'', Some 0x5613) []"

definition RequestWiFiInformation :: csm_type where
  "RequestWiFiInformation = C_Struct (''RequestWiFiInformation'', Some 0x5700) []"

definition WiFiInformation :: csm_type where
  "WiFiInformation = C_Struct (''WiFiInformation'', Some 0x5701) [
     Field 0 Count_One ''request_status'' WiFiRequestStatus,
     Field 1 Count_Optional ''security_type'' WiFiSecurityType,
     Field 2 Count_Optional ''wifi_ssid'' C_String, Field 3 Count_Optional ''wifi_passphrase'' C_String]"

definition RequestAccessoryWiFiConfigurationInformation :: csm_type where
  "RequestAccessoryWiFiConfigurationInformation = C_Struct (''RequestAccessoryWiFiConfigurationInformation'', Some 0x5702) []"

definition AccessoryWiFiConfigurationInformation :: csm_type where
  "AccessoryWiFiConfigurationInformation = C_Struct (''AccessoryWiFiConfigurationInformation'', Some 0x5703) [
     Field 1 Count_One ''wifi_ssid'' C_String, Field 2 Count_Optional ''passphrase'' C_String,
     Field 3 Count_Optional ''security_type'' AccessoryWiFiConfigurationSecurityType,
     Field 4 Count_Optional ''channel'' C_U8]"

definition StartHID :: csm_type where
  "StartHID = C_Struct (''StartHID'', Some 0x6800) [
     Field 0 Count_One ''hid_component_identifier'' C_U16, Field 1 Count_One ''vendor_identifier'' C_U16,
     Field 2 Count_One ''product_identifier'' C_U16,
     Field 3 Count_Optional ''localized_keyboard_country_code'' C_U8,
     Field 4 Count_One ''hid_report_descriptor'' C_Byte_Array]"

definition DeviceHIDReport :: csm_type where
  "DeviceHIDReport = C_Struct (''DeviceHIDReport'', Some 0x6801) [
     Field 0 Count_One ''hid_component_identifier'' C_U16, Field 1 Count_One ''hid_report'' C_Byte_Array]"

definition AccessoryHIDReport :: csm_type where
  "AccessoryHIDReport = C_Struct (''AccessoryHIDReport'', Some 0x6802) [
     Field 0 Count_One ''hid_component_identifier'' C_U16, Field 1 Count_One ''hid_report'' C_Byte_Array]"

definition StopHID :: csm_type where
  "StopHID = C_Struct (''StopHID'', Some 0x6803) [
     Field 0 Count_One ''hid_component_identifier'' C_U16]"

definition StartNativeHID :: csm_type where
  "StartNativeHID = C_Struct (''StartNativeHID'', Some 0x6806) []"

definition HIDComponentUpdate :: csm_type where
  "HIDComponentUpdate = C_Struct (''HIDComponentUpdate'', Some 0x6807) [
     Field 0 Count_One ''hid_component_identifier'' C_U16,
     Field 1 Count_Optional ''hid_component_enabled'' C_Bool]"

definition StartUSBHostMode :: csm_type where
  "StartUSBHostMode = C_Struct (''StartUSBHostMode'', Some 0x7E00) []"

definition USBModeNotification :: csm_type where
  "USBModeNotification = C_Struct (''USBModeNotification'', Some 0x7E01) [
     Field 0 Count_One ''usb_device_mode'' C_Flag, Field 1 Count_One ''usb_host_mode'' C_Flag]"

definition StopUSBHostMode :: csm_type where
  "StopUSBHostMode = C_Struct (''StopUSBHostMode'', Some 0x7E02) []"

definition StartVehicleStatusUpdates :: csm_type where
  "StartVehicleStatusUpdates = C_Struct (''StartVehicleStatusUpdates'', Some 0xA100) [
     Field 3 Count_One ''range'' C_Flag, Field 4 Count_One ''outside_temperature'' C_Flag,
     Field 5 Count_One ''inside_temperature'' C_Flag, Field 6 Count_One ''range_warning'' C_Flag,
     Field 9 Count_One ''range_gasoline'' C_Flag, Field 10 Count_One ''range_diesel'' C_Flag,
     Field 11 Count_One ''range_electric'' C_Flag, Field 12 Count_One ''range_cng'' C_Flag,
     Field 13 Count_One ''range_warning_gasoline'' C_Flag,
     Field 14 Count_One ''range_warning_diesel'' C_Flag,
     Field 15 Count_One ''range_warning_electric'' C_Flag, Field 16 Count_One ''range_warning_cng'' C_Flag,
     Field 17 Count_One ''wiper_status'' C_Flag, Field 18 Count_One ''barometric_pressure'' C_Flag,
     Field 19 Count_One ''alerts'' C_Flag, Field 20 Count_One ''passenger_seat_status'' C_Flag]"

definition VehicleStatusUpdate :: csm_type where
  "VehicleStatusUpdate = C_Struct (''VehicleStatusUpdate'', Some 0xA101) [
     Field 3 Count_Optional ''range'' C_U16, Field 4 Count_Optional ''outside_temperature'' C_I16,
     Field 5 Count_Optional ''inside_temperature'' C_I16, Field 6 Count_Optional ''range_warning'' C_Bool,
     Field 9 Count_Optional ''range_gasoline'' C_U16, Field 10 Count_Optional ''range_diesel'' C_U16,
     Field 11 Count_Optional ''range_electric'' C_U16, Field 12 Count_Optional ''range_cng'' C_U16,
     Field 13 Count_Optional ''range_warning_gasoline'' C_Bool,
     Field 14 Count_Optional ''range_warning_diesel'' C_Bool,
     Field 15 Count_Optional ''range_warning_electric'' C_Bool,
     Field 16 Count_Optional ''range_warning_cng'' C_Bool,
     Field 17 Count_Optional ''wiper_status'' WiperStatus,
     Field 18 Count_Optional ''barometric_pressure'' C_U16,
     Field 19 Count_Optional ''alerts'' (C_Packed VehicleAlerts),
     Field 20 Count_Optional ''passenger_seat_status'' C_Bool,
     Field 21 Count_Optional ''min_battery_charge'' C_U32,
     Field 22 Count_Optional ''current_battery_charge'' C_U32,
     Field 23 Count_Optional ''max_battery_charge'' C_U32,
     Field 24 Count_Optional ''displayed_battery_percentage'' C_U32,
     Field 25 Count_Optional ''is_charging'' C_Bool,
     Field 26 Count_Optional ''charging_parameter'' C_String,
     Field 27 Count_Optional ''consumption_parameter'' C_String,
     Field 28 Count_Optional ''active_connector'' ChargingConnectorTypes,
     Field 30 Count_Optional ''max_range_electric'' C_U16]"

definition StopVehicleStatusUpdates :: csm_type where
  "StopVehicleStatusUpdates = C_Struct (''StopVehicleStatusUpdates'', Some 0xA102) []"

definition RequestAuthenticationCertificate :: csm_type where
  "RequestAuthenticationCertificate = C_Struct (''RequestAuthenticationCertificate'', Some 0xAA00) [
     Field 0 Count_One ''request_authentication_certificate_serial_number'' C_Flag]"

definition AuthenticationCertificate :: csm_type where
  "AuthenticationCertificate = C_Struct (''AuthenticationCertificate'', Some 0xAA01) [
     Field 0 Count_One ''authentication_certificate'' C_Byte_Array]"

definition RequestAuthenticationChallengeResponse :: csm_type where
  "RequestAuthenticationChallengeResponse = C_Struct (''RequestAuthenticationChallengeResponse'', Some 0xAA02) [
     Field 0 Count_One ''authentication_challenge'' C_Byte_Array]"

definition AuthenticationResponse :: csm_type where
  "AuthenticationResponse = C_Struct (''AuthenticationResponse'', Some 0xAA03) [
     Field 0 Count_One ''authentication_response'' C_Byte_Array]"

definition AuthenticationFailed :: csm_type where
  "AuthenticationFailed = C_Struct (''AuthenticationFailed'', Some 0xAA04) []"

definition AuthenticationSucceeded :: csm_type where
  "AuthenticationSucceeded = C_Struct (''AuthenticationSucceeded'', Some 0xAA05) []"

definition AccessoryAuthenticationSerialNumber :: csm_type where
  "AccessoryAuthenticationSerialNumber = C_Struct (''AccessoryAuthenticationSerialNumber'', Some 0xAA06) [
     Field 0 Count_One ''authentication_serial_number'' C_Byte_Array]"

definition StartAppDiscoveryUpdates :: csm_type where
  "StartAppDiscoveryUpdates = C_Struct (''StartAppDiscoveryUpdates'', Some 0xAD00) [
     Field 0 Count_Optional ''car_play_app_categories'' CarPlayAppCategories,
     Field 1 Count_Optional ''car_play_app_list_max'' C_U16,
     Field 2 Count_Optional ''car_play_app_icon_size'' C_U16,
     Field 3 Count_Optional ''external_accessory_app_categories'' ExternalAccessoryAppCategories,
     Field 4 Count_Optional ''external_accessory_app_list_max'' C_U16,
     Field 5 Count_Optional ''external_accessory_app_icon_size'' C_U16]"

definition AppDiscoveryUpdate :: csm_type where
  "AppDiscoveryUpdate = C_Struct (''AppDiscoveryUpdate'', Some 0xAD01) [
     Field 0 Count_Optional ''car_play_app_list_available'' CarPlayAppListAvailable,
     Field 1 Count_Zero_Or_More ''car_play_app_list'' CarPlayAppList,
     Field 2 Count_Optional ''car_play_app_list_count'' C_U16,
     Field 3 Count_Optional ''external_accessory_app_list_available'' AppListAvailable,
     Field 4 Count_Zero_Or_More ''external_accessory_app_list'' ExternalAccessoryAppList,
     Field 5 Count_Optional ''external_accessory_app_list_count'' C_U16]"

definition StopAppDiscoveryUpdates :: csm_type where
  "StopAppDiscoveryUpdates = C_Struct (''StopAppDiscoveryUpdates'', Some 0xAD02) []"

definition RequestAppDiscoveryAppIcons :: csm_type where
  "RequestAppDiscoveryAppIcons = C_Struct (''RequestAppDiscoveryAppIcons'', Some 0xAD03) [
     Field 0 Count_Zero_Or_More ''car_play_app_bundle_id'' C_String,
     Field 1 Count_Zero_Or_More ''external_accessory_app_bundle_id'' C_String]"

definition AppDiscoveryAppIcon :: csm_type where
  "AppDiscoveryAppIcon = C_Struct (''AppDiscoveryAppIcon'', Some 0xAD04) [
     Field 0 Count_One ''app_bundle_id'' C_String, Field 1 Count_One ''app_icon_available'' C_Bool,
     Field 2 Count_Optional ''app_icon_file_transfer_id'' C_U8,
     Field 3 Count_One ''app_icon_identifier'' C_Byte_Array]"

definition StartPowerUpdates :: csm_type where
  "StartPowerUpdates = C_Struct (''StartPowerUpdates'', Some 0xAE00) [
     Field 0 Count_One ''maximum_current_drawn_from_accessory'' C_Flag,
     Field 1 Count_One ''device_battery_will_charge_if_power_is_present'' C_Flag,
     Field 2 Count_One ''accessory_power_mode'' C_Flag,
     Field 3 Count_One ''available_siphoning_current'' C_Flag,
     Field 4 Count_One ''is_external_charger_connected'' C_Flag,
     Field 5 Count_One ''battery_charging_state'' C_Flag, Field 6 Count_One ''battery_charge_level'' C_Flag,
     Field 8 Count_One ''charger_current'' C_Flag, Field 9 Count_One ''charger_voltage'' C_Flag,
     Field 10 Count_One ''reserve_current'' C_Flag, Field 11 Count_One ''min_siphoning_current'' C_Flag,
     Field 12 Count_One ''max_non_siphoning_current'' C_Flag]"

definition PowerUpdate :: csm_type where
  "PowerUpdate = C_Struct (''PowerUpdate'', Some 0xAE01) [
     Field 0 Count_Optional ''maximum_current_drawn_from_accessory'' C_U16,
     Field 1 Count_Optional ''device_battery_will_charge_if_power_is_present'' C_Bool,
     Field 2 Count_Optional ''accessory_power_mode'' AccessoryPowerModes,
     Field 3 Count_Optional ''available_siphoning_current'' C_U16,
     Field 4 Count_Optional ''is_external_charger_connected'' C_Bool,
     Field 5 Count_Optional ''battery_charging_state'' BatteryChargingState,
     Field 6 Count_Optional ''battery_charge_level'' C_U16,
     Field 7 Count_Optional ''maximum_current_drawn_from_device'' C_U16,
     Field 8 Count_Optional ''charger_current'' C_U16, Field 9 Count_Optional ''charger_voltage'' C_U16,
     Field 10 Count_Optional ''reserve_current'' C_U16,
     Field 11 Count_Optional ''min_siphoning_current'' C_U16,
     Field 12 Count_Optional ''max_non_siphoning_current'' C_U16]"

definition StopPowerUpdates :: csm_type where
  "StopPowerUpdates = C_Struct (''StopPowerUpdates'', Some 0xAE02) []"

definition PowerSourceUpdate :: csm_type where
  "PowerSourceUpdate = C_Struct (''PowerSourceUpdate'', Some 0xAE03) [
     Field 0 Count_Optional ''available_current_for_device'' C_U16,
     Field 1 Count_Optional ''device_battery_should_charge_if_power_is_present'' C_Bool,
     Field 3 Count_Optional ''siphoning_current'' C_U16,
     Field 4 Count_Optional ''required_reserve_current'' C_U16,
     Field 5 Count_One ''max_non_siphoning_current_exceeded'' C_Flag]"

definition AccessoryPowerUpdate :: csm_type where
  "AccessoryPowerUpdate = C_Struct (''AccessoryPowerUpdate'', Some 0xAE05) [
     Field 0 Count_Optional ''maximum_current_drawn_from_device'' C_U16]"

definition StartBluetoothLowEnergyUpdates :: csm_type where
  "StartBluetoothLowEnergyUpdates = C_Struct (''StartBluetoothLowEnergyUpdates'', Some 0xB100) [
     Field 0 Count_One ''pairing_type'' BlePairingType,
     Field 1 Count_Optional ''send_radio_updates'' C_Bool,
     Field 2 Count_Optional ''send_pairing_information'' C_Bool]"

definition DeviceBluetoothLowEnergyUpdate :: csm_type where
  "DeviceBluetoothLowEnergyUpdate = C_Struct (''DeviceBluetoothLowEnergyUpdate'', Some 0xB101) [
     Field 0 Count_Optional ''radio_is_on'' C_Bool,
     Field 1 Count_Optional ''pairing_state'' BlePairingState, Field 2 Count_One ''in_pairing_mode'' C_Flag]"

definition AccessoryBluetoothLowEnergyUpdate :: csm_type where
  "AccessoryBluetoothLowEnergyUpdate = C_Struct (''AccessoryBluetoothLowEnergyUpdate'', Some 0xB102) [
     Field 0 Count_Optional ''radio_is_on'' C_Bool,
     Field 1 Count_Optional ''pairing_state'' BlePairingState, Field 2 Count_One ''in_pairing_mode'' C_Flag]"

definition AccessoryBluetoothLowEnergyPairingInformation :: csm_type where
  "AccessoryBluetoothLowEnergyPairingInformation = C_Struct (''AccessoryBluetoothLowEnergyPairingInformation'', Some 0xB103) [
     Field 0 Count_One ''pairing_type'' BlePairingType,
     Field 1 Count_Optional ''pairing_information'' C_Byte_Array]"

definition DeviceBluetoothLowEnergyPairingData :: csm_type where
  "DeviceBluetoothLowEnergyPairingData = C_Struct (''DeviceBluetoothLowEnergyPairingData'', Some 0xB104) [
     Field 0 Count_One ''pairing_type'' BlePairingType, Field 1 Count_One ''pairing_data'' C_Byte_Array]"

definition AccessoryBluetoothLowEnergyPairingData :: csm_type where
  "AccessoryBluetoothLowEnergyPairingData = C_Struct (''AccessoryBluetoothLowEnergyPairingData'', Some 0xB105) [
     Field 0 Count_One ''pairing_type'' BlePairingType, Field 1 Count_One ''pairing_data'' C_Byte_Array]"

definition DeviceBluetoothLowEnergyPairingInformation :: csm_type where
  "DeviceBluetoothLowEnergyPairingInformation = C_Struct (''DeviceBluetoothLowEnergyPairingInformation'', Some 0xB106) [
     Field 0 Count_One ''pairing_type'' BlePairingType,
     Field 1 Count_One ''pairing_information'' C_Byte_Array]"

definition StopBluetoothLowEnergyUpdates :: csm_type where
  "StopBluetoothLowEnergyUpdates = C_Struct (''StopBluetoothLowEnergyUpdates'', Some 0xB107) []"

definition StartUSBDeviceModeAudio :: csm_type where
  "StartUSBDeviceModeAudio = C_Struct (''StartUSBDeviceModeAudio'', Some 0xDA00) []"

definition USBDeviceModeAudioInformation :: csm_type where
  "USBDeviceModeAudioInformation = C_Struct (''USBDeviceModeAudioInformation'', Some 0xDA01) [
     Field 0 Count_One ''sample_rate'' UsbDeviceModeAudioSampleRate,
     Field 1 Count_One ''volume_adjustment'' C_I32, Field 2 Count_One ''sound_check_adjustment'' C_I32]"

definition StopUSBDeviceModeAudio :: csm_type where
  "StopUSBDeviceModeAudio = C_Struct (''StopUSBDeviceModeAudio'', Some 0xDA02) []"

definition StartExternalAccessoryProtocolSession :: csm_type where
  "StartExternalAccessoryProtocolSession = C_Struct (''StartExternalAccessoryProtocolSession'', Some 0xEA00) [
     Field 0 Count_One ''external_accessory_protocol_identifier'' C_U8,
     Field 1 Count_One ''external_accessory_protocol_session_identifier'' C_U16]"

definition StopExternalAccessoryProtocolSession :: csm_type where
  "StopExternalAccessoryProtocolSession = C_Struct (''StopExternalAccessoryProtocolSession'', Some 0xEA01) [
     Field 0 Count_One ''external_accessory_protocol_session_identifier'' C_U16]"

definition RequestAppLaunch :: csm_type where
  "RequestAppLaunch = C_Struct (''RequestAppLaunch'', Some 0xEA02) [
     Field 0 Count_One ''app_bundle_id'' C_String,
     Field 1 Count_Optional ''app_launch_method'' AppLaunchMethod]"

definition StatusExternalAccessoryProtocolSession :: csm_type where
  "StatusExternalAccessoryProtocolSession = C_Struct (''StatusExternalAccessoryProtocolSession'', Some 0xEA03) [
     Field 0 Count_One ''external_accessory_protocol_session_identifier'' C_U16,
     Field 1 Count_One ''external_accessory_protocol_session_status'' ExternalAccessoryProtocolSessionStatus]"

definition GPRMCDataStatusValuesNotification :: csm_type where
  "GPRMCDataStatusValuesNotification = C_Struct (''GPRMCDataStatusValuesNotification'', Some 0xFFF0) [
     Field 0 Count_One ''gprmc_data_status_value_a'' C_Flag,
     Field 1 Count_One ''gprmc_data_status_value_v'' C_Flag,
     Field 2 Count_One ''gprmc_data_status_value_x'' C_Flag]"

definition StartLocationInformation :: csm_type where
  "StartLocationInformation = C_Struct (''StartLocationInformation'', Some 0xFFFA) [
     Field 1 Count_One ''global_positioning_system_fix_data'' C_Flag,
     Field 2 Count_One ''recommended_minimum_specific_gps_transit_data'' C_Flag,
     Field 3 Count_One ''gps_satellites_in_view'' C_Flag, Field 4 Count_One ''vehicle_speed_data'' C_Flag,
     Field 5 Count_One ''vehicle_gyro_data'' C_Flag,
     Field 6 Count_One ''vehicle_accelerometer_data'' C_Flag,
     Field 7 Count_One ''vehicle_heading_data'' C_Flag,
     Field 32768 Count_Optional ''nmea_sentence_rsvd_interval_min'' C_U32,
     Field 32769 Count_Optional ''nmea_sentence_gpgga_interval_min'' C_U32,
     Field 32770 Count_Optional ''nmea_sentence_gprmc_interval_min'' C_U32,
     Field 32771 Count_Optional ''nmea_sentence_gpgsv_interval_min'' C_U32,
     Field 32772 Count_Optional ''nmea_sentence_pascd_interval_min'' C_U32,
     Field 32773 Count_Optional ''nmea_sentence_pagcd_interval_min'' C_U32,
     Field 32774 Count_Optional ''nmea_sentence_paacd_interval_min'' C_U32,
     Field 32775 Count_Optional ''nmea_sentence_gphdt_interval_min'' C_U32]"

definition LocationInformation :: csm_type where
  "LocationInformation = C_Struct (''LocationInformation'', Some 0xFFFB) [
     Field 0 Count_One_Or_More ''nmea_sentence'' C_String]"

definition StopLocationInformation :: csm_type where
  "StopLocationInformation = C_Struct (''StopLocationInformation'', Some 0xFFFC) []"

end
