(* ===== verification/Csm_Catalogue.thy ===== *)
theory Csm_Catalogue
  imports Csm_Messages Csm_Messages_More
begin

text \<open>The messages by identifier: \<open>register_packet_family!\<close> at the end of \<open>iap2.rs\<close>.\<close>

definition iap2_family :: "(u16 \<times> csm_type) list" where
  "iap2_family = [
     (0x00B0, StartOOBBTPairing), (0x00B1, OOBBTPairingAccessoryInformation),
     (0x00B2, OOBBTPairingLinkKeyInformation), (0x00B3, OOBBTPairingCompletionInformation),
     (0x00B4, StopOOBBTPairing), (0x0B00, StartBluetoothPairing),
     (0x0B01, BluetoothPairingAccessoryInformation), (0x0B02, BluetoothPairingStatus),
     (0x0B03, StopBluetoothPairing), (0x0D00, StartRoadObjectDetectionUpdates),
     (0x0D01, RoadObjectDetectionUpdate), (0x0D02, StopRoadObjectDetectionUpdates),
     (0x10DA, StartDestinationInformation), (0x10DB, DestinationInformation),
     (0x10DC, StopDestinationInformation), (0x10DD, DestinationInformationStatus),
     (0x1D00, StartIdentification), (0x1D01, IdentificationInformation), (0x1D02, IdentificationAccepted),
     (0x1D03, IdentificationRejected), (0x1D05, CancelIdentification),
     (0x1D06, IdentificationInformationUpdate), (0x4154, StartCallStateUpdates), (0x4155, CallStateUpdate),
     (0x4156, StopCallStateUpdates), (0x4157, StartCommunicationsUpdates), (0x4158, CommunicationsUpdate),
     (0x4159, StopCommunicationsUpdates), (0x415A, InitiateCall), (0x415B, AcceptCall), (0x415C, EndCall),
     (0x415D, SwapCalls), (0x415E, MergeCalls), (0x415F, HoldStatusUpdate), (0x4160, MuteStatusUpdate),
     (0x4161, SendDTMF), (0x4170, StartListUpdates), (0x4171, ListUpdate), (0x4172, StopListUpdates),
     (0x4300, CarPlayAvailability), (0x4301, CarPlayStartSession), (0x4302, AvailableDigitalCarKeys),
     (0x4303, MatchedDigitalCarKeys), (0x4C00, StartMediaLibraryInformation),
     (0x4C01, MediaLibraryInformation), (0x4C02, StopMediaLibraryInformation),
     (0x4C03, StartMediaLibraryUpdates), (0x4C04, MediaLibraryUpdate), (0x4C05, StopMediaLibraryUpdates),
     (0x4C06, PlayMediaLibraryCurrentSelection), (0x4C07, PlayMediaLibraryItems),
     (0x4C08, PlayMediaLibraryCollection), (0x4C09, PlayMediaLibrarySpecial),
     (0x4E01, BluetoothComponentInformation), (0x4E03, StartBluetoothConnectionUpdates),
     (0x4E04, BluetoothConnectionUpdate), (0x4E05, StopBluetoothConnectionUpdates),
     (0x4E09, DeviceInformationUpdate), (0x4E0A, DeviceLanguageUpdate), (0x4E0B, DeviceTimeUpdate),
     (0x4E0C, DeviceUUIDUpdate), (0x4E0D, WirelessCarPlayUpdate),
     (0x4E0E, DeviceTransportIdentifierNotification), (0x5000, StartNowPlayingUpdates),
     (0x5001, NowPlayingUpdate), (0x5002, StopNowPlayingUpdates), (0x5003, SetNowPlayingInformation),
     (0x5200, StartRouteGuidanceUpdates), (0x5201, RouteGuidanceUpdate),
     (0x5202, RouteGuidanceManeuverInformation), (0x5203, StopRouteGuidanceUpdates),
     (0x5204, LaneGuidanceInformation), (0x5400, StartAssistiveTouch), (0x5401, StopAssistiveTouch),
     (0x5402, StartAssistiveTouchInformation), (0x5403, AssistiveTouchInformation),
     (0x5404, StopAssistiveTouchInformation), (0x5601, RequestVoiceOverMoveCursor),
     (0x5602, RequestVoiceOverActivateCursor), (0x5603, RequestVoiceOverScrollPage),
     (0x5606, RequestVoiceOverSpeakText), (0x5608, RequestVoiceOverPauseText),
     (0x5609, RequestVoiceOverResumeText), (0x560B, StartVoiceOverUpdates), (0x560C, VoiceOverUpdate),
     (0x560D, StopVoiceOverUpdates), (0x560E, RequestVoiceOverConfiguration),
     (0x560F, StartVoiceOverCursorUpdates), (0x5610, VoiceOverCursorUpdate),
     (0x5611, StopVoiceOverCursorUpdates), (0x5612, StartVoiceOver), (0x5613, StopVoiceOver),
     (0x5700, RequestWiFiInformation), (0x5701, WiFiInformation),
     (0x5702, RequestAccessoryWiFiConfigurationInformation),
     (0x5703, AccessoryWiFiConfigurationInformation), (0x6800, StartHID), (0x6801, DeviceHIDReport),
     (0x6802, AccessoryHIDReport), (0x6803, StopHID), (0x6806, StartNativeHID),
     (0x6807, HIDComponentUpdate), (0x7E00, StartUSBHostMode), (0x7E01, USBModeNotification),
     (0x7E02, StopUSBHostMode), (0xA100, StartVehicleStatusUpdates), (0xA101, VehicleStatusUpdate),
     (0xA102, StopVehicleStatusUpdates), (0xAA00, RequestAuthenticationCertificate),
     (0xAA01, AuthenticationCertificate), (0xAA02, RequestAuthenticationChallengeResponse),
     (0xAA03, AuthenticationResponse), (0xAA04, AuthenticationFailed), (0xAA05, AuthenticationSucceeded),
     (0xAA06, AccessoryAuthenticationSerialNumber), (0xAD00, StartAppDiscoveryUpdates),
     (0xAD01, AppDiscoveryUpdate), (0xAD02, StopAppDiscoveryUpdates), (0xAD03, RequestAppDiscoveryAppIcons),
     (0xAD04, AppDiscoveryAppIcon), (0xAE00, StartPowerUpdates), (0xAE01, PowerUpdate),
     (0xAE02, StopPowerUpdates), (0xAE03, PowerSourceUpdate), (0xAE05, AccessoryPowerUpdate),
     (0xB100, StartBluetoothLowEnergyUpdates), (0xB101, DeviceBluetoothLowEnergyUpdate),
     (0xB102, AccessoryBluetoothLowEnergyUpdate), (0xB103, AccessoryBluetoothLowEnergyPairingInformation),
     (0xB104, DeviceBluetoothLowEnergyPairingData), (0xB105, AccessoryBluetoothLowEnergyPairingData),
     (0xB106, DeviceBluetoothLowEnergyPairingInformation), (0xB107, StopBluetoothLowEnergyUpdates),
     (0xDA00, StartUSBDeviceModeAudio), (0xDA01, USBDeviceModeAudioInformation),
     (0xDA02, StopUSBDeviceModeAudio), (0xEA00, StartExternalAccessoryProtocolSession),
     (0xEA01, StopExternalAccessoryProtocolSession), (0xEA02, RequestAppLaunch),
     (0xEA03, StatusExternalAccessoryProtocolSession), (0xFFF0, GPRMCDataStatusValuesNotification),
     (0xFFFA, StartLocationInformation), (0xFFFB, LocationInformation), (0xFFFC, StopLocationInformation)]"

text \<open>The definitions of the catalogue, for the checks over all of it.\<close>

lemmas group_defs =
  ObjectState_def RoadSignType_def RoadSign_def RoadLaneType_def RoadLaneColor_def RoadLane_def
  RoadObjectType_def RoadObject_def CenterCoordinate_def EntryPoint_def ParametersSuccessfullyUsed_def
  PowerProvidingCapability_def MatchAction_def SupportedExternalAccessoryProtocol_def
  UARTTransportComponent_def UsbDeviceModeAudioSampleRate_def USBDeviceTransportComponent_def
  USBHostTransportComponent_def BluetoothTransportComponent_def HidComponentFunction_def
  iAP2HIDComponent_def EngineTypes_def ChargingConnectorTypes_def VehicleInformationComponent_def
  VehicleStatusComponent_def LocationInformationComponent_def USBHostHIDComponent_def
  WirelessCarPlayTransportComponent_def BLETransportComponent_def BluetoothHIDComponent_def
  RouteGuidanceDisplayComponent_def SupportedRoadObjectDetectionType_def RoadObjectDetectionComponent_def
  Color_def SecondaryColor_def SupportedRadioTechnology_def VehicleDigitalCarKeyInformation_def
  PowerDuringSleep_def CallStateUpdateStatus_def CallStateUpdateDirection_def CallStateUpdateService_def
  CallStateUpdateDisconnectReason_def CommunicationsUpdateSignalStrength_def
  CommunicationsUpdateRegistrationStatus_def InitiateCallType_def InitiateCallService_def
  AcceptCallAcceptAction_def EndCallEndAction_def SendDtmfTone_def RecentsListProperties_def
  FavoritesListProperties_def ListUpdateService_def ListUpdateRecentsListType_def RecentsList_def
  FavoritesList_def CarPlayAvailabilityWiredAttributes_def CarPlayAvailabilityWirelessAttributes_def
  ThemeAssetsAttributes_def CarPlayStartSessionWiredAttributes_def
  CarPlayStartSessionWiFiSecurityType_def CarPlayStartSessionWirelessAttributes_def AssetInformation_def
  MediaLibraryType_def MediaLibraryInformationMediaLibraryInformation_def MediaItemProperties_def
  MediaPlaylistProperties_def MediaPlaylistContentTransferInfoRequest_def MediaType_def MediaItem_def
  MediaPlaylist_def MediaLibraryCollectionType_def BluetoothComponentStatus_def
  ConnectedBluetoothProfiles_def WirelessCarPlayUpdateStatus_def
  StartNowPlayingUpdatesMediaItemAttributes_def StartNowPlayingUpdatesPlaybackAttributes_def
  PlaybackQueueListContentTransferInfoRequest_def NowPlayingUpdateMediaItemAttributes_def
  PlaybackStatus_def PlaybackShuffle_def PlaybackRepeat_def NowPlayingUpdatePlaybackAttributes_def
  RouteGuidanceState_def ManeuverState_def DistanceDisplayUnits_def DestinationChargingInfo_def
  ChargingStationInfoGroup_def ManeuverType_def DrivingSide_def JunctionType_def
  LaneInformationStatus_def LaneInformation_def VoiceOverCursorDirection_def
  VoiceOverScrollDirection_def WiFiRequestStatus_def WiFiSecurityType_def
  AccessoryWiFiConfigurationSecurityType_def WiperStatus_def VehicleAlerts_def CarPlayAppCategories_def
  ExternalAccessoryAppCategories_def CarPlayAppListAvailable_def CarPlayAppList_def AppListAvailable_def
  ExternalAccessoryAppList_def AccessoryPowerModes_def BatteryChargingState_def BlePairingType_def
  BlePairingState_def AppLaunchMethod_def ExternalAccessoryProtocolSessionStatus_def

lemmas message_defs =
  StartOOBBTPairing_def OOBBTPairingAccessoryInformation_def OOBBTPairingLinkKeyInformation_def
  OOBBTPairingCompletionInformation_def StopOOBBTPairing_def StartBluetoothPairing_def
  BluetoothPairingAccessoryInformation_def BluetoothPairingStatus_def StopBluetoothPairing_def
  StartRoadObjectDetectionUpdates_def RoadObjectDetectionUpdate_def StopRoadObjectDetectionUpdates_def
  StartDestinationInformation_def DestinationInformation_def StopDestinationInformation_def
  DestinationInformationStatus_def StartIdentification_def IdentificationInformation_def
  IdentificationAccepted_def IdentificationRejected_def CancelIdentification_def
  IdentificationInformationUpdate_def StartCallStateUpdates_def CallStateUpdate_def
  StopCallStateUpdates_def StartCommunicationsUpdates_def CommunicationsUpdate_def
  StopCommunicationsUpdates_def InitiateCall_def AcceptCall_def EndCall_def SwapCalls_def
  MergeCalls_def HoldStatusUpdate_def MuteStatusUpdate_def SendDTMF_def StartListUpdates_def
  ListUpdate_def StopListUpdates_def CarPlayAvailability_def CarPlayStartSession_def
  AvailableDigitalCarKeys_def MatchedDigitalCarKeys_def StartMediaLibraryInformation_def
  MediaLibraryInformation_def StopMediaLibraryInformation_def StartMediaLibraryUpdates_def
  MediaLibraryUpdate_def StopMediaLibraryUpdates_def PlayMediaLibraryCurrentSelection_def
  PlayMediaLibraryItems_def PlayMediaLibraryCollection_def PlayMediaLibrarySpecial_def
  BluetoothComponentInformation_def StartBluetoothConnectionUpdates_def BluetoothConnectionUpdate_def
  StopBluetoothConnectionUpdates_def DeviceInformationUpdate_def DeviceLanguageUpdate_def
  DeviceTimeUpdate_def DeviceUUIDUpdate_def WirelessCarPlayUpdate_def
  DeviceTransportIdentifierNotification_def StartNowPlayingUpdates_def NowPlayingUpdate_def
  StopNowPlayingUpdates_def SetNowPlayingInformation_def StartRouteGuidanceUpdates_def
  RouteGuidanceUpdate_def RouteGuidanceManeuverInformation_def StopRouteGuidanceUpdates_def
  LaneGuidanceInformation_def StartAssistiveTouch_def StopAssistiveTouch_def
  StartAssistiveTouchInformation_def AssistiveTouchInformation_def StopAssistiveTouchInformation_def
  RequestVoiceOverMoveCursor_def RequestVoiceOverActivateCursor_def RequestVoiceOverScrollPage_def
  RequestVoiceOverSpeakText_def RequestVoiceOverPauseText_def RequestVoiceOverResumeText_def
  StartVoiceOverUpdates_def VoiceOverUpdate_def StopVoiceOverUpdates_def
  RequestVoiceOverConfiguration_def StartVoiceOverCursorUpdates_def VoiceOverCursorUpdate_def
  StopVoiceOverCursorUpdates_def StartVoiceOver_def StopVoiceOver_def RequestWiFiInformation_def
  WiFiInformation_def RequestAccessoryWiFiConfigurationInformation_def
  AccessoryWiFiConfigurationInformation_def StartHID_def DeviceHIDReport_def AccessoryHIDReport_def
  StopHID_def StartNativeHID_def HIDComponentUpdate_def StartUSBHostMode_def USBModeNotification_def
  StopUSBHostMode_def StartVehicleStatusUpdates_def VehicleStatusUpdate_def StopVehicleStatusUpdates_def
  RequestAuthenticationCertificate_def AuthenticationCertificate_def
  RequestAuthenticationChallengeResponse_def AuthenticationResponse_def AuthenticationFailed_def
  AuthenticationSucceeded_def AccessoryAuthenticationSerialNumber_def StartAppDiscoveryUpdates_def
  AppDiscoveryUpdate_def StopAppDiscoveryUpdates_def RequestAppDiscoveryAppIcons_def
  AppDiscoveryAppIcon_def StartPowerUpdates_def PowerUpdate_def StopPowerUpdates_def
  PowerSourceUpdate_def AccessoryPowerUpdate_def StartBluetoothLowEnergyUpdates_def
  DeviceBluetoothLowEnergyUpdate_def AccessoryBluetoothLowEnergyUpdate_def
  AccessoryBluetoothLowEnergyPairingInformation_def DeviceBluetoothLowEnergyPairingData_def
  AccessoryBluetoothLowEnergyPairingData_def DeviceBluetoothLowEnergyPairingInformation_def
  StopBluetoothLowEnergyUpdates_def StartUSBDeviceModeAudio_def USBDeviceModeAudioInformation_def
  StopUSBDeviceModeAudio_def StartExternalAccessoryProtocolSession_def
  StopExternalAccessoryProtocolSession_def RequestAppLaunch_def
  StatusExternalAccessoryProtocolSession_def GPRMCDataStatusValuesNotification_def
  StartLocationInformation_def LocationInformation_def StopLocationInformation_def

end
