(* ===== verification/Csm_Registry.thy ===== *)
theory Csm_Registry
  imports Csm_Roundtrip Csm_Catalogue
begin

text \<open>
  \<open>core/catplay_csm/src/decoder/packets\<close>: the frame of a message (\<open>frame.rs\<close>) and the registry that finds the
  type of a message by its identifier (\<open>registry\<close>). A Rust type (\<open>TypeId\<close>) is known by
  its name and \<open>PACKET_ID\<close>.
\<close>

section \<open>Frames\<close>

definition CSM_HEADER_MAGIC :: u16 where
  "CSM_HEADER_MAGIC = 0x4040"

definition CSM_HEADER_SIZE :: usize where
  "CSM_HEADER_SIZE = 6"

definition CSM_PACKET_PAYLOAD_MAX :: usize where
  "CSM_PACKET_PAYLOAD_MAX = 65535 - CSM_HEADER_SIZE"

record csm_header =
  ch_payload_length :: u16
  ch_id :: u16

record csm_frame =
  cf_header :: csm_header
  cf_payload :: "u8 list"

definition csm_header_try_from :: "u8 list \<Rightarrow> csm_error + csm_header" where
  "csm_header_try_from data =
     (if length data < CSM_HEADER_SIZE then Inl Packet_Underflow
      else if be16_of (data ! 0) (data ! 1) \<noteq> CSM_HEADER_MAGIC then Inl Packet_Magic
      else
        let len = be16_of (data ! 2) (data ! 3); i = be16_of (data ! 4) (data ! 5)
        in if len < of_nat CSM_HEADER_SIZE then Inl Packet_Underflow
           else Inr \<lparr>ch_payload_length = len - of_nat CSM_HEADER_SIZE, ch_id = i\<rparr>)"

definition csm_frame_new :: "u16 \<Rightarrow> u8 list \<Rightarrow> csm_error + csm_frame" where
  "csm_frame_new i payload =
     (if CSM_PACKET_PAYLOAD_MAX < length payload then Inl Packet_Overflow
      else Inr \<lparr>cf_header = \<lparr>ch_payload_length = of_nat (length payload), ch_id = i\<rparr>, cf_payload = payload\<rparr>)"

definition csm_frame_try_from :: "u8 list \<Rightarrow> csm_error + csm_frame" where
  "csm_frame_try_from data =
     sum_bind (csm_header_try_from data) (\<lambda>header.
     let payload_size = unat (ch_payload_length header)
     in if length data < CSM_HEADER_SIZE + payload_size then Inl Packet_Underflow
        else csm_frame_new (ch_id header) (take payload_size (drop CSM_HEADER_SIZE data)))"

definition csm_frame_encode :: "csm_frame \<Rightarrow> csm_writer \<Rightarrow> csm_writer" where
  "csm_frame_encode f w =
     write_data_chunk (cf_payload f)
       (write_tlv_header (ch_id (cf_header f)) (length (cf_payload f) + 2)
         (write_data_chunk (be16_bytes CSM_HEADER_MAGIC) w))"

definition csm_frame_serialize :: "csm_frame \<Rightarrow> u8 list" where
  "csm_frame_serialize f = csm_serialized (csm_frame_encode f)"

section \<open>The registry\<close>

text \<open>A boxed message: a value of a struct, or the identifier and payload of an unknown one.\<close>

datatype csm_packet = Csm_Known csm_type csm_value | Csm_Unknown u16 "u8 list"

primrec type_name :: "csm_type \<Rightarrow> struct_name option" where
  "type_name (C_Struct name fs) = Some name"
| "type_name C_Bool = None"
| "type_name (C_Int width sg) = None"
| "type_name (C_Enum variants) = None"
| "type_name (C_Rational width sg) = None"
| "type_name C_String = None"
| "type_name C_Byte_Array = None"
| "type_name C_Flag = None"
| "type_name (C_U8_Array n) = None"
| "type_name (C_Packed t) = None"
| "type_name (C_Tight t n) = None"

record csm_registry =
  cg_entries :: "(u16, csm_type) btree_map"
  cg_type_ids :: "struct_name option \<rightharpoonup> u16"

definition registry_new :: csm_registry where
  "registry_new = \<lparr>cg_entries = [], cg_type_ids = (\<lambda>name. None)\<rparr>"

text \<open>\<open>register_types\<close>: no identifier may be registered already, or twice in the list.\<close>

fun check_new_ids :: "(u16 \<times> csm_type) list \<Rightarrow> u16 list \<Rightarrow> csm_registry \<Rightarrow> panic + unit" where
  "check_new_ids [] seen r = Inr ()"
| "check_new_ids ((i, t) # types) seen r =
     (if bt_get i (cg_entries r) \<noteq> None \<or> i \<in> set seen
      then Inl (Explicit_Panic ''Attempted duplicate CSM registration'')
      else check_new_ids types (seen @ [i]) r)"

definition register_types :: "(u16 \<times> csm_type) list \<Rightarrow> csm_registry \<Rightarrow> panic + csm_registry" where
  "register_types types r =
     sum_bind (check_new_ids types [] r) (\<lambda>_.
     Inr (foldl (\<lambda>r (i, t).
       r\<lparr>cg_entries := bt_insert i t (cg_entries r), cg_type_ids := (cg_type_ids r)(type_name t \<mapsto> i)\<rparr>) r types))"

definition contains_id :: "u16 \<Rightarrow> csm_registry \<Rightarrow> bool" where
  "contains_id i r \<longleftrightarrow> bt_get i (cg_entries r) \<noteq> None"

definition all_known_ids :: "csm_registry \<Rightarrow> u16 list" where
  "all_known_ids r = map fst (cg_entries r)"

definition create_by_id :: "u16 \<Rightarrow> csm_registry \<Rightarrow> csm_packet option" where
  "create_by_id i r = map_option (\<lambda>t. Csm_Known t (default_value t)) (bt_get i (cg_entries r))"

definition create_by_id_from_bytes :: "u16 \<Rightarrow> u8 list \<Rightarrow> csm_registry \<Rightarrow> csm_packet option" where
  "create_by_id_from_bytes i data r = map_option (\<lambda>t. Csm_Known t (decode_from_bytes t data)) (bt_get i (cg_entries r))"

definition id_of :: "csm_packet \<Rightarrow> csm_registry \<Rightarrow> u16 option" where
  "id_of packet r = (case packet of Csm_Known t v \<Rightarrow> cg_type_ids r (type_name t) | Csm_Unknown _ _ \<Rightarrow> None)"

definition packet_serialize :: "csm_packet \<Rightarrow> u8 list" where
  "packet_serialize packet =
     (case packet of
        Csm_Known t v \<Rightarrow> serialize_value t v
      | Csm_Unknown _ payload \<Rightarrow> csm_serialized (write_data_chunk payload))"

definition registry_decode :: "csm_registry \<Rightarrow> u8 list \<Rightarrow> csm_packet option" where
  "registry_decode r data =
     (case csm_frame_try_from data of
        Inl _ \<Rightarrow> None
      | Inr f \<Rightarrow>
          (case create_by_id_from_bytes (ch_id (cf_header f)) (cf_payload f) r of
             Some p \<Rightarrow> Some p
           | None \<Rightarrow> Some (Csm_Unknown (ch_id (cf_header f)) (cf_payload f))))"

definition registry_encode :: "csm_registry \<Rightarrow> csm_packet \<Rightarrow> csm_error + u8 list" where
  "registry_encode r packet =
     (let unknown_id = (case packet of Csm_Known _ _ \<Rightarrow> None | Csm_Unknown i _ \<Rightarrow> Some i)
      in case (case id_of packet r of Some i \<Rightarrow> Some i | None \<Rightarrow> unknown_id) of
           None \<Rightarrow> Inl Packet_Unknown
         | Some i \<Rightarrow>
             sum_bind (csm_frame_new i (packet_serialize packet)) (\<lambda>f. Inr (csm_frame_serialize f)))"

text \<open>\<open>get_runtime_csm_registry\<close>: the registrations of the program are the one family.\<close>

definition static_registry :: "panic + csm_registry" where
  "static_registry = register_types iap2_family registry_new"

end
