(* ===== verification/Csm_Properties.thy ===== *)
theory Csm_Properties
  imports Csm_Registry
begin

text \<open>
  What the codec of control session messages promises as a whole: the catalogue is well formed, the
  registry finds every message, and messages survive the way through frame, registry and fields.
\<close>

section \<open>The catalogue\<close>

lemma family_types: "list_all (\<lambda>(i, t). type_ok t) iap2_family"
  by (simp add: iap2_family_def message_defs group_defs)


lemma family_ascending: "successively (<) (map fst iap2_family)"
  by (simp add: iap2_family_def)

lemma family_distinct: "distinct (map fst iap2_family)"
  using family_ascending by (simp add: successively_conv_sorted_wrt strict_sorted_iff)

lemma family_type_ok: "(i, t) \<in> set iap2_family \<Longrightarrow> type_ok t"
  using family_types by (auto simp: list_all_iff)


section \<open>The registry\<close>

lemma check_new_ids_ok:
  assumes "\<forall>i \<in> set (map fst types). bt_get i (cg_entries r) = None" "distinct (seen @ map fst types)"
  shows "check_new_ids types seen r = Inr ()"
  using assms by (induction types seen r rule: check_new_ids.induct) auto

definition registered :: "(u16 \<times> csm_type) list \<Rightarrow> csm_registry \<Rightarrow> csm_registry" where
  "registered types r = foldl (\<lambda>r (i, t).
     r\<lparr>cg_entries := bt_insert i t (cg_entries r), cg_type_ids := (cg_type_ids r)(type_name t \<mapsto> i)\<rparr>) r types"

lemma registered_simps [simp]:
  "registered [] r = r"
  "registered ((i, t) # types) r = registered types
     (r\<lparr>cg_entries := bt_insert i t (cg_entries r), cg_type_ids := (cg_type_ids r)(type_name t \<mapsto> i)\<rparr>)"
  by (simp_all add: registered_def)

lemma registered_entries:
  "distinct (map fst types) \<Longrightarrow>
     bt_get i (cg_entries (registered types r)) = (case map_of types i of Some t \<Rightarrow> Some t | None \<Rightarrow> bt_get i (cg_entries r))"
proof (induction types arbitrary: r)
  case (Cons e types)
  then show ?case
    by (cases e) (auto simp: bt_get_insert map_of_eq_None_iff rev_image_eqI split: option.split)
qed simp


lemma registered_sorted: "bt_sorted (cg_entries r) \<Longrightarrow> bt_sorted (cg_entries (registered types r))"
  by (induction types arbitrary: r) (auto simp: bt_sorted_insert)

definition iap2_registry :: csm_registry where
  "iap2_registry = registered iap2_family registry_new"

lemma static_registry_iap2: "static_registry = Inr iap2_registry"
  using check_new_ids_ok [of iap2_family registry_new "[]"] family_distinct
  by (simp add: static_registry_def register_types_def iap2_registry_def registered_def registry_new_def)

lemma iap2_entries: "bt_get i (cg_entries iap2_registry) = map_of iap2_family i"
  by (simp add: iap2_registry_def registered_entries [OF family_distinct] registry_new_def split: option.split)


section \<open>Frames\<close>

definition frame_bytes :: "u16 \<Rightarrow> u8 list \<Rightarrow> u8 list" where
  "frame_bytes i payload = [0x40, 0x40] @ be16_bytes (of_nat (length payload + 6)) @ be16_bytes i @ payload"

lemma frame_new_ok:
  "length payload \<le> CSM_PACKET_PAYLOAD_MAX \<Longrightarrow> csm_frame_new i payload =
     Inr \<lparr>cf_header = \<lparr>ch_payload_length = of_nat (length payload), ch_id = i\<rparr>, cf_payload = payload\<rparr>"
  by (simp add: csm_frame_new_def)

lemma frame_serialized:
  assumes "length payload \<le> CSM_PACKET_PAYLOAD_MAX"
  shows "csm_frame_serialize \<lparr>cf_header = \<lparr>ch_payload_length = n, ch_id = i\<rparr>, cf_payload = payload\<rparr> = frame_bytes i payload"
proof -
  have "length payload \<le> 65529"
    using assms by (simp add: CSM_PACKET_PAYLOAD_MAX_def CSM_HEADER_SIZE_def)
  moreover have "be16_bytes CSM_HEADER_MAGIC = [0x40, 0x40]"
    by (simp add: CSM_HEADER_MAGIC_def be16_bytes_def)
  ultimately show ?thesis
    by (simp add: csm_frame_serialize_def csm_serialized_def csm_with_vec_def csm_frame_encode_def frame_bytes_def
      csm_writer_new_def write_data_chunk_def write_tlv_header_def checked_add_def usize_bound_def Let_def add.commute)
qed

lemma frame_read:
  assumes "length payload \<le> CSM_PACKET_PAYLOAD_MAX"
  shows "csm_frame_try_from (frame_bytes i payload @ rest) = csm_frame_new i payload"
proof -
  have len: "length payload \<le> 65529"
    using assms by (simp add: CSM_PACKET_PAYLOAD_MAX_def CSM_HEADER_SIZE_def)
  then have n: "unat (of_nat (length payload) + 6 :: u16) = length payload + 6"
    "unat (of_nat (length payload) :: u16) = length payload"
    by (simp_all add: unat_of_nat unat_word_ariths)
  then have "\<not> of_nat (length payload) + 6 < (6 :: u16)"
    by (simp add: word_less_nat_alt)
  moreover have "be16_of 0x40 0x40 = CSM_HEADER_MAGIC"
    by (simp add: be16_of_def CSM_HEADER_MAGIC_def)
  ultimately show ?thesis
    by (simp add: csm_frame_try_from_def csm_header_try_from_def frame_bytes_def be16_bytes_def CSM_HEADER_SIZE_def n)
qed

lemma frame_accepts:
  assumes "csm_frame_try_from data = Inr f"
  shows "\<exists>rest. data = frame_bytes (ch_id (cf_header f)) (cf_payload f) @ rest \<and> length (cf_payload f) \<le> CSM_PACKET_PAYLOAD_MAX"
proof -
  let ?len = "be16_of (data ! 2) (data ! 3)" and ?magic = "be16_of (data ! 0) (data ! 1)" and ?i = "be16_of (data ! 4) (data ! 5)"
  have accepted: "6 \<le> length data" "?magic = CSM_HEADER_MAGIC" "\<not> ?len < 6"
    "6 + unat (?len - 6) \<le> length data"
    and new: "csm_frame_new ?i (take (unat (?len - 6)) (drop 6 data)) = Inr f"
    using assms by (auto simp: csm_frame_try_from_def csm_header_try_from_def CSM_HEADER_SIZE_def Let_def sum_bind_def split: if_splits)
  have f: "cf_payload f = take (unat (?len - 6)) (drop 6 data)" "ch_id (cf_header f) = ?i"
    "length (cf_payload f) \<le> CSM_PACKET_PAYLOAD_MAX"
    using new by (auto simp: csm_frame_new_def split: if_splits)
  have "length (cf_payload f) = unat (?len - 6)"
    using accepted(4) by (simp add: f(1))
  then have "of_nat (length (cf_payload f) + 6) = ?len"
    by simp
  moreover have "be16_bytes ?magic = [0x40, 0x40]"
    unfolding accepted(2) by (simp add: CSM_HEADER_MAGIC_def be16_bytes_def)
  moreover obtain a b c d e g left where "data = a # b # c # d # e # g # left"
    using accepted(1) by (auto simp: numeral_eq_Suc Suc_le_length_iff)
  ultimately have "data = frame_bytes (ch_id (cf_header f)) (cf_payload f) @ drop (unat (?len - 6)) (drop 6 data)"
    unfolding frame_bytes_def f(2) by (simp add: f(1))
  then show ?thesis
    using f(3) by blast
qed

section \<open>Encoding and decoding of whole messages\<close>


lemma payload_max_small: "n \<le> CSM_PACKET_PAYLOAD_MAX \<Longrightarrow> n < usize_bound"
  by (simp add: CSM_PACKET_PAYLOAD_MAX_def usize_bound_def)


lemma decode_frame:
  assumes "length payload \<le> CSM_PACKET_PAYLOAD_MAX"
  shows "registry_decode iap2_registry (frame_bytes i payload @ rest) =
    Some (case map_of iap2_family i of
        Some t \<Rightarrow> Csm_Known t (decode_from_bytes t payload)
      | None \<Rightarrow> Csm_Unknown i payload)"
  using assms
  by (simp add: registry_decode_def frame_read frame_new_ok create_by_id_from_bytes_def iap2_entries split: option.split)

lemma decode_no_frame:
  "registry_decode iap2_registry data = None \<longleftrightarrow>
     (\<nexists>i payload rest. length payload \<le> CSM_PACKET_PAYLOAD_MAX \<and> data = frame_bytes i payload @ rest)"
proof (cases "csm_frame_try_from data")
  case (Inl e)
  have "length payload \<le> CSM_PACKET_PAYLOAD_MAX \<Longrightarrow> data \<noteq> frame_bytes i payload @ rest" for i payload rest
    using Inl frame_read [of payload i rest] frame_new_ok [of payload i] by auto
  then show ?thesis
    using Inl by (auto simp: registry_decode_def)
next
  case (Inr f)
  then show ?thesis
    using frame_accepts [OF Inr] by (auto simp: registry_decode_def split: option.split)
qed

section \<open>What a sticky overflow does to the fields that follow\<close>


definition header_of :: "csm_param \<Rightarrow> u8 list" where
  "header_of p = take 4 (tlv (cp_id p) (cp_value p))"

lemma length_header_of [simp]: "length (header_of p) = 4"
  by (simp add: header_of_def)

lemma headers_shorter: "length (concat (map header_of ps)) \<le> length (tlvs ps)"
  by (induction ps) simp_all






section \<open>Every field by itself\<close>

text \<open>What a field is after its own parameters, in their order: the last one, or all of them.\<close>

definition slot_of :: "csm_field \<Rightarrow> u8 list list \<Rightarrow> csm_slot" where
  "slot_of f datas =
     (case f of
        Field i count name t \<Rightarrow>
          (case count of
             Count_One \<Rightarrow> Slot_One (if datas = [] then default_value t else decode_from_bytes t (last datas))
           | Count_Optional \<Rightarrow> Slot_Option (if datas = [] then None else Some (decode_from_bytes t (last datas)))
           | _ \<Rightarrow> Slot_Vec (map (decode_from_bytes t) datas)))"

lemma slot_of_fold: "foldl (add_param f) (fresh_slot f) datas = slot_of f datas"
proof (induction datas rule: rev_induct)
  case Nil
  show ?case
    by (cases f) (simp add: slot_of_def prealloc_slot_def split: csm_count.split)
next
  case (snoc data datas)
  then show ?case
    by (cases f) (simp add: slot_of_def split: csm_count.split)
qed





section \<open>Properties\<close>



text \<open>
  Claim C15: what decoding gives, for any bytes at all. Nothing is decoded exactly when the bytes do not begin
  with a frame; otherwise the message is of the type registered for the identifier in the frame, decoded from
  the payload and a value of that type, or, when no type is registered, the unknown message with exactly this
  identifier and payload.
\<close>

theorem csm_decode_typed:
  assumes "static_registry = Inr r"
  shows "case registry_decode r data of
      None \<Rightarrow> \<nexists>i payload rest. length payload \<le> CSM_PACKET_PAYLOAD_MAX \<and> data = frame_bytes i payload @ rest
    | Some p \<Rightarrow> \<exists>i payload rest. length payload \<le> CSM_PACKET_PAYLOAD_MAX \<and> data = frame_bytes i payload @ rest \<and>
        (case p of
           Csm_Known t v \<Rightarrow> (i, t) \<in> set iap2_family \<and> v = decode_from_bytes t payload \<and> has_type t v
         | Csm_Unknown j content \<Rightarrow> j = i \<and> content = payload \<and> i \<notin> fst ` set iap2_family)"
proof (cases "registry_decode r data")
  case None
  then show ?thesis
    using assms decode_no_frame [of data] by (simp add: static_registry_iap2)
next
  case (Some p)
  have r: "r = iap2_registry"
    using assms by (simp add: static_registry_iap2)
  then obtain i payload rest where frame: "length payload \<le> CSM_PACKET_PAYLOAD_MAX" "data = frame_bytes i payload @ rest"
    using Some decode_no_frame [of data] by auto
  show ?thesis
  proof (cases "map_of iap2_family i")
    case None
    then have "p = Csm_Unknown i payload" "i \<notin> fst ` set iap2_family"
      using Some decode_frame [OF frame(1), of i rest] None by (simp_all add: r frame(2) map_of_eq_None_iff)
    then show ?thesis
      using Some frame by auto
  next
    case (Some t)
    then have "p = Csm_Known t (decode_from_bytes t payload)" "(i, t) \<in> set iap2_family"
      using \<open>registry_decode r data = Some p\<close> decode_frame [OF frame(1), of i rest]
      by (simp_all add: r frame(2) map_of_SomeD)
    then show ?thesis
      using \<open>registry_decode r data = Some p\<close> frame family_type_ok decode_has_type(1) by auto
  qed
qed

theorem csm_decode_typed_witness:
  "case registry_decode iap2_registry [0x40, 0x40, 0, 6] of
      None \<Rightarrow> \<nexists>i payload rest. length payload \<le> CSM_PACKET_PAYLOAD_MAX \<and> [0x40, 0x40, 0, 6] = frame_bytes i payload @ rest
    | Some p \<Rightarrow> False"
proof -
  have "registry_decode iap2_registry [0x40, 0x40, 0, 6] = None"
    by (simp add: registry_decode_def csm_frame_try_from_def csm_header_try_from_def CSM_HEADER_SIZE_def)
  then show ?thesis
    using csm_decode_typed [OF static_registry_iap2, of "[0x40, 0x40, 0, 6]"] by simp
qed

text \<open>
  Claim C30: reading parameters is lossless or reported. The reader reports no error exactly when the bytes
  are a sequence of parameters and nothing else, and then it passes on exactly those; the error
  \<open>Csm_Overflow\<close> of a length that does not fit is never reported, since the bytes that are then left over
  are reported first.
\<close>

theorem csm_reader_lossless:
  "(reader_take_error (snd (stream_all (csm_reader_new data))) = None \<longleftrightarrow>
      list_all (\<lambda>p. tlv_fits (cp_value p)) (fst (stream_all (csm_reader_new data))) \<and>
      data = tlvs (fst (stream_all (csm_reader_new data)))) \<and>
   reader_take_error (snd (stream_all (csm_reader_new data))) \<noteq> Some Csm_Overflow \<and>
   (list_all (\<lambda>p. tlv_fits (cp_value p)) params \<longrightarrow>
      stream_all (csm_reader_new (tlvs params)) = (params, csm_reader_new (tlvs params)))"
proof -
  obtain ps rest overflow where streamed: "stream_params data = (ps, rest, overflow)"
    by (cases "stream_params data")
  have read: "fst (stream_all (csm_reader_new data)) = ps"
    "reader_take_error (snd (stream_all (csm_reader_new data))) =
      (if rest \<noteq> [] then Some Csm_Underflow else if overflow then Some Csm_Overflow else None)"
    by (simp_all add: stream_all_def csm_reader_new_def reader_take_error_def streamed)
  have whole: "rest = [] \<longleftrightarrow> data = tlvs ps" and all: "list_all (\<lambda>p. tlv_fits (cp_value p)) ps"
    and no_overflow: "rest = [] \<Longrightarrow> \<not> overflow"
    using stream_accounts [OF streamed] by auto
  have again: "list_all (\<lambda>p. tlv_fits (cp_value p)) params \<longrightarrow>
      stream_all (csm_reader_new (tlvs params)) = (params, csm_reader_new (tlvs params))"
    by (simp add: stream_all_def csm_reader_new_def stream_all_tlvs)
  show ?thesis
    unfolding read by (cases "rest = []") (simp_all add: all whole [symmetric] no_overflow again)
qed

theorem csm_reader_lossless_witness:
  "stream_all (csm_reader_new [0, 5, 0, 1, 7, 0, 4, 0, 2]) =
    ([\<lparr>cp_id = 1, cp_value = [7]\<rparr>, \<lparr>cp_id = 2, cp_value = []\<rparr>], csm_reader_new [0, 5, 0, 1, 7, 0, 4, 0, 2])"
  using csm_reader_lossless [of "[]" "[\<lparr>cp_id = 1, cp_value = [7]\<rparr>, \<lparr>cp_id = 2, cp_value = []\<rparr>]"]
  by (simp add: tlv_def be16_bytes_def)

text \<open>
  Claim C14: decoding a message treats every field by itself: whatever the order of the parameters, and
  whatever parameters of other identifiers stand between them, a field that occurs once is its last parameter
  or its default, an optional one its last parameter or absent, and a repeated one all of its
  parameters in their order.
\<close>

theorem csm_decode_per_field:
  assumes "(i, C_Struct name fs) \<in> set iap2_family"
  shows "decode_from_bytes (C_Struct name fs) data =
    V_Struct (map (\<lambda>f. slot_of f (map cp_value (filter (\<lambda>p. cp_id p = field_id f) (fst (stream_params data))))) fs)"
proof -
  have "distinct (map field_id fs)"
    using family_type_ok [OF assms] by simp
  then show ?thesis
    by (simp add: decode_struct slot_of_fold own_def del: decode_from_bytes.simps)
qed

theorem csm_decode_per_field_witness:
  "decode_from_bytes StopRoadObjectDetectionUpdates [0, 6, 0, 0, 1, 2, 0, 5, 9, 9, 7, 0, 6, 0, 0, 3, 4] =
    V_Struct [Slot_Vec [V_Int 0x102, V_Int 0x304]]"
proof -
  have "(0x0D02, C_Struct (''StopRoadObjectDetectionUpdates'', Some 0x0D02)
      [Field 0 Count_Zero_Or_More ''component_identifier'' C_U16]) \<in> set iap2_family"
    by (simp add: iap2_family_def StopRoadObjectDetectionUpdates_def)
  then show ?thesis
    unfolding StopRoadObjectDetectionUpdates_def csm_decode_per_field [OF \<open>_ \<in> set iap2_family\<close>]
    by (simp add: slot_of_def stream_params.simps be16_of_def int_from_be_def be_uint_def)
qed

text \<open>
  Claim C31: a message of a type nobody registered passes through unchanged: the bytes it was decoded from begin
  with the frame of its identifier and its whole payload, six bytes longer than the payload, and encoding the message
  again gives exactly this frame.
\<close>

theorem csm_unknown_exact:
  assumes "static_registry = Inr r" "registry_decode r data = Some (Csm_Unknown i payload)"
  shows "\<exists>frame rest. data = frame @ rest \<and> registry_encode r (Csm_Unknown i payload) = Inr frame \<and>
    frame = [0x40, 0x40] @ be16_bytes (of_nat (length payload + 6)) @ be16_bytes i @ payload \<and> length frame = length payload + 6"
proof -
  have r: "r = iap2_registry"
    using assms(1) by (simp add: static_registry_iap2)
  then obtain k content rest where frame: "length content \<le> CSM_PACKET_PAYLOAD_MAX" "data = frame_bytes k content @ rest"
    using assms(2) decode_no_frame [of data] by auto
  then have "k = i" "content = payload"
    using assms(2) decode_frame [OF frame(1), of k rest] by (auto simp: r split: option.splits)
  moreover have "packet_serialize (Csm_Unknown k content) = content"
    using payload_max_small [OF frame(1)]
    by (simp add: packet_serialize_def csm_serialized_def csm_with_vec_def csm_writer_new_def write_data_chunk_def checked_add_def Let_def)
  ultimately have "registry_encode r (Csm_Unknown i payload) = Inr (frame_bytes k content)"
    using frame(1) by (simp add: registry_encode_def id_of_def frame_new_ok frame_serialized)
  then show ?thesis
    using frame(2) \<open>k = i\<close> \<open>content = payload\<close> by (auto simp: frame_bytes_def)
qed

theorem csm_unknown_exact_witness:
  "registry_encode iap2_registry (Csm_Unknown 0x1234 [5]) = Inr [0x40, 0x40, 0, 7, 0x12, 0x34, 5]"
proof -
  have "map_of iap2_family 0x1234 = None"
    by (simp add: iap2_family_def)
  moreover have "be16_bytes 0x1234 = [0x12, 0x34]" "be16_bytes 7 = [0, 7]"
    by (simp_all add: be16_bytes_def)
  ultimately have "registry_decode iap2_registry [0x40, 0x40, 0, 7, 0x12, 0x34, 5, 6] = Some (Csm_Unknown 0x1234 [5])"
    using decode_frame [of "[5]" "0x1234" "[6]"]
    by (simp add: frame_bytes_def CSM_PACKET_PAYLOAD_MAX_def CSM_HEADER_SIZE_def)
  then show ?thesis
    using csm_unknown_exact [OF static_registry_iap2, of "[0x40, 0x40, 0, 7, 0x12, 0x34, 5, 6]" "0x1234" "[5]"] \<open>be16_bytes 0x1234 = _\<close> \<open>be16_bytes 7 = _\<close>
    by auto
qed



end
